(* ===== verification/Prelude.thy ===== *)
theory Prelude
  imports Main "HOL-Library.Word"
begin

text \<open>
  Shared vocabulary of the development: the exceptions of the code as values, sequencing of
  fallible steps, and the generic list lemmas the components use.

  The code signals an error by throwing (\<open>RAISE\<close>, \<open>RAISEF\<close> of stx/exception.h, whose second
  field is the exception's type name) and a run of it can also leave the defined behaviour of
  C++ (a read past the end of a buffer, a null dereference). Both are values of \<open>error\<close>; the
  text of the messages is not modelled.
\<close>

section \<open>Errors\<close>

text \<open>
  \<open>Raise k\<close> is an exception whose type name is \<open>k\<close>; \<open>Undefined u\<close> stands for a step
  the C++ standard gives no meaning to; \<open>OutOfFuel\<close> is the result of a model whose recursion
  bound is too small, and is proved unreachable where a bound is used.
\<close>

datatype exn =
    RuntimeError
  | ParseError
  | TypeError
  | IllegalArgumentError
  | IllegalStateError
  | IndexError
  | BufferOverflowError
  | EOFError
  | NotYetImplementedError
  | NotFoundError
  | NullPointerError
  | StdInvalidArgument
  | StdOutOfRange
  | StdLengthError
  | EncodingError

datatype undefined_behaviour =
    ReadOutOfBounds
  | NullDereference
  | SignedOverflow
  | DivisionByZero
  | ConversionOutOfRange
  | ShiftOutOfRange
  | WrongScratchType
  | IteratorInvalidated
  | MissingReturn

datatype error =
    Raise exn
  | Undefined undefined_behaviour
  | OutOfFuel

type_synonym 'a result = "error + 'a"

section \<open>Sequencing\<close>

text \<open>\<open>bindR m f\<close> runs \<open>f\<close> on the value of \<open>m\<close>; an exception in \<open>m\<close> skips \<open>f\<close>.\<close>

definition bindR :: "'a result \<Rightarrow> ('a \<Rightarrow> 'b result) \<Rightarrow> 'b result" where
  "bindR m f = (case m of Inl e \<Rightarrow> Inl e | Inr x \<Rightarrow> f x)"

named_theorems result_simps \<open>computation rules of the result type\<close>

lemma bindR_Inl [simp, result_simps]: "bindR (Inl e) f = Inl e"
  by (simp add: bindR_def)

lemma bindR_Inr [simp, result_simps]: "bindR (Inr x) f = f x"
  by (simp add: bindR_def)

lemma bindR_eq_Inr_iff:
  "bindR m f = Inr y \<longleftrightarrow> (\<exists>x. m = Inr x \<and> f x = Inr y)"
  by (cases m) simp_all

lemma bindR_eq_Inl_iff:
  "bindR m f = Inl e \<longleftrightarrow> m = Inl e \<or> (\<exists>x. m = Inr x \<and> f x = Inl e)"
  by (cases m) simp_all

lemma bindR_Inr_E [elim]:
  assumes "bindR m f = Inr y"
  obtains x where "m = Inr x" and "f x = Inr y"
  using assms by (auto simp: bindR_eq_Inr_iff)

lemma bindR_cong [fundef_cong]:
  assumes "m = m'" and "\<And>x. m' = Inr x \<Longrightarrow> f x = g x"
  shows "bindR m f = bindR m' g"
  using assms by (cases m') simp_all

lemma bindR_assoc: "bindR (bindR m f) g = bindR m (\<lambda>x. bindR (f x) g)"
  by (cases m) simp_all

text \<open>Running a list of fallible steps left to right, collecting the values.\<close>

fun mapR :: "('a \<Rightarrow> 'b result) \<Rightarrow> 'a list \<Rightarrow> 'b list result" where
  "mapR f [] = Inr []"
| "mapR f (x # xs) = bindR (f x) (\<lambda>y. bindR (mapR f xs) (\<lambda>ys. Inr (y # ys)))"

lemma mapR_Inr: "(\<And>x. x \<in> set xs \<Longrightarrow> f x = Inr (g x)) \<Longrightarrow> mapR f xs = Inr (map g xs)"
  by (induction xs) simp_all

lemma mapR_length: "mapR f xs = Inr ys \<Longrightarrow> length ys = length xs"
  by (induction xs arbitrary: ys) (auto simp: bindR_eq_Inr_iff)

lemma mapR_cong [fundef_cong]:
  assumes "xs = ys" and "\<And>x. x \<in> set ys \<Longrightarrow> f x = g x"
  shows "mapR f xs = mapR g ys"
proof -
  have "mapR f ys = mapR g ys"
    using assms(2) by (induction ys) simp_all
  with assms(1) show ?thesis by simp
qed

text \<open>A loop whose body may throw: the state is threaded through the list.\<close>

fun foldR :: "('s \<Rightarrow> 'a \<Rightarrow> 's result) \<Rightarrow> 's \<Rightarrow> 'a list \<Rightarrow> 's result" where
  "foldR f s [] = Inr s"
| "foldR f s (x # xs) = bindR (f s x) (\<lambda>s'. foldR f s' xs)"

lemma foldR_cong [fundef_cong]:
  assumes "s = s'" and "xs = ys" and "\<And>t x. x \<in> set ys \<Longrightarrow> f t x = g t x"
  shows "foldR f s xs = foldR g s' ys"
proof -
  have "foldR f s ys = foldR g s ys"
    using assms(3) by (induction ys arbitrary: s) simp_all
  with assms(1,2) show ?thesis by simp
qed

lemma foldR_append: "foldR f s (xs @ ys) = bindR (foldR f s xs) (\<lambda>s'. foldR f s' ys)"
  by (induction xs arbitrary: s) (simp_all add: bindR_assoc)

lemma foldR_map: "foldR f s (map h xs) = foldR (\<lambda>t x. f t (h x)) s xs"
  by (induction xs arbitrary: s) simp_all

lemma foldR_Inr: "(\<And>s x. x \<in> set xs \<Longrightarrow> f s x = Inr (g s x)) \<Longrightarrow> foldR f s xs = Inr (foldl g s xs)"
  by (induction xs arbitrary: s) simp_all

lemma foldR_invariant:
  assumes "foldR f s xs = Inr s'" and "I s"
    and "\<And>t x t'. x \<in> set xs \<Longrightarrow> I t \<Longrightarrow> f t x = Inr t' \<Longrightarrow> I t'"
  shows "I s'"
  using assms
proof (induction xs arbitrary: s)
  case Nil
  then show ?case by simp
next
  case (Cons x xs)
  from Cons.prems(1) obtain t where t: "f s x = Inr t" and rest: "foldR f t xs = Inr s'"
    by auto
  have "I t" using Cons.prems(3)[OF _ Cons.prems(2) t] by simp
  with rest show ?case using Cons.prems(3) by (auto intro: Cons.IH)
qed

text \<open>A search that stops at the first element that passes the test.\<close>

fun anyR :: "('a \<Rightarrow> bool result) \<Rightarrow> 'a list \<Rightarrow> bool result" where
  "anyR f [] = Inr False"
| "anyR f (x # xs) = bindR (f x) (\<lambda>b. if b then Inr True else anyR f xs)"

lemma anyR_cong [fundef_cong]:
  assumes "xs = ys" and "\<And>x. x \<in> set ys \<Longrightarrow> f x = g x"
  shows "anyR f xs = anyR g ys"
proof -
  have "anyR f ys = anyR g ys"
    using assms(2) by (induction ys) (simp_all cong: if_cong)
  with assms(1) show ?thesis by simp
qed

lemma anyR_Inr: "(\<And>x. x \<in> set xs \<Longrightarrow> f x = Inr (g x)) \<Longrightarrow> anyR f xs = Inr (list_ex g xs)"
  by (induction xs) simp_all

lemma anyR_append: "anyR f (xs @ ys) = bindR (anyR f xs) (\<lambda>b. if b then Inr True else anyR f ys)"
  by (induction xs) (auto simp: bindR_assoc intro!: arg_cong [where f = "bindR _"])

lemma anyR_False: "anyR f xs = Inr False \<longleftrightarrow> (\<forall>x\<in>set xs. f x = Inr False)"
  by (induction xs) (auto simp: bindR_eq_Inr_iff split: if_splits)

text \<open>Following a pointer that may be null, and an element of a vector that may be too short.\<close>

definition deref :: "'a option \<Rightarrow> 'a result" where
  "deref p = (case p of None \<Rightarrow> Inl (Undefined NullDereference) | Some x \<Rightarrow> Inr x)"

definition elemR :: "'a list \<Rightarrow> nat \<Rightarrow> 'a result" where
  "elemR xs k = (if k < length xs then Inr (xs ! k) else Inl (Undefined ReadOutOfBounds))"

lemma deref_simps [simp]: "deref (Some x) = Inr x" "deref None = Inl (Undefined NullDereference)"
  by (simp_all add: deref_def)

lemma elemR_simps [simp]:
  "elemR [] k = Inl (Undefined ReadOutOfBounds)" "elemR (x # xs) 0 = Inr x" "elemR (x # xs) (Suc k) = elemR xs k"
  by (simp_all add: elemR_def)

section \<open>Runs that may not end\<close>

text \<open>
  The result of code whose recursion is not bounded is optional: \<open>None\<close> is a run that does not
  return. \<open>bindO\<close> sequences such runs; a run that does not return or throws ends the sequence.
\<close>

type_synonym 'a run = "'a result option"

definition bindO :: "'a run \<Rightarrow> ('a \<Rightarrow> 'b run) \<Rightarrow> 'b run" where
  "bindO m f = Option.bind m (\<lambda>r. case r of Inl e \<Rightarrow> Some (Inl e) | Inr x \<Rightarrow> f x)"

lemma bindO_simps [simp]:
  "bindO None f = None" "bindO (Some (Inl e)) f = Some (Inl e)" "bindO (Some (Inr x)) f = f x"
  by (simp_all add: bindO_def)

lemma bindO_mono [partial_function_mono]:
  assumes "mono_option F" and "\<And>x. mono_option (\<lambda>f. G x f)"
  shows "mono_option (\<lambda>f. bindO (F f) (\<lambda>x. G x f))"
  unfolding bindO_def
  by (intro bind_mono assms) (auto intro!: monotoneI option.leq_refl dest: monotoneD [OF assms(2)] split: sum.split)

lemma bindO_cong [fundef_cong]:
  assumes "m = m'" and "\<And>x. m' = Some (Inr x) \<Longrightarrow> f x = g x"
  shows "bindO m f = bindO m' g"
  using assms by (cases m') (auto simp: bindO_def split: sum.splits)

lemma bindO_eq_Some_iff:
  "bindO m f = Some r \<longleftrightarrow> (\<exists>e. m = Some (Inl e) \<and> r = Inl e) \<or> (\<exists>x. m = Some (Inr x) \<and> f x = Some r)"
  by (cases m) (auto simp: bindO_def split: sum.splits)

lemma bindO_None_iff: "bindO m f = None \<longleftrightarrow> m = None \<or> (\<exists>x. m = Some (Inr x) \<and> f x = None)"
  by (cases m) (auto simp: bindO_def split: sum.splits)

lemma bindO_assoc: "bindO (bindO m f) g = bindO m (\<lambda>x. bindO (f x) g)"
  by (cases m) (auto simp: bindO_def split: sum.splits)

section \<open>Lists\<close>

lemma takeWhile_append_stop: "\<not> P y \<Longrightarrow> takeWhile P (xs @ y # ys) = takeWhile P xs"
  by (induction xs) simp_all

lemma dropWhile_append_stop: "\<not> P y \<Longrightarrow> dropWhile P (xs @ y # ys) = dropWhile P xs @ y # ys"
  by (induction xs) simp_all

lemma length_dropWhile_less:
  "xs \<noteq> [] \<Longrightarrow> P (hd xs) \<Longrightarrow> length (dropWhile P xs) < length xs"
  by (cases xs) (simp_all add: le_imp_less_Suc length_dropWhile_le)

end
