(* ===== verification/Token.thy ===== *)
theory Token
  imports Prelude
begin

text \<open>
  Tokens of the query language: src/csql/parser/token.h and token.cc. A token is a type and the
  text it was read from; the text is empty for the punctuation and keyword tokens the tokenizer
  makes with the one-argument constructor.
\<close>

section \<open>Token types\<close>

datatype (plugins only: size) token_type =
    T_SELECT | T_FROM | T_WHERE | T_GROUP | T_ORDER | T_BY | T_HAVING | T_LIMIT | T_OFFSET
  | T_ASC | T_DESC | T_COMMA | T_DOT | T_IDENTIFIER | T_STRING | T_NUMERIC | T_SEMICOLON
  | T_LPAREN | T_RPAREN | T_AND | T_OR | T_EQUAL | T_NEQUAL | T_PLUS | T_MINUS | T_ASTERISK
  | T_SLASH | T_AS | T_NOT | T_TRUE | T_FALSE | T_BANG | T_CIRCUMFLEX | T_TILDE | T_PERCENT
  | T_DIV | T_MOD | T_AMPERSAND | T_PIPE | T_LSHIFT | T_RSHIFT | T_LT | T_LTE | T_GT | T_GTE
  | T_BEGIN | T_CREATE | T_WITH | T_IMPORT | T_TABLE | T_TABLES | T_ON | T_OFF | T_EOF | T_SHOW
  | T_DESCRIBE | T_EXPLAIN | T_WITHIN | T_RECORD | T_DRAW | T_LINECHART | T_AREACHART
  | T_BARCHART | T_POINTCHART | T_HEATMAP | T_HISTOGRAM | T_AXIS | T_TOP | T_RIGHT | T_BOTTOM
  | T_LEFT | T_ORIENTATION | T_HORIZONTAL | T_VERTICAL | T_STACKED | T_XDOMAIN | T_YDOMAIN
  | T_ZDOMAIN | T_XGRID | T_YGRID | T_LOGARITHMIC | T_INVERT | T_TITLE | T_SUBTITLE | T_GRID
  | T_LABELS | T_TICKS | T_INSIDE | T_OUTSIDE | T_ROTATE | T_LEGEND | T_OVER | T_TIMEWINDOW

text \<open>\<open>Token\<close> of token.h: \<open>type_\<close> and \<open>str_\<close>.\<close>

datatype (plugins only: size) token = Token (getType: token_type) (getString: string)

text \<open>The constructor with a type only leaves the string empty.\<close>

definition token0 :: "token_type \<Rightarrow> token" where
  "token0 t = Token t []"

lemma getType_token0 [simp]: "getType (token0 t) = t"
  by (simp add: token0_def)

lemma getString_token0 [simp]: "getString (token0 t) = []"
  by (simp add: token0_def)

text \<open>The names the error messages print (\<open>Token::getTypeName\<close>).\<close>

fun getTypeName :: "token_type \<Rightarrow> string" where
  "getTypeName T_SELECT = ''T_SELECT''"
| "getTypeName T_FROM = ''T_FROM''"
| "getTypeName T_WHERE = ''T_WHERE''"
| "getTypeName T_GROUP = ''T_GROUP''"
| "getTypeName T_ORDER = ''T_ORDER''"
| "getTypeName T_BY = ''T_BY''"
| "getTypeName T_HAVING = ''T_HAVING''"
| "getTypeName T_LIMIT = ''T_LIMIT''"
| "getTypeName T_OFFSET = ''T_OFFSET''"
| "getTypeName T_ASC = ''T_ASC''"
| "getTypeName T_DESC = ''T_DESC''"
| "getTypeName T_COMMA = ''T_COMMA''"
| "getTypeName T_DOT = ''T_DOT''"
| "getTypeName T_IDENTIFIER = ''T_IDENTIFIER''"
| "getTypeName T_STRING = ''T_STRING''"
| "getTypeName T_NUMERIC = ''T_NUMERIC''"
| "getTypeName T_SEMICOLON = ''T_SEMICOLON''"
| "getTypeName T_LPAREN = ''T_LPAREN''"
| "getTypeName T_RPAREN = ''T_RPAREN''"
| "getTypeName T_AND = ''T_AND''"
| "getTypeName T_OR = ''T_OR''"
| "getTypeName T_EQUAL = ''T_EQUAL''"
| "getTypeName T_NEQUAL = ''T_NEQUAL''"
| "getTypeName T_PLUS = ''T_PLUS''"
| "getTypeName T_MINUS = ''T_MINUS''"
| "getTypeName T_ASTERISK = ''T_ASTERISK''"
| "getTypeName T_SLASH = ''T_SLASH''"
| "getTypeName T_AS = ''T_AS''"
| "getTypeName T_NOT = ''T_NOT''"
| "getTypeName T_TRUE = ''T_TRUE''"
| "getTypeName T_FALSE = ''T_FALSE''"
| "getTypeName T_BANG = ''T_BANG''"
| "getTypeName T_CIRCUMFLEX = ''T_CIRCUMFLEX''"
| "getTypeName T_TILDE = ''T_TILDE''"
| "getTypeName T_PERCENT = ''T_PERCENT''"
| "getTypeName T_DIV = ''T_DIV''"
| "getTypeName T_MOD = ''T_MOD''"
| "getTypeName T_AMPERSAND = ''T_AMPERSAND''"
| "getTypeName T_PIPE = ''T_PIPE''"
| "getTypeName T_LSHIFT = ''T_LSHIFT''"
| "getTypeName T_RSHIFT = ''T_RSHIFT''"
| "getTypeName T_LT = ''T_LT''"
| "getTypeName T_LTE = ''T_LTE''"
| "getTypeName T_GT = ''T_GT''"
| "getTypeName T_GTE = ''T_GTE''"
| "getTypeName T_BEGIN = ''T_BEGIN''"
| "getTypeName T_WITHIN = ''T_WITHIN''"
| "getTypeName T_RECORD = ''T_RECORD''"
| "getTypeName T_CREATE = ''T_CREATE''"
| "getTypeName T_WITH = ''T_WITH''"
| "getTypeName T_IMPORT = ''T_IMPORT''"
| "getTypeName T_TABLE = ''T_TABLE''"
| "getTypeName T_TABLES = ''T_TABLES''"
| "getTypeName T_ON = ''T_ON''"
| "getTypeName T_OFF = ''T_OFF''"
| "getTypeName T_SHOW = ''T_SHOW''"
| "getTypeName T_DESCRIBE = ''T_DESCRIBE''"
| "getTypeName T_EXPLAIN = ''T_EXPLAIN''"
| "getTypeName T_EOF = ''T_EOF''"
| "getTypeName T_DRAW = ''T_DRAW''"
| "getTypeName T_LINECHART = ''T_LINECHART''"
| "getTypeName T_AREACHART = ''T_AREACHART''"
| "getTypeName T_BARCHART = ''T_BARCHART''"
| "getTypeName T_POINTCHART = ''T_POINTCHART''"
| "getTypeName T_HEATMAP = ''T_HEATMAP''"
| "getTypeName T_HISTOGRAM = ''T_HISTOGRAM''"
| "getTypeName T_AXIS = ''T_AXIS''"
| "getTypeName T_TOP = ''T_TOP''"
| "getTypeName T_RIGHT = ''T_RIGHT''"
| "getTypeName T_BOTTOM = ''T_BOTTOM''"
| "getTypeName T_LEFT = ''T_LEFT''"
| "getTypeName T_ORIENTATION = ''T_ORIENTATION''"
| "getTypeName T_HORIZONTAL = ''T_HORIZONTAL''"
| "getTypeName T_VERTICAL = ''T_VERTICAL''"
| "getTypeName T_STACKED = ''T_STACKED''"
| "getTypeName T_XDOMAIN = ''T_XDOMAIN''"
| "getTypeName T_YDOMAIN = ''T_YDOMAIN''"
| "getTypeName T_ZDOMAIN = ''T_ZDOMAIN''"
| "getTypeName T_XGRID = ''T_XGRID''"
| "getTypeName T_YGRID = ''T_YGRID''"
| "getTypeName T_LOGARITHMIC = ''T_LOGARITHMIC''"
| "getTypeName T_INVERT = ''T_INVERT''"
| "getTypeName T_TITLE = ''T_TITLE''"
| "getTypeName T_SUBTITLE = ''T_SUBTITLE''"
| "getTypeName T_GRID = ''T_GRID''"
| "getTypeName T_LABELS = ''T_LABELS''"
| "getTypeName T_TICKS = ''T_TICKS''"
| "getTypeName T_INSIDE = ''T_INSIDE''"
| "getTypeName T_OUTSIDE = ''T_OUTSIDE''"
| "getTypeName T_ROTATE = ''T_ROTATE''"
| "getTypeName T_LEGEND = ''T_LEGEND''"
| "getTypeName T_OVER = ''T_OVER''"
| "getTypeName T_TIMEWINDOW = ''T_TIMEWINDOW''"

section \<open>Comparing a token with a keyword\<close>

text \<open>
  \<open>Token::operator==(const std::string&)\<close> compares the lengths and then calls
  \<open>strncasecmp\<close>, which in the C locale folds the letters \<open>A\<close> to \<open>Z\<close> only. The comparison
  looks at the text alone, never at the type. (\<open>strncasecmp\<close> also stops at a NUL byte, where both
  texts have one; no keyword of the code holds a NUL byte, so that branch is never taken.)
\<close>

definition ascii_tolower :: "char \<Rightarrow> char" where
  "ascii_tolower c = (let n = of_char c :: nat in
     if 65 \<le> n \<and> n \<le> 90 then char_of (n + 32) else c)"

definition token_is :: "token \<Rightarrow> string \<Rightarrow> bool" where
  "token_is t s \<longleftrightarrow> length (getString t) = length s \<and>
     map ascii_tolower (getString t) = map ascii_tolower s"

text \<open>\<open>Token::operator==(const Token&)\<close>: type and text.\<close>

definition token_eq :: "token \<Rightarrow> token \<Rightarrow> bool" where
  "token_eq a b \<longleftrightarrow> getType a = getType b \<and> getString a = getString b"

lemma token_eq_iff: "token_eq a b \<longleftrightarrow> a = b"
  by (cases a, cases b) (simp add: token_eq_def)

lemma ascii_tolower_idem: "ascii_tolower (ascii_tolower c) = ascii_tolower c"
  by (simp add: ascii_tolower_def Let_def)

lemma token_is_fold: "token_is (Token ty (map ascii_tolower s)) k = token_is (Token ty s) k"
  by (simp add: token_is_def ascii_tolower_idem comp_def)

end
