(* ===== verification/Tokenizer.thy ===== *)
theory Tokenizer
  imports Token
begin

text \<open>
  The tokenizer, \<open>tokenizeQuery\<close> of src/csql/parser/tokenize.cc. The code walks a pointer
  \<open>cur\<close> towards \<open>end\<close>; the model's argument is the text between the two. The buffer is that of
  a \<open>std::string\<close> (all callers pass \<open>c_str()\<close> and \<open>size()\<close>): the byte at \<open>end\<close> is NUL, and
  the byte after it is outside the object, so a read there is \<open>Undefined ReadOutOfBounds\<close>.

  One round of the \<open>next:\<close> loop is \<open>next_token\<close>; \<open>tokenizeQuery\<close> repeats it.
\<close>

section \<open>Character classes\<close>

abbreviation quote_single :: char where "quote_single \<equiv> CHR 0x27"
abbreviation quote_double :: char where "quote_double \<equiv> CHR 0x22"
abbreviation quote_back :: char where "quote_back \<equiv> CHR 0x60"
abbreviation backslash :: char where "backslash \<equiv> CHR 0x5C"
abbreviation newline :: char where "newline \<equiv> CHR 0x0A"

definition is_whitespace :: "char \<Rightarrow> bool" where
  "is_whitespace c \<longleftrightarrow> c = CHR '' '' \<or> c = CHR 0x09 \<or> c = CHR 0x0A \<or> c = CHR 0x0D"

definition is_digit :: "char \<Rightarrow> bool" where
  "is_digit c \<longleftrightarrow> (let n = of_char c :: nat in 48 \<le> n \<and> n \<le> 57)"

text \<open>The loop condition of numeric literals: digits and dots, in any order.\<close>

definition is_numeric_char :: "char \<Rightarrow> bool" where
  "is_numeric_char c \<longleftrightarrow> is_digit c \<or> c = CHR ''.''"

definition is_quote :: "char \<Rightarrow> bool" where
  "is_quote c \<longleftrightarrow> c = quote_back \<or> c = quote_double \<or> c = quote_single"

text \<open>The characters that end an identifier.\<close>

definition is_delimiter :: "char \<Rightarrow> bool" where
  "is_delimiter c \<longleftrightarrow> is_whitespace c \<or> is_quote c \<or> c \<in> set '',.;()=+-*!/^~%&|<>''"

section \<open>Keywords\<close>

text \<open>
  The chain of keyword tests, in the order of the code: the words of the query language, the
  words of the chart statements, and their options. The last two entries are the shift operators,
  which the code tests for here although no identifier can hold an angle bracket.
\<close>

definition query_keywords :: "(string \<times> token_type) list" where
  "query_keywords = [
     (''AS'', T_AS),
     (''ASC'', T_ASC),
     (''DESC'', T_DESC),
     (''NOT'', T_NOT),
     (''TRUE'', T_TRUE),
     (''FALSE'', T_FALSE),
     (''SELECT'', T_SELECT),
     (''FROM'', T_FROM),
     (''WHERE'', T_WHERE),
     (''GROUP'', T_GROUP),
     (''ORDER'', T_ORDER),
     (''BY'', T_BY),
     (''HAVING'', T_HAVING),
     (''AND'', T_AND),
     (''OR'', T_OR),
     (''LIMIT'', T_LIMIT),
     (''OFFSET'', T_OFFSET),
     (''CREATE'', T_CREATE),
     (''WITH'', T_WITH),
     (''BEGIN'', T_BEGIN),
     (''WITHIN'', T_WITHIN),
     (''RECORD'', T_RECORD),
     (''MOD'', T_MOD)]"

definition chart_keywords :: "(string \<times> token_type) list" where
  "chart_keywords = [
     (''DRAW'', T_DRAW),
     (''TOP'', T_TOP),
     (''RIGHT'', T_RIGHT),
     (''BOTTOM'', T_BOTTOM),
     (''LEFT'', T_LEFT),
     (''IMPORT'', T_IMPORT),
     (''TABLE'', T_TABLE),
     (''TABLES'', T_TABLES),
     (''AXIS'', T_AXIS),
     (''BARCHART'', T_BARCHART),
     (''LINECHART'', T_LINECHART),
     (''AREACHART'', T_AREACHART),
     (''POINTCHART'', T_POINTCHART),
     (''HEATMAP'', T_HEATMAP),
     (''HISTOGRAM'', T_HISTOGRAM),
     (''ORIENTATION'', T_ORIENTATION),
     (''HORIZONTAL'', T_HORIZONTAL),
     (''VERTICAL'', T_VERTICAL),
     (''STACKED'', T_STACKED)]"

definition option_keywords :: "(string \<times> token_type) list" where
  "option_keywords = [
     (''ON'', T_ON),
     (''OFF'', T_OFF),
     (''SHOW'', T_SHOW),
     (''DESCRIBE'', T_DESCRIBE),
     (''EXPLAIN'', T_EXPLAIN),
     (''XDOMAIN'', T_XDOMAIN),
     (''YDOMAIN'', T_YDOMAIN),
     (''ZDOMAIN'', T_ZDOMAIN),
     (''LOGARITHMIC'', T_LOGARITHMIC),
     (''INVERT'', T_INVERT),
     (''TITLE'', T_TITLE),
     (''SUBTITLE'', T_SUBTITLE),
     (''GRID'', T_GRID),
     (''LABELS'', T_LABELS),
     (''TICKS'', T_TICKS),
     (''INSIDE'', T_INSIDE),
     (''OUTSIDE'', T_OUTSIDE),
     (''ROTATE'', T_ROTATE),
     (''LEGEND'', T_LEGEND),
     (''OVER'', T_OVER),
     (''TIMEWINDOW'', T_TIMEWINDOW),
     (''<<'', T_LSHIFT),
     (''>>'', T_RSHIFT)]"

definition keyword_table :: "(string \<times> token_type) list" where
  "keyword_table = query_keywords @ chart_keywords @ option_keywords"

text \<open>The token of an unquoted word: the first keyword it equals, or an identifier.\<close>

definition word_token :: "string \<Rightarrow> token" where
  "word_token s = (let t = Token T_IDENTIFIER s in
     case find (\<lambda>(k, ty). token_is t k) keyword_table of
       None \<Rightarrow> t
     | Some (k, ty) \<Rightarrow> token0 ty)"

section \<open>One round of the loop\<close>

text \<open>
  A round appends a token and moves on, moves on without a token (a comment), or leaves \<open>cur\<close>
  beyond the terminating NUL, where the next round reads.
\<close>

datatype lex_step = Lex_Token token string | Lex_Skip string | Lex_PastEnd

text \<open>The single character tokens of the first switch.\<close>

definition punctuation :: "char \<Rightarrow> token_type option" where
  "punctuation c =
     (if c = CHR '';'' then Some T_SEMICOLON
      else if c = CHR '','' then Some T_COMMA
      else if c = CHR ''.'' then Some T_DOT
      else if c = CHR ''('' then Some T_LPAREN
      else if c = CHR '')'' then Some T_RPAREN
      else None)"

text \<open>
  The loop over a quoted string: the text up to the closing quote and what follows it, or
  \<open>None\<close> when the input ends first. \<open>lvl\<close> is \<open>escape_level\<close>: it counts backslashes, and only
  a character that is neither a backslash nor the quote resets it.
\<close>

fun lex_quoted :: "char \<Rightarrow> nat \<Rightarrow> string \<Rightarrow> string \<times> string option" where
  "lex_quoted q lvl [] = ([], None)"
| "lex_quoted q lvl (c # cs) =
     (if c = q \<and> even lvl then ([], Some cs)
      else let lvl' = (if c = q then lvl else if c = backslash then Suc lvl else 0);
               (s, rest) = lex_quoted q lvl' cs
           in (c # s, rest))"

text \<open>
  A quoted string: \<open>T_IDENTIFIER\<close> for backticks, \<open>T_STRING\<close> otherwise. The text is kept as
  written, backslashes included. Without a closing quote the code still steps over one byte.
\<close>

definition lex_string :: "char \<Rightarrow> string \<Rightarrow> lex_step" where
  "lex_string q cs = (case lex_quoted q 0 cs of
       (s, Some rest) \<Rightarrow> Lex_Token (Token (if q = quote_back then T_IDENTIFIER else T_STRING) s) rest
     | (s, None) \<Rightarrow> Lex_PastEnd)"

text \<open>The operators; \<open>--\<close> starts a comment that runs to the end of the line.\<close>

definition lex_operator :: "char \<Rightarrow> string \<Rightarrow> lex_step option" where
  "lex_operator c cs =
     (if c = CHR ''='' then Some (Lex_Token (token0 T_EQUAL) cs)
      else if c = CHR ''+'' then Some (Lex_Token (token0 T_PLUS) cs)
      else if c = CHR ''-'' then
        (if cs \<noteq> [] \<and> hd cs = CHR ''-'' then Some (Lex_Skip (dropWhile (\<lambda>x. x \<noteq> newline) (c # cs)))
         else Some (Lex_Token (token0 T_MINUS) cs))
      else if c = CHR ''*'' then Some (Lex_Token (token0 T_ASTERISK) cs)
      else if c = CHR ''!'' then
        (if cs \<noteq> [] \<and> hd cs = CHR ''='' then Some (Lex_Token (token0 T_NEQUAL) (tl cs))
         else Some (Lex_Token (token0 T_BANG) cs))
      else if c = CHR ''/'' then Some (Lex_Token (token0 T_SLASH) cs)
      else if c = CHR ''^'' then Some (Lex_Token (token0 T_CIRCUMFLEX) cs)
      else if c = CHR ''~'' then Some (Lex_Token (token0 T_TILDE) cs)
      else if c = CHR ''%'' then Some (Lex_Token (token0 T_PERCENT) cs)
      else if c = CHR ''&'' then Some (Lex_Token (token0 T_AMPERSAND) cs)
      else if c = CHR ''|'' then Some (Lex_Token (token0 T_PIPE) cs)
      else if c = CHR ''<'' then
        (if cs \<noteq> [] \<and> hd cs = CHR ''='' then Some (Lex_Token (token0 T_LTE) (tl cs))
         else Some (Lex_Token (token0 T_LT) cs))
      else if c = CHR ''>'' then
        (if cs \<noteq> [] \<and> hd cs = CHR ''='' then Some (Lex_Token (token0 T_GTE) (tl cs))
         else Some (Lex_Token (token0 T_GT) cs))
      else None)"

text \<open>An unquoted word runs to the next delimiter.\<close>

definition lex_word :: "string \<Rightarrow> lex_step" where
  "lex_word s = Lex_Token (word_token (takeWhile (\<lambda>c. \<not> is_delimiter c) s))
                          (dropWhile (\<lambda>c. \<not> is_delimiter c) s)"

definition lex_number :: "string \<Rightarrow> lex_step" where
  "lex_number s = Lex_Token (Token T_NUMERIC (takeWhile is_numeric_char s))
                            (dropWhile is_numeric_char s)"

definition next_token :: "char \<Rightarrow> string \<Rightarrow> lex_step" where
  "next_token c cs =
     (case punctuation c of Some ty \<Rightarrow> Lex_Token (token0 ty) cs | None \<Rightarrow>
      if is_digit c then lex_number (c # cs)
      else if is_quote c then lex_string c cs
      else case lex_operator c cs of Some step \<Rightarrow> step | None \<Rightarrow> lex_word (c # cs))"

section \<open>Each round consumes input\<close>

lemma lex_quoted_shorter: "lex_quoted q lvl cs = (s, Some rest) \<Longrightarrow> length rest < length cs"
proof (induction q lvl cs arbitrary: s rule: lex_quoted.induct)
  case (1 q lvl)
  then show ?case by simp
next
  case (2 q lvl c cs)
  show ?case
  proof (cases "c = q \<and> even lvl")
    case True
    with 2(2) show ?thesis by simp
  next
    case False
    then obtain s' where
      "lex_quoted q (if c = q then lvl else if c = backslash then Suc lvl else 0) cs = (s', Some rest)"
      using 2(2) by (auto simp: Let_def split: prod.splits)
    from 2(1)[OF False refl this] show ?thesis by simp
  qed
qed

lemma lex_operator_None_word:
  assumes "punctuation c = None" and "\<not> is_quote c" and "lex_operator c cs = None"
    and "\<not> is_whitespace c"
  shows "\<not> is_delimiter c"
  using assms by (auto simp: is_delimiter_def punctuation_def lex_operator_def split: if_splits)

lemma lex_operator_shorter:
  assumes "lex_operator c cs = Some step"
  shows "case step of Lex_Token t r \<Rightarrow> length r \<le> length cs
           | Lex_Skip r \<Rightarrow> length r \<le> length cs | Lex_PastEnd \<Rightarrow> False"
  using assms unfolding lex_operator_def
  by (auto split: if_splits intro: length_dropWhile_le)

lemma next_token_shorter:
  assumes "\<not> is_whitespace c"
  shows "next_token c cs = Lex_Token t r \<Longrightarrow> length r \<le> length cs"
    and "next_token c cs = Lex_Skip r \<Longrightarrow> length r \<le> length cs"
proof -
  have num: "length (dropWhile is_numeric_char (c # cs)) \<le> length cs" if "is_digit c"
    using that by (simp add: is_numeric_char_def length_dropWhile_le)
  have word: "length (dropWhile (\<lambda>c. \<not> is_delimiter c) (c # cs)) \<le> length cs" if "\<not> is_delimiter c"
    using that by (simp add: length_dropWhile_le)
  note quoted = lex_quoted_shorter [of c 0 cs]
  show "next_token c cs = Lex_Token t r \<Longrightarrow> length r \<le> length cs"
    unfolding next_token_def lex_number_def lex_string_def lex_word_def
    using num word lex_operator_None_word [OF _ _ _ assms] quoted lex_operator_shorter [of c cs]
    by (auto split: option.splits if_splits prod.splits dest!: quoted less_imp_le_nat)
  show "next_token c cs = Lex_Skip r \<Longrightarrow> length r \<le> length cs"
    unfolding next_token_def lex_number_def lex_string_def lex_word_def
    using lex_operator_shorter [of c cs]
    by (auto split: option.splits if_splits prod.splits)
qed

lemma dropWhile_Cons_props:
  assumes "dropWhile P s = c # cs"
  shows "\<not> P c" and "length cs < length s"
proof -
  show "\<not> P c" using assms by (simp add: dropWhile_eq_Cons_conv)
  have "length (dropWhile P s) \<le> length s" by (rule length_dropWhile_le)
  with assms show "length cs < length s" by simp
qed

section \<open>The tokenizer\<close>

function tokenizeQuery :: "string \<Rightarrow> token list result" where
  "tokenizeQuery s =
     (case dropWhile is_whitespace s of
        [] \<Rightarrow> Inr []
      | c # cs \<Rightarrow>
          (case next_token c cs of
             Lex_Token t rest \<Rightarrow> bindR (tokenizeQuery rest) (\<lambda>ts. Inr (t # ts))
           | Lex_Skip rest \<Rightarrow> tokenizeQuery rest
           | Lex_PastEnd \<Rightarrow> Inl (Undefined ReadOutOfBounds)))"
  by pat_completeness auto

termination
proof (relation "measure length", goal_cases)
  case 1
  show ?case by simp
next
  case (2 s c cs t rest)
  then show ?case
    using dropWhile_Cons_props [OF 2(1)] next_token_shorter(1) by fastforce
next
  case (3 s c cs rest)
  then show ?case
    using dropWhile_Cons_props [OF 3(1)] next_token_shorter(2) by fastforce
qed

declare tokenizeQuery.simps [simp del]

section \<open>Rounds and appended input\<close>

text \<open>
  A round that stays inside the input does the same when a line break and more text follow: this
  is what makes the tokens of a query independent of the text after a line break.
\<close>

lemma lex_quoted_append:
  "lex_quoted q lvl cs = (s, Some rest) \<Longrightarrow> lex_quoted q lvl (cs @ ys) = (s, Some (rest @ ys))"
proof (induction q lvl cs arbitrary: s rule: lex_quoted.induct)
  case (1 q lvl)
  then show ?case by simp
next
  case (2 q lvl c cs)
  show ?case
  proof (cases "c = q \<and> even lvl")
    case True
    with 2(2) show ?thesis by simp
  next
    case False
    then obtain s' where s': "s = c # s'" and rec:
      "lex_quoted q (if c = q then lvl else if c = backslash then Suc lvl else 0) cs = (s', Some rest)"
      using 2(2) by (auto simp: Let_def split: prod.splits)
    from 2(1)[OF False refl rec] False s' show ?thesis by (auto simp: Let_def)
  qed
qed

fun step_append :: "lex_step \<Rightarrow> string \<Rightarrow> lex_step" where
  "step_append (Lex_Token t r) ys = Lex_Token t (r @ ys)"
| "step_append (Lex_Skip r) ys = Lex_Skip (r @ ys)"
| "step_append Lex_PastEnd ys = Lex_PastEnd"

lemma not_numeric_newline: "\<not> is_numeric_char newline"
  by (simp add: is_numeric_char_def is_digit_def)

lemma delimiter_newline: "is_delimiter newline"
  by (simp add: is_delimiter_def is_whitespace_def)

lemma whitespace_newline: "is_whitespace newline"
  by (simp add: is_whitespace_def)

lemma lex_string_append:
  "lex_string q cs \<noteq> Lex_PastEnd \<Longrightarrow> lex_string q (cs @ ys) = step_append (lex_string q cs) ys"
  by (auto simp: lex_string_def lex_quoted_append split: prod.splits option.splits)

lemma lex_number_append:
  "lex_number (s @ newline # ys) = step_append (lex_number s) (newline # ys)"
  by (simp add: lex_number_def takeWhile_append_stop dropWhile_append_stop not_numeric_newline)

lemma lex_word_append:
  "lex_word (s @ newline # ys) = step_append (lex_word s) (newline # ys)"
  using delimiter_newline by (simp add: lex_word_def takeWhile_append_stop dropWhile_append_stop)

lemma lex_operator_append:
  "lex_operator c (cs @ newline # ys) = map_option (\<lambda>st. step_append st (newline # ys)) (lex_operator c cs)"
  by (cases cs) (simp_all add: lex_operator_def dropWhile_append_stop)

lemma next_token_append:
  assumes "next_token c cs \<noteq> Lex_PastEnd"
  shows "next_token c (cs @ newline # ys) = step_append (next_token c cs) (newline # ys)"
  using assms lex_number_append [of "c # cs" ys] lex_word_append [of "c # cs" ys]
  by (auto simp: next_token_def lex_string_append lex_operator_append split: option.splits)

lemma dropWhile_append_Nil:
  "dropWhile P s = [] \<Longrightarrow> dropWhile P (s @ t) = dropWhile P t"
  by (simp add: dropWhile_append dropWhile_eq_Nil_conv)

lemma dropWhile_append_Cons:
  "dropWhile P s = c # cs \<Longrightarrow> dropWhile P (s @ t) = c # cs @ t"
  by (induction s) (auto split: if_splits)

lemma tokenizeQuery_skip: "is_whitespace c \<Longrightarrow> tokenizeQuery (c # s) = tokenizeQuery s"
  by (simp add: tokenizeQuery.simps [of "c # s"] tokenizeQuery.simps [of s])

lemma tokenizeQuery_line:
  assumes "tokenizeQuery a = Inr ts"
  shows "tokenizeQuery (a @ newline # b) = bindR (tokenizeQuery b) (\<lambda>us. Inr (ts @ us))"
  using assms
proof (induction a arbitrary: ts rule: tokenizeQuery.induct)
  case (1 s)
  show ?case
  proof (cases "dropWhile is_whitespace s")
    case Nil
    then have "dropWhile is_whitespace (s @ newline # b) = dropWhile is_whitespace b"
      by (simp add: dropWhile_append_Nil whitespace_newline)
    moreover from Nil 1(3) have "ts = []"
      by (simp add: tokenizeQuery.simps [of s] del: dropWhile_eq_Nil_conv)
    ultimately show ?thesis
      by (cases "tokenizeQuery b")
         (simp_all add: tokenizeQuery.simps [of b] tokenizeQuery.simps [of "s @ newline # b"])
  next
    case (Cons c cs)
    then have app: "dropWhile is_whitespace (s @ newline # b) = c # cs @ newline # b"
      by (rule dropWhile_append_Cons)
    note unfold = tokenizeQuery.simps [of s] tokenizeQuery.simps [of "s @ newline # b"]
    have "next_token c cs \<noteq> Lex_PastEnd"
      using 1(3) Cons by (auto simp: unfold)
    note step = next_token_append [OF this, of b]
    show ?thesis
    proof (cases "next_token c cs")
      case (Lex_Token t r)
      then obtain us where r: "tokenizeQuery r = Inr us" and ts: "ts = t # us"
        using 1(3) Cons by (auto simp: unfold)
      show ?thesis
        using 1(1)[OF Cons Lex_Token r] Lex_Token Cons step app ts
        by (simp add: unfold bindR_assoc)
    next
      case (Lex_Skip r)
      then have "tokenizeQuery r = Inr ts"
        using 1(3) Cons by (simp add: unfold)
      with 1(2)[OF Cons Lex_Skip this] Lex_Skip Cons step app show ?thesis
        by (simp add: unfold)
    next
      case Lex_PastEnd
      with \<open>next_token c cs \<noteq> Lex_PastEnd\<close> show ?thesis by simp
    qed
  qed
qed

section \<open>Single tokens\<close>

text \<open>The spelling of the operator and punctuation tokens.\<close>

definition symbol_table :: "(string \<times> token_type) list" where
  "symbol_table =
     [('';'', T_SEMICOLON), ('','', T_COMMA), (''.'', T_DOT), (''('', T_LPAREN), ('')'', T_RPAREN),
      (''='', T_EQUAL), (''+'', T_PLUS), (''-'', T_MINUS), (''*'', T_ASTERISK), (''!='', T_NEQUAL),
      (''!'', T_BANG), (''/'', T_SLASH), (''^'', T_CIRCUMFLEX), (''~'', T_TILDE), (''%'', T_PERCENT),
      (''&'', T_AMPERSAND), (''|'', T_PIPE), (''<='', T_LTE), (''<'', T_LT), (''>='', T_GTE),
      (''>'', T_GT)]"

text \<open>The keywords that can be written as an unquoted word.\<close>

definition plain_keywords :: "(string \<times> token_type) list" where
  "plain_keywords = filter (\<lambda>(k, ty). \<forall>c \<in> set k. \<not> is_delimiter c) keyword_table"

lemma tokenizeQuery_single:
  assumes "\<not> is_whitespace c" and "next_token c cs = Lex_Token t []"
  shows "tokenizeQuery (c # cs) = Inr [t]"
  using assms by (simp add: tokenizeQuery.simps [of "c # cs"] tokenizeQuery.simps [of "[]"])

lemma tokenizeQuery_symbol:
  "(k, ty) \<in> set symbol_table \<Longrightarrow> tokenizeQuery k = Inr [token0 ty]"
  by (auto simp: symbol_table_def next_token_def punctuation_def lex_operator_def is_whitespace_def
      is_digit_def is_quote_def intro!: tokenizeQuery_single)

lemma of_char_tolower:
  "(of_char (ascii_tolower x) :: nat) =
     (if 65 \<le> (of_char x :: nat) \<and> of_char x \<le> (90 :: nat) then of_char x + 32 else of_char x)"
  by (simp add: ascii_tolower_def Let_def)

lemma ascii_tolower_eq_non_letter:
  assumes "ascii_tolower c = d" and "\<not> (97 \<le> (of_char d :: nat) \<and> of_char d \<le> (122 :: nat))"
  shows "c = d"
proof -
  have "(of_char (ascii_tolower c) :: nat) = of_char d" using assms(1) by simp
  with assms(2) have "(of_char c :: nat) = of_char d"
    by (auto simp: of_char_tolower split: if_splits)
  then show ?thesis by simp
qed

lemma inj_on_map_tolower:
  "inj_on (map ascii_tolower) {s. \<forall>c \<in> set s. \<not> (97 \<le> (of_char c :: nat) \<and> of_char c \<le> (122 :: nat))}"
proof -
  have char: "c = d" if eq: "ascii_tolower c = ascii_tolower d"
    and c: "\<not> (97 \<le> (of_char c :: nat) \<and> of_char c \<le> (122 :: nat))"
    and d: "\<not> (97 \<le> (of_char d :: nat) \<and> of_char d \<le> (122 :: nat))" for c d
  proof -
    have "(of_char (ascii_tolower c) :: nat) = of_char (ascii_tolower d)" using eq by simp
    then have "(of_char c :: nat) = of_char d" using c d by (auto simp: of_char_tolower split: if_splits)
    then show ?thesis by simp
  qed
  show ?thesis
  proof (rule inj_onI, unfold mem_Collect_eq)
    fix s t :: string
    assume "\<forall>c \<in> set s. \<not> (97 \<le> (of_char c :: nat) \<and> of_char c \<le> (122 :: nat))"
      and "\<forall>c \<in> set t. \<not> (97 \<le> (of_char c :: nat) \<and> of_char c \<le> (122 :: nat))"
      and "map ascii_tolower s = map ascii_tolower t"
    then show "s = t"
      using char by (induction s t rule: list_induct2') auto
  qed
qed

lemma keyword_names:
  "map fst keyword_table =
    [''AS'', ''ASC'', ''DESC'', ''NOT'', ''TRUE'', ''FALSE'', ''SELECT'', ''FROM'', ''WHERE'', ''GROUP'',
     ''ORDER'', ''BY'', ''HAVING'', ''AND'', ''OR'', ''LIMIT'', ''OFFSET'', ''CREATE'', ''WITH'', ''BEGIN'',
     ''WITHIN'', ''RECORD'', ''MOD'', ''DRAW'', ''TOP'', ''RIGHT'', ''BOTTOM'', ''LEFT'', ''IMPORT'', ''TABLE'',
     ''TABLES'', ''AXIS'', ''BARCHART'', ''LINECHART'', ''AREACHART'', ''POINTCHART'', ''HEATMAP'',
     ''HISTOGRAM'', ''ORIENTATION'', ''HORIZONTAL'', ''VERTICAL'', ''STACKED'', ''ON'', ''OFF'', ''SHOW'',
     ''DESCRIBE'', ''EXPLAIN'', ''XDOMAIN'', ''YDOMAIN'', ''ZDOMAIN'', ''LOGARITHMIC'', ''INVERT'', ''TITLE'',
     ''SUBTITLE'', ''GRID'', ''LABELS'', ''TICKS'', ''INSIDE'', ''OUTSIDE'', ''ROTATE'', ''LEGEND'', ''OVER'',
     ''TIMEWINDOW'', ''<<'', ''>>'']"
  by (simp add: keyword_table_def query_keywords_def chart_keywords_def option_keywords_def)

lemma keyword_names_distinct:
  "distinct (map (map ascii_tolower) (map fst keyword_table))"
proof -
  have "distinct (map fst keyword_table)" unfolding keyword_names by simp
  moreover have "\<forall>k \<in> set (map fst keyword_table). \<forall>c \<in> set k.
      \<not> (97 \<le> (of_char c :: nat) \<and> of_char c \<le> (122 :: nat))"
    unfolding keyword_names by simp
  then have "inj_on (map ascii_tolower) (set (map fst keyword_table))"
    by (intro inj_on_subset [OF inj_on_map_tolower]) blast
  ultimately show ?thesis by (subst distinct_map) blast
qed

lemma find_keyword:
  assumes "(k, ty) \<in> set kws" and "distinct (map (map ascii_tolower) (map fst kws))"
    and "map ascii_tolower s = map ascii_tolower k"
  shows "find (\<lambda>(k', ty'). token_is (Token T_IDENTIFIER s) k') kws = Some (k, ty)"
  using assms(1,2)
proof (induction kws)
  case Nil
  then show ?case by simp
next
  case (Cons e kws)
  obtain k' ty' where e: "e = (k', ty')" by (cases e)
  show ?case
  proof (cases "(k, ty) = e")
    case True
    have "length s = length k" using arg_cong [OF assms(3), of length] by simp
    with True assms(3) e show ?thesis by (simp add: token_is_def)
  next
    case False
    with Cons.prems have mem: "(k, ty) \<in> set kws" by simp
    then have "map ascii_tolower k \<in> (\<lambda>x. map ascii_tolower (fst x)) ` set kws"
      by (intro image_eqI [of _ _ "(k, ty)"]) simp_all
    moreover have "map ascii_tolower k' \<notin> (\<lambda>x. map ascii_tolower (fst x)) ` set kws"
      using Cons.prems(2) e by (simp add: comp_def)
    ultimately have "map ascii_tolower k' \<noteq> map ascii_tolower k" by metis
    then have "\<not> token_is (Token T_IDENTIFIER s) k'"
      using assms(3) by (auto simp: token_is_def)
    with Cons mem e show ?thesis by simp
  qed
qed

lemma word_token_keyword:
  assumes "(k, ty) \<in> set keyword_table" and "map ascii_tolower s = map ascii_tolower k"
  shows "word_token s = token0 ty"
  using find_keyword [OF assms(1) keyword_names_distinct assms(2)]
  by (simp add: word_token_def Let_def)

text \<open>
  The letters of the keywords lie in the 64 to 95 block of ASCII, which has one delimiter only.
\<close>

lemma letter_block:
  assumes "digit6 c" and "\<not> digit5 c" and "c \<noteq> CHR ''^''"
  shows "\<not> is_delimiter c" and "\<not> is_digit c"
proof -
  show "\<not> is_delimiter c"
    using assms by (auto simp: is_delimiter_def is_whitespace_def is_quote_def)
  show "\<not> is_digit c"
    using assms(1) by (cases c) (simp add: is_digit_def Let_def of_char_def)
qed

lemma keyword_names_letters:
  "list_all (\<lambda>k. k \<noteq> [] \<and> (k = ''<<'' \<or> k = ''>>'' \<or>
     list_all (\<lambda>c. digit6 c \<and> \<not> digit5 c \<and> c \<noteq> CHR ''^'') k)) (map fst keyword_table)"
  unfolding keyword_names by simp

lemma keywords_upper_case:
  assumes "(k, ty) \<in> set keyword_table"
  shows "k \<noteq> []" and "k = ''<<'' \<or> k = ''>>'' \<or> (\<forall>c \<in> set k. \<not> is_delimiter c \<and> \<not> is_digit c)"
proof -
  have "k \<in> set (map fst keyword_table)" using assms by force
  with keyword_names_letters
  have k: "k \<noteq> []" "k = ''<<'' \<or> k = ''>>'' \<or>
     list_all (\<lambda>c. digit6 c \<and> \<not> digit5 c \<and> c \<noteq> CHR ''^'') k"
    unfolding list_all_iff [of _ "map fst keyword_table"] by blast+
  show "k \<noteq> []" by (rule k(1))
  show "k = ''<<'' \<or> k = ''>>'' \<or> (\<forall>c \<in> set k. \<not> is_delimiter c \<and> \<not> is_digit c)"
    using k(2) letter_block by (auto simp: list_all_iff)
qed

lemma delimiter_angle: "is_delimiter CHR ''<''" "is_delimiter CHR ''>''"
  by (simp_all add: is_delimiter_def)

lemma keywords_start:
  assumes "(k, ty) \<in> set keyword_table" and "\<forall>c \<in> set k. \<not> is_delimiter c"
  shows "k \<noteq> [] \<and> \<not> is_digit (hd k)"
proof -
  have "k \<noteq> ''<<''" "k \<noteq> ''>>''" using assms(2) delimiter_angle by auto
  with keywords_upper_case [OF assms(1)] show ?thesis by (cases k) auto
qed

lemma next_token_word:
  assumes "\<forall>x \<in> set (c # cs). \<not> is_delimiter x" and "\<not> is_digit c"
  shows "next_token c cs = Lex_Token (word_token (c # cs)) []"
proof -
  have c: "\<not> is_delimiter c" using assms(1) by simp
  then have "punctuation c = None" "\<not> is_quote c" "lex_operator c cs = None"
    by (auto simp: is_delimiter_def punctuation_def lex_operator_def)
  moreover have "takeWhile (\<lambda>c. \<not> is_delimiter c) (c # cs) = c # cs"
    using assms(1) by (simp only: takeWhile_eq_all_conv)
  moreover have "dropWhile (\<lambda>c. \<not> is_delimiter c) (c # cs) = []"
    using assms(1) by simp
  ultimately show ?thesis
    using assms(2) by (simp add: next_token_def lex_word_def)
qed

lemma tokenizeQuery_word:
  assumes "s \<noteq> []" and "\<forall>x \<in> set s. \<not> is_delimiter x" and "\<not> is_digit (hd s)"
  shows "tokenizeQuery s = Inr [word_token s]"
proof -
  obtain c cs where s: "s = c # cs" using assms(1) by (cases s) auto
  have "\<not> is_whitespace c" using assms(2) s by (simp add: is_delimiter_def)
  then show ?thesis
    using assms s by (auto intro!: tokenizeQuery_single next_token_word)
qed

lemma lex_quoted_plain:
  assumes "q \<notin> set s" and "backslash \<notin> set s" and "even lvl"
  shows "lex_quoted q lvl (s @ q # rest) = (s, Some rest)"
  using assms(1,2) \<open>even lvl\<close>
proof (induction s arbitrary: lvl)
  case Nil
  then show ?case by simp
next
  case (Cons c s)
  then have "c \<noteq> q" "c \<noteq> backslash" by auto
  with Cons show ?case by (simp add: Let_def)
qed

lemma quote_not_special:
  assumes "is_quote q"
  shows "punctuation q = None" and "\<not> is_digit q" and "\<not> is_whitespace q"
  using assms by (auto simp: is_quote_def punctuation_def is_digit_def is_whitespace_def)

lemma tokenizeQuery_quoted:
  assumes "is_quote q" and "lex_quoted q 0 cs = (s, Some [])"
  shows "tokenizeQuery (q # cs) = Inr [Token (if q = quote_back then T_IDENTIFIER else T_STRING) s]"
  using assms by (auto intro!: tokenizeQuery_single
      simp: quote_not_special next_token_def lex_string_def)

lemma tokenizeQuery_number:
  assumes "s \<noteq> []" and "is_digit (hd s)" and "\<forall>c \<in> set s. is_numeric_char c"
  shows "tokenizeQuery s = Inr [Token T_NUMERIC s]"
proof -
  obtain c cs where s: "s = c # cs" using assms(1) by (cases s) auto
  have c: "is_digit c" using assms(2) s by simp
  then have "punctuation c = None" "\<not> is_whitespace c"
    by (auto simp: punctuation_def is_digit_def is_whitespace_def)
  moreover have "takeWhile is_numeric_char (c # cs) = c # cs"
    using assms(3) s by (simp only: takeWhile_eq_all_conv)
  moreover have "dropWhile is_numeric_char (c # cs) = []"
    using assms(3) s by simp
  ultimately have "next_token c cs = Lex_Token (Token T_NUMERIC s) []"
    using s c by (simp only: next_token_def lex_number_def option.case if_True)
  with s \<open>\<not> is_whitespace c\<close> show ?thesis by (simp add: tokenizeQuery_single)
qed

section \<open>Printing tokens back\<close>

text \<open>
  A text for each token the tokenizer can produce: identifiers in backticks, strings in double
  quotes, numbers as they are, and the spelling of an operator or keyword. A token is printable
  when its text needs no escape (the language has none that the tokenizer undoes).
\<close>

definition spelling_table :: "(string \<times> token_type) list" where
  "spelling_table = symbol_table @ plain_keywords"

definition spelling :: "token_type \<Rightarrow> string" where
  "spelling ty = (case find (\<lambda>(k, ty'). ty' = ty) spelling_table of Some (k, _) \<Rightarrow> k | None \<Rightarrow> [])"

definition printable :: "token \<Rightarrow> bool" where
  "printable t \<longleftrightarrow> (let ty = getType t; s = getString t in
     if ty = T_IDENTIFIER then quote_back \<notin> set s \<and> backslash \<notin> set s
     else if ty = T_STRING then quote_double \<notin> set s \<and> backslash \<notin> set s
     else if ty = T_NUMERIC then s \<noteq> [] \<and> is_digit (hd s) \<and> (\<forall>c \<in> set s. is_numeric_char c)
     else s = [] \<and> ty \<in> snd ` set spelling_table)"

definition print_token :: "token \<Rightarrow> string" where
  "print_token t = (let ty = getType t; s = getString t in
     if ty = T_IDENTIFIER then quote_back # s @ [quote_back]
     else if ty = T_STRING then quote_double # s @ [quote_double]
     else if ty = T_NUMERIC then s
     else spelling ty)"

definition print_tokens :: "token list \<Rightarrow> string" where
  "print_tokens ts = concat (map (\<lambda>t. print_token t @ [newline]) ts)"

lemma find_Some_mem: "find P xs = Some x \<Longrightarrow> x \<in> set xs \<and> P x"
  by (induction xs) (auto split: if_splits)

lemma spelling_mem:
  assumes "ty \<in> snd ` set spelling_table"
  shows "(spelling ty, ty) \<in> set spelling_table"
proof -
  obtain k where "(k, ty) \<in> set spelling_table" using assms by force
  then have "find (\<lambda>(k, ty'). ty' = ty) spelling_table \<noteq> None"
    by (auto simp: find_None_iff)
  then obtain e where e: "find (\<lambda>(k, ty'). ty' = ty) spelling_table = Some e" by auto
  with find_Some_mem [OF e] show ?thesis
    by (cases e) (auto simp: spelling_def)
qed

lemma tokenizeQuery_spelling:
  assumes "(k, ty) \<in> set spelling_table"
  shows "tokenizeQuery k = Inr [token0 ty]"
proof (cases "(k, ty) \<in> set symbol_table")
  case True
  then show ?thesis by (rule tokenizeQuery_symbol)
next
  case False
  with assms have k: "(k, ty) \<in> set keyword_table" "\<forall>c \<in> set k. \<not> is_delimiter c"
    by (auto simp: spelling_table_def plain_keywords_def)
  then show ?thesis
    using keywords_start [OF k] word_token_keyword [OF k(1) refl]
    by (simp add: tokenizeQuery_word)
qed

lemma tokenizeQuery_print_token:
  assumes "printable t"
  shows "tokenizeQuery (print_token t) = Inr [t]"
proof -
  obtain ty s where t: "t = Token ty s" by (cases t)
  consider "ty = T_IDENTIFIER" | "ty = T_STRING" | "ty = T_NUMERIC"
    | "ty \<noteq> T_IDENTIFIER" "ty \<noteq> T_STRING" "ty \<noteq> T_NUMERIC" by blast
  then show ?thesis
  proof cases
    case 1
    with assms t show ?thesis
      using tokenizeQuery_quoted [of quote_back "s @ [quote_back]" s]
        lex_quoted_plain [of quote_back s 0 "[]"]
      by (simp add: printable_def print_token_def is_quote_def)
  next
    case 2
    with assms t show ?thesis
      using tokenizeQuery_quoted [of quote_double "s @ [quote_double]" s]
        lex_quoted_plain [of quote_double s 0 "[]"]
      by (simp add: printable_def print_token_def is_quote_def)
  next
    case 3
    with assms t show ?thesis
      by (simp add: printable_def print_token_def tokenizeQuery_number)
  next
    case 4
    with assms t show ?thesis
      using tokenizeQuery_spelling [OF spelling_mem [of ty]]
      by (simp add: printable_def print_token_def token0_def)
  qed
qed

lemma tokenizeQuery_print_tokens:
  "\<forall>t \<in> set ts. printable t \<Longrightarrow> tokenizeQuery (print_tokens ts) = Inr ts"
proof (induction ts)
  case Nil
  then show ?case by (simp add: print_tokens_def tokenizeQuery.simps [of "[]"])
next
  case (Cons t ts)
  then have "tokenizeQuery (print_token t) = Inr [t]" by (simp add: tokenizeQuery_print_token)
  from tokenizeQuery_line [OF this, of "print_tokens ts"] Cons show ?case
    by (simp add: print_tokens_def)
qed

section \<open>What the tokenizer can produce and how it can fail\<close>

lemma word_token_types:
  assumes "\<forall>c \<in> set s. \<not> is_delimiter c"
  shows "getType (word_token s) \<in> insert T_IDENTIFIER (snd ` set plain_keywords)"
proof (cases "find (\<lambda>(k, ty). token_is (Token T_IDENTIFIER s) k) keyword_table")
  case None
  then show ?thesis by (simp add: word_token_def Let_def)
next
  case (Some e)
  obtain k ty where e: "e = (k, ty)" by (cases e)
  from find_Some_mem [OF Some] e have mem: "(k, ty) \<in> set keyword_table"
    and eq: "map ascii_tolower s = map ascii_tolower k"
    by (auto simp: token_is_def)
  have "\<forall>c \<in> set k. \<not> is_delimiter c"
  proof (rule ccontr)
    assume "\<not> ?thesis"
    with keywords_upper_case(2) [OF mem] have "k = ''<<'' \<or> k = ''>>''"
      by blast
    then have "k \<noteq> [] \<and> (hd k = CHR ''<'' \<or> hd k = CHR ''>'')" by auto
    with eq obtain c cs where s: "s = c # cs" and c: "ascii_tolower c = CHR ''<'' \<or> ascii_tolower c = CHR ''>''"
      by (cases s; cases k) (auto simp: ascii_tolower_def)
    then have "c = CHR ''<'' \<or> c = CHR ''>''"
      using ascii_tolower_eq_non_letter [of c] by fastforce
    with assms s show False using delimiter_angle by auto
  qed
  with mem have "(k, ty) \<in> set plain_keywords" by (simp add: plain_keywords_def)
  with Some e show ?thesis by (force simp: word_token_def Let_def)
qed

text \<open>The token types the language can write, and those of the tokens of a round.\<close>

definition lexical_types :: "token_type set" where
  "lexical_types = {T_IDENTIFIER, T_STRING, T_NUMERIC} \<union> snd ` set spelling_table"

lemma symbol_lexical: "ty \<in> snd ` set symbol_table \<Longrightarrow> ty \<in> lexical_types"
  by (simp add: lexical_types_def spelling_table_def image_Un)

lemma lex_operator_types:
  "lex_operator c cs = Some (Lex_Token t r) \<Longrightarrow> getType t \<in> lexical_types"
  by (rule symbol_lexical) (auto simp: lex_operator_def symbol_table_def split: if_splits)

lemma punctuation_types: "punctuation c = Some ty \<Longrightarrow> ty \<in> lexical_types"
  by (rule symbol_lexical) (auto simp: punctuation_def symbol_table_def split: if_splits)

lemma literal_types: "T_IDENTIFIER \<in> lexical_types" "T_STRING \<in> lexical_types" "T_NUMERIC \<in> lexical_types"
  by (simp_all add: lexical_types_def)

lemma lex_word_types: "getType (word_token (takeWhile (\<lambda>c. \<not> is_delimiter c) s)) \<in> lexical_types"
  using word_token_types [of "takeWhile (\<lambda>c. \<not> is_delimiter c) s"]
  by (auto simp: lexical_types_def spelling_table_def dest: set_takeWhileD)

lemma next_token_types:
  assumes "next_token c cs = Lex_Token t r"
  shows "getType t \<in> lexical_types"
  using assms lex_word_types [of "c # cs"] literal_types
  unfolding next_token_def lex_number_def lex_string_def lex_word_def
  by (auto dest: lex_operator_types punctuation_types simp del: takeWhile.simps
      split: option.splits if_splits prod.splits)

lemma tokenizeQuery_types:
  "tokenizeQuery s = Inr ts \<Longrightarrow> t \<in> set ts \<Longrightarrow> getType t \<in> lexical_types"
proof (induction s arbitrary: ts rule: tokenizeQuery.induct)
  case (1 s)
  show ?case
  proof (cases "dropWhile is_whitespace s")
    case Nil
    with 1(3,4) show ?thesis by (simp add: tokenizeQuery.simps [of s] del: dropWhile_eq_Nil_conv)
  next
    case (Cons c cs)
    show ?thesis
    proof (cases "next_token c cs")
      case (Lex_Token t' r)
      then obtain us where us: "tokenizeQuery r = Inr us" "ts = t' # us"
        using 1(3) Cons by (auto simp: tokenizeQuery.simps [of s])
      then show ?thesis
        using 1(1)[OF Cons Lex_Token us(1)] next_token_types [OF Lex_Token] 1(4) by auto
    next
      case (Lex_Skip r)
      with 1 Cons show ?thesis by (simp add: tokenizeQuery.simps [of s])
    next
      case Lex_PastEnd
      with 1(3) Cons show ?thesis by (simp add: tokenizeQuery.simps [of s])
    qed
  qed
qed

lemma lex_quoted_unterminated: "lex_quoted q lvl cs = (s, None) \<Longrightarrow> s = cs"
  by (induction q lvl cs arbitrary: s rule: lex_quoted.induct)
     (auto simp: Let_def split: prod.splits if_splits)

lemma next_token_PastEnd:
  "next_token c cs = Lex_PastEnd \<Longrightarrow> is_quote c \<and> lex_quoted c 0 cs = (cs, None)"
  by (auto simp: next_token_def lex_number_def lex_word_def lex_string_def lex_operator_def
      dest: lex_quoted_unterminated split: option.splits if_splits prod.splits)

text \<open>\<open>suffix_of r s\<close>: the text \<open>r\<close> is what is left of \<open>s\<close> after some characters.\<close>

definition suffix_of :: "string \<Rightarrow> string \<Rightarrow> bool" where
  "suffix_of r s \<longleftrightarrow> (\<exists>p. s = p @ r)"

lemma suffix_of_refl: "suffix_of s s"
  by (simp add: suffix_of_def)

lemma suffix_of_trans: "suffix_of a b \<Longrightarrow> suffix_of b c \<Longrightarrow> suffix_of a c"
  unfolding suffix_of_def by (metis append.assoc)

lemma suffix_of_Cons: "suffix_of r cs \<Longrightarrow> suffix_of r (c # cs)"
  unfolding suffix_of_def by (metis append_Cons)

lemma suffix_of_dropWhile: "suffix_of (dropWhile P s) s"
  unfolding suffix_of_def by (metis takeWhile_dropWhile_id)

lemma suffix_of_lex_quoted: "lex_quoted q lvl cs = (s, Some rest) \<Longrightarrow> suffix_of rest cs"
  by (induction q lvl cs arbitrary: s rule: lex_quoted.induct)
     (auto simp: Let_def suffix_of_refl split: prod.splits if_splits intro: suffix_of_Cons)

lemma suffix_of_tl: "suffix_of (tl cs) cs"
  by (cases cs) (simp_all add: suffix_of_refl suffix_of_Cons)

lemma next_token_suffix:
  shows "next_token c cs = Lex_Token t r \<Longrightarrow> suffix_of r (c # cs)"
    and "next_token c cs = Lex_Skip r \<Longrightarrow> suffix_of r (c # cs)"
  using suffix_of_dropWhile [of _ "c # cs"] suffix_of_Cons [OF suffix_of_tl [of cs], of c]
    suffix_of_Cons [OF suffix_of_refl, of cs c]
  by (auto simp: next_token_def lex_number_def lex_word_def lex_string_def lex_operator_def
      simp del: dropWhile.simps intro: suffix_of_Cons dest: suffix_of_lex_quoted
      split: option.splits if_splits prod.splits)

lemma tokenizeQuery_Inl:
  "tokenizeQuery s = Inl e \<Longrightarrow> e = Undefined ReadOutOfBounds \<and>
     (\<exists>q body. is_quote q \<and> suffix_of (q # body) s \<and> lex_quoted q 0 body = (body, None))"
proof (induction s rule: tokenizeQuery.induct)
  case (1 s)
  show ?case
  proof (cases "dropWhile is_whitespace s")
    case Nil
    with 1(3) show ?thesis by (simp add: tokenizeQuery.simps [of s] del: dropWhile_eq_Nil_conv)
  next
    case (Cons c cs)
    have sfx: "suffix_of (c # cs) s"
      using suffix_of_dropWhile [of is_whitespace s] Cons by simp
    show ?thesis
    proof (cases "next_token c cs")
      case (Lex_Token t r)
      then have "tokenizeQuery r = Inl e"
        using 1(3) Cons by (auto simp: tokenizeQuery.simps [of s] bindR_eq_Inl_iff)
      with 1(1)[OF Cons Lex_Token] show ?thesis
        using suffix_of_trans [OF _ suffix_of_trans [OF next_token_suffix(1) [OF Lex_Token] sfx]] by blast
    next
      case (Lex_Skip r)
      then have "tokenizeQuery r = Inl e"
        using 1(3) Cons by (simp add: tokenizeQuery.simps [of s])
      with 1(2)[OF Cons Lex_Skip] show ?thesis
        using suffix_of_trans [OF _ suffix_of_trans [OF next_token_suffix(2) [OF Lex_Skip] sfx]] by blast
    next
      case Lex_PastEnd
      with 1(3) Cons sfx next_token_PastEnd [OF Lex_PastEnd] show ?thesis
        by (auto simp: tokenizeQuery.simps [of s])
    qed
  qed
qed

lemma lex_quoted_escape:
  assumes "q \<notin> set body" and "backslash \<notin> set body" and "q \<noteq> backslash"
  shows "lex_quoted q 0 (body @ backslash # q # rest) =
    (let (s, r) = lex_quoted q 1 rest in (body @ backslash # q # s, r))"
proof -
  have "lex_quoted q 0 (body @ ys) = (let (s, r) = lex_quoted q 0 ys in (body @ s, r))" for ys
    using assms(1,2)
  proof (induction body)
    case Nil
    then show ?case by (simp split: prod.splits)
  next
    case (Cons c body)
    then have "c \<noteq> q" "c \<noteq> backslash" by auto
    with Cons show ?case by (auto simp: Let_def split: prod.splits)
  qed
  then show ?thesis
    using assms(3) by (auto simp: Let_def split: prod.splits)
qed

lemma unlexed_keywords:
  "(k, T_LSHIFT) \<in> set keyword_table \<Longrightarrow> k = ''<<''"
  "(k, T_RSHIFT) \<in> set keyword_table \<Longrightarrow> k = ''>>''"
  "ty \<in> {T_DIV, T_EOF, T_XGRID, T_YGRID} \<Longrightarrow> (k, ty) \<notin> set keyword_table"
  by (auto simp: keyword_table_def query_keywords_def chart_keywords_def option_keywords_def)

lemma not_lexical:
  "ty \<in> {T_LSHIFT, T_RSHIFT, T_DIV, T_EOF, T_XGRID, T_YGRID} \<Longrightarrow> ty \<notin> lexical_types"
  using unlexed_keywords delimiter_angle
  by (fastforce simp: lexical_types_def spelling_table_def plain_keywords_def symbol_table_def)

lemma spelled:
  assumes mem: "(k, ty) \<in> set keyword_table" and "k \<noteq> ''<<''" and "k \<noteq> ''>>''"
  shows "ty \<in> snd ` set spelling_table"
proof -
  from mem have "(k, ty) \<in> set plain_keywords"
    using keywords_upper_case(2) [OF mem] assms(2,3) by (auto simp: plain_keywords_def)
  then show ?thesis by (force simp: spelling_table_def)
qed

lemma spelled_symbol: "(k, ty) \<in> set symbol_table \<Longrightarrow> ty \<in> snd ` set spelling_table"
  by (force simp: spelling_table_def)

section \<open>Properties\<close>

text \<open>
  C20. Round trip: printing any list of printable tokens, one per line, and tokenizing the text
  gives the tokens back. Every keyword and operator the tokenizer knows is covered, as are quoted
  identifiers, strings and numbers.
\<close>

theorem tokenize_print_roundtrip:
  assumes "\<forall>t \<in> set ts. printable t"
  shows "tokenizeQuery (print_tokens ts) = Inr ts"
  using assms by (rule tokenizeQuery_print_tokens)

lemma print_tokens_example:
  "\<forall>t \<in> set [token0 T_SELECT, Token T_IDENTIFIER ''from'', token0 T_LTE, Token T_NUMERIC ''1.5'',
     Token T_STRING ''a b'']. printable t"
proof -
  have "(''<='', T_LTE) \<in> set spelling_table"
    by (simp add: spelling_table_def symbol_table_def)
  moreover have "(''SELECT'', T_SELECT) \<in> set spelling_table"
    by (simp add: spelling_table_def plain_keywords_def keyword_table_def query_keywords_def letter_block)
  ultimately show ?thesis
    by (force simp: printable_def is_digit_def is_numeric_char_def)
qed

theorem tokenize_print_roundtrip_witness:
  "tokenizeQuery (print_tokens [token0 T_SELECT, Token T_IDENTIFIER ''from'', token0 T_LTE,
       Token T_NUMERIC ''1.5'', Token T_STRING ''a b'']) =
     Inr [token0 T_SELECT, Token T_IDENTIFIER ''from'', token0 T_LTE, Token T_NUMERIC ''1.5'',
       Token T_STRING ''a b'']"
  by (rule tokenize_print_roundtrip [OF print_tokens_example])

text \<open>
  Lines are independent: if the text before a line break tokenizes, then the tokens of the whole
  are those of the two parts in order, whatever follows the break (a failure in the second part
  is the failure of the whole). In particular a comment never reaches past its line.
\<close>

theorem tokenize_lines:
  assumes "tokenizeQuery a = Inr ts"
  shows "tokenizeQuery (a @ newline # b) = bindR (tokenizeQuery b) (\<lambda>us. Inr (ts @ us))"
  using assms by (rule tokenizeQuery_line)

theorem tokenize_lines_witness:
  "tokenizeQuery (''=--x'' @ newline # ''='') = Inr [token0 T_EQUAL, token0 T_EQUAL]"
proof -
  have "tokenizeQuery ''='' = Inr [token0 T_EQUAL]"
    by (rule tokenizeQuery_symbol) (simp add: symbol_table_def)
  moreover have "tokenizeQuery ''=--x'' = Inr [token0 T_EQUAL]"
    by (simp add: tokenizeQuery.simps [of "''=--x''"] tokenizeQuery.simps [of "''--x''"]
        tokenizeQuery.simps [of "[]"] next_token_def punctuation_def lex_operator_def
        is_whitespace_def is_digit_def is_quote_def)
  ultimately show ?thesis
    using tokenize_lines [of "''=--x''" "[token0 T_EQUAL]" "''=''"] by simp
qed



text \<open>
  An escaped quote directly before the closing quote is not recognised: \<open>escape_level\<close> is not
  reset by the escaped quote, so the closing quote counts as escaped too and the tokenizer runs off
  the end of a query that is properly quoted. With any other character in between the same
  literal is one token.
\<close>

lemma tokenize_escaped_quote_at_end:
  assumes "is_quote q" and "q \<notin> set body" and "backslash \<notin> set body"
    and "x \<noteq> q" and "x \<noteq> backslash"
  shows "tokenizeQuery (q # body @ [backslash, q, q]) = Inl (Undefined ReadOutOfBounds) \<and>
    tokenizeQuery (q # body @ [backslash, q, x, q]) =
      Inr [Token (if q = quote_back then T_IDENTIFIER else T_STRING) (body @ [backslash, q, x])]"
proof (rule conjI)
  have q: "q \<noteq> backslash" using assms(1) by (auto simp: is_quote_def)
  note special = quote_not_special [OF assms(1)]
  have "lex_quoted q 0 (body @ backslash # q # [q]) = (body @ [backslash, q, q], None)"
    unfolding lex_quoted_escape [OF assms(2,3) q] by (simp add: Let_def)
  then show "tokenizeQuery (q # body @ [backslash, q, q]) = Inl (Undefined ReadOutOfBounds)"
    using assms(1) special
    by (simp add: tokenizeQuery.simps [of "q # _"] next_token_def lex_string_def)
  have "lex_quoted q 0 (body @ backslash # q # [x, q]) = (body @ [backslash, q, x], Some [])"
    unfolding lex_quoted_escape [OF assms(2,3) q] using assms(4,5) by (simp add: Let_def)
  then show "tokenizeQuery (q # body @ [backslash, q, x, q]) =
      Inr [Token (if q = quote_back then T_IDENTIFIER else T_STRING) (body @ [backslash, q, x])]"
    by (intro tokenizeQuery_quoted assms(1)) simp
qed

lemma tokenize_escaped_quote_at_end_witness:
  "tokenizeQuery [quote_single, CHR ''a'', backslash, quote_single, quote_single] =
     Inl (Undefined ReadOutOfBounds)"
  using tokenize_escaped_quote_at_end [of quote_single "''a''" "CHR ''b''"]
  by (simp add: is_quote_def)

text \<open>
  No query text produces a shift operator, \<open>DIV\<close>, an end-of-input marker or a grid token, although
  the token type has them and the parser tests for \<open>T_DIV\<close>.
\<close>

lemma tokenize_never_produces:
  assumes "tokenizeQuery s = Inr ts" and "t \<in> set ts"
  shows "getType t \<notin> {T_LSHIFT, T_RSHIFT, T_DIV, T_EOF, T_XGRID, T_YGRID}"
  using tokenizeQuery_types [OF assms] not_lexical by blast

lemma tokenize_never_produces_witness:
  "\<exists>t. tokenizeQuery ''='' = Inr [t] \<and> getType t \<notin> {T_LSHIFT, T_RSHIFT, T_DIV, T_EOF, T_XGRID, T_YGRID}"
proof -
  have "tokenizeQuery ''='' = Inr [token0 T_EQUAL]"
    by (rule tokenizeQuery_symbol) (simp add: symbol_table_def)
  with tokenize_never_produces [OF this, of "token0 T_EQUAL"] show ?thesis by simp
qed

end
