(* ===== verification/Ast.thy ===== *)
theory Ast
  imports Token
begin

text \<open>
  The abstract syntax tree: src/csql/parser/astnode.h and astnode.cc. Node types carry the prefix
  \<open>A_\<close> where the code has \<open>T_\<close>, since the token types use the same names. A child pointer may be
  null (the parser appends the result of a failed \<open>expr()\<close> in several places), so the children are
  a list of optional nodes; the token pointer is optional as well.
\<close>

section \<open>Nodes\<close>

datatype (plugins only: size) node_type =
    A_ROOT | A_LITERAL | A_METHOD_CALL | A_METHOD_CALL_WITHIN_RECORD | A_RESOLVED_CALL
  | A_COLUMN_NAME | A_COLUMN_ALIAS | A_COLUMN_INDEX | A_RESOLVED_COLUMN | A_TABLE_NAME
  | A_DERIVED_COLUMN | A_PROPERTY | A_PROPERTY_VALUE | A_VOID | A_SELECT | A_SELECT_DEEP
  | A_SELECT_LIST | A_ALL | A_FROM | A_WHERE | A_GROUP_BY | A_ORDER_BY | A_SORT_SPEC | A_HAVING
  | A_LIMIT | A_OFFSET | A_IF_EXPR | A_EQ_EXPR | A_NEQ_EXPR | A_LT_EXPR | A_LTE_EXPR
  | A_GT_EXPR | A_GTE_EXPR | A_AND_EXPR | A_OR_EXPR | A_NEGATE_EXPR | A_ADD_EXPR | A_SUB_EXPR
  | A_MUL_EXPR | A_DIV_EXPR | A_MOD_EXPR | A_POW_EXPR | A_SHOW_TABLES | A_DESCRIBE_TABLE
  | A_EXPLAIN_QUERY | A_DRAW | A_IMPORT | A_AXIS | A_AXIS_POSITION | A_AXIS_LABELS | A_DOMAIN
  | A_DOMAIN_SCALE | A_GRID | A_LEGEND | A_GROUP_OVER_TIMEWINDOW

datatype (plugins only: size) ast =
  Node (nodeType: node_type) (nodeToken: "token option") (nodeId: int) (nodeChildren: "ast option list")

text \<open>A fresh node: no token, identifier -1, no children.\<close>

definition new_node :: "node_type \<Rightarrow> ast" where
  "new_node ty = Node ty None (-1) []"

fun setToken :: "token \<Rightarrow> ast \<Rightarrow> ast" where
  "setToken t (Node ty tok i cs) = Node ty (Some t) i cs"

fun setType :: "node_type \<Rightarrow> ast \<Rightarrow> ast" where
  "setType ty' (Node ty tok i cs) = Node ty' tok i cs"

fun appendChild :: "ast \<Rightarrow> ast option \<Rightarrow> ast" where
  "appendChild (Node ty tok i cs) c = Node ty tok i (cs @ [c])"

text \<open>A fresh node with a token, and one with children.\<close>

definition leaf :: "node_type \<Rightarrow> token \<Rightarrow> ast" where
  "leaf ty t = setToken t (new_node ty)"

definition branch :: "node_type \<Rightarrow> ast option list \<Rightarrow> ast" where
  "branch ty cs = foldl appendChild (new_node ty) cs"

lemma foldl_appendChild: "foldl appendChild (Node ty tok i cs) ds = Node ty tok i (cs @ ds)"
  by (induction ds arbitrary: cs) simp_all

lemma leaf_eq [simp]: "leaf ty t = Node ty (Some t) (-1) []"
  by (simp add: leaf_def new_node_def)

lemma branch_eq [simp]: "branch ty cs = Node ty None (-1) cs"
  by (simp add: branch_def new_node_def foldl_appendChild)

text \<open>
  \<open>removeChildrenByType\<close> walks the children with an iterator and erases as it goes: erasing moves
  the next child to the iterator's place and the loop then steps past it.
\<close>

fun remove_by_type :: "node_type \<Rightarrow> ast option list \<Rightarrow> ast option list result" where
  "remove_by_type ty [] = Inr []"
| "remove_by_type ty (None # cs) = Inl (Undefined NullDereference)"
| "remove_by_type ty (Some c # cs) =
     (if nodeType c = ty then
        (case cs of [] \<Rightarrow> Inr []
         | d # ds \<Rightarrow> bindR (remove_by_type ty ds) (\<lambda>r. Inr (d # r)))
      else bindR (remove_by_type ty cs) (\<lambda>r. Inr (Some c # r)))"

fun removeChildrenByType :: "node_type \<Rightarrow> ast \<Rightarrow> ast result" where
  "removeChildrenByType ty (Node t tok i cs) =
     bindR (remove_by_type ty cs) (\<lambda>cs'. Inr (Node t tok i cs'))"

text \<open>\<open>removeChildByIndex\<close>: erasing past the end is undefined.\<close>

fun removeChildByIndex :: "nat \<Rightarrow> ast \<Rightarrow> ast result" where
  "removeChildByIndex k (Node ty tok i cs) =
     (if k < length cs then Inr (Node ty tok i (take k cs @ drop (Suc k) cs))
      else Inl (Undefined ReadOutOfBounds))"

text \<open>The remaining mutators; inserting past the end is undefined.\<close>

fun clearChildren :: "ast \<Rightarrow> ast" where
  "clearChildren (Node ty tok i cs) = Node ty tok i []"

fun clearToken :: "ast \<Rightarrow> ast" where
  "clearToken (Node ty tok i cs) = Node ty None i cs"

fun setID :: "int \<Rightarrow> ast \<Rightarrow> ast" where
  "setID i' (Node ty tok i cs) = Node ty tok i' cs"

fun insertChild :: "ast option \<Rightarrow> nat \<Rightarrow> ast \<Rightarrow> ast result" where
  "insertChild c k (Node ty tok i cs) =
     (if k \<le> length cs then Inr (Node ty tok i (take k cs @ c # drop k cs))
      else Inl (Undefined ReadOutOfBounds))"

section \<open>Comparing trees\<close>

text \<open>
  \<open>ASTNode::operator==\<close> on nodes: types and tokens, not children. A token on the left only makes it
  dereference the missing one.
\<close>

fun node_eq :: "ast \<Rightarrow> ast \<Rightarrow> bool result" where
  "node_eq (Node ty tok i cs) (Node ty' tok' i' cs') =
     (if ty \<noteq> ty' then Inr False
      else case tok of
        None \<Rightarrow> Inr (tok' = None)
      | Some t \<Rightarrow> (case tok' of None \<Rightarrow> Inl (Undefined NullDereference) | Some t' \<Rightarrow> Inr (token_eq t t')))"

text \<open>
  \<open>ASTNode::compare\<close>: types, tokens (both absent or both equal), number of children, then the
  children pairwise. The identifier plays no part. A null child is dereferenced.
\<close>

fun token_option_eq :: "token option \<Rightarrow> token option \<Rightarrow> bool" where
  "token_option_eq None None = True"
| "token_option_eq (Some a) (Some b) = token_eq a b"
| "token_option_eq _ _ = False"

fun compare :: "ast \<Rightarrow> ast \<Rightarrow> bool result"
  and compare_children :: "ast option list \<Rightarrow> ast option list \<Rightarrow> bool result" where
  "compare (Node ty tok i cs) (Node ty' tok' i' cs') =
     (if ty \<noteq> ty' then Inr False
      else if \<not> token_option_eq tok tok' then Inr False
      else if length cs \<noteq> length cs' then Inr False
      else compare_children cs cs')"
| "compare_children [] ds = Inr True"
| "compare_children (Some c # cs) (Some d # ds) =
     bindR (compare c d) (\<lambda>b. if b then compare_children cs ds else Inr False)"
| "compare_children _ _ = Inl (Undefined NullDereference)"

text \<open>
  \<open>ASTNode::deepCopy\<close> drops null children and the identifier, and copies the token.
\<close>

fun deepCopy :: "ast \<Rightarrow> ast" and copy_children :: "ast option list \<Rightarrow> ast option list" where
  "deepCopy (Node ty tok i cs) = Node ty tok (-1) (copy_children cs)"
| "copy_children [] = []"
| "copy_children (None # cs) = copy_children cs"
| "copy_children (Some c # cs) = Some (deepCopy c) # copy_children cs"

text \<open>A tree without null children.\<close>

fun null_free :: "ast \<Rightarrow> bool" and children_null_free :: "ast option list \<Rightarrow> bool" where
  "null_free (Node ty tok i cs) = children_null_free cs"
| "children_null_free [] = True"
| "children_null_free (None # cs) = False"
| "children_null_free (Some c # cs) = (null_free c \<and> children_null_free cs)"

lemma deepCopy_null_free:
  "null_free (deepCopy a)" and "children_null_free (copy_children cs)"
  by (induction a and cs rule: deepCopy_copy_children.induct) simp_all

lemma deepCopy_idem:
  "deepCopy (deepCopy a) = deepCopy a" and "copy_children (copy_children cs) = copy_children cs"
  by (induction a and cs rule: deepCopy_copy_children.induct) simp_all

lemma copy_children_length:
  "children_null_free cs \<Longrightarrow> length (copy_children cs) = length cs"
  by (induction cs) (auto, metis children_null_free.simps(2,3) copy_children.simps(3) length_Cons not_None_eq)

lemma token_option_eq_iff: "token_option_eq a b \<longleftrightarrow> a = b"
  by (cases a; cases b) (simp_all add: token_eq_iff)

text \<open>On trees without null children \<open>compare\<close> decides equality up to identifiers.\<close>

lemma compare_null_free:
  "null_free a \<Longrightarrow> null_free b \<Longrightarrow> compare a b = Inr (deepCopy a = deepCopy b)"
  "children_null_free cs \<Longrightarrow> children_null_free ds \<Longrightarrow> length cs = length ds \<Longrightarrow>
     compare_children cs ds = Inr (copy_children cs = copy_children ds)"
proof (induction a b and cs ds rule: compare_compare_children.induct)
  case (1 ty tok i cs ty' tok' i' cs')
  then show ?case
    using copy_children_length [of cs] copy_children_length [of cs']
    by (auto simp: token_option_eq_iff)
next
  case (3 c cs d ds)
  then show ?case by auto
qed (auto simp: length_Suc_conv)

section \<open>Properties\<close>

text \<open>
  A deep copy compares equal to its original whenever the original has no null child, two copies
  compare equal exactly when they are the same tree, and comparing copies never dereferences a null
  child, whatever the originals were.
\<close>

theorem compare_copies:
  "compare (deepCopy a) (deepCopy b) = Inr (deepCopy a = deepCopy b) \<and>
   (null_free a \<longrightarrow> compare a (deepCopy a) = Inr True)"
  using compare_null_free(1) [of "deepCopy a" "deepCopy b"] compare_null_free(1) [of a "deepCopy a"]
  by (simp add: deepCopy_null_free deepCopy_idem)

theorem compare_copies_witness:
  "compare (new_node A_SELECT) (deepCopy (new_node A_SELECT)) = Inr True"
  using compare_copies [of "new_node A_SELECT" "new_node A_SELECT"]
  by (simp add: new_node_def del: compare.simps)

text \<open>Children of a type, and lists in which no two of them are neighbours.\<close>

definition has_type :: "node_type \<Rightarrow> ast option \<Rightarrow> bool" where
  "has_type ty c \<longleftrightarrow> (\<exists>n. c = Some n \<and> nodeType n = ty)"

fun no_adjacent :: "node_type \<Rightarrow> ast option list \<Rightarrow> bool" where
  "no_adjacent ty (c # d # cs) = (\<not> (has_type ty c \<and> has_type ty d) \<and> no_adjacent ty (d # cs))"
| "no_adjacent ty _ = True"

lemma remove_by_type_spread:
  "None \<notin> set cs \<Longrightarrow> no_adjacent ty cs \<Longrightarrow>
     remove_by_type ty cs = Inr (filter (\<lambda>c. \<not> has_type ty c) cs)"
proof (induction ty cs rule: remove_by_type.induct)
  case (3 ty c cs)
  show ?case
  proof (cases "nodeType c = ty")
    case True
    show ?thesis
    proof (cases cs)
      case Nil
      with True show ?thesis by (simp add: has_type_def)
    next
      case (Cons d ds)
      with 3(4) True have "\<not> has_type ty d" by (simp add: has_type_def)
      moreover have "no_adjacent ty ds" using 3(4) Cons by (cases ds) simp_all
      ultimately show ?thesis using 3(1)[OF True Cons] 3(3) True Cons by (simp add: has_type_def)
    qed
  next
    case False
    moreover have "no_adjacent ty cs" using 3(4) by (cases cs) simp_all
    ultimately show ?thesis using 3(2)[OF False] 3(3) by (simp add: has_type_def)
  qed
qed simp_all

text \<open>
  \<open>removeChildrenByType\<close> leaves the second of two adjacent children of the given type in place
  (the iterator steps over it after the first erasure), while it removes every such child when no
  two of them are adjacent.
\<close>

lemma removeChildrenByType_behaviour:
  "(None \<notin> set cs \<and> no_adjacent ty cs \<longrightarrow>
      removeChildrenByType ty (Node t tok i cs) = Inr (Node t tok i (filter (\<lambda>c. \<not> has_type ty c) cs))) \<and>
   (nodeType a = ty \<and> nodeType b = ty \<longrightarrow>
      removeChildrenByType ty (Node t tok i [Some a, Some b]) = Inr (Node t tok i [Some b]))"
  by (simp add: remove_by_type_spread)

lemma removeChildrenByType_behaviour_witness:
  "removeChildrenByType A_WHERE (Node A_SELECT None (-1) [Some (new_node A_WHERE), Some (new_node A_WHERE)]) =
     Inr (Node A_SELECT None (-1) [Some (new_node A_WHERE)])"
  using removeChildrenByType_behaviour [of "[]" A_WHERE A_SELECT None "-1" "new_node A_WHERE" "new_node A_WHERE"]
  by (simp add: new_node_def del: removeChildrenByType.simps)

end
