(* ===== verification/Parser_Expr.thy ===== *)
theory Parser_Expr
  imports Ast
begin

text \<open>
  The expression parser: \<open>Parser::expr\<close>, \<open>unaryExpr\<close>, \<open>methodCall\<close>, \<open>binaryExpr\<close> and the
  operator functions of src/csql/parser/parser.cc, with the cursor helpers of parser.h.

  The parser's state is the token pointer \<open>cur_token_\<close>: a model function takes the tokens from the
  cursor to the end of the list and returns its result with the tokens that are left. The list ends
  in the \<open>T_EOF\<close> token that \<open>Parser::parse\<close> appends; looking at a token beyond it is
  \<open>Undefined ReadOutOfBounds\<close>. A null \<open>ASTNode*\<close> result is \<open>None\<close>.

  The functions are mutually recursive through \<open>expr\<close>. Each takes the expression parser as its
  first argument \<open>ex\<close>, and \<open>exprF\<close> ties the knot with a recursion bound; \<open>expr\<close> runs it with a
  bound of one more than the number of tokens, which the lemmas below show to be enough.
\<close>

section \<open>The cursor\<close>

type_synonym 'a parse = "('a \<times> token list) result"

definition cur_type :: "token list \<Rightarrow> token_type result" where
  "cur_type ts = (case ts of [] \<Rightarrow> Inl (Undefined ReadOutOfBounds) | t # _ \<Rightarrow> Inr (getType t))"

definition consumeToken :: "token list \<Rightarrow> token parse" where
  "consumeToken ts = (case ts of [] \<Rightarrow> Inl (Undefined ReadOutOfBounds) | t # r \<Rightarrow> Inr (t, r))"

definition lookahead :: "nat \<Rightarrow> token_type \<Rightarrow> token list \<Rightarrow> bool" where
  "lookahead n ty ts \<longleftrightarrow> n < length ts \<and> getType (ts ! n) = ty"

definition assertExpectation :: "token_type \<Rightarrow> token list \<Rightarrow> unit result" where
  "assertExpectation ty ts =
     bindR (cur_type ts) (\<lambda>t. if t = ty then Inr () else Inl (Raise ParseError))"

definition expectAndConsume :: "token_type \<Rightarrow> token list \<Rightarrow> token parse" where
  "expectAndConsume ty ts = bindR (assertExpectation ty ts) (\<lambda>_. consumeToken ts)"

definition expectOneOf :: "token_type list \<Rightarrow> token list \<Rightarrow> token parse" where
  "expectOneOf tys ts =
     bindR (cur_type ts) (\<lambda>t. if t \<in> set tys then consumeToken ts else Inl (Raise ParseError))"

definition consumeIf :: "token_type \<Rightarrow> token list \<Rightarrow> bool parse" where
  "consumeIf ty ts =
     bindR (cur_type ts) (\<lambda>t. if t = ty then bindR (consumeToken ts) (\<lambda>(_, r). Inr (True, r))
                            else Inr (False, ts))"

section \<open>Unary expressions\<close>

type_synonym expr_parser = "nat \<Rightarrow> token list \<Rightarrow> ast option parse"

text \<open>
  The loop over \<open>table.column\<close> names: called on the tokens after a dot, it makes the node of the
  next name, with the names after it nested inside.
\<close>

fun column_path :: "token list \<Rightarrow> ast parse" where
  "column_path [] = Inl (Undefined ReadOutOfBounds)"
| "column_path (t # ts) =
     (if getType t = T_IDENTIFIER then
        (case ts of
           d # ts' \<Rightarrow>
             (if getType d = T_DOT then
                bindR (column_path ts') (\<lambda>(c, r). Inr (appendChild (leaf A_COLUMN_NAME t) (Some c), r))
              else Inr (leaf A_COLUMN_NAME t, ts))
         | [] \<Rightarrow> Inr (leaf A_COLUMN_NAME t, ts))
      else Inl (Raise ParseError))"

text \<open>
  The argument loop of a call: each round steps over the parenthesis or comma, then takes \<open>*\<close> as
  a void argument or parses an expression (which may be null). \<open>k\<close> bounds the rounds.
\<close>

fun call_args :: "expr_parser \<Rightarrow> nat \<Rightarrow> token list \<Rightarrow> ast option list parse" where
  "call_args ex 0 ts = Inl OutOfFuel"
| "call_args ex (Suc k) ts =
     bindR (consumeToken ts) (\<lambda>(_, ts1).
     bindR (cur_type ts1) (\<lambda>ty.
     bindR (if ty = T_ASTERISK then bindR (consumeToken ts1) (\<lambda>(_, r). Inr (Some (new_node A_VOID), r))
            else ex 0 ts1) (\<lambda>(a, ts2).
     bindR (cur_type ts2) (\<lambda>ty2.
       if ty2 = T_COMMA then bindR (call_args ex k ts2) (\<lambda>(as, r). Inr (a # as, r))
       else Inr ([a], ts2)))))"

text \<open>The node type a call starts with, by its name (compared with its case).\<close>

definition call_type :: "string \<Rightarrow> node_type" where
  "call_type name =
     (if name = ''subquery_column'' then A_COLUMN_INDEX
      else if name = ''if'' then A_IF_EXPR else A_METHOD_CALL)"

definition methodCall :: "expr_parser \<Rightarrow> token list \<Rightarrow> ast option parse" where
  "methodCall ex ts =
     bindR (consumeToken ts) (\<lambda>(name, ts1).
     bindR (call_args ex (Suc (length ts1)) ts1) (\<lambda>(args, ts2).
     bindR (expectAndConsume T_RPAREN ts2) (\<lambda>(_, ts3).
       let e = foldl appendChild (leaf (call_type (getString name)) name) args in
       if lookahead 0 T_WITHIN ts3 \<and> lookahead 1 T_RECORD ts3 then
         bindR (consumeToken ts3) (\<lambda>(_, ts4).
         bindR (consumeToken ts4) (\<lambda>(_, ts5).
           Inr (Some (setType A_METHOD_CALL_WITHIN_RECORD e), ts5)))
       else Inr (Some e, ts3))))"

definition unaryExpr :: "expr_parser \<Rightarrow> token list \<Rightarrow> ast option parse" where
  "unaryExpr ex ts =
     bindR (cur_type ts) (\<lambda>ty.
       if ty = T_LPAREN then
         bindR (consumeToken ts) (\<lambda>(_, ts1).
         bindR (ex 0 ts1) (\<lambda>(e, ts2).
         bindR (expectAndConsume T_RPAREN ts2) (\<lambda>(_, ts3). Inr (e, ts3))))
       else if ty = T_BANG \<or> ty = T_MINUS \<or> ty = T_NOT then
         bindR (consumeToken ts) (\<lambda>(_, ts1).
         bindR (ex 0 ts1) (\<lambda>(e, ts2). Inr (Some (appendChild (new_node A_NEGATE_EXPR) e), ts2)))
       else if ty = T_TRUE \<or> ty = T_FALSE \<or> ty = T_NUMERIC \<or> ty = T_STRING then
         bindR (consumeToken ts) (\<lambda>(t, ts1). Inr (Some (leaf A_LITERAL t), ts1))
       else if ty = T_IDENTIFIER then
         (if lookahead 1 T_DOT ts then
            bindR (consumeToken ts) (\<lambda>(t, ts1).
            bindR (consumeToken ts1) (\<lambda>(_, ts2).
            bindR (column_path ts2) (\<lambda>(c, r).
              Inr (Some (appendChild (leaf A_COLUMN_NAME t) (Some c)), r))))
          else if lookahead 1 T_LPAREN ts then methodCall ex ts
          else bindR (consumeToken ts) (\<lambda>(t, ts1). Inr (Some (leaf A_COLUMN_NAME t), ts1)))
       else Inr (None, ts))"

section \<open>Binary expressions\<close>

text \<open>
  The operator functions share their shape: give up when the context binds at least as tightly as
  the guard, otherwise consume the operator, parse the right operand at a level of its own and
  build the node. A missing right operand is a runtime error.
\<close>

definition binary_node ::
  "nat \<Rightarrow> nat \<Rightarrow> node_type \<Rightarrow> expr_parser \<Rightarrow> ast \<Rightarrow> nat \<Rightarrow> token list \<Rightarrow> ast option parse" where
  "binary_node guard rprec ty ex lhs precedence ts =
     (if precedence < guard then
        bindR (consumeToken ts) (\<lambda>(_, ts1).
        bindR (ex rprec ts1) (\<lambda>(rhs, ts2).
          case rhs of
            None \<Rightarrow> Inl (Raise RuntimeError)
          | Some r \<Rightarrow> Inr (Some (branch ty [Some lhs, Some r]), ts2)))
      else Inr (None, ts))"

definition eqExpr :: "expr_parser \<Rightarrow> ast \<Rightarrow> nat \<Rightarrow> token list \<Rightarrow> ast option parse" where
  "eqExpr = binary_node 6 6 A_EQ_EXPR"

definition neqExpr :: "expr_parser \<Rightarrow> ast \<Rightarrow> nat \<Rightarrow> token list \<Rightarrow> ast option parse" where
  "neqExpr = binary_node 6 6 A_NEQ_EXPR"

definition ltExpr :: "expr_parser \<Rightarrow> ast \<Rightarrow> nat \<Rightarrow> token list \<Rightarrow> ast option parse" where
  "ltExpr = binary_node 6 6 A_LT_EXPR"

definition lteExpr :: "expr_parser \<Rightarrow> ast \<Rightarrow> nat \<Rightarrow> token list \<Rightarrow> ast option parse" where
  "lteExpr = binary_node 6 6 A_LTE_EXPR"

definition gtExpr :: "expr_parser \<Rightarrow> ast \<Rightarrow> nat \<Rightarrow> token list \<Rightarrow> ast option parse" where
  "gtExpr = binary_node 6 6 A_GT_EXPR"

definition gteExpr :: "expr_parser \<Rightarrow> ast \<Rightarrow> nat \<Rightarrow> token list \<Rightarrow> ast option parse" where
  "gteExpr = binary_node 6 6 A_GTE_EXPR"

definition andExpr :: "expr_parser \<Rightarrow> ast \<Rightarrow> nat \<Rightarrow> token list \<Rightarrow> ast option parse" where
  "andExpr = binary_node 3 3 A_AND_EXPR"

definition orExpr :: "expr_parser \<Rightarrow> ast \<Rightarrow> nat \<Rightarrow> token list \<Rightarrow> ast option parse" where
  "orExpr = binary_node 1 1 A_OR_EXPR"

definition addExpr :: "expr_parser \<Rightarrow> ast \<Rightarrow> nat \<Rightarrow> token list \<Rightarrow> ast option parse" where
  "addExpr = binary_node 10 10 A_ADD_EXPR"

definition subExpr :: "expr_parser \<Rightarrow> ast \<Rightarrow> nat \<Rightarrow> token list \<Rightarrow> ast option parse" where
  "subExpr = binary_node 10 10 A_SUB_EXPR"

definition mulExpr :: "expr_parser \<Rightarrow> ast \<Rightarrow> nat \<Rightarrow> token list \<Rightarrow> ast option parse" where
  "mulExpr = binary_node 11 11 A_MUL_EXPR"

definition divExpr :: "expr_parser \<Rightarrow> ast \<Rightarrow> nat \<Rightarrow> token list \<Rightarrow> ast option parse" where
  "divExpr = binary_node 11 11 A_DIV_EXPR"

definition modExpr :: "expr_parser \<Rightarrow> ast \<Rightarrow> nat \<Rightarrow> token list \<Rightarrow> ast option parse" where
  "modExpr = binary_node 11 11 A_MOD_EXPR"

text \<open>The right operand of \<open>^\<close> is parsed one level below its guard, which makes it associate right.\<close>

definition powExpr :: "expr_parser \<Rightarrow> ast \<Rightarrow> nat \<Rightarrow> token list \<Rightarrow> ast option parse" where
  "powExpr = binary_node 12 11 A_POW_EXPR"

lemmas operator_defs = eqExpr_def neqExpr_def ltExpr_def lteExpr_def gtExpr_def gteExpr_def andExpr_def
  orExpr_def addExpr_def subExpr_def mulExpr_def divExpr_def modExpr_def powExpr_def

definition binaryExpr :: "expr_parser \<Rightarrow> ast \<Rightarrow> nat \<Rightarrow> token list \<Rightarrow> ast option parse" where
  "binaryExpr ex lhs precedence ts =
     bindR (cur_type ts) (\<lambda>ty.
       if ty = T_EQUAL then eqExpr ex lhs precedence ts
       else if ty = T_NEQUAL then neqExpr ex lhs precedence ts
       else if ty = T_LT then ltExpr ex lhs precedence ts
       else if ty = T_LTE then lteExpr ex lhs precedence ts
       else if ty = T_GT then gtExpr ex lhs precedence ts
       else if ty = T_GTE then gteExpr ex lhs precedence ts
       else if ty = T_AND then andExpr ex lhs precedence ts
       else if ty = T_OR then orExpr ex lhs precedence ts
       else if ty = T_PLUS then addExpr ex lhs precedence ts
       else if ty = T_MINUS then subExpr ex lhs precedence ts
       else if ty = T_ASTERISK then mulExpr ex lhs precedence ts
       else if ty = T_SLASH \<or> ty = T_DIV then divExpr ex lhs precedence ts
       else if ty = T_PERCENT \<or> ty = T_MOD then modExpr ex lhs precedence ts
       else if ty = T_CIRCUMFLEX then powExpr ex lhs precedence ts
       else Inr (None, ts))"

text \<open>The \<open>for (;;)\<close> loop of \<open>expr\<close>; \<open>k\<close> bounds its rounds.\<close>

fun binary_loop :: "expr_parser \<Rightarrow> nat \<Rightarrow> ast \<Rightarrow> nat \<Rightarrow> token list \<Rightarrow> ast option parse" where
  "binary_loop ex 0 lhs precedence ts = Inl OutOfFuel"
| "binary_loop ex (Suc k) lhs precedence ts =
     bindR (binaryExpr ex lhs precedence ts) (\<lambda>(e, ts').
       case e of
         None \<Rightarrow> Inr (Some lhs, ts')
       | Some e' \<Rightarrow> binary_loop ex k e' precedence ts')"

fun exprF :: "nat \<Rightarrow> expr_parser" where
  "exprF 0 precedence ts = Inl OutOfFuel"
| "exprF (Suc n) precedence ts =
     bindR (unaryExpr (exprF n) ts) (\<lambda>(lhs, ts1).
       case lhs of
         None \<Rightarrow> Inr (None, ts1)
       | Some l \<Rightarrow> binary_loop (exprF n) (Suc (length ts1)) l precedence ts1)"

definition expr :: expr_parser where
  "expr precedence ts = exprF (Suc (length ts)) precedence ts"

definition expectAndConsumeValueExpr :: "token list \<Rightarrow> ast parse" where
  "expectAndConsumeValueExpr ts =
     bindR (expr 0 ts) (\<lambda>(e, r).
       case e of None \<Rightarrow> bindR (cur_type r) (\<lambda>_. Inl (Raise ParseError)) | Some a \<Rightarrow> Inr (a, r))"

section \<open>Every parse stays inside the token list\<close>

text \<open>A token list as \<open>Parser::parse\<close> builds it: one \<open>T_EOF\<close>, at the end.\<close>

fun ended :: "token list \<Rightarrow> bool" where
  "ended [] = False"
| "ended (t # ts) \<longleftrightarrow> getType t = T_EOF \<and> ts = [] \<or> getType t \<noteq> T_EOF \<and> ended ts"

lemma ended_not_Nil: "ended ts \<Longrightarrow> ts \<noteq> []"
  by (cases ts) simp_all

lemma ended_length: "ended ts \<Longrightarrow> 0 < length ts"
  by (cases ts) simp_all

lemma ended_pred: "ended ts \<Longrightarrow> length ts < Suc n \<Longrightarrow> length ts - Suc 0 < n"
  by (cases ts) auto

lemma ended_E:
  assumes "ended ts"
  obtains t r where "ts = t # r" and "getType t = T_EOF \<Longrightarrow> r = []" and "getType t \<noteq> T_EOF \<Longrightarrow> ended r"
  using assms by (cases ts) (auto split: if_splits)

lemma ended_append: "ended (xs @ ts) \<Longrightarrow> ts \<noteq> [] \<Longrightarrow> ended ts"
  by (induction xs) (auto split: if_splits)

text \<open>
  \<open>run P r\<close>: the run \<open>r\<close> ends in one of the parser's two exceptions, or leaves a well-formed
  token list, with the value and the list satisfying \<open>P\<close>. \<open>safe k\<close> asks for a list of at most \<open>k\<close>
  tokens, \<open>consumes k\<close> for fewer, \<open>progress k\<close> for fewer than \<open>k\<close> when a node was built.
\<close>

definition parse_error :: "error \<Rightarrow> bool" where
  "parse_error e \<longleftrightarrow> e = Raise ParseError \<or> e = Raise RuntimeError"

definition run :: "('a \<Rightarrow> token list \<Rightarrow> bool) \<Rightarrow> 'a parse \<Rightarrow> bool" where
  "run P res = (case res of Inl e \<Rightarrow> parse_error e | Inr (x, r) \<Rightarrow> ended r \<and> P x r)"

definition within :: "nat \<Rightarrow> 'a \<Rightarrow> token list \<Rightarrow> bool" where
  "within k x r \<longleftrightarrow> length r \<le> k"

definition below :: "nat \<Rightarrow> 'a \<Rightarrow> token list \<Rightarrow> bool" where
  "below k x r \<longleftrightarrow> length r < k"

definition shrinks :: "nat \<Rightarrow> 'a option \<Rightarrow> token list \<Rightarrow> bool" where
  "shrinks k x r \<longleftrightarrow> length r \<le> k \<and> (x \<noteq> None \<longrightarrow> length r < k)"

abbreviation safe :: "nat \<Rightarrow> 'a parse \<Rightarrow> bool" where
  "safe k \<equiv> run (within k)"

abbreviation consumes :: "nat \<Rightarrow> 'a parse \<Rightarrow> bool" where
  "consumes k \<equiv> run (below k)"

abbreviation progress :: "nat \<Rightarrow> 'a option parse \<Rightarrow> bool" where
  "progress k \<equiv> run (shrinks k)"

lemma within_dest [dest!]: "within k x r \<Longrightarrow> length r \<le> k"
  by (simp add: within_def)

lemma below_dest [dest!]: "below k x r \<Longrightarrow> length r < k"
  by (simp add: below_def)

lemma shrinks_dest [dest!]: "shrinks k x r \<Longrightarrow> length r \<le> k \<and> (x \<noteq> None \<longrightarrow> length r < k)"
  by (simp add: shrinks_def)

lemma parse_error_simps [simp]: "parse_error (Raise ParseError)" "parse_error (Raise RuntimeError)"
  by (simp_all add: parse_error_def)

lemma run_simps [simp]:
  "run P (Inl e) = parse_error e"
  "run (within k) (Inr (x, r)) \<longleftrightarrow> ended r \<and> length r \<le> k"
  "run (below k) (Inr (x, r)) \<longleftrightarrow> ended r \<and> length r < k"
  "run (shrinks k) (Inr (y, r)) \<longleftrightarrow> ended r \<and> length r \<le> k \<and> (y \<noteq> None \<longrightarrow> length r < k)"
  by (simp_all add: run_def within_def below_def shrinks_def)

lemma run_Inr: "run P (Inr (x, r)) \<longleftrightarrow> ended r \<and> P x r"
  by (simp add: run_def)

lemma safe_mono: "safe j res \<Longrightarrow> j \<le> k \<Longrightarrow> safe k res"
  by (auto simp: run_def within_def split: sum.splits)

lemma consumes_mono: "consumes j res \<Longrightarrow> j \<le> k \<Longrightarrow> consumes k res"
  by (auto simp: run_def below_def split: sum.splits)

lemma consumes_safe: "consumes j res \<Longrightarrow> j \<le> k \<Longrightarrow> safe k res"
  by (auto simp: run_def below_def within_def split: sum.splits)

lemma safe_consumes: "safe j res \<Longrightarrow> j < k \<Longrightarrow> consumes k res"
  by (auto simp: run_def below_def within_def split: sum.splits)

lemma progress_mono: "progress j res \<Longrightarrow> j \<le> k \<Longrightarrow> progress k res"
  by (auto simp: run_def shrinks_def split: sum.splits)

lemma progress_safe: "progress j res \<Longrightarrow> j \<le> k \<Longrightarrow> safe k res"
  by (auto simp: run_def shrinks_def within_def split: sum.splits)

lemma safe_progress: "safe j res \<Longrightarrow> j < k \<Longrightarrow> progress k res"
  by (auto simp: run_def shrinks_def within_def split: sum.splits)

lemma run_bind:
  assumes "run Q m" and "\<And>x r. m = Inr (x, r) \<Longrightarrow> ended r \<Longrightarrow> Q x r \<Longrightarrow> run P (f (x, r))"
  shows "run P (bindR m f)"
  using assms by (cases m) (auto simp: run_Inr)

text \<open>The cursor helpers on a well-formed list.\<close>

lemma cur_type_Cons [simp]: "cur_type (t # ts) = Inr (getType t)"
  by (simp add: cur_type_def)

lemma consumeToken_Cons [simp]: "consumeToken (t # ts) = Inr (t, ts)"
  by (simp add: consumeToken_def)

lemma expectAndConsume_Cons [simp]:
  "expectAndConsume ty (t # ts) = (if getType t = ty then Inr (t, ts) else Inl (Raise ParseError))"
  by (simp add: expectAndConsume_def assertExpectation_def)

lemma assertExpectation_Cons [simp]:
  "assertExpectation ty (t # ts) = (if getType t = ty then Inr () else Inl (Raise ParseError))"
  by (simp add: assertExpectation_def)

lemma expectOneOf_Cons [simp]:
  "expectOneOf tys (t # ts) = (if getType t \<in> set tys then Inr (t, ts) else Inl (Raise ParseError))"
  by (simp add: expectOneOf_def)

lemma consumeIf_Cons [simp]:
  "consumeIf ty (t # ts) = (if getType t = ty then Inr (True, ts) else Inr (False, t # ts))"
  by (simp add: consumeIf_def)

lemma lookahead_Cons [simp]:
  "lookahead 0 ty (t # ts) \<longleftrightarrow> getType t = ty" "lookahead (Suc n) ty (t # ts) \<longleftrightarrow> lookahead n ty ts"
  by (simp_all add: lookahead_def)

lemma lookahead_Nil [simp]: "\<not> lookahead n ty []"
  by (simp add: lookahead_def)

lemma run_expect:
  assumes "ended ts" and "ty \<noteq> T_EOF"
    and "\<And>t r. ts = t # r \<Longrightarrow> getType t = ty \<Longrightarrow> ended r \<Longrightarrow> run P (f (t, r))"
  shows "run P (bindR (expectAndConsume ty ts) f)"
  using assms by (cases ts) auto

lemma run_expectOneOf:
  assumes "ended ts" and "T_EOF \<notin> set tys"
    and "\<And>t r. ts = t # r \<Longrightarrow> getType t \<in> set tys \<Longrightarrow> ended r \<Longrightarrow> run P (f (t, r))"
  shows "run P (bindR (expectOneOf tys ts) f)"
  using assms by (cases ts) auto

lemma run_consumeIf:
  assumes "ended ts" and "ty \<noteq> T_EOF"
    and "\<And>t r. ts = t # r \<Longrightarrow> getType t = ty \<Longrightarrow> ended r \<Longrightarrow> run P (f (True, r))"
    and "\<And>t r. ts = t # r \<Longrightarrow> getType t \<noteq> ty \<Longrightarrow> run P (f (False, ts))"
  shows "run P (bindR (consumeIf ty ts) f)"
  using assms by (cases ts) auto

lemma run_cur_type:
  assumes "ended ts" and "\<And>t r. ts = t # r \<Longrightarrow> run P (f (getType t))"
  shows "run P (bindR (cur_type ts) f)"
  using assms by (cases ts) auto

lemma column_path_safe: "ended ts \<Longrightarrow> safe (length ts - 1) (column_path ts)"
proof (induction ts rule: column_path.induct)
  case (2 t ts)
  show ?case
  proof (cases "getType t = T_IDENTIFIER")
    case True
    with 2(2) obtain d ts' where ts: "ts = d # ts'" and en: "ended (d # ts')"
      by (cases ts) auto
    show ?thesis
    proof (cases "getType d = T_DOT")
      case dot: True
      with en have "ended ts'" by simp
      from 2(1)[OF True ts dot this] show ?thesis
        using True dot ts by (auto intro!: run_bind)
    next
      case False
      then show ?thesis using True ts en by simp
    qed
  qed simp
qed simp

text \<open>
  The contract of an expression parser on lists whose length satisfies \<open>ok\<close>, and what the functions
  that call it can rely on.
\<close>

locale expression_parser =
  fixes ok :: "nat \<Rightarrow> bool" and ex :: expr_parser
  assumes ok_less: "ok k \<Longrightarrow> j \<le> k \<Longrightarrow> ok j"
    and ex_progress: "ended ts \<Longrightarrow> ok (length ts) \<Longrightarrow> progress (length ts) (ex p ts)"
begin

lemma ex_safe: "ended ts \<Longrightarrow> ok (length ts) \<Longrightarrow> safe (length ts) (ex p ts)"
  by (drule (1) ex_progress, erule progress_safe) simp

lemma call_args_safe:
  "ended ts \<Longrightarrow> getType (hd ts) \<noteq> T_EOF \<Longrightarrow> ok (length ts - 1) \<Longrightarrow> length ts \<le> k \<Longrightarrow>
     safe (length ts - 1) (call_args ex k ts)"
proof (induction k arbitrary: ts)
  case 0
  then show ?case by (cases ts) auto
next
  case (Suc k)
  then obtain t r where ts: "ts = t # r" and en: "ended r" by (cases ts) auto
  obtain u r' where r: "r = u # r'" using en by (cases r) auto
  let ?arg = "if getType u = T_ASTERISK
    then bindR (consumeToken r) (\<lambda>(_, r). Inr (Some (new_node A_VOID), r)) else ex 0 r"
  have arg: "safe (length r) ?arg"
    using en Suc.prems(3) ts r ex_safe [of r 0] by auto
  have more: "safe (length r) (call_args ex k ts')"
    if "ended ts'" "length ts' \<le> length r" "getType (hd ts') = T_COMMA" for ts'
  proof -
    have "safe (length ts' - 1) (call_args ex k ts')"
      using that Suc.prems(3,4) ts by (intro Suc.IH) (auto intro: ok_less)
    with that(2) show ?thesis by (auto elim: safe_mono)
  qed
  have "safe (length r) (bindR ?arg (\<lambda>(a, ts2). bindR (cur_type ts2) (\<lambda>ty2.
       if ty2 = T_COMMA then bindR (call_args ex k ts2) (\<lambda>(as, r). Inr (a # as, r))
       else Inr ([a], ts2))))"
    by (rule run_bind [OF arg], simp only: split_conv)
      (auto intro!: run_cur_type run_bind [OF more])
  then show ?case
    by (simp only: ts r call_args.simps consumeToken_Cons cur_type_Cons bindR_Inr split_conv
        length_Cons diff_Suc_1)
qed

lemma methodCall_progress:
  assumes "ended (t # u # r)" and "getType t \<noteq> T_EOF" "getType u \<noteq> T_EOF" and "ok (length r)"
  shows "progress (Suc (length r)) (methodCall ex (t # u # r))"
proof -
  have args: "safe (length r) (call_args ex (Suc (Suc (length r))) (u # r))"
    using call_args_safe [of "u # r" "Suc (Suc (length r))"] assms by simp
  have "progress (Suc (length r)) (if lookahead 0 T_WITHIN ts \<and> lookahead 1 T_RECORD ts
      then bindR (consumeToken ts) (\<lambda>(_, ts4). bindR (consumeToken ts4) (\<lambda>(_, ts5). Inr (Some e', ts5)))
      else Inr (Some e, ts))" if "ended ts" "length ts < length r" for ts and e e' :: ast
    using that by (cases ts; cases "tl ts") auto
  then show ?thesis
    unfolding methodCall_def Let_def
    by (simp only: consumeToken_Cons bindR_Inr split_conv length_Cons)
      (auto intro!: run_bind [OF args] run_expect simp del: call_args.simps)
qed

lemma unaryExpr_progress:
  assumes en: "ended ts" and ok: "ok (length ts - 1)"
  shows "progress (length ts) (unaryExpr ex ts)"
proof -
  obtain t r where ts: "ts = t # r" using en by (cases ts) auto
  consider (paren) "getType t = T_LPAREN" | (neg) "getType t = T_BANG \<or> getType t = T_MINUS \<or> getType t = T_NOT"
    | (dot) "getType t = T_IDENTIFIER" "lookahead 1 T_DOT ts"
    | (call) "getType t = T_IDENTIFIER" "\<not> lookahead 1 T_DOT ts" "lookahead 1 T_LPAREN ts"
    | (other) "getType t = T_IDENTIFIER \<longrightarrow> \<not> lookahead 1 T_DOT ts \<and> \<not> lookahead 1 T_LPAREN ts"
        "getType t \<noteq> T_LPAREN" "getType t \<noteq> T_BANG" "getType t \<noteq> T_MINUS" "getType t \<noteq> T_NOT"
    by blast
  then show ?thesis
  proof cases
    case paren
    then have "ended r" "ok (length r)" using en ok ts by auto
    from run_bind [OF ex_safe [OF this]] show ?thesis
      using paren ts by (auto simp: unaryExpr_def intro!: run_bind [OF ex_safe] run_expect \<open>ended r\<close> \<open>ok (length r)\<close>)
  next
    case neg
    then have "ended r" "ok (length r)" using en ok ts by auto
    then show ?thesis using neg ts by (auto simp: unaryExpr_def intro!: run_bind [OF ex_safe])
  next
    case dot
    then obtain u q where r: "r = u # q" "getType u = T_DOT" using ts by (cases r) auto
    then have q: "ended q" using en ts dot by auto
    show ?thesis using dot ts r
      by (auto simp: unaryExpr_def intro!: run_bind [OF column_path_safe [OF q]])
  next
    case call
    then obtain u q where r: "r = u # q" "getType u = T_LPAREN" using ts by (cases r) auto
    then have "progress (Suc (length q)) (methodCall ex (t # u # q))"
      using methodCall_progress [of t u q] call en ts ok ok_less by auto
    then show ?thesis using call ts r by (auto simp: unaryExpr_def elim: progress_mono)
  next
    case other
    then show ?thesis using en ts by (auto simp: unaryExpr_def)
  qed
qed

lemma binary_node_progress:
  assumes "ended (t # r)" and "getType t \<noteq> T_EOF" and "ok (length r)"
  shows "progress (Suc (length r)) (binary_node guard rprec ty ex lhs p (t # r))"
  using assms by (auto simp: binary_node_def intro!: run_bind [OF ex_safe] split: option.splits)

lemma binaryExpr_progress:
  assumes en: "ended ts" and ok: "ok (length ts - 1)"
  shows "progress (length ts) (binaryExpr ex lhs p ts)"
proof -
  obtain t r where ts: "ts = t # r" using en by (cases ts) auto
  show ?thesis
  proof (cases "getType t = T_EOF")
    case True
    then show ?thesis using en ts by (simp add: binaryExpr_def)
  next
    case False
    have node: "progress (length ts) (binary_node guard rprec ty ex lhs p ts)" for guard rprec ty
      using binary_node_progress [of t r] en False ok ts by auto
    note node = node [unfolded ts length_Cons]
    show ?thesis unfolding binaryExpr_def operator_defs ts using en [unfolded ts] node
      by (auto intro!: run_cur_type intro: node)
  qed
qed

lemma binary_loop_progress:
  assumes "ended ts" and "ok (length ts - 1)" and "length ts < k"
  shows "safe (length ts) (binary_loop ex k lhs p ts)"
  using assms
proof (induction k arbitrary: lhs ts)
  case (Suc k)
  show ?case
    unfolding binary_loop.simps
  proof (rule run_bind [OF binaryExpr_progress [OF Suc.prems(1,2)]], simp only: split_conv)
    fix e :: "ast option" and r
    assume r: "ended r" "shrinks (length ts) e r"
    show "safe (length ts) (case e of None \<Rightarrow> Inr (Some lhs, r) | Some e' \<Rightarrow> binary_loop ex k e' p r)"
    proof (cases e)
      case (Some e')
      then have "safe (length r) (binary_loop ex k e' p r)"
        using Suc.prems r by (intro Suc.IH) (auto intro: ok_less)
      with Some r show ?thesis by (auto elim: safe_mono)
    qed (use r in auto)
  qed
qed simp

text \<open>One more level of the recursion.\<close>

lemma step_progress:
  assumes en: "ended ts" and ok: "ok (length ts - 1)"
  shows "progress (length ts) (bindR (unaryExpr ex ts) (\<lambda>(lhs, ts1).
       case lhs of
         None \<Rightarrow> Inr (None, ts1)
       | Some l \<Rightarrow> binary_loop ex (Suc (length ts1)) l p ts1))"
proof (rule run_bind [OF unaryExpr_progress [OF en ok]], simp only: split_conv)
  fix lhs :: "ast option" and r
  assume r: "ended r" "shrinks (length ts) lhs r"
  show "progress (length ts) (case lhs of None \<Rightarrow> Inr (None, r)
     | Some l \<Rightarrow> binary_loop ex (Suc (length r)) l p r)"
  proof (cases lhs)
    case (Some l)
    then have "safe (length r) (binary_loop ex (Suc (length r)) l p r)"
      using r ok by (intro binary_loop_progress) (auto intro: ok_less)
    with Some r show ?thesis by (auto elim: safe_progress)
  qed (use r in auto)
qed

text \<open>The round bound of the operator loop is irrelevant once it exceeds the number of tokens.\<close>

lemma binary_loop_bound:
  assumes "ended ts" and "ok (length ts - 1)" and "length ts < k" "length ts < k'"
  shows "binary_loop ex k lhs p ts = binary_loop ex k' lhs p ts"
  using assms
proof (induction k arbitrary: lhs ts k')
  case (Suc k)
  then obtain j where k': "k' = Suc j" by (cases k') auto
  show ?case
    unfolding k' binary_loop.simps
  proof (rule bindR_cong [OF refl])
    fix y
    assume y: "binaryExpr ex lhs p ts = Inr y"
    obtain e r where er: "y = (e, r)" by (cases y)
    show "(case y of (e, ts') \<Rightarrow> case e of None \<Rightarrow> Inr (Some lhs, ts') | Some e' \<Rightarrow> binary_loop ex k e' p ts') =
          (case y of (e, ts') \<Rightarrow> case e of None \<Rightarrow> Inr (Some lhs, ts') | Some e' \<Rightarrow> binary_loop ex j e' p ts')"
    proof (cases e)
      case (Some e')
      then have "ended r" "length r < length ts"
        using binaryExpr_progress [OF Suc.prems(1,2), of lhs p] y er by auto
      then have "binary_loop ex k e' p r = binary_loop ex j e' p r"
        using Suc.prems k' by (intro Suc.IH) (auto intro: ok_less)
      with er Some show ?thesis by simp
    qed (simp add: er)
  qed
qed simp

end

text \<open>Two parsers that agree on the lists the first is specified for.\<close>

locale agreeing_parsers = expression_parser +
  fixes ex' :: expr_parser
  assumes agree: "ended ts \<Longrightarrow> ok (length ts) \<Longrightarrow> ex' p ts = ex p ts"
begin

lemma call_args_agree:
  "ended ts \<Longrightarrow> getType (hd ts) \<noteq> T_EOF \<Longrightarrow> ok (length ts - 1) \<Longrightarrow>
     call_args ex' k ts = call_args ex k ts"
proof (induction k arbitrary: ts)
  case (Suc k)
  then obtain t r where ts: "ts = t # r" and en: "ended r" by (cases ts) auto
  then obtain u r' where r: "r = u # r'" by (cases r) auto
  have arg: "ex' 0 r = ex 0 r" using en Suc.prems ts by (intro agree) auto
  let ?arg = "if getType u = T_ASTERISK
    then bindR (consumeToken r) (\<lambda>(_, r). Inr (Some (new_node A_VOID), r)) else ex 0 r"
  have len: "safe (length r) ?arg"
    using en Suc.prems ts r ex_safe [of r 0] by auto
  have more: "call_args ex' k ts' = call_args ex k ts'"
    if "ended ts'" "length ts' \<le> length r" "cur_type ts' = Inr T_COMMA" for ts'
    using that Suc.prems ts ok_less by (cases ts') (auto intro!: Suc.IH)
  have "bindR ?arg (\<lambda>(a, ts2). bindR (cur_type ts2) (\<lambda>ty2.
       if ty2 = T_COMMA then bindR (call_args ex' k ts2) (\<lambda>(as, r). Inr (a # as, r))
       else Inr ([a], ts2))) = bindR ?arg (\<lambda>(a, ts2). bindR (cur_type ts2) (\<lambda>ty2.
       if ty2 = T_COMMA then bindR (call_args ex k ts2) (\<lambda>(as, r). Inr (a # as, r))
       else Inr ([a], ts2)))"
    using len more by (cases ?arg) (auto intro!: bindR_cong)
  then show ?case
    by (simp only: ts r call_args.simps consumeToken_Cons cur_type_Cons bindR_Inr split_conv arg [unfolded r])
qed simp

lemma unaryExpr_agree:
  assumes en: "ended ts" and ok: "ok (length ts - 1)"
  shows "unaryExpr ex' ts = unaryExpr ex ts"
proof -
  obtain t r where ts: "ts = t # r" using en by (cases ts) auto
  have ex: "ex' 0 r = ex 0 r" if "getType t \<noteq> T_EOF"
    using that en ok ts by (intro agree) auto
  have call: "methodCall ex' ts = methodCall ex ts"
    if "getType t = T_IDENTIFIER" "lookahead 1 T_LPAREN ts"
    using that en ok ts call_args_agree [of r] ok_less
    by (cases r) (auto simp: methodCall_def simp del: call_args.simps)
  show ?thesis using ex call ts by (auto simp: unaryExpr_def)
qed

lemma binaryExpr_agree:
  assumes en: "ended ts" and ok: "ok (length ts - 1)"
  shows "binaryExpr ex' lhs p ts = binaryExpr ex lhs p ts"
proof -
  obtain t r where ts: "ts = t # r" using en by (cases ts) auto
  have "binary_node guard rprec ty ex' lhs p ts = binary_node guard rprec ty ex lhs p ts"
    if "getType t \<noteq> T_EOF" for guard rprec ty
    using that en ok ts agree [of r rprec] by (auto simp: binary_node_def)
  then show ?thesis by (simp add: binaryExpr_def operator_defs ts)
qed

lemma binary_loop_agree:
  assumes "ended ts" and "ok (length ts - 1)"
  shows "binary_loop ex' k lhs p ts = binary_loop ex k lhs p ts"
  using assms
proof (induction k arbitrary: lhs ts)
  case (Suc k)
  show ?case
    unfolding binary_loop.simps binaryExpr_agree [OF Suc.prems]
  proof (rule bindR_cong [OF refl])
    fix y
    assume y: "binaryExpr ex lhs p ts = Inr y"
    obtain e r where er: "y = (e, r)" by (cases y)
    have "ended r \<and> length r \<le> length ts"
      using binaryExpr_progress [OF Suc.prems, of lhs p] y er by auto
    then have "binary_loop ex' k e' p r = binary_loop ex k e' p r" for e'
      using Suc.prems by (intro Suc.IH) (auto intro: ok_less)
    then show "(case y of (e, ts') \<Rightarrow> case e of None \<Rightarrow> Inr (Some lhs, ts') | Some e' \<Rightarrow> binary_loop ex' k e' p ts') =
          (case y of (e, ts') \<Rightarrow> case e of None \<Rightarrow> Inr (Some lhs, ts') | Some e' \<Rightarrow> binary_loop ex k e' p ts')"
      by (simp add: er split: option.splits)
  qed
qed simp

lemma step_agree:
  assumes en: "ended ts" and ok: "ok (length ts - 1)"
  shows "bindR (unaryExpr ex' ts) (\<lambda>(lhs, ts1).
       case lhs of None \<Rightarrow> Inr (None, ts1) | Some l \<Rightarrow> binary_loop ex' (Suc (length ts1)) l p ts1) =
     bindR (unaryExpr ex ts) (\<lambda>(lhs, ts1).
       case lhs of None \<Rightarrow> Inr (None, ts1) | Some l \<Rightarrow> binary_loop ex (Suc (length ts1)) l p ts1)"
  unfolding unaryExpr_agree [OF en ok]
proof (rule bindR_cong [OF refl])
  fix y
  assume y: "unaryExpr ex ts = Inr y"
  obtain e r where er: "y = (e, r)" by (cases y)
  have r: "ended r \<and> length r \<le> length ts"
    using unaryExpr_progress [OF en ok] y er by auto
  then have "ok (length r - 1)" using ok by (auto intro: ok_less)
  with r show "(case y of (lhs, ts1) \<Rightarrow>
       case lhs of None \<Rightarrow> Inr (None, ts1) | Some l \<Rightarrow> binary_loop ex' (Suc (length ts1)) l p ts1) =
     (case y of (lhs, ts1) \<Rightarrow>
       case lhs of None \<Rightarrow> Inr (None, ts1) | Some l \<Rightarrow> binary_loop ex (Suc (length ts1)) l p ts1)"
    by (simp add: er binary_loop_agree split: option.splits del: binary_loop.simps)
qed

end

section \<open>The recursion bound\<close>

lemma exprF_expression_parser: "expression_parser (\<lambda>k. k < n) (exprF n)"
proof (induction n)
  case 0
  show ?case by (rule expression_parser.intro) auto
next
  case (Suc n)
  show ?case
  proof (rule expression_parser.intro)
    fix ts p
    assume "ended ts" "length ts < Suc n"
    then show "progress (length ts) (exprF (Suc n) p ts)"
      unfolding exprF.simps
      by (intro expression_parser.step_progress [OF Suc.IH]) (auto dest: ended_pred)
  qed simp
qed

lemma exprF_agreeing: "n \<le> m \<Longrightarrow> agreeing_parsers (\<lambda>k. k < n) (exprF n) (exprF m)"
proof (induction n arbitrary: m)
  case 0
  show ?case
    by (rule agreeing_parsers.intro [OF exprF_expression_parser]) (simp add: agreeing_parsers_axioms_def)
next
  case (Suc n)
  then obtain j where m: "m = Suc j" "n \<le> j" by (cases m) auto
  note agreeing_parsers.step_agree [OF Suc.IH [OF m(2)]]
  then show ?case
    by (intro agreeing_parsers.intro [OF exprF_expression_parser])
      (auto simp: agreeing_parsers_axioms_def m(1) dest: ended_pred)
qed

lemma expr_eq_exprF: "ended ts \<Longrightarrow> length ts < n \<Longrightarrow> expr p ts = exprF n p ts"
  unfolding expr_def
  using agreeing_parsers.agree [OF exprF_agreeing [of "Suc (length ts)" n]] by auto

interpretation sql_expr: expression_parser "\<lambda>_. True" expr
proof
  fix ts p
  assume "ended ts"
  then show "progress (length ts) (expr p ts)"
    unfolding expr_def by (intro expression_parser.ex_progress [OF exprF_expression_parser]) auto
qed simp

interpretation bounded_expr: agreeing_parsers "\<lambda>k. k < n" "exprF n" expr for n
  by (rule agreeing_parsers.intro [OF exprF_expression_parser])
    (simp add: agreeing_parsers_axioms_def expr_eq_exprF)

text \<open>Without the bounds: \<open>expr\<close> and its loop satisfy the equations of the code.\<close>

definition binaryLoop :: "ast \<Rightarrow> nat \<Rightarrow> token list \<Rightarrow> ast option parse" where
  "binaryLoop lhs p ts = binary_loop expr (Suc (length ts)) lhs p ts"

lemma expr_unfold:
  assumes en: "ended ts"
  shows "expr p ts = bindR (unaryExpr expr ts) (\<lambda>(lhs, r).
           case lhs of None \<Rightarrow> Inr (None, r) | Some l \<Rightarrow> binaryLoop l p r)"
  using bounded_expr.step_agree [OF en, of "length ts" p] ended_length [OF en]
  unfolding binaryLoop_def by (simp add: expr_def del: binary_loop.simps)

lemma binaryLoop_unfold:
  assumes en: "ended ts"
  shows "binaryLoop lhs p ts = bindR (binaryExpr expr lhs p ts) (\<lambda>(e, r).
           case e of None \<Rightarrow> Inr (Some lhs, r) | Some e' \<Rightarrow> binaryLoop e' p r)"
proof (subst binaryLoop_def, subst binary_loop.simps(2), rule bindR_cong [OF refl])
  fix y
  assume y: "binaryExpr expr lhs p ts = Inr y"
  obtain e r where er: "y = (e, r)" by (cases y)
  have "e \<noteq> None \<longrightarrow> ended r \<and> length r < length ts"
    using sql_expr.binaryExpr_progress [OF en, of lhs p] y er by auto
  then show "(case y of (e, ts') \<Rightarrow> case e of None \<Rightarrow> Inr (Some lhs, ts')
       | Some e' \<Rightarrow> binary_loop expr (length ts) e' p ts') =
     (case y of (e, r) \<Rightarrow> case e of None \<Rightarrow> Inr (Some lhs, r)
       | Some e' \<Rightarrow> binaryLoop e' p r)"
    by (auto simp: er binaryLoop_def split: option.splits simp del: binary_loop.simps
        intro!: sql_expr.binary_loop_bound)
qed

end
