(* ===== verification/Parser_Stmt.thy ===== *)
theory Parser_Stmt
  imports Parser_Expr Tokenizer
begin

text \<open>
  The statement parser: \<open>Parser::parseQuery\<close>, \<open>parse\<close>, \<open>parseValueExpression\<close>, \<open>statement\<close> and the
  clause functions of src/csql/parser/parser.cc. As in the expression parser, a function takes the
  tokens from the cursor on and returns the tokens left; a function whose result can be null returns
  an optional node. The loops of the code carry a round bound \<open>k\<close>, run with the number of tokens.
\<close>

section \<open>Clauses\<close>

text \<open>Appending the result of a clause that may be absent.\<close>

definition appendClause :: "ast \<Rightarrow> ast option \<Rightarrow> ast" where
  "appendClause n c = (case c of None \<Rightarrow> n | Some x \<Rightarrow> appendChild n (Some x))"

text \<open>The names after each dot are joined to the table's name.\<close>

fun dotted_name :: "string \<Rightarrow> token list \<Rightarrow> string parse" where
  "dotted_name name (d # t # r) =
     (if getType d = T_DOT then
        (if getType t = T_IDENTIFIER then dotted_name (name @ ''.'' @ getString t) r
         else Inl (Raise ParseError))
      else Inr (name, d # t # r))"
| "dotted_name name [d] = (if getType d = T_DOT then Inl (Undefined ReadOutOfBounds) else Inr (name, [d]))"
| "dotted_name name [] = Inr (name, [])"

definition tableName :: "token list \<Rightarrow> ast parse" where
  "tableName ts =
     bindR (cur_type ts) (\<lambda>ty.
     bindR (if ty = T_IDENTIFIER \<or> ty = T_STRING then Inr () else assertExpectation T_IDENTIFIER ts) (\<lambda>_.
     bindR (consumeToken ts) (\<lambda>(t, ts1).
     bindR (dotted_name (getString t) ts1) (\<lambda>(name, ts2).
       Inr (leaf A_TABLE_NAME (Token T_IDENTIFIER name), ts2)))))"

text \<open>\<open>do { consumeToken(); ... tableName() } while (',')\<close>\<close>

fun table_list :: "nat \<Rightarrow> token list \<Rightarrow> ast option list parse" where
  "table_list 0 ts = Inl OutOfFuel"
| "table_list (Suc k) ts =
     bindR (consumeToken ts) (\<lambda>(_, ts1).
     bindR (tableName ts1) (\<lambda>(t, ts2).
     bindR (cur_type ts2) (\<lambda>ty.
       if ty = T_COMMA then bindR (table_list k ts2) (\<lambda>(l, r). Inr (Some t # l, r))
       else Inr ([Some t], ts2))))"

definition fromClause :: "token list \<Rightarrow> ast option parse" where
  "fromClause ts =
     bindR (assertExpectation T_FROM ts) (\<lambda>_.
     bindR (table_list (length ts) ts) (\<lambda>(l, r). Inr (Some (foldl appendChild (new_node A_FROM) l), r)))"

definition whereClause :: "token list \<Rightarrow> ast option parse" where
  "whereClause ts =
     bindR (consumeIf T_WHERE ts) (\<lambda>(b, ts1).
       if \<not> b then Inr (None, ts1)
       else bindR (expr 0 ts1) (\<lambda>(e, r). Inr (Some (appendChild (new_node A_WHERE) e), r)))"

text \<open>\<open>do { expr() } while (consumeIf(','))\<close>\<close>

fun expr_list :: "nat \<Rightarrow> token list \<Rightarrow> ast option list parse" where
  "expr_list 0 ts = Inl OutOfFuel"
| "expr_list (Suc k) ts =
     bindR (expr 0 ts) (\<lambda>(e, ts1).
     bindR (consumeIf T_COMMA ts1) (\<lambda>(b, ts2).
       if b then bindR (expr_list k ts2) (\<lambda>(l, r). Inr (e # l, r)) else Inr ([e], ts2)))"

definition groupOverClause :: "token list \<Rightarrow> ast option parse" where
  "groupOverClause ts =
     bindR (expectAndConsume T_TIMEWINDOW ts) (\<lambda>(_, ts1).
     bindR (expectAndConsume T_LPAREN ts1) (\<lambda>(_, ts2).
     bindR (expectAndConsumeValueExpr ts2) (\<lambda>(e1, ts3).
     bindR (expectAndConsume T_COMMA ts3) (\<lambda>(_, ts4).
     bindR (expectAndConsumeValueExpr ts4) (\<lambda>(e2, ts5).
     bindR (consumeIf T_COMMA ts5) (\<lambda>(b, ts6).
     bindR (if b then bindR (expectAndConsumeValueExpr ts6) (\<lambda>(e3, r). Inr ([Some e3], r))
            else Inr ([], ts6)) (\<lambda>(e3s, ts7).
     bindR (expectAndConsume T_RPAREN ts7) (\<lambda>(_, ts8).
     bindR (consumeIf T_BY ts8) (\<lambda>(by_list, ts9).
     bindR (if by_list then expr_list (length ts9) ts9 else Inr ([], ts9)) (\<lambda>(groups, ts10).
       Inr (Some (foldl appendChild (new_node A_GROUP_OVER_TIMEWINDOW)
              ([Some e1, Some (foldl appendChild (new_node A_GROUP_BY) groups), Some e2] @ e3s)), ts10)))))))))))"

definition groupByClause :: "token list \<Rightarrow> ast option parse" where
  "groupByClause ts =
     bindR (consumeIf T_GROUP ts) (\<lambda>(b, ts1).
       if \<not> b then Inr (None, ts1)
       else bindR (consumeIf T_OVER ts1) (\<lambda>(over, ts2).
         if over then groupOverClause ts2
         else bindR (expectAndConsume T_BY ts2) (\<lambda>(_, ts3).
              bindR (expr_list (length ts3) ts3) (\<lambda>(l, r).
                Inr (Some (foldl appendChild (new_node A_GROUP_BY) l), r)))))"

definition havingClause :: "token list \<Rightarrow> ast option parse" where
  "havingClause ts =
     bindR (consumeIf T_HAVING ts) (\<lambda>(b, ts1).
       if \<not> b then Inr (None, ts1)
       else bindR (expr 0 ts1) (\<lambda>(e, r). Inr (Some (appendChild (new_node A_HAVING) e), r)))"

definition sort_spec :: "token list \<Rightarrow> ast parse" where
  "sort_spec ts =
     bindR (expr 0 ts) (\<lambda>(e, ts1).
     bindR (cur_type ts1) (\<lambda>ty.
       let spec = appendChild (new_node A_SORT_SPEC) e in
       if ty = T_ASC \<or> ty = T_DESC then
         bindR (consumeToken ts1) (\<lambda>(t, r). Inr (setToken t spec, r))
       else Inr (spec, ts1)))"

fun sort_list :: "nat \<Rightarrow> token list \<Rightarrow> ast option list parse" where
  "sort_list 0 ts = Inl OutOfFuel"
| "sort_list (Suc k) ts =
     bindR (sort_spec ts) (\<lambda>(s, ts1).
     bindR (consumeIf T_COMMA ts1) (\<lambda>(b, ts2).
       if b then bindR (sort_list k ts2) (\<lambda>(l, r). Inr (Some s # l, r)) else Inr ([Some s], ts2)))"

definition orderByClause :: "token list \<Rightarrow> ast option parse" where
  "orderByClause ts =
     bindR (consumeIf T_ORDER ts) (\<lambda>(b, ts1).
       if \<not> b then Inr (None, ts1)
       else bindR (expectAndConsume T_BY ts1) (\<lambda>(_, ts2).
            bindR (sort_list (length ts2) ts2) (\<lambda>(l, r).
              Inr (Some (foldl appendChild (new_node A_ORDER_BY) l), r))))"

definition limitClause :: "token list \<Rightarrow> ast option parse" where
  "limitClause ts =
     bindR (consumeIf T_LIMIT ts) (\<lambda>(b, ts1).
       if \<not> b then Inr (None, ts1)
       else bindR (expectAndConsume T_NUMERIC ts1) (\<lambda>(n, ts2).
            bindR (consumeIf T_OFFSET ts2) (\<lambda>(off, ts3).
              if off then
                bindR (expectAndConsume T_NUMERIC ts3) (\<lambda>(m, r).
                  Inr (Some (appendChild (leaf A_LIMIT n) (Some (leaf A_OFFSET m))), r))
              else Inr (Some (leaf A_LIMIT n), ts3))))"

definition selectSublist :: "token list \<Rightarrow> ast parse" where
  "selectSublist ts =
     (if lookahead 0 T_IDENTIFIER ts \<and> lookahead 1 T_DOT ts \<and> lookahead 2 T_ASTERISK ts
      then Inr (leaf A_ALL (hd ts), drop 3 ts)
      else
        bindR (expectAndConsumeValueExpr ts) (\<lambda>(e, ts1).
        bindR (consumeIf T_AS ts1) (\<lambda>(b, ts2).
        bindR (if b then assertExpectation T_IDENTIFIER ts2 else Inr ()) (\<lambda>_.
        bindR (cur_type ts2) (\<lambda>ty.
          let derived = appendChild (new_node A_DERIVED_COLUMN) (Some e) in
          if ty = T_IDENTIFIER then
            bindR (consumeToken ts2) (\<lambda>(t, r).
              Inr (appendChild derived (Some (leaf A_COLUMN_ALIAS t)), r))
          else Inr (derived, ts2))))))"

fun select_list :: "nat \<Rightarrow> token list \<Rightarrow> ast option list parse" where
  "select_list 0 ts = Inl OutOfFuel"
| "select_list (Suc k) ts =
     bindR (selectSublist ts) (\<lambda>(s, ts1).
     bindR (cur_type ts1) (\<lambda>ty.
       if ty = T_COMMA then
         bindR (consumeToken ts1) (\<lambda>(_, ts2).
         bindR (select_list k ts2) (\<lambda>(l, r). Inr (Some s # l, r)))
       else Inr ([Some s], ts1)))"

section \<open>Statements\<close>

definition selectStatement :: "token list \<Rightarrow> ast parse" where
  "selectStatement ts =
     bindR (consumeToken ts) (\<lambda>(_, ts1).
     bindR (cur_type ts1) (\<lambda>ty.
     bindR (if ty = T_ASTERISK then bindR (consumeToken ts1) (\<lambda>(_, r). Inr ([Some (new_node A_ALL)], r))
            else select_list (length ts1) ts1) (\<lambda>(cols, ts2).
     bindR (cur_type ts2) (\<lambda>ty2.
     bindR (if ty2 \<noteq> T_SEMICOLON then fromClause ts2 else Inr (None, ts2)) (\<lambda>(from_clause, ts3).
     bindR (whereClause ts3) (\<lambda>(where_clause, ts4).
     bindR (groupByClause ts4) (\<lambda>(group, ts5).
     bindR (havingClause ts5) (\<lambda>(having, ts6).
     bindR (orderByClause ts6) (\<lambda>(order, ts7).
     bindR (limitClause ts7) (\<lambda>(limit, ts8).
     bindR (consumeIf T_SEMICOLON ts8) (\<lambda>(_, ts9).
       Inr (foldl appendClause
              (appendChild (new_node A_SELECT) (Some (foldl appendChild (new_node A_SELECT_LIST) cols)))
              [from_clause, where_clause, group, having, order, limit], ts9))))))))))))"

definition importStatement :: "token list \<Rightarrow> ast parse" where
  "importStatement ts =
     bindR (consumeToken ts) (\<lambda>(_, ts1).
     bindR (expectAndConsume T_TABLE ts1) (\<lambda>(_, ts2).
     bindR (tableName ts2) (\<lambda>(t, ts3).
     bindR (cur_type ts3) (\<lambda>ty.
     bindR (if ty = T_COMMA then
              bindR (consumeToken ts3) (\<lambda>(_, ts4).
              bindR (tableName ts4) (\<lambda>(t2, r). Inr ([Some t2], r)))
            else Inr ([], ts3)) (\<lambda>(t2s, ts5).
     bindR (expectAndConsume T_FROM ts5) (\<lambda>(_, ts6).
     bindR (expectAndConsumeValueExpr ts6) (\<lambda>(e, ts7).
     bindR (consumeIf T_SEMICOLON ts7) (\<lambda>(_, ts8).
       Inr (foldl appendChild (new_node A_IMPORT) (Some t # t2s @ [Some e]), ts8)))))))))"

definition showStatement :: "token list \<Rightarrow> ast parse" where
  "showStatement ts =
     bindR (consumeToken ts) (\<lambda>(_, ts1).
     bindR (expectAndConsume T_TABLES ts1) (\<lambda>(_, ts2).
     bindR (consumeIf T_SEMICOLON ts2) (\<lambda>(_, r). Inr (new_node A_SHOW_TABLES, r))))"

definition explainQueryStatement :: "token list \<Rightarrow> ast parse" where
  "explainQueryStatement ts =
     bindR (selectStatement ts) (\<lambda>(s, ts1).
     bindR (consumeIf T_SEMICOLON ts1) (\<lambda>(_, r).
       Inr (appendChild (new_node A_EXPLAIN_QUERY) (Some s), r)))"

definition describeTableStatement :: "token list \<Rightarrow> ast parse" where
  "describeTableStatement ts =
     bindR (tableName ts) (\<lambda>(t, ts1).
     bindR (consumeIf T_SEMICOLON ts1) (\<lambda>(_, r).
       Inr (appendChild (new_node A_DESCRIBE_TABLE) (Some t), r)))"

definition explainStatement :: "token list \<Rightarrow> ast parse" where
  "explainStatement ts =
     bindR (consumeToken ts) (\<lambda>(_, ts1).
     bindR (cur_type ts1) (\<lambda>ty.
       if ty = T_SELECT then explainQueryStatement ts1 else describeTableStatement ts1))"

section \<open>Chart statements\<close>

text \<open>A property node with its token, and one with a token and a value.\<close>

definition property_expr :: "token list \<Rightarrow> ast parse" where
  "property_expr ts =
     bindR (consumeToken ts) (\<lambda>(t, ts1).
     bindR (expectAndConsumeValueExpr ts1) (\<lambda>(e, r). Inr (appendChild (leaf A_PROPERTY t) (Some e), r)))"

definition property_flag :: "token list \<Rightarrow> ast parse" where
  "property_flag ts =
     bindR (consumeToken ts) (\<lambda>(t, r).
       Inr (appendChild (leaf A_PROPERTY t) (Some (new_node A_PROPERTY_VALUE)), r))"

text \<open>The two rounds over the options of \<open>TICKS\<close>; a round that sees no option does nothing.\<close>

fun tick_options :: "nat \<Rightarrow> ast \<Rightarrow> token list \<Rightarrow> ast parse" where
  "tick_options 0 labels ts = Inr (labels, ts)"
| "tick_options (Suc i) labels ts =
     bindR (cur_type ts) (\<lambda>ty.
       if ty = T_INSIDE \<or> ty = T_OUTSIDE \<or> ty = T_OFF then
         bindR (consumeToken ts) (\<lambda>(t, r).
           tick_options i (appendChild labels (Some (leaf A_PROPERTY t))) r)
       else if ty = T_ROTATE then
         bindR (property_expr ts) (\<lambda>(p, r). tick_options i (appendChild labels (Some p)) r)
       else tick_options i labels ts)"

fun axis_options :: "nat \<Rightarrow> ast \<Rightarrow> token list \<Rightarrow> ast parse" where
  "axis_options 0 axis ts = Inl OutOfFuel"
| "axis_options (Suc k) axis ts =
     bindR (cur_type ts) (\<lambda>ty.
       if ty = T_TITLE then
         bindR (property_expr ts) (\<lambda>(p, r). axis_options k (appendChild axis (Some p)) r)
       else if ty = T_TICKS then
         bindR (consumeToken ts) (\<lambda>(_, ts1).
         bindR (tick_options 2 (new_node A_AXIS_LABELS) ts1) (\<lambda>(labels, r).
           axis_options k (appendChild axis (Some labels)) r))
       else Inr (axis, ts))"

definition axisClause :: "token list \<Rightarrow> ast parse" where
  "axisClause ts =
     bindR (consumeToken ts) (\<lambda>(t, ts1).
     bindR (expectOneOf [T_TOP, T_RIGHT, T_BOTTOM, T_LEFT] ts1) (\<lambda>(pos, ts2).
       axis_options (length ts2) (appendChild (leaf A_AXIS t) (Some (leaf A_AXIS_POSITION pos))) ts2))"

text \<open>At most two of the scale's options, up to the first token that is none.\<close>

fun domain_options :: "nat \<Rightarrow> ast \<Rightarrow> token list \<Rightarrow> ast parse" where
  "domain_options 0 domain ts = Inr (domain, ts)"
| "domain_options (Suc i) domain ts =
     bindR (cur_type ts) (\<lambda>ty.
       if ty = T_INVERT \<or> ty = T_LOGARITHMIC then
         bindR (property_flag ts) (\<lambda>(p, r). domain_options i (appendChild domain (Some p)) r)
       else Inr (domain, ts))"

definition domainClause :: "token list \<Rightarrow> ast parse" where
  "domainClause ts =
     bindR (consumeToken ts) (\<lambda>(t, ts1).
     bindR (expr 0 ts1) (\<lambda>(min_expr, ts2).
     bindR (case min_expr of
              None \<Rightarrow> Inr (leaf A_DOMAIN t, ts2)
            | Some m \<Rightarrow>
                bindR (expectAndConsume T_COMMA ts2) (\<lambda>(_, ts3).
                bindR (expectAndConsumeValueExpr ts3) (\<lambda>(mx, r).
                  Inr (appendChild (leaf A_DOMAIN t)
                    (Some (branch A_DOMAIN_SCALE [Some m, Some mx])), r)))) (\<lambda>(domain, ts4).
       domain_options 2 domain ts4)))"

fun legend_options :: "nat \<Rightarrow> ast \<Rightarrow> token list \<Rightarrow> ast parse" where
  "legend_options 0 legend ts = Inr (legend, ts)"
| "legend_options (Suc i) legend ts =
     bindR (expectOneOf [T_TOP, T_RIGHT, T_BOTTOM, T_LEFT, T_INSIDE, T_OUTSIDE] ts) (\<lambda>(t, r).
       legend_options i (appendChild legend (Some (leaf A_PROPERTY t))) r)"

definition legendClause :: "token list \<Rightarrow> ast parse" where
  "legendClause ts =
     bindR (consumeToken ts) (\<lambda>(_, ts1).
     bindR (legend_options 3 (new_node A_LEGEND) ts1) (\<lambda>(legend, ts2).
     bindR (cur_type ts2) (\<lambda>ty.
       if ty = T_TITLE then
         bindR (property_expr ts2) (\<lambda>(p, r). Inr (appendChild legend (Some p), r))
       else Inr (legend, ts2))))"

fun grid_options :: "nat \<Rightarrow> ast \<Rightarrow> token list \<Rightarrow> ast parse" where
  "grid_options 0 grid ts = Inr (grid, ts)"
| "grid_options (Suc i) grid ts =
     bindR (cur_type ts) (\<lambda>ty.
       if ty = T_HORIZONTAL \<or> ty = T_VERTICAL then
         bindR (consumeToken ts) (\<lambda>(t, r). grid_options i (appendChild grid (Some (leaf A_PROPERTY t))) r)
       else grid_options i grid ts)"

text \<open>One round of the loop of \<open>drawStatement\<close>: the child it appends to the chart.\<close>

definition draw_item :: "token_type \<Rightarrow> token list \<Rightarrow> ast parse" where
  "draw_item ty ts =
     (if ty = T_AXIS then axisClause ts
      else if ty = T_XDOMAIN \<or> ty = T_YDOMAIN \<or> ty = T_ZDOMAIN then domainClause ts
      else if ty = T_LEGEND then legendClause ts
      else if ty = T_GRID then
        bindR (consumeToken ts) (\<lambda>(_, ts1). grid_options 2 (new_node A_GRID) ts1)
      else if ty = T_ORIENTATION then
        bindR (consumeToken ts) (\<lambda>(t, ts1).
        bindR (expectOneOf [T_HORIZONTAL, T_VERTICAL] ts1) (\<lambda>(v, r).
          Inr (appendChild (leaf A_PROPERTY t) (Some (leaf A_PROPERTY_VALUE v)), r)))
      else if ty = T_STACKED \<or> ty = T_LABELS then property_flag ts
      else if ty = T_TITLE \<or> ty = T_SUBTITLE then property_expr ts
      else Inl (Raise ParseError))"

fun draw_items :: "nat \<Rightarrow> ast \<Rightarrow> token list \<Rightarrow> ast parse" where
  "draw_items 0 chart ts = Inl OutOfFuel"
| "draw_items (Suc k) chart ts =
     bindR (cur_type ts) (\<lambda>ty.
       if ty = T_SEMICOLON then Inr (chart, ts)
       else bindR (draw_item ty ts) (\<lambda>(c, r). draw_items k (appendChild chart (Some c)) r))"

definition drawStatement :: "token list \<Rightarrow> ast parse" where
  "drawStatement ts =
     bindR (consumeToken ts) (\<lambda>(_, ts1).
     bindR (expectOneOf [T_AREACHART, T_BARCHART, T_HEATMAP, T_HISTOGRAM, T_POINTCHART, T_LINECHART] ts1)
       (\<lambda>(t, ts2).
     bindR (consumeIf T_WITH ts2) (\<lambda>(_, ts3).
     bindR (draw_items (length ts3) (leaf A_DRAW t) ts3) (\<lambda>(chart, ts4).
     bindR (consumeIf T_SEMICOLON ts4) (\<lambda>(_, r). Inr (chart, r))))))"

section \<open>Queries\<close>

definition statement :: "token list \<Rightarrow> ast parse" where
  "statement ts =
     bindR (cur_type ts) (\<lambda>ty.
       if ty = T_SELECT then selectStatement ts
       else if ty = T_DRAW then drawStatement ts
       else if ty = T_IMPORT then importStatement ts
       else if ty = T_SHOW then showStatement ts
       else if ty = T_DESCRIBE \<or> ty = T_EXPLAIN then explainStatement ts
       else Inl (Raise ParseError))"

text \<open>The statement loop: it ends at the end of the list or at \<open>T_EOF\<close>.\<close>

fun statements :: "nat \<Rightarrow> token list \<Rightarrow> ast list result" where
  "statements 0 ts = Inl OutOfFuel"
| "statements (Suc k) ts =
     (if ts = [] \<or> getType (hd ts) = T_EOF then Inr []
      else bindR (statement ts) (\<lambda>(s, r). bindR (statements k r) (\<lambda>l. Inr (s # l))))"

definition parse_tokens :: "string \<Rightarrow> token list result" where
  "parse_tokens query =
     bindR (tokenizeQuery query) (\<lambda>ts.
       if ts = [] then Inl (Raise RuntimeError) else Inr (ts @ [token0 T_EOF]))"

definition parse :: "string \<Rightarrow> ast list result" where
  "parse query = bindR (parse_tokens query) (\<lambda>ts. statements (length ts) ts)"

definition parseQuery :: "string \<Rightarrow> ast list result" where
  "parseQuery query =
     (if query = [] then Inl (Raise ParseError)
      else bindR (parse query) (\<lambda>stmts. Inr (map deepCopy stmts)))"

definition parseValueExpression :: "string \<Rightarrow> ast result" where
  "parseValueExpression query =
     bindR (parse_tokens query) (\<lambda>ts. bindR (expectAndConsumeValueExpr ts) (\<lambda>(e, _). Inr e))"

section \<open>Every statement parses inside the token list\<close>

text \<open>
  The steps the statement functions are made of, as rules for a run that starts with one of them.
  \<open>parse_steps\<close> collects them; a function whose lemma has been proved joins it.
\<close>

named_theorems parse_steps \<open>rules for runs that start with a parser function\<close>

declare run_expect [parse_steps] run_expectOneOf [parse_steps] run_consumeIf [parse_steps]
  run_cur_type [parse_steps]

lemma run_consumeToken [parse_steps]:
  assumes "ended ts" and "getType (hd ts) \<noteq> T_EOF"
    and "\<And>t r. ts = t # r \<Longrightarrow> ended r \<Longrightarrow> run P (f (t, r))"
  shows "run P (bindR (consumeToken ts) f)"
  using assms by (cases ts) auto

lemma run_assert [parse_steps]:
  assumes "ended ts" and "\<And>t r. ts = t # r \<Longrightarrow> getType t = ty \<Longrightarrow> run P (f ())"
  shows "run P (bindR (assertExpectation ty ts) f)"
  using assms by (cases ts) auto

lemmas run_expr [parse_steps] = run_bind [OF sql_expr.ex_safe [OF _ TrueI]]

lemma valueExpr_consumes: "ended ts \<Longrightarrow> consumes (length ts) (expectAndConsumeValueExpr ts)"
  unfolding expectAndConsumeValueExpr_def
  by (rule run_bind [OF sql_expr.ex_progress [OF _ TrueI]])
    (auto intro!: parse_steps split: option.splits)

lemmas run_valueExpr [parse_steps] = run_bind [OF valueExpr_consumes]

lemma dotted_name_safe: "ended ts \<Longrightarrow> safe (length ts) (dotted_name name ts)"
  by (induction name ts rule: dotted_name.induct) (auto elim!: safe_mono)

lemmas run_dotted_name [parse_steps] = run_bind [OF dotted_name_safe]

lemma tableName_consumes: "ended ts \<Longrightarrow> consumes (length ts) (tableName ts)"
  by (cases ts) (auto simp: tableName_def intro!: parse_steps)

lemmas run_tableName [parse_steps] = run_bind [OF tableName_consumes]

lemma table_list_consumes:
  "ended ts \<Longrightarrow> getType (hd ts) \<noteq> T_EOF \<Longrightarrow> length ts \<le> k \<Longrightarrow> consumes (length ts) (table_list k ts)"
proof (induction k arbitrary: ts)
  case (Suc k)
  have ih: "consumes (length ts) (table_list k r)"
    if "ended r" "length r < length ts" "getType (hd r) = T_COMMA" for r
    using that Suc.prems by (intro consumes_mono [OF Suc.IH]) auto
  show ?case using Suc.prems by (auto intro!: parse_steps run_bind [OF ih])
qed (auto dest: ended_not_Nil)

lemma expr_list_safe: "ended ts \<Longrightarrow> length ts \<le> k \<Longrightarrow> safe (length ts) (expr_list k ts)"
proof (induction k arbitrary: ts)
  case (Suc k)
  have ih: "safe (length ts) (expr_list k r)" if "ended r" "length r < length ts" for r
    using that Suc.prems by (intro safe_mono [OF Suc.IH]) auto
  show ?case using Suc.prems by (auto intro!: parse_steps run_bind [OF ih])
qed (auto dest: ended_not_Nil)

lemma sort_spec_safe: "ended ts \<Longrightarrow> safe (length ts) (sort_spec ts)"
  unfolding sort_spec_def Let_def by (auto intro!: parse_steps)

lemma sort_list_safe: "ended ts \<Longrightarrow> length ts \<le> k \<Longrightarrow> safe (length ts) (sort_list k ts)"
proof (induction k arbitrary: ts)
  case (Suc k)
  have ih: "safe (length ts) (sort_list k r)" if "ended r" "length r < length ts" for r
    using that Suc.prems by (intro safe_mono [OF Suc.IH]) auto
  show ?case using Suc.prems by (auto intro!: parse_steps run_bind [OF ih] run_bind [OF sort_spec_safe])
qed (auto dest: ended_not_Nil)

lemmas run_lists [parse_steps] =
  run_bind [OF table_list_consumes] run_bind [OF expr_list_safe] run_bind [OF sort_list_safe]

lemma fromClause_safe: "ended ts \<Longrightarrow> safe (length ts) (fromClause ts)"
  unfolding fromClause_def by (auto intro!: parse_steps simp del: table_list.simps)

lemma whereClause_safe: "ended ts \<Longrightarrow> safe (length ts) (whereClause ts)"
  unfolding whereClause_def by (auto intro!: parse_steps)

lemma havingClause_safe: "ended ts \<Longrightarrow> safe (length ts) (havingClause ts)"
  unfolding havingClause_def by (auto intro!: parse_steps)

lemma groupOverClause_safe: "ended ts \<Longrightarrow> safe (length ts) (groupOverClause ts)"
  unfolding groupOverClause_def by (auto intro!: parse_steps simp: bindR_assoc)

lemma groupByClause_safe: "ended ts \<Longrightarrow> safe (length ts) (groupByClause ts)"
  unfolding groupByClause_def
  by (auto intro!: parse_steps safe_mono [OF groupOverClause_safe])

lemma orderByClause_safe: "ended ts \<Longrightarrow> safe (length ts) (orderByClause ts)"
  unfolding orderByClause_def by (auto intro!: parse_steps)

lemma limitClause_safe: "ended ts \<Longrightarrow> safe (length ts) (limitClause ts)"
  unfolding limitClause_def by (auto intro!: parse_steps)

lemmas run_clauses [parse_steps] = run_bind [OF fromClause_safe] run_bind [OF whereClause_safe]
  run_bind [OF groupByClause_safe] run_bind [OF havingClause_safe] run_bind [OF orderByClause_safe]
  run_bind [OF limitClause_safe]

lemma selectSublist_consumes: "ended ts \<Longrightarrow> consumes (length ts) (selectSublist ts)"
proof (cases "lookahead 0 T_IDENTIFIER ts \<and> lookahead 1 T_DOT ts \<and> lookahead 2 T_ASTERISK ts")
  case True
  assume "ended ts"
  with True show ?thesis
    by (cases ts; cases "tl ts"; cases "tl (tl ts)") (auto simp: selectSublist_def numeral_2_eq_2 numeral_3_eq_3)
next
  case False
  assume "ended ts"
  with False show ?thesis
    unfolding selectSublist_def Let_def by (simp only: if_False) (auto intro!: parse_steps)
qed

lemma select_list_safe: "ended ts \<Longrightarrow> length ts \<le> k \<Longrightarrow> safe (length ts) (select_list k ts)"
proof (induction k arbitrary: ts)
  case (Suc k)
  have ih: "safe (length ts) (select_list k r)" if "ended r" "length r < length ts" for r
    using that Suc.prems by (intro safe_mono [OF Suc.IH]) auto
  show ?case using Suc.prems
    by (auto intro!: parse_steps run_bind [OF ih] run_bind [OF selectSublist_consumes])
qed (auto dest: ended_not_Nil)

lemmas run_select_list [parse_steps] = run_bind [OF select_list_safe]

lemma selectStatement_consumes:
  "ended ts \<Longrightarrow> getType (hd ts) \<noteq> T_EOF \<Longrightarrow> consumes (length ts) (selectStatement ts)"
  unfolding selectStatement_def
  by (auto intro!: parse_steps simp: bindR_assoc simp del: select_list.simps length_0_conv)

lemma explainQueryStatement_consumes:
  "ended ts \<Longrightarrow> getType (hd ts) \<noteq> T_EOF \<Longrightarrow> consumes (length ts) (explainQueryStatement ts)"
  unfolding explainQueryStatement_def
  by (auto intro!: parse_steps run_bind [OF selectStatement_consumes])

lemma describeTableStatement_consumes: "ended ts \<Longrightarrow> consumes (length ts) (describeTableStatement ts)"
  unfolding describeTableStatement_def by (auto intro!: parse_steps)

lemma explainStatement_consumes:
  "ended ts \<Longrightarrow> getType (hd ts) \<noteq> T_EOF \<Longrightarrow> consumes (length ts) (explainStatement ts)"
  unfolding explainStatement_def
  by (auto intro!: parse_steps consumes_mono [OF explainQueryStatement_consumes]
      consumes_mono [OF describeTableStatement_consumes])

lemma showStatement_consumes:
  "ended ts \<Longrightarrow> getType (hd ts) \<noteq> T_EOF \<Longrightarrow> consumes (length ts) (showStatement ts)"
  unfolding showStatement_def by (auto intro!: parse_steps)

lemma importStatement_consumes:
  "ended ts \<Longrightarrow> getType (hd ts) \<noteq> T_EOF \<Longrightarrow> consumes (length ts) (importStatement ts)"
  unfolding importStatement_def by (auto intro!: parse_steps simp: bindR_assoc)

text \<open>The chart statement.\<close>

lemma property_expr_consumes:
  "ended ts \<Longrightarrow> getType (hd ts) \<noteq> T_EOF \<Longrightarrow> consumes (length ts) (property_expr ts)"
  unfolding property_expr_def by (auto intro!: parse_steps)

lemma property_flag_consumes:
  "ended ts \<Longrightarrow> getType (hd ts) \<noteq> T_EOF \<Longrightarrow> consumes (length ts) (property_flag ts)"
  unfolding property_flag_def by (auto intro!: parse_steps)

lemmas run_property [parse_steps] =
  run_bind [OF property_expr_consumes] run_bind [OF property_flag_consumes]

lemma tick_options_le: "ended ts \<Longrightarrow> length ts \<le> m \<Longrightarrow> safe m (tick_options i labels ts)"
  by (induction i arbitrary: labels ts) (auto intro!: parse_steps)

lemmas tick_options_safe = tick_options_le [OF _ order_refl]

lemma domain_options_le: "ended ts \<Longrightarrow> length ts \<le> m \<Longrightarrow> safe m (domain_options i domain ts)"
  by (induction i arbitrary: domain ts) (auto intro!: parse_steps)

lemmas domain_options_safe = domain_options_le [OF _ order_refl]

lemma legend_options_le: "ended ts \<Longrightarrow> length ts \<le> m \<Longrightarrow> safe m (legend_options i legend ts)"
  by (induction i arbitrary: legend ts) (auto intro!: parse_steps)

lemmas legend_options_safe = legend_options_le [OF _ order_refl]

lemma grid_options_le: "ended ts \<Longrightarrow> length ts \<le> m \<Longrightarrow> safe m (grid_options i grid ts)"
  by (induction i arbitrary: grid ts) (auto intro!: parse_steps)

lemmas grid_options_safe = grid_options_le [OF _ order_refl]

lemmas run_options [parse_steps] = run_bind [OF tick_options_safe] run_bind [OF domain_options_safe]
  run_bind [OF legend_options_safe] run_bind [OF grid_options_safe]

lemma axis_options_safe: "ended ts \<Longrightarrow> length ts \<le> k \<Longrightarrow> safe (length ts) (axis_options k axis ts)"
proof (induction k arbitrary: axis ts)
  case (Suc k)
  have ih: "safe m (axis_options k l r)" if "ended r" "length r < length ts" "length r \<le> m" for l r m
    using that Suc.prems by (intro safe_mono [OF Suc.IH]) auto
  show ?case using Suc.prems by (auto intro!: parse_steps ih simp del: tick_options.simps)
qed (auto dest: ended_not_Nil)

lemma axisClause_consumes:
  "ended ts \<Longrightarrow> getType (hd ts) \<noteq> T_EOF \<Longrightarrow> consumes (length ts) (axisClause ts)"
  unfolding axisClause_def
  by (auto intro!: parse_steps safe_consumes [OF axis_options_safe] simp del: axis_options.simps)

lemma domainClause_consumes:
  "ended ts \<Longrightarrow> getType (hd ts) \<noteq> T_EOF \<Longrightarrow> consumes (length ts) (domainClause ts)"
  unfolding domainClause_def
  by (auto intro!: parse_steps safe_consumes [OF domain_options_safe] simp: bindR_assoc
      simp del: domain_options.simps split: option.splits)

lemma legendClause_consumes:
  "ended ts \<Longrightarrow> getType (hd ts) \<noteq> T_EOF \<Longrightarrow> consumes (length ts) (legendClause ts)"
  unfolding legendClause_def by (auto intro!: parse_steps simp del: legend_options.simps)

lemma draw_item_consumes:
  "ended ts \<Longrightarrow> getType (hd ts) = ty \<Longrightarrow> consumes (length ts) (draw_item ty ts)"
  unfolding draw_item_def
  by (auto intro!: parse_steps axisClause_consumes domainClause_consumes legendClause_consumes
      safe_consumes [OF grid_options_safe] property_expr_consumes property_flag_consumes
      simp del: grid_options.simps)

lemma draw_items_safe: "ended ts \<Longrightarrow> length ts \<le> k \<Longrightarrow> safe (length ts) (draw_items k chart ts)"
proof (induction k arbitrary: chart ts)
  case (Suc k)
  have ih: "safe m (draw_items k l r)" if "ended r" "length r < length ts" "length r \<le> m" for l r m
    using that Suc.prems by (intro safe_mono [OF Suc.IH]) auto
  show ?case using Suc.prems by (auto intro!: parse_steps ih run_bind [OF draw_item_consumes])
qed (auto dest: ended_not_Nil)

lemma drawStatement_consumes:
  "ended ts \<Longrightarrow> getType (hd ts) \<noteq> T_EOF \<Longrightarrow> consumes (length ts) (drawStatement ts)"
  unfolding drawStatement_def
  by (auto intro!: parse_steps run_bind [OF draw_items_safe] simp del: draw_items.simps)

lemma statement_consumes: "ended ts \<Longrightarrow> consumes (length ts) (statement ts)"
  using selectStatement_consumes [of ts] drawStatement_consumes [of ts] importStatement_consumes [of ts]
    showStatement_consumes [of ts] explainStatement_consumes [of ts]
  by (cases ts) (auto simp: statement_def)

text \<open>The node types of statements.\<close>

definition statement_types :: "node_type set" where
  "statement_types = {A_SELECT, A_DRAW, A_IMPORT, A_SHOW_TABLES, A_EXPLAIN_QUERY, A_DESCRIBE_TABLE}"

lemma nodeType_appendChild [simp]: "nodeType (appendChild n c) = nodeType n"
  by (cases n) simp

lemma nodeType_appendClause [simp]: "nodeType (appendClause n c) = nodeType n"
  by (simp add: appendClause_def split: option.split)

lemma nodeType_foldl [simp]:
  "nodeType (foldl appendChild n cs) = nodeType n" "nodeType (foldl appendClause n cs) = nodeType n"
  by (induction cs arbitrary: n) (simp_all add: appendClause_def split: option.split)

lemma nodeType_new [simp]: "nodeType (new_node ty) = ty"
  by (simp add: new_node_def)

definition returns :: "node_type \<Rightarrow> ast parse \<Rightarrow> bool" where
  "returns ty m \<longleftrightarrow> (\<forall>s r. m = Inr (s, r) \<longrightarrow> nodeType s = ty)"

lemma returns_bind: "(\<And>x. returns ty (f x)) \<Longrightarrow> returns ty (bindR m f)"
  by (auto simp: returns_def bindR_eq_Inr_iff)

lemma returns_simps [simp]: "returns ty (Inr (s, r)) \<longleftrightarrow> nodeType s = ty" "returns ty (Inl e)"
  by (simp_all add: returns_def)

lemma draw_items_returns: "returns (nodeType chart) (draw_items k chart ts)"
proof (induction k arbitrary: chart ts)
  case (Suc k)
  have ih: "returns (nodeType chart) (draw_items k (appendChild chart c) r)" for c r
    using Suc.IH [of "appendChild chart c" r] by simp
  show ?case by (auto intro!: returns_bind ih)
qed simp

lemma statement_returns:
  "returns A_SELECT (selectStatement ts)" "returns A_IMPORT (importStatement ts)"
  "returns A_SHOW_TABLES (showStatement ts)" "returns A_EXPLAIN_QUERY (explainQueryStatement ts)"
  "returns A_DESCRIBE_TABLE (describeTableStatement ts)"
  unfolding selectStatement_def importStatement_def showStatement_def explainQueryStatement_def
    describeTableStatement_def
  by (auto intro!: returns_bind)

lemma drawStatement_returns: "returns A_DRAW (drawStatement ts)"
  using draw_items_returns [of "leaf A_DRAW _"] unfolding returns_def drawStatement_def
  by (fastforce simp: bindR_eq_Inr_iff)

lemma statement_type: "statement ts = Inr (s, r) \<Longrightarrow> nodeType s \<in> statement_types"
  using statement_returns drawStatement_returns unfolding returns_def
  by (fastforce simp: statement_def statement_types_def explainStatement_def bindR_eq_Inr_iff split: if_splits)

lemma statements_total:
  "ended ts \<Longrightarrow> length ts \<le> k \<Longrightarrow>
     (case statements k ts of Inl e \<Rightarrow> parse_error e | Inr l \<Rightarrow> \<forall>s\<in>set l. nodeType s \<in> statement_types)"
proof (induction k arbitrary: ts)
  case (Suc k)
  show ?case
  proof (cases "getType (hd ts) = T_EOF")
    case False
    then show ?thesis
    proof (cases "statement ts")
      case (Inl e)
      then show ?thesis using statement_consumes [OF Suc.prems(1)] False by auto
    next
      case (Inr y)
      then obtain s r where y: "statement ts = Inr (s, r)" by (cases y) simp
      then have "ended r" "length r < length ts"
        using statement_consumes [OF Suc.prems(1)] by auto
      then show ?thesis
        using Suc.IH [of r] Suc.prems(2) y statement_type [OF y] False by (cases "statements k r") auto
    qed
  qed simp
qed (auto dest: ended_not_Nil)

lemma ended_append_EOF: "T_EOF \<notin> getType ` set ts \<Longrightarrow> ended (ts @ [token0 T_EOF])"
  by (induction ts) auto

lemma parse_tokens_ended: "parse_tokens query = Inr ts \<Longrightarrow> ended ts"
  using tokenizeQuery_types not_lexical
  by (fastforce simp: parse_tokens_def bindR_eq_Inr_iff split: if_splits intro!: ended_append_EOF)

lemma parse_tokens_error:
  "parse_tokens query = Inl e \<Longrightarrow> tokenizeQuery query = Inl e \<or> e = Raise RuntimeError"
  by (auto simp: parse_tokens_def bindR_eq_Inl_iff split: if_splits)

section \<open>Properties\<close>

text \<open>
  C19. Parsing a query always ends: in the tokenizer's own failure, in one of the parser's two
  exceptions, or in statement trees, each of a statement's type and without null children. The
  parser never reads past its token list and no loop of it runs forever.
\<close>

theorem parseQuery_total:
  "case parseQuery query of
     Inl e \<Rightarrow> e = Raise ParseError \<or> e = Raise RuntimeError \<or> tokenizeQuery query = Inl e
   | Inr stmts \<Rightarrow> (\<forall>s\<in>set stmts. nodeType s \<in> statement_types \<and> null_free s)"
proof (cases "query = []")
  case False
  show ?thesis
  proof (cases "parse_tokens query")
    case (Inl e)
    then show ?thesis using parse_tokens_error [OF Inl] False by (auto simp: parseQuery_def parse_def)
  next
    case (Inr ts)
    have "nodeType (deepCopy s) = nodeType s" for s by (cases s) simp
    then show ?thesis
      using statements_total [OF parse_tokens_ended [OF Inr] order_refl] Inr False
      by (cases "statements (length ts) ts")
        (auto simp: parseQuery_def parse_def parse_error_def deepCopy_null_free)
  qed
qed (simp add: parseQuery_def)

theorem parseQuery_total_witness:
  "parseQuery (print_tokens [token0 T_SHOW, token0 T_TABLES]) = Inr [new_node A_SHOW_TABLES] \<and>
   A_SHOW_TABLES \<in> statement_types \<and> null_free (new_node A_SHOW_TABLES)"
proof -
  have "T_SHOW \<in> snd ` set spelling_table" "T_TABLES \<in> snd ` set spelling_table"
    using spelled [of "''SHOW''" T_SHOW] spelled [of "''TABLES''" T_TABLES]
    by (simp_all add: keyword_table_def query_keywords_def chart_keywords_def option_keywords_def)
  then have "\<forall>t\<in>set [token0 T_SHOW, token0 T_TABLES]. printable t" by (simp add: printable_def)
  from tokenizeQuery_print_tokens [OF this]
  have *: "parseQuery (print_tokens [token0 T_SHOW, token0 T_TABLES]) = Inr [new_node A_SHOW_TABLES]"
    by (simp add: parseQuery_def parse_def parse_tokens_def statement_def showStatement_def
        new_node_def print_tokens_def numeral_2_eq_2)
  then show ?thesis
    using parseQuery_total [of "print_tokens [token0 T_SHOW, token0 T_TABLES]"] by simp
qed

end
