(* ===== verification/Expr_Syntax.thy ===== *)
theory Expr_Syntax
  imports Parser_Expr
begin

text \<open>
  The grammar that the expression parser of src/csql/parser/parser.cc accepts, as a printer: a
  syntax of expressions, their printing with as few parentheses as the parser's levels allow, and
  the tree each stands for. The round trip shows which tree the parser builds for every mix of
  operators, so it fixes the precedence and the associativity of each of them.
\<close>

section \<open>Expressions\<close>

datatype bin_op = Op_Or | Op_And | Op_Eq | Op_Neq | Op_Lt | Op_Lte | Op_Gt | Op_Gte
  | Op_Add | Op_Sub | Op_Mul | Op_Div | Op_Mod | Op_Pow

fun op_type :: "bin_op \<Rightarrow> token_type" where
  "op_type Op_Or = T_OR" | "op_type Op_And = T_AND" | "op_type Op_Eq = T_EQUAL"
| "op_type Op_Neq = T_NEQUAL" | "op_type Op_Lt = T_LT" | "op_type Op_Lte = T_LTE"
| "op_type Op_Gt = T_GT" | "op_type Op_Gte = T_GTE" | "op_type Op_Add = T_PLUS"
| "op_type Op_Sub = T_MINUS" | "op_type Op_Mul = T_ASTERISK" | "op_type Op_Div = T_SLASH"
| "op_type Op_Mod = T_PERCENT" | "op_type Op_Pow = T_CIRCUMFLEX"

fun op_node :: "bin_op \<Rightarrow> node_type" where
  "op_node Op_Or = A_OR_EXPR" | "op_node Op_And = A_AND_EXPR" | "op_node Op_Eq = A_EQ_EXPR"
| "op_node Op_Neq = A_NEQ_EXPR" | "op_node Op_Lt = A_LT_EXPR" | "op_node Op_Lte = A_LTE_EXPR"
| "op_node Op_Gt = A_GT_EXPR" | "op_node Op_Gte = A_GTE_EXPR" | "op_node Op_Add = A_ADD_EXPR"
| "op_node Op_Sub = A_SUB_EXPR" | "op_node Op_Mul = A_MUL_EXPR" | "op_node Op_Div = A_DIV_EXPR"
| "op_node Op_Mod = A_MOD_EXPR" | "op_node Op_Pow = A_POW_EXPR"

text \<open>
  The strength of an operator, and the levels at which its operands are printed. Operators of one
  strength associate to the left, \<open>^\<close> to the right.
\<close>

fun op_level :: "bin_op \<Rightarrow> nat" where
  "op_level Op_Or = 1" | "op_level Op_And = 3" | "op_level Op_Add = 10" | "op_level Op_Sub = 10"
| "op_level Op_Mul = 11" | "op_level Op_Div = 11" | "op_level Op_Mod = 11" | "op_level Op_Pow = 12"
| "op_level _ = 6"

lemma level_pos [simp]: "0 < op_level b"
  by (cases b) simp_all

definition left_level :: "bin_op \<Rightarrow> nat" where
  "left_level p = (if p = Op_Pow then 12 else op_level p - 1)"

definition right_level :: "bin_op \<Rightarrow> nat" where
  "right_level p = (if p = Op_Pow then 11 else op_level p)"

datatype sexp =
    Lit token
  | Col string "string list"
  | Call string "sexp list"
  | Call_Star string
  | Neg sexp
  | Bin bin_op sexp sexp

definition is_literal :: "token \<Rightarrow> bool" where
  "is_literal t \<longleftrightarrow> getType t \<in> {T_TRUE, T_FALSE, T_NUMERIC, T_STRING}"

text \<open>Literals carry a literal token, and a call has an argument.\<close>

fun wf_sexp :: "sexp \<Rightarrow> bool" where
  "wf_sexp (Lit t) = is_literal t"
| "wf_sexp (Col c cs) = True"
| "wf_sexp (Call f as) = (as \<noteq> [] \<and> list_all wf_sexp as)"
| "wf_sexp (Call_Star f) = True"
| "wf_sexp (Neg e) = wf_sexp e"
| "wf_sexp (Bin p l r) = (wf_sexp l \<and> wf_sexp r)"

abbreviation ident :: "string \<Rightarrow> token" where
  "ident \<equiv> Token T_IDENTIFIER"

fun col_ast :: "string \<Rightarrow> string list \<Rightarrow> ast" where
  "col_ast c [] = leaf A_COLUMN_NAME (ident c)"
| "col_ast c (d # ds) = appendChild (leaf A_COLUMN_NAME (ident c)) (Some (col_ast d ds))"

fun to_ast :: "sexp \<Rightarrow> ast" where
  "to_ast (Lit t) = leaf A_LITERAL t"
| "to_ast (Col c cs) = col_ast c cs"
| "to_ast (Call f as) = foldl appendChild (leaf (call_type f) (ident f)) (map (\<lambda>a. Some (to_ast a)) as)"
| "to_ast (Call_Star f) = foldl appendChild (leaf (call_type f) (ident f)) [Some (new_node A_VOID)]"
| "to_ast (Neg e) = branch A_NEGATE_EXPR [Some (to_ast e)]"
| "to_ast (Bin p l r) = branch (op_node p) [Some (to_ast l), Some (to_ast r)]"

section \<open>Printing\<close>

text \<open>
  \<open>print_expr p e\<close> is \<open>e\<close> as an operand at level \<open>p\<close>: a binary expression is put in parentheses
  unless its operator is stronger than \<open>p\<close>, a negation always is. \<open>print_args\<close> puts \<open>ty\<close> before the
  first argument and a comma before each other one.
\<close>

fun print_expr :: "nat \<Rightarrow> sexp \<Rightarrow> token list"
  and print_args :: "token_type \<Rightarrow> sexp list \<Rightarrow> token list" where
  "print_expr p (Lit t) = [t]"
| "print_expr p (Col c cs) = ident c # concat (map (\<lambda>d. [token0 T_DOT, ident d]) cs)"
| "print_expr p (Call f as) = ident f # print_args T_LPAREN as @ [token0 T_RPAREN]"
| "print_expr p (Call_Star f) = [ident f, token0 T_LPAREN, token0 T_ASTERISK, token0 T_RPAREN]"
| "print_expr p (Neg e) = token0 T_LPAREN # token0 T_MINUS # print_expr 0 e @ [token0 T_RPAREN]"
| "print_expr p (Bin b l r) =
     (let s = print_expr (left_level b) l @ token0 (op_type b) # print_expr (right_level b) r
      in if p < op_level b then s else token0 T_LPAREN # s @ [token0 T_RPAREN])"
| "print_args ty [] = []"
| "print_args ty (a # as) = token0 ty # print_expr 0 a @ print_args T_COMMA as"

section \<open>Reading back\<close>

text \<open>The level of the operator a token list starts with, 0 when it starts with none.\<close>

definition token_level :: "token_type \<Rightarrow> nat" where
  "token_level ty =
     (if ty = T_OR then 1
      else if ty = T_AND then 3
      else if ty \<in> {T_EQUAL, T_NEQUAL, T_LT, T_LTE, T_GT, T_GTE} then 6
      else if ty \<in> {T_PLUS, T_MINUS} then 10
      else if ty \<in> {T_ASTERISK, T_SLASH, T_DIV, T_PERCENT, T_MOD} then 11
      else if ty = T_CIRCUMFLEX then 12
      else 0)"

fun head_level :: "token list \<Rightarrow> nat" where
  "head_level [] = 0"
| "head_level (t # ts) = token_level (getType t)"

text \<open>A list that does not continue a name or a call.\<close>

fun delimited :: "token list \<Rightarrow> bool" where
  "delimited [] = False"
| "delimited (t # ts) \<longleftrightarrow> getType t \<notin> {T_DOT, T_LPAREN, T_WITHIN}"

lemma op_token [simp]:
  "token_level (op_type b) = op_level b" "op_type b \<noteq> T_DOT" "op_type b \<noteq> T_LPAREN"
    "op_type b \<noteq> T_WITHIN" "op_type b \<noteq> T_EOF"
  by (cases b; simp add: token_level_def)+

lemma loop_stop:
  assumes en: "ended ts" and lev: "head_level ts \<le> q"
  shows "binaryLoop lhs q ts = Inr (Some lhs, ts)"
proof -
  obtain t r where ts: "ts = t # r" using en by (cases ts) auto
  have "binaryExpr expr lhs q ts = Inr (None, ts)"
    using lev unfolding ts binaryExpr_def operator_defs binary_node_def
    by (auto simp: token_level_def split: if_splits)
  then show ?thesis by (simp add: binaryLoop_unfold [OF en])
qed

lemma loop_operator:
  assumes en: "ended ts" and q: "q < op_level b"
    and r: "expr (right_level b) ts = Inr (Some rhs, r)"
  shows "binaryLoop lhs q (token0 (op_type b) # ts) = binaryLoop (branch (op_node b) [Some lhs, Some rhs]) q r"
proof -
  have en': "ended (token0 (op_type b) # ts)" using en by simp
  have "binaryExpr expr lhs q (token0 (op_type b) # ts) =
      Inr (Some (branch (op_node b) [Some lhs, Some rhs]), r)"
    using q r by (cases b) (simp_all add: binaryExpr_def operator_defs binary_node_def right_level_def)
  then show ?thesis by (simp add: binaryLoop_unfold [OF en'])
qed

lemma expr_of_unary:
  assumes "ended ts" and "unaryExpr expr ts = Inr (Some l, r)"
  shows "expr q ts = binaryLoop l q r"
  using assms by (simp add: expr_unfold)

lemma column_path_print:
  assumes "delimited rest"
  shows "column_path (ident d # concat (map (\<lambda>c. [token0 T_DOT, ident c]) ds) @ rest) = Inr (col_ast d ds, rest)"
  using assms
proof (induction ds arbitrary: d)
  case Nil
  then show ?case by (cases rest) auto
qed simp

lemma unary_column:
  assumes "delimited rest"
  shows "unaryExpr expr (ident c # concat (map (\<lambda>c. [token0 T_DOT, ident c]) cs) @ rest) =
    Inr (Some (col_ast c cs), rest)"
proof (cases cs)
  case Nil
  with assms show ?thesis by (cases rest) (auto simp: unaryExpr_def)
next
  case (Cons d ds)
  with column_path_print [OF assms, of d ds] show ?thesis by (simp add: unaryExpr_def)
qed

lemma unary_paren:
  assumes "expr 0 ts = Inr (Some e, token0 T_RPAREN # rest)"
  shows "unaryExpr expr (token0 T_LPAREN # ts) = Inr (Some e, rest)"
  using assms by (simp add: unaryExpr_def)

lemma print_not_Nil [simp]: "print_expr p e \<noteq> []"
  by (cases e) (auto simp: Let_def)

lemma print_head: "wf_sexp e \<Longrightarrow> getType (hd (print_expr p e)) \<in> {T_IDENTIFIER, T_LPAREN, T_TRUE, T_FALSE, T_NUMERIC, T_STRING}"
  by (induction e arbitrary: p) (auto simp: is_literal_def Let_def hd_append)

lemma print_no_EOF: "wf_sexp e \<Longrightarrow> ended rest \<Longrightarrow> ended (print_expr p e @ rest)"
proof (induction e arbitrary: p rest)
  case (Col c cs)
  have "ended (concat (map (\<lambda>d. [token0 T_DOT, ident d]) cs) @ rest)" 
    using Col by (induction cs) auto
  then show ?case by simp
next
  case (Call f as)
  have "\<forall>a\<in>set bs. a \<in> set as \<Longrightarrow> ty \<noteq> T_EOF \<Longrightarrow> ended r \<Longrightarrow> ended (print_args ty bs @ r)" for bs ty r
    using Call.prems(1) by (induction bs arbitrary: ty) (auto simp: list_all_iff intro: Call.IH)
  then show ?case using Call.prems(2) by simp
qed (auto simp: is_literal_def Let_def)

text \<open>The strongest operator that may follow an expression printed at level \<open>p\<close>.\<close>

definition follow :: "nat \<Rightarrow> nat" where
  "follow p = (if p = 11 then 11 else Suc p)"

lemma level_facts:
  "op_level b \<le> follow (left_level b)" "q < op_level b \<Longrightarrow> q \<le> left_level b"
  "p < op_level b \<Longrightarrow> k \<le> follow p \<Longrightarrow> k \<le> right_level b"
  "k \<le> right_level b \<Longrightarrow> k \<le> follow (right_level b)"
  by (cases b; simp add: follow_def left_level_def right_level_def split: if_splits)+

text \<open>What reading \<open>e\<close> back means: the parser arrives at its operator loop with the tree of \<open>e\<close>.\<close>

definition reads :: "nat \<Rightarrow> token list \<Rightarrow> ast \<Rightarrow> bool" where
  "reads p s a \<longleftrightarrow> (\<forall>q rest. q \<le> p \<longrightarrow> ended rest \<longrightarrow> delimited rest \<longrightarrow> head_level rest \<le> follow p \<longrightarrow>
     expr q (s @ rest) = binaryLoop a q rest)"

lemma reads_complete:
  assumes "reads p s a" and "q \<le> p" and "ended rest" and "delimited rest" and "head_level rest \<le> q"
  shows "expr q (s @ rest) = Inr (Some a, rest)"
proof -
  have "head_level rest \<le> follow p" using assms(2,5) by (simp add: follow_def)
  with assms show ?thesis by (simp add: reads_def loop_stop)
qed

lemma reads_paren:
  assumes "reads 0 s a" and s: "\<And>rest. ended rest \<Longrightarrow> ended (s @ rest)"
  shows "reads p (token0 T_LPAREN # s @ [token0 T_RPAREN]) a"
  unfolding reads_def
proof (intro allI impI)
  fix q rest
  assume en: "ended rest"
  then have en': "ended (token0 T_RPAREN # rest)" by simp
  have "expr 0 (s @ token0 T_RPAREN # rest) = Inr (Some a, token0 T_RPAREN # rest)"
    using reads_complete [OF assms(1) _ en'] by (simp add: token_level_def)
  from unary_paren [OF this] s [OF en']
  show "expr q ((token0 T_LPAREN # s @ [token0 T_RPAREN]) @ rest) = binaryLoop a q rest"
    by (simp add: expr_of_unary)
qed

lemma reads_operator:
  assumes l: "reads (left_level b) s a" and r: "reads (right_level b) s' a'" and p: "p < op_level b"
    and en_s: "\<And>rest. ended rest \<Longrightarrow> ended (s @ rest)" and en_s': "\<And>rest. ended rest \<Longrightarrow> ended (s' @ rest)"
  shows "reads p (s @ token0 (op_type b) # s') (branch (op_node b) [Some a, Some a'])"
  unfolding reads_def
proof (intro allI impI)
  fix q rest
  assume q: "q \<le> p" and en: "ended rest" and d: "delimited rest" and h: "head_level rest \<le> follow p"
  from h p have h': "head_level rest \<le> right_level b" by (intro level_facts(3))
  have right: "expr (right_level b) (s' @ rest) = Inr (Some a', rest)"
    using reads_complete [OF r _ en d h'] by simp
  have "expr q (s @ token0 (op_type b) # s' @ rest) = binaryLoop a q (token0 (op_type b) # s' @ rest)"
    using l en_s' [OF en] level_facts(1) [of b] level_facts(2) [of q b] q p by (simp add: reads_def)
  also have "\<dots> = binaryLoop (branch (op_node b) [Some a, Some a']) q rest"
    using q p by (intro loop_operator [OF en_s' [OF en] _ right]) simp
  finally show "expr q ((s @ token0 (op_type b) # s') @ rest) =
      binaryLoop (branch (op_node b) [Some a, Some a']) q rest" by simp
qed

lemma print_args_ended:
  "\<forall>a\<in>set as. wf_sexp a \<Longrightarrow> ty \<noteq> T_EOF \<Longrightarrow> ended rest \<Longrightarrow> ended (print_args ty as @ rest)"
  by (induction as arbitrary: ty) (auto intro: print_no_EOF)

lemma reads_args:
  assumes "\<forall>a\<in>set as. reads 0 (print_expr 0 a) (to_ast a) \<and> wf_sexp a" and "as \<noteq> []" and "ty \<noteq> T_EOF"
    and "length as \<le> k" and en: "ended rest"
  shows "call_args expr k (print_args ty as @ token0 T_RPAREN # rest) =
    Inr (map (\<lambda>a. Some (to_ast a)) as, token0 T_RPAREN # rest)"
  using assms
proof (induction as arbitrary: ty k)
  case (Cons a as)
  then obtain j where k: "k = Suc j" by (cases k) auto
  let ?rest = "print_args T_COMMA as @ token0 T_RPAREN # rest"
  obtain u r where ur: "print_expr 0 a = u # r" by (cases "print_expr 0 a") auto
  have u: "getType u \<noteq> T_ASTERISK" using print_head [of a 0] Cons.prems(1) ur by auto
  have "ended ?rest" using Cons.prems en by (intro print_args_ended) auto
  moreover have "delimited ?rest" "head_level ?rest \<le> 0"
    by (cases as; simp add: token_level_def)+
  ultimately have e: "expr 0 (print_expr 0 a @ ?rest) = Inr (Some (to_ast a), ?rest)"
    using Cons.prems(1) by (intro reads_complete [of 0]) auto
  show ?case
  proof (cases as)
    case Nil
    with e ur u show ?thesis by (simp add: k)
  next
    case (Cons b bs)
    then have "call_args expr j ?rest = Inr (map (\<lambda>a. Some (to_ast a)) as, token0 T_RPAREN # rest)"
      using Cons.prems k by (intro Cons.IH) auto
    moreover have "cur_type ?rest = Inr T_COMMA" using Cons by simp
    ultimately show ?thesis using e ur u by (simp add: k)
  qed
qed simp

lemma reads_call:
  assumes "\<forall>a\<in>set as. reads 0 (print_expr 0 a) (to_ast a)" and wf: "wf_sexp (Call f as)"
  shows "reads p (print_expr p (Call f as)) (to_ast (Call f as))"
  unfolding reads_def
proof (intro allI impI)
  fix q rest
  assume en: "ended rest" and d: "delimited rest"
  let ?ts = "print_args T_LPAREN as @ token0 T_RPAREN # rest"
  have wfs: "\<forall>a\<in>set as. reads 0 (print_expr 0 a) (to_ast a) \<and> wf_sexp a" and ne: "as \<noteq> []"
    using assms by (auto simp: list_all_iff)
  have len: "length as \<le> Suc (length ?ts)"
  proof -
    have "length as \<le> length (print_args ty as)" for ty
      by (induction as arbitrary: ty) (auto intro: le_trans le_add2)
    then show ?thesis by (simp add: le_Suc_eq trans_le_add1)
  qed
  have args: "call_args expr (Suc (length ?ts)) ?ts = Inr (map (\<lambda>a. Some (to_ast a)) as, token0 T_RPAREN # rest)"
    using reads_args [OF wfs ne _ len en] by simp
  have "ended (ident f # ?ts)" using wfs en by (auto intro!: print_args_ended)
  moreover have "unaryExpr expr (ident f # ?ts) = Inr (Some (to_ast (Call f as)), rest)"
  proof -
    have "methodCall expr (ident f # ?ts) = Inr (Some (to_ast (Call f as)), rest)"
      using args d by (cases rest) (simp_all add: methodCall_def Let_def del: call_args.simps)
    then show ?thesis using ne by (cases as) (simp_all add: unaryExpr_def)
  qed
  ultimately show "expr q (print_expr p (Call f as) @ rest) = binaryLoop (to_ast (Call f as)) q rest"
    by (simp add: expr_of_unary)
qed

lemma expr_negation:
  assumes "getType t \<in> {T_BANG, T_MINUS, T_NOT}" and "ended ts" and "expr 0 ts = Inr (Some a, r)"
  shows "expr q (t # ts) = binaryLoop (branch A_NEGATE_EXPR [Some a]) q r"
proof -
  have "unaryExpr expr (t # ts) = Inr (Some (branch A_NEGATE_EXPR [Some a]), r)"
    using assms(1,3) by (auto simp: unaryExpr_def new_node_def)
  moreover have "ended (t # ts)" using assms(1,2) by auto
  ultimately show ?thesis by (simp add: expr_of_unary)
qed

lemma print_reads: "wf_sexp e \<Longrightarrow> reads p (print_expr p e) (to_ast e)"
proof (induction e arbitrary: p)
  case (Lit t)
  then have "unaryExpr expr (t # rest) = Inr (Some (leaf A_LITERAL t), rest)" and "getType t \<noteq> T_EOF" for rest
    by (auto simp: unaryExpr_def is_literal_def)
  then show ?case by (simp add: reads_def expr_of_unary)
next
  case (Col c cs)
  have "ended (print_expr p (Col c cs) @ rest)" if "ended rest" for rest
    using print_no_EOF [OF Col that] by blast
  with unary_column show ?case by (simp add: reads_def expr_of_unary)
next
  case (Call f as)
  then show ?case by (intro reads_call) (auto simp: list_all_iff)
next
  case (Call_Star f)
  show ?case
    unfolding reads_def
  proof (intro allI impI)
    fix q rest
    assume en: "ended rest" and d: "delimited rest"
    have "unaryExpr expr (print_expr p (Call_Star f) @ rest) = Inr (Some (to_ast (Call_Star f)), rest)"
      using d by (cases rest) (simp_all add: unaryExpr_def methodCall_def Let_def)
    then show "expr q (print_expr p (Call_Star f) @ rest) = binaryLoop (to_ast (Call_Star f)) q rest"
      using en by (simp add: expr_of_unary)
  qed
next
  case (Neg e)
  show ?case
    unfolding reads_def
  proof (intro allI impI)
    fix q rest
    assume en: "ended rest"
    let ?r = "token0 T_RPAREN # rest"
    let ?neg = "branch A_NEGATE_EXPR [Some (to_ast e)]"
    have r: "ended ?r" "delimited ?r" "head_level ?r \<le> 0"
      using en by (simp_all add: token_level_def)
    have s: "ended (print_expr 0 e @ ?r)" using Neg.prems r(1) by (simp add: print_no_EOF)
    have "expr 0 (print_expr 0 e @ ?r) = Inr (Some (to_ast e), ?r)"
      using Neg r by (intro reads_complete) auto
    then have "expr 0 (token0 T_MINUS # print_expr 0 e @ ?r) = Inr (Some ?neg, ?r)"
      using expr_negation [OF _ s, of "token0 T_MINUS" "to_ast e" ?r 0] r(1,3) by (simp add: loop_stop)
    from unary_paren [OF this] s
    show "expr q (print_expr p (Neg e) @ rest) = binaryLoop (to_ast (Neg e)) q rest"
      by (simp add: expr_of_unary)
  qed
next
  case (Bin b l r)
  then have "reads q (print_expr (left_level b) l @ token0 (op_type b) # print_expr (right_level b) r)
      (to_ast (Bin b l r))" if "q < op_level b" for q
    using that unfolding to_ast.simps by (intro reads_operator) (auto intro: print_no_EOF)
  moreover from this [of 0] have "reads p (token0 T_LPAREN # (print_expr (left_level b) l @ token0 (op_type b) #
      print_expr (right_level b) r) @ [token0 T_RPAREN]) (to_ast (Bin b l r))"
    using Bin.prems by (intro reads_paren) (auto intro!: print_no_EOF simp: level_pos)
  ultimately show ?case by (simp add: Let_def)
qed

lemma parse_print:
  assumes "wf_sexp e" and "ended rest" and "delimited rest" and "head_level rest \<le> p"
  shows "expr p (print_expr p e @ rest) = Inr (Some (to_ast e), rest)"
  using reads_complete [OF print_reads [OF assms(1)] order_refl assms(2-4)] .

text \<open>An expression ends before the first operator its level does not reach.\<close>

lemma loop_stops_at_weak: "ended ts \<Longrightarrow> binaryLoop lhs p ts = Inr (a, r) \<Longrightarrow> head_level r \<le> p"
proof (induction "length ts" arbitrary: ts lhs rule: less_induct)
  case less
  have step: "bindR (binaryExpr expr lhs p ts) (\<lambda>(e, r).
      case e of None \<Rightarrow> Inr (Some lhs, r) | Some e' \<Rightarrow> binaryLoop e' p r) = Inr (a, r)"
    using less.prems by (simp add: binaryLoop_unfold [symmetric])
  then obtain e r' where e: "binaryExpr expr lhs p ts = Inr (e, r')"
    by (auto simp: bindR_eq_Inr_iff)
  have r': "ended r'" "e \<noteq> None \<longrightarrow> length r' < length ts"
    using sql_expr.binaryExpr_progress [OF less.prems(1), of lhs p] e by auto
  show ?case
  proof (cases e)
    case (Some e')
    then show ?thesis using less.hyps [of r' e'] r' step e by auto
  next
    case None
    obtain t q where ts: "ts = t # q" using less.prems(1) by (cases ts) auto
    have "r = r'" using step e None by simp
    moreover have "r' = ts \<and> token_level (getType t) \<le> p"
      using e None unfolding ts binaryExpr_def operator_defs binary_node_def
      by (auto simp: token_level_def bindR_eq_Inr_iff split: if_splits option.splits)
    ultimately show ?thesis by (simp add: ts)
  qed
qed

section \<open>Properties\<close>



text \<open>
  A leading \<open>-\<close>, \<open>!\<close> or \<open>NOT\<close> negates the whole expression after it, whatever its operators:
  \<open>-a + b\<close> is \<open>-(a + b)\<close> and \<open>NOT a AND b\<close> is \<open>NOT (a AND b)\<close>.
\<close>

theorem negation_takes_all:
  assumes "getType t \<in> {T_BANG, T_MINUS, T_NOT}" and "wf_sexp l" and "wf_sexp r"
    and "ended rest" and "delimited rest" and "head_level rest = 0"
  shows "expr p (t # print_expr 0 (Bin b l r) @ rest) =
    Inr (Some (branch A_NEGATE_EXPR [Some (to_ast (Bin b l r))]), rest)"
proof -
  have e: "expr 0 (print_expr 0 (Bin b l r) @ rest) = Inr (Some (to_ast (Bin b l r)), rest)"
    using assms by (intro parse_print) simp_all
  have "ended (print_expr 0 (Bin b l r) @ rest)" using assms by (intro print_no_EOF) simp_all
  from expr_negation [OF assms(1) this e] show ?thesis
    using assms by (simp add: loop_stop)
qed

theorem negation_takes_all_witness:
  "expr 0 [token0 T_MINUS, ident ''a'', token0 T_PLUS, ident ''b'', token0 T_EOF] =
   Inr (Some (branch A_NEGATE_EXPR [Some (branch A_ADD_EXPR
     [Some (leaf A_COLUMN_NAME (ident ''a'')), Some (leaf A_COLUMN_NAME (ident ''b''))])]), [token0 T_EOF])"
  using negation_takes_all [of "token0 T_MINUS" "Col ''a'' []" "Col ''b'' []" "[token0 T_EOF]" 0 Op_Add]
  by (simp add: token_level_def)

text \<open>
  On every token list that ends in its only \<open>T_EOF\<close> the expression parser returns, and returns
  either one of its two exceptions or a result with a shorter list of tokens left (not longer when
  no expression was found) that still ends in \<open>T_EOF\<close>, up to an operator its level does not reach:
  it never looks past the end of the token list.
\<close>

theorem expr_total:
  assumes "ended ts"
  shows "expr p ts = Inl (Raise ParseError) \<or> expr p ts = Inl (Raise RuntimeError) \<or>
    (\<exists>r. expr p ts = Inr (None, r) \<and> ended r \<and> length r \<le> length ts) \<or>
    (\<exists>a r. expr p ts = Inr (Some a, r) \<and> ended r \<and> length r < length ts \<and> head_level r \<le> p)"
proof (cases "expr p ts")
  case (Inl e)
  then show ?thesis using sql_expr.ex_progress [OF assms TrueI, of p] by (simp add: parse_error_def)
next
  case (Inr y)
  then obtain a r where y: "expr p ts = Inr (a, r)" by (cases y) simp
  then have "ended r" "length r \<le> length ts" "a \<noteq> None \<longrightarrow> length r < length ts"
    using sql_expr.ex_progress [OF assms TrueI, of p] by simp_all
  moreover have "head_level r \<le> p" if "a = Some x" for x
  proof -
    from y that obtain l q where l: "unaryExpr expr ts = Inr (Some l, q)" "binaryLoop l p q = Inr (a, r)"
      by (auto simp: expr_unfold [OF assms] bindR_eq_Inr_iff split: option.splits)
    then have "ended q" using sql_expr.unaryExpr_progress [OF assms TrueI] by simp
    from loop_stops_at_weak [OF this l(2)] show ?thesis .
  qed
  ultimately show ?thesis using y by (cases a) auto
qed

theorem expr_total_witness:
  "\<exists>a r. expr 0 [ident ''a'', token0 T_EOF] = Inr (a, r) \<and> ended r \<or>
     (\<exists>e. expr 0 [ident ''a'', token0 T_EOF] = Inl (Raise e))"
  using expr_total [of "[ident ''a'', token0 T_EOF]" 0] by auto

end
