(* ===== verification/Query_Syntax.thy ===== *)
theory Query_Syntax
  imports Parser_Stmt Expr_Syntax
begin

text \<open>
  The \<open>SELECT\<close> statements that \<open>Parser::selectStatement\<close> of src/csql/parser/parser.cc accepts, as
  a printer with the tree of each query: a specification of the parser that is independent of its
  code. Every clause is a list of tokens that starts with the clause's keyword and may be absent.
\<close>

section \<open>Queries\<close>

datatype column = All_Of string | Column sexp "string option"

datatype sort_order = Unsorted | Ascending | Descending

record select_query =
  sel_columns :: "column list option"
  sel_from :: "(string \<times> string list) list"
  sel_where :: "sexp option"
  sel_group :: "sexp list"
  sel_having :: "sexp option"
  sel_order :: "(sexp \<times> sort_order) list"
  sel_limit :: "(string \<times> string option) option"

text \<open>
  A query selects something; without a \<open>FROM\<close> clause it has no other clause either, since the
  parser demands \<open>FROM\<close> unless a semicolon follows the columns.
\<close>

definition wf_column :: "column \<Rightarrow> bool" where
  "wf_column c = (case c of All_Of t \<Rightarrow> True | Column e a \<Rightarrow> wf_sexp e)"

definition wf_query :: "select_query \<Rightarrow> bool" where
  "wf_query q \<longleftrightarrow>
     (case sel_columns q of None \<Rightarrow> True | Some cs \<Rightarrow> cs \<noteq> [] \<and> list_all wf_column cs) \<and>
     pred_option wf_sexp (sel_where q) \<and> list_all wf_sexp (sel_group q) \<and>
     pred_option wf_sexp (sel_having q) \<and> list_all (wf_sexp \<circ> fst) (sel_order q) \<and>
     (sel_from q = [] \<longrightarrow> sel_where q = None \<and> sel_group q = [] \<and> sel_having q = None \<and>
        sel_order q = [] \<and> sel_limit q = None)"

section \<open>Printing and trees\<close>

text \<open>Elements separated by commas, with a token before the first one.\<close>

fun listed :: "token list \<Rightarrow> ('a \<Rightarrow> token list) \<Rightarrow> 'a list \<Rightarrow> token list" where
  "listed start f [] = []"
| "listed start f (x # xs) = start @ f x @ listed [token0 T_COMMA] f xs"

definition print_column :: "column \<Rightarrow> token list" where
  "print_column c = (case c of
      All_Of t \<Rightarrow> [ident t, token0 T_DOT, token0 T_ASTERISK]
    | Column e a \<Rightarrow> print_expr 0 e @ (case a of None \<Rightarrow> [] | Some n \<Rightarrow> [token0 T_AS, ident n]))"

definition column_ast :: "column \<Rightarrow> ast" where
  "column_ast c = (case c of
      All_Of t \<Rightarrow> leaf A_ALL (ident t)
    | Column e a \<Rightarrow> branch A_DERIVED_COLUMN (Some (to_ast e) #
        (case a of None \<Rightarrow> [] | Some n \<Rightarrow> [Some (leaf A_COLUMN_ALIAS (ident n))])))"

definition print_table :: "string \<times> string list \<Rightarrow> token list" where
  "print_table t = ident (fst t) # concat (map (\<lambda>n. [token0 T_DOT, ident n]) (snd t))"

definition table_name :: "string \<times> string list \<Rightarrow> string" where
  "table_name t = fst t @ concat (map (\<lambda>n. ''.'' @ n) (snd t))"

definition table_ast :: "string \<times> string list \<Rightarrow> ast" where
  "table_ast t = leaf A_TABLE_NAME (ident (table_name t))"

definition print_sort :: "sexp \<times> sort_order \<Rightarrow> token list" where
  "print_sort s = print_expr 0 (fst s) @
     (case snd s of Unsorted \<Rightarrow> [] | Ascending \<Rightarrow> [token0 T_ASC] | Descending \<Rightarrow> [token0 T_DESC])"

definition sort_ast :: "sexp \<times> sort_order \<Rightarrow> ast" where
  "sort_ast s = Node A_SORT_SPEC
     (case snd s of Unsorted \<Rightarrow> None | Ascending \<Rightarrow> Some (token0 T_ASC) | Descending \<Rightarrow> Some (token0 T_DESC))
     (-1) [Some (to_ast (fst s))]"

definition print_columns :: "column list option \<Rightarrow> token list" where
  "print_columns cs = (case cs of None \<Rightarrow> [token0 T_ASTERISK] | Some l \<Rightarrow> listed [] print_column l)"

definition columns_ast :: "column list option \<Rightarrow> ast" where
  "columns_ast cs = branch A_SELECT_LIST
     (case cs of None \<Rightarrow> [Some (new_node A_ALL)] | Some l \<Rightarrow> map (\<lambda>c. Some (column_ast c)) l)"

definition print_limit :: "(string \<times> string option) option \<Rightarrow> token list" where
  "print_limit l = (case l of None \<Rightarrow> []
     | Some (n, off) \<Rightarrow> token0 T_LIMIT # Token T_NUMERIC n #
         (case off of None \<Rightarrow> [] | Some m \<Rightarrow> [token0 T_OFFSET, Token T_NUMERIC m]))"

definition limit_ast :: "string \<times> string option \<Rightarrow> ast" where
  "limit_ast l = Node A_LIMIT (Some (Token T_NUMERIC (fst l))) (-1)
     (case snd l of None \<Rightarrow> [] | Some m \<Rightarrow> [Some (leaf A_OFFSET (Token T_NUMERIC m))])"

definition print_cond :: "token_type \<Rightarrow> sexp option \<Rightarrow> token list" where
  "print_cond ty c = (case c of None \<Rightarrow> [] | Some e \<Rightarrow> token0 ty # print_expr 0 e)"

text \<open>The clauses after the columns, in the order of the code, with the tree of each that is present.\<close>

definition print_clauses :: "select_query \<Rightarrow> token list" where
  "print_clauses q =
     listed [token0 T_FROM] print_table (sel_from q) @
     print_cond T_WHERE (sel_where q) @
     listed [token0 T_GROUP, token0 T_BY] (print_expr 0) (sel_group q) @
     print_cond T_HAVING (sel_having q) @
     listed [token0 T_ORDER, token0 T_BY] print_sort (sel_order q) @
     print_limit (sel_limit q)"

definition list_clause :: "node_type \<Rightarrow> ('a \<Rightarrow> ast) \<Rightarrow> 'a list \<Rightarrow> ast option" where
  "list_clause ty f xs = (if xs = [] then None else Some (branch ty (map (\<lambda>x. Some (f x)) xs)))"

definition clause_asts :: "select_query \<Rightarrow> ast option list" where
  "clause_asts q =
     [list_clause A_FROM table_ast (sel_from q),
      map_option (\<lambda>e. branch A_WHERE [Some (to_ast e)]) (sel_where q),
      list_clause A_GROUP_BY to_ast (sel_group q),
      map_option (\<lambda>e. branch A_HAVING [Some (to_ast e)]) (sel_having q),
      list_clause A_ORDER_BY sort_ast (sel_order q),
      map_option limit_ast (sel_limit q)]"

definition print_select :: "select_query \<Rightarrow> token list" where
  "print_select q = token0 T_SELECT # print_columns (sel_columns q) @ print_clauses q @ [token0 T_SEMICOLON]"

definition select_ast :: "select_query \<Rightarrow> ast" where
  "select_ast q = branch A_SELECT (Some (columns_ast (sel_columns q)) # filter (\<lambda>c. c \<noteq> None) (clause_asts q))"

section \<open>Clauses read back\<close>

text \<open>
  The rank of a clause's keyword. \<open>starts i ts\<close>: the list starts with the keyword of a clause
  that comes at place \<open>i\<close> or later, so no clause before it is present.
\<close>

definition rank :: "token_type \<Rightarrow> nat" where
  "rank ty = (if ty = T_FROM then 1 else if ty = T_WHERE then 2 else if ty = T_GROUP then 3
     else if ty = T_HAVING then 4 else if ty = T_ORDER then 5 else if ty = T_LIMIT then 6
     else if ty = T_SEMICOLON then 7 else 0)"

definition starts :: "nat \<Rightarrow> token list \<Rightarrow> bool" where
  "starts i ts \<longleftrightarrow> ended ts \<and> i \<le> rank (getType (hd ts))"

lemma starts_mono: "starts i ts \<Longrightarrow> j \<le> i \<Longrightarrow> starts j ts"
  by (auto simp: starts_def)

lemma starts_Cons: "starts i ts \<Longrightarrow> \<exists>t r. ts = t # r \<and> i \<le> rank (getType t)"
  by (cases ts) (auto simp: starts_def)

lemma starts_head:
  assumes "starts i ts" and "0 < i"
  shows "ended ts" "delimited ts" "head_level ts = 0"
proof -
  obtain t r where ts: "ts = t # r" "i \<le> rank (getType t)" using starts_Cons [OF assms(1)] by auto
  then have "0 < rank (getType t)" using assms(2) by simp
  then have "getType t \<in> {T_FROM, T_WHERE, T_GROUP, T_HAVING, T_ORDER, T_LIMIT, T_SEMICOLON}"
    by (auto simp: rank_def split: if_splits)
  then show "delimited ts" "head_level ts = 0" using ts(1) by (auto simp: token_level_def)
  show "ended ts" using assms(1) by (simp add: starts_def)
qed

lemma starts_not: "starts i ts \<Longrightarrow> rank ty < i \<Longrightarrow> consumeIf ty ts = Inr (False, ts)"
  using starts_Cons by fastforce

lemma read_expr:
  assumes "wf_sexp e" and "ended rest" and "delimited rest" and "head_level rest = 0"
  shows "expr 0 (print_expr 0 e @ rest) = Inr (Some (to_ast e), rest)"
  using assms by (intro parse_print) simp_all

text \<open>Items that are followed by a comma or the next clause.\<close>

definition item_end :: "token list \<Rightarrow> bool" where
  "item_end ts \<longleftrightarrow> ended ts \<and> (getType (hd ts) = T_COMMA \<or> 0 < rank (getType (hd ts)))"

lemma item_end_head:
  assumes "item_end ts"
  shows "ended ts" "delimited ts" "head_level ts = 0"
    "getType (hd ts) \<notin> {T_AS, T_IDENTIFIER, T_ASC, T_DESC, T_DOT, T_EOF, T_ASTERISK}"
proof -
  obtain t r where ts: "ts = t # r" using assms by (cases ts) (auto simp: item_end_def)
  then have "getType t \<in> {T_COMMA, T_FROM, T_WHERE, T_GROUP, T_HAVING, T_ORDER, T_LIMIT, T_SEMICOLON}"
    using assms by (auto simp: rank_def item_end_def split: if_splits)
  then show "delimited ts" "head_level ts = 0"
    "getType (hd ts) \<notin> {T_AS, T_IDENTIFIER, T_ASC, T_DESC, T_DOT, T_EOF, T_ASTERISK}"
    using ts by (auto simp: token_level_def)
  show "ended ts" using assms by (simp add: item_end_def)
qed

lemma starts_item_end: "starts i ts \<Longrightarrow> 0 < i \<Longrightarrow> item_end ts"
  by (auto simp: starts_def item_end_def)

lemma listed_ended:
  assumes "\<And>x r. x \<in> set xs \<Longrightarrow> ended r \<Longrightarrow> ended (f x @ r)"
    and "T_EOF \<notin> getType ` set start" and "ended rest"
  shows "ended (listed start f xs @ rest)"
  using assms
proof (induction xs arbitrary: start)
  case (Cons x xs)
  have "ended (start @ r)" if "ended r" for r
    using Cons.prems(2) that by (induction start) auto
  moreover have "ended (listed [token0 T_COMMA] f xs @ rest)"
    using Cons.prems by (intro Cons.IH) auto
  ultimately show ?case using Cons.prems(1) by simp
qed simp

lemma listed_item_end:
  assumes "\<And>x r. x \<in> set xs \<Longrightarrow> ended r \<Longrightarrow> ended (f x @ r)" and "starts i rest" and "0 < i"
  shows "item_end (listed [token0 T_COMMA] f xs @ rest)"
proof (cases xs)
  case Nil
  with starts_item_end [OF assms(2,3)] show ?thesis by simp
next
  case (Cons x ys)
  have "ended (listed [token0 T_COMMA] f xs @ rest)"
    using assms starts_head(1) [OF assms(2,3)] by (intro listed_ended) auto
  with Cons show ?thesis by (simp add: item_end_def)
qed

lemma expr_list_print:
  assumes "\<forall>e\<in>set es. wf_sexp e" and "es \<noteq> []" and "length es \<le> k" and "starts i rest" "0 < i"
  shows "expr_list k (listed [] (print_expr 0) es @ rest) = Inr (map (\<lambda>e. Some (to_ast e)) es, rest)"
  using assms(1-3)
proof (induction es arbitrary: k)
  case (Cons e es)
  then obtain j where k: "k = Suc j" by (cases k) auto
  have ie: "item_end (listed [token0 T_COMMA] (print_expr 0) es @ rest)"
    using Cons.prems assms(4,5) by (intro listed_item_end) (auto intro: print_no_EOF)
  have e: "expr 0 (print_expr 0 e @ listed [token0 T_COMMA] (print_expr 0) es @ rest) =
      Inr (Some (to_ast e), listed [token0 T_COMMA] (print_expr 0) es @ rest)"
    using Cons.prems item_end_head [OF ie] by (intro read_expr) auto
  show ?case
  proof (cases es)
    case Nil
    then show ?thesis using e starts_not [OF assms(4), of T_COMMA] assms(5) by (simp add: k rank_def)
  next
    case (Cons e' es')
    then have "expr_list j (listed [] (print_expr 0) es @ rest) = Inr (map (\<lambda>e. Some (to_ast e)) es, rest)"
      using Cons.prems k by (intro Cons.IH) auto
    then show ?thesis using e Cons by (simp add: k)
  qed
qed simp

lemma sort_spec_print:
  assumes "wf_sexp (fst s)" and ie: "item_end rest"
  shows "sort_spec (print_sort s @ rest) = Inr (sort_ast s, rest)"
proof -
  obtain t r where rest: "rest = t # r" using item_end_head(1) [OF ie] by (cases rest) auto
  note head = item_end_head [OF ie]
  show ?thesis
    using assms(1) head rest
    by (cases "snd s")
      (simp_all add: sort_spec_def print_sort_def sort_ast_def read_expr new_node_def token_level_def)
qed

lemma print_sort_ended: "wf_sexp (fst s) \<Longrightarrow> ended r \<Longrightarrow> ended (print_sort s @ r)"
  by (cases "snd s") (simp_all add: print_sort_def print_no_EOF)

lemma sort_list_print:
  assumes "\<forall>e\<in>set es. wf_sexp (fst e)" and "es \<noteq> []" and "length es \<le> k" and "starts i rest" "0 < i"
  shows "sort_list k (listed [] print_sort es @ rest) = Inr (map (\<lambda>e. Some (sort_ast e)) es, rest)"
  using assms(1-3)
proof (induction es arbitrary: k)
  case (Cons e es)
  then obtain j where k: "k = Suc j" by (cases k) auto
  have ie: "item_end (listed [token0 T_COMMA] print_sort es @ rest)"
    using Cons.prems assms(4,5) by (intro listed_item_end) (auto intro: print_sort_ended)
  have e: "sort_spec (print_sort e @ listed [token0 T_COMMA] print_sort es @ rest) =
      Inr (sort_ast e, listed [token0 T_COMMA] print_sort es @ rest)"
    using Cons.prems ie by (intro sort_spec_print) auto
  show ?case
  proof (cases es)
    case Nil
    then show ?thesis using e starts_not [OF assms(4), of T_COMMA] assms(5) by (simp add: k rank_def)
  next
    case (Cons e' es')
    then have "sort_list j (listed [] print_sort es @ rest) = Inr (map (\<lambda>e. Some (sort_ast e)) es, rest)"
      using Cons.prems k by (intro Cons.IH) auto
    then show ?thesis using e Cons by (simp add: k)
  qed
qed simp

lemma dotted_name_print:
  assumes "ended rest" and "getType (hd rest) \<noteq> T_DOT"
  shows "dotted_name a (concat (map (\<lambda>n. [token0 T_DOT, ident n]) ns) @ rest) =
    Inr (a @ concat (map (\<lambda>n. ''.'' @ n) ns), rest)"
proof (induction ns arbitrary: a)
  case Nil
  then show ?case using assms by (cases rest; cases "tl rest") auto
qed simp

lemma print_table_ended: "ended r \<Longrightarrow> ended (print_table t @ r)"
proof -
  assume "ended r"
  then have "ended (concat (map (\<lambda>n. [token0 T_DOT, ident n]) ns) @ r)" for ns
    by (induction ns) auto
  then show ?thesis by (simp add: print_table_def)
qed

lemma tableName_print:
  "item_end rest \<Longrightarrow> tableName (print_table t @ rest) = Inr (table_ast t, rest)"
  using dotted_name_print [OF item_end_head(1)] item_end_head(4)
  by (simp add: tableName_def print_table_def table_ast_def table_name_def)

lemma table_list_print:
  assumes "es \<noteq> []" and "length es \<le> k" and "starts i rest" "1 < i" and "getType s \<noteq> T_EOF"
  shows "table_list k (listed [s] print_table es @ rest) = Inr (map (\<lambda>e. Some (table_ast e)) es, rest)"
  using assms(1,2)
proof (induction es arbitrary: k s)
  case (Cons e es)
  then obtain j where k: "k = Suc j" by (cases k) auto
  have ie: "item_end (listed [token0 T_COMMA] print_table es @ rest)"
    using assms(3,4) by (intro listed_item_end) (auto intro: print_table_ended)
  note e = tableName_print [OF ie]
  show ?case
  proof (cases es)
    case Nil
    moreover have "\<exists>t r. rest = t # r \<and> getType t \<noteq> T_COMMA"
      using starts_Cons [OF assms(3)] assms(4) by (auto simp: rank_def)
    ultimately show ?thesis using e [of e] by (auto simp: k)
  next
    case (Cons e' es')
    then have "table_list j (listed [token0 T_COMMA] print_table es @ rest) =
        Inr (map (\<lambda>e. Some (table_ast e)) es, rest)"
      using Cons.prems k by (intro Cons.IH) auto
    then show ?thesis using e [of e] Cons by (simp add: k)
  qed
qed simp

text \<open>Each clause, with what may follow it; an absent clause leaves its input.\<close>

lemma length_listed: "length xs \<le> length (listed [] f xs @ rest)"
  if "\<And>x. f x \<noteq> []"
proof -
  have "length xs \<le> length (listed [token0 T_COMMA] f xs)"
    by (induction xs) auto
  moreover have "length xs \<le> length (listed [] f xs)"
  proof (cases xs)
    case (Cons y ys)
    have "length ys \<le> length (listed [token0 T_COMMA] f ys)" by (induction ys) auto
    then show ?thesis using Cons that [of y] by (cases "f y") auto
  qed simp
  ultimately show ?thesis by simp
qed

lemma fromClause_print:
  assumes "starts 2 rest" and "es \<noteq> []"
  shows "fromClause (listed [token0 T_FROM] print_table es @ rest) = Inr (list_clause A_FROM table_ast es, rest)"
proof -
  let ?ts = "listed [token0 T_FROM] print_table es @ rest"
  have "length es \<le> length (listed [s] print_table es)" for s
    by (induction es arbitrary: s) (auto intro: le_SucI trans_le_add2)
  then have "table_list (length ?ts) ?ts = Inr (map (\<lambda>e. Some (table_ast e)) es, rest)"
    using assms by (intro table_list_print) (auto intro: trans_le_add1)
  moreover have "assertExpectation T_FROM ?ts = Inr ()" using assms(2) by (cases es) auto
  ultimately show ?thesis
    using assms(2) by (simp add: fromClause_def list_clause_def new_node_def foldl_appendChild)
qed

lemma whereClause_print:
  assumes "starts 3 rest" and "pred_option wf_sexp c"
  shows "whereClause (print_cond T_WHERE c @ rest) =
    Inr (map_option (\<lambda>e. branch A_WHERE [Some (to_ast e)]) c, rest)"
proof (cases c)
  case None
  then show ?thesis using starts_not [OF assms(1), of T_WHERE]
    by (simp add: whereClause_def print_cond_def rank_def)
next
  case (Some e)
  then show ?thesis using assms starts_head [OF assms(1)]
    by (simp add: whereClause_def print_cond_def read_expr new_node_def)
qed

lemma havingClause_print:
  assumes "starts 5 rest" and "pred_option wf_sexp c"
  shows "havingClause (print_cond T_HAVING c @ rest) =
    Inr (map_option (\<lambda>e. branch A_HAVING [Some (to_ast e)]) c, rest)"
proof (cases c)
  case None
  then show ?thesis using starts_not [OF assms(1), of T_HAVING]
    by (simp add: havingClause_def print_cond_def rank_def)
next
  case (Some e)
  then show ?thesis using assms starts_head [OF assms(1)]
    by (simp add: havingClause_def print_cond_def read_expr new_node_def)
qed

lemma listed_start: "xs \<noteq> [] \<Longrightarrow> listed s f xs = s @ listed [] f xs"
  by (cases xs) simp_all

lemma groupByClause_print:
  assumes st: "starts 4 rest" and wf: "list_all wf_sexp es"
  shows "groupByClause (listed [token0 T_GROUP, token0 T_BY] (print_expr 0) es @ rest) =
    Inr (list_clause A_GROUP_BY to_ast es, rest)"
proof (cases "es = []")
  case True
  then show ?thesis using starts_not [OF st, of T_GROUP]
    by (simp add: groupByClause_def rank_def list_clause_def)
next
  case False
  let ?ts = "listed [] (print_expr 0) es @ rest"
  have "expr_list (length ?ts) ?ts = Inr (map (\<lambda>e. Some (to_ast e)) es, rest)"
    using wf False st length_listed [of "print_expr 0" es rest]
    by (intro expr_list_print [where i = 4]) (auto simp: list_all_iff)
  with False show ?thesis
    by (simp add: listed_start [OF False, of "[token0 T_GROUP, token0 T_BY]"] groupByClause_def list_clause_def new_node_def foldl_appendChild
        del: expr_list.simps)
qed

lemma orderByClause_print:
  assumes st: "starts 6 rest" and wf: "list_all (wf_sexp \<circ> fst) es"
  shows "orderByClause (listed [token0 T_ORDER, token0 T_BY] print_sort es @ rest) =
    Inr (list_clause A_ORDER_BY sort_ast es, rest)"
proof (cases "es = []")
  case True
  then show ?thesis using starts_not [OF st, of T_ORDER]
    by (simp add: orderByClause_def rank_def list_clause_def)
next
  case False
  let ?ts = "listed [] print_sort es @ rest"
  have "print_sort e \<noteq> []" for e by (simp add: print_sort_def)
  from length_listed [of print_sort, OF this, of es rest]
  have "sort_list (length ?ts) ?ts = Inr (map (\<lambda>e. Some (sort_ast e)) es, rest)"
    using wf False st by (intro sort_list_print [where i = 6]) (auto simp: list_all_iff)
  with False show ?thesis
    by (simp add: listed_start [OF False, of "[token0 T_ORDER, token0 T_BY]"] orderByClause_def list_clause_def new_node_def foldl_appendChild
        del: sort_list.simps)
qed

lemma limitClause_print:
  assumes st: "starts 7 rest"
  shows "limitClause (print_limit l @ rest) = Inr (map_option limit_ast l, rest)"
proof -
  have "consumeIf ty rest = Inr (False, rest)" if "rank ty = 0 \<or> ty = T_LIMIT" for ty
    using that by (intro starts_not [OF st]) (auto simp: rank_def)
  then have "consumeIf T_LIMIT rest = Inr (False, rest)" "consumeIf T_OFFSET rest = Inr (False, rest)"
    by (simp_all add: rank_def)
  then show ?thesis
    by (auto simp: limitClause_def print_limit_def limit_ast_def split: option.split)
qed

text \<open>The columns.\<close>

lemma selectSublist_print:
  assumes wf: "wf_column c" and ie: "item_end rest"
  shows "selectSublist (print_column c @ rest) = Inr (column_ast c, rest)"
proof (cases c)
  case (All_Of t)
  then show ?thesis by (simp add: selectSublist_def print_column_def column_ast_def numeral_2_eq_2 numeral_3_eq_3)
next
  case (Column e a)
  let ?tail = "(case a of None \<Rightarrow> [] | Some n \<Rightarrow> [token0 T_AS, ident n]) @ rest"
  have h: "ended ?tail" "delimited ?tail" "head_level ?tail = 0"
    using item_end_head [OF ie] by (cases a; simp add: token_level_def)+
  from wf Column have e: "expr 0 (print_expr 0 e @ ?tail) = Inr (Some (to_ast e), ?tail)"
    using h by (intro read_expr) (auto simp: wf_column_def)
  obtain t r where rest: "rest = t # r" using item_end_head(1) [OF ie] by (cases rest) auto
  have no_star: "\<not> (lookahead 0 T_IDENTIFIER ts \<and> lookahead 1 T_DOT ts \<and> lookahead 2 T_ASTERISK ts)"
    if "expr 0 ts = Inr (Some x, y)" for ts x y
  proof
    assume la: "lookahead 0 T_IDENTIFIER ts \<and> lookahead 1 T_DOT ts \<and> lookahead 2 T_ASTERISK ts"
    then obtain u d s q where ts: "ts = u # d # s # q"
      by (cases ts; cases "tl ts"; cases "tl (tl ts)") (auto simp: lookahead_def)
    with la have "unaryExpr (exprF n) ts = Inl (Raise ParseError)" for n
      by (simp add: unaryExpr_def numeral_2_eq_2)
    then have "exprF (Suc n) 0 ts = Inl (Raise ParseError)" for n by simp
    with that show False unfolding expr_def by (metis Inl_Inr_False)
  qed
  show ?thesis
    using e no_star [OF e] item_end_head(4) [OF ie] rest
    by (cases a) (simp_all add: Column selectSublist_def print_column_def column_ast_def Let_def
        expectAndConsumeValueExpr_def new_node_def)
qed

lemma print_column_ended: "wf_column c \<Longrightarrow> ended r \<Longrightarrow> ended (print_column c @ r)"
  by (cases c) (auto simp: print_column_def wf_column_def intro!: print_no_EOF split: option.split)

lemma select_list_print:
  assumes "\<forall>c\<in>set cs. wf_column c" and "cs \<noteq> []" and "length cs \<le> k" and "starts i rest" "0 < i"
  shows "select_list k (listed [] print_column cs @ rest) = Inr (map (\<lambda>c. Some (column_ast c)) cs, rest)"
  using assms(1-3)
proof (induction cs arbitrary: k)
  case (Cons c cs)
  then obtain j where k: "k = Suc j" by (cases k) auto
  have ie: "item_end (listed [token0 T_COMMA] print_column cs @ rest)"
    using Cons.prems assms(4,5) by (intro listed_item_end) (auto intro: print_column_ended)
  have c: "selectSublist (print_column c @ listed [token0 T_COMMA] print_column cs @ rest) =
      Inr (column_ast c, listed [token0 T_COMMA] print_column cs @ rest)"
    using Cons.prems ie by (intro selectSublist_print) auto
  show ?case
  proof (cases cs)
    case Nil
    moreover have "\<exists>t r. rest = t # r \<and> getType t \<noteq> T_COMMA"
      using starts_Cons [OF assms(4)] assms(5) by (auto simp: rank_def)
    ultimately show ?thesis using c by (auto simp: k)
  next
    case (Cons c' cs')
    then have "select_list j (listed [] print_column cs @ rest) = Inr (map (\<lambda>c. Some (column_ast c)) cs, rest)"
      using Cons.prems k by (intro Cons.IH) auto
    then show ?thesis using c Cons by (simp add: k)
  qed
qed simp

text \<open>A clause moves the start of what follows one place forward.\<close>

lemma starts_Cons_token: "ended ts \<Longrightarrow> i \<le> rank ty \<Longrightarrow> ty \<noteq> T_EOF \<Longrightarrow> starts i (token0 ty # ts)"
  by (simp add: starts_def)

lemma starts_cond:
  assumes "starts (Suc i) rest" and "pred_option wf_sexp c" and "rank ty = i" and "ty \<noteq> T_EOF"
  shows "starts i (print_cond ty c @ rest)"
  using assms starts_head(1) [OF assms(1)]
  by (cases c) (auto simp: print_cond_def intro: starts_mono starts_Cons_token print_no_EOF)

lemma starts_listed:
  assumes "starts (Suc i) rest" and "rank ty = i" and "ty \<noteq> T_EOF" and "T_EOF \<notin> getType ` set start"
    and "\<And>x r. x \<in> set xs \<Longrightarrow> ended r \<Longrightarrow> ended (f x @ r)"
  shows "starts i (listed (token0 ty # start) f xs @ rest)"
proof (cases xs)
  case Nil
  then show ?thesis using assms(1) by (auto intro: starts_mono)
next
  case (Cons x ys)
  have "ended (listed (token0 ty # start) f xs @ rest)"
    using assms starts_head(1) [OF assms(1)] by (intro listed_ended) auto
  then show ?thesis using assms(2) Cons by (simp add: starts_def)
qed

lemma starts_limit: "starts 7 rest \<Longrightarrow> starts 6 (print_limit l @ rest)"
  using starts_head(1) [of 7 rest]
  by (auto simp: print_limit_def rank_def intro: starts_mono starts_Cons_token split: option.split)

lemma listed_columns_end:
  assumes "list_all wf_column cs" and "cs \<noteq> []"
  shows "\<exists>t r. listed [] print_column cs = t # r \<and> getType t \<noteq> T_ASTERISK"
proof -
  obtain c cs' where cs: "cs = c # cs'" using assms(2) by (cases cs) auto
  show ?thesis
  proof (cases c)
    case (All_Of t)
    then show ?thesis by (simp add: cs print_column_def)
  next
    case (Column e a)
    then have "wf_sexp e" using assms(1) cs by (simp add: wf_column_def)
    from print_head [OF this, of 0] show ?thesis
      by (cases "print_expr 0 e") (auto simp: cs print_column_def Column)
  qed
qed

lemma clauses_fold:
  "foldl appendClause (Node ty tok i cs) ds = Node ty tok i (cs @ filter (\<lambda>c. c \<noteq> None) ds)"
  by (induction ds arbitrary: cs) (simp_all add: appendClause_def split: option.split)

lemma bindR_through: "bindR m g = Inr y \<Longrightarrow> bindR m (\<lambda>x. bindR (g x) f) = f y"
  by (cases m) simp_all

lemma selectStatement_print:
  assumes wf: "wf_query q" and en: "ended rest"
  shows "selectStatement (print_select q @ rest) = Inr (select_ast q, rest)"
proof -
  define r7 where "r7 = token0 T_SEMICOLON # rest"
  define r6 where "r6 = print_limit (sel_limit q) @ r7"
  define r5 where "r5 = listed [token0 T_ORDER, token0 T_BY] print_sort (sel_order q) @ r6"
  define r4 where "r4 = print_cond T_HAVING (sel_having q) @ r5"
  define r3 where "r3 = listed [token0 T_GROUP, token0 T_BY] (print_expr 0) (sel_group q) @ r4"
  define r2 where "r2 = print_cond T_WHERE (sel_where q) @ r3"
  define r1 where "r1 = listed [token0 T_FROM] print_table (sel_from q) @ r2"
  have wfs: "pred_option wf_sexp (sel_where q)" "list_all wf_sexp (sel_group q)"
    "pred_option wf_sexp (sel_having q)" "list_all (wf_sexp \<circ> fst) (sel_order q)"
    using wf by (simp_all add: wf_query_def)
  have s7: "starts 7 r7" using en by (simp add: r7_def starts_def rank_def)
  have s6: "starts 6 r6" unfolding r6_def by (rule starts_limit [OF s7])
  have s5: "starts 5 r5" unfolding r5_def using s6 wfs(4)
    by (intro starts_listed) (auto simp: rank_def list_all_iff intro: print_sort_ended)
  have s4: "starts 4 r4" unfolding r4_def using s5 wfs(3)
    by (intro starts_cond) (auto simp: rank_def)
  have s3: "starts 3 r3" unfolding r3_def using s4 wfs(2)
    by (intro starts_listed) (auto simp: rank_def list_all_iff intro: print_no_EOF)
  have s2: "starts 2 r2" unfolding r2_def using s3 wfs(1)
    by (intro starts_cond) (auto simp: rank_def)
  have s1: "starts 1 r1" unfolding r1_def using s2
    by (intro starts_listed) (auto simp: rank_def numeral_2_eq_2 intro: print_table_ended)
  have from_clause: "(if ty \<noteq> T_SEMICOLON then fromClause r1 else Inr (None, r1)) =
      Inr (list_clause A_FROM table_ast (sel_from q), r2)" if "cur_type r1 = Inr ty" for ty
  proof (cases "sel_from q = []")
    case True
    then have "r1 = r7" using wf
      by (simp add: wf_query_def r1_def r2_def r3_def r4_def r5_def r6_def print_cond_def print_limit_def)
    moreover from this True have "r2 = r7" by (simp add: r1_def)
    ultimately show ?thesis using True that by (simp add: r7_def list_clause_def)
  next
    case False
    then have "ty = T_FROM" using that by (cases "sel_from q") (auto simp: r1_def)
    with fromClause_print [OF s2 False] show ?thesis by (simp add: r1_def)
  qed
  obtain ty where ty: "cur_type r1 = Inr ty" using starts_Cons [OF s1] by auto
  have cols: "bindR (cur_type (print_columns (sel_columns q) @ r1)) (\<lambda>ty.
      if ty = T_ASTERISK then bindR (consumeToken (print_columns (sel_columns q) @ r1)) (\<lambda>(_, r). Inr ([Some (new_node A_ALL)], r))
      else select_list (length (print_columns (sel_columns q) @ r1)) (print_columns (sel_columns q) @ r1)) =
    Inr (nodeChildren (columns_ast (sel_columns q)), r1)"
  proof (cases "sel_columns q")
    case None
    then show ?thesis by (simp add: print_columns_def columns_ast_def)
  next
    case (Some cs)
    with wf have cs: "cs \<noteq> []" "list_all wf_column cs" by (simp_all add: wf_query_def)
    have "print_column c \<noteq> []" for c by (auto simp: print_column_def split: column.split)
    from length_listed [of print_column, OF this] cs s1
    have "select_list (length (listed [] print_column cs @ r1)) (listed [] print_column cs @ r1) =
        Inr (map (\<lambda>c. Some (column_ast c)) cs, r1)"
      by (intro select_list_print [where i = 1]) (auto simp: list_all_iff)
    with listed_columns_end [OF cs(2,1)] Some show ?thesis
      by (auto simp: print_columns_def columns_ast_def simp del: select_list.simps)
  qed
  have tail: "whereClause r2 = Inr (map_option (\<lambda>e. branch A_WHERE [Some (to_ast e)]) (sel_where q), r3)"
    "groupByClause r3 = Inr (list_clause A_GROUP_BY to_ast (sel_group q), r4)"
    "havingClause r4 = Inr (map_option (\<lambda>e. branch A_HAVING [Some (to_ast e)]) (sel_having q), r5)"
    "orderByClause r5 = Inr (list_clause A_ORDER_BY sort_ast (sel_order q), r6)"
    "limitClause r6 = Inr (map_option limit_ast (sel_limit q), r7)"
    "consumeIf T_SEMICOLON r7 = Inr (True, rest)"
    using whereClause_print [OF s3 wfs(1)] groupByClause_print [OF s4 wfs(2)]
      havingClause_print [OF s5 wfs(3)] orderByClause_print [OF s6 wfs(4)] limitClause_print [OF s7]
    by (simp_all add: r2_def r3_def r4_def r5_def r6_def r7_def)
  have shape: "foldl appendClause (appendChild (new_node A_SELECT)
      (Some (foldl appendChild (new_node A_SELECT_LIST) (nodeChildren (columns_ast (sel_columns q))))))
      (clause_asts q) = select_ast q"
    by (simp add: select_ast_def new_node_def foldl_appendChild clauses_fold columns_ast_def)
  have "print_select q @ rest = token0 T_SELECT # print_columns (sel_columns q) @ r1"
    by (simp add: print_select_def print_clauses_def r1_def r2_def r3_def r4_def r5_def r6_def r7_def)
  then show ?thesis
    by (simp only: selectStatement_def consumeToken_Cons bindR_Inr split_conv bindR_through [OF cols]
        ty from_clause [OF ty] tail shape [unfolded clause_asts_def])
qed

section \<open>The trees are their own copies\<close>

lemma copy_children_map: "copy_children cs = map (map_option deepCopy) (filter (\<lambda>c. c \<noteq> None) cs)"
proof (induction cs)
  case (Cons c cs)
  then show ?case by (cases c) simp_all
qed simp

lemma copy_col: "deepCopy (col_ast c cs) = col_ast c cs"
  by (induction c cs rule: col_ast.induct) simp_all

lemma copy_to_ast: "deepCopy (to_ast e) = to_ast e"
  by (induction e) (auto simp: copy_col foldl_appendChild copy_children_map new_node_def filter_map comp_def)

lemma copy_select: "deepCopy (select_ast q) = select_ast q"
proof -
  have col: "deepCopy (column_ast c) = column_ast c" for c
    by (auto simp: column_ast_def copy_to_ast split: column.split option.split)
  have sort: "deepCopy (sort_ast s) = sort_ast s" for s
    by (simp add: sort_ast_def copy_to_ast)
  have limit: "deepCopy (limit_ast l) = limit_ast l" for l
    by (auto simp: limit_ast_def split: option.split)
  have table: "deepCopy (table_ast t) = table_ast t" for t
    by (simp add: table_ast_def)
  have cols: "deepCopy (columns_ast cs) = columns_ast cs" for cs
    by (auto simp: columns_ast_def copy_children_map filter_map comp_def col new_node_def split: option.split)
  have clause: "map_option deepCopy (list_clause ty f xs) = list_clause ty f xs" if "\<And>x. deepCopy (f x) = f x"
    for ty xs and f :: "'b \<Rightarrow> ast"
    using that by (simp add: list_clause_def copy_children_map filter_map comp_def)
  have "\<forall>c\<in>set (clause_asts q). map_option deepCopy c = c"
    by (auto simp: clause_asts_def clause table sort limit copy_to_ast option.map_comp comp_def)
  then have "map (map_option deepCopy) (filter (\<lambda>c. c \<noteq> None) (clause_asts q)) = filter (\<lambda>c. c \<noteq> None) (clause_asts q)"
    by (intro map_idI) simp
  then show ?thesis
    by (simp add: select_ast_def copy_children_map cols)
qed

lemma selectStatement_print_nonempty: "wf_query q \<Longrightarrow> ended rest \<Longrightarrow> ended (print_select q @ rest)"
proof -
  assume wf: "wf_query q" and en: "ended rest"
  have cols: "ended (print_columns (sel_columns q) @ r)" if "ended r" for r
    using wf that by (auto simp: print_columns_def wf_query_def list_all_iff split: option.splits
        intro!: listed_ended print_column_ended)
  have conds: "ended (print_cond ty c @ r)" if "ended r" "pred_option wf_sexp c" "ty \<noteq> T_EOF" for ty c r
    using that by (cases c) (auto simp: print_cond_def print_no_EOF)
  have "ended (print_limit l @ r)" if "ended r" for l r
    using that by (auto simp: print_limit_def split: option.split)
  then show ?thesis
    using wf en unfolding print_select_def print_clauses_def wf_query_def
    by (auto intro!: cols conds listed_ended print_table_ended print_no_EOF print_sort_ended
        simp: list_all_iff)
qed

lemma statements_print:
  assumes "\<forall>q\<in>set qs. wf_query q" and "length qs < k"
  shows "statements k (concat (map print_select qs) @ [token0 T_EOF]) = Inr (map select_ast qs)"
  using assms
proof (induction qs arbitrary: k)
  case Nil
  then show ?case by (cases k) simp_all
next
  case (Cons q qs)
  then obtain j where k: "k = Suc j" by (cases k) auto
  let ?rest = "concat (map print_select qs) @ [token0 T_EOF]"
  have "ended ?rest" using Cons.prems(1)
    by (induction qs) (auto intro!: selectStatement_print_nonempty)
  with Cons.prems have "selectStatement (print_select q @ ?rest) = Inr (select_ast q, ?rest)"
    by (intro selectStatement_print) simp_all
  then have st: "statement (print_select q @ ?rest) = Inr (select_ast q, ?rest)"
    by (simp add: statement_def print_select_def)
  have "statements j ?rest = Inr (map select_ast qs)" using Cons.prems k by (intro Cons.IH) auto
  moreover have "\<exists>r. print_select q @ ?rest = token0 T_SELECT # r" by (simp add: print_select_def)
  ultimately show ?case using st by (auto simp: k)
qed

section \<open>Properties\<close>

text \<open>
  C2. Every list of \<open>SELECT\<close> statements, printed clause by clause and turned into text, is parsed
  by \<open>parseQuery\<close> to exactly the trees of the statements: each clause present gives one child in
  the order of the grammar, an absent clause gives none, and nothing of one statement leaks into the
  next.
\<close>

theorem parseQuery_select_roundtrip:
  assumes "\<forall>q\<in>set qs. wf_query q" and "qs \<noteq> []"
    and "\<forall>t\<in>set (concat (map print_select qs)). printable t"
  shows "parseQuery (print_tokens (concat (map print_select qs))) = Inr (map select_ast qs)"
proof -
  let ?ts = "concat (map print_select qs)"
  have ne: "?ts \<noteq> []" using assms(2) by (cases qs) (auto simp: print_select_def)
  have tok: "tokenizeQuery (print_tokens ?ts) = Inr ?ts"
    using assms(3) by (rule tokenizeQuery_print_tokens)
  have "length qs \<le> length ?ts"
    by (induction qs) (auto simp: print_select_def)
  then have "statements (length (?ts @ [token0 T_EOF])) (?ts @ [token0 T_EOF]) = Inr (map select_ast qs)"
    using assms(1) by (intro statements_print) simp_all
  then have "parse (print_tokens ?ts) = Inr (map select_ast qs)"
    using tok ne by (simp add: parse_def parse_tokens_def del: statements.simps)
  moreover have "print_tokens ?ts \<noteq> []" using ne by (cases ?ts) (auto simp: print_tokens_def)
  ultimately show ?thesis by (simp add: parseQuery_def copy_select comp_def)
qed

text \<open>Two statements: \<open>SELECT a FROM t WHERE b LIMIT 5; SELECT *;\<close>\<close>

definition example_queries :: "select_query list" where
  "example_queries =
     [\<lparr> sel_columns = Some [Column (Col ''a'' []) None], sel_from = [(''t'', [])],
        sel_where = Some (Col ''b'' []), sel_group = [], sel_having = None, sel_order = [],
        sel_limit = Some (''5'', None) \<rparr>,
      \<lparr> sel_columns = None, sel_from = [], sel_where = None, sel_group = [], sel_having = None,
        sel_order = [], sel_limit = None \<rparr>]"

lemma example_printable: "\<forall>t\<in>set (concat (map print_select example_queries)). printable t"
proof -
  have "T_SELECT \<in> snd ` set spelling_table" "T_FROM \<in> snd ` set spelling_table"
    "T_WHERE \<in> snd ` set spelling_table" "T_LIMIT \<in> snd ` set spelling_table"
    using spelled [of "''SELECT''" T_SELECT] spelled [of "''FROM''" T_FROM]
      spelled [of "''WHERE''" T_WHERE] spelled [of "''LIMIT''" T_LIMIT]
    by (simp_all add: keyword_table_def query_keywords_def chart_keywords_def option_keywords_def)
  moreover have "T_SEMICOLON \<in> snd ` set spelling_table" "T_ASTERISK \<in> snd ` set spelling_table"
    using spelled_symbol [of "'';''" T_SEMICOLON] spelled_symbol [of "''*''" T_ASTERISK]
    by (simp_all add: symbol_table_def)
  ultimately show ?thesis
    by (simp add: example_queries_def print_select_def print_columns_def print_column_def print_clauses_def
        print_table_def print_cond_def print_limit_def printable_def is_digit_def is_numeric_char_def)
qed

theorem parseQuery_select_roundtrip_witness:
  "parseQuery (print_tokens (concat (map print_select example_queries))) =
     Inr [branch A_SELECT
            [Some (branch A_SELECT_LIST [Some (branch A_DERIVED_COLUMN [Some (leaf A_COLUMN_NAME (ident ''a''))])]),
             Some (branch A_FROM [Some (leaf A_TABLE_NAME (ident ''t''))]),
             Some (branch A_WHERE [Some (leaf A_COLUMN_NAME (ident ''b''))]),
             Some (leaf A_LIMIT (Token T_NUMERIC ''5''))],
          branch A_SELECT [Some (branch A_SELECT_LIST [Some (new_node A_ALL)])]]"
proof -
  have "\<forall>q\<in>set example_queries. wf_query q" and "example_queries \<noteq> []"
    by (simp_all add: example_queries_def wf_query_def wf_column_def)
  from parseQuery_select_roundtrip [OF this example_printable] show ?thesis
    by (simp add: example_queries_def select_ast_def columns_ast_def clause_asts_def list_clause_def
        column_ast_def table_ast_def table_name_def limit_ast_def)
qed

end
