(* ===== verification/Streams.thy ===== *)
theory Streams
  imports Prelude
begin

text \<open>
  Byte streams: \<open>OutputStream\<close> and \<open>InputStream\<close> of src/stx/io. A writer is the list of bytes it
  appends; a reader takes the bytes from its position on and returns its value with the bytes left,
  or raises the end-of-file error. Integers lie in memory in little-endian order, as on the hosts
  the code is built for.
\<close>

section \<open>Bytes\<close>

type_synonym byte = "8 word"
type_synonym 'a reader = "byte list \<Rightarrow> ('a \<times> byte list) result"

text \<open>The low \<open>n\<close> bytes of a machine word, lowest first, and the word of a list of bytes.\<close>

fun le_bytes :: "nat \<Rightarrow> 64 word \<Rightarrow> byte list" where
  "le_bytes 0 w = []"
| "le_bytes (Suc n) w = ucast w # le_bytes n (drop_bit 8 w)"

fun le_value :: "byte list \<Rightarrow> 64 word" where
  "le_value [] = 0"
| "le_value (b # bs) = or (ucast b) (push_bit 8 (le_value bs))"

lemma length_le_bytes [simp]: "length (le_bytes n w) = n"
  by (induction n arbitrary: w) simp_all

lemma le_value_bytes: "le_value (le_bytes n w) = take_bit (8 * n) w"
proof (induction n arbitrary: w)
  case (Suc n)
  have "or (ucast (ucast w :: byte)) (push_bit 8 (take_bit (8 * n) (drop_bit 8 w))) = take_bit (8 * Suc n) w"
    by (rule bit_eqI) (auto simp: bit_simps)
  with Suc show ?case by simp
qed simp

section \<open>Readers and writers\<close>

definition readNextBytes :: "nat \<Rightarrow> byte list reader" where
  "readNextBytes n bs = (if n \<le> length bs then Inr (take n bs, drop n bs) else Inl (Raise EOFError))"

definition appendUInt8 :: "byte \<Rightarrow> byte list" where
  "appendUInt8 v = [v]"

definition readUInt8 :: "byte reader" where
  "readUInt8 bs = bindR (readNextBytes 1 bs) (\<lambda>(v, r). Inr (hd v, r))"

definition appendUInt16 :: "16 word \<Rightarrow> byte list" where
  "appendUInt16 v = le_bytes 2 (ucast v)"

definition readUInt16 :: "16 word reader" where
  "readUInt16 bs = bindR (readNextBytes 2 bs) (\<lambda>(v, r). Inr (ucast (le_value v), r))"

definition appendUInt32 :: "32 word \<Rightarrow> byte list" where
  "appendUInt32 v = le_bytes 4 (ucast v)"

definition readUInt32 :: "32 word reader" where
  "readUInt32 bs = bindR (readNextBytes 4 bs) (\<lambda>(v, r). Inr (ucast (le_value v), r))"

definition appendUInt64 :: "64 word \<Rightarrow> byte list" where
  "appendUInt64 v = le_bytes 8 v"

definition readUInt64 :: "64 word reader" where
  "readUInt64 bs = bindR (readNextBytes 8 bs) (\<lambda>(v, r). Inr (le_value v, r))"

text \<open>A double travels as the word of its IEEE 754 bytes, which is how a double is modelled.\<close>

definition appendDouble :: "64 word \<Rightarrow> byte list" where
  "appendDouble v = appendUInt64 v"

definition readDouble :: "64 word reader" where
  "readDouble bs = readUInt64 bs"

text \<open>Variable-length integers: seven bits a byte, lowest first, the top bit set on all but the last.\<close>

lemma unat_drop_bit_less: "drop_bit 7 v \<noteq> (0 :: 64 word) \<Longrightarrow> unat (drop_bit 7 v) < unat v"
proof -
  assume "drop_bit 7 v \<noteq> 0"
  then have "unat (drop_bit 7 v) \<noteq> 0" by (simp only: unat_eq_0 not_False_eq_True)
  moreover have "unat (drop_bit 7 v) = unat v div 128"
    unfolding unat_drop_bit_eq by (simp add: drop_bit_eq_div)
  ultimately show ?thesis by (auto intro!: div_less_dividend)
qed

function appendVarUInt :: "64 word \<Rightarrow> byte list" where
  "appendVarUInt v =
     (let b = and (ucast v) 127; v' = drop_bit 7 v in
      if v' \<noteq> 0 then or b 128 # appendVarUInt v' else [b])"
  by pat_completeness auto

termination appendVarUInt
  by (relation "measure unat") (auto simp: unat_drop_bit_less)

declare appendVarUInt.simps [simp del]

text \<open>The reader's shift by \<open>7 * i\<close> has no meaning from the eleventh byte on.\<close>

fun read_var :: "nat \<Rightarrow> 64 word \<Rightarrow> 64 word reader" where
  "read_var i val [] = Inl (Raise EOFError)"
| "read_var i val (b # bs) =
     (if 64 \<le> 7 * i then Inl (Undefined ShiftOutOfRange)
      else
        (let val' = or val (push_bit (7 * i) (ucast (and b 127))) in
         if and b 128 = 0 then Inr (val', bs) else read_var (Suc i) val' bs))"

definition readVarUInt :: "64 word reader" where
  "readVarUInt bs = read_var 0 0 bs"

definition appendString :: "byte list \<Rightarrow> byte list" where
  "appendString s = s"

definition readString :: "64 word \<Rightarrow> byte list reader" where
  "readString n bs = readNextBytes (unat n) bs"

definition appendLenencString :: "byte list \<Rightarrow> byte list" where
  "appendLenencString s = appendVarUInt (of_nat (length s)) @ s"

definition readLenencString :: "byte list reader" where
  "readLenencString bs = bindR (readVarUInt bs) (\<lambda>(n, r). readNextBytes (unat n) r)"

section \<open>The contract of a wire format\<close>

text \<open>
  A writer and a reader for the values that satisfy \<open>ok\<close>: what was written is read back and
  leaves what follows, and a reader that gets only a part of a value reports the end of the stream.
\<close>

locale wire_format =
  fixes ok :: "'a \<Rightarrow> bool" and put :: "'a \<Rightarrow> byte list" and get :: "'a reader"
  assumes get_put: "ok x \<Longrightarrow> get (put x @ r) = Inr (x, r)"
    and get_truncated: "ok x \<Longrightarrow> k < length (put x) \<Longrightarrow> get (take k (put x)) = Inl (Raise EOFError)"
begin

lemma put_prefix_free:
  assumes "ok x" and "ok y" and "put x @ r = put y @ s"
  shows "x = y \<and> r = s"
  using arg_cong [OF assms(3), of get] by (simp add: get_put assms(1,2))

text \<open>A counted sequence of values.\<close>

fun get_many :: "nat \<Rightarrow> 'a list reader" where
  "get_many 0 bs = Inr ([], bs)"
| "get_many (Suc n) bs = bindR (get bs) (\<lambda>(x, r). bindR (get_many n r) (\<lambda>(xs, r'). Inr (x # xs, r')))"

lemma get_many_put:
  "list_all ok xs \<Longrightarrow> get_many (length xs) (concat (map put xs) @ r) = Inr (xs, r)"
  by (induction xs) (simp_all add: get_put)

lemma get_many_truncated:
  "list_all ok xs \<Longrightarrow> k < length (concat (map put xs)) \<Longrightarrow>
     get_many (length xs) (take k (concat (map put xs))) = Inl (Raise EOFError)"
proof (induction xs arbitrary: k)
  case (Cons x xs)
  show ?case
  proof (cases "k < length (put x)")
    case True
    then show ?thesis using Cons.prems by (simp add: get_truncated)
  next
    case False
    then have "take k (concat (map put (x # xs))) = put x @ take (k - length (put x)) (concat (map put xs))"
      by simp
    then show ?thesis using Cons False by (simp add: get_put)
  qed
qed simp

end

lemma readNextBytes_append: "length s = n \<Longrightarrow> readNextBytes n (s @ r) = Inr (s, r)"
  by (simp add: readNextBytes_def)

lemma readNextBytes_short: "length s < n \<Longrightarrow> readNextBytes n s = Inl (Raise EOFError)"
  by (simp add: readNextBytes_def)

lemma take_bit_64 [simp]: "take_bit 64 (v :: 64 word) = v"
  by (rule bit_word_eqI) (simp add: bit_simps)

lemma ucast_le_value:
  assumes "LENGTH('w) = 8 * n" and "LENGTH('w) \<le> 64"
  shows "ucast (le_value (le_bytes n (ucast (v :: 'w::len word)))) = v"
  unfolding le_value_bytes using assms
  by (intro bit_word_eqI) (auto simp: bit_simps)

interpretation u8: wire_format "\<lambda>_. True" appendUInt8 readUInt8
  by unfold_locales (auto simp: appendUInt8_def readUInt8_def readNextBytes_def)

interpretation u16: wire_format "\<lambda>_. True" appendUInt16 readUInt16
  by unfold_locales (auto simp: appendUInt16_def readUInt16_def readNextBytes_append readNextBytes_short
      ucast_le_value)

interpretation u32: wire_format "\<lambda>_. True" appendUInt32 readUInt32
  by unfold_locales (auto simp: appendUInt32_def readUInt32_def readNextBytes_append readNextBytes_short
      ucast_le_value)

interpretation u64: wire_format "\<lambda>_. True" appendUInt64 readUInt64
  by unfold_locales (auto simp: appendUInt64_def readUInt64_def readNextBytes_append readNextBytes_short
      le_value_bytes)

interpretation double: wire_format "\<lambda>_. True" appendDouble readDouble
  using u64.get_put u64.get_truncated
  by unfold_locales (simp_all add: appendDouble_def readDouble_def)

text \<open>The bytes of a variable-length integer.\<close>

lemma bit_127: "bit (127 :: int) n \<longleftrightarrow> n < 7"
proof -
  have "(127 :: int) = mask 7" by (simp add: mask_eq_exp_minus_1)
  then show ?thesis by (simp only: bit_mask_iff) auto
qed

lemma bit_128: "bit (128 :: int) n \<longleftrightarrow> n = 7"
proof -
  have "(128 :: int) = 2 ^ 7" by simp
  then show ?thesis by (simp only: bit_exp_iff) auto
qed

lemma low_bits: "ucast (and (ucast v :: byte) 127) = take_bit 7 (v :: 64 word)"
  "ucast (and (or (and (ucast v :: byte) 127) 128) 127) = take_bit 7 (v :: 64 word)"
  by (rule bit_word_eqI; auto simp: bit_simps bit_127 bit_128)+

lemma top_bit: "and (and b 127) 128 = (0 :: byte)" "and (or b 128) 128 \<noteq> (0 :: byte)"
proof -
  show "and (and b 127) 128 = (0 :: byte)"
    by (rule bit_word_eqI) (auto simp: bit_simps bit_127 bit_128)
  have "bit (and (or b 128) (128 :: byte)) 7"
    by (simp add: bit_simps bit_128)
  then show "and (or b 128) 128 \<noteq> (0 :: byte)" by auto
qed

lemma varint_join:
  "or (or val (push_bit k (take_bit 7 v))) (push_bit (7 + k) (drop_bit 7 v)) = or val (push_bit k (v :: 64 word))"
proof (rule bit_word_eqI)
  fix n
  show "bit (or (or val (push_bit k (take_bit 7 v))) (push_bit (7 + k) (drop_bit 7 v))) n =
      bit (or val (push_bit k v)) n"
  proof (cases "n < k + 7")
    case False
    then have "7 + (n - (k + 7)) = n - k" by simp
    with False show ?thesis by (auto simp: bit_simps)
  qed (auto simp: bit_simps)
qed

lemma varint_more:
  assumes "drop_bit 7 v \<noteq> (0 :: 64 word)" and "unat v < 2 ^ (64 - 7 * i)"
  shows "7 * Suc i < 64" and "unat (drop_bit 7 v) < 2 ^ (64 - 7 * Suc i)"
proof -
  have v: "unat (drop_bit 7 v) = unat v div 128"
    unfolding unat_drop_bit_eq by (simp add: drop_bit_eq_div)
  have ge: "128 \<le> unat v"
    using assms(1) v by (metis div_less not_le unat_eq_0)
  have "64 - 7 * i > 7"
  proof (rule ccontr)
    assume "\<not> 64 - 7 * i > 7"
    then have "(2::nat) ^ (64 - 7 * i) \<le> 2 ^ 7" by (intro power_increasing) simp_all
    with assms(2) ge show False by simp
  qed
  then show less: "7 * Suc i < 64" by simp
  have "(2::nat) ^ (64 - 7 * i) = 2 ^ (64 - 7 * Suc i) * 128"
    using less power_add [of "2 :: nat" "64 - 7 * Suc i" 7] by simp
  with assms(2) show "unat (drop_bit 7 v) < 2 ^ (64 - 7 * Suc i)"
    unfolding v by (simp add: div_less_iff_less_mult)
qed

lemma read_var_append:
  "7 * i < 64 \<Longrightarrow> unat v < 2 ^ (64 - 7 * i) \<Longrightarrow>
     read_var i val (appendVarUInt v @ r) = Inr (or val (push_bit (7 * i) v), r)"
proof (induction v arbitrary: i val rule: appendVarUInt.induct)
  case (1 v)
  show ?case
  proof (cases "drop_bit 7 v = 0")
    case True
    have "take_bit 7 v = v"
      using True by (metis bits_ident add_cancel_right_left push_bit_of_0)
    then show ?thesis using 1(2) True
      by (simp add: appendVarUInt.simps [of v] top_bit low_bits not_le)
  next
    case False
    note more = varint_more [OF False 1(3)]
    show ?thesis
      using 1(1) [OF refl refl False more] 1(2) False varint_join [of val "7 * i" v]
      by (simp add: appendVarUInt.simps [of v] top_bit low_bits not_le)
  qed
qed

lemma readVarUInt_append: "readVarUInt (appendVarUInt v @ r) = Inr (v, r)"
  using read_var_append [of 0 v 0 r] unsigned_less [of v, where 'a = nat] by (simp add: readVarUInt_def)

lemma read_var_truncated:
  "7 * i < 64 \<Longrightarrow> unat v < 2 ^ (64 - 7 * i) \<Longrightarrow> k < length (appendVarUInt v) \<Longrightarrow>
     read_var i val (take k (appendVarUInt v)) = Inl (Raise EOFError)"
proof (induction v arbitrary: i k val rule: appendVarUInt.induct)
  case (1 v)
  show ?case
  proof (cases "k = 0")
    case False
    then obtain j where k: "k = Suc j" by (cases k) auto
    show ?thesis
    proof (cases "drop_bit 7 v = 0")
      case True
      then show ?thesis using 1(4) k by (simp add: appendVarUInt.simps [of v])
    next
      case False
      note more = varint_more [OF False 1(3)]
      have "j < length (appendVarUInt (drop_bit 7 v))"
        using 1(4) k False by (simp add: appendVarUInt.simps [of v])
      from 1(1) [OF refl refl False more this] show ?thesis
        using 1(2) False k by (simp add: appendVarUInt.simps [of v] top_bit not_le)
    qed
  qed simp
qed

lemma readVarUInt_truncated:
  "k < length (appendVarUInt v) \<Longrightarrow> readVarUInt (take k (appendVarUInt v)) = Inl (Raise EOFError)"
  using read_var_truncated [of 0 v k 0] unsigned_less [of v, where 'a = nat] by (simp add: readVarUInt_def)

interpretation varuint: wire_format "\<lambda>_. True" appendVarUInt readVarUInt
  by unfold_locales (rule readVarUInt_append readVarUInt_truncated; assumption?)+

text \<open>Strings whose length a 64-bit integer can hold.\<close>

definition sized :: "byte list \<Rightarrow> bool" where
  "sized s \<longleftrightarrow> length s < 2 ^ 64"

lemma unat_of_nat_sized: "sized s \<Longrightarrow> unat (of_nat (length s) :: 64 word) = length s"
  by (simp add: sized_def unat_of_nat take_bit_nat_eq_self)

interpretation lenenc: wire_format sized appendLenencString readLenencString
proof
  fix x r
  assume "sized x"
  then show "readLenencString (appendLenencString x @ r) = Inr (x, r)"
    by (simp add: readLenencString_def appendLenencString_def varuint.get_put unat_of_nat_sized
        readNextBytes_append)
next
  fix x k
  assume s: "sized x" and k: "k < length (appendLenencString x)"
  let ?v = "appendVarUInt (of_nat (length x))"
  show "readLenencString (take k (appendLenencString x)) = Inl (Raise EOFError)"
  proof (cases "k < length ?v")
    case True
    then show ?thesis
      by (simp add: readLenencString_def appendLenencString_def varuint.get_truncated)
  next
    case False
    then show ?thesis using s k
      by (simp add: readLenencString_def appendLenencString_def varuint.get_put unat_of_nat_sized
          readNextBytes_short)
  qed
qed

section \<open>Mixed streams\<close>

text \<open>A value of any of the kinds the stream classes handle, and the reader for its kind.\<close>

datatype wire_value =
    U8 byte
  | U16 "16 word"
  | U32 "32 word"
  | U64 "64 word"
  | Double "64 word"
  | VarUInt "64 word"
  | Lenenc "byte list"

datatype wire_kind = K_U8 | K_U16 | K_U32 | K_U64 | K_Double | K_VarUInt | K_Lenenc

fun kind_of :: "wire_value \<Rightarrow> wire_kind" where
  "kind_of (U8 _) = K_U8" | "kind_of (U16 _) = K_U16" | "kind_of (U32 _) = K_U32"
| "kind_of (U64 _) = K_U64" | "kind_of (Double _) = K_Double" | "kind_of (VarUInt _) = K_VarUInt"
| "kind_of (Lenenc _) = K_Lenenc"

fun append_value :: "wire_value \<Rightarrow> byte list" where
  "append_value (U8 v) = appendUInt8 v" | "append_value (U16 v) = appendUInt16 v"
| "append_value (U32 v) = appendUInt32 v" | "append_value (U64 v) = appendUInt64 v"
| "append_value (Double v) = appendDouble v" | "append_value (VarUInt v) = appendVarUInt v"
| "append_value (Lenenc s) = appendLenencString s"

definition read_as :: "('a \<Rightarrow> wire_value) \<Rightarrow> 'a reader \<Rightarrow> wire_value reader" where
  "read_as c get bs = bindR (get bs) (\<lambda>(v, r). Inr (c v, r))"

fun read_value :: "wire_kind \<Rightarrow> wire_value reader" where
  "read_value K_U8 = read_as U8 readUInt8" | "read_value K_U16 = read_as U16 readUInt16"
| "read_value K_U32 = read_as U32 readUInt32" | "read_value K_U64 = read_as U64 readUInt64"
| "read_value K_Double = read_as Double readDouble" | "read_value K_VarUInt = read_as VarUInt readVarUInt"
| "read_value K_Lenenc = read_as Lenenc readLenencString"

fun sized_value :: "wire_value \<Rightarrow> bool" where
  "sized_value (Lenenc s) = sized s"
| "sized_value _ = True"

interpretation mixed: wire_format "\<lambda>v. kind_of v = k \<and> sized_value v" append_value "read_value k" for k
proof
  fix x r
  assume "kind_of x = k \<and> sized_value x"
  then show "read_value k (append_value x @ r) = Inr (x, r)"
    by (cases x) (auto simp: read_as_def u8.get_put u16.get_put u32.get_put u64.get_put double.get_put
        varuint.get_put lenenc.get_put)
next
  fix x j
  assume "kind_of x = k \<and> sized_value x" and "j < length (append_value x)"
  then show "read_value k (take j (append_value x)) = Inl (Raise EOFError)"
    by (cases x) (auto simp: read_as_def u8.get_truncated u16.get_truncated u32.get_truncated
        u64.get_truncated double.get_truncated varuint.get_truncated lenenc.get_truncated)
qed

fun read_values :: "wire_kind list \<Rightarrow> wire_value list reader" where
  "read_values [] bs = Inr ([], bs)"
| "read_values (k # ks) bs =
     bindR (read_value k bs) (\<lambda>(v, r). bindR (read_values ks r) (\<lambda>(vs, r'). Inr (v # vs, r')))"

lemma read_values_append:
  "list_all sized_value vs \<Longrightarrow>
     read_values (map kind_of vs) (concat (map append_value vs) @ r) = Inr (vs, r)"
  by (induction vs) (simp_all add: mixed.get_put)

lemma read_values_truncated:
  "list_all sized_value vs \<Longrightarrow> j < length (concat (map append_value vs)) \<Longrightarrow>
     read_values (map kind_of vs) (take j (concat (map append_value vs))) = Inl (Raise EOFError)"
proof (induction vs arbitrary: j)
  case (Cons v vs)
  show ?case
  proof (cases "j < length (append_value v)")
    case True
    then show ?thesis using Cons.prems by (simp add: mixed.get_truncated)
  next
    case False
    then show ?thesis using Cons by (simp add: mixed.get_put)
  qed
qed simp

section \<open>Properties\<close>

text \<open>
  C31. Any sequence of integers, doubles, variable-length integers and length-prefixed strings that
  an \<open>OutputStream\<close> wrote is read back by the \<open>InputStream\<close> calls of the same kinds, which leave
  what follows; a stream that ends before the last byte of the sequence is reported as such.
\<close>

theorem stream_roundtrip:
  assumes "list_all sized_value vs"
  shows "read_values (map kind_of vs) (concat (map append_value vs) @ r) = Inr (vs, r) \<and>
    (\<forall>j < length (concat (map append_value vs)).
       read_values (map kind_of vs) (take j (concat (map append_value vs))) = Inl (Raise EOFError))"
  using read_values_append [OF assms] read_values_truncated [OF assms] by blast

lemma varint_examples: "appendVarUInt 300 = [172, 2]" "appendVarUInt 1 = [1]"
  by (subst appendVarUInt.simps, simp add: Let_def, subst appendVarUInt.simps, simp add: Let_def)
    (subst appendVarUInt.simps, simp add: Let_def)

theorem stream_roundtrip_witness:
  "read_values [K_VarUInt, K_Lenenc, K_U16] [172, 2, 1, 65, 7, 1, 255] =
     Inr ([VarUInt 300, Lenenc [65], U16 263], [255])"
proof -
  have le_2: "le_bytes 2 w = [ucast w, ucast (drop_bit 8 w)]" for w
    by (simp add: numeral_2_eq_2)
  have "append_value (VarUInt 300) = [172, 2]" "append_value (Lenenc [65]) = [1, 65]"
    "append_value (U16 263) = [7, 1]"
    by (simp_all add: varint_examples appendLenencString_def appendUInt16_def le_2)
  moreover have "list_all sized_value [VarUInt 300, Lenenc [65], U16 263]" by (simp add: sized_def)
  ultimately show ?thesis
    using stream_roundtrip [of "[VarUInt 300, Lenenc [65], U16 263]" "[255]"]
    by (simp del: append_value.simps read_value.simps read_values.simps)
qed

text \<open>
  A variable-length integer of ten bytes or fewer is read, but a reader that meets an eleventh
  byte shifts by more than the width of its accumulator: ten bytes that all ask for another one,
  followed by any byte, leave the defined behaviour of the language.
\<close>

lemma varuint_overlong:
  assumes "length bs = 10" and "\<forall>b\<in>set bs. and b 128 \<noteq> 0"
  shows "readVarUInt (bs @ b # r) = Inl (Undefined ShiftOutOfRange)"
proof -
  have "read_var i val (cs @ b # r) = Inl (Undefined ShiftOutOfRange)"
    if "i + length cs = 10" "\<forall>c\<in>set cs. and c 128 \<noteq> 0" for i val cs
    using that
  proof (induction cs arbitrary: i val)
    case (Cons c cs)
    show ?case
    proof (cases "64 \<le> 7 * i")
      case False
      then show ?thesis using Cons.IH [of "Suc i"] Cons.prems by simp
    qed simp
  qed simp
  then show ?thesis using assms by (simp add: readVarUInt_def)
qed

lemma varuint_overlong_witness:
  "readVarUInt [128, 128, 128, 128, 128, 128, 128, 128, 128, 128, 1] = Inl (Undefined ShiftOutOfRange)"
  using varuint_overlong [of "[128, 128, 128, 128, 128, 128, 128, 128, 128, 128]" 1 "[]"] by simp

end
