(* ===== verification/Double.thy ===== *)
theory Double
  imports Prelude
begin

text \<open>
  The \<open>double\<close> of the code: an IEEE 754 binary64 value, as the 64-bit word of its encoding. The
  arithmetic is the standard's: exact results rounded to the nearest representable value, ties to
  even. Finite values are counted in units of \<open>2 ^ -1074\<close>, the smallest positive double, so that
  every finite double is an integer number of units. The result of an invalid operation is the
  quiet NaN that x86-64 delivers, and an operation on a NaN returns it quieted.
\<close>

section \<open>Encoding\<close>

type_synonym dbl = "64 word"

abbreviation int64 :: "64 word \<Rightarrow> int" where
  "int64 \<equiv> sint"

definition mag_of :: "dbl \<Rightarrow> nat" where
  "mag_of x = unat x mod 2 ^ 63"

definition negative :: "dbl \<Rightarrow> bool" where
  "negative x \<longleftrightarrow> 2 ^ 63 \<le> unat x"

definition mag_inf :: nat where
  "mag_inf = 2047 * 2 ^ 52"

definition is_nan :: "dbl \<Rightarrow> bool" where
  "is_nan x \<longleftrightarrow> mag_inf < mag_of x"

definition is_inf :: "dbl \<Rightarrow> bool" where
  "is_inf x \<longleftrightarrow> mag_of x = mag_inf"

definition dbl_make :: "bool \<Rightarrow> nat \<Rightarrow> dbl" where
  "dbl_make s m = of_nat (m + (if s then 2 ^ 63 else 0))"

definition dbl_nan :: dbl where
  "dbl_nan = dbl_make True (mag_inf + 2 ^ 51)"

definition quiet :: "dbl \<Rightarrow> dbl" where
  "quiet x = or x (push_bit 51 1)"

text \<open>The number of units of a finite magnitude: a subnormal counts itself, a normal its significand shifted.\<close>

definition units_of_mag :: "nat \<Rightarrow> nat" where
  "units_of_mag m = (let e = m div 2 ^ 52; f = m mod 2 ^ 52 in
     if e = 0 then f else (2 ^ 52 + f) * 2 ^ (e - 1))"

definition units :: "dbl \<Rightarrow> int" where
  "units x = (if negative x then - int (units_of_mag (mag_of x)) else int (units_of_mag (mag_of x)))"

section \<open>Rounding\<close>

text \<open>The number of binary digits.\<close>

fun bit_len :: "nat \<Rightarrow> nat" where
  "bit_len n = (if n = 0 then 0 else Suc (bit_len (n div 2)))"

declare bit_len.simps [simp del]

definition round_div :: "nat \<Rightarrow> nat \<Rightarrow> nat" where
  "round_div a b = (let q = a div b; r = a mod b in
     if 2 * r < b \<or> 2 * r = b \<and> even q then q else Suc q)"

text \<open>The magnitude nearest to \<open>a / b\<close> units.\<close>

definition round_mag :: "nat \<Rightarrow> nat \<Rightarrow> nat" where
  "round_mag a b = (let e = bit_len (a div b) - 53 in min mag_inf (e * 2 ^ 52 + round_div a (b * 2 ^ e)))"

definition dbl_of_ratio :: "bool \<Rightarrow> nat \<Rightarrow> nat \<Rightarrow> dbl" where
  "dbl_of_ratio s a b = dbl_make s (round_mag a b)"

definition one_units :: nat where
  "one_units = 2 ^ 1074"

section \<open>Operations\<close>

definition dbl_of_int :: "int \<Rightarrow> dbl" where
  "dbl_of_int n = dbl_of_ratio (n < 0) (nat \<bar>n\<bar> * one_units) 1"

definition dbl_neg :: "dbl \<Rightarrow> dbl" where
  "dbl_neg x = dbl_make (\<not> negative x) (mag_of x)"

definition dbl_add :: "dbl \<Rightarrow> dbl \<Rightarrow> dbl" where
  "dbl_add x y =
     (if is_nan x then quiet x else if is_nan y then quiet y
      else if is_inf x then (if is_inf y \<and> negative x \<noteq> negative y then dbl_nan else x)
      else if is_inf y then y
      else (let s = units x + units y in
        if s = 0 then dbl_make (negative x \<and> negative y) 0
        else dbl_of_ratio (s < 0) (nat \<bar>s\<bar>) 1))"

definition dbl_sub :: "dbl \<Rightarrow> dbl \<Rightarrow> dbl" where
  "dbl_sub x y = (if is_nan x then quiet x else if is_nan y then quiet y else dbl_add x (dbl_neg y))"

definition dbl_mul :: "dbl \<Rightarrow> dbl \<Rightarrow> dbl" where
  "dbl_mul x y = (let s = (negative x \<noteq> negative y) in
     if is_nan x then quiet x else if is_nan y then quiet y
     else if is_inf x \<or> is_inf y then
       (if units_of_mag (mag_of x) = 0 \<or> units_of_mag (mag_of y) = 0 then dbl_nan else dbl_make s mag_inf)
     else dbl_of_ratio s (units_of_mag (mag_of x) * units_of_mag (mag_of y)) one_units)"

definition dbl_div :: "dbl \<Rightarrow> dbl \<Rightarrow> dbl" where
  "dbl_div x y = (let s = (negative x \<noteq> negative y) in
     if is_nan x then quiet x else if is_nan y then quiet y
     else if is_inf x then (if is_inf y then dbl_nan else dbl_make s mag_inf)
     else if is_inf y then dbl_make s 0
     else if units_of_mag (mag_of y) = 0 then
       (if units_of_mag (mag_of x) = 0 then dbl_nan else dbl_make s mag_inf)
     else dbl_of_ratio s (units_of_mag (mag_of x) * one_units) (units_of_mag (mag_of y)))"

text \<open>The remainder of C's \<open>fmod\<close>: exact, with the sign of the dividend.\<close>

definition dbl_fmod :: "dbl \<Rightarrow> dbl \<Rightarrow> dbl" where
  "dbl_fmod x y =
     (if is_nan x then quiet x else if is_nan y then quiet y
      else if is_inf x \<or> units_of_mag (mag_of y) = 0 then dbl_nan
      else if is_inf y then x
      else dbl_of_ratio (negative x) (units_of_mag (mag_of x) mod units_of_mag (mag_of y)) 1)"

text \<open>Comparison: false on a NaN; the order of infinities and units otherwise.\<close>

definition dbl_key :: "dbl \<Rightarrow> int" where
  "dbl_key x = (if negative x then - int (mag_of x) else int (mag_of x))"

definition dbl_lt :: "dbl \<Rightarrow> dbl \<Rightarrow> bool" where
  "dbl_lt x y \<longleftrightarrow> \<not> is_nan x \<and> \<not> is_nan y \<and> dbl_key x < dbl_key y"

definition dbl_le :: "dbl \<Rightarrow> dbl \<Rightarrow> bool" where
  "dbl_le x y \<longleftrightarrow> \<not> is_nan x \<and> \<not> is_nan y \<and> dbl_key x \<le> dbl_key y"

definition dbl_eq :: "dbl \<Rightarrow> dbl \<Rightarrow> bool" where
  "dbl_eq x y \<longleftrightarrow> \<not> is_nan x \<and> \<not> is_nan y \<and> dbl_key x = dbl_key y"

text \<open>The conversion to \<open>int64_t\<close> truncates; it has no meaning when the result does not fit.\<close>

definition dbl_trunc :: "dbl \<Rightarrow> int" where
  "dbl_trunc x = (let q = int (units_of_mag (mag_of x) div one_units) in if negative x then - q else q)"

definition dbl_to_int64 :: "dbl \<Rightarrow> 64 word result" where
  "dbl_to_int64 x =
     (if is_nan x \<or> is_inf x \<or> \<not> (- (2 ^ 63) \<le> dbl_trunc x \<and> dbl_trunc x < 2 ^ 63)
      then Inl (Undefined ConversionOutOfRange) else Inr (of_int (dbl_trunc x)))"

definition dbl_to_uint64 :: "dbl \<Rightarrow> 64 word result" where
  "dbl_to_uint64 x =
     (if is_nan x \<or> is_inf x \<or> \<not> (0 \<le> dbl_trunc x \<and> dbl_trunc x < 2 ^ 64)
      then Inl (Undefined ConversionOutOfRange) else Inr (of_int (dbl_trunc x)))"

section \<open>Decimal text\<close>

fun digits_of :: "nat \<Rightarrow> string" where
  "digits_of n = (if n < 10 then [char_of (48 + n)] else digits_of (n div 10) @ [char_of (48 + n mod 10)])"

declare digits_of.simps [simp del]

definition int_to_string :: "int \<Rightarrow> string" where
  "int_to_string n = (if n < 0 then ''-'' @ digits_of (nat (- n)) else digits_of (nat n))"

text \<open>\<open>printf("%f")\<close>: six digits after the point, the exact value rounded half to even.\<close>

definition pad_left :: "nat \<Rightarrow> string \<Rightarrow> string" where
  "pad_left k s = replicate (k - length s) CHR ''0'' @ s"

definition dbl_to_string :: "dbl \<Rightarrow> string" where
  "dbl_to_string x =
     (if negative x then ''-'' else []) @
     (if is_nan x then ''nan'' else if is_inf x then ''inf''
      else (let k = round_div (units_of_mag (mag_of x) * 1000000) one_units in
        digits_of (k div 1000000) @ ''.'' @ pad_left 6 (digits_of (k mod 1000000))))"

section \<open>Exact results\<close>

lemma make_parts:
  assumes "m < 2 ^ 63"
  shows "mag_of (dbl_make s m) = m" and "negative (dbl_make s m) = s"
proof -
  have "m + (if s then 2 ^ 63 else 0) < 2 ^ LENGTH(64)" using assms by simp
  then have "unat (dbl_make s m) = m + (if s then 2 ^ 63 else 0)"
    unfolding dbl_make_def unat_of_nat by (rule mod_less)
  then show "mag_of (dbl_make s m) = m" "negative (dbl_make s m) = s"
    using assms by (auto simp: mag_of_def negative_def)
qed

lemma make_eqI: "mag_of x = mag_of y \<Longrightarrow> negative x = negative y \<Longrightarrow> x = y"
proof -
  assume a: "mag_of x = mag_of y" "negative x = negative y"
  have "unat z = mag_of z + (if negative z then 2 ^ 63 else 0)" for z :: dbl
  proof -
    have "unat z < 2 ^ 64" using unsigned_less [of z, where 'a = nat] by simp
    then show ?thesis by (simp add: mag_of_def negative_def le_mod_geq)
  qed
  with a have "unat x = unat y" by simp
  then show "x = y" by (rule unsigned_word_eqI)
qed

lemma bit_len_bounds: "0 < n \<Longrightarrow> 2 ^ (bit_len n - 1) \<le> n \<and> n < 2 ^ bit_len n \<and> 0 < bit_len n"
proof (induction n rule: bit_len.induct)
  case (1 n)
  show ?case
  proof (cases "n div 2 = 0")
    case True
    with 1(2) have "n = 1" by simp
    moreover have "bit_len 1 = 1" by (subst bit_len.simps, simp, subst bit_len.simps, simp)
    ultimately show ?thesis by simp
  next
    case False
    obtain k where k: "bit_len (n div 2) = Suc k" using 1(1) 1(2) False by (cases "bit_len (n div 2)") auto
    have "bit_len n = Suc (Suc k)" using 1(2) k by (simp add: bit_len.simps [of n])
    moreover have "2 ^ k \<le> n div 2" "n div 2 < 2 ^ Suc k" using 1(1) 1(2) False k by auto
    ultimately show ?thesis by simp linarith
  qed
qed

lemma bit_len_mult: "0 < n \<Longrightarrow> bit_len (n * 2 ^ k) = bit_len n + k"
proof (induction k)
  case (Suc k)
  have "bit_len (n * 2 ^ Suc k) = Suc (bit_len (n * 2 ^ Suc k div 2))"
    using Suc.prems by (subst bit_len.simps) simp
  also have "n * 2 ^ Suc k div 2 = n * 2 ^ k" by simp
  finally show ?case using Suc by simp
qed simp

lemma bit_len_le: "n < 2 ^ k \<Longrightarrow> bit_len n \<le> k"
proof (rule ccontr)
  assume a: "n < 2 ^ k" "\<not> bit_len n \<le> k"
  then have "0 < n" by (cases "n = 0") (auto simp: bit_len.simps [of 0])
  from bit_len_bounds [OF this] have "2 ^ (bit_len n - 1) \<le> n" by simp
  moreover have "(2::nat) ^ k \<le> 2 ^ (bit_len n - 1)" using a(2) by (intro power_increasing) auto
  ultimately have "2 ^ k \<le> n" by (rule order_trans [rotated])
  with a(1) show False by simp
qed

lemma round_div_dvd: "0 < b \<Longrightarrow> round_div (q * b) b = q"
  by (simp add: round_div_def Let_def)

lemma round_mag_exact:
  assumes e: "e = bit_len a - 53" and dvd: "2 ^ e dvd a" and small: "e < 2000"
  shows "units_of_mag (round_mag a 1) = a" and "round_mag a 1 < mag_inf"
proof -
  obtain k where k: "a = k * 2 ^ e" using dvd by (auto elim: dvdE simp: mult.commute)
  have round: "round_mag a 1 = min mag_inf (e * 2 ^ 52 + k)"
  proof -
    have "bit_len (a div 1) - 53 = e" using e by simp
    then have "round_mag a 1 = min mag_inf (e * 2 ^ 52 + round_div a (1 * 2 ^ e))"
      by (simp only: round_mag_def Let_def)
    then show ?thesis using round_div_dvd [of "2 ^ e" k] by (simp add: k)
  qed
  show "units_of_mag (round_mag a 1) = a" "round_mag a 1 < mag_inf"
  proof (atomize (full), cases "a = 0")
    case True
    then have "e = 0" using e by (simp add: bit_len.simps [of 0])
    with True k round show "units_of_mag (round_mag a 1) = a \<and> round_mag a 1 < mag_inf"
      by (simp add: units_of_mag_def mag_inf_def)
  next
    case False
    then have b: "2 ^ (bit_len a - 1) \<le> a" "a < 2 ^ bit_len a" "0 < bit_len a"
      using bit_len_bounds by auto
    have upper: "k < 2 ^ 53"
    proof -
      have "a < 2 ^ (53 + e)" using b(2) e by (elim less_le_trans) (auto intro: power_increasing)
      then show ?thesis by (simp add: k power_add)
    qed
    then have less: "e * 2 ^ 52 + k < mag_inf" using small by (simp add: mag_inf_def)
    with round have r: "round_mag a 1 = e * 2 ^ 52 + k" by simp
    have "units_of_mag (e * 2 ^ 52 + k) = a"
    proof (cases "e = 0")
      case True
      then show ?thesis using upper k
        by (cases "k < 2 ^ 52") (auto simp: units_of_mag_def Let_def div_nat_eqI mod_if le_div_geq le_mod_geq)
    next
      case False
      then have "bit_len a - 1 = 52 + e" using e by simp
      with b(1) have "2 ^ 52 * 2 ^ e \<le> k * 2 ^ e" by (simp add: k power_add)
      then have lower: "2 ^ 52 \<le> k" by simp
      have "(e * 2 ^ 52 + k) div 2 ^ 52 = Suc e" "(e * 2 ^ 52 + k) mod 2 ^ 52 = k - 2 ^ 52"
        using upper lower by (simp_all add: le_div_geq le_mod_geq)
      then show ?thesis using lower k by (simp add: units_of_mag_def Let_def)
    qed
    with r less show "units_of_mag (round_mag a 1) = a \<and> round_mag a 1 < mag_inf" by simp
  qed
qed

text \<open>Integers of at most \<open>2 ^ 53\<close> are doubles, and a sum of two of them that stays in this range is exact.\<close>

lemma round_mag_int:
  assumes "n \<le> 2 ^ 53"
  shows "units_of_mag (round_mag (n * one_units) 1) = n * one_units" and "round_mag (n * one_units) 1 < mag_inf"
proof -
  define e where "e = bit_len (n * one_units) - 53"
  have len: "n = 0 \<or> bit_len (n * one_units) = bit_len n + 1074"
    using bit_len_mult [of n 1074] unfolding one_units_def by blast
  have "bit_len n \<le> 54" using assms by (intro bit_len_le) simp
  with len have small: "e < 2000" by (auto simp: e_def bit_len.simps [of 0])
  have "2 ^ e dvd n * one_units"
  proof (cases "n < 2 ^ 53")
    case True
    then have "bit_len n \<le> 53" by (rule bit_len_le)
    with len have "e \<le> 1074" by (auto simp: e_def bit_len.simps [of 0])
    then have "(2::nat) ^ e dvd one_units" unfolding one_units_def by (rule le_imp_power_dvd)
    then show ?thesis by simp
  next
    case False
    with assms have "n * one_units = 2 ^ 1127" by (simp add: one_units_def)
    moreover have "e \<le> 1127" using len \<open>bit_len n \<le> 54\<close> by (auto simp: e_def)
    ultimately show ?thesis by (simp only: le_imp_power_dvd)
  qed
  from round_mag_exact [OF e_def this small]
  show "units_of_mag (round_mag (n * one_units) 1) = n * one_units" "round_mag (n * one_units) 1 < mag_inf"
    by simp_all
qed

text \<open>The double of an integer in that range, and arithmetic on such doubles.\<close>

definition exact_int :: "int \<Rightarrow> bool" where
  "exact_int n \<longleftrightarrow> \<bar>n\<bar> \<le> 2 ^ 53"

lemma of_int_parts:
  assumes "exact_int n"
  shows "units (dbl_of_int n) = n * int one_units" "\<not> is_nan (dbl_of_int n)" "\<not> is_inf (dbl_of_int n)"
    "negative (dbl_of_int n) \<longleftrightarrow> n < 0"
proof -
  let ?m = "round_mag (nat \<bar>n\<bar> * one_units) 1"
  have le: "nat \<bar>n\<bar> \<le> 2 ^ 53" using assms by (simp add: exact_int_def nat_le_iff)
  note r = round_mag_int [OF le]
  have m: "?m < 2 ^ 63" using r(2) by (simp add: mag_inf_def)
  note parts = make_parts [OF m, of "n < 0"]
  show neg: "negative (dbl_of_int n) \<longleftrightarrow> n < 0"
    by (simp only: dbl_of_int_def dbl_of_ratio_def parts)
  show "\<not> is_nan (dbl_of_int n)" "\<not> is_inf (dbl_of_int n)"
    using r(2) by (simp_all only: is_nan_def is_inf_def dbl_of_int_def dbl_of_ratio_def parts not_less less_imp_le nat_neq_iff) auto
  show "units (dbl_of_int n) = n * int one_units"
  proof -
    have "int (units_of_mag (mag_of (dbl_of_int n))) = \<bar>n\<bar> * int one_units"
      by (simp only: dbl_of_int_def dbl_of_ratio_def parts r(1)) simp
    then show ?thesis by (simp add: units_def neg)
  qed
qed

lemma add_exact:
  assumes "exact_int a" and "exact_int b" and "exact_int (a + b)"
  shows "dbl_add (dbl_of_int a) (dbl_of_int b) = dbl_of_int (a + b)"
proof -
  note A = of_int_parts [OF assms(1)] and B = of_int_parts [OF assms(2)]
  have "units (dbl_of_int a) + units (dbl_of_int b) = (a + b) * int one_units"
    by (simp add: A B algebra_simps)
  moreover have "nat \<bar>(a + b) * int one_units\<bar> = nat \<bar>a + b\<bar> * one_units"
    by (simp add: abs_mult nat_mult_distrib)
  moreover have "0 < one_units" by (simp add: one_units_def)
  moreover have "dbl_make False 0 = dbl_of_ratio False 0 1"
    by (simp add: dbl_of_ratio_def round_mag_def round_div_def bit_len.simps [of 0] mag_inf_def)
  ultimately show ?thesis
    using A B by (auto simp: dbl_add_def Let_def dbl_of_int_def [of "a + b"] zero_less_mult_iff mult_less_0_iff
        distrib_right [symmetric])
qed

lemma trunc_of_int: "exact_int n \<Longrightarrow> dbl_to_int64 (dbl_of_int n) = Inr (of_int n)"
proof -
  assume n: "exact_int n"
  note P = of_int_parts [OF n]
  have "0 < one_units" by (simp add: one_units_def)
  moreover have "int (units_of_mag (mag_of (dbl_of_int n))) = \<bar>n\<bar> * int one_units"
    using P(1,4) by (auto simp: units_def split: if_splits)
  ultimately have "int (units_of_mag (mag_of (dbl_of_int n)) div one_units) = \<bar>n\<bar>"
    by (simp add: zdiv_int)
  then have "dbl_trunc (dbl_of_int n) = n" using P(4) by (simp add: dbl_trunc_def Let_def)
  moreover have "- (2 ^ 63) \<le> n" "n < 2 ^ 63" using n by (auto simp: exact_int_def abs_le_iff)
  ultimately show ?thesis using P(2,3) by (simp add: dbl_to_int64_def)
qed

text \<open>The order of magnitudes is the order of the values.\<close>

lemma units_of_mag_Suc: "units_of_mag m < units_of_mag (Suc m)"
proof -
  define e where "e = m div 2 ^ 52"
  define f where "f = m mod 2 ^ 52"
  have f: "f < 2 ^ 52" by (simp add: f_def)
  have m: "m = e * 2 ^ 52 + f" by (simp add: e_def f_def)
  have m_units: "units_of_mag m = (if e = 0 then f else (2 ^ 52 + f) * 2 ^ (e - 1))"
    by (simp add: units_of_mag_def e_def f_def)
  show ?thesis
  proof (cases "Suc f < 2 ^ 52")
    case True
    then have "Suc m div 2 ^ 52 = e" "Suc m mod 2 ^ 52 = Suc f" by (simp_all add: m)
    then have "units_of_mag (Suc m) = (if e = 0 then Suc f else (2 ^ 52 + Suc f) * 2 ^ (e - 1))"
      by (simp add: units_of_mag_def Let_def)
    then show ?thesis unfolding m_units by simp
  next
    case False
    with f have f': "Suc f = 2 ^ 52" by simp
    then have "Suc m = Suc e * 2 ^ 52" by (simp add: m)
    then have "Suc m div 2 ^ 52 = Suc e" "Suc m mod 2 ^ 52 = 0"
      by (simp_all only: mult.commute [of _ "2 ^ 52"] nonzero_mult_div_cancel_left mod_mult_self1_is_0) auto
    then have "units_of_mag (Suc m) = 2 ^ 52 * 2 ^ e" by (simp add: units_of_mag_def)
    then show ?thesis using f f' by (cases e) (simp_all add: m_units)
  qed
qed

lemma units_of_mag_less_iff: "units_of_mag m < units_of_mag m' \<longleftrightarrow> m < m'"
proof -
  have "strict_mono units_of_mag" by (simp add: strict_mono_Suc_iff units_of_mag_Suc)
  then show ?thesis by (rule strict_mono_less)
qed

lemma units_of_mag_0 [simp]: "units_of_mag 0 = 0"
  by (simp add: units_of_mag_def)

lemma units_of_mag_eq_iff: "units_of_mag m = units_of_mag m' \<longleftrightarrow> m = m'"
  using units_of_mag_less_iff [of m m'] units_of_mag_less_iff [of m' m] by linarith

lemma key_less_iff: "dbl_key x < dbl_key y \<longleftrightarrow> units x < units y"
proof -
  have "0 < units_of_mag (mag_of z) \<longleftrightarrow> 0 < mag_of z" for z
    using units_of_mag_less_iff [of 0 "mag_of z"] by simp
  then show ?thesis
    using units_of_mag_less_iff [of "mag_of x" "mag_of y"] units_of_mag_less_iff [of "mag_of y" "mag_of x"]
    by (auto simp: dbl_key_def units_def)
qed

lemma key_eq_iff: "dbl_key x = dbl_key y \<longleftrightarrow> units x = units y"
  using key_less_iff [of x y] key_less_iff [of y x] by linarith

lemma compare_of_int:
  assumes "exact_int a" and "exact_int b"
  shows "dbl_lt (dbl_of_int a) (dbl_of_int b) \<longleftrightarrow> a < b"
    and "dbl_le (dbl_of_int a) (dbl_of_int b) \<longleftrightarrow> a \<le> b"
    and "dbl_eq (dbl_of_int a) (dbl_of_int b) \<longleftrightarrow> a = b"
proof -
  have "0 < one_units" by (simp add: one_units_def)
  with of_int_parts [OF assms(1)] of_int_parts [OF assms(2)]
  have less: "dbl_key (dbl_of_int a) < dbl_key (dbl_of_int b) \<longleftrightarrow> a < b"
    and eq: "dbl_key (dbl_of_int a) = dbl_key (dbl_of_int b) \<longleftrightarrow> a = b"
    by (simp_all add: key_less_iff key_eq_iff)
  with of_int_parts [OF assms(1)] of_int_parts [OF assms(2)]
  show "dbl_lt (dbl_of_int a) (dbl_of_int b) \<longleftrightarrow> a < b" "dbl_eq (dbl_of_int a) (dbl_of_int b) \<longleftrightarrow> a = b"
    "dbl_le (dbl_of_int a) (dbl_of_int b) \<longleftrightarrow> a \<le> b"
    by (auto simp: dbl_lt_def dbl_eq_def dbl_le_def le_less)
qed

lemma of_int_inject: "exact_int a \<Longrightarrow> exact_int b \<Longrightarrow> dbl_of_int a = dbl_of_int b \<longleftrightarrow> a = b"
  using compare_of_int(3) [of a b] compare_of_int(3) [of a a] by auto

text \<open>Addition is commutative but for the choice between two NaNs.\<close>

lemma add_commute: "\<not> (is_nan x \<and> is_nan y) \<Longrightarrow> dbl_add x y = dbl_add y x"
proof -
  assume n: "\<not> (is_nan x \<and> is_nan y)"
  have "x = y" if "is_inf x" "is_inf y" "negative x = negative y"
    using that by (intro make_eqI) (simp_all add: is_inf_def)
  with n show ?thesis by (auto simp: dbl_add_def Let_def add.commute)
qed

end
