(* ===== verification/SValue.thy ===== *)
theory SValue
  imports Double Streams "HOL-Library.Char_ord"
begin

text \<open>
  SQL values: \<open>csql::SValue\<close> of src/csql/svalue.h and svalue.cc, with the conversions of the C and
  C++ standard library it relies on (\<open>std::stol\<close>, \<open>std::stod\<close>, \<open>gmtime\<close>). The tagged union is a
  datatype; a string is its characters. Values of \<open>std::string\<close> are byte strings, and a character
  stands for its byte.
\<close>

section \<open>Values\<close>

datatype svalue =
    Null
  | Str string
  | Flt dbl
  | Integer "64 word"
  | Bool bool
  | Timestamp "64 word"

datatype svalue_type = T_Null | T_String | T_Float | T_Integer | T_Bool | T_Timestamp

text \<open>The tags of \<open>kSValueType\<close>.\<close>

fun type_tag :: "svalue_type \<Rightarrow> byte" where
  "type_tag T_Null = 0" | "type_tag T_String = 1" | "type_tag T_Float = 2"
| "type_tag T_Integer = 3" | "type_tag T_Bool = 4" | "type_tag T_Timestamp = 5"

fun type_of :: "svalue \<Rightarrow> svalue_type" where
  "type_of Null = T_Null" | "type_of (Str _) = T_String" | "type_of (Flt _) = T_Float"
| "type_of (Integer _) = T_Integer" | "type_of (Bool _) = T_Bool" | "type_of (Timestamp _) = T_Timestamp"

text \<open>A time is microseconds; a timestamp value keeps whole seconds.\<close>

definition kMicrosPerSecond :: "64 word" where
  "kMicrosPerSecond = 1000000"

definition of_time :: "64 word \<Rightarrow> svalue" where
  "of_time micros = Timestamp (micros div kMicrosPerSecond)"

section \<open>Reading numbers from text\<close>

definition is_space :: "char \<Rightarrow> bool" where
  "is_space c \<longleftrightarrow> c = CHR '' '' \<or> (9 \<le> (of_char c :: nat) \<and> (of_char c :: nat) \<le> 13)"

definition lower :: "char \<Rightarrow> char" where
  "lower c = (let n = of_char c :: nat in if 65 \<le> n \<and> n \<le> 90 then char_of (n + 32) else c)"

text \<open>The value of a digit in the given base, if it is one.\<close>

definition digit_value :: "nat \<Rightarrow> char \<Rightarrow> nat option" where
  "digit_value base c =
     (let n = of_char (lower c) :: nat;
          d = (if 48 \<le> n \<and> n \<le> 57 then n - 48 else if 97 \<le> n \<and> n \<le> 102 then n - 87 else base) in
      if d < base then Some d else None)"

definition is_digit_in :: "nat \<Rightarrow> char \<Rightarrow> bool" where
  "is_digit_in base c \<longleftrightarrow> digit_value base c \<noteq> None"

definition digits_value :: "nat \<Rightarrow> string \<Rightarrow> nat" where
  "digits_value base s = foldl (\<lambda>n c. n * base + the (digit_value base c)) 0 s"

text \<open>An optional sign: whether it is a minus, and the rest.\<close>

fun read_sign :: "string \<Rightarrow> bool \<times> string" where
  "read_sign [] = (False, [])"
| "read_sign (c # cs) = (if c = CHR ''-'' then (True, cs) else if c = CHR ''+'' then (False, cs) else (False, c # cs))"

text \<open>
  \<open>std::stol\<close>: leading white space, a sign, digits, and anything after them. No digits or a value
  outside \<open>int64_t\<close> makes it throw, which is \<open>None\<close>.
\<close>

definition stol :: "string \<Rightarrow> int option" where
  "stol s =
     (let (neg, r) = read_sign (dropWhile is_space s); ds = takeWhile (is_digit_in 10) r;
          n = int (digits_value 10 ds); v = (if neg then - n else n) in
      if ds = [] \<or> \<not> (- (2 ^ 63) \<le> v \<and> v < 2 ^ 63) then None else Some v)"

text \<open>Digits with an optional point: all digits, how many follow the point, and the rest.\<close>

definition read_mantissa :: "nat \<Rightarrow> string \<Rightarrow> (nat \<times> nat \<times> string) option" where
  "read_mantissa base s =
     (let ip = takeWhile (is_digit_in base) s; r = dropWhile (is_digit_in base) s;
          frac = (if r \<noteq> [] \<and> hd r = CHR ''.'' then takeWhile (is_digit_in base) (tl r) else []);
          r' = (if r \<noteq> [] \<and> hd r = CHR ''.'' then dropWhile (is_digit_in base) (tl r) else r) in
      if ip = [] \<and> frac = [] then None
      else Some (digits_value base (ip @ frac), length frac, r'))"

text \<open>The exponent after its letter, 0 when there is none.\<close>

definition read_exponent :: "char \<Rightarrow> string \<Rightarrow> int" where
  "read_exponent letter s =
     (if s \<noteq> [] \<and> lower (hd s) = letter then
        (let (neg, r) = read_sign (tl s); n = int (digits_value 10 (takeWhile (is_digit_in 10) r)) in
         if neg then - n else n)
      else 0)"

text \<open>
  The double nearest to \<open>m * b ^ x\<close>. Overflow, and an inexact result below the normal range, are
  the range errors for which \<open>std::stod\<close> throws.
\<close>

definition scaled_double :: "bool \<Rightarrow> nat \<Rightarrow> nat \<Rightarrow> int \<Rightarrow> dbl option" where
  "scaled_double neg m b x =
     (let num = (if 0 \<le> x then m * b ^ nat x * one_units else m * one_units);
          den = (if 0 \<le> x then 1 else b ^ nat (- x));
          r = round_mag num den in
      if r = mag_inf \<or> round_div (2 * num) den < 2 ^ 53 \<and> units_of_mag r * den \<noteq> num then None
      else Some (dbl_make neg r))"

definition starts_with_ci :: "string \<Rightarrow> string \<Rightarrow> bool" where
  "starts_with_ci p s \<longleftrightarrow> take (length p) (map lower s) = p"

text \<open>\<open>std::stod\<close>: infinities, NaN, hexadecimal and decimal numbers, as \<open>strtod\<close> accepts them.\<close>

definition stod :: "string \<Rightarrow> dbl option" where
  "stod s =
     (let (neg, r) = read_sign (dropWhile is_space s) in
      if starts_with_ci ''inf'' r then Some (dbl_make neg mag_inf)
      else if starts_with_ci ''nan'' r then Some (dbl_make neg (mag_inf + 2 ^ 51))
      else case (if starts_with_ci ''0x'' r then read_mantissa 16 (drop 2 r) else None) of
        Some (m, k, r') \<Rightarrow> scaled_double neg m 2 (read_exponent CHR ''p'' r' - 4 * int k)
      | None \<Rightarrow>
          (case read_mantissa 10 r of
             Some (m, k, r') \<Rightarrow> scaled_double neg m 10 (read_exponent CHR ''e'' r' - int k)
           | None \<Rightarrow> None))"

section \<open>Times as text\<close>

text \<open>
  The civil date of a day number since 1970-01-01, as \<open>gmtime\<close> computes it (Gregorian calendar):
  eras of 146097 days, years that begin in March.
\<close>

definition civil_of_days :: "nat \<Rightarrow> nat \<times> nat \<times> nat" where
  "civil_of_days days =
     (let z = days + 719468; era = z div 146097; doe = z mod 146097;
          yoe = (doe - doe div 1460 + doe div 36524 - doe div 146096) div 365;
          doy = doe - (365 * yoe + yoe div 4 - yoe div 100);
          mp = (5 * doy + 2) div 153; d = doy - (153 * mp + 2) div 5 + 1;
          m = (if mp < 10 then mp + 3 else mp - 9);
          y = yoe + era * 400 + (if m \<le> 2 then 1 else 0) in (y, m, d))"

text \<open>\<open>UnixTime::toString\<close> with the format \<open>%Y-%m-%d %H:%M:%S\<close>.\<close>

definition time_to_string :: "64 word \<Rightarrow> string" where
  "time_to_string micros =
     (let secs = unat micros div 1000000; (y, m, d) = civil_of_days (secs div 86400);
          t = secs mod 86400; two = (\<lambda>n. pad_left 2 (digits_of n)) in
      digits_of y @ ''-'' @ two m @ ''-'' @ two d @ '' '' @
      two (t div 3600) @ '':'' @ two (t mod 3600 div 60) @ '':'' @ two (t mod 60))"

section \<open>Conversions\<close>

definition getTimestamp :: "svalue \<Rightarrow> 64 word result" where
  "getTimestamp v = (case v of
      Timestamp t \<Rightarrow> Inr (t * kMicrosPerSecond)
    | Null \<Rightarrow> Inr 0
    | _ \<Rightarrow> Inl (Raise TypeError))"

fun toString :: "svalue \<Rightarrow> string" where
  "toString (Integer n) = int_to_string (int64 n)"
| "toString (Timestamp t) = time_to_string (t * kMicrosPerSecond)"
| "toString (Flt x) = dbl_to_string x"
| "toString (Bool b) = (if b then ''true'' else ''false'')"
| "toString (Str s) = s"
| "toString Null = ''NULL''"

definition getString :: "svalue \<Rightarrow> string" where
  "getString v = (case v of Str s \<Rightarrow> s | _ \<Rightarrow> toString v)"

definition getInteger :: "svalue \<Rightarrow> 64 word result" where
  "getInteger v = (case v of
      Integer n \<Rightarrow> Inr n
    | Timestamp t \<Rightarrow> Inr t
    | Str s \<Rightarrow> (case stol s of Some n \<Rightarrow> Inr (of_int n) | None \<Rightarrow> Inl (Raise TypeError))
    | _ \<Rightarrow> Inl (Raise TypeError))"

definition getFloat :: "svalue \<Rightarrow> dbl result" where
  "getFloat v = (case v of
      Integer n \<Rightarrow> Inr (dbl_of_int (int64 n))
    | Flt x \<Rightarrow> Inr x
    | Str s \<Rightarrow> (case stod s of Some x \<Rightarrow> Inr x | None \<Rightarrow> Inl (Raise TypeError))
    | _ \<Rightarrow> Inl (Raise TypeError))"

definition getBool :: "svalue \<Rightarrow> bool result" where
  "getBool v = (case v of Bool b \<Rightarrow> Inr b | _ \<Rightarrow> Inl (Raise TypeError))"

definition toBool :: "svalue \<Rightarrow> bool result" where
  "toBool v = (case v of
      Integer n \<Rightarrow> Inr (0 < int64 n)
    | Flt x \<Rightarrow> Inr (dbl_lt (dbl_of_int 0) x)
    | Bool b \<Rightarrow> Inr b
    | Str s \<Rightarrow> Inr True
    | Null \<Rightarrow> Inr False
    | Timestamp t \<Rightarrow> Inl (Raise TypeError))"

text \<open>
  \<open>makeUniqueKey\<close> appends the literal \<open>"\x00"\<close> after each value; as a C string it is empty.
\<close>

definition key_separator :: string where
  "key_separator = []"

definition makeUniqueKey :: "svalue list \<Rightarrow> string" where
  "makeUniqueKey vs = concat (map (\<lambda>v. toString v @ key_separator) vs)"

text \<open>\<open>replaceAll\<close> of one character, and the SQL text of a value.\<close>

definition escape_quotes :: "string \<Rightarrow> string" where
  "escape_quotes s = concat (map (\<lambda>c. if c = CHR 0x22 then [CHR 0x5C, CHR 0x22] else [c]) s)"

definition toSQL :: "svalue \<Rightarrow> string" where
  "toSQL v = (case v of
      Timestamp t \<Rightarrow> CHR 0x22 # toString v @ [CHR 0x22]
    | Str s \<Rightarrow> CHR 0x22 # escape_quotes s @ [CHR 0x22]
    | _ \<Rightarrow> toString v)"

section \<open>Type detection\<close>

definition is_decimal :: "char \<Rightarrow> bool" where
  "is_decimal c \<longleftrightarrow> CHR ''0'' \<le> c \<and> c \<le> CHR ''9''"

definition drop_minus :: "string \<Rightarrow> string" where
  "drop_minus s = (if s \<noteq> [] \<and> hd s = CHR ''-'' then tl s else s)"

definition testType_Integer :: "svalue \<Rightarrow> bool" where
  "testType_Integer v \<longleftrightarrow> type_of v = T_Integer \<or>
     (let s = drop_minus (toString v) in s \<noteq> [] \<and> list_all is_decimal s)"

text \<open>The scan for a float stops at the terminating (or an embedded) zero byte; it accepts a lone point and nothing at all.\<close>

fun float_chars :: "bool \<Rightarrow> string \<Rightarrow> bool" where
  "float_chars dot [] = True"
| "float_chars dot (c # cs) =
     (if c = CHR 0x00 then True
      else if is_decimal c then float_chars dot cs
      else if c = CHR ''.'' \<or> c = CHR '','' then (if dot then False else float_chars True cs)
      else False)"

definition testType_Float :: "svalue \<Rightarrow> bool" where
  "testType_Float v \<longleftrightarrow> type_of v = T_Float \<or> float_chars False (drop_minus (toString v))"

definition testTypeWithNumericConversion :: "svalue \<Rightarrow> svalue_type" where
  "testTypeWithNumericConversion v =
     (if testType_Integer v then T_Integer else if testType_Float v then T_Float else type_of v)"

text \<open>The conversions in place: the value afterwards, and whether it was converted.\<close>

definition tryNumericConversion :: "svalue \<Rightarrow> (svalue \<times> bool) result" where
  "tryNumericConversion v =
     (if testType_Integer v then bindR (getInteger v) (\<lambda>n. Inr (Integer n, True))
      else if testType_Float v then bindR (getFloat v) (\<lambda>x. Inr (Flt x, True))
      else Inr (v, False))"

definition tryTimeConversion :: "svalue \<Rightarrow> (svalue \<times> bool) result" where
  "tryTimeConversion v =
     bindR (tryNumericConversion v) (\<lambda>(w, ok).
       if \<not> ok then Inr (w, False)
       else case w of
         Integer n \<Rightarrow> Inr (Timestamp n, True)
       | Flt x \<Rightarrow> bindR (dbl_to_uint64 x) (\<lambda>t. Inr (Timestamp t, True))
       | _ \<Rightarrow> Inl (Raise TypeError))"

section \<open>Serialization\<close>

definition bytes_of_string :: "string \<Rightarrow> byte list" where
  "bytes_of_string s = map of_char s"

definition string_of_bytes :: "byte list \<Rightarrow> string" where
  "string_of_bytes bs = map (\<lambda>b. char_of (unat b)) bs"

definition encode :: "svalue \<Rightarrow> byte list" where
  "encode v = appendUInt8 (type_tag (type_of v)) @
     (case v of
        Str s \<Rightarrow> appendLenencString (bytes_of_string s)
      | Flt x \<Rightarrow> appendDouble x
      | Integer n \<Rightarrow> appendUInt64 n
      | Bool b \<Rightarrow> appendUInt8 (if b then 1 else 0)
      | Timestamp t \<Rightarrow> appendUInt64 t
      | Null \<Rightarrow> [])"

text \<open>\<open>decode\<close> overwrites the value \<open>old\<close>; a tag it does not know leaves it as it was.\<close>

definition decode :: "svalue \<Rightarrow> svalue reader" where
  "decode old bs =
     bindR (readUInt8 bs) (\<lambda>(tag, r).
       if tag = 1 then bindR (readLenencString r) (\<lambda>(s, r'). Inr (Str (string_of_bytes s), r'))
       else if tag = 2 then bindR (readDouble r) (\<lambda>(x, r'). Inr (Flt x, r'))
       else if tag = 3 then bindR (readUInt64 r) (\<lambda>(n, r'). Inr (Integer n, r'))
       else if tag = 4 then bindR (readUInt8 r) (\<lambda>(b, r'). Inr (Bool (b = 1), r'))
       else if tag = 5 then bindR (readUInt64 r) (\<lambda>(t, r'). Inr (of_time (t * kMicrosPerSecond), r'))
       else if tag = 0 then Inr (Null, r)
       else Inr (old, r))"

section \<open>Round trips\<close>

lemma string_of_bytes_of_string [simp]: "string_of_bytes (bytes_of_string s) = s"
proof -
  have "char_of (unat (of_char c :: byte)) = c" for c
  proof -
    have "(of_char c :: byte) = of_nat (of_char c)" by (rule of_nat_of_char [symmetric])
    then have "unat (of_char c :: byte) = of_char c mod 256"
      by (simp only: unat_of_nat) simp
    also have "\<dots> = of_char c" by simp
    finally have "unat (of_char c :: byte) = of_char c" .
    then show ?thesis by simp
  qed
  then show ?thesis by (simp add: string_of_bytes_def bytes_of_string_def comp_def)
qed

text \<open>The characters of a printed integer, and reading them back.\<close>

lemma char_of_eq: "char_of (n :: nat) = c \<longleftrightarrow> n mod 256 = of_char c"
  by (metis char_of_char of_char_of)

lemma digit_char:
  assumes "d < 10"
  shows "digit_value 10 (char_of (48 + d :: nat)) = Some d" "is_decimal (char_of (48 + d :: nat))"
    "\<not> is_space (char_of (48 + d :: nat))" "char_of (48 + d :: nat) \<noteq> CHR ''-''" "char_of (48 + d :: nat) \<noteq> CHR ''+''"
proof -
  have "d \<in> {0, 1, 2, 3, 4, 5, 6, 7, 8, 9}" using assms by auto
  then show "digit_value 10 (char_of (48 + d)) = Some d" "is_decimal (char_of (48 + d))"
    "\<not> is_space (char_of (48 + d))" "char_of (48 + d) \<noteq> CHR ''-''" "char_of (48 + d) \<noteq> CHR ''+''"
    by (auto simp: digit_value_def lower_def is_decimal_def is_space_def less_eq_char_def char_of_eq)
qed

lemma digits_of_props:
  "digits_of n \<noteq> []" "digits_value 10 (digits_of n) = n"
  "list_all (\<lambda>c. \<exists>d<10. c = char_of (48 + d :: nat)) (digits_of n)"
proof (induction n rule: digits_of.induct)
  case (1 n)
  {
    case 1
    show ?case by (subst digits_of.simps) simp
  next
    case 2
    show ?case
      using 1(2) digit_char(1)
      by (subst digits_of.simps) (auto simp: digits_value_def)
  next
    case 3
    show ?case using 1(3) by (subst digits_of.simps) (auto intro: exI [of _ "n mod 10"] exI [of _ n])
  }
qed

lemma digits_all:
  "list_all is_decimal (digits_of n)" "list_all (is_digit_in 10) (digits_of n)"
  "\<not> is_space (hd (digits_of n))" "hd (digits_of n) \<noteq> CHR ''-''" "hd (digits_of n) \<noteq> CHR ''+''"
proof -
  show "list_all is_decimal (digits_of n)" "list_all (is_digit_in 10) (digits_of n)"
    using digits_of_props(3) [of n] digit_char by (auto simp: list_all_iff is_digit_in_def)
  obtain d where "d < 10" "hd (digits_of n) = char_of (48 + d :: nat)"
    using digits_of_props(1,3) [of n] by (cases "digits_of n") auto
  then show "\<not> is_space (hd (digits_of n))" "hd (digits_of n) \<noteq> CHR ''-''" "hd (digits_of n) \<noteq> CHR ''+''"
    using digit_char by simp_all
qed

lemma read_sign_digits: "read_sign (digits_of n) = (False, digits_of n)"
  using digits_of_props(1) [of n] digits_all(4,5) [of n] by (cases "digits_of n") simp_all

lemma not_space_drop: "s \<noteq> [] \<Longrightarrow> \<not> is_space (hd s) \<Longrightarrow> dropWhile is_space s = s"
  by (cases s) simp_all

lemma stol_int_to_string:
  assumes "- (2 ^ 63) \<le> n" and "n < 2 ^ 63"
  shows "stol (int_to_string n) = Some n"
proof -
  have all: "takeWhile (is_digit_in 10) (digits_of k) = digits_of k" for k
    using digits_all(2) [of k] by (simp add: takeWhile_eq_all_conv list_all_iff)
  show ?thesis
  proof (cases "n < 0")
    case True
    have "\<not> is_space CHR ''-''" by (simp add: is_space_def)
    then show ?thesis
      using True assms digits_of_props(1,2) by (simp add: stol_def int_to_string_def all)
  next
    case False
    then show ?thesis
      using assms digits_of_props(1,2) digits_all(3)
      by (simp add: stol_def int_to_string_def not_space_drop read_sign_digits all)
  qed
qed

lemma testType_int_to_string: "testType_Integer (Str (int_to_string n))"
proof -
  have "drop_minus (digits_of k) = digits_of k" for k
    using digits_all(4) [of k] by (simp add: drop_minus_def)
  then have "drop_minus (int_to_string n) = digits_of (nat \<bar>n\<bar>)"
    using digits_all(4) [of "nat n"] by (simp add: int_to_string_def drop_minus_def)
  then show ?thesis
    using digits_of_props(1) digits_all(1) by (simp add: testType_Integer_def)
qed

lemma sint_bounds: "- (2 ^ 63) \<le> int64 w" "int64 w < 2 ^ 63"
  using sint_ge [of w] sint_less [of w] by simp_all

text \<open>A value that its encoding carries whole: a string of a 64-bit length, a time in range.\<close>

definition encodable :: "svalue \<Rightarrow> bool" where
  "encodable v = (case v of Str s \<Rightarrow> length s < 2 ^ 64 | Timestamp t \<Rightarrow> unat t * 1000000 < 2 ^ 64 | _ \<Rightarrow> True)"

lemma of_time_roundtrip: "unat t * 1000000 < 2 ^ 64 \<Longrightarrow> of_time (t * kMicrosPerSecond) = Timestamp t"
proof -
  assume a: "unat t * 1000000 < 2 ^ 64"
  have "unat (t * kMicrosPerSecond) = unat t * 1000000"
    using a by (simp add: kMicrosPerSecond_def unat_word_ariths)
  then have "unat (t * kMicrosPerSecond div kMicrosPerSecond) = unat t"
    by (simp only: unat_div_distrib) (simp add: kMicrosPerSecond_def)
  then have "t * kMicrosPerSecond div kMicrosPerSecond = t" by (rule unsigned_word_eqI)
  then show ?thesis by (simp add: of_time_def)
qed

lemma sized_string: "sized (bytes_of_string s) \<longleftrightarrow> length s < 2 ^ 64"
  by (simp add: sized_def bytes_of_string_def)

lemma decode_Nil: "decode old [] = Inl (Raise EOFError)"
  by (simp add: decode_def readUInt8_def readNextBytes_def)

lemma readUInt8_Cons: "readUInt8 (b # r) = Inr (b, r)"
  by (simp add: readUInt8_def readNextBytes_def)

interpretation value_codec: wire_format encodable encode "decode old" for old
proof
  fix x r
  assume "encodable x"
  then show "decode old (encode x @ r) = Inr (x, r)"
    by (cases x) (auto simp: encode_def appendUInt8_def decode_def readUInt8_Cons encodable_def
        u64.get_put double.get_put lenenc.get_put sized_string of_time_roundtrip)
next
  fix x k
  assume x: "encodable x" and k: "k < length (encode x)"
  show "decode old (take k (encode x)) = Inl (Raise EOFError)"
  proof (cases k)
    case (Suc j)
    with x k show ?thesis
      by (cases x) (auto simp: encode_def appendUInt8_def decode_def readUInt8_Cons encodable_def
          u64.get_truncated double.get_truncated lenenc.get_truncated sized_string readUInt8_def readNextBytes_def)
  qed (simp add: decode_Nil)
qed

section \<open>Properties\<close>



text \<open>
  The text of an integer reads back as the integer: \<open>toString\<close> of it is recognised as an integer
  literal, and the numeric conversion of that text gives the same value, for every 64-bit integer.
\<close>

theorem integer_text_roundtrip:
  "toString (Integer w) = int_to_string (int64 w) \<and>
   testTypeWithNumericConversion (Str (toString (Integer w))) = T_Integer \<and>
   getInteger (Str (toString (Integer w))) = Inr w \<and>
   tryNumericConversion (Str (toString (Integer w))) = Inr (Integer w, True)"
  using testType_int_to_string [of "int64 w"] stol_int_to_string [OF sint_bounds]
  by (simp add: testTypeWithNumericConversion_def tryNumericConversion_def getInteger_def)

text \<open>
  Texts that hold no digit are taken for floats by the type test, the empty text and a lone sign
  or point among them, and their conversion then fails with a type error: the test promises more than the
  conversion can do.
\<close>

lemma float_test_accepts_non_numbers:
  assumes "s = [] \<or> s = ''-'' \<or> s = ''.'' \<or> s = '','' \<or> s = ''-.''"
  shows "testTypeWithNumericConversion (Str s) = T_Float \<and> getFloat (Str s) = Inl (Raise TypeError) \<and>
     tryNumericConversion (Str s) = Inl (Raise TypeError)"
  using assms
  by (auto simp: testTypeWithNumericConversion_def tryNumericConversion_def testType_Integer_def
      testType_Float_def drop_minus_def getFloat_def stod_def starts_with_ci_def read_mantissa_def
      is_digit_in_def digit_value_def lower_def is_space_def is_decimal_def less_eq_char_def)

lemma float_test_accepts_non_numbers_witness:
  "testTypeWithNumericConversion (Str []) = T_Float \<and> getFloat (Str []) = Inl (Raise TypeError)"
  using float_test_accepts_non_numbers [of "[]"] by simp

end
