(* ===== verification/Expr_Boolean.thy ===== *)
theory Expr_Boolean
  imports SValue
begin

text \<open>
  The boolean and comparison functions of src/csql/expressions/boolean.cc. A pure SQL function takes
  its arguments and the value of its output variable, and returns the new value of the output; a
  path of the code that returns without assigning leaves the output as it was.
\<close>

section \<open>Functions\<close>

type_synonym pure_function = "svalue list \<Rightarrow> svalue \<Rightarrow> svalue result"

text \<open>The order of \<open>std::string\<close>: lexicographic on unsigned bytes.\<close>

fun str_less :: "string \<Rightarrow> string \<Rightarrow> bool" where
  "str_less [] [] = False"
| "str_less [] (d # ds) = True"
| "str_less (c # cs) [] = False"
| "str_less (c # cs) (d # ds) =
     ((of_char c :: nat) < of_char d \<or> c = d \<and> str_less cs ds)"

definition str_less_eq :: "string \<Rightarrow> string \<Rightarrow> bool" where
  "str_less_eq a b \<longleftrightarrow> \<not> str_less b a"

text \<open>A check for two (or one) arguments before anything else.\<close>

definition binary :: "(svalue \<Rightarrow> svalue \<Rightarrow> svalue \<Rightarrow> svalue result) \<Rightarrow> pure_function" where
  "binary f argv out = (case argv of [l, r] \<Rightarrow> f l r out | _ \<Rightarrow> Inl (Raise RuntimeError))"

definition unary :: "(svalue \<Rightarrow> svalue \<Rightarrow> svalue result) \<Rightarrow> pure_function" where
  "unary f argv out = (case argv of [v] \<Rightarrow> f v out | _ \<Rightarrow> Inl (Raise RuntimeError))"

text \<open>The end of every comparison: strings by their text, anything else is an error.\<close>

definition compare_text :: "(string \<Rightarrow> string \<Rightarrow> bool) \<Rightarrow> svalue \<Rightarrow> svalue \<Rightarrow> svalue result" where
  "compare_text cmp l r =
     (if type_of l = T_String \<or> type_of r = T_String then Inr (Bool (cmp (toString l) (toString r)))
      else Inl (Raise RuntimeError))"

definition compare_integers :: "(int \<Rightarrow> int \<Rightarrow> bool) \<Rightarrow> svalue \<Rightarrow> svalue \<Rightarrow> svalue result" where
  "compare_integers cmp l r =
     bindR (getInteger l) (\<lambda>a. bindR (getInteger r) (\<lambda>b. Inr (Bool (cmp (int64 a) (int64 b)))))"

definition compare_floats :: "(dbl \<Rightarrow> dbl \<Rightarrow> bool) \<Rightarrow> svalue \<Rightarrow> svalue \<Rightarrow> svalue result" where
  "compare_floats cmp l r = bindR (getFloat l) (\<lambda>a. bindR (getFloat r) (\<lambda>b. Inr (Bool (cmp a b))))"

definition eqExpr :: pure_function where
  "eqExpr = binary (\<lambda>l r out.
     case type_of l of
       T_Integer \<Rightarrow> (case type_of r of
           T_Integer \<Rightarrow> compare_integers (=) l r
         | T_Timestamp \<Rightarrow> compare_integers (=) l r
         | T_Float \<Rightarrow> compare_floats dbl_eq l r
         | T_Null \<Rightarrow> Inr (Bool False)
         | _ \<Rightarrow> compare_text (=) l r)
     | T_Timestamp \<Rightarrow> (case type_of r of
           T_Integer \<Rightarrow> compare_integers (=) l r
         | T_Timestamp \<Rightarrow> compare_integers (=) l r
         | T_Float \<Rightarrow> compare_floats dbl_eq l r
         | T_Null \<Rightarrow> Inr (Bool False)
         | _ \<Rightarrow> compare_text (=) l r)
     | T_Float \<Rightarrow> (case type_of r of
           T_Integer \<Rightarrow> compare_floats dbl_eq l r
         | T_Float \<Rightarrow> compare_floats dbl_eq l r
         | T_Timestamp \<Rightarrow> compare_floats dbl_eq l r
         | T_Null \<Rightarrow> Inr (Bool False)
         | _ \<Rightarrow> compare_text (=) l r)
     | T_Null \<Rightarrow> Inr (Bool (type_of r = T_Null))
     | T_Bool \<Rightarrow> (case type_of r of
           T_Bool \<Rightarrow> bindR (getBool l) (\<lambda>a. bindR (getBool r) (\<lambda>b. Inr (Bool (a = b))))
         | _ \<Rightarrow> Inr out)
     | T_String \<Rightarrow> compare_text (=) l r)"

text \<open>\<open>neqExpr\<close> negates the result \<open>eqExpr\<close> leaves in a fresh value.\<close>

definition neqExpr :: pure_function where
  "neqExpr argv out =
     bindR (eqExpr argv Null) (\<lambda>ret. bindR (getBool ret) (\<lambda>b. Inr (Bool (\<not> b))))"

definition andExpr :: pure_function where
  "andExpr = binary (\<lambda>l r out.
     bindR (toBool l) (\<lambda>a. if a then bindR (toBool r) (\<lambda>b. Inr (Bool b)) else Inr (Bool False)))"

definition orExpr :: pure_function where
  "orExpr = binary (\<lambda>l r out.
     bindR (toBool l) (\<lambda>a. if a then Inr (Bool True) else bindR (toBool r) (\<lambda>b. Inr (Bool b))))"

text \<open>Negating the least integer overflows; \<open>-1.0f\<close> is exactly representable.\<close>

definition negExpr :: pure_function where
  "negExpr = unary (\<lambda>v out.
     case v of
       Integer n \<Rightarrow> (if int64 n = - (2 ^ 63) then Inl (Undefined SignedOverflow) else Inr (Integer (- n)))
     | Flt x \<Rightarrow> Inr (Flt (dbl_mul x (dbl_of_int (-1))))
     | Bool b \<Rightarrow> Inr (Bool (\<not> b))
     | Null \<Rightarrow> Inr Null
     | _ \<Rightarrow> Inl (Raise RuntimeError))"

text \<open>
  The four order comparisons share their shape; they differ in the operator and in the result for two
  nulls. A null operand counts as \<open>0.0\<close> against a number.
\<close>

definition order_expr ::
  "(int \<Rightarrow> int \<Rightarrow> bool) \<Rightarrow> (dbl \<Rightarrow> dbl \<Rightarrow> bool) \<Rightarrow> (string \<Rightarrow> string \<Rightarrow> bool) \<Rightarrow> bool \<Rightarrow> pure_function" where
  "order_expr cmp_i cmp_f cmp_s nulls = binary (\<lambda>l r out.
     let zero = dbl_of_int 0 in
     case type_of l of
       T_Integer \<Rightarrow> (case type_of r of
           T_Integer \<Rightarrow> compare_integers cmp_i l r
         | T_Timestamp \<Rightarrow> compare_integers cmp_i l r
         | T_Float \<Rightarrow> compare_floats cmp_f l r
         | T_Null \<Rightarrow> bindR (getFloat l) (\<lambda>a. Inr (Bool (cmp_f a zero)))
         | _ \<Rightarrow> compare_text cmp_s l r)
     | T_Timestamp \<Rightarrow> (case type_of r of
           T_Integer \<Rightarrow> compare_integers cmp_i l r
         | T_Timestamp \<Rightarrow> compare_integers cmp_i l r
         | T_Float \<Rightarrow> compare_floats cmp_f l r
         | T_Null \<Rightarrow> bindR (getFloat l) (\<lambda>a. Inr (Bool (cmp_f a zero)))
         | _ \<Rightarrow> compare_text cmp_s l r)
     | T_Float \<Rightarrow> (case type_of r of
           T_Integer \<Rightarrow> compare_floats cmp_f l r
         | T_Float \<Rightarrow> compare_floats cmp_f l r
         | T_Timestamp \<Rightarrow> compare_floats cmp_f l r
         | T_Null \<Rightarrow> bindR (getFloat l) (\<lambda>a. Inr (Bool (cmp_f a zero)))
         | _ \<Rightarrow> compare_text cmp_s l r)
     | T_Null \<Rightarrow> (case type_of r of
           T_Integer \<Rightarrow> bindR (getFloat r) (\<lambda>b. Inr (Bool (cmp_f zero b)))
         | T_Float \<Rightarrow> bindR (getFloat r) (\<lambda>b. Inr (Bool (cmp_f zero b)))
         | T_Timestamp \<Rightarrow> bindR (getFloat r) (\<lambda>b. Inr (Bool (cmp_f zero b)))
         | T_Null \<Rightarrow> Inr (Bool nulls)
         | _ \<Rightarrow> compare_text cmp_s l r)
     | _ \<Rightarrow> compare_text cmp_s l r)"

definition ltExpr :: pure_function where
  "ltExpr = order_expr (<) dbl_lt str_less False"

definition lteExpr :: pure_function where
  "lteExpr = order_expr (\<le>) dbl_le str_less_eq True"

definition gtExpr :: pure_function where
  "gtExpr = order_expr (>) (\<lambda>a b. dbl_lt b a) (\<lambda>a b. str_less b a) False"

definition gteExpr :: pure_function where
  "gteExpr = order_expr (\<ge>) (\<lambda>a b. dbl_le b a) (\<lambda>a b. str_less_eq b a) True"

section \<open>The order of strings and doubles\<close>

lemma str_less_irrefl: "\<not> str_less a a"
  by (induction a) simp_all

lemma str_trichotomy: "str_less a b \<or> a = b \<or> str_less b a"
proof (induction a b rule: str_less.induct)
  case (4 c cs d ds)
  have "(of_char c :: nat) < of_char d \<or> c = d \<or> (of_char d :: nat) < of_char c"
    by (metis linorder_neqE_nat of_char_eq_iff)
  with 4 show ?case by auto
qed simp_all

lemma str_less_asym: "str_less a b \<Longrightarrow> \<not> str_less b a"
  by (induction a b rule: str_less.induct) auto

lemma dbl_trichotomy:
  assumes "\<not> is_nan x" and "\<not> is_nan y"
  shows "dbl_lt x y \<or> dbl_eq x y \<or> dbl_lt y x"
    and "dbl_le x y \<longleftrightarrow> dbl_lt x y \<or> dbl_eq x y"
    and "\<not> (dbl_lt x y \<and> dbl_eq x y)" and "\<not> (dbl_lt x y \<and> dbl_lt y x)" and "dbl_eq x y = dbl_eq y x"
  using assms by (auto simp: dbl_lt_def dbl_eq_def dbl_le_def)

lemma int64_eq_iff: "int64 a = int64 b \<longleftrightarrow> a = b"
  by (metis signed_word_eqI)

section \<open>Comparisons agree with each other\<close>

text \<open>
  \<open>agree l r\<close>: the six comparisons of \<open>l\<close> and \<open>r\<close> all give a truth value, exactly one of less,
  equal and greater holds, and the other three follow from these.
\<close>

definition agree :: "svalue \<Rightarrow> svalue \<Rightarrow> svalue \<Rightarrow> bool" where
  "agree l r out \<longleftrightarrow> (\<exists>a b c.
     ltExpr [l, r] out = Inr (Bool a) \<and> eqExpr [l, r] out = Inr (Bool b) \<and>
     gtExpr [l, r] out = Inr (Bool c) \<and> lteExpr [l, r] out = Inr (Bool (a \<or> b)) \<and>
     gteExpr [l, r] out = Inr (Bool (b \<or> c)) \<and> neqExpr [l, r] out = Inr (Bool (\<not> b)) \<and>
     (a \<or> b \<or> c) \<and> \<not> (a \<and> b) \<and> \<not> (a \<and> c) \<and> \<not> (b \<and> c))"

lemmas comparison_defs = ltExpr_def gtExpr_def lteExpr_def gteExpr_def neqExpr_def eqExpr_def
  order_expr_def binary_def getBool_def

definition number_of :: "svalue \<Rightarrow> dbl option" where
  "number_of v = (case v of Integer n \<Rightarrow> Some (dbl_of_int (int64 n)) | Flt x \<Rightarrow> Some x | _ \<Rightarrow> None)"

text \<open>
  The pairs a query can compare: two integers or timestamps, two numbers of which one is a float and
  none is NaN, and a string with anything that is no null and, on the left, no truth value.
\<close>

definition comparable :: "svalue \<Rightarrow> svalue \<Rightarrow> bool" where
  "comparable l r \<longleftrightarrow>
     type_of l \<in> {T_Integer, T_Timestamp} \<and> type_of r \<in> {T_Integer, T_Timestamp} \<or>
     (\<exists>x y. number_of l = Some x \<and> number_of r = Some y \<and> \<not> is_nan x \<and> \<not> is_nan y \<and>
        (type_of l = T_Float \<or> type_of r = T_Float)) \<or>
     type_of l = T_String \<and> type_of r \<noteq> T_Null \<or>
     type_of r = T_String \<and> type_of l \<noteq> T_Null \<and> type_of l \<noteq> T_Bool"

lemma agree_integers:
  assumes "type_of l \<in> {T_Integer, T_Timestamp}" and "type_of r \<in> {T_Integer, T_Timestamp}"
  shows "agree l r out"
  using assms
  by (cases l; cases r) (auto simp: agree_def comparison_defs compare_integers_def getInteger_def int64_eq_iff le_less Let_def)

lemma agree_floats:
  assumes "number_of l = Some x" and "number_of r = Some y" and "\<not> is_nan x" and "\<not> is_nan y"
    and "type_of l = T_Float \<or> type_of r = T_Float"
  shows "agree l r out"
proof -
  have "ltExpr [l, r] out = Inr (Bool (dbl_lt x y))" "eqExpr [l, r] out = Inr (Bool (dbl_eq x y))"
    "gtExpr [l, r] out = Inr (Bool (dbl_lt y x))" "lteExpr [l, r] out = Inr (Bool (dbl_le x y))"
    "gteExpr [l, r] out = Inr (Bool (dbl_le y x))" "neqExpr [l, r] out = Inr (Bool (\<not> dbl_eq x y))"
    using assms(1,2,5)
    by (cases l; cases r; simp add: comparison_defs compare_floats_def getFloat_def number_of_def)+
  moreover have "dbl_le x y = (dbl_lt x y \<or> dbl_eq x y)" "dbl_le y x = (dbl_eq x y \<or> dbl_lt y x)"
    using dbl_trichotomy [OF assms(3,4)] dbl_trichotomy [OF assms(4,3)] by blast+
  moreover have "dbl_lt x y \<or> dbl_eq x y \<or> dbl_lt y x" "\<not> (dbl_lt x y \<and> dbl_eq x y)"
    "\<not> (dbl_lt x y \<and> dbl_lt y x)" "\<not> (dbl_eq x y \<and> dbl_lt y x)"
    using dbl_trichotomy [OF assms(3,4)] dbl_trichotomy [OF assms(4,3)] by blast+
  ultimately show ?thesis unfolding agree_def
    by - (rule exI [of _ "dbl_lt x y"], rule exI [of _ "dbl_eq x y"], rule exI [of _ "dbl_lt y x"],
      intro conjI; simp)
qed

lemma agree_strings:
  assumes "type_of l = T_String \<and> type_of r \<noteq> T_Null \<or> type_of r = T_String \<and> type_of l \<noteq> T_Null \<and> type_of l \<noteq> T_Bool"
  shows "agree l r out"
proof -
  let ?a = "toString l" and ?b = "toString r"
  have "ltExpr [l, r] out = Inr (Bool (str_less ?a ?b))" "eqExpr [l, r] out = Inr (Bool (?a = ?b))"
    "gtExpr [l, r] out = Inr (Bool (str_less ?b ?a))" "lteExpr [l, r] out = Inr (Bool (\<not> str_less ?b ?a))"
    "gteExpr [l, r] out = Inr (Bool (\<not> str_less ?a ?b))" "neqExpr [l, r] out = Inr (Bool (?a \<noteq> ?b))"
    using assms
    by (cases l; cases r; simp add: comparison_defs compare_text_def str_less_eq_def)+
  moreover have "\<not> str_less ?b ?a \<longleftrightarrow> str_less ?a ?b \<or> ?a = ?b" "\<not> str_less ?a ?b \<longleftrightarrow> ?a = ?b \<or> str_less ?b ?a"
    using str_trichotomy [of ?a ?b] str_less_asym [of ?a ?b] str_less_irrefl [of ?a] by auto
  moreover note str_trichotomy [of ?a ?b]
  moreover have "\<not> (str_less ?a ?b \<and> ?a = ?b)" "\<not> (str_less ?a ?b \<and> str_less ?b ?a)" "\<not> (?a = ?b \<and> str_less ?b ?a)"
    using str_less_asym [of ?a ?b] str_less_irrefl [of ?a] by auto
  ultimately show ?thesis unfolding agree_def
    by - (rule exI [of _ "str_less ?a ?b"], rule exI [of _ "?a = ?b"], rule exI [of _ "str_less ?b ?a"],
      intro conjI; simp)
qed

section \<open>Properties\<close>

text \<open>
  C33. On any two comparable values the six comparison operators are consistent: exactly one of
  \<open><\<close>, \<open>=\<close> and \<open>>\<close> holds, \<open><=\<close> and \<open>>=\<close> are their unions with equality, and \<open>!=\<close> is the negation
  of \<open>=\<close>. Integers compare with timestamps as integers, with floats as doubles, and with strings by
  their text.
\<close>

theorem comparisons_consistent:
  assumes "comparable l r"
  shows "\<exists>a b c.
     ltExpr [l, r] out = Inr (Bool a) \<and> eqExpr [l, r] out = Inr (Bool b) \<and>
     gtExpr [l, r] out = Inr (Bool c) \<and> lteExpr [l, r] out = Inr (Bool (a \<or> b)) \<and>
     gteExpr [l, r] out = Inr (Bool (b \<or> c)) \<and> neqExpr [l, r] out = Inr (Bool (\<not> b)) \<and>
     (a \<or> b \<or> c) \<and> \<not> (a \<and> b) \<and> \<not> (a \<and> c) \<and> \<not> (b \<and> c)"
proof -
  have "agree l r out"
    using assms agree_integers agree_floats agree_strings unfolding comparable_def by blast
  then show ?thesis by (simp add: agree_def)
qed

theorem comparisons_consistent_witness:
  "\<exists>a b c. ltExpr [Integer 3, Str ''20''] Null = Inr (Bool a) \<and> eqExpr [Integer 3, Str ''20''] Null = Inr (Bool b) \<and>
     gtExpr [Integer 3, Str ''20''] Null = Inr (Bool c) \<and> (a \<or> b \<or> c) \<and> \<not> (a \<and> b) \<and> \<not> (a \<and> c)"
  using comparisons_consistent [of "Integer 3" "Str ''20''" Null] by (auto simp: comparable_def)

text \<open>
  A null equals only a null, but against an integer it is ordered like zero: \<open>NULL <= 0\<close> holds
  although neither \<open>NULL < 0\<close> nor \<open>NULL = 0\<close> does.
\<close>

lemma null_ordered_as_zero:
  assumes "exact_int (int64 n)"
  shows "eqExpr [Null, Integer n] out = Inr (Bool False) \<and>
    ltExpr [Null, Integer n] out = Inr (Bool (0 < int64 n)) \<and>
    lteExpr [Null, Integer n] out = Inr (Bool (0 \<le> int64 n)) \<and>
    gtExpr [Null, Integer n] out = Inr (Bool (int64 n < 0)) \<and>
    gteExpr [Null, Integer n] out = Inr (Bool (int64 n \<le> 0))"
proof -
  have "exact_int 0" by (simp add: exact_int_def)
  note compare_of_int [OF this assms] compare_of_int [OF assms this]
  then show ?thesis by (simp add: comparison_defs getFloat_def)
qed

lemma null_ordered_as_zero_witness:
  "eqExpr [Null, Integer 0] Null = Inr (Bool False) \<and> ltExpr [Null, Integer 0] Null = Inr (Bool False) \<and>
   lteExpr [Null, Integer 0] Null = Inr (Bool True)"
  using null_ordered_as_zero [of 0 Null] by (simp add: exact_int_def)

text \<open>
  Comparing a truth value on the left with a value of another type assigns no result: \<open>eqExpr\<close>
  returns with its output variable as it was, and \<open>neqExpr\<close>, which reads the result from a fresh
  null, raises a type error.
\<close>

lemma eq_of_bool_leaves_output:
  assumes "type_of v \<noteq> T_Bool"
  shows "eqExpr [Bool b, v] out = Inr out \<and> neqExpr [Bool b, v] out = Inl (Raise TypeError)"
  using assms by (cases v) (simp_all add: comparison_defs)

lemma eq_of_bool_leaves_output_witness:
  "eqExpr [Bool True, Str ''true''] (Integer 7) = Inr (Integer 7) \<and>
   neqExpr [Bool True, Str ''true''] (Integer 7) = Inl (Raise TypeError)"
  using eq_of_bool_leaves_output [of "Str ''true''" True "Integer 7"] by simp

text \<open>
  A timestamp cannot be compared with a float, in either order: every comparison takes the branch
  for floats and fails there with a type error.
\<close>

lemma timestamp_float_comparison_fails:
  "eqExpr [Timestamp t, Flt x] out = Inl (Raise TypeError) \<and> eqExpr [Flt x, Timestamp t] out = Inl (Raise TypeError) \<and>
   ltExpr [Timestamp t, Flt x] out = Inl (Raise TypeError) \<and> ltExpr [Flt x, Timestamp t] out = Inl (Raise TypeError) \<and>
   lteExpr [Timestamp t, Flt x] out = Inl (Raise TypeError) \<and> lteExpr [Flt x, Timestamp t] out = Inl (Raise TypeError) \<and>
   gtExpr [Timestamp t, Flt x] out = Inl (Raise TypeError) \<and> gtExpr [Flt x, Timestamp t] out = Inl (Raise TypeError) \<and>
   gteExpr [Timestamp t, Flt x] out = Inl (Raise TypeError) \<and> gteExpr [Flt x, Timestamp t] out = Inl (Raise TypeError)"
  by (simp add: comparison_defs compare_floats_def getFloat_def)

end
