(* ===== verification/Expr_Math.thy ===== *)
theory Expr_Math
  imports Expr_Boolean
begin

text \<open>
  The arithmetic functions of src/csql/expressions/math.cc. The operands' types are found with
  \<open>testTypeWithNumericConversion\<close>, so a string that looks like a number takes part as one. The C
  library's \<open>pow\<close> is a parameter of \<open>powExpr\<close>; \<open>fmod\<close> is exact and modelled.
\<close>

section \<open>Operations on numbers\<close>

text \<open>Signed 64-bit arithmetic: a result out of range is undefined.\<close>

definition int_result :: "int \<Rightarrow> svalue result" where
  "int_result v = (if - (2 ^ 63) \<le> v \<and> v < 2 ^ 63 then Inr (Integer (of_int v)) else Inl (Undefined SignedOverflow))"

definition int_op :: "(int \<Rightarrow> int \<Rightarrow> int) \<Rightarrow> 64 word \<Rightarrow> 64 word \<Rightarrow> svalue result" where
  "int_op f a b = int_result (f (int64 a) (int64 b))"

text \<open>The remainder of C++: the sign of the dividend; none for a zero divisor, and the least integer by -1 overflows.\<close>

definition int_rem :: "64 word \<Rightarrow> 64 word \<Rightarrow> svalue result" where
  "int_rem a b =
     (let x = int64 a; y = int64 b in
      if y = 0 then Inl (Undefined DivisionByZero)
      else if x = - (2 ^ 63) \<and> y = -1 then Inl (Undefined SignedOverflow)
      else Inr (Integer (of_int (sgn x * (\<bar>x\<bar> mod \<bar>y\<bar>)))))"

definition float_result :: "(dbl \<Rightarrow> dbl \<Rightarrow> dbl) \<Rightarrow> dbl \<Rightarrow> dbl \<Rightarrow> svalue result" where
  "float_result f x y = Inr (Flt (f x y))"

text \<open>
  The switch that \<open>addExpr\<close>, \<open>subExpr\<close>, \<open>mulExpr\<close>, \<open>modExpr\<close> and \<open>powExpr\<close> share, with the operations
  for two integers and for doubles and the end of the function.
\<close>

definition arith ::
  "(64 word \<Rightarrow> 64 word \<Rightarrow> svalue result) \<Rightarrow> (dbl \<Rightarrow> dbl \<Rightarrow> svalue result) \<Rightarrow>
    (svalue \<Rightarrow> svalue \<Rightarrow> svalue result) \<Rightarrow> svalue \<Rightarrow> svalue \<Rightarrow> svalue result" where
  "arith fi ff fallback l r =
     (let as_double = (\<lambda>v. bindR (getInteger v) (\<lambda>n. Inr (dbl_of_int (int64 n)))) in
      case testTypeWithNumericConversion l of
        T_Integer \<Rightarrow> (case testTypeWithNumericConversion r of
            T_Integer \<Rightarrow> bindR (getInteger l) (\<lambda>a. bindR (getInteger r) (\<lambda>b. fi a b))
          | T_Float \<Rightarrow> bindR (as_double l) (\<lambda>x. bindR (getFloat r) (\<lambda>y. ff x y))
          | T_Null \<Rightarrow> Inr Null
          | _ \<Rightarrow> fallback l r)
      | T_Float \<Rightarrow> (case testTypeWithNumericConversion r of
            T_Integer \<Rightarrow> bindR (getFloat l) (\<lambda>x. bindR (as_double r) (\<lambda>y. ff x y))
          | T_Float \<Rightarrow> bindR (getFloat l) (\<lambda>x. bindR (getFloat r) (\<lambda>y. ff x y))
          | T_Null \<Rightarrow> Inr Null
          | _ \<Rightarrow> fallback l r)
      | T_Null \<Rightarrow> Inr Null
      | _ \<Rightarrow> fallback l r)"

definition type_mismatch :: "svalue \<Rightarrow> svalue \<Rightarrow> svalue result" where
  "type_mismatch l r = Inl (Raise RuntimeError)"

section \<open>The functions\<close>

definition addExpr :: pure_function where
  "addExpr = binary (\<lambda>l r out. arith (int_op (+)) (float_result dbl_add) (\<lambda>l r. Inr (Str (toString l @ toString r))) l r)"

definition subExpr :: pure_function where
  "subExpr = binary (\<lambda>l r out. arith (int_op (-)) (float_result dbl_sub) type_mismatch l r)"

definition mulExpr :: pure_function where
  "mulExpr = binary (\<lambda>l r out. arith (int_op (*)) (float_result dbl_mul) type_mismatch l r)"

definition modExpr :: pure_function where
  "modExpr = binary (\<lambda>l r out. arith int_rem (float_result dbl_fmod) type_mismatch l r)"

text \<open>Two integers are raised as doubles and the power converted back.\<close>

definition powExpr :: "(dbl \<Rightarrow> dbl \<Rightarrow> dbl) \<Rightarrow> pure_function" where
  "powExpr libm_pow = binary (\<lambda>l r out.
     arith (\<lambda>a b. bindR (dbl_to_int64 (libm_pow (dbl_of_int (int64 a)) (dbl_of_int (int64 b)))) (\<lambda>n. Inr (Integer n)))
       (float_result libm_pow) type_mismatch l r)"

text \<open>Division always works on doubles.\<close>

definition divExpr :: pure_function where
  "divExpr = binary (\<lambda>l r out.
     case testTypeWithNumericConversion l of
       T_Null \<Rightarrow> Inr Null
     | t \<Rightarrow>
         (if t = T_Integer \<or> t = T_Float then
            (case testTypeWithNumericConversion r of
               T_Null \<Rightarrow> Inr Null
             | u \<Rightarrow>
                 (if u = T_Integer \<or> u = T_Float then
                    bindR (getFloat l) (\<lambda>x. bindR (getFloat r) (\<lambda>y. float_result dbl_div x y))
                  else type_mismatch l r))
          else type_mismatch l r))"

definition roundExpr :: pure_function where
  "roundExpr argv out =
     (if length argv = 1 \<or> length argv = 2 then Inl (Raise NotYetImplementedError) else Inl (Raise RuntimeError))"

definition truncateExpr :: pure_function where
  "truncateExpr argv out =
     (if length argv = 1 then
        (case testTypeWithNumericConversion (hd argv) of
           T_Null \<Rightarrow> Inr Null
         | t \<Rightarrow>
             (if t = T_Integer \<or> t = T_Float then
                bindR (getFloat (hd argv)) (\<lambda>x. bindR (dbl_to_int64 x) (\<lambda>n. Inr (Integer n)))
              else Inl (Raise RuntimeError)))
      else if length argv = 2 then Inl (Raise NotYetImplementedError)
      else Inl (Raise RuntimeError))"

section \<open>Operands that are numbers in another form\<close>

lemma type_of_integer [simp]: "testTypeWithNumericConversion (Integer n) = T_Integer"
  by (simp add: testTypeWithNumericConversion_def testType_Integer_def)

lemma type_of_text [simp]: "testTypeWithNumericConversion (Str (int_to_string n)) = T_Integer"
  by (simp add: testTypeWithNumericConversion_def testType_int_to_string)

lemma getInteger_simps [simp]:
  "getInteger (Integer n) = Inr n" "getInteger (Str (int_to_string (int64 n))) = Inr n"
  using stol_int_to_string [OF sint_bounds] by (simp_all add: getInteger_def)

lemma type_of_null [simp]: "testTypeWithNumericConversion Null = T_Null"
  by (simp add: testTypeWithNumericConversion_def testType_Integer_def testType_Float_def drop_minus_def
      is_decimal_def less_eq_char_def)

lemma type_of_float [simp]: "testTypeWithNumericConversion (Flt x) = T_Float"
proof -
  define body where "body = (if is_nan x then ''nan'' else if is_inf x then ''inf''
      else (let k = round_div (units_of_mag (mag_of x) * 1000000) one_units in
        digits_of (k div 1000000) @ ''.'' @ pad_left 6 (digits_of (k mod 1000000))))"
  have str: "toString (Flt x) = (if negative x then ''-'' else []) @ body"
    by (simp add: dbl_to_string_def body_def)
  have "body \<noteq> []" "hd body \<noteq> CHR ''-''"
    using digits_of_props(1) digits_all(4) by (auto simp: body_def Let_def)
  then have drop: "drop_minus (toString (Flt x)) = body"
    unfolding str by (simp add: drop_minus_def)
  have "CHR ''.'' \<in> set body \<or> CHR ''n'' \<in> set body"
    by (simp add: body_def Let_def)
  moreover have "\<not> is_decimal CHR ''.''" "\<not> is_decimal CHR ''n''"
    by (simp_all add: is_decimal_def less_eq_char_def)
  ultimately have "\<not> list_all is_decimal body" by (auto simp: list_all_iff)
  with drop show ?thesis
    by (simp add: testTypeWithNumericConversion_def testType_Integer_def testType_Float_def)
qed

lemma getFloat_simps [simp]: "getFloat (Flt x) = Inr x" "getFloat (Integer n) = Inr (dbl_of_int (int64 n))"
  by (simp_all add: getFloat_def)

lemmas math_defs = addExpr_def subExpr_def mulExpr_def modExpr_def divExpr_def binary_def arith_def

text \<open>\<open>same_number v n\<close>: the value \<open>v\<close> is the integer \<open>n\<close> or its decimal text.\<close>

definition same_number :: "svalue \<Rightarrow> 64 word \<Rightarrow> bool" where
  "same_number v n \<longleftrightarrow> v = Integer n \<or> v = Str (int_to_string (int64 n))"

lemma same_number_simps:
  assumes "same_number v n"
  shows "testTypeWithNumericConversion v = T_Integer" "getInteger v = Inr n"
  using assms by (auto simp: same_number_def)

section \<open>Properties\<close>

text \<open>
  C34. On two integers, each given as a number or as its decimal text, \<open>+\<close>, \<open>-\<close> and \<open>*\<close> give the exact
  integer result whenever it fits 64 bits and are undefined otherwise; \<open>%\<close> gives the remainder with
  the sign of the dividend, undefined for a zero divisor.
\<close>

theorem integer_arithmetic:
  assumes "same_number l a" and "same_number r b"
  shows "addExpr [l, r] out = int_result (int64 a + int64 b) \<and>
    subExpr [l, r] out = int_result (int64 a - int64 b) \<and>
    mulExpr [l, r] out = int_result (int64 a * int64 b) \<and>
    modExpr [l, r] out =
      (if int64 b = 0 then Inl (Undefined DivisionByZero)
       else if int64 a = - (2 ^ 63) \<and> int64 b = -1 then Inl (Undefined SignedOverflow)
       else Inr (Integer (of_int (sgn (int64 a) * (\<bar>int64 a\<bar> mod \<bar>int64 b\<bar>)))))"
  using same_number_simps [OF assms(1)] same_number_simps [OF assms(2)]
  by (simp add: math_defs int_op_def int_rem_def Let_def)

theorem integer_arithmetic_witness:
  "addExpr [Str ''40'', Integer 2] Null = Inr (Integer 42) \<and> modExpr [Integer 7, Integer 0] Null = Inl (Undefined DivisionByZero)"
proof -
  have "int_to_string 40 = ''40''"
    by (simp add: int_to_string_def digits_of.simps [of 40] digits_of.simps [of 4] char_of_eq)
  then have "same_number (Str ''40'') 40" "same_number (Integer 2) 2" "same_number (Integer 7) 7" "same_number (Integer 0) 0"
    by (simp_all add: same_number_def)
  with integer_arithmetic [of "Str ''40''" 40 "Integer 2" 2 Null] integer_arithmetic [of "Integer 7" 7 "Integer 0" 0 Null]
  show ?thesis by (simp add: int_result_def)
qed

text \<open>
  Null absorbs: an arithmetic operator with a null left operand gives null for every right
  operand, and with a number on the left a null on the right does too; but a text that is no number plus
  null is a concatenation, and minus null an error.
\<close>

lemma null_propagation:
  assumes "testTypeWithNumericConversion v = T_Integer \<or> testTypeWithNumericConversion v = T_Float"
    and "testTypeWithNumericConversion (Str s) = T_String"
  shows "addExpr [Null, w] out = Inr Null \<and> subExpr [Null, w] out = Inr Null \<and> mulExpr [Null, w] out = Inr Null \<and>
    divExpr [Null, w] out = Inr Null \<and> modExpr [Null, w] out = Inr Null \<and>
    addExpr [v, Null] out = Inr Null \<and> subExpr [v, Null] out = Inr Null \<and> mulExpr [v, Null] out = Inr Null \<and>
    divExpr [v, Null] out = Inr Null \<and> modExpr [v, Null] out = Inr Null \<and>
    addExpr [Str s, Null] out = Inr (Str (s @ ''NULL'')) \<and> subExpr [Str s, Null] out = Inl (Raise RuntimeError)"
  using assms by (auto simp: math_defs type_mismatch_def Let_def)

lemma null_propagation_witness:
  "addExpr [Integer 1, Null] Null = Inr Null \<and> addExpr [Str ''x'', Null] Null = Inr (Str ''xNULL'')"
proof -
  have "testTypeWithNumericConversion (Str ''x'') = T_String"
    by (simp add: testTypeWithNumericConversion_def testType_Integer_def testType_Float_def drop_minus_def
        is_decimal_def less_eq_char_def)
  from null_propagation [OF _ this, of "Integer 1"] show ?thesis by simp
qed

end
