(* ===== verification/Aggregate.thy ===== *)
theory Aggregate
  imports Expr_Boolean
begin

text \<open>
  The aggregate functions of src/csql/expressions/aggregate.cc and internal.cc over their scratch
  memory, and the table of functions the VM calls (\<open>AggregateFunction\<close> of csql/SFunction.h). The code
  reads the scratch memory of a function through a cast; here a cell remembers which function's
  state it holds, and a function that meets a foreign cell has no defined behaviour.
\<close>

section \<open>Scratch memory\<close>

record sum_scratchpad =
  sum_type :: byte
  sum_val :: dbl

record mean_scratchpad =
  mean_sum :: dbl
  mean_count :: "32 word"

datatype cell =
    Raw
  | CountCell "64 word"
  | SumCell sum_scratchpad
  | MeanCell mean_scratchpad
  | ValueCell svalue

record aggregate_function =
  scratch_size :: nat
  accumulate_fn :: "cell \<Rightarrow> svalue list \<Rightarrow> cell result"
  get_fn :: "cell \<Rightarrow> svalue result"
  reset_fn :: "cell \<Rightarrow> cell"
  init_fn :: "cell \<Rightarrow> cell"
  merge_fn :: "cell \<Rightarrow> cell \<Rightarrow> cell result"
  savestate_fn :: "cell \<Rightarrow> byte list result"
  loadstate_fn :: "cell \<Rightarrow> cell reader"

section \<open>count\<close>

text \<open>The first argument is read whatever the number of arguments.\<close>

definition countExprAcc :: "64 word \<Rightarrow> svalue list \<Rightarrow> 64 word result" where
  "countExprAcc n argv =
     (case argv of
        [] \<Rightarrow> Inl (Undefined NullDereference)
      | v # _ \<Rightarrow> Inr (if type_of v = T_Null then n else n + 1))"

definition countExprGet :: "64 word \<Rightarrow> svalue result" where
  "countExprGet n = Inr (Integer n)"

definition countExprReset :: "64 word" where
  "countExprReset = 0"

definition countExprMerge :: "64 word \<Rightarrow> 64 word \<Rightarrow> 64 word result" where
  "countExprMerge n other = Inr (n + other)"

definition countExprSave :: "64 word \<Rightarrow> byte list" where
  "countExprSave n = appendVarUInt n"

definition countExprLoad :: "64 word \<Rightarrow> 64 word reader" where
  "countExprLoad old bs = readVarUInt bs"

section \<open>sum\<close>

definition sumExprAcc :: "sum_scratchpad \<Rightarrow> svalue list \<Rightarrow> sum_scratchpad result" where
  "sumExprAcc data argv =
     (if length argv \<noteq> 1 then Inl (Raise RuntimeError)
      else case hd argv of
        Null \<Rightarrow> Inr data
      | Integer n \<Rightarrow>
          Inr (data\<lparr>sum_type := type_tag T_Integer, sum_val := dbl_add (sum_val data) (dbl_of_int (int64 n))\<rparr>)
      | v \<Rightarrow> bindR (getFloat v) (\<lambda>x. Inr (data\<lparr>sum_type := type_tag T_Float, sum_val := dbl_add (sum_val data) x\<rparr>)))"

definition sumExprGet :: "sum_scratchpad \<Rightarrow> svalue result" where
  "sumExprGet data =
     (if sum_type data = type_tag T_Integer then bindR (dbl_to_int64 (sum_val data)) (\<lambda>n. Inr (Integer n))
      else if sum_type data = type_tag T_Float then Inr (Flt (sum_val data))
      else Inr Null)"

definition sumExprReset :: sum_scratchpad where
  "sumExprReset = \<lparr>sum_type = 0, sum_val = 0\<rparr>"

definition sumExprMerge :: "sum_scratchpad \<Rightarrow> sum_scratchpad \<Rightarrow> sum_scratchpad result" where
  "sumExprMerge data other =
     Inr \<lparr>sum_type =
            (if sum_type data = type_tag T_Integer \<and> sum_type other = type_tag T_Integer
             then type_tag T_Integer else type_tag T_Float),
          sum_val = dbl_add (sum_val data) (sum_val other)\<rparr>"

definition sumExprSave :: "sum_scratchpad \<Rightarrow> byte list" where
  "sumExprSave data = appendVarUInt (ucast (sum_type data)) @ appendDouble (sum_val data)"

definition sumExprLoad :: "sum_scratchpad \<Rightarrow> sum_scratchpad reader" where
  "sumExprLoad old bs =
     bindR (readVarUInt bs) (\<lambda>(t, r). bindR (readDouble r) (\<lambda>(x, r').
       Inr (\<lparr>sum_type = ucast t, sum_val = x\<rparr>, r')))"

section \<open>mean\<close>

text \<open>The counter is a 32-bit \<open>int\<close>: counting past its range overflows.\<close>

definition meanExprAcc :: "mean_scratchpad \<Rightarrow> svalue list \<Rightarrow> mean_scratchpad result" where
  "meanExprAcc data argv =
     (if length argv \<noteq> 1 then Inl (Raise RuntimeError)
      else case hd argv of
        Null \<Rightarrow> Inr data
      | v \<Rightarrow> bindR (getFloat v) (\<lambda>x.
          if sint (mean_count data) + 1 < 2 ^ 31
          then Inr \<lparr>mean_sum = dbl_add (mean_sum data) x, mean_count = mean_count data + 1\<rparr>
          else Inl (Undefined SignedOverflow)))"

definition meanExprGet :: "mean_scratchpad \<Rightarrow> svalue result" where
  "meanExprGet data = Inr (Flt (dbl_div (mean_sum data) (dbl_of_int (sint (mean_count data)))))"

definition meanExprReset :: mean_scratchpad where
  "meanExprReset = \<lparr>mean_sum = 0, mean_count = 0\<rparr>"

definition meanExprMerge :: "mean_scratchpad \<Rightarrow> mean_scratchpad \<Rightarrow> mean_scratchpad result" where
  "meanExprMerge data other =
     (let n = sint (mean_count data) + sint (mean_count other) in
      if - (2 ^ 31) \<le> n \<and> n < 2 ^ 31
      then Inr \<lparr>mean_sum = dbl_add (mean_sum data) (mean_sum other), mean_count = of_int n\<rparr>
      else Inl (Undefined SignedOverflow))"

definition meanExprSave :: "mean_scratchpad \<Rightarrow> byte list" where
  "meanExprSave data = appendVarUInt (scast (mean_count data)) @ appendDouble (mean_sum data)"

definition meanExprLoad :: "mean_scratchpad \<Rightarrow> mean_scratchpad reader" where
  "meanExprLoad old bs =
     bindR (readVarUInt bs) (\<lambda>(n, r). bindR (readDouble r) (\<lambda>(x, r').
       Inr (\<lparr>mean_sum = x, mean_count = ucast n\<rparr>, r')))"

section \<open>min and max\<close>

text \<open>
  The scratch memory of \<open>maxExpr\<close> and \<open>minExpr\<close> is a union of a double and an \<open>int\<close> counter: on a
  little-endian host the counter is the low half of the double.
\<close>

definition union_count :: "64 word \<Rightarrow> 32 word" where
  "union_count w = ucast w"

definition set_union_count :: "64 word \<Rightarrow> 32 word \<Rightarrow> 64 word" where
  "set_union_count w n = push_bit 32 (drop_bit 32 w) + ucast n"

text \<open>The two functions differ in the comparison; they return the scratch memory and the output.\<close>

definition extremeExpr :: "(dbl \<Rightarrow> dbl \<Rightarrow> bool) \<Rightarrow> 64 word \<Rightarrow> svalue list \<Rightarrow> svalue \<Rightarrow> (64 word \<times> svalue) result" where
  "extremeExpr better data argv out =
     (if length argv \<noteq> 1 then Inl (Raise RuntimeError)
      else case hd argv of
        Null \<Rightarrow> Inr (data, out)
      | v \<Rightarrow> bindR (getFloat v) (\<lambda>fval.
          let data1 = (if union_count data = 0 \<or> better fval data then fval else data);
              data2 = set_union_count data1 1 in
          Inr (data2, Flt data2)))"

definition maxExpr :: "64 word \<Rightarrow> svalue list \<Rightarrow> svalue \<Rightarrow> (64 word \<times> svalue) result" where
  "maxExpr = extremeExpr (\<lambda>x y. dbl_lt y x)"

definition minExpr :: "64 word \<Rightarrow> svalue list \<Rightarrow> svalue \<Rightarrow> (64 word \<times> svalue) result" where
  "minExpr = extremeExpr dbl_lt"

section \<open>repeat_value\<close>

definition repeatValueExprAcc :: "svalue \<Rightarrow> svalue list \<Rightarrow> svalue result" where
  "repeatValueExprAcc old argv = (case argv of [] \<Rightarrow> Inl (Undefined NullDereference) | v # _ \<Rightarrow> Inr v)"

definition repeatValueExprGet :: "svalue \<Rightarrow> svalue result" where
  "repeatValueExprGet v = Inr v"

definition repeatValueExprInit :: svalue where
  "repeatValueExprInit = Null"

definition repeatValueExprReset :: "svalue \<Rightarrow> svalue" where
  "repeatValueExprReset v = v"

definition repeatValueExprMerge :: "svalue \<Rightarrow> svalue \<Rightarrow> svalue result" where
  "repeatValueExprMerge v other = Inr other"

definition repeatValueExprSave :: "svalue \<Rightarrow> byte list" where
  "repeatValueExprSave v = encode v"

definition repeatValueExprLoad :: "svalue \<Rightarrow> svalue reader" where
  "repeatValueExprLoad old bs = decode old bs"

section \<open>The function tables\<close>

text \<open>What the vtable's functions do with the scratch memory: they cast it and call the typed code.\<close>

definition opened :: "(cell \<Rightarrow> 's option) \<Rightarrow> cell \<Rightarrow> ('s \<Rightarrow> 'a result) \<Rightarrow> 'a result" where
  "opened unwrap c f = (case unwrap c of None \<Rightarrow> Inl (Undefined WrongScratchType) | Some s \<Rightarrow> f s)"

lemma opened_Some [simp]: "unwrap c = Some s \<Longrightarrow> opened unwrap c f = f s"
  by (simp add: opened_def)

definition rewrap :: "('s \<Rightarrow> cell) \<Rightarrow> 's result \<Rightarrow> cell result" where
  "rewrap wrap m = bindR m (\<lambda>s. Inr (wrap s))"

lemma rewrap_Inr [simp]: "rewrap wrap (Inr s) = Inr (wrap s)"
  by (simp add: rewrap_def)

definition aggregate_of ::
  "nat \<Rightarrow> ('s \<Rightarrow> cell) \<Rightarrow> (cell \<Rightarrow> 's option) \<Rightarrow> ('s \<Rightarrow> svalue list \<Rightarrow> 's result) \<Rightarrow> ('s \<Rightarrow> svalue result) \<Rightarrow>
    (cell \<Rightarrow> cell) \<Rightarrow> 's \<Rightarrow> ('s \<Rightarrow> 's \<Rightarrow> 's result) \<Rightarrow> ('s \<Rightarrow> byte list) \<Rightarrow> ('s \<Rightarrow> 's reader) \<Rightarrow> aggregate_function" where
  "aggregate_of size_of wrap unwrap acc get reset init merge save load =
     \<lparr>scratch_size = size_of,
      accumulate_fn = (\<lambda>c argv. opened unwrap c (\<lambda>s. rewrap wrap (acc s argv))),
      get_fn = (\<lambda>c. opened unwrap c get),
      reset_fn = reset,
      init_fn = (\<lambda>c. wrap init),
      merge_fn = (\<lambda>c d. opened unwrap c (\<lambda>s. opened unwrap d (\<lambda>t. rewrap wrap (merge s t)))),
      savestate_fn = (\<lambda>c. opened unwrap c (\<lambda>s. Inr (save s))),
      loadstate_fn = (\<lambda>c bs. opened unwrap c (\<lambda>s. bindR (load s bs) (\<lambda>(t, r). Inr (wrap t, r))))\<rparr>"

definition kCountExpr :: aggregate_function where
  "kCountExpr = aggregate_of 8 CountCell (\<lambda>c. case c of CountCell n \<Rightarrow> Some n | _ \<Rightarrow> None)
     countExprAcc countExprGet (\<lambda>c. CountCell countExprReset) countExprReset
     countExprMerge countExprSave countExprLoad"

definition kSumExpr :: aggregate_function where
  "kSumExpr = aggregate_of 16 SumCell (\<lambda>c. case c of SumCell d \<Rightarrow> Some d | _ \<Rightarrow> None)
     sumExprAcc sumExprGet (\<lambda>c. SumCell sumExprReset) sumExprReset
     sumExprMerge sumExprSave sumExprLoad"

definition kMeanExpr :: aggregate_function where
  "kMeanExpr = aggregate_of 16 MeanCell (\<lambda>c. case c of MeanCell d \<Rightarrow> Some d | _ \<Rightarrow> None)
     meanExprAcc meanExprGet (\<lambda>c. MeanCell meanExprReset) meanExprReset
     meanExprMerge meanExprSave meanExprLoad"

definition kRepeatValueExpr :: aggregate_function where
  "kRepeatValueExpr = aggregate_of 24 ValueCell (\<lambda>c. case c of ValueCell v \<Rightarrow> Some v | _ \<Rightarrow> None)
     repeatValueExprAcc repeatValueExprGet (\<lambda>c. c) repeatValueExprInit
     repeatValueExprMerge repeatValueExprSave repeatValueExprLoad"

text \<open>
  What a distributed query does with one aggregate: every part is accumulated on its own, saved,
  loaded into fresh scratch memory and merged into the result.
\<close>

definition merge_part ::
  "('s \<Rightarrow> svalue list \<Rightarrow> 's result) \<Rightarrow> 's \<Rightarrow> ('s \<Rightarrow> 's \<Rightarrow> 's result) \<Rightarrow> ('s \<Rightarrow> byte list) \<Rightarrow> ('s \<Rightarrow> 's reader) \<Rightarrow>
    's \<Rightarrow> svalue list list \<Rightarrow> 's result" where
  "merge_part acc init merge save load s xs =
     bindR (foldR acc init xs) (\<lambda>t. bindR (load init (save t)) (\<lambda>(u, _). merge s u))"

definition distributed ::
  "('s \<Rightarrow> svalue list \<Rightarrow> 's result) \<Rightarrow> 's \<Rightarrow> ('s \<Rightarrow> 's \<Rightarrow> 's result) \<Rightarrow> ('s \<Rightarrow> byte list) \<Rightarrow> ('s \<Rightarrow> 's reader) \<Rightarrow>
    svalue list list list \<Rightarrow> 's result" where
  "distributed acc init merge save load xss = foldR (merge_part acc init merge save load) init xss"

section \<open>The contract of an aggregate\<close>

text \<open>
  \<open>summary xs\<close> is the state after the calls with the arguments \<open>xs\<close>, and \<open>merged xss\<close> the state of a
  fresh scratch memory after the states of the parts \<open>xss\<close> were merged into it one by one; \<open>fits\<close> says
  which arguments the laws cover.
\<close>

locale aggregate =
  fixes acc :: "'s \<Rightarrow> svalue list \<Rightarrow> 's result" and init :: 's
    and merge :: "'s \<Rightarrow> 's \<Rightarrow> 's result" and save :: "'s \<Rightarrow> byte list" and load :: "'s \<Rightarrow> 's reader"
    and fits :: "svalue list list \<Rightarrow> bool" and summary :: "svalue list list \<Rightarrow> 's"
    and merged :: "svalue list list list \<Rightarrow> 's"
  assumes fits_append: "fits (xs @ ys) \<Longrightarrow> fits xs \<and> fits ys"
    and summary_Nil: "summary [] = init"
    and acc_summary: "fits (xs @ [v]) \<Longrightarrow> acc (summary xs) v = Inr (summary (xs @ [v]))"
    and merged_Nil: "merged [] = init"
    and merge_summary: "fits (concat xss @ ys) \<Longrightarrow> merge (merged xss) (summary ys) = Inr (merged (xss @ [ys]))"
    and load_save: "fits xs \<Longrightarrow> load init (save (summary xs) @ r) = Inr (summary xs, r)"
begin

lemma accumulate_summary: "fits (xs @ ys) \<Longrightarrow> foldR acc (summary xs) ys = Inr (summary (xs @ ys))"
proof (induction ys arbitrary: xs)
  case (Cons y ys)
  then have "fits (xs @ [y])" using fits_append [of "xs @ [y]" ys] by simp
  then show ?case using Cons.IH [of "xs @ [y]"] Cons.prems by (simp add: acc_summary)
qed simp

lemma accumulate_all: "fits xs \<Longrightarrow> foldR acc init xs = Inr (summary xs)"
  using accumulate_summary [of "[]" xs] by (simp add: summary_Nil)

lemma merge_parts:
  "fits (concat (xss @ yss)) \<Longrightarrow> foldR (merge_part acc init merge save load) (merged xss) yss = Inr (merged (xss @ yss))"
proof (induction yss arbitrary: xss)
  case (Cons ys yss)
  then have fits: "fits (concat xss @ ys)" using fits_append [of "concat xss @ ys" "concat yss"] by simp
  then have "fits ys" using fits_append by blast
  then have "merge_part acc init merge save load (merged xss) ys = Inr (merged (xss @ [ys]))"
    using load_save [of ys "[]"] by (simp add: merge_part_def accumulate_all merge_summary [OF fits])
  then show ?case using Cons.IH [of "xss @ [ys]"] Cons.prems by simp
qed simp

lemma distributed_merged: "fits (concat xss) \<Longrightarrow> distributed acc init merge save load xss = Inr (merged xss)"
  using merge_parts [of "[]" xss] by (simp add: distributed_def merged_Nil)

end

text \<open>An aggregate whose merged state is the state of the whole input.\<close>

locale mergeable_aggregate = aggregate +
  assumes merged_concat: "merged xss = summary (concat xss)"
begin

lemma distributed_local: "fits (concat xss) \<Longrightarrow> distributed acc init merge save load xss = foldR acc init (concat xss)"
  by (simp add: distributed_merged accumulate_all merged_concat)

end

section \<open>The aggregates satisfy it\<close>

definition is_null :: "svalue list \<Rightarrow> bool" where
  "is_null argv \<longleftrightarrow> argv \<noteq> [] \<and> hd argv = Null"

lemma type_of_Null [simp]: "type_of v = T_Null \<longleftrightarrow> v = Null"
  by (cases v) simp_all

definition count_of :: "svalue list list \<Rightarrow> 64 word" where
  "count_of xs = of_nat (length (filter (\<lambda>argv. \<not> is_null argv) xs))"

interpretation count: mergeable_aggregate countExprAcc countExprReset countExprMerge countExprSave countExprLoad
  "\<lambda>xs. [] \<notin> set xs" count_of "\<lambda>xss. count_of (concat xss)"
  by unfold_locales
    (auto simp: countExprAcc_def countExprReset_def countExprMerge_def countExprSave_def countExprLoad_def
      count_of_def is_null_def varuint.get_put split: list.splits)

text \<open>Integer arguments, nulls among them, whose magnitudes add up to at most \<open>2 ^ 53\<close>.\<close>

fun int_arg :: "svalue list \<Rightarrow> int option" where
  "int_arg [Integer n] = Some (int64 n)"
| "int_arg _ = None"

definition ints :: "svalue list list \<Rightarrow> int list" where
  "ints xs = List.map_filter int_arg xs"

definition int_args :: "svalue list list \<Rightarrow> bool" where
  "int_args xs \<longleftrightarrow> list_all (\<lambda>a. a = [Null] \<or> int_arg a \<noteq> None) xs \<and> sum_list (map abs (ints xs)) \<le> 2 ^ 53"

lemma ints_simps [simp]:
  "ints [] = []" "ints (xs @ ys) = ints xs @ ints ys"
  "ints (a # xs) = (case int_arg a of None \<Rightarrow> ints xs | Some n \<Rightarrow> n # ints xs)"
  by (simp_all add: ints_def map_filter_def split: option.splits)

lemma sum_abs_nonneg: "0 \<le> sum_list (map abs (ns :: int list))"
  by (rule sum_list_nonneg) auto

lemma int_args_append: "int_args (xs @ ys) \<Longrightarrow> int_args xs \<and> int_args ys"
  using sum_abs_nonneg [of "ints xs"] sum_abs_nonneg [of "ints ys"] by (auto simp: int_args_def)

lemma int_args_exact: "int_args xs \<Longrightarrow> exact_int (sum_list (ints xs))"
  using sum_list_abs [of "ints xs"] by (simp add: int_args_def exact_int_def)

lemma int_args_last:
  assumes "int_args (xs @ [a])"
  shows "a = [Null] \<or> (\<exists>n. a = [Integer n] \<and> exact_int (int64 n))"
proof -
  have "int_args [a]" using int_args_append [OF assms] by simp
  then show ?thesis using int_args_exact [of "[a]"]
    by (cases a rule: int_arg.cases) (auto simp: int_args_def)
qed

lemma dbl_of_int_0: "dbl_of_int 0 = 0"
  by (simp add: dbl_of_int_def dbl_of_ratio_def dbl_make_def round_mag_def round_div_def bit_len.simps [of 0]
      mag_inf_def)

definition sum_of :: "svalue list list \<Rightarrow> sum_scratchpad" where
  "sum_of xs = \<lparr>sum_type = (if ints xs = [] then 0 else type_tag T_Integer), sum_val = dbl_of_int (sum_list (ints xs))\<rparr>"

text \<open>Merging makes the type of a sum \<open>T_FLOAT\<close>: the fresh scratch memory it starts from is not of type \<open>T_INTEGER\<close>.\<close>

definition merged_sum_of :: "svalue list list list \<Rightarrow> sum_scratchpad" where
  "merged_sum_of xss =
     \<lparr>sum_type = (if xss = [] then 0 else type_tag T_Float), sum_val = dbl_of_int (sum_list (ints (concat xss)))\<rparr>"

lemma sum_acc:
  assumes "int_args (xs @ [a])"
  shows "sumExprAcc (sum_of xs) a = Inr (sum_of (xs @ [a]))"
  using int_args_last [OF assms]
proof
  assume "\<exists>n. a = [Integer n] \<and> exact_int (int64 n)"
  then obtain n where n: "a = [Integer n]" "exact_int (int64 n)" by blast
  have "exact_int (sum_list (ints xs))" "exact_int (sum_list (ints xs) + int64 n)"
    using int_args_exact [of xs] int_args_exact [OF assms] int_args_append [OF assms] n(1) by simp_all
  then show ?thesis using n by (simp add: sumExprAcc_def sum_of_def add_exact)
qed (simp add: sumExprAcc_def sum_of_def)

lemma sum_merge:
  assumes "int_args (concat xss @ ys)"
  shows "sumExprMerge (merged_sum_of xss) (sum_of ys) = Inr (merged_sum_of (xss @ [ys]))"
proof -
  have "exact_int (sum_list (ints (concat xss)))" "exact_int (sum_list (ints ys))"
    "exact_int (sum_list (ints (concat xss)) + sum_list (ints ys))"
    using int_args_append [OF assms] int_args_exact [OF assms] int_args_exact by simp_all
  then show ?thesis by (simp add: sumExprMerge_def merged_sum_of_def sum_of_def add_exact)
qed

lemma ucast_byte_up_down: "(ucast (ucast (b :: byte) :: 64 word) :: byte) = b"
  by (rule bit_word_eqI) (auto simp: bit_simps)

lemma sum_load_save: "sumExprLoad old (sumExprSave d @ r) = Inr (d, r)"
  by (simp add: sumExprLoad_def sumExprSave_def varuint.get_put double.get_put ucast_byte_up_down)

interpretation sum: aggregate sumExprAcc sumExprReset sumExprMerge sumExprSave sumExprLoad int_args sum_of merged_sum_of
proof
  show "sum_of [] = sumExprReset" "merged_sum_of [] = sumExprReset"
    by (simp_all add: sum_of_def merged_sum_of_def sumExprReset_def dbl_of_int_0)
qed (rule int_args_append sum_acc sum_merge sum_load_save; assumption)+

text \<open>The mean keeps the sum and the number of arguments that are not null.\<close>

definition mean_of :: "svalue list list \<Rightarrow> mean_scratchpad" where
  "mean_of xs = \<lparr>mean_sum = dbl_of_int (sum_list (ints xs)), mean_count = of_nat (length (ints xs))\<rparr>"

definition mean_args :: "svalue list list \<Rightarrow> bool" where
  "mean_args xs \<longleftrightarrow> int_args xs \<and> length (ints xs) < 2 ^ 31"

lemma mean_args_append: "mean_args (xs @ ys) \<Longrightarrow> mean_args xs \<and> mean_args ys"
  unfolding mean_args_def by (simp add: int_args_append [of xs ys])

lemma sint_of_nat_31: "n < 2 ^ 31 \<Longrightarrow> sint (of_nat n :: 32 word) = int n"
  by (simp add: signed_of_nat signed_take_bit_int_eq_self)

lemma mean_acc:
  assumes "mean_args (xs @ [a])"
  shows "meanExprAcc (mean_of xs) a = Inr (mean_of (xs @ [a]))"
proof -
  have args: "int_args (xs @ [a])" using assms by (simp add: mean_args_def)
  from int_args_last [OF args] show ?thesis
  proof
    assume "\<exists>n. a = [Integer n] \<and> exact_int (int64 n)"
    then obtain n where n: "a = [Integer n]" "exact_int (int64 n)" by blast
    have "exact_int (sum_list (ints xs))" "exact_int (sum_list (ints xs) + int64 n)"
      using int_args_exact [of xs] int_args_exact [OF args] int_args_append [OF args] n(1) by simp_all
    moreover have "length (ints xs) + 1 < 2 ^ 31" using assms n by (simp add: mean_args_def)
    ultimately show ?thesis using n
      by (simp add: meanExprAcc_def mean_of_def add_exact getFloat_def sint_of_nat_31 add.commute)
  qed (simp add: meanExprAcc_def mean_of_def)
qed

lemma mean_merge:
  assumes "mean_args (xs @ ys)"
  shows "meanExprMerge (mean_of xs) (mean_of ys) = Inr (mean_of (xs @ ys))"
proof -
  have args: "int_args (xs @ ys)" using assms by (simp add: mean_args_def)
  have "exact_int (sum_list (ints xs))" "exact_int (sum_list (ints ys))"
    "exact_int (sum_list (ints xs) + sum_list (ints ys))"
    using int_args_append [OF args] int_args_exact [OF args] int_args_exact by simp_all
  moreover have "length (ints xs) + length (ints ys) < 2 ^ 31" using assms by (simp add: mean_args_def)
  ultimately show ?thesis
    by (simp add: meanExprMerge_def mean_of_def add_exact Let_def sint_of_nat_31)
qed

lemma mean_load_save: "meanExprLoad old (meanExprSave d @ r) = Inr (d, r)"
proof -
  have "(ucast (scast (n :: 32 word) :: 64 word) :: 32 word) = n" for n
    by (rule bit_word_eqI) (auto simp: bit_simps)
  then show ?thesis by (simp add: meanExprLoad_def meanExprSave_def varuint.get_put double.get_put)
qed

interpretation mean: mergeable_aggregate meanExprAcc meanExprReset meanExprMerge meanExprSave meanExprLoad
  mean_args mean_of "\<lambda>xss. mean_of (concat xss)"
proof
  show nil: "mean_of [] = meanExprReset" "mean_of (concat []) = meanExprReset"
    by (simp_all add: mean_of_def meanExprReset_def dbl_of_int_0)
  show "meanExprMerge (mean_of (concat xss)) (mean_of ys) = Inr (mean_of (concat (xss @ [ys])))"
    if "mean_args (concat xss @ ys)" for xss ys
    using mean_merge [OF that] by simp
qed ((rule mean_args_append mean_acc mean_load_save; assumption) | rule refl)+

text \<open>The last value wins, and the last part.\<close>

definition last_value :: "svalue list list \<Rightarrow> svalue" where
  "last_value xs = (if xs = [] then Null else hd (last xs))"

definition last_part :: "svalue list list list \<Rightarrow> svalue" where
  "last_part xss = (if xss = [] then Null else last_value (last xss))"

definition encodable_args :: "svalue list list \<Rightarrow> bool" where
  "encodable_args xs \<longleftrightarrow> list_all (\<lambda>a. a \<noteq> [] \<and> encodable (hd a)) xs"

lemma encodable_last_value: "encodable_args xs \<Longrightarrow> encodable (last_value xs)"
  by (cases xs rule: rev_cases) (auto simp: encodable_args_def last_value_def encodable_def)

interpretation repeat: aggregate repeatValueExprAcc repeatValueExprInit repeatValueExprMerge repeatValueExprSave
  repeatValueExprLoad encodable_args last_value last_part
proof
  fix xs ys :: "svalue list list" and v r
  show "encodable_args (xs @ ys) \<Longrightarrow> encodable_args xs \<and> encodable_args ys"
    by (simp add: encodable_args_def)
  show "encodable_args (xs @ [v]) \<Longrightarrow> repeatValueExprAcc (last_value xs) v = Inr (last_value (xs @ [v]))"
    by (auto simp: encodable_args_def repeatValueExprAcc_def last_value_def split: list.splits)
  show "encodable_args xs \<Longrightarrow> repeatValueExprLoad repeatValueExprInit (repeatValueExprSave (last_value xs) @ r) = Inr (last_value xs, r)"
    using encodable_last_value by (simp add: repeatValueExprLoad_def repeatValueExprSave_def value_codec.get_put)
qed (simp_all add: last_value_def last_part_def repeatValueExprInit_def repeatValueExprMerge_def)

section \<open>Properties\<close>

text \<open>
  COUNT over any partition of the rows, each part counted, serialized, loaded and merged, is the
  count over all rows in one place: the number of rows whose argument is not NULL, modulo \<open>2 ^ 64\<close>.
\<close>

theorem count_distributed:
  assumes "[] \<notin> set (concat parts)"
  shows "distributed countExprAcc countExprReset countExprMerge countExprSave countExprLoad parts =
      foldR countExprAcc countExprReset (concat parts) \<and>
      bindR (foldR countExprAcc countExprReset (concat parts)) countExprGet =
      Inr (Integer (of_nat (length (filter (\<lambda>argv. hd argv \<noteq> Null) (concat parts)))))"
proof
  show "distributed countExprAcc countExprReset countExprMerge countExprSave countExprLoad parts =
      foldR countExprAcc countExprReset (concat parts)"
    using assms by (rule count.distributed_local)
  have "filter (\<lambda>argv. \<not> is_null argv) (concat parts) = filter (\<lambda>argv. hd argv \<noteq> Null) (concat parts)"
    using assms by (intro filter_cong) (auto simp: is_null_def)
  then show "bindR (foldR countExprAcc countExprReset (concat parts)) countExprGet =
      Inr (Integer (of_nat (length (filter (\<lambda>argv. hd argv \<noteq> Null) (concat parts)))))"
    using count.accumulate_all [OF assms] by (simp add: countExprGet_def count_of_def)
qed

theorem count_distributed_witness:
  "foldR countExprAcc countExprReset [[Integer 7], [Null], [Str ''a'']] = Inr 2 \<and>
   distributed countExprAcc countExprReset countExprMerge countExprSave countExprLoad
     [[[Integer 7], [Null]], [], [[Str ''a'']]] = Inr 2"
  using count_distributed [of "[[[Integer 7], [Null]], [], [[Str ''a'']]]"]
  by (simp add: countExprAcc_def countExprReset_def)

text \<open>
  C35. SUM over integers whose magnitudes add up to at most \<open>2 ^ 53\<close> is their exact sum, as an integer.
  Computed in parts and merged it is the same number but always a float, since the merge starts from
  scratch memory whose type is not \<open>T_INTEGER\<close>.
\<close>

theorem sum_exact_but_float_when_merged:
  assumes "int_args (concat parts)" and "ints (concat parts) \<noteq> []"
  shows "bindR (foldR sumExprAcc sumExprReset (concat parts)) sumExprGet =
      Inr (Integer (of_int (sum_list (ints (concat parts))))) \<and>
      bindR (distributed sumExprAcc sumExprReset sumExprMerge sumExprSave sumExprLoad parts) sumExprGet =
      Inr (Flt (dbl_of_int (sum_list (ints (concat parts)))))"
proof
  note exact = int_args_exact [OF assms(1)]
  show "bindR (foldR sumExprAcc sumExprReset (concat parts)) sumExprGet =
      Inr (Integer (of_int (sum_list (ints (concat parts)))))"
    using assms(2) by (simp add: sum.accumulate_all [OF assms(1)] sumExprGet_def sum_of_def trunc_of_int [OF exact])
  have "parts \<noteq> []" using assms(2) by auto
  then show "bindR (distributed sumExprAcc sumExprReset sumExprMerge sumExprSave sumExprLoad parts) sumExprGet =
      Inr (Flt (dbl_of_int (sum_list (ints (concat parts)))))"
    by (simp add: sum.distributed_merged [OF assms(1)] sumExprGet_def merged_sum_of_def)
qed

theorem sum_exact_but_float_when_merged_witness:
  "bindR (foldR sumExprAcc sumExprReset [[Integer 40], [Null], [Integer 2]]) sumExprGet = Inr (Integer 42) \<and>
   bindR (distributed sumExprAcc sumExprReset sumExprMerge sumExprSave sumExprLoad
     [[[Integer 40], [Null]], [[Integer 2]]]) sumExprGet = Inr (Flt (dbl_of_int 42))"
  using sum_exact_but_float_when_merged [of "[[[Integer 40], [Null]], [[Integer 2]]]"]
  by (simp add: int_args_def)

text \<open>
  The type of a SUM is the type of its last argument that is not NULL: with an integer last, a
  fractional sum is cut to an integer, with any other number last it is a float, in whatever order
  the same numbers came before.
\<close>

lemma sum_type_of_last_argument:
  assumes "foldR sumExprAcc sumExprReset (xs @ [v] # nulls) = Inr d"
    and "v \<noteq> Null" and "\<forall>a\<in>set nulls. a = [Null]"
  shows "sumExprGet d =
     (if type_of v = T_Integer then bindR (dbl_to_int64 (sum_val d)) (\<lambda>n. Inr (Integer n)) else Inr (Flt (sum_val d)))"
proof -
  have skip: "foldR sumExprAcc s nulls = Inr s" for s
    using assms(3) by (induction nulls) (simp_all add: sumExprAcc_def)
  obtain s where s: "sumExprAcc s [v] = Inr d"
    using assms(1) by (auto simp: foldR_append bindR_eq_Inr_iff skip)
  show ?thesis
    using s assms(2) by (cases v) (auto simp: sumExprAcc_def sumExprGet_def bindR_eq_Inr_iff)
qed

lemma sum_type_of_last_argument_witness:
  "bindR (foldR sumExprAcc sumExprReset [[Flt (dbl_of_int 2)], [Integer 1], [Null]]) sumExprGet = Inr (Integer 3)"
proof -
  let ?d = "\<lparr>sum_type = 3, sum_val = dbl_of_int 3\<rparr>"
  have "exact_int 0" "exact_int 1" "exact_int 2" "exact_int 3" by (simp_all add: exact_int_def)
  then have "dbl_add 0 (dbl_of_int 2) = dbl_of_int 2" "dbl_add (dbl_of_int 2) (dbl_of_int 1) = dbl_of_int 3"
    using add_exact [of 0 2] add_exact [of 2 1] by (simp_all add: dbl_of_int_0)
  then have run: "foldR sumExprAcc sumExprReset ([[Flt (dbl_of_int 2)]] @ [Integer 1] # [[Null]]) = Inr ?d"
    by (simp add: sumExprAcc_def sumExprReset_def getFloat_def)
  show ?thesis
    using sum_type_of_last_argument [OF run] run trunc_of_int [OF \<open>exact_int 3\<close>] by simp
qed

text \<open>
  On zeroed scratch memory MAX of a single number is that number with the low half of its
  mantissa overwritten by the counter, which differs from the number unless its low half is 1.
\<close>

lemma max_overwrites_mantissa:
  assumes "getFloat v = Inr x" and "v \<noteq> Null" and "(ucast x :: 32 word) \<noteq> 1"
  shows "maxExpr 0 [v] out = Inr (set_union_count x 1, Flt (set_union_count x 1)) \<and> set_union_count x 1 \<noteq> x"
proof
  show "maxExpr 0 [v] out = Inr (set_union_count x 1, Flt (set_union_count x 1))"
    using assms(1,2) by (cases v) (simp_all add: maxExpr_def extremeExpr_def union_count_def getFloat_def Let_def split: option.splits)
  have "(ucast (set_union_count x 1) :: 32 word) = 1"
  proof -
    have "set_union_count x 1 = or (push_bit 32 (drop_bit 32 x)) 1"
      unfolding set_union_count_def
      by (subst disjunctive_add) (auto simp: bit_simps)
    then show ?thesis by (simp only:) (rule bit_word_eqI, auto simp: bit_simps)
  qed
  then show "set_union_count x 1 \<noteq> x" using assms(3) by auto
qed

lemma max_overwrites_mantissa_witness:
  "maxExpr 0 [Flt 4617315517961601024] Null = Inr (4617315517961601025, Flt 4617315517961601025)"
  using max_overwrites_mantissa [of "Flt 4617315517961601024" 4617315517961601024 Null]
  by (simp add: getFloat_def set_union_count_def)

end
