(* ===== verification/Strings.thy ===== *)
theory Strings
  imports SValue "HOL-Library.Monad_Syntax"
begin

text \<open>
  The string helpers of src/stx/stringutil.cc: searching, splitting, joining, replacing, formatting
  and the character tests. The loops that may run forever are \<open>partial_function\<close>s, whose value
  \<open>None\<close> is a call that does not return.
\<close>

section \<open>Searching\<close>

definition beginsWith :: "string \<Rightarrow> string \<Rightarrow> bool" where
  "beginsWith str pre =
     (if length str < length pre then False else take (length pre) str = pre)"

definition endsWith :: "string \<Rightarrow> string \<Rightarrow> bool" where
  "endsWith str suf =
     (if length str < length suf then False else drop (length str - length suf) str = suf)"

text \<open>\<open>std::string::find\<close>: the position of the first occurrence.\<close>

fun find_str :: "string \<Rightarrow> string \<Rightarrow> nat option" where
  "find_str p [] = (if p = [] then Some 0 else None)"
| "find_str p (c # cs) = (if take (length p) (c # cs) = p then Some 0 else map_option Suc (find_str p cs))"

definition includes_str :: "string \<Rightarrow> string \<Rightarrow> bool" where
  "includes_str str subject \<longleftrightarrow> find_str subject str \<noteq> None"

text \<open>The position of a character, \<open>None\<close> for the result -1.\<close>

fun find_char :: "string \<Rightarrow> char \<Rightarrow> nat option" where
  "find_char [] chr = None"
| "find_char (c # cs) chr = (if c = chr then Some 0 else map_option Suc (find_char cs chr))"

definition findLast :: "string \<Rightarrow> char \<Rightarrow> nat option" where
  "findLast str chr = map_option (\<lambda>i. length str - 1 - i) (find_char (rev str) chr)"

text \<open>The three-way comparison of two byte ranges.\<close>

fun compare_strings :: "string \<Rightarrow> string \<Rightarrow> int" where
  "compare_strings (a # as) (b # bs) =
     (if a \<noteq> b then (if (of_char a :: nat) < of_char b then -1 else 1) else compare_strings as bs)"
| "compare_strings (a # as) [] = 1"
| "compare_strings [] (b # bs) = -1"
| "compare_strings [] [] = 0"

section \<open>Splitting, joining, replacing\<close>

partial_function (option) split_str :: "string \<Rightarrow> string \<Rightarrow> string list option" where
  "split_str str pat =
     (case find_str pat str of
        None \<Rightarrow> Some [str]
      | Some k \<Rightarrow> Option.bind (split_str (drop (k + length pat) str) pat) (\<lambda>parts. Some (take k str # parts)))"

fun join_str :: "string list \<Rightarrow> string \<Rightarrow> string" where
  "join_str [] sep = []"
| "join_str [x] sep = x"
| "join_str (x # y # xs) sep = x @ sep @ join_str (y # xs) sep"

partial_function (option) replace_loop :: "string \<Rightarrow> string \<Rightarrow> string \<Rightarrow> string option" where
  "replace_loop str pat rep =
     (case find_str pat str of
        None \<Rightarrow> Some str
      | Some k \<Rightarrow> Option.bind (replace_loop (drop (k + length pat) str) pat rep)
          (\<lambda>rest. Some (take k str @ rep @ rest)))"

definition replaceAll :: "string \<Rightarrow> string \<Rightarrow> string \<Rightarrow> string option" where
  "replaceAll str pat rep = (if str = [] then Some [] else replace_loop str pat rep)"

text \<open>The placeholders are filled in one after the other, so the text of one value can hold the next placeholder.\<close>

fun formatv_from :: "nat \<Rightarrow> string \<Rightarrow> string list \<Rightarrow> string option" where
  "formatv_from i str [] = Some str"
| "formatv_from i str (v # vs) =
     Option.bind (replaceAll str (CHR ''$'' # digits_of i) v) (\<lambda>str'. formatv_from (Suc i) str' vs)"

definition formatv :: "string \<Rightarrow> string list \<Rightarrow> string option" where
  "formatv fmt vs = formatv_from 0 fmt vs"

text \<open>\<open>back\<close> of an empty string is undefined, and the loop takes slashes until another character or the empty string.\<close>

fun strip_slashes_rev :: "string \<Rightarrow> string result" where
  "strip_slashes_rev [] = Inl (Undefined ReadOutOfBounds)"
| "strip_slashes_rev (c # cs) = (if c = CHR ''/'' then strip_slashes_rev cs else Inr (c # cs))"

definition stripTrailingSlashes :: "string \<Rightarrow> string result" where
  "stripTrailingSlashes str = bindR (strip_slashes_rev (rev str)) (\<lambda>r. Inr (rev r))"

section \<open>Character tests\<close>

definition upper :: "char \<Rightarrow> char" where
  "upper c = (let n = of_char c :: nat in if 97 \<le> n \<and> n \<le> 122 then char_of (n - 32) else c)"

definition toLower :: "string \<Rightarrow> string" where
  "toLower str = map lower str"

definition toUpper :: "string \<Rightarrow> string" where
  "toUpper str = map upper str"

definition between :: "char \<Rightarrow> char \<Rightarrow> char \<Rightarrow> bool" where
  "between lo hi c \<longleftrightarrow> lo \<le> c \<and> c \<le> hi"

definition isHexString :: "string \<Rightarrow> bool" where
  "isHexString str \<longleftrightarrow>
     list_all (\<lambda>c. between CHR ''0'' CHR ''9'' c \<or> between CHR ''a'' CHR ''f'' c \<or> between CHR ''A'' CHR ''F'' c) str"

definition isAlphanumericChar :: "char \<Rightarrow> bool" where
  "isAlphanumericChar c \<longleftrightarrow>
     between CHR ''0'' CHR ''9'' c \<or> between CHR ''a'' CHR ''z'' c \<or> between CHR ''A'' CHR ''Z'' c"

definition isAlphanumeric :: "string \<Rightarrow> bool" where
  "isAlphanumeric str \<longleftrightarrow> list_all isAlphanumericChar str"

definition isShellSafeChar :: "char \<Rightarrow> bool" where
  "isShellSafeChar c \<longleftrightarrow> isAlphanumericChar c \<or> c = CHR ''_'' \<or> c = CHR ''-'' \<or> c = CHR ''.''"

definition isShellSafe :: "string \<Rightarrow> bool" where
  "isShellSafe str \<longleftrightarrow> list_all isShellSafeChar str"

definition stripShell :: "string \<Rightarrow> string" where
  "stripShell str = filter (\<lambda>c. isAlphanumericChar c \<or> c = CHR ''_'' \<or> c = CHR ''-'' \<or> c = CHR ''.'') str"

definition isDigitString :: "string \<Rightarrow> bool" where
  "isDigitString str \<longleftrightarrow> list_all is_decimal str"

text \<open>
  \<open>isNumber\<close>: the first loop returns at any character that is not a digit, so it is left only at the
  end of the text; the tests for a separator and for a fraction come after it.
\<close>

definition isNumber :: "string \<Rightarrow> bool" where
  "isNumber str =
     (let s1 = (if str \<noteq> [] \<and> hd str = CHR ''-'' then tl str else str) in
      if \<not> list_all is_decimal s1 then False
      else
        (let s2 = drop (length s1) s1;
             s3 = (if s2 \<noteq> [] \<and> (hd s2 = CHR ''.'' \<or> hd s2 = CHR '','') then tl s2 else s2) in
         list_all is_decimal s3))"

section \<open>Numbers as text\<close>

text \<open>
  \<open>toString(double)\<close>: \<open>%f\<close> without trailing zeros, one digit after the point being kept. The buffer has
  128 bytes, and \<open>snprintf\<close> returns the length the whole text would have.
\<close>

fun strip_zeros_rev :: "string \<Rightarrow> string" where
  "strip_zeros_rev (c # d # e # cs) =
     (if c = CHR ''0'' \<and> d \<noteq> CHR ''.'' then strip_zeros_rev (d # e # cs) else c # d # e # cs)"
| "strip_zeros_rev cs = cs"

definition double_to_string :: "dbl \<Rightarrow> string result" where
  "double_to_string x =
     (let buf = dbl_to_string x in
      if 128 \<le> length buf then Inl (Undefined ReadOutOfBounds) else Inr (rev (strip_zeros_rev (rev buf))))"

section \<open>Lemmas\<close>

lemma find_str_SomeD: "find_str p s = Some k \<Longrightarrow> k + length p \<le> length s \<and> take (length p) (drop k s) = p"
proof (induction p s arbitrary: k rule: find_str.induct)
  case (2 p c cs)
  show ?case
  proof (cases "take (length p) (c # cs) = p")
    case True
    then have "length p \<le> length (c # cs)" by (metis length_take min.absorb_iff2 min.commute)
    with True 2(2) show ?thesis by auto
  next
    case False
    then obtain j where "find_str p cs = Some j" "k = Suc j" using 2(2) by auto
    then show ?thesis using 2(1) [OF False] by simp
  qed
qed (auto split: if_splits)

lemma find_str_parts: "find_str p s = Some k \<Longrightarrow> take k s @ p @ drop (k + length p) s = s"
  by (metis add.commute append_take_drop_id drop_drop find_str_SomeD)

lemma find_str_None: "p \<noteq> [] \<Longrightarrow> find_str p s = None \<longleftrightarrow> (\<nexists>a b. s = a @ p @ b)"
proof (induction p s rule: find_str.induct)
  case (2 p c cs)
  show ?case
  proof (cases "take (length p) (c # cs) = p")
    case True
    then have "c # cs = [] @ p @ drop (length p) (c # cs)" by (metis append_Nil append_take_drop_id)
    then have "\<exists>a b. c # cs = a @ p @ b" by blast
    with True show ?thesis by simp
  next
    case False
    have "(\<exists>a b. c # cs = a @ p @ b) \<longleftrightarrow> (\<exists>a b. cs = a @ p @ b)"
    proof
      assume "\<exists>a b. c # cs = a @ p @ b"
      then obtain a b where ab: "c # cs = a @ p @ b" by blast
      then have "a \<noteq> []" using False by (metis append_Nil append_eq_conv_conj)
      with ab show "\<exists>a b. cs = a @ p @ b" by (cases a) auto
    next
      assume "\<exists>a b. cs = a @ p @ b"
      then show "\<exists>a b. c # cs = a @ p @ b" by (metis append_Cons)
    qed
    then show ?thesis using False 2 by simp
  qed
qed simp

text \<open>With a pattern the loops end.\<close>

lemma split_total: "p \<noteq> [] \<Longrightarrow> \<exists>parts. split_str s p = Some parts \<and> parts \<noteq> [] \<and> join_str parts p = s"
proof (induction "length s" arbitrary: s rule: less_induct)
  case less
  show ?case
  proof (cases "find_str p s")
    case (Some k)
    have "length (drop (k + length p) s) < length s"
      using find_str_SomeD [OF Some] less.prems by (cases p) auto
    from less.hyps [OF this less.prems] obtain parts
      where parts: "split_str (drop (k + length p) s) p = Some parts" "parts \<noteq> []"
        "join_str parts p = drop (k + length p) s" by blast
    then obtain q qs where "parts = q # qs" by (cases parts) auto
    then show ?thesis using parts Some find_str_parts [OF Some] by (simp add: split_str.simps [of s])
  qed (simp add: split_str.simps [of s])
qed

lemma replace_loop_split:
  "p \<noteq> [] \<Longrightarrow> split_str s p = Some parts \<Longrightarrow> replace_loop s p r = Some (join_str parts r)"
proof (induction "length s" arbitrary: s parts rule: less_induct)
  case less
  show ?case
  proof (cases "find_str p s")
    case None
    then show ?thesis using less.prems by (auto simp: split_str.simps [of s] replace_loop.simps [of s])
  next
    case (Some k)
    have short: "length (drop (k + length p) s) < length s"
      using find_str_SomeD [OF Some] less.prems(1) by (cases p) auto
    obtain ps where ps: "split_str (drop (k + length p) s) p = Some ps" "ps \<noteq> []"
      using split_total [OF less.prems(1)] by blast
    then obtain q qs where "ps = q # qs" by (cases ps) auto
    with ps Some less.hyps [OF short less.prems(1) ps(1)] less.prems(2) show ?thesis
      by (auto simp: split_str.simps [of s] replace_loop.simps [of s])
  qed
qed

lemma find_char_single: "find_str [c] s = find_char s c"
  by (induction s) auto

lemma find_char_append: "c \<notin> set xs \<Longrightarrow> find_char (xs @ c # ys) c = Some (length xs)"
  by (induction xs) auto

lemma find_char_None: "find_char s c = None \<longleftrightarrow> c \<notin> set s"
  by (induction s) auto

lemma find_char_absent [simp]: "c \<notin> set s \<Longrightarrow> find_char s c = None"
  by (simp add: find_char_None)

lemma split_join: "parts \<noteq> [] \<Longrightarrow> \<forall>p\<in>set parts. c \<notin> set p \<Longrightarrow> split_str (join_str parts [c]) [c] = Some parts"
proof (induction parts "[c]" rule: join_str.induct)
  case (2 x)
  then show ?case by (simp add: split_str.simps find_char_single find_char_None)
next
  case (3 x y xs)
  then show ?case
    by (subst split_str.simps) (simp add: find_char_single find_char_append)
qed simp

lemma split_of_char:
  "split_str s [c] = Some parts \<Longrightarrow> concat (map (\<lambda>d. if d = c then rep else [d]) s) = join_str parts rep"
proof (induction "length s" arbitrary: s parts rule: less_induct)
  case less
  have id: "c \<notin> set t \<Longrightarrow> concat (map (\<lambda>d. if d = c then rep else [d]) t) = t" for t
    by (induction t) auto
  show ?case
  proof (cases "find_char s c")
    case None
    then have "c \<notin> set s" by (simp add: find_char_None)
    then show ?thesis using less.prems id [of s] by (auto simp: split_str.simps [of s] find_char_single)
  next
    case (Some k)
    then have "find_str [c] s = Some k" by (simp add: find_char_single)
    note parts = find_str_SomeD [OF this] find_str_parts [OF this]
    have "c \<notin> set (take k s)"
      using Some by (induction s arbitrary: k) (auto split: if_splits simp: take_Cons')
    obtain ps where ps: "split_str (drop (Suc k) s) [c] = Some ps" "ps \<noteq> []"
      using split_total [of "[c]"] by blast
    then obtain q qs where q: "ps = q # qs" by (cases ps) auto
    have len: "length (drop (Suc k) s) < length s" using parts(1) by (cases s) auto
    have "concat (map (\<lambda>d. if d = c then rep else [d]) (take k s @ [c] @ drop (Suc k) s)) =
        take k s @ rep @ join_str ps rep"
      using less.hyps [OF len ps(1)] id [OF \<open>c \<notin> set (take k s)\<close>] by simp
    moreover have "take k s @ [c] @ drop (Suc k) s = s" using parts(2) by simp
    ultimately have "concat (map (\<lambda>d. if d = c then rep else [d]) s) = take k s @ rep @ join_str ps rep"
      by (simp only:)
    then show ?thesis using less.prems ps q Some
      by (auto simp: split_str.simps [of s] find_char_single)
  qed
qed

section \<open>Properties\<close>

text \<open>
  With a separator that is not empty, \<open>split\<close> returns, joining its parts with the separator gives
  the text back, and \<open>replaceAll\<close> gives the parts joined with the replacement; parts that do not
  contain a one-character separator are recovered from their join.
\<close>

theorem split_join_replace:
  assumes "sep \<noteq> []"
  shows "(\<exists>parts. split_str str sep = Some parts \<and> join_str parts sep = str \<and>
       replaceAll str sep rep = Some (join_str parts rep)) \<and>
     (\<forall>ps c. ps \<noteq> [] \<and> (\<forall>p\<in>set ps. c \<notin> set p) \<longrightarrow> split_str (join_str ps [c]) [c] = Some ps)"
proof
  obtain parts where parts: "split_str str sep = Some parts" "parts \<noteq> []" "join_str parts sep = str"
    using split_total [OF assms] by blast
  have "replaceAll str sep rep = Some (join_str parts rep)"
  proof (cases "str = []")
    case True
    then have "parts = [[]]" using parts(1) assms by (simp add: split_str.simps)
    then show ?thesis using True by (simp add: replaceAll_def)
  next
    case False
    then show ?thesis using replace_loop_split [OF assms parts(1)] by (simp add: replaceAll_def)
  qed
  with parts show "\<exists>parts. split_str str sep = Some parts \<and> join_str parts sep = str \<and>
      replaceAll str sep rep = Some (join_str parts rep)" by blast
qed (blast intro: split_join)

theorem split_join_replace_witness:
  "split_str ''a--b'' ''--'' = Some [''a'', ''b''] \<and> replaceAll ''a--b'' ''--'' '', '' = Some ''a, b'' \<and>
   split_str ''a;;b'' '';'' = Some [''a'', [], ''b'']"
proof -
  have "split_str ''a--b'' ''--'' = Some [''a'', ''b'']"
    by (subst split_str.simps, simp, subst split_str.simps, simp)
  then show ?thesis
    using split_join_replace [of "''--''" "''a--b''" "'', ''"] by (auto dest!: spec [of _ "[''a'', [], ''b'']"] spec [of _ "CHR '';''"])
qed

text \<open>The quoting of \<open>SValue::toSQL\<close> is \<open>replaceAll\<close>.\<close>

lemma escape_quotes_replaceAll: "replaceAll s [CHR 0x22] [CHR 0x5C, CHR 0x22] = Some (escape_quotes s)"
proof -
  obtain parts where parts: "split_str s [CHR 0x22] = Some parts"
    using split_total [of "[CHR 0x22]"] by blast
  then have "escape_quotes s = join_str parts [CHR 0x5C, CHR 0x22]"
    unfolding escape_quotes_def by (rule split_of_char)
  with replace_loop_split [OF _ parts] show ?thesis
    by (auto simp: replaceAll_def escape_quotes_def)
qed

text \<open>
  \<open>isNumber\<close> holds of digits after an optional minus, of the empty text and of a lone minus, and
  of nothing else: no text with a decimal point or comma is a number.
\<close>

lemma isNumber_integers_only:
  "isNumber str \<longleftrightarrow> isDigitString (drop_minus str)"
  by (simp add: isNumber_def isDigitString_def drop_minus_def Let_def)

end
