(* ===== verification/Expr_String.thy ===== *)
theory Expr_String
  imports Strings Expr_Boolean
begin

text \<open>The string functions of src/csql/expressions/string.cc and the date function of datetime.cc.\<close>

definition checkArgs :: "svalue list \<Rightarrow> nat \<Rightarrow> 'a result \<Rightarrow> 'a result" where
  "checkArgs argv n body = (if length argv \<noteq> n then Inl (Raise RuntimeError) else body)"

definition startsWithExpr :: pure_function where
  "startsWithExpr argv out =
     checkArgs argv 2 (Inr (Bool (beginsWith (toString (argv ! 0)) (toString (argv ! 1)))))"

definition endsWithExpr :: pure_function where
  "endsWithExpr argv out =
     checkArgs argv 2 (Inr (Bool (endsWith (toString (argv ! 0)) (toString (argv ! 1)))))"

definition upperCaseExpr :: pure_function where
  "upperCaseExpr argv out = checkArgs argv 1 (Inr (Str (toUpper (toString (argv ! 0)))))"

definition lowerCaseExpr :: pure_function where
  "lowerCaseExpr argv out = checkArgs argv 1 (Inr (Str (toLower (toString (argv ! 0)))))"

text \<open>A value that has no numeric form keeps its type, so that \<open>getTimestamp\<close> decides about it.\<close>

definition fromTimestamp :: pure_function where
  "fromTimestamp argv out =
     checkArgs argv 1
       (bindR (tryTimeConversion (argv ! 0)) (\<lambda>(tmp, _). bindR (getTimestamp tmp) (\<lambda>t. Inr (of_time t))))"

end
