(* ===== verification/Value_Expr.thy ===== *)
theory Value_Expr
  imports Aggregate Expr_Math Expr_String
begin

text \<open>
  Value expressions of the query tree (src/csql/qtree: \<open>ColumnReferenceNode\<close>, \<open>LiteralExpressionNode\<close>,
  \<open>IfExpressionNode\<close>, \<open>CallExpressionNode\<close>) and the table of functions they call
  (csql/SFunction.h, csql/runtime/symboltable.cc, csql/defaults.cc).
\<close>

section \<open>Nodes\<close>

text \<open>A column is resolved once it has an index; the index \<open>size_t(-1)\<close> stands for a missing column.\<close>

datatype expr_node =
    ColumnReference string "64 word option"
  | LiteralExpression svalue
  | IfExpression expr_node expr_node expr_node
  | CallExpression string "expr_node list"

fun arguments_of :: "expr_node \<Rightarrow> expr_node list" where
  "arguments_of (IfExpression c t f) = [c, t, f]"
| "arguments_of (CallExpression symbol args) = args"
| "arguments_of (ColumnReference name i) = []"
| "arguments_of (LiteralExpression v) = []"

fun deepCopy_node :: "expr_node \<Rightarrow> expr_node" where
  "deepCopy_node (ColumnReference name i) = ColumnReference name i"
| "deepCopy_node (LiteralExpression v) = LiteralExpression v"
| "deepCopy_node (IfExpression c t f) = IfExpression (deepCopy_node c) (deepCopy_node t) (deepCopy_node f)"
| "deepCopy_node (CallExpression symbol args) = CallExpression symbol (map deepCopy_node args)"

text \<open>\<open>toSQL\<close> fills in the placeholders of its format one after the other; \<open>None\<close> would be a format that never ends.\<close>

fun node_toSQL :: "expr_node \<Rightarrow> string option" and nodes_toSQL :: "expr_node list \<Rightarrow> string list option" where
  "node_toSQL (ColumnReference name i) =
     (case i of
        Some k \<Rightarrow> if name = [] then formatv ''subquery_column($0)'' [digits_of (unat k)] else Some name
      | None \<Rightarrow> Some name)"
| "node_toSQL (LiteralExpression v) = Some (toSQL v)"
| "node_toSQL (IfExpression c t f) =
     Option.bind (node_toSQL c) (\<lambda>cs. Option.bind (node_toSQL t) (\<lambda>ts. Option.bind (node_toSQL f) (\<lambda>fs.
       formatv ''if($0, $1, $2)'' [cs, ts, fs])))"
| "node_toSQL (CallExpression symbol args) =
     Option.bind (nodes_toSQL args) (\<lambda>as. formatv ''$0($1)'' [symbol, join_str as '','' ])"
| "nodes_toSQL [] = Some []"
| "nodes_toSQL (a # as) = Option.bind (node_toSQL a) (\<lambda>s. Option.bind (nodes_toSQL as) (\<lambda>ss. Some (s # ss)))"

section \<open>The symbol table\<close>

datatype sfunction = FN_PURE pure_function | FN_AGGREGATE aggregate_function

text \<open>\<open>emplace\<close> keeps the entry of a key that is already there.\<close>

type_synonym symbol_table = "(string \<times> sfunction) list"

definition registerFunction :: "symbol_table \<Rightarrow> string \<Rightarrow> sfunction \<Rightarrow> symbol_table" where
  "registerFunction syms symbol fn =
     (case map_of syms (toLower symbol) of
        None \<Rightarrow> syms @ [(toLower symbol, fn)]
      | Some _ \<Rightarrow> syms)"

definition lookup :: "symbol_table \<Rightarrow> string \<Rightarrow> sfunction result" where
  "lookup syms symbol =
     (case map_of syms (toLower symbol) of None \<Rightarrow> Inl (Raise RuntimeError) | Some fn \<Rightarrow> Inr fn)"

definition isAggregateFunction :: "symbol_table \<Rightarrow> string \<Rightarrow> bool result" where
  "isAggregateFunction syms symbol =
     bindR (lookup syms symbol) (\<lambda>fn. Inr (case fn of FN_AGGREGATE _ \<Rightarrow> True | FN_PURE _ \<Rightarrow> False))"

definition default_symbols :: "(dbl \<Rightarrow> dbl \<Rightarrow> dbl) \<Rightarrow> (string \<times> sfunction) list" where
  "default_symbols libm_pow =
     [(''count'', FN_AGGREGATE kCountExpr), (''sum'', FN_AGGREGATE kSumExpr),
      (''eq'', FN_PURE Expr_Boolean.eqExpr), (''neq'', FN_PURE Expr_Boolean.neqExpr),
      (''logical_and'', FN_PURE Expr_Boolean.andExpr), (''logical_or'', FN_PURE Expr_Boolean.orExpr),
      (''neg'', FN_PURE negExpr),
      (''lt'', FN_PURE Expr_Boolean.ltExpr), (''lte'', FN_PURE Expr_Boolean.lteExpr),
      (''gt'', FN_PURE Expr_Boolean.gtExpr), (''gte'', FN_PURE Expr_Boolean.gteExpr),
      (''FROM_TIMESTAMP'', FN_PURE fromTimestamp),
      (''add'', FN_PURE Expr_Math.addExpr), (''sub'', FN_PURE Expr_Math.subExpr), (''mul'', FN_PURE Expr_Math.mulExpr),
      (''div'', FN_PURE Expr_Math.divExpr), (''mod'', FN_PURE Expr_Math.modExpr),
      (''pow'', FN_PURE (Expr_Math.powExpr libm_pow)),
      (''round'', FN_PURE roundExpr), (''truncate'', FN_PURE truncateExpr),
      (''startswith'', FN_PURE startsWithExpr), (''endswith'', FN_PURE endsWithExpr),
      (''uppercase'', FN_PURE upperCaseExpr), (''ucase'', FN_PURE upperCaseExpr),
      (''lowercase'', FN_PURE lowerCaseExpr), (''lcase'', FN_PURE lowerCaseExpr),
      (''repeat_value'', FN_AGGREGATE kRepeatValueExpr)]"

definition installDefaultSymbols :: "(dbl \<Rightarrow> dbl \<Rightarrow> dbl) \<Rightarrow> symbol_table \<Rightarrow> symbol_table" where
  "installDefaultSymbols libm_pow syms = foldl (\<lambda>t (symbol, fn). registerFunction t symbol fn) syms (default_symbols libm_pow)"

lemma deepCopy_node_id [simp]: "deepCopy_node e = e"
  by (induction e) (simp_all add: map_idI)

lemma lookup_registerFunction:
  "lookup (registerFunction syms symbol fn) symbol' =
     (if toLower symbol' = toLower symbol
      then Inr (case map_of syms (toLower symbol) of None \<Rightarrow> fn | Some old \<Rightarrow> old) else lookup syms symbol')"
  by (auto simp: lookup_def registerFunction_def map_add_def split: option.splits)

end
