(* ===== verification/Vm.thy ===== *)
theory Vm
  imports Value_Expr
begin

text \<open>
  The compiler of value expressions (src/csql/runtime/compiler.cc) and the virtual machine that runs
  them (vm.cc): evaluation, accumulation of aggregates in scratch memory, merging and serialization
  of instances. An instruction owns its children; the \<open>next\<close> links are the list of children, whose
  length is \<open>argn\<close>. Scratch memory maps the offset of a slot to the cell stored there.
\<close>

section \<open>Programs\<close>

datatype instruction =
    X_CALL_PURE pure_function "instruction list"
  | X_CALL_AGGREGATE nat aggregate_function "instruction list"
  | X_LITERAL svalue
  | X_INPUT "64 word"
  | X_IF "instruction list"

fun children_of :: "instruction \<Rightarrow> instruction list" where
  "children_of (X_CALL_PURE f cs) = cs"
| "children_of (X_CALL_AGGREGATE off agg cs) = cs"
| "children_of (X_IF cs) = cs"
| "children_of (X_LITERAL v) = []"
| "children_of (X_INPUT i) = []"

text \<open>\<open>initProgram\<close> looks for an aggregate call.\<close>

fun initProgram :: "instruction \<Rightarrow> bool" where
  "initProgram (X_CALL_AGGREGATE off agg cs) = True"
| "initProgram (X_CALL_PURE f cs) = list_ex initProgram cs"
| "initProgram (X_IF cs) = list_ex initProgram cs"
| "initProgram (X_LITERAL v) = False"
| "initProgram (X_INPUT i) = False"

record vm_program =
  entry :: instruction
  dynamic_storage_size :: nat
  has_aggregate :: bool

definition new_program :: "instruction \<Rightarrow> nat \<Rightarrow> vm_program" where
  "new_program e size_of = \<lparr>entry = e, dynamic_storage_size = size_of, has_aggregate = initProgram e\<rparr>"

type_synonym scratch = "nat \<Rightarrow> cell"

text \<open>What the scratch pointer of an instance points to depends on \<open>has_aggregate\<close>.\<close>

datatype vm_instance = Slots scratch | Static svalue

section \<open>The compiler\<close>

text \<open>The dynamic storage size is threaded through; a call reserves its slot before its arguments do.\<close>

fun compileValueExpression :: "symbol_table \<Rightarrow> expr_node \<Rightarrow> nat \<Rightarrow> (instruction \<times> nat) result"
  and compile_args :: "symbol_table \<Rightarrow> expr_node list \<Rightarrow> nat \<Rightarrow> (instruction list \<times> nat) result" where
  "compileValueExpression syms (ColumnReference name i) dyn =
     (case i of
        None \<Rightarrow> Inl (Raise RuntimeError)
      | Some col_idx \<Rightarrow> if col_idx = -1 then Inr (X_LITERAL Null, dyn) else Inr (X_INPUT col_idx, dyn))"
| "compileValueExpression syms (LiteralExpression v) dyn = Inr (X_LITERAL v, dyn)"
| "compileValueExpression syms (IfExpression c t f) dyn =
     bindR (compileValueExpression syms c dyn) (\<lambda>(ci, d1).
       bindR (compileValueExpression syms t d1) (\<lambda>(ti, d2).
         bindR (compileValueExpression syms f d2) (\<lambda>(fi, d3). Inr (X_IF [ci, ti, fi], d3))))"
| "compileValueExpression syms (CallExpression symbol args) dyn =
     bindR (lookup syms symbol) (\<lambda>fn.
       case fn of
         FN_PURE f \<Rightarrow>
           bindR (compile_args syms args dyn) (\<lambda>(cs, dyn'). Inr (X_CALL_PURE f cs, dyn'))
       | FN_AGGREGATE agg \<Rightarrow>
           bindR (compile_args syms args (dyn + scratch_size agg)) (\<lambda>(cs, dyn').
             Inr (X_CALL_AGGREGATE dyn agg cs, dyn')))"
| "compile_args syms [] dyn = Inr ([], dyn)"
| "compile_args syms (e # es) dyn =
     bindR (compileValueExpression syms e dyn) (\<lambda>(c, dyn').
       bindR (compile_args syms es dyn') (\<lambda>(cs, dyn''). Inr (c # cs, dyn'')))"

definition compile :: "symbol_table \<Rightarrow> expr_node \<Rightarrow> vm_program result" where
  "compile syms node = bindR (compileValueExpression syms node 0) (\<lambda>(e, dyn). Inr (new_program e dyn))"

section \<open>Evaluation\<close>

text \<open>
  \<open>evaluate instr instance argv out\<close> is the value of the output variable after the call, which was
  \<open>out\<close> before; a pure function is only called when it has arguments.
\<close>

fun evaluate :: "instruction \<Rightarrow> scratch option \<Rightarrow> svalue list \<Rightarrow> svalue \<Rightarrow> svalue result" where
  "evaluate (X_IF []) inst argv out = Inl (Undefined NullDereference)"
| "evaluate (X_IF [c]) inst argv out =
     bindR (evaluate c inst argv Null) (\<lambda>cond. bindR (toBool cond) (\<lambda>b. Inl (Undefined NullDereference)))"
| "evaluate (X_IF [c, t]) inst argv out =
     bindR (evaluate c inst argv Null) (\<lambda>cond. bindR (toBool cond) (\<lambda>b.
       if b then evaluate t inst argv out else Inl (Undefined NullDereference)))"
| "evaluate (X_IF (c # t # f # cs)) inst argv out =
     bindR (evaluate c inst argv Null) (\<lambda>cond. bindR (toBool cond) (\<lambda>b.
       if b then evaluate t inst argv out else evaluate f inst argv out))"
| "evaluate (X_CALL_PURE fn cs) inst argv out =
     (if cs = [] then Inr out
      else bindR (mapR (\<lambda>c. evaluate c inst argv Null) cs) (\<lambda>stackv. fn stackv out))"
| "evaluate (X_CALL_AGGREGATE off agg cs) inst argv out =
     (case inst of
        None \<Rightarrow> Inl (Raise IllegalArgumentError)
      | Some mem \<Rightarrow> get_fn agg (mem off))"
| "evaluate (X_LITERAL v) inst argv out = Inr v"
| "evaluate (X_INPUT i) inst argv out =
     (if length argv \<le> unat i then Inl (Raise RuntimeError) else Inr (argv ! unat i))"

text \<open>One row: every aggregate call evaluates its arguments and accumulates them in its slot.\<close>

fun accumulate :: "instruction \<Rightarrow> scratch \<Rightarrow> svalue list \<Rightarrow> scratch result" where
  "accumulate (X_CALL_AGGREGATE off agg cs) mem argv =
     bindR (mapR (\<lambda>c. evaluate c (Some mem) argv Null) cs) (\<lambda>stackv.
       bindR (accumulate_fn agg (mem off) stackv) (\<lambda>c. Inr (mem(off := c))))"
| "accumulate (X_CALL_PURE f cs) mem argv = foldR (\<lambda>m c. accumulate c m argv) mem cs"
| "accumulate (X_IF cs) mem argv = foldR (\<lambda>m c. accumulate c m argv) mem cs"
| "accumulate (X_LITERAL v) mem argv = Inr mem"
| "accumulate (X_INPUT i) mem argv = Inr mem"

section \<open>Walks over the slots\<close>

text \<open>
  \<open>initInstance\<close>, \<open>resetInstance\<close>, \<open>mergeInstance\<close>, \<open>saveInstance\<close> and \<open>loadInstance\<close> visit a call and
  then its children; what they do at an aggregate call is the argument of the walk.
\<close>

fun visit :: "(nat \<Rightarrow> aggregate_function \<Rightarrow> 's \<Rightarrow> 's result) \<Rightarrow> instruction \<Rightarrow> 's \<Rightarrow> 's result" where
  "visit act (X_CALL_AGGREGATE off agg cs) s = bindR (act off agg s) (\<lambda>s'. foldR (\<lambda>t c. visit act c t) s' cs)"
| "visit act (X_CALL_PURE f cs) s = foldR (\<lambda>t c. visit act c t) s cs"
| "visit act (X_IF cs) s = foldR (\<lambda>t c. visit act c t) s cs"
| "visit act (X_LITERAL v) s = Inr s"
| "visit act (X_INPUT i) s = Inr s"

definition initInstance :: "instruction \<Rightarrow> scratch \<Rightarrow> scratch result" where
  "initInstance = visit (\<lambda>off agg mem. Inr (mem(off := init_fn agg (mem off))))"

definition resetInstance :: "instruction \<Rightarrow> scratch \<Rightarrow> scratch result" where
  "resetInstance = visit (\<lambda>off agg mem. Inr (mem(off := reset_fn agg (mem off))))"

definition mergeInstance :: "instruction \<Rightarrow> scratch \<Rightarrow> scratch \<Rightarrow> scratch result" where
  "mergeInstance e dst src =
     visit (\<lambda>off agg mem. bindR (merge_fn agg (mem off) (src off)) (\<lambda>c. Inr (mem(off := c)))) e dst"

definition saveInstance :: "instruction \<Rightarrow> scratch \<Rightarrow> byte list \<Rightarrow> byte list result" where
  "saveInstance e mem os = visit (\<lambda>off agg bs. bindR (savestate_fn agg (mem off)) (\<lambda>b. Inr (bs @ b))) e os"

definition loadInstance :: "instruction \<Rightarrow> scratch \<Rightarrow> scratch reader" where
  "loadInstance e mem is =
     visit (\<lambda>off agg (m, bs). bindR (loadstate_fn agg (m off) bs) (\<lambda>(c, r). Inr (m(off := c), r))) e (mem, is)"

section \<open>The interface of the machine\<close>

text \<open>Fresh scratch memory has no meaning; the value of a static expression starts as NULL.\<close>

definition allocInstance :: "vm_program \<Rightarrow> vm_instance result" where
  "allocInstance p =
     (if has_aggregate p then bindR (initInstance (entry p) (\<lambda>_. Raw)) (\<lambda>mem. Inr (Slots mem))
      else Inr (Static Null))"

definition on_slots :: "vm_instance \<Rightarrow> (scratch \<Rightarrow> 'a result) \<Rightarrow> 'a result" where
  "on_slots inst f = (case inst of Slots mem \<Rightarrow> f mem | Static _ \<Rightarrow> Inl (Undefined WrongScratchType))"

definition on_static :: "vm_instance \<Rightarrow> (svalue \<Rightarrow> 'a result) \<Rightarrow> 'a result" where
  "on_static inst f = (case inst of Static v \<Rightarrow> f v | Slots _ \<Rightarrow> Inl (Undefined WrongScratchType))"

definition vm_reset :: "vm_program \<Rightarrow> vm_instance \<Rightarrow> vm_instance result" where
  "vm_reset p inst =
     (if has_aggregate p then on_slots inst (\<lambda>mem. bindR (resetInstance (entry p) mem) (\<lambda>m. Inr (Slots m)))
      else Inr (Static Null))"

definition vm_result :: "vm_program \<Rightarrow> vm_instance \<Rightarrow> svalue \<Rightarrow> svalue result" where
  "vm_result p inst out =
     (if has_aggregate p then on_slots inst (\<lambda>mem. evaluate (entry p) (Some mem) [] out)
      else on_static inst Inr)"

definition vm_accumulate :: "vm_program \<Rightarrow> vm_instance \<Rightarrow> svalue list \<Rightarrow> vm_instance result" where
  "vm_accumulate p inst argv =
     (if has_aggregate p then on_slots inst (\<lambda>mem. bindR (accumulate (entry p) mem argv) (\<lambda>m. Inr (Slots m)))
      else on_static inst (\<lambda>v. bindR (evaluate (entry p) None argv v) (\<lambda>w. Inr (Static w))))"

definition vm_evaluate :: "vm_program \<Rightarrow> svalue list \<Rightarrow> svalue \<Rightarrow> svalue result" where
  "vm_evaluate p argv out = evaluate (entry p) None argv out"

definition vm_merge :: "vm_program \<Rightarrow> vm_instance \<Rightarrow> vm_instance \<Rightarrow> vm_instance result" where
  "vm_merge p dst src =
     (if has_aggregate p then on_slots dst (\<lambda>d. on_slots src (\<lambda>s. bindR (mergeInstance (entry p) d s) (\<lambda>m. Inr (Slots m))))
      else on_static src (\<lambda>v. on_static dst (\<lambda>_. Inr (Static v))))"

definition saveState :: "vm_program \<Rightarrow> vm_instance \<Rightarrow> byte list result" where
  "saveState p inst =
     (if has_aggregate p then on_slots inst (\<lambda>mem. saveInstance (entry p) mem [])
      else on_static inst (\<lambda>v. Inr (encode v)))"

definition loadState :: "vm_program \<Rightarrow> vm_instance \<Rightarrow> vm_instance reader" where
  "loadState p inst is =
     (if has_aggregate p
      then on_slots inst (\<lambda>mem. bindR (loadInstance (entry p) mem is) (\<lambda>(m, r). Inr (Slots m, r)))
      else on_static inst (\<lambda>v. bindR (decode v is) (\<lambda>(w, r). Inr (Static w, r))))"

end
