(* ===== verification/Vm_Spec.thy ===== *)
theory Vm_Spec
  imports Vm
begin

text \<open>
  What the machine computes. The slots of a compiled program are laid out one after the other; an
  instance that accumulated some rows holds, slot by slot, the state of its aggregate over those rows;
  and the result of the program is the value of the expression in which every aggregate call stands
  for its value over the rows. The value of an expression is given by \<open>denote\<close>, by recursion on the
  query tree and without instructions, slots or instances.
\<close>

section \<open>The value of an expression\<close>

text \<open>
  \<open>denote syms rows e argv out\<close>: \<open>argv\<close> is the current row, \<open>rows\<close> are the rows the aggregates range
  over, \<open>out\<close> the value an expression that assigns nothing leaves.
\<close>

fun denote :: "symbol_table \<Rightarrow> svalue list list \<Rightarrow> expr_node \<Rightarrow> svalue list \<Rightarrow> svalue \<Rightarrow> svalue result" where
  "denote syms rows (ColumnReference name i) argv out =
     (case i of
        None \<Rightarrow> Inl (Raise RuntimeError)
      | Some k \<Rightarrow> if k = -1 then Inr Null
          else if unat k < length argv then Inr (argv ! unat k) else Inl (Raise RuntimeError))"
| "denote syms rows (LiteralExpression v) argv out = Inr v"
| "denote syms rows (IfExpression c t f) argv out =
     bindR (denote syms rows c argv Null) (\<lambda>cond. bindR (toBool cond) (\<lambda>b.
       if b then denote syms rows t argv out else denote syms rows f argv out))"
| "denote syms rows (CallExpression symbol args) argv out =
     bindR (lookup syms symbol) (\<lambda>fn.
       case fn of
         FN_PURE f \<Rightarrow>
           if args = [] then Inr out else bindR (mapR (\<lambda>a. denote syms rows a argv Null) args) (\<lambda>vs. f vs out)
       | FN_AGGREGATE agg \<Rightarrow>
           bindR (foldR (\<lambda>c row. bindR (mapR (\<lambda>a. denote syms [] a row Null) args) (accumulate_fn agg c))
               (init_fn agg Raw) rows)
             (get_fn agg))"

section \<open>Slots\<close>

type_synonym slot = "nat \<times> aggregate_function \<times> instruction list"

fun slots :: "instruction \<Rightarrow> slot list" where
  "slots (X_CALL_AGGREGATE off agg cs) = (off, agg, cs) # concat (map slots cs)"
| "slots (X_CALL_PURE f cs) = concat (map slots cs)"
| "slots (X_IF cs) = concat (map slots cs)"
| "slots (X_LITERAL v) = []"
| "slots (X_INPUT i) = []"

text \<open>No aggregate inside the arguments of another.\<close>

fun flat :: "instruction \<Rightarrow> bool" where
  "flat (X_CALL_AGGREGATE off agg cs) = list_all (\<lambda>c. \<not> initProgram c) cs"
| "flat (X_CALL_PURE f cs) = list_all flat cs"
| "flat (X_IF cs) = list_all flat cs"
| "flat (X_LITERAL v) = True"
| "flat (X_INPUT i) = True"

lemma slots_empty: "slots e = [] \<longleftrightarrow> \<not> initProgram e"
  by (induction e rule: slots.induct) (auto simp: list_ex_iff)

lemma flat_static: "\<not> initProgram e \<Longrightarrow> flat e"
  by (induction e rule: flat.induct) (auto simp: list_ex_iff list_all_iff)

lemma foldR_concat:
  assumes "\<And>s c. c \<in> set cs \<Longrightarrow> g s c = foldR f s (h c)"
  shows "foldR g s cs = foldR f s (concat (map h cs))"
  using assms by (induction cs arbitrary: s) (simp_all add: foldR_append)

lemma visit_slots: "visit act e s = foldR (\<lambda>t (off, agg, cs). act off agg t) s (slots e)"
proof (induction e arbitrary: s rule: slots.induct)
  case (1 off agg cs)
  have "foldR (\<lambda>t c. visit act c t) t cs = foldR (\<lambda>t (off, agg, cs). act off agg t) t (concat (map slots cs))" for t
    by (rule foldR_concat) (rule 1)
  then show ?case by simp
next
  case (2 f cs)
  show ?case unfolding visit.simps slots.simps by (rule foldR_concat) (rule 2)
next
  case (3 cs)
  show ?case unfolding visit.simps slots.simps by (rule foldR_concat) (rule 3)
qed simp_all

text \<open>An expression without aggregates needs no instance.\<close>

lemma evaluate_static: "\<not> initProgram e \<Longrightarrow> evaluate e inst argv out = evaluate e None argv out"
proof (induction e arbitrary: out)
  case (X_CALL_PURE fn cs)
  then have "mapR (\<lambda>c. evaluate c inst argv Null) cs = mapR (\<lambda>c. evaluate c None argv Null) cs"
    by (intro mapR_cong [OF refl]) (auto simp: list_ex_iff)
  then show ?case by simp
next
  case (X_IF cs)
  then show ?case
    by (rule_tac evaluate.cases [of "(X_IF cs, inst, argv, out)"]) (auto cong: if_cong)
qed simp_all

text \<open>The arguments of an aggregate call on a row, and one step of its slot.\<close>

definition call_args :: "instruction list \<Rightarrow> svalue list \<Rightarrow> svalue list result" where
  "call_args cs argv = mapR (\<lambda>c. evaluate c None argv Null) cs"

definition slot_next :: "aggregate_function \<Rightarrow> instruction list \<Rightarrow> cell \<Rightarrow> svalue list \<Rightarrow> cell result" where
  "slot_next agg cs c argv = bindR (call_args cs argv) (accumulate_fn agg c)"

definition slot_step :: "svalue list \<Rightarrow> scratch \<Rightarrow> slot \<Rightarrow> scratch result" where
  "slot_step argv mem = (\<lambda>(off, agg, cs). bindR (slot_next agg cs (mem off) argv) (\<lambda>c. Inr (mem(off := c))))"

lemma accumulate_slots: "flat e \<Longrightarrow> accumulate e mem argv = foldR (slot_step argv) mem (slots e)"
proof (induction e mem argv rule: accumulate.induct)
  case (1 off agg cs mem argv)
  then have "mapR (\<lambda>c. evaluate c (Some mem) argv Null) cs = call_args cs argv"
    unfolding call_args_def by (intro mapR_cong) (auto simp: list_all_iff intro: evaluate_static)
  moreover have "slots (X_CALL_AGGREGATE off agg cs) = [(off, agg, cs)]"
    using 1 by (auto simp: list_all_iff slots_empty)
  moreover have "bindR m Inr = m" for m :: "scratch result" by (cases m) simp_all
  ultimately show ?case
    by (simp add: slot_step_def slot_next_def bindR_assoc del: slots.simps)
next
  case (2 f cs mem argv)
  have "foldR (\<lambda>m c. accumulate c m argv) mem cs = foldR (slot_step argv) mem (concat (map slots cs))"
    by (rule foldR_concat) (use 2 in \<open>auto simp: list_all_iff\<close>)
  then show ?case by simp
next
  case (3 cs mem argv)
  have "foldR (\<lambda>m c. accumulate c m argv) mem cs = foldR (slot_step argv) mem (concat (map slots cs))"
    by (rule foldR_concat) (use 3 in \<open>auto simp: list_all_iff\<close>)
  then show ?case by simp
qed simp_all

section \<open>The layout of a compiled program\<close>

fun layout :: "nat \<Rightarrow> slot list \<Rightarrow> nat \<Rightarrow> bool" where
  "layout a [] b \<longleftrightarrow> a = b"
| "layout a ((off, agg, cs) # ss) b \<longleftrightarrow> off = a \<and> layout (a + scratch_size agg) ss b"

lemma layout_append: "layout a ss b \<Longrightarrow> layout b ts c \<Longrightarrow> layout a (ss @ ts) c"
  by (induction a ss b rule: layout.induct) auto

lemma compile_layout:
  "compileValueExpression syms e d = Inr (i, d') \<Longrightarrow> layout d (slots i) d'"
  "compile_args syms es d = Inr (is, d') \<Longrightarrow> layout d (concat (map slots is)) d'"
proof (induction syms e d and syms es d arbitrary: i d' and "is" d'
    rule: compileValueExpression_compile_args.induct)
  case (1 syms name j dyn)
  then show ?case by (auto split: option.splits if_splits)
next
  case (3 syms c t f dyn)
  then show ?case by (fastforce simp: bindR_eq_Inr_iff intro: layout_append)
next
  case (4 syms symbol args dyn)
  then obtain fn where fn: "lookup syms symbol = Inr fn" by (auto simp: bindR_eq_Inr_iff)
  show ?case
  proof (cases fn)
    case (FN_PURE f)
    then show ?thesis using 4(1) [OF fn FN_PURE] 4(3) fn by (auto simp: bindR_eq_Inr_iff)
  next
    case (FN_AGGREGATE agg)
    then show ?thesis using 4(2) [OF fn FN_AGGREGATE] 4(3) fn by (auto simp: bindR_eq_Inr_iff)
  qed
next
  case (6 syms e es dyn)
  then show ?case by (fastforce simp: bindR_eq_Inr_iff intro: layout_append)
qed auto

lemma layout_range:
  assumes "layout a ss b" and "(off, agg, cs) \<in> set ss"
  shows "a \<le> off" and "off + scratch_size agg \<le> b"
proof -
  have "a \<le> b" if "layout a ss b" for a ss b
    using that by (induction a ss b rule: layout.induct) auto
  then show "a \<le> off" "off + scratch_size agg \<le> b"
    using assms by (induction a ss b rule: layout.induct) fastforce+
qed

definition disjoint_slots :: "slot \<Rightarrow> slot \<Rightarrow> bool" where
  "disjoint_slots = (\<lambda>(off, agg, _) (off', agg', _).
     off + scratch_size agg \<le> off' \<or> off' + scratch_size agg' \<le> off)"

lemma layout_disjoint: "layout a ss b \<Longrightarrow> j < k \<Longrightarrow> k < length ss \<Longrightarrow> disjoint_slots (ss ! j) (ss ! k)"
proof (induction a ss b arbitrary: j k rule: layout.induct)
  case (2 a off agg cs ss b)
  show ?case
  proof (cases j)
    case 0
    obtain off' agg' cs' where s: "ss ! (k - 1) = (off', agg', cs')" by (cases "ss ! (k - 1)")
    then have "(off', agg', cs') \<in> set ss" using 2 0 by (metis One_nat_def Suc_diff_1 Suc_less_eq length_Cons nth_mem)
    then have "a + scratch_size agg \<le> off'" using layout_range(1) 2(2) by auto
    then show ?thesis using 0 2 s by (cases k) (auto simp: disjoint_slots_def)
  next
    case (Suc j')
    then show ?thesis using 2 by (cases k) auto
  qed
qed simp

text \<open>Slots that do not share an offset can be stepped on their own.\<close>

definition offsets :: "slot list \<Rightarrow> nat list" where
  "offsets ss = map fst ss"

definition sized_slots :: "slot list \<Rightarrow> bool" where
  "sized_slots ss \<longleftrightarrow> list_all (\<lambda>(off, agg, cs). 0 < scratch_size agg) ss"

lemma layout_offsets_distinct: "layout a ss b \<Longrightarrow> sized_slots ss \<Longrightarrow> distinct (offsets ss)"
proof (induction a ss b rule: layout.induct)
  case (2 a off agg cs ss b)
  have "a < off'" if "(off', s) \<in> set ss" for off' s
    using layout_range(1) [of "a + scratch_size agg" ss b off' "fst s" "snd s"] 2(2,3) that
    by (auto simp: sized_slots_def)
  then have "off \<notin> fst ` set ss" using 2(2) by force
  then show ?case using 2 by (simp add: offsets_def sized_slots_def)
qed (simp add: offsets_def)

text \<open>
  A pass over the slots that updates each cell from its own old content: it succeeds iff every update
  does, and leaves every other cell alone.
\<close>

definition each_slot :: "(slot \<Rightarrow> cell \<Rightarrow> cell result) \<Rightarrow> scratch \<Rightarrow> slot \<Rightarrow> scratch result" where
  "each_slot upd mem s = bindR (upd s (mem (fst s))) (\<lambda>c. Inr (mem(fst s := c)))"

lemma each_slot_pass:
  assumes "distinct (offsets ss)"
  shows "foldR (each_slot upd) mem ss = Inr mem' \<longleftrightarrow>
    (\<forall>s\<in>set ss. upd s (mem (fst s)) = Inr (mem' (fst s))) \<and> (\<forall>off. off \<notin> set (offsets ss) \<longrightarrow> mem' off = mem off)"
  using assms
proof (induction ss arbitrary: mem)
  case Nil
  then show ?case by (auto simp: offsets_def)
next
  case (Cons s ss)
  have other: "fst t \<noteq> fst s" if "t \<in> set ss" for t
    using Cons.prems that by (metis distinct.simps(2) image_eqI list.set_map list.simps(9) offsets_def)
  have d: "distinct (offsets ss)" using Cons.prems by (simp add: offsets_def)
  show ?case
  proof (cases "upd s (mem (fst s))")
    case (Inl e)
    then show ?thesis by (auto simp: each_slot_def)
  next
    case (Inr c)
    have step: "each_slot upd mem s = Inr (mem(fst s := c))" using Inr by (simp add: each_slot_def)
    have "foldR (each_slot upd) mem (s # ss) = Inr mem' \<longleftrightarrow>
        (\<forall>t\<in>set ss. upd t (mem (fst t)) = Inr (mem' (fst t))) \<and>
        (\<forall>off. off \<notin> set (offsets ss) \<longrightarrow> mem' off = (mem(fst s := c)) off)"
      unfolding foldR.simps step bindR_Inr Cons.IH [OF d] using other by simp
    also have "\<dots> \<longleftrightarrow> (\<forall>t\<in>set (s # ss). upd t (mem (fst t)) = Inr (mem' (fst t))) \<and>
        (\<forall>off. off \<notin> set (offsets (s # ss)) \<longrightarrow> mem' off = mem off)"
      using Inr Cons.prems by (auto simp: offsets_def)
    finally show ?thesis .
  qed
qed

lemma each_slot_total:
  assumes "distinct (offsets ss)" and "\<forall>s\<in>set ss. \<exists>c. upd s (mem (fst s)) = Inr c"
  shows "\<exists>mem'. foldR (each_slot upd) mem ss = Inr mem'"
  using assms
proof (induction ss arbitrary: mem)
  case (Cons s ss)
  then obtain c where c: "upd s (mem (fst s)) = Inr c" by auto
  have "fst t \<noteq> fst s" if "t \<in> set ss" for t
    using Cons.prems(1) that by (metis distinct.simps(2) image_eqI list.set_map list.simps(9) offsets_def)
  then have "\<forall>t\<in>set ss. \<exists>c'. upd t ((mem(fst s := c)) (fst t)) = Inr c'" using Cons.prems(2) by simp
  moreover have "distinct (offsets ss)" using Cons.prems(1) by (simp add: offsets_def)
  ultimately obtain mem' where "foldR (each_slot upd) (mem(fst s := c)) ss = Inr mem'" using Cons.IH by blast
  moreover have "each_slot upd mem s = Inr (mem(fst s := c))" using c by (simp add: each_slot_def)
  ultimately show ?case by simp
qed simp

lemma slot_step_each: "slot_step argv = each_slot (\<lambda>(off, agg, cs) c. slot_next agg cs c argv)"
  by (auto simp: slot_step_def each_slot_def fun_eq_iff)

text \<open>The state of a slot over some rows.\<close>

definition slot_state :: "aggregate_function \<Rightarrow> instruction list \<Rightarrow> svalue list list \<Rightarrow> cell result" where
  "slot_state agg cs rows = foldR (slot_next agg cs) (init_fn agg Raw) rows"

text \<open>\<open>holds e rows mem\<close>: every slot of \<open>e\<close> holds the state of its aggregate over \<open>rows\<close>.\<close>

definition holds :: "instruction \<Rightarrow> svalue list list \<Rightarrow> scratch \<Rightarrow> bool" where
  "holds e rows mem \<longleftrightarrow> (\<forall>(off, agg, cs)\<in>set (slots e). slot_state agg cs rows = Inr (mem off))"

lemma initInstance_each:
  "initInstance e mem = foldR (each_slot (\<lambda>(off, agg, cs) c. Inr (init_fn agg c))) mem (slots e)"
proof -
  have "(\<lambda>t (off, agg, cs). Inr (t(off := init_fn agg (t off)))) = each_slot (\<lambda>(off, agg, cs) c. Inr (init_fn agg c))"
    by (auto simp: each_slot_def fun_eq_iff)
  then show ?thesis by (simp add: initInstance_def visit_slots)
qed

lemma foldR_total: "(\<And>s x. \<exists>t. f s x = Inr t) \<Longrightarrow> \<exists>t. foldR f s xs = Inr t"
proof (induction xs arbitrary: s)
  case (Cons x xs)
  then show ?case by (metis bindR_Inr foldR.simps(2))
qed simp

lemma initInstance_total: "\<exists>mem'. initInstance e mem = Inr mem'"
  unfolding initInstance_each by (rule foldR_total) (auto simp: each_slot_def)

lemma init_holds:
  assumes "distinct (offsets (slots e))" and "initInstance e (\<lambda>_. Raw) = Inr mem"
  shows "holds e [] mem"
  using each_slot_pass [OF assms(1)] assms(2) unfolding initInstance_each
  by (fastforce simp: holds_def slot_state_def)

lemma accumulate_holds:
  assumes "flat e" and "distinct (offsets (slots e))" and "holds e rows mem"
  shows "accumulate e mem row = Inr mem' \<longleftrightarrow>
    holds e (rows @ [row]) mem' \<and> (\<forall>off. off \<notin> set (offsets (slots e)) \<longrightarrow> mem' off = mem off)"
  using assms(3) unfolding accumulate_slots [OF assms(1)] slot_step_each each_slot_pass [OF assms(2)]
  by (fastforce simp: holds_def slot_state_def foldR_append bindR_eq_Inr_iff)

section \<open>Evaluation computes the value\<close>

lemma mapR_pair: "list_all2 (\<lambda>c e. f c = g e) cs es \<Longrightarrow> mapR f cs = mapR g es"
  by (induction rule: list_all2_induct) simp_all

lemma evaluate_if3:
  "evaluate (X_IF [c, t, f]) inst argv out =
     bindR (evaluate c inst argv Null) (\<lambda>cond. bindR (toBool cond) (\<lambda>b.
       if b then evaluate t inst argv out else evaluate f inst argv out))"
  by simp

text \<open>An expression without aggregates.\<close>

lemma static_denote:
  "compileValueExpression syms e d = Inr (i, d') \<Longrightarrow> \<not> initProgram i \<Longrightarrow>
     evaluate i None argv out = denote syms rows e argv out"
  "compile_args syms es d = Inr (is, d') \<Longrightarrow> \<not> list_ex initProgram is \<Longrightarrow>
     list_all2 (\<lambda>i e. \<forall>argv out. evaluate i None argv out = denote syms rows e argv out) is es"
proof (induction syms e d and syms es d arbitrary: i d' argv out and "is" d'
    rule: compileValueExpression_compile_args.induct)
  case (1 syms name j dyn)
  then show ?case by (auto split: option.splits if_splits)
next
  case (3 syms c t f dyn)
  then obtain ci ti fi d1 d2 where
    i: "compileValueExpression syms c dyn = Inr (ci, d1)" "compileValueExpression syms t d1 = Inr (ti, d2)"
      "compileValueExpression syms f d2 = Inr (fi, d')" "i = X_IF [ci, ti, fi]"
    by (auto simp: bindR_eq_Inr_iff)
  then have "evaluate ci None argv Null = denote syms rows c argv Null"
    "evaluate ti None argv out = denote syms rows t argv out" "evaluate fi None argv out = denote syms rows f argv out"
    using 3 by simp_all
  then show ?case using i(4) by (simp add: evaluate_if3 del: evaluate.simps cong: if_cong)
next
  case (4 syms symbol args dyn)
  then obtain fn where fn: "lookup syms symbol = Inr fn" by (auto simp: bindR_eq_Inr_iff)
  show ?case
  proof (cases fn)
    case (FN_PURE f)
    then obtain cs where cs: "compile_args syms args dyn = Inr (cs, d')" "i = X_CALL_PURE f cs"
      using 4(3) fn by (auto simp: bindR_eq_Inr_iff)
    have all: "list_all2 (\<lambda>i e. \<forall>argv out. evaluate i None argv out = denote syms rows e argv out) cs args"
      using 4(1) [OF fn FN_PURE cs(1)] 4(4) cs(2) by simp
    then have "mapR (\<lambda>c. evaluate c None argv Null) cs = mapR (\<lambda>a. denote syms rows a argv Null) args"
      by (intro mapR_pair) (auto elim: list_all2_mono)
    moreover have "cs = [] \<longleftrightarrow> args = []" using list_all2_lengthD [OF all] by auto
    ultimately show ?thesis using FN_PURE cs(2) fn by simp
  next
    case (FN_AGGREGATE agg)
    then show ?thesis using 4(3,4) fn by (auto simp: bindR_eq_Inr_iff)
  qed
qed (auto simp: bindR_eq_Inr_iff)

text \<open>Any expression, over scratch memory that holds the state of its slots.\<close>

lemma evaluate_denote:
  "compileValueExpression syms e d = Inr (i, d') \<Longrightarrow> flat i \<Longrightarrow> holds i rows mem \<Longrightarrow>
     evaluate i (Some mem) argv out = denote syms rows e argv out"
  "compile_args syms es d = Inr (is, d') \<Longrightarrow> list_all flat is \<Longrightarrow> list_all (\<lambda>i. holds i rows mem) is \<Longrightarrow>
     list_all2 (\<lambda>i e. \<forall>argv out. evaluate i (Some mem) argv out = denote syms rows e argv out) is es"
proof (induction syms e d and syms es d arbitrary: i d' argv out and "is" d'
    rule: compileValueExpression_compile_args.induct)
  case (1 syms name j dyn)
  then show ?case by (auto split: option.splits if_splits)
next
  case (3 syms c t f dyn)
  then obtain ci ti fi d1 d2 where
    i: "compileValueExpression syms c dyn = Inr (ci, d1)" "compileValueExpression syms t d1 = Inr (ti, d2)"
      "compileValueExpression syms f d2 = Inr (fi, d')" "i = X_IF [ci, ti, fi]"
    by (auto simp: bindR_eq_Inr_iff)
  moreover have "holds ci rows mem" "holds ti rows mem" "holds fi rows mem"
    using 3(6) i(4) by (auto simp: holds_def)
  ultimately have "evaluate ci (Some mem) argv Null = denote syms rows c argv Null"
    "evaluate ti (Some mem) argv out = denote syms rows t argv out"
    "evaluate fi (Some mem) argv out = denote syms rows f argv out"
    using 3 by simp_all
  then show ?case using i(4) by (simp add: evaluate_if3 del: evaluate.simps cong: if_cong)
next
  case (4 syms symbol args dyn)
  then obtain fn where fn: "lookup syms symbol = Inr fn" by (auto simp: bindR_eq_Inr_iff)
  show ?case
  proof (cases fn)
    case (FN_PURE f)
    then obtain cs where cs: "compile_args syms args dyn = Inr (cs, d')" "i = X_CALL_PURE f cs"
      using 4(3) fn by (auto simp: bindR_eq_Inr_iff)
    have "list_all (\<lambda>i. holds i rows mem) cs" using 4(5) cs(2) by (auto simp: holds_def list_all_iff)
    then have all: "list_all2 (\<lambda>i e. \<forall>argv out. evaluate i (Some mem) argv out = denote syms rows e argv out) cs args"
      using 4(1) [OF fn FN_PURE cs(1)] 4(4) cs(2) by simp
    then have "mapR (\<lambda>c. evaluate c (Some mem) argv Null) cs = mapR (\<lambda>a. denote syms rows a argv Null) args"
      by (intro mapR_pair) (auto elim: list_all2_mono)
    moreover have "cs = [] \<longleftrightarrow> args = []" using list_all2_lengthD [OF all] by auto
    ultimately show ?thesis using FN_PURE cs(2) fn by simp
  next
    case (FN_AGGREGATE agg)
    then obtain cs where cs: "compile_args syms args (dyn + scratch_size agg) = Inr (cs, d')"
      "i = X_CALL_AGGREGATE dyn agg cs"
      using 4(3) fn by (auto simp: bindR_eq_Inr_iff)
    have no: "\<not> list_ex initProgram cs" using 4(4) cs(2) by (auto simp: list_all_iff list_ex_iff)
    have "call_args cs row = mapR (\<lambda>a. denote syms [] a row Null) args" for row
      unfolding call_args_def
      using static_denote(2) [OF cs(1) no, of "[]"] by (intro mapR_pair) (auto elim: list_all2_mono)
    then have "slot_next agg cs = (\<lambda>c row. bindR (mapR (\<lambda>a. denote syms [] a row Null) args) (accumulate_fn agg c))"
      by (simp add: slot_next_def fun_eq_iff)
    moreover have "slot_state agg cs rows = Inr (mem dyn)" using 4(5) cs(2) by (simp add: holds_def)
    ultimately show ?thesis using FN_AGGREGATE cs(2) fn by (simp add: slot_state_def)
  qed
next
  case (6 syms e es dyn)
  then show ?case by (auto simp: bindR_eq_Inr_iff)
qed auto

section \<open>Programs over rows\<close>

text \<open>A fresh instance that accumulates the rows.\<close>

definition accumulate_rows :: "vm_program \<Rightarrow> svalue list list \<Rightarrow> vm_instance result" where
  "accumulate_rows p rows = bindR (allocInstance p) (\<lambda>inst. foldR (vm_accumulate p) inst rows)"

text \<open>Programs whose aggregate calls are not nested and have scratch memory of their own.\<close>

definition well_formed :: "vm_program \<Rightarrow> bool" where
  "well_formed p \<longleftrightarrow> flat (entry p) \<and> distinct (offsets (slots (entry p)))"

lemma compile_well_formed:
  assumes "compile syms e = Inr p" and "flat (entry p)" and "sized_slots (slots (entry p))"
  shows "well_formed p"
  using assms compile_layout(1) [THEN layout_offsets_distinct]
  by (auto simp: well_formed_def compile_def new_program_def bindR_eq_Inr_iff)

lemma accumulate_rows_Nil: "has_aggregate p \<Longrightarrow> well_formed p \<Longrightarrow>
    \<exists>mem. accumulate_rows p [] = Inr (Slots mem) \<and> holds (entry p) [] mem"
  using initInstance_total [of "entry p" "\<lambda>_. Raw"] init_holds
  by (auto simp: accumulate_rows_def allocInstance_def well_formed_def)

lemma accumulate_rows_snoc:
  "accumulate_rows p (rows @ [row]) = bindR (accumulate_rows p rows) (\<lambda>inst. vm_accumulate p inst row)"
proof -
  have "bindR m Inr = m" for m :: "vm_instance result" by (cases m) simp_all
  then show ?thesis by (simp add: accumulate_rows_def foldR_append bindR_assoc)
qed

lemma accumulate_rows_holds:
  assumes "has_aggregate p" and "well_formed p" and "accumulate_rows p rows = Inr inst"
  shows "\<exists>mem. inst = Slots mem \<and> holds (entry p) rows mem"
  using assms(3)
proof (induction rows arbitrary: inst rule: rev_induct)
  case Nil
  then show ?case using accumulate_rows_Nil [OF assms(1,2)] by auto
next
  case (snoc row rows)
  then obtain mem mem' where "holds (entry p) rows mem" "accumulate (entry p) mem row = Inr mem'" "inst = Slots mem'"
    using assms(1) unfolding accumulate_rows_snoc
    by (fastforce simp: vm_accumulate_def on_slots_def bindR_eq_Inr_iff)
  then show ?case using accumulate_holds assms(2) by (auto simp: well_formed_def)
qed

lemma accumulate_rows_total:
  assumes "has_aggregate p" and "well_formed p"
  shows "(\<exists>inst. accumulate_rows p rows = Inr inst) \<longleftrightarrow>
    (\<forall>(off, agg, cs)\<in>set (slots (entry p)). \<exists>c. slot_state agg cs rows = Inr c)"
proof (induction rows rule: rev_induct)
  case Nil
  then show ?case using accumulate_rows_Nil [OF assms] by (auto simp: slot_state_def)
next
  case (snoc row rows)
  note wf = assms(2) [unfolded well_formed_def]
  have next_state: "slot_state agg cs (rows @ [row]) = bindR (slot_state agg cs rows) (\<lambda>c. slot_next agg cs c row)" for agg cs
  proof -
    have "bindR m Inr = m" for m :: "cell result" by (cases m) simp_all
    then show ?thesis by (simp add: slot_state_def foldR_append)
  qed
  show ?case
  proof
    assume "\<exists>inst. accumulate_rows p (rows @ [row]) = Inr inst"
    then show "\<forall>(off, agg, cs)\<in>set (slots (entry p)). \<exists>c. slot_state agg cs (rows @ [row]) = Inr c"
      using accumulate_rows_holds [OF assms] by (fastforce simp: holds_def)
  next
    assume all: "\<forall>(off, agg, cs)\<in>set (slots (entry p)). \<exists>c. slot_state agg cs (rows @ [row]) = Inr c"
    then have "\<forall>(off, agg, cs)\<in>set (slots (entry p)). \<exists>c. slot_state agg cs rows = Inr c"
      by (fastforce simp: next_state bindR_eq_Inr_iff)
    then obtain inst where inst: "accumulate_rows p rows = Inr inst" using snoc by blast
    then obtain mem where mem: "inst = Slots mem" "holds (entry p) rows mem"
      using accumulate_rows_holds [OF assms] by blast
    have "\<exists>c. (\<lambda>(off, agg, cs) c. slot_next agg cs c row) s (mem (fst s)) = Inr c" if "s \<in> set (slots (entry p))" for s
      using all mem(2) that by (cases s) (fastforce simp: holds_def next_state)
    then obtain mem' where
      "foldR (each_slot (\<lambda>(off, agg, cs) c. slot_next agg cs c row)) mem (slots (entry p)) = Inr mem'"
      using each_slot_total [OF wf [THEN conjunct2]] by blast
    then have "accumulate (entry p) mem row = Inr mem'"
      by (simp only: accumulate_slots [OF wf [THEN conjunct1]] slot_step_each)
    then show "\<exists>inst. accumulate_rows p (rows @ [row]) = Inr inst"
      using inst mem(1) assms(1) by (simp add: accumulate_rows_snoc vm_accumulate_def on_slots_def)
  qed
qed

section \<open>Properties\<close>

text \<open>
  C8. Compiling an expression without aggregates and running the program on a row gives the value of
  the expression, errors included.
\<close>

theorem compile_correct:
  assumes "compile syms e = Inr p" and "\<not> has_aggregate p"
  shows "vm_evaluate p argv out = denote syms [] e argv out"
  using assms static_denote(1)
  by (auto simp: compile_def vm_evaluate_def new_program_def bindR_eq_Inr_iff)

theorem compile_correct_witness:
  "bindR (compile [(''neg'', FN_PURE negExpr)] (IfExpression (ColumnReference ''a'' (Some 0))
      (CallExpression ''NEG'' [LiteralExpression (Bool True)]) (LiteralExpression Null)))
    (\<lambda>p. vm_evaluate p [Integer 1] Null) = Inr (Bool False)"
proof -
  let ?syms = "[(''neg'', FN_PURE negExpr)]"
  let ?e = "IfExpression (ColumnReference ''a'' (Some 0)) (CallExpression ''NEG'' [LiteralExpression (Bool True)])
    (LiteralExpression Null)"
  have low: "toLower ''NEG'' = ''neg''" by code_simp
  have p: "compile ?syms ?e = Inr (new_program
      (X_IF [X_INPUT 0, X_CALL_PURE negExpr [X_LITERAL (Bool True)], X_LITERAL Null]) 0)"
    by (simp add: compile_def lookup_def low)
  have "denote ?syms [] ?e [Integer 1] Null = Inr (Bool False)"
    by (simp add: lookup_def low toBool_def negExpr_def unary_def getBool_def)
  then show ?thesis
    using compile_correct [OF p, of "[Integer 1]" Null] p by (simp add: new_program_def)
qed

text \<open>
  C22. The slots of a compiled program are pairwise disjoint ranges of bytes inside its dynamic
  storage.
\<close>

theorem slots_disjoint:
  assumes "compile syms e = Inr p"
  shows "(\<forall>k<length (slots (entry p)). \<forall>j<k. disjoint_slots (slots (entry p) ! j) (slots (entry p) ! k)) \<and>
    (\<forall>(off, agg, cs)\<in>set (slots (entry p)). off + scratch_size agg \<le> dynamic_storage_size p)"
proof -
  have l: "layout 0 (slots (entry p)) (dynamic_storage_size p)"
    using assms compile_layout(1) by (auto simp: compile_def new_program_def bindR_eq_Inr_iff)
  show ?thesis using layout_disjoint [OF l] layout_range(2) [OF l] by auto
qed

theorem slots_disjoint_witness:
  "bindR (compile [(''count'', FN_AGGREGATE kCountExpr), (''eq'', FN_PURE eqExpr)]
      (CallExpression ''eq'' [CallExpression ''count'' [], CallExpression ''count'' [LiteralExpression Null]]))
    (\<lambda>p. Inr (map fst (slots (entry p)), dynamic_storage_size p)) = Inr ([0, 8], 16) \<and>
   disjoint_slots (0, kCountExpr, []) (8, kCountExpr, [X_LITERAL Null])"
proof -
  let ?syms = "[(''count'', FN_AGGREGATE kCountExpr), (''eq'', FN_PURE eqExpr)]"
  let ?e = "CallExpression ''eq'' [CallExpression ''count'' [], CallExpression ''count'' [LiteralExpression Null]]"
  have low: "toLower ''count'' = ''count''" "toLower ''eq'' = ''eq''" by code_simp+
  have size: "scratch_size kCountExpr = 8" by (simp add: kCountExpr_def aggregate_of_def)
  have p: "compile ?syms ?e = Inr (new_program (X_CALL_PURE eqExpr [X_CALL_AGGREGATE 0 kCountExpr [],
      X_CALL_AGGREGATE 8 kCountExpr [X_LITERAL Null]]) 16)"
    by (simp add: compile_def lookup_def low size)
  show ?thesis using slots_disjoint [OF p] p by (simp add: new_program_def less_Suc_eq)
qed

text \<open>
  C7. For a program whose aggregate calls are not nested, accumulating rows succeeds exactly when
  every aggregate can accumulate its arguments over the rows, and the result is then the value of the
  expression with every aggregate call standing for its value over the rows.
\<close>

theorem aggregation_correct:
  assumes "compile syms e = Inr p" and "has_aggregate p" and "flat (entry p)" and "sized_slots (slots (entry p))"
  shows "((\<exists>inst. accumulate_rows p rows = Inr inst) \<longleftrightarrow>
      (\<forall>(off, agg, cs)\<in>set (slots (entry p)). \<exists>c. slot_state agg cs rows = Inr c)) \<and>
    (accumulate_rows p rows = Inr inst \<longrightarrow> vm_result p inst out = denote syms rows e [] out)"
proof (intro conjI impI)
  note wf = compile_well_formed [OF assms(1,3,4)]
  show "(\<exists>inst. accumulate_rows p rows = Inr inst) \<longleftrightarrow>
      (\<forall>(off, agg, cs)\<in>set (slots (entry p)). \<exists>c. slot_state agg cs rows = Inr c)"
    by (rule accumulate_rows_total [OF assms(2) wf])
  assume "accumulate_rows p rows = Inr inst"
  then obtain mem where "inst = Slots mem" "holds (entry p) rows mem"
    using accumulate_rows_holds [OF assms(2) wf] by blast
  then show "vm_result p inst out = denote syms rows e [] out"
    using assms evaluate_denote(1)
    by (auto simp: compile_def new_program_def vm_result_def on_slots_def bindR_eq_Inr_iff)
qed

theorem aggregation_correct_witness:
  "bindR (compile [(''count'', FN_AGGREGATE kCountExpr), (''eq'', FN_PURE eqExpr)]
      (CallExpression ''eq'' [CallExpression ''count'' [ColumnReference ''a'' (Some 0)], LiteralExpression (Integer 2)]))
    (\<lambda>p. bindR (accumulate_rows p [[Integer 5], [Null], [Str ''b'']]) (\<lambda>inst. vm_result p inst Null)) = Inr (Bool True)"
proof -
  let ?syms = "[(''count'', FN_AGGREGATE kCountExpr), (''eq'', FN_PURE eqExpr)]"
  let ?e = "CallExpression ''eq'' [CallExpression ''count'' [ColumnReference ''a'' (Some 0)], LiteralExpression (Integer 2)]"
  let ?rows = "[[Integer 5], [Null], [Str ''b'']]"
  let ?p = "new_program (X_CALL_PURE eqExpr [X_CALL_AGGREGATE 0 kCountExpr [X_INPUT 0], X_LITERAL (Integer 2)]) 8"
  have low: "toLower ''count'' = ''count''" "toLower ''eq'' = ''eq''" by code_simp+
  note count = kCountExpr_def aggregate_of_def countExprAcc_def countExprReset_def countExprGet_def
  have p: "compile ?syms ?e = Inr ?p"
    by (simp add: compile_def lookup_def low count)
  have ok: "has_aggregate ?p" "flat (entry ?p)" "sized_slots (slots (entry ?p))"
    by (simp_all add: new_program_def sized_slots_def count)
  have "\<forall>(off, agg, cs)\<in>set (slots (entry ?p)). \<exists>c. slot_state agg cs ?rows = Inr c"
    by (simp add: new_program_def slot_state_def slot_next_def call_args_def count)
  then obtain inst where inst: "accumulate_rows ?p ?rows = Inr inst"
    using aggregation_correct [OF p ok, of ?rows] by blast
  then have "vm_result ?p inst Null = denote ?syms ?rows ?e [] Null"
    using aggregation_correct [OF p ok] by blast
  also have "\<dots> = Inr (Bool True)"
    by (simp add: lookup_def low count eqExpr_def binary_def compare_integers_def getInteger_def)
  finally show ?thesis using p inst by simp
qed

end
