(* ===== verification/Vm_Merge.thy ===== *)
theory Vm_Merge
  imports Vm_Spec
begin

text \<open>
  Merging and moving instances. \<open>represents p rows inst\<close> relates an instance to the rows it has
  seen; allocation, accumulation, merging and a round trip through the serialized form preserve it,
  and the result of an instance depends on the rows alone.
\<close>

section \<open>The cells of the slots decide the result\<close>

lemma evaluate_agree:
  "(\<forall>s\<in>set (slots e). mem (fst s) = mem' (fst s)) \<Longrightarrow>
     evaluate e (Some mem) argv out = evaluate e (Some mem') argv out"
proof (induction e arbitrary: out)
  case (X_CALL_PURE fn cs)
  then have "mapR (\<lambda>c. evaluate c (Some mem) argv Null) cs = mapR (\<lambda>c. evaluate c (Some mem') argv Null) cs"
    by (intro mapR_cong [OF refl]) auto
  then show ?case by simp
next
  case (X_IF cs)
  then show ?case
    by (rule_tac evaluate.cases [of "(X_IF cs, Some mem, argv, out)"]) (auto cong: if_cong)
qed simp_all

lemma holds_agree:
  assumes "holds e rows mem" and "holds e rows mem'"
  shows "\<forall>s\<in>set (slots e). mem (fst s) = mem' (fst s)"
proof
  fix s
  assume s: "s \<in> set (slots e)"
  obtain off agg cs where "s = (off, agg, cs)" by (cases s)
  with s assms have "slot_state agg cs rows = Inr (mem off)" "slot_state agg cs rows = Inr (mem' off)"
    by (auto simp: holds_def)
  then show "mem (fst s) = mem' (fst s)" using \<open>s = (off, agg, cs)\<close> by simp
qed

section \<open>Representation\<close>

definition represents :: "vm_program \<Rightarrow> svalue list list \<Rightarrow> vm_instance \<Rightarrow> bool" where
  "represents p rows inst \<longleftrightarrow>
     (if has_aggregate p then \<exists>mem. inst = Slots mem \<and> holds (entry p) rows mem
      else accumulate_rows p rows = Inr inst)"

lemma represents_result:
  assumes "represents p rows inst" and "represents p rows inst'"
  shows "vm_result p inst out = vm_result p inst' out"
proof (cases "has_aggregate p")
  case True
  then obtain mem mem' where "inst = Slots mem" "inst' = Slots mem'" "holds (entry p) rows mem" "holds (entry p) rows mem'"
    using assms by (auto simp: represents_def)
  then show ?thesis
    using True evaluate_agree [OF holds_agree [of "entry p" rows mem mem']] by (simp add: vm_result_def on_slots_def)
qed (use assms in \<open>simp add: represents_def\<close>)

definition supported :: "vm_program \<Rightarrow> bool" where
  "supported p \<longleftrightarrow> (has_aggregate p \<longrightarrow> well_formed p)"

lemma alloc_represents: "supported p \<Longrightarrow> \<exists>inst. allocInstance p = Inr inst \<and> represents p [] inst"
  using accumulate_rows_Nil [of p]
  by (auto simp: supported_def represents_def accumulate_rows_def allocInstance_def bindR_eq_Inr_iff)

lemma accumulate_represents:
  assumes "supported p" and "represents p rows inst"
  shows "vm_accumulate p inst row = Inr inst' \<Longrightarrow> represents p (rows @ [row]) inst'"
proof (cases "has_aggregate p")
  case True
  assume acc: "vm_accumulate p inst row = Inr inst'"
  obtain mem where mem: "inst = Slots mem" "holds (entry p) rows mem"
    using assms(2) True by (auto simp: represents_def)
  obtain mem' where mem': "accumulate (entry p) mem row = Inr mem'" "inst' = Slots mem'"
    using acc mem(1) True by (auto simp: vm_accumulate_def on_slots_def bindR_eq_Inr_iff)
  have "flat (entry p)" "distinct (offsets (slots (entry p)))"
    using assms(1) True by (simp_all add: supported_def well_formed_def)
  then have "holds (entry p) (rows @ [row]) mem'" using accumulate_holds mem(2) mem'(1) by blast
  then show ?thesis using True mem'(2) by (simp add: represents_def)
next
  case False
  assume "vm_accumulate p inst row = Inr inst'"
  then show ?thesis using assms(2) False by (simp add: represents_def accumulate_rows_snoc)
qed

lemma accumulate_rows_represents:
  assumes "supported p" and "accumulate_rows p rows = Inr inst"
  shows "represents p rows inst"
  using assms accumulate_rows_holds [of p rows inst] by (auto simp: supported_def represents_def)

lemma represents_accumulate_rows:
  assumes "supported p" and "represents p rows inst"
  shows "\<exists>inst'. accumulate_rows p rows = Inr inst'"
proof (cases "has_aggregate p")
  case True
  then have "\<forall>(off, agg, cs)\<in>set (slots (entry p)). \<exists>c. slot_state agg cs rows = Inr c"
    using assms(2) by (fastforce simp: represents_def holds_def)
  then show ?thesis using accumulate_rows_total [OF True] assms(1) True by (simp add: supported_def)
qed (use assms(2) in \<open>simp add: represents_def\<close>)

section \<open>Aggregates that can be merged\<close>

text \<open>
  A state over arguments that were accumulated without an error: merging it with the state over other
  arguments gives the state over both, and it survives serialization.
\<close>

definition state_over :: "aggregate_function \<Rightarrow> svalue list list \<Rightarrow> cell result" where
  "state_over agg xs = foldR (accumulate_fn agg) (init_fn agg Raw) xs"

definition mergeable :: "aggregate_function \<Rightarrow> bool" where
  "mergeable agg \<longleftrightarrow>
     (\<forall>xs ys a b. state_over agg xs = Inr a \<and> state_over agg ys = Inr b \<longrightarrow>
        (\<exists>c. merge_fn agg a b = Inr c \<and> state_over agg (xs @ ys) = Inr c)) \<and>
     (\<forall>xs a. state_over agg xs = Inr a \<longrightarrow>
        (\<exists>bs. savestate_fn agg a = Inr bs \<and> (\<forall>r. loadstate_fn agg (init_fn agg Raw) (bs @ r) = Inr (a, r))))"

lemma slot_state_over:
  "slot_state agg cs rows = Inr c \<longleftrightarrow>
     (\<exists>vss. mapR (call_args cs) rows = Inr vss \<and> state_over agg vss = Inr c)"
proof -
  have "foldR (slot_next agg cs) s rows = Inr c \<longleftrightarrow>
      (\<exists>vss. mapR (call_args cs) rows = Inr vss \<and> foldR (accumulate_fn agg) s vss = Inr c)" for s
  proof (induction rows arbitrary: s)
    case (Cons row rows)
    have "foldR (slot_next agg cs) s (row # rows) = Inr c \<longleftrightarrow>
        (\<exists>vs t. call_args cs row = Inr vs \<and> accumulate_fn agg s vs = Inr t \<and> foldR (slot_next agg cs) t rows = Inr c)"
      by (auto simp: slot_next_def bindR_eq_Inr_iff)
    also have "\<dots> \<longleftrightarrow>
        (\<exists>vs vss. call_args cs row = Inr vs \<and> mapR (call_args cs) rows = Inr vss \<and>
          foldR (accumulate_fn agg) s (vs # vss) = Inr c)"
      unfolding Cons.IH by (auto simp: bindR_eq_Inr_iff)
    finally show ?case by (auto simp: bindR_eq_Inr_iff)
  qed simp
  then show ?thesis by (simp add: slot_state_def state_over_def)
qed

lemma mapR_append: "mapR f xs = Inr ys \<Longrightarrow> mapR f xs' = Inr ys' \<Longrightarrow> mapR f (xs @ xs') = Inr (ys @ ys')"
  by (induction xs arbitrary: ys) (auto simp: bindR_eq_Inr_iff)

lemma merge_slot_state:
  assumes "mergeable agg" and "slot_state agg cs xs = Inr a" and "slot_state agg cs ys = Inr b"
  shows "\<exists>c. merge_fn agg a b = Inr c \<and> slot_state agg cs (xs @ ys) = Inr c"
  using assms mapR_append unfolding slot_state_over mergeable_def by meson

lemma count_state: "state_over kCountExpr xs = Inr c \<longleftrightarrow> [] \<notin> set xs \<and> c = CountCell (count_of xs)"
proof -
  have run: "foldR (accumulate_fn kCountExpr) (CountCell n) xs = Inr c \<longleftrightarrow>
      (\<exists>m. foldR countExprAcc n xs = Inr m \<and> c = CountCell m)" for n
    by (induction xs arbitrary: n)
      (auto simp: kCountExpr_def aggregate_of_def rewrap_def bindR_eq_Inr_iff)
  have "[] \<notin> set xs" if "foldR countExprAcc n xs = Inr m" for n m
    using that by (induction xs arbitrary: n) (auto simp: countExprAcc_def bindR_eq_Inr_iff split: list.splits)
  then have "foldR countExprAcc countExprReset xs = Inr m \<longleftrightarrow> [] \<notin> set xs \<and> m = count_of xs" for m
    using count.accumulate_all [of xs] by auto
  then show ?thesis using run [of countExprReset]
    by (auto simp: state_over_def kCountExpr_def aggregate_of_def)
qed

lemma count_mergeable: "mergeable kCountExpr"
proof -
  have "merge_fn kCountExpr (CountCell a) (CountCell b) = Inr (CountCell (a + b))"
    "savestate_fn kCountExpr (CountCell a) = Inr (countExprSave a)"
    "loadstate_fn kCountExpr (init_fn kCountExpr Raw) (countExprSave a @ r) = Inr (CountCell a, r)" for a b r
    by (simp_all add: kCountExpr_def aggregate_of_def countExprMerge_def countExprLoad_def countExprSave_def
        varuint.get_put)
  then show ?thesis by (auto simp: mergeable_def count_state count_of_def)
qed

section \<open>Instances that can be merged\<close>

text \<open>
  A program without aggregates keeps the value of the last row; it can be distributed when its value
  is always assigned, and sent when its values over the rows can be encoded.
\<close>

definition distributable :: "vm_program \<Rightarrow> bool" where
  "distributable p \<longleftrightarrow>
     (if has_aggregate p then well_formed p \<and> (\<forall>(off, agg, cs)\<in>set (slots (entry p)). mergeable agg)
      else (\<forall>row v w. vm_evaluate p row v = vm_evaluate p row w))"

definition sendable :: "svalue list list \<Rightarrow> vm_program \<Rightarrow> bool" where
  "sendable rows p \<longleftrightarrow> has_aggregate p \<or>
     (\<forall>row\<in>set rows. \<forall>out v. vm_evaluate p row out = Inr v \<longrightarrow> encodable v)"

lemma distributable_supported: "distributable p \<Longrightarrow> supported p"
  by (auto simp: distributable_def supported_def)

lemma static_rows:
  "\<not> has_aggregate p \<Longrightarrow> foldR (vm_accumulate p) (Static v) rows = bindR (foldR (\<lambda>w row. vm_evaluate p row w) v rows) (\<lambda>w. Inr (Static w))"
  by (induction rows arbitrary: v) (simp_all add: vm_accumulate_def on_static_def vm_evaluate_def bindR_assoc)

lemma static_represents:
  "\<not> has_aggregate p \<Longrightarrow> represents p rows inst \<longleftrightarrow>
     (\<exists>v. inst = Static v \<and> foldR (\<lambda>w row. vm_evaluate p row w) Null rows = Inr v)"
  by (auto simp: represents_def accumulate_rows_def allocInstance_def static_rows bindR_eq_Inr_iff)

lemma mergeInstance_each:
  "mergeInstance e dst src = foldR (each_slot (\<lambda>(off, agg, cs) c. merge_fn agg c (src off))) dst (slots e)"
proof -
  have "(\<lambda>t (off, agg, cs). bindR (merge_fn agg (t off) (src off)) (\<lambda>c. Inr (t(off := c)))) =
      each_slot (\<lambda>(off, agg, cs) c. merge_fn agg c (src off))"
    by (auto simp: each_slot_def fun_eq_iff)
  then show ?thesis by (simp add: mergeInstance_def visit_slots)
qed

lemma merge_holds:
  assumes "distinct (offsets (slots e))" and "\<forall>(off, agg, cs)\<in>set (slots e). mergeable agg"
    and "holds e xs d" and "holds e ys s"
  shows "\<exists>m. mergeInstance e d s = Inr m \<and> holds e (xs @ ys) m"
proof -
  have step: "\<exists>c. merge_fn agg (d off) (s off) = Inr c \<and> slot_state agg cs (xs @ ys) = Inr c"
    if "(off, agg, cs) \<in> set (slots e)" for off agg cs
    using that assms(2-4) by (intro merge_slot_state) (auto simp: holds_def)
  then obtain m where m: "mergeInstance e d s = Inr m"
    using each_slot_total [OF assms(1), of "\<lambda>(off, agg, cs) c. merge_fn agg c (s off)" d]
    unfolding mergeInstance_each by fastforce
  then have "\<forall>t\<in>set (slots e). (\<lambda>(off, agg, cs) c. merge_fn agg c (s off)) t (d (fst t)) = Inr (m (fst t))"
    unfolding mergeInstance_each each_slot_pass [OF assms(1)] by blast
  then have "holds e (xs @ ys) m" using step by (fastforce simp: holds_def)
  with m show ?thesis by blast
qed

lemma merge_represents:
  assumes "distributable p" and "represents p xs d" and "represents p ys s" and "ys \<noteq> []"
  shows "\<exists>m. vm_merge p d s = Inr m \<and> represents p (xs @ ys) m"
proof (cases "has_aggregate p")
  case True
  then obtain mx my where x: "d = Slots mx" "holds (entry p) xs mx" and y: "s = Slots my" "holds (entry p) ys my"
    using assms(2,3) by (auto simp: represents_def)
  have "distinct (offsets (slots (entry p)))" "\<forall>(off, agg, cs)\<in>set (slots (entry p)). mergeable agg"
    using assms(1) True by (simp_all add: distributable_def well_formed_def)
  from merge_holds [OF this x(2) y(2)] obtain m
    where "mergeInstance (entry p) mx my = Inr m" "holds (entry p) (xs @ ys) m" by blast
  then show ?thesis
    using True x(1) y(1) by (intro exI [of _ "Slots m"]) (simp add: vm_merge_def on_slots_def represents_def)
next
  case False
  then obtain v w where v: "d = Static v" "foldR (\<lambda>w row. vm_evaluate p row w) Null xs = Inr v"
    and w: "s = Static w" "foldR (\<lambda>w row. vm_evaluate p row w) Null ys = Inr w"
    using assms(2,3) unfolding static_represents [OF False] by blast
  obtain y ys' where ys: "ys = y # ys'" using assms(4) by (cases ys) auto
  have "\<forall>row v w. vm_evaluate p row v = vm_evaluate p row w"
    using assms(1) False unfolding distributable_def by argo
  then have "vm_evaluate p y v = vm_evaluate p y Null" by blast
  then have "foldR (\<lambda>w row. vm_evaluate p row w) Null (xs @ ys) = Inr w"
    using v(2) w(2) ys by (simp add: foldR_append)
  then show ?thesis using False v(1) w(1)
    by (intro exI [of _ "Static w"]) (simp add: vm_merge_def on_static_def static_represents [OF False])
qed

section \<open>Instances that can be moved\<close>

definition save_step :: "scratch \<Rightarrow> byte list \<Rightarrow> slot \<Rightarrow> byte list result" where
  "save_step mem bs = (\<lambda>(off, agg, cs). bindR (savestate_fn agg (mem off)) (\<lambda>b. Inr (bs @ b)))"

definition load_step :: "scratch \<times> byte list \<Rightarrow> slot \<Rightarrow> (scratch \<times> byte list) result" where
  "load_step t = (\<lambda>(off, agg, cs). bindR (loadstate_fn agg (fst t off) (snd t)) (\<lambda>(c, r). Inr ((fst t)(off := c), r)))"

lemma saveInstance_slots: "saveInstance e mem os = foldR (save_step mem) os (slots e)"
  by (simp add: saveInstance_def visit_slots save_step_def [abs_def])

lemma loadInstance_slots: "loadInstance e mem is = foldR load_step (mem, is) (slots e)"
proof -
  have "(\<lambda>t (off, agg, cs). case t of (m, bs) \<Rightarrow> bindR (loadstate_fn agg (m off) bs) (\<lambda>(c, r). Inr (m(off := c), r))) = load_step"
    by (auto simp: fun_eq_iff load_step_def)
  then show ?thesis unfolding loadInstance_def visit_slots by (rule arg_cong)
qed

text \<open>A slot whose saved state is read back into the cell that \<open>fresh\<close> has there.\<close>

definition moves :: "scratch \<Rightarrow> scratch \<Rightarrow> slot \<Rightarrow> bool" where
  "moves mem fresh = (\<lambda>(off, agg, cs). \<exists>bs. savestate_fn agg (mem off) = Inr bs \<and>
     (\<forall>r. loadstate_fn agg (fresh off) (bs @ r) = Inr (mem off, r)))"

lemma move_slots:
  assumes "distinct (offsets ss)" and "\<forall>s\<in>set ss. moves mem fresh s"
  shows "\<exists>bs. (\<forall>os. foldR (save_step mem) os ss = Inr (os @ bs)) \<and>
    (\<forall>r. \<exists>m. foldR load_step (fresh, bs @ r) ss = Inr (m, r) \<and> (\<forall>s\<in>set ss. m (fst s) = mem (fst s)) \<and>
        (\<forall>off. off \<notin> set (offsets ss) \<longrightarrow> m off = fresh off))"
  using assms
proof (induction ss arbitrary: fresh)
  case Nil
  show ?case by (intro exI [of _ "[]"]) simp
next
  case (Cons s ss)
  obtain off agg cs where s: "s = (off, agg, cs)" by (cases s)
  obtain b where b: "savestate_fn agg (mem off) = Inr b" "\<And>r. loadstate_fn agg (fresh off) (b @ r) = Inr (mem off, r)"
    using Cons.prems(2) s by (auto simp: moves_def)
  let ?fresh = "fresh(off := mem off)"
  have notin: "off \<notin> set (offsets ss)" "distinct (offsets ss)" using Cons.prems(1) s by (simp_all add: offsets_def)
  have "moves mem ?fresh t" if "t \<in> set ss" for t
  proof -
    have "fst t \<noteq> off" using notin(1) that by (auto simp: offsets_def)
    then show ?thesis using Cons.prems(2) that by (auto simp: moves_def)
  qed
  then obtain bs where
    bs: "\<And>os. foldR (save_step mem) os ss = Inr (os @ bs)"
    and load: "\<And>r. \<exists>m. foldR load_step (?fresh, bs @ r) ss = Inr (m, r) \<and> (\<forall>s\<in>set ss. m (fst s) = mem (fst s)) \<and>
        (\<forall>off'. off' \<notin> set (offsets ss) \<longrightarrow> m off' = ?fresh off')"
    using Cons.IH [OF notin(2), of ?fresh] by blast
  have "\<exists>m. foldR load_step (fresh, (b @ bs) @ r) (s # ss) = Inr (m, r) \<and> (\<forall>t\<in>set (s # ss). m (fst t) = mem (fst t)) \<and>
      (\<forall>off'. off' \<notin> set (offsets (s # ss)) \<longrightarrow> m off' = fresh off')" for r
  proof -
    obtain m where m: "foldR load_step (?fresh, bs @ r) ss = Inr (m, r)" "\<forall>s\<in>set ss. m (fst s) = mem (fst s)"
      "\<forall>off'. off' \<notin> set (offsets ss) \<longrightarrow> m off' = ?fresh off'"
      using load by blast
    have "m off = mem off" using m(3) notin(1) by simp
    moreover have "m off' = fresh off'" if "off' \<notin> set (offsets (s # ss))" for off'
      using m(3) that s by (simp add: offsets_def)
    moreover have "load_step (fresh, (b @ bs) @ r) s = Inr (?fresh, bs @ r)"
      using b(2) s by (simp add: load_step_def)
    ultimately show ?thesis using m(1,2) s by (intro exI [of _ m]) simp
  qed
  moreover have "foldR (save_step mem) os (s # ss) = Inr (os @ b @ bs)" for os
    using b(1) bs s by (simp add: save_step_def [of _ _, abs_def] save_step_def)
  ultimately show ?case by blast
qed

lemma init_slots:
  assumes "distinct (offsets (slots e))" and "initInstance e (\<lambda>_. Raw) = Inr mem" and "(off, agg, cs) \<in> set (slots e)"
  shows "mem off = init_fn agg Raw"
  using assms each_slot_pass [OF assms(1)] unfolding initInstance_each by fastforce

text \<open>Saving an instance and loading it into a fresh one, whatever follows in the stream.\<close>

lemma moved_represents:
  assumes "distributable p" and "represents p rows inst" and "allocInstance p = Inr fresh" and "sendable rows p"
  shows "\<exists>bs. saveState p inst = Inr bs \<and> (\<forall>r. \<exists>inst'. loadState p fresh (bs @ r) = Inr (inst', r) \<and> represents p rows inst')"
proof (cases "has_aggregate p")
  case True
  then obtain mem m0 where mem: "inst = Slots mem" "holds (entry p) rows mem"
    and m0: "fresh = Slots m0" "initInstance (entry p) (\<lambda>_. Raw) = Inr m0"
    using assms(2,3) by (auto simp: represents_def allocInstance_def bindR_eq_Inr_iff)
  have d: "distinct (offsets (slots (entry p)))" "\<forall>(off, agg, cs)\<in>set (slots (entry p)). mergeable agg"
    using assms(1) True by (simp_all add: distributable_def well_formed_def)
  have "moves mem m0 s" if "s \<in> set (slots (entry p))" for s
  proof -
    obtain off agg cs where s: "s = (off, agg, cs)" by (cases s)
    have "slot_state agg cs rows = Inr (mem off)" using mem(2) that s by (auto simp: holds_def)
    moreover have "mergeable agg" using d(2) that s by auto
    ultimately show ?thesis
      using init_slots [OF d(1) m0(2), of off agg cs] that s unfolding slot_state_over moves_def mergeable_def by auto
  qed
  then obtain bs where bs: "\<And>os. foldR (save_step mem) os (slots (entry p)) = Inr (os @ bs)"
    and load: "\<And>r. \<exists>m. foldR load_step (m0, bs @ r) (slots (entry p)) = Inr (m, r) \<and>
        (\<forall>s\<in>set (slots (entry p)). m (fst s) = mem (fst s))"
    using move_slots [OF d(1), of mem m0] by blast
  have "\<exists>inst'. loadState p fresh (bs @ r) = Inr (inst', r) \<and> represents p rows inst'" for r
  proof -
    obtain m where m: "foldR load_step (m0, bs @ r) (slots (entry p)) = Inr (m, r)"
      "\<forall>s\<in>set (slots (entry p)). m (fst s) = mem (fst s)" using load by blast
    then have "holds (entry p) rows m" using mem(2) by (fastforce simp: holds_def)
    then show ?thesis using m(1) m0(1) True
      by (simp add: loadState_def on_slots_def loadInstance_slots represents_def)
  qed
  moreover have "saveState p inst = Inr bs"
    using bs [of "[]"] mem(1) True by (simp add: saveState_def on_slots_def saveInstance_slots)
  ultimately show ?thesis by blast
next
  case False
  then obtain v where v: "inst = Static v" "foldR (\<lambda>w row. vm_evaluate p row w) Null rows = Inr v"
    using assms(2) unfolding static_represents [OF False] by blast
  have enc: "\<forall>row\<in>set rows. \<forall>out v. vm_evaluate p row out = Inr v \<longrightarrow> encodable v"
    using assms(4) False by (simp add: sendable_def)
  have "encodable v"
  proof (cases rows rule: rev_cases)
    case Nil
    then show ?thesis using v(2) by (simp add: encodable_def)
  next
    case (snoc rows' row)
    then obtain w where "vm_evaluate p row w = Inr v"
      using v(2) by (auto simp: foldR_append bindR_eq_Inr_iff)
    then show ?thesis using enc snoc by simp
  qed
  then have "decode Null (encode v @ r) = Inr (v, r)" for r by (rule value_codec.get_put)
  moreover have "fresh = Static Null" using assms(3) False by (simp add: allocInstance_def)
  ultimately show ?thesis using v False
    by (simp add: saveState_def loadState_def on_static_def static_represents [OF False])
qed

end
