(* ===== verification/Group_By.thy ===== *)
theory Group_By
  imports Vm_Merge "HOL-Library.AList" "HOL-Library.Multiset"
begin

text \<open>
  Grouping (src/csql/runtime/GroupBy.cc) and the merge of partial groupings that were computed
  elsewhere (GroupByMerge.cc, \<open>RemoteGroupBy\<close>). The hash map from group keys to instances is an
  association list with distinct keys; the order in which the code iterates over it is the parameter
  \<open>order\<close>, of which only \<open>mset (order gs) = mset gs\<close> is used. Rows are handed to a callback, which
  answers whether it wants more: a function on a state of its own.
\<close>

section \<open>Grouping\<close>

type_synonym groups = "(string \<times> vm_instance list) list"

type_synonym 's row_callback = "'s \<Rightarrow> svalue list \<Rightarrow> ('s \<times> bool) result"

definition group_key :: "vm_program list \<Rightarrow> svalue list \<Rightarrow> string result" where
  "group_key group_exprs row =
     bindR (mapR (\<lambda>p. vm_evaluate p row Null) group_exprs) (\<lambda>gkey. Inr (makeUniqueKey gkey))"

text \<open>The reference \<open>groups[key]\<close> creates an empty group; an empty group gets fresh instances.\<close>

definition open_group :: "vm_program list \<Rightarrow> groups \<Rightarrow> string \<Rightarrow> vm_instance list result" where
  "open_group select_exprs groups key =
     (case map_of groups key of
        Some (inst # rest) \<Rightarrow> Inr (inst # rest)
      | _ \<Rightarrow> mapR allocInstance select_exprs)"

definition nextRow :: "vm_program list \<Rightarrow> vm_program list \<Rightarrow> groups \<Rightarrow> svalue list \<Rightarrow> groups result" where
  "nextRow select_exprs group_exprs groups row =
     bindR (group_key group_exprs row) (\<lambda>key.
       bindR (open_group select_exprs groups key) (\<lambda>insts.
         bindR (mapR (\<lambda>(p, inst). vm_accumulate p inst row) (zip select_exprs insts)) (\<lambda>insts'.
           Inr (AList.update key insts' groups))))"

definition accumulate_source :: "vm_program list \<Rightarrow> vm_program list \<Rightarrow> svalue list list \<Rightarrow> groups result" where
  "accumulate_source select_exprs group_exprs rows = foldR (nextRow select_exprs group_exprs) [] rows"

text \<open>One output row is reused for all groups, so an expression that assigns nothing repeats its value of the group before.\<close>

definition result_row :: "vm_program list \<Rightarrow> vm_instance list \<Rightarrow> svalue list \<Rightarrow> svalue list result" where
  "result_row select_exprs insts out_row =
     mapR (\<lambda>((p, inst), out). vm_result p inst out) (zip (zip select_exprs insts) out_row)"

fun result_loop :: "vm_program list \<Rightarrow> groups \<Rightarrow> svalue list \<Rightarrow> 's row_callback \<Rightarrow> 's \<Rightarrow> 's result" where
  "result_loop select_exprs [] out_row fn s = Inr s"
| "result_loop select_exprs ((key, insts) # gs) out_row fn s =
     bindR (result_row select_exprs insts out_row) (\<lambda>row.
       bindR (fn s row) (\<lambda>(s', more). if more then result_loop select_exprs gs row fn s' else Inr s'))"

definition getResult :: "(groups \<Rightarrow> groups) \<Rightarrow> vm_program list \<Rightarrow> groups \<Rightarrow> 's row_callback \<Rightarrow> 's \<Rightarrow> 's result" where
  "getResult order select_exprs groups fn s =
     result_loop select_exprs (order groups) (replicate (length select_exprs) Null) fn s"

definition execute_group_by ::
  "(groups \<Rightarrow> groups) \<Rightarrow> vm_program list \<Rightarrow> vm_program list \<Rightarrow> svalue list list \<Rightarrow> 's row_callback \<Rightarrow> 's \<Rightarrow> 's result" where
  "execute_group_by order select_exprs group_exprs rows fn s =
     bindR (accumulate_source select_exprs group_exprs rows) (\<lambda>groups. getResult order select_exprs groups fn s)"

section \<open>Groups on the wire\<close>

definition save_instances :: "vm_program list \<Rightarrow> vm_instance list \<Rightarrow> byte list result" where
  "save_instances select_exprs insts =
     foldR (\<lambda>bs (p, inst). bindR (saveState p inst) (\<lambda>b. Inr (bs @ b))) [] (zip select_exprs insts)"

definition encode_groups :: "(groups \<Rightarrow> groups) \<Rightarrow> vm_program list \<Rightarrow> groups \<Rightarrow> byte list result" where
  "encode_groups order select_exprs groups =
     foldR (\<lambda>bs (key, insts). bindR (save_instances select_exprs insts) (\<lambda>b.
         Inr (bs @ appendLenencString (bytes_of_string key) @ b)))
       (appendVarUInt (of_nat (length groups)) @ appendVarUInt (of_nat (length select_exprs))) (order groups)"

text \<open>The instances of one group: each is appended to the group and the state loaded at its index.\<close>

fun load_instances :: "vm_program list \<Rightarrow> nat \<Rightarrow> vm_instance list \<Rightarrow> vm_instance list reader" where
  "load_instances [] i insts is = Inr (insts, is)"
| "load_instances (p # ps) i insts is =
     bindR (allocInstance p) (\<lambda>fresh.
       let insts1 = insts @ [fresh] in
       bindR (loadState p (insts1 ! i) is) (\<lambda>(inst, r). load_instances ps (Suc i) (insts1[i := inst]) r))"

fun decode_loop :: "vm_program list \<Rightarrow> nat \<Rightarrow> groups \<Rightarrow> groups reader" where
  "decode_loop select_exprs 0 groups is = Inr (groups, is)"
| "decode_loop select_exprs (Suc j) groups is =
     bindR (readLenencString is) (\<lambda>(key, r).
       let k = string_of_bytes key; insts = (case map_of groups k of None \<Rightarrow> [] | Some g \<Rightarrow> g) in
       bindR (load_instances select_exprs 0 insts r) (\<lambda>(insts', r').
         decode_loop select_exprs j (AList.update k insts' groups) r'))"

text \<open>\<open>None\<close> is the result \<open>false\<close>: the stream was written for another number of expressions.\<close>

definition decode_groups :: "vm_program list \<Rightarrow> groups \<Rightarrow> groups option reader" where
  "decode_groups select_exprs groups is =
     bindR (readVarUInt is) (\<lambda>(ngroups, r). bindR (readVarUInt r) (\<lambda>(nexprs, r').
       if of_nat (length select_exprs) \<noteq> nexprs then Inr (None, r')
       else bindR (decode_loop select_exprs (unat ngroups) groups r') (\<lambda>(gs, r''). Inr (Some gs, r''))))"

definition executeRemote ::
  "(groups \<Rightarrow> groups) \<Rightarrow> vm_program list \<Rightarrow> vm_program list \<Rightarrow> svalue list list \<Rightarrow> byte list result" where
  "executeRemote order select_exprs group_exprs rows =
     bindR (accumulate_source select_exprs group_exprs rows) (\<lambda>groups. encode_groups order select_exprs groups)"

text \<open>\<open>RemoteGroupBy::accumulate\<close>, given the bytes the remote call returned.\<close>

definition accumulate_remote :: "vm_program list \<Rightarrow> byte list \<Rightarrow> groups result" where
  "accumulate_remote select_exprs is =
     bindR (decode_groups select_exprs [] is) (\<lambda>(gs, _).
       case gs of None \<Rightarrow> Inl (Raise RuntimeError) | Some groups \<Rightarrow> Inr groups)"

section \<open>The cache\<close>

text \<open>
  \<open>GroupBy::accumulate\<close> with a cache file: \<open>cached\<close> is its content if there is one. The groups and the
  content of the file afterwards.
\<close>

definition accumulate_cached ::
  "(groups \<Rightarrow> groups) \<Rightarrow> vm_program list \<Rightarrow> vm_program list \<Rightarrow> byte list option \<Rightarrow> svalue list list \<Rightarrow>
    (groups \<times> byte list option) result" where
  "accumulate_cached order select_exprs group_exprs cached rows =
     bindR (case cached of
         None \<Rightarrow> Inr None
       | Some is \<Rightarrow> bindR (decode_groups select_exprs [] is) (\<lambda>(gs, _). Inr gs))
       (\<lambda>from_cache.
         case from_cache of
           Some groups \<Rightarrow> Inr (groups, cached)
         | None \<Rightarrow>
             bindR (accumulate_source select_exprs group_exprs rows) (\<lambda>groups.
               bindR (encode_groups order select_exprs groups) (\<lambda>bs. Inr (groups, Some bs))))"

section \<open>Merging partial groupings\<close>

definition merge_group :: "vm_program list \<Rightarrow> groups \<Rightarrow> string \<times> vm_instance list \<Rightarrow> groups result" where
  "merge_group select_exprs dst = (\<lambda>(key, src_group).
     bindR (open_group select_exprs dst key) (\<lambda>dst_group.
       bindR (mapR (\<lambda>((p, d), s). vm_merge p d s) (zip (zip select_exprs dst_group) src_group)) (\<lambda>insts'.
         Inr (AList.update key insts' dst))))"

definition mergeResult :: "(groups \<Rightarrow> groups) \<Rightarrow> vm_program list \<Rightarrow> groups \<Rightarrow> groups \<Rightarrow> groups result" where
  "mergeResult order select_exprs src dst = foldR (merge_group select_exprs) dst (order src)"

text \<open>
  \<open>GroupByMerge::execute\<close>: the sources run concurrently and are merged under a lock, in the order in
  which they finish; \<open>sources\<close> lists what they return in that order. An exception of a source or of
  its merge is recorded, and one recorded error fails the query after all of them are done.
\<close>

definition merge_source :: "(groups \<Rightarrow> groups) \<Rightarrow> vm_program list \<Rightarrow> groups \<times> bool \<Rightarrow> groups result \<Rightarrow> (groups \<times> bool) result" where
  "merge_source order select_exprs = (\<lambda>(groups, failed) source.
     case bindR source (\<lambda>tgroups. mergeResult order select_exprs tgroups groups) of
       Inr groups' \<Rightarrow> Inr (groups', failed)
     | Inl (Raise e) \<Rightarrow> Inr (groups, True)
     | Inl u \<Rightarrow> Inl u)"

definition merge_sources :: "(groups \<Rightarrow> groups) \<Rightarrow> vm_program list \<Rightarrow> groups result list \<Rightarrow> groups result" where
  "merge_sources order select_exprs sources =
     bindR (foldR (merge_source order select_exprs) ([], False) sources) (\<lambda>(groups, failed).
       if failed then Inl (Raise RuntimeError) else Inr groups)"

definition execute_group_by_merge ::
  "(groups \<Rightarrow> groups) \<Rightarrow> vm_program list \<Rightarrow> groups result list \<Rightarrow> 's row_callback \<Rightarrow> 's \<Rightarrow> 's result" where
  "execute_group_by_merge order select_exprs sources fn s =
     bindR (merge_sources order select_exprs sources) (\<lambda>groups. getResult order select_exprs groups fn s)"

end
