(* ===== verification/Group_By_Correct.thy ===== *)
theory Group_By_Correct
  imports Group_By
begin

text \<open>
  Correctness of grouping. The abstraction is the list of rows seen: \<open>grouped\<close> says that the groups
  hold, for every key, instances that represent the rows with that key. Accumulation, merging, and the
  round trip through the serialized form preserve it, and the output is determined by it.
\<close>

section \<open>The invariant\<close>

definition rows_of :: "vm_program list \<Rightarrow> svalue list list \<Rightarrow> string \<Rightarrow> svalue list list" where
  "rows_of group_exprs rows k = filter (\<lambda>row. group_key group_exprs row = Inr k) rows"

lemma rows_of_simps [simp]:
  "rows_of ks [] k = []" "rows_of ks (xs @ ys) k = rows_of ks xs k @ rows_of ks ys k"
  by (simp_all add: rows_of_def)

definition instances_of :: "vm_program list \<Rightarrow> svalue list list \<Rightarrow> vm_instance list \<Rightarrow> bool" where
  "instances_of sel rs insts \<longleftrightarrow> list_all2 (\<lambda>p inst. represents p rs inst) sel insts"

definition group_ok :: "vm_program list \<Rightarrow> svalue list list \<Rightarrow> vm_instance list option \<Rightarrow> bool" where
  "group_ok sel rs g \<longleftrightarrow> (case g of None \<Rightarrow> rs = [] | Some insts \<Rightarrow> rs \<noteq> [] \<and> instances_of sel rs insts)"

definition grouped :: "vm_program list \<Rightarrow> vm_program list \<Rightarrow> svalue list list \<Rightarrow> groups \<Rightarrow> bool" where
  "grouped sel ks rows gs \<longleftrightarrow> distinct (map fst gs) \<and> (\<forall>k. group_ok sel (rows_of ks rows k) (map_of gs k))"

lemma alloc_instances: "list_all supported sel \<Longrightarrow> \<exists>insts. mapR allocInstance sel = Inr insts \<and> instances_of sel [] insts"
proof (induction sel)
  case (Cons p sel)
  then obtain inst insts where "allocInstance p = Inr inst" "represents p [] inst"
    "mapR allocInstance sel = Inr insts" "instances_of sel [] insts"
    using alloc_represents [of p] by auto
  then show ?case by (simp add: instances_of_def)
qed (simp add: instances_of_def)

lemma open_group_ok:
  assumes "list_all supported sel" and "group_ok sel rs (map_of gs k)"
  shows "\<exists>insts. open_group sel gs k = Inr insts \<and> instances_of sel rs insts"
proof (cases "map_of gs k")
  case None
  then show ?thesis using assms alloc_instances by (simp add: open_group_def group_ok_def)
next
  case (Some insts)
  then have ok: "instances_of sel rs insts" using assms(2) by (simp add: group_ok_def)
  show ?thesis
  proof (cases insts)
    case Nil
    then have "sel = []" using ok by (simp add: instances_of_def)
    then show ?thesis using Some Nil by (simp add: open_group_def instances_of_def)
  qed (use Some ok in \<open>simp add: open_group_def\<close>)
qed

lemma accumulate_instances:
  assumes "list_all supported sel" and "instances_of sel rs insts"
    and "mapR (\<lambda>(p, inst). vm_accumulate p inst row) (zip sel insts) = Inr insts'"
  shows "instances_of sel (rs @ [row]) insts'"
  using assms(2,1,3) unfolding instances_of_def
proof (induction arbitrary: insts' rule: list_all2_induct)
  case (Cons p sel inst insts)
  then show ?case by (auto simp: bindR_eq_Inr_iff intro: accumulate_represents)
qed simp

lemma grouped_update:
  assumes "grouped sel ks rows gs" and "instances_of sel (rows_of ks rows k @ rs) insts" and "rs \<noteq> []"
    and "\<And>k'. rows_of ks new k' = (if k' = k then rs else [])"
  shows "grouped sel ks (rows @ new) (AList.update k insts gs)"
proof -
  have "group_ok sel (rows_of ks (rows @ new) k') (map_of (AList.update k insts gs) k')" for k'
  proof (cases "k' = k")
    case True
    then show ?thesis using assms(2-4) by (simp add: group_ok_def update_conv')
  next
    case False
    then have "rows_of ks (rows @ new) k' = rows_of ks rows k'" using assms(4) by simp
    moreover have "map_of (AList.update k insts gs) k' = map_of gs k'" using False by (simp add: update_conv')
    moreover have "group_ok sel (rows_of ks rows k') (map_of gs k')" using assms(1) by (simp add: grouped_def)
    ultimately show ?thesis by (simp only:)
  qed
  then show ?thesis using assms(1) by (simp add: grouped_def distinct_update)
qed

lemma nextRow_grouped:
  assumes "list_all supported sel" and "grouped sel ks rows gs" and "nextRow sel ks gs row = Inr gs'"
  shows "grouped sel ks (rows @ [row]) gs'"
proof -
  obtain key insts insts' where steps: "group_key ks row = Inr key" "open_group sel gs key = Inr insts"
    "mapR (\<lambda>(p, inst). vm_accumulate p inst row) (zip sel insts) = Inr insts'" "gs' = AList.update key insts' gs"
    using assms(3) by (auto simp: nextRow_def bindR_eq_Inr_iff)
  have "instances_of sel (rows_of ks rows key) insts"
    using open_group_ok [OF assms(1), of "rows_of ks rows key" gs key] assms(2) steps(2) by (simp add: grouped_def)
  then have "instances_of sel (rows_of ks rows key @ [row]) insts'"
    using accumulate_instances assms(1) steps(3) by blast
  then show ?thesis
    unfolding steps(4) by (rule grouped_update [OF assms(2)]) (simp_all add: rows_of_def steps(1))
qed

lemma accumulate_source_grouped:
  assumes "list_all supported sel" and "accumulate_source sel ks rows = Inr gs"
  shows "grouped sel ks rows gs"
  using assms(2) unfolding accumulate_source_def
proof (induction rows arbitrary: gs rule: rev_induct)
  case Nil
  then show ?case by (simp add: grouped_def group_ok_def)
next
  case (snoc row rows)
  then show ?case using nextRow_grouped [OF assms(1)]
    by (auto simp: foldR_append bindR_eq_Inr_iff)
qed

section \<open>Output\<close>

text \<open>Groups over the same rows have the same keys and give the same output for each of them.\<close>

lemma grouped_keys: "grouped sel ks rows gs \<Longrightarrow> k \<in> fst ` set gs \<longleftrightarrow> rows_of ks rows k \<noteq> []"
proof -
  assume "grouped sel ks rows gs"
  then have "group_ok sel (rows_of ks rows k) (map_of gs k)" by (simp add: grouped_def)
  then show ?thesis using map_of_eq_None_iff [of gs k] by (cases "map_of gs k") (auto simp: group_ok_def)
qed

lemma grouped_instances: "grouped sel ks rows gs \<Longrightarrow> (k, insts) \<in> set gs \<Longrightarrow> instances_of sel (rows_of ks rows k) insts"
  using map_of_is_SomeI [of gs k insts] by (force simp: grouped_def group_ok_def split: option.splits)

lemma result_row_represents:
  assumes "instances_of sel rs insts" and "instances_of sel rs insts'"
  shows "result_row sel insts out = result_row sel insts' out"
  using assms unfolding instances_of_def result_row_def
proof (induction arbitrary: insts' out rule: list_all2_induct)
  case (Cons p sel inst insts)
  then obtain inst' rest where "insts' = inst' # rest" "represents p rs inst'" "list_all2 (\<lambda>p. represents p rs) sel rest"
    by (auto simp: list_all2_Cons1)
  then show ?case
    using Cons represents_result [of p rs inst inst'] by (cases out) auto
qed simp

text \<open>A callback that keeps the rows it is given.\<close>

definition collect :: "svalue list list row_callback" where
  "collect s row = Inr (s @ [row], True)"

lemma result_loop_collect:
  "result_loop sel ((k, insts) # gs) out collect s =
     bindR (result_row sel insts out) (\<lambda>row. result_loop sel gs row collect (s @ [row]))"
  by (simp add: collect_def)

lemma collected_rows:
  "result_loop sel gs out collect s = Inr t \<Longrightarrow>
     \<exists>rows. t = s @ rows \<and> list_all2 (\<lambda>(k, insts) row. \<exists>out. length out = length sel \<and> result_row sel insts out = Inr row) gs rows"
  if "length out = length sel" "\<forall>(k, insts)\<in>set gs. length insts = length sel"
  using that
proof (induction gs arbitrary: out s)
  case (Cons g gs)
  obtain k insts where g: "g = (k, insts)" by (cases g)
  obtain row where row: "result_row sel insts out = Inr row" "result_loop sel gs row collect (s @ [row]) = Inr t"
    using Cons.prems(1) unfolding g result_loop_collect bindR_eq_Inr_iff by blast
  have "length row = length sel"
    using mapR_length row(1) Cons.prems(2,3) g by (fastforce simp: result_row_def)
  then obtain rows where "t = (s @ [row]) @ rows"
    "list_all2 (\<lambda>(k, insts) row. \<exists>out. length out = length sel \<and> result_row sel insts out = Inr row) gs rows"
    using Cons.IH [OF row(2)] Cons.prems(3) by auto
  then show ?case using row(1) Cons.prems(2) g by (intro exI [of _ "row # rows"]) auto
qed simp

section \<open>The value of a group\<close>

definition group_value :: "symbol_table \<Rightarrow> expr_node \<Rightarrow> vm_program \<Rightarrow> svalue list list \<Rightarrow> svalue \<Rightarrow> svalue result" where
  "group_value syms e p rs out =
     (if has_aggregate p then denote syms rs e [] out
      else foldR (\<lambda>v row. denote syms [] e row v) Null rs)"

lemma vm_result_value:
  assumes "compile syms e = Inr p" and "supported p" and "represents p rs inst"
  shows "vm_result p inst out = group_value syms e p rs out"
proof (cases "has_aggregate p")
  case True
  then obtain mem where "inst = Slots mem" "holds (entry p) rs mem" "flat (entry p)"
    using assms(2,3) by (auto simp: represents_def supported_def well_formed_def)
  then show ?thesis
    using assms(1) True evaluate_denote(1)
    by (auto simp: group_value_def vm_result_def on_slots_def compile_def new_program_def bindR_eq_Inr_iff)
next
  case False
  then obtain v where v: "inst = Static v" "foldR (\<lambda>w row. vm_evaluate p row w) Null rs = Inr v"
    using assms(3) unfolding static_represents [OF False] by blast
  have "vm_evaluate p row w = denote syms [] e row w" for row w
    using assms(1) False static_denote(1)
    by (auto simp: compile_def vm_evaluate_def new_program_def bindR_eq_Inr_iff)
  then show ?thesis using v False by (simp add: group_value_def vm_result_def on_static_def)
qed

text \<open>The output row of a group, expression by expression.\<close>

definition is_group_row :: "symbol_table \<Rightarrow> expr_node list \<Rightarrow> vm_program list \<Rightarrow> svalue list list \<Rightarrow> svalue list \<Rightarrow> bool" where
  "is_group_row syms es sel rs row \<longleftrightarrow> length row = length es \<and>
     (\<forall>j<length es. \<exists>out. group_value syms (es ! j) (sel ! j) rs out = Inr (row ! j))"

lemma result_row_value:
  assumes "mapR (compile syms) es = Inr sel" and "list_all supported sel" and "instances_of sel rs insts"
    and "length out = length sel" and "result_row sel insts out = Inr row"
  shows "is_group_row syms es sel rs row"
proof -
  have "list_all2 (\<lambda>p inst. represents p rs inst) sel insts" using assms(3) by (simp add: instances_of_def)
  then have "length row = length es \<and> (\<forall>j<length es. \<exists>out. group_value syms (es ! j) (sel ! j) rs out = Inr (row ! j))"
    using assms(1,2,4,5) unfolding result_row_def
  proof (induction arbitrary: es out row rule: list_all2_induct)
    case Nil
    then show ?case by (cases es) (auto simp: bindR_eq_Inr_iff)
  next
    case (Cons p sel inst insts)
    obtain e es' where es: "es = e # es'" "compile syms e = Inr p" "mapR (compile syms) es' = Inr sel"
      using Cons.prems(1) by (cases es) (auto simp: bindR_eq_Inr_iff)
    obtain o' outs where out: "out = o' # outs" using Cons.prems(3) by (cases out) auto
    obtain v row' where row: "row = v # row'" "vm_result p inst o' = Inr v"
      "mapR (\<lambda>((p, inst), out). vm_result p inst out) (zip (zip sel insts) outs) = Inr row'"
      using Cons.prems(4) out by (auto simp: bindR_eq_Inr_iff)
    have rest: "length row' = length es' \<and> (\<forall>j<length es'. \<exists>out. group_value syms (es' ! j) (sel ! j) rs out = Inr (row' ! j))"
      using Cons.IH [OF es(3) _ _ row(3)] Cons.prems(2,3) out by simp
    have "group_value syms e p rs o' = Inr v"
      using vm_result_value [OF es(2) _ Cons.hyps(1)] row(2) Cons.prems(2) by simp
    then show ?case using rest es(1) row(1) by (auto simp: less_Suc_eq_0_disj nth_Cons')
  qed
  then show ?thesis by (simp add: is_group_row_def)
qed

lemma group_by_rows:
  assumes "mapR (compile syms) es = Inr sel" and "list_all supported sel" and "mset (order gs) = mset gs"
    and "grouped sel ks rows gs" and "getResult order sel gs collect [] = Inr out"
  shows "\<exists>keys. distinct keys \<and> set keys = {k. rows_of ks rows k \<noteq> []} \<and>
    list_all2 (\<lambda>k row. is_group_row syms es sel (rows_of ks rows k) row) keys out"
proof -
  have set_order: "set (order gs) = set gs" using assms(3) by (rule mset_eq_setD)
  have inst: "instances_of sel (rows_of ks rows k) insts" if "(k, insts) \<in> set (order gs)" for k insts
    using grouped_instances [OF assms(4)] that set_order by simp
  then have len: "\<forall>(k, insts)\<in>set (order gs). length insts = length sel"
    using list_all2_lengthD by (fastforce simp: instances_of_def)
  have loop: "result_loop sel (order gs) (replicate (length sel) Null) collect [] = Inr out"
    using assms(5) by (simp add: getResult_def)
  have all: "list_all2 (\<lambda>(k, insts) row. \<exists>out. length out = length sel \<and> result_row sel insts out = Inr row) (order gs) out"
    using collected_rows [OF _ len loop] by auto
  have "list_all2 (\<lambda>g row. is_group_row syms es sel (rows_of ks rows (fst g)) row) (order gs) out"
    unfolding list_all2_conv_all_nth
  proof (intro conjI allI impI)
    show "length (order gs) = length out" using all by (rule list_all2_lengthD)
    fix j
    assume j: "j < length (order gs)"
    obtain k insts where g: "order gs ! j = (k, insts)" by (cases "order gs ! j")
    then have "(k, insts) \<in> set (order gs)" using j by (metis nth_mem)
    then show "is_group_row syms es sel (rows_of ks rows (fst (order gs ! j))) (out ! j)"
      using list_all2_nthD [OF all j] g result_row_value [OF assms(1,2) inst] by auto
  qed
  then have rows: "list_all2 (\<lambda>k row. is_group_row syms es sel (rows_of ks rows k) row) (map fst (order gs)) out"
    by (simp add: list_all2_map1)
  have "mset (map fst (order gs)) = mset (map fst gs)" using assms(3) by simp
  then have "distinct (map fst (order gs))" using assms(4) unfolding grouped_def by (metis mset_eq_imp_distinct_iff)
  moreover have "set (map fst (order gs)) = {k. rows_of ks rows k \<noteq> []}"
    using grouped_keys [OF assms(4)] set_order by auto
  ultimately show ?thesis using rows by blast
qed

section \<open>Merging\<close>

lemma merge_instances:
  assumes "list_all distributable sel" and "instances_of sel xs ds" and "instances_of sel ys ss" and "ys \<noteq> []"
  shows "\<exists>ms. mapR (\<lambda>((p, d), s). vm_merge p d s) (zip (zip sel ds) ss) = Inr ms \<and> instances_of sel (xs @ ys) ms"
  using assms(2,1,3) unfolding instances_of_def
proof (induction arbitrary: ss rule: list_all2_induct)
  case (Cons p sel d ds)
  then obtain s ss' where ss: "ss = s # ss'" "represents p ys s" "list_all2 (\<lambda>p. represents p ys) sel ss'"
    by (auto simp: list_all2_Cons1)
  obtain m where m: "vm_merge p d s = Inr m" "represents p (xs @ ys) m"
    using merge_represents [of p xs d ys s] Cons.hyps(1) Cons.prems(1) ss(2) assms(4) by auto
  obtain ms where "mapR (\<lambda>((p, d), s). vm_merge p d s) (zip (zip sel ds) ss') = Inr ms"
    "list_all2 (\<lambda>p. represents p (xs @ ys)) sel ms"
    using Cons.IH [OF _ ss(3)] Cons.prems(1) by auto
  then show ?case using ss(1) m by simp
qed simp

lemma merge_group_grouped:
  assumes "list_all distributable sel" and "grouped sel ks xs dst" and "instances_of sel rs insts" and "rs \<noteq> []"
    and "\<And>k'. rows_of ks new k' = (if k' = k then rs else [])"
  shows "\<exists>dst'. merge_group sel dst (k, insts) = Inr dst' \<and> grouped sel ks (xs @ new) dst'"
proof -
  have sup: "list_all supported sel" using assms(1) distributable_supported by (auto simp: list_all_iff)
  obtain ds where ds: "open_group sel dst k = Inr ds" "instances_of sel (rows_of ks xs k) ds"
    using open_group_ok [OF sup, of "rows_of ks xs k" dst k] assms(2) by (auto simp: grouped_def)
  obtain ms where ms: "mapR (\<lambda>((p, d), s). vm_merge p d s) (zip (zip sel ds) insts) = Inr ms"
    "instances_of sel (rows_of ks xs k @ rs) ms"
    using merge_instances [OF assms(1) ds(2) assms(3,4)] by blast
  from grouped_update [OF assms(2) ms(2) assms(4,5)] show ?thesis
    using ds(1) ms(1) by (simp add: merge_group_def)
qed

text \<open>Merging group by group: the rows of the groups merged so far.\<close>

lemma rows_of_rows_of: "rows_of ks (rows_of ks rows k) k' = (if k' = k then rows_of ks rows k else [])"
  by (auto simp: rows_of_def filter_empty_conv conj_commute cong: conj_cong)

lemma merge_groups_loop:
  assumes "list_all distributable sel" and "distinct (map fst gs)"
    and "\<forall>(k, insts)\<in>set gs. rows_of ks ys k \<noteq> [] \<and> instances_of sel (rows_of ks ys k) insts"
    and "grouped sel ks xs dst"
  shows "\<exists>dst'. foldR (merge_group sel) dst gs = Inr dst' \<and>
    grouped sel ks (xs @ concat (map (\<lambda>(k, insts). rows_of ks ys k) gs)) dst'"
  using assms(2-4)
proof (induction gs arbitrary: dst xs)
  case (Cons g gs)
  obtain k insts where g: "g = (k, insts)" by (cases g)
  have new: "rows_of ks (rows_of ks ys k) k' = (if k' = k then rows_of ks ys k else [])" for k'
    by (rule rows_of_rows_of)
  obtain dst1 where dst1: "merge_group sel dst (k, insts) = Inr dst1" "grouped sel ks (xs @ rows_of ks ys k) dst1"
    using merge_group_grouped [OF assms(1) Cons.prems(3) _ _ new] Cons.prems(2) g by auto
  then show ?case using Cons.IH [OF _ _ dst1(2)] Cons.prems(1,2) g by auto
qed simp

text \<open>Groups depend on the rows of every key only.\<close>

lemma grouped_cong:
  "(\<And>k. rows_of ks rows k = rows_of ks rows' k) \<Longrightarrow> grouped sel ks rows gs = grouped sel ks rows' gs"
  by (simp add: grouped_def)

lemma rows_of_concat: "rows_of ks (concat xss) k = concat (map (\<lambda>xs. rows_of ks xs k) xss)"
  by (induction xss) simp_all

lemma concat_single:
  "distinct (map fst gs) \<Longrightarrow> concat (map (\<lambda>g. if k = fst g then x else []) gs) = (if k \<in> fst ` set gs then x else [])"
proof (induction gs)
  case (Cons g gs)
  have "concat (map (\<lambda>g. if k = fst g then x else []) gs) = []" if "k = fst g"
    using Cons.prems that by auto
  then show ?case using Cons by auto
qed simp

lemma mergeResult_grouped:
  assumes "list_all distributable sel" and "\<And>gs :: groups. mset (order gs) = mset gs"
    and "grouped sel ks ys src" and "grouped sel ks xs dst"
  shows "\<exists>dst'. mergeResult order sel src dst = Inr dst' \<and> grouped sel ks (xs @ ys) dst'"
proof -
  have set_order: "set (order src) = set src" by (rule mset_eq_setD) (rule assms(2))
  have "mset (map fst (order src)) = mset (map fst src)" using assms(2) by simp
  then have d: "distinct (map fst (order src))"
    using assms(3) unfolding grouped_def by (metis mset_eq_imp_distinct_iff)
  have all: "\<forall>(k, insts)\<in>set (order src). rows_of ks ys k \<noteq> [] \<and> instances_of sel (rows_of ks ys k) insts"
    using grouped_keys [OF assms(3)] grouped_instances [OF assms(3)] set_order by (fastforce simp: image_iff)
  obtain dst' where dst': "mergeResult order sel src dst = Inr dst'"
    "grouped sel ks (xs @ concat (map (\<lambda>(k, insts). rows_of ks ys k) (order src))) dst'"
    using merge_groups_loop [OF assms(1) d all assms(4)] by (auto simp: mergeResult_def)
  have "rows_of ks (concat (map (\<lambda>(k, insts). rows_of ks ys k) (order src))) k = rows_of ks ys k" for k
  proof -
    have "rows_of ks (concat (map (\<lambda>(k, insts). rows_of ks ys k) (order src))) k =
        concat (map (\<lambda>g. if k = fst g then rows_of ks ys k else []) (order src))"
      unfolding rows_of_concat map_map
      by (intro arg_cong [of _ _ concat] map_cong) (auto simp: rows_of_rows_of)
    also have "\<dots> = (if k \<in> fst ` set (order src) then rows_of ks ys k else [])" by (rule concat_single [OF d])
    finally show ?thesis using grouped_keys [OF assms(3), of k] set_order by auto
  qed
  then have "grouped sel ks (xs @ ys) dst'"
    using dst'(2) by (subst grouped_cong) simp_all
  with dst'(1) show ?thesis by blast
qed

section \<open>Groups on the wire\<close>

lemma moved_instances_from:
  assumes "list_all distributable sel" and "instances_of sel rs insts" and "list_all (sendable rs) sel"
  shows "\<exists>bs. (\<forall>os. foldR (\<lambda>bs (p, inst). bindR (saveState p inst) (\<lambda>b. Inr (bs @ b))) os (zip sel insts) = Inr (os @ bs)) \<and>
    (\<forall>front r. \<exists>insts'. load_instances sel (length front) front (bs @ r) = Inr (front @ insts', r) \<and> instances_of sel rs insts')"
  using assms(2,1,3) unfolding instances_of_def
proof (induction rule: list_all2_induct)
  case (Cons p sel inst insts)
  obtain fresh where fresh: "allocInstance p = Inr fresh"
    using alloc_represents [OF distributable_supported, of p] Cons.prems by auto
  obtain b where b: "saveState p inst = Inr b"
    "\<And>r. \<exists>inst'. loadState p fresh (b @ r) = Inr (inst', r) \<and> represents p rs inst'"
    using moved_represents [OF _ Cons.hyps(1) fresh] Cons.prems by auto
  obtain bs where bs: "\<And>os. foldR (\<lambda>bs (p, inst). bindR (saveState p inst) (\<lambda>b. Inr (bs @ b))) os (zip sel insts) = Inr (os @ bs)"
    and load: "\<And>front r. \<exists>insts'. load_instances sel (length front) front (bs @ r) = Inr (front @ insts', r) \<and>
      list_all2 (\<lambda>p. represents p rs) sel insts'"
    using Cons.IH Cons.prems by auto
  have "\<exists>insts'. load_instances (p # sel) (length front) front ((b @ bs) @ r) = Inr (front @ insts', r) \<and>
      list_all2 (\<lambda>p. represents p rs) (p # sel) insts'" for front r
  proof -
    obtain inst' where inst': "loadState p fresh (b @ bs @ r) = Inr (inst', bs @ r)" "represents p rs inst'"
      using b(2) by blast
    obtain insts' where "load_instances sel (length (front @ [inst'])) (front @ [inst']) (bs @ r) = Inr ((front @ [inst']) @ insts', r)"
      "list_all2 (\<lambda>p. represents p rs) sel insts'" using load by blast
    then show ?thesis using inst' fresh by (intro exI [of _ "inst' # insts'"]) (simp add: Let_def)
  qed
  moreover have "foldR (\<lambda>bs (p, inst). bindR (saveState p inst) (\<lambda>b. Inr (bs @ b))) os (zip (p # sel) (inst # insts)) = Inr (os @ b @ bs)" for os
    using b(1) bs by simp
  ultimately show ?case by blast
qed simp

lemma moved_instances:
  assumes "list_all distributable sel" and "instances_of sel rs insts" and "list_all (sendable rs) sel"
  shows "\<exists>bs. save_instances sel insts = Inr bs \<and>
    (\<forall>r. \<exists>insts'. load_instances sel 0 [] (bs @ r) = Inr (insts', r) \<and> instances_of sel rs insts')"
proof -
  obtain bs where
    save: "\<And>os. foldR (\<lambda>bs (p, inst). bindR (saveState p inst) (\<lambda>b. Inr (bs @ b))) os (zip sel insts) = Inr (os @ bs)"
    and load: "\<And>front r. \<exists>insts'. load_instances sel (length front) front (bs @ r) = Inr (front @ insts', r) \<and> instances_of sel rs insts'"
    using moved_instances_from [OF assms] by blast
  have "save_instances sel insts = Inr bs" using save [of "[]"] by (simp add: save_instances_def)
  moreover have "\<exists>insts'. load_instances sel 0 [] (bs @ r) = Inr (insts', r) \<and> instances_of sel rs insts'" for r
    using load [of "[]" r] by simp
  ultimately show ?thesis by blast
qed

definition encode_group :: "vm_program list \<Rightarrow> byte list \<Rightarrow> string \<times> vm_instance list \<Rightarrow> byte list result" where
  "encode_group sel bs = (\<lambda>(key, insts). bindR (save_instances sel insts) (\<lambda>b.
     Inr (bs @ appendLenencString (bytes_of_string key) @ b)))"

lemma encode_groups_alt:
  "encode_groups order sel gs =
     foldR (encode_group sel) (appendVarUInt (of_nat (length gs)) @ appendVarUInt (of_nat (length sel))) (order gs)"
  by (simp add: encode_groups_def encode_group_def [abs_def])

definition sized_keys :: "groups \<Rightarrow> bool" where
  "sized_keys gs \<longleftrightarrow> list_all (\<lambda>(key, insts). length key < 2 ^ 64) gs"

lemma sendable_rows_of: "list_all (sendable rows) sel \<Longrightarrow> list_all (sendable (rows_of ks rows k)) sel"
  by (auto simp: list_all_iff sendable_def rows_of_def)

lemma decode_groups_loop:
  assumes "list_all distributable sel" and "list_all (sendable ys) sel" and "distinct (map fst gs)" and "sized_keys gs"
    and "\<forall>(k, insts)\<in>set gs. rows_of ks ys k \<noteq> [] \<and> instances_of sel (rows_of ks ys k) insts"
    and "grouped sel ks xs acc" and "\<forall>k\<in>fst ` set gs. rows_of ks xs k = []"
  shows "\<exists>bs. (\<forall>os. foldR (encode_group sel) os gs = Inr (os @ bs)) \<and>
    (\<forall>r. \<exists>acc'. decode_loop sel (length gs) acc (bs @ r) = Inr (acc', r) \<and>
      grouped sel ks (xs @ concat (map (\<lambda>(k, insts). rows_of ks ys k) gs)) acc')"
  using assms(3-7)
proof (induction gs arbitrary: acc xs)
  case (Cons g gs)
  obtain k insts where g: "g = (k, insts)" by (cases g)
  obtain b where b: "save_instances sel insts = Inr b"
    "\<And>r. \<exists>insts'. load_instances sel 0 [] (b @ r) = Inr (insts', r) \<and> instances_of sel (rows_of ks ys k) insts'"
    using moved_instances [OF assms(1) _ sendable_rows_of [OF assms(2)], of ks k insts] Cons.prems(3) g by auto
  have key: "readLenencString (appendLenencString (bytes_of_string k) @ r) = Inr (bytes_of_string k, r)" for r
    using Cons.prems(2) g by (intro lenenc.get_put) (simp add: sized_keys_def sized_def bytes_of_string_def)
  have "group_ok sel (rows_of ks xs k) (map_of acc k)" using Cons.prems(4) by (simp add: grouped_def)
  moreover have no_rows: "rows_of ks xs k = []" using Cons.prems(5) g by simp
  ultimately have empty: "rows_of ks xs k = []" "map_of acc k = None"
    by (cases "map_of acc k"; simp add: group_ok_def)+
  have kept: "\<forall>k'\<in>fst ` set gs. rows_of ks (xs @ rows_of ks ys k) k' = []"
    using Cons.prems(1,5) g by (auto simp: rows_of_rows_of)
  have acc1: "grouped sel ks (xs @ rows_of ks ys k) (AList.update k insts' acc)"
    if "instances_of sel (rows_of ks ys k) insts'" for insts'
    using that Cons.prems(3) g empty(1) by (intro grouped_update [OF Cons.prems(4)]) (auto simp: rows_of_rows_of)
  let ?new = "(xs @ rows_of ks ys k) @ concat (map (\<lambda>(k, insts). rows_of ks ys k) gs)"
  have IH: "\<exists>bs. (\<forall>os. foldR (encode_group sel) os gs = Inr (os @ bs)) \<and>
      (\<forall>r. \<exists>acc''. decode_loop sel (length gs) acc' (bs @ r) = Inr (acc'', r) \<and> grouped sel ks ?new acc'')"
    if "grouped sel ks (xs @ rows_of ks ys k) acc'" for acc'
    using Cons.IH [OF _ _ _ that kept] Cons.prems(1-3) g by (simp add: sized_keys_def)
  obtain insts0 where "instances_of sel (rows_of ks ys k) insts0" using b(2) by blast
  then obtain bs where bs: "\<And>os. foldR (encode_group sel) os gs = Inr (os @ bs)" using IH [OF acc1] by blast
  have "\<exists>acc'. decode_loop sel (length (g # gs)) acc ((appendLenencString (bytes_of_string k) @ b @ bs) @ r) = Inr (acc', r) \<and>
      grouped sel ks ?new acc'" for r
  proof -
    obtain insts' where insts': "load_instances sel 0 [] (b @ bs @ r) = Inr (insts', bs @ r)"
      "instances_of sel (rows_of ks ys k) insts'" using b(2) by blast
    obtain bs' where bs': "\<And>os. foldR (encode_group sel) os gs = Inr (os @ bs')"
      "\<And>r. \<exists>acc''. decode_loop sel (length gs) (AList.update k insts' acc) (bs' @ r) = Inr (acc'', r) \<and> grouped sel ks ?new acc''"
      using IH [OF acc1 [OF insts'(2)]] by blast
    have "bs' = bs" using bs [of "[]"] bs'(1) [of "[]"] by simp
    then show ?thesis using bs'(2) [of r] insts'(1) key empty(2) by (simp add: Let_def)
  qed
  moreover have "foldR (encode_group sel) os (g # gs) = Inr (os @ appendLenencString (bytes_of_string k) @ b @ bs)" for os
    using b(1) bs g by (simp add: encode_group_def [of _ os])
  ultimately show ?case using g by (intro exI [of _ "appendLenencString (bytes_of_string k) @ b @ bs"]) simp
qed simp

lemma concat_rows_of_groups:
  assumes "distinct (map fst gs)" and "\<And>k. k \<in> fst ` set gs \<longleftrightarrow> rows_of ks ys k \<noteq> []"
  shows "rows_of ks (concat (map (\<lambda>(k, insts). rows_of ks ys k) gs)) k = rows_of ks ys k"
proof -
  have "rows_of ks (concat (map (\<lambda>(k, insts). rows_of ks ys k) gs)) k =
      concat (map (\<lambda>g. if k = fst g then rows_of ks ys k else []) gs)"
    unfolding rows_of_concat map_map
    by (intro arg_cong [of _ _ concat] map_cong) (auto simp: rows_of_rows_of)
  also have "\<dots> = (if k \<in> fst ` set gs then rows_of ks ys k else [])" by (rule concat_single [OF assms(1)])
  finally show ?thesis using assms(2) by auto
qed

lemma moved_groups:
  assumes "list_all distributable sel" and "list_all (sendable rows) sel" and "mset (order gs) = mset gs" and "grouped sel ks rows gs" and "sized_keys gs"
    and "length gs < 2 ^ 64"
  shows "\<exists>bs. encode_groups order sel gs = Inr bs \<and>
    (\<forall>r. \<exists>gs'. decode_groups sel [] (bs @ r) = Inr (Some gs', r) \<and> grouped sel ks rows gs')"
proof -
  have set_order: "set (order gs) = set gs" using assms(3) by (rule mset_eq_setD)
  have len: "length (order gs) = length gs" using assms(3) by (metis size_mset)
  have "mset (map fst (order gs)) = mset (map fst gs)" using assms(3) by simp
  then have d: "distinct (map fst (order gs))"
    using assms(4) unfolding grouped_def by (metis mset_eq_imp_distinct_iff)
  have keys: "k \<in> fst ` set (order gs) \<longleftrightarrow> rows_of ks rows k \<noteq> []" for k
    using grouped_keys [OF assms(4)] set_order by simp
  have all: "\<forall>(k, insts)\<in>set (order gs). rows_of ks rows k \<noteq> [] \<and> instances_of sel (rows_of ks rows k) insts"
    using keys grouped_instances [OF assms(4)] set_order by (fastforce simp: image_iff)
  have "sized_keys (order gs)" using assms(5) set_order by (simp add: sized_keys_def list_all_iff)
  moreover have "grouped sel ks [] []" by (simp add: grouped_def group_ok_def)
  ultimately obtain bs where bs: "\<And>os. foldR (encode_group sel) os (order gs) = Inr (os @ bs)"
    "\<And>r. \<exists>gs'. decode_loop sel (length (order gs)) [] (bs @ r) = Inr (gs', r) \<and>
      grouped sel ks ([] @ concat (map (\<lambda>(k, insts). rows_of ks rows k) (order gs))) gs'"
    using decode_groups_loop [OF assms(1,2) d _ all, of "[]" "[]"] by fastforce
  have same: "grouped sel ks (concat (map (\<lambda>(k, insts). rows_of ks rows k) (order gs))) gs' = grouped sel ks rows gs'" for gs'
    by (rule grouped_cong) (rule concat_rows_of_groups [OF d keys])
  have "unat (of_nat (length gs) :: 64 word) = length (order gs)"
    using assms(6) len by (simp add: unat_of_nat take_bit_nat_eq_self)
  then have "\<exists>gs'. decode_groups sel [] ((appendVarUInt (of_nat (length gs)) @ appendVarUInt (of_nat (length sel)) @ bs) @ r) =
      Inr (Some gs', r) \<and> grouped sel ks rows gs'" for r
    using bs(2) [of r] same by (auto simp: decode_groups_def varuint.get_put)
  moreover have "encode_groups order sel gs =
      Inr (appendVarUInt (of_nat (length gs)) @ appendVarUInt (of_nat (length sel)) @ bs)"
    using bs(1) by (simp add: encode_groups_alt)
  ultimately show ?thesis by blast
qed

text \<open>There are at most as many groups as rows.\<close>

lemma length_grouped: "grouped sel ks rows gs \<Longrightarrow> length gs \<le> length rows"
proof -
  assume g: "grouped sel ks rows gs"
  then have d: "distinct (map fst gs)" by (simp add: grouped_def)
  have "set (map fst gs) \<subseteq> set (map (\<lambda>row. projr (group_key ks row)) rows)"
  proof
    fix k
    assume "k \<in> set (map fst gs)"
    then have "rows_of ks rows k \<noteq> []" using grouped_keys [OF g] by simp
    then obtain row where "row \<in> set rows" "group_key ks row = Inr k"
      by (auto simp: rows_of_def filter_empty_conv)
    then show "k \<in> set (map (\<lambda>row. projr (group_key ks row)) rows)" by force
  qed
  then have "card (set (map fst gs)) \<le> card (set (map (\<lambda>row. projr (group_key ks row)) rows))"
    by (intro card_mono) simp_all
  also have "\<dots> \<le> length rows" using card_length [of "map (\<lambda>row. projr (group_key ks row)) rows"] by simp
  finally show "length gs \<le> length rows" using distinct_card [OF d] by simp
qed

definition short_keys :: "vm_program list \<Rightarrow> svalue list list \<Rightarrow> bool" where
  "short_keys ks rows \<longleftrightarrow> length rows < 2 ^ 64 \<and>
     list_all (\<lambda>row. case group_key ks row of Inr k \<Rightarrow> length k < 2 ^ 64 | Inl e \<Rightarrow> True) rows"

lemma short_keys_sized: "grouped sel ks rows gs \<Longrightarrow> short_keys ks rows \<Longrightarrow> sized_keys gs \<and> length gs < 2 ^ 64"
proof
  assume g: "grouped sel ks rows gs" and s: "short_keys ks rows"
  show "length gs < 2 ^ 64" using length_grouped [OF g] s by (simp add: short_keys_def)
  have "length k < 2 ^ 64" if "(k, insts) \<in> set gs" for k insts
  proof -
    have "rows_of ks rows k \<noteq> []" using grouped_keys [OF g, of k] that by force
    then obtain row where "row \<in> set rows" "group_key ks row = Inr k"
      by (auto simp: rows_of_def filter_empty_conv)
    then show ?thesis using s by (fastforce simp: short_keys_def list_all_iff)
  qed
  then show "sized_keys gs" by (auto simp: sized_keys_def list_all_iff)
qed

text \<open>Two groupings with the same output: the same keys, and equal rows for each of them.\<close>

definition same_output :: "vm_program list \<Rightarrow> groups \<Rightarrow> groups \<Rightarrow> bool" where
  "same_output sel gs gs' \<longleftrightarrow> fst ` set gs = fst ` set gs' \<and> distinct (map fst gs) \<and> distinct (map fst gs') \<and>
     (\<forall>(k, insts)\<in>set gs. \<forall>(k', insts')\<in>set gs'. k = k' \<longrightarrow> (\<forall>out. result_row sel insts out = result_row sel insts' out))"

lemma grouped_same_output: "grouped sel ks rows gs \<Longrightarrow> grouped sel ks rows gs' \<Longrightarrow> same_output sel gs gs'"
proof -
  assume g: "grouped sel ks rows gs" "grouped sel ks rows gs'"
  have "fst ` set gs = fst ` set gs'" using grouped_keys [OF g(1)] grouped_keys [OF g(2)] by blast
  moreover have "result_row sel insts out = result_row sel insts' out"
    if "(k, insts) \<in> set gs" "(k, insts') \<in> set gs'" for k insts insts' out
    using result_row_represents grouped_instances [OF g(1) that(1)] grouped_instances [OF g(2) that(2)] by blast
  ultimately show ?thesis using g by (fastforce simp: same_output_def grouped_def)
qed

text \<open>What a coordinator computes from the serialized results of the parts.\<close>

definition distributed_groups ::
  "(groups \<Rightarrow> groups) \<Rightarrow> vm_program list \<Rightarrow> vm_program list \<Rightarrow> svalue list list list \<Rightarrow> groups result" where
  "distributed_groups order sel ks parts =
     merge_sources order sel (map (\<lambda>part. bindR (executeRemote order sel ks part) (accumulate_remote sel)) parts)"

lemma remote_grouped:
  assumes "list_all distributable sel" and "\<And>gs :: groups. mset (order gs) = mset gs"
    and "list_all (sendable part) sel" and "accumulate_source sel ks part = Inr gs" and "short_keys ks part"
  shows "\<exists>gs'. bindR (executeRemote order sel ks part) (accumulate_remote sel) = Inr gs' \<and> grouped sel ks part gs'"
proof -
  have "list_all supported sel" using assms(1) distributable_supported by (auto simp: list_all_iff)
  then have g: "grouped sel ks part gs" using accumulate_source_grouped assms(4) by blast
  obtain bs where bs: "encode_groups order sel gs = Inr bs"
    "\<And>r. \<exists>gs'. decode_groups sel [] (bs @ r) = Inr (Some gs', r) \<and> grouped sel ks part gs'"
    using moved_groups [where order = order, OF assms(1,3,2) g] short_keys_sized [OF g assms(5)] by blast
  obtain gs' where "decode_groups sel [] bs = Inr (Some gs', [])" "grouped sel ks part gs'"
    using bs(2) [of "[]"] by auto
  then show ?thesis using bs(1) assms(4) by (simp add: executeRemote_def accumulate_remote_def)
qed

lemma merge_sources_grouped:
  assumes "list_all distributable sel" and "\<And>gs :: groups. mset (order gs) = mset gs"
    and "list_all2 (\<lambda>part source. \<exists>gs. source = Inr gs \<and> grouped sel ks part gs) parts sources"
    and "grouped sel ks done acc"
  shows "\<exists>acc'. foldR (merge_source order sel) (acc, False) sources = Inr (acc', False) \<and>
    grouped sel ks (done @ concat parts) acc'"
  using assms(3,4)
proof (induction arbitrary: "done" acc rule: list_all2_induct)
  case (Cons part parts source sources)
  then obtain gs where gs: "source = Inr gs" "grouped sel ks part gs" by blast
  obtain acc1 where acc1: "mergeResult order sel gs acc = Inr acc1" "grouped sel ks (done @ part) acc1"
    using mergeResult_grouped [where order = order, OF assms(1,2) gs(2) Cons.prems] by blast
  then show ?case using Cons.IH [OF acc1(2)] gs(1) by (simp add: merge_source_def)
qed simp

section \<open>An example query\<close>

text \<open>\<open>SELECT k, count(v) GROUP BY k\<close>, for the concrete instances of the properties.\<close>

definition example_syms :: symbol_table where
  "example_syms = [(''count'', FN_AGGREGATE kCountExpr)]"

definition example_exprs :: "expr_node list" where
  "example_exprs = [ColumnReference ''k'' (Some 0), CallExpression ''count'' [ColumnReference ''v'' (Some 1)]]"

definition example_keys :: "vm_program list" where
  "example_keys = [new_program (X_INPUT 0) 0]"

definition example_select :: "vm_program list" where
  "example_select = [new_program (X_INPUT 0) 0, new_program (X_CALL_AGGREGATE 0 kCountExpr [X_INPUT 1]) 8]"

definition example_rows :: "svalue list list" where
  "example_rows = [[Str ''a'', Integer 1], [Str ''b'', Null], [Str ''a'', Integer 2]]"

lemmas example_defs = example_syms_def example_exprs_def example_keys_def example_select_def example_rows_def

lemmas run_defs = nextRow_def group_key_def vm_evaluate_def new_program_def makeUniqueKey_def key_separator_def
  open_group_def allocInstance_def initInstance_def vm_accumulate_def on_slots_def on_static_def kCountExpr_def
  aggregate_of_def countExprAcc_def countExprReset_def countExprGet_def vm_result_def

lemma example_compile: "mapR (compile example_syms) example_exprs = Inr example_select"
proof -
  have "toLower ''count'' = ''count''" by code_simp
  then show ?thesis
    by (simp add: example_defs compile_def lookup_def kCountExpr_def aggregate_of_def)
qed

lemma example_distributable: "list_all distributable example_select"
proof -
  have "well_formed (new_program (X_CALL_AGGREGATE 0 kCountExpr [X_INPUT 1]) 8)"
    by (simp add: well_formed_def new_program_def offsets_def)
  then show ?thesis
    by (simp add: example_select_def distributable_def new_program_def vm_evaluate_def count_mergeable)
qed

lemma example_supported: "list_all supported example_select"
  using example_distributable distributable_supported by (auto simp: list_all_iff)

lemma example_sendable: "list_all (sendable example_rows) example_select"
  by (auto simp: example_defs sendable_def new_program_def vm_evaluate_def encodable_def)

lemma example_short_keys: "set part \<subseteq> set example_rows \<Longrightarrow> length part < 4 \<Longrightarrow> short_keys example_keys part"
  by (auto simp: short_keys_def list_all_iff example_rows_def example_keys_def group_key_def new_program_def vm_evaluate_def
      makeUniqueKey_def key_separator_def)

lemma example_run:
  "accumulate_source example_select example_keys example_rows =
     Inr [(''a'', [Static (Str ''a''), Slots ((\<lambda>_. Raw)(0 := CountCell 2))]),
          (''b'', [Static (Str ''b''), Slots ((\<lambda>_. Raw)(0 := CountCell 0))])]"
  by (simp add: accumulate_source_def example_defs run_defs)

section \<open>Properties\<close>

text \<open>
  C1. Grouping rows produces one output row for every distinct group key, and each of its columns is
  the value of the select expression over the rows of that group: aggregates range over exactly those
  rows, and an expression without aggregates has its value for the last of them.
\<close>

theorem group_by_correct:
  assumes "mapR (compile syms) es = Inr sel" and "list_all supported sel"
    and "\<And>gs :: groups. mset (order gs) = mset gs"
    and "execute_group_by order sel ks rows collect [] = Inr out"
  shows "\<exists>keys. distinct keys \<and> set keys = {k. \<exists>row\<in>set rows. group_key ks row = Inr k} \<and>
    list_all2 (\<lambda>k row. is_group_row syms es sel (rows_of ks rows k) row) keys out"
proof -
  obtain gs where gs: "accumulate_source sel ks rows = Inr gs" "getResult order sel gs collect [] = Inr out"
    using assms(4) by (auto simp: execute_group_by_def bindR_eq_Inr_iff)
  have "{k. rows_of ks rows k \<noteq> []} = {k. \<exists>row\<in>set rows. group_key ks row = Inr k}"
    by (auto simp: rows_of_def filter_empty_conv)
  with group_by_rows [where order = order, OF assms(1,2,3) accumulate_source_grouped [OF assms(2) gs(1)] gs(2)]
  show ?thesis by simp
qed

theorem group_by_correct_witness:
  "\<exists>keys. distinct keys \<and> set keys = {''a'', ''b''} \<and>
     list_all2 (\<lambda>k row. is_group_row example_syms example_exprs example_select (rows_of example_keys example_rows k) row)
       keys [[Str ''a'', Integer 2], [Str ''b'', Integer 0]]"
proof -
  have "execute_group_by (\<lambda>gs. gs) example_select example_keys example_rows collect [] =
      Inr [[Str ''a'', Integer 2], [Str ''b'', Integer 0]]"
    unfolding execute_group_by_def example_run
    by (simp add: getResult_def result_row_def example_select_def run_defs collect_def)
  from group_by_correct [OF example_compile example_supported refl this]
  have "\<exists>keys. distinct keys \<and> set keys = {k. \<exists>row\<in>set example_rows. group_key example_keys row = Inr k} \<and>
      list_all2 (\<lambda>k row. is_group_row example_syms example_exprs example_select (rows_of example_keys example_rows k) row)
        keys [[Str ''a'', Integer 2], [Str ''b'', Integer 0]]" .
  moreover have "{k. \<exists>row\<in>set example_rows. group_key example_keys row = Inr k} = {''a'', ''b''}"
    by (auto simp: example_defs run_defs)
  ultimately show ?thesis by simp
qed





text \<open>
  Group keys are the texts of the group values without a separator, so different keys collide:
  rows that differ in both group columns are counted in one group.
\<close>

lemma group_keys_collide:
  "execute_group_by (\<lambda>gs. gs) [new_program (X_CALL_AGGREGATE 0 kCountExpr [X_INPUT 0]) 8]
     [new_program (X_INPUT 0) 0, new_program (X_INPUT 1) 0]
     [[Str a, Str (b @ c)], [Str (a @ b), Str c]] collect [] = Inr [[Integer 2]]"
  by (simp add: execute_group_by_def accumulate_source_def nextRow_def group_key_def vm_evaluate_def new_program_def
      makeUniqueKey_def key_separator_def open_group_def allocInstance_def initInstance_def vm_accumulate_def on_slots_def
      kCountExpr_def aggregate_of_def countExprAcc_def countExprReset_def countExprGet_def getResult_def result_row_def
      vm_result_def collect_def)

end
