(* ===== verification/Query_Tree.thy ===== *)
theory Query_Tree
  imports Value_Expr Ast
begin

text \<open>
  The nodes of the query tree (src/csql/qtree) and the tables they name
  (\<open>TableProvider\<close>, \<open>TableRepository\<close> of src/csql/runtime/tablerepository.h and tablerepository.cc).
  Nodes are immutable terms here, so the shared references of the code need no store.
\<close>

section \<open>Tables\<close>

record column_info =
  column_name :: string
  column_type :: string
  is_nullable :: bool
  type_size :: "64 word"

record table_info =
  table_name :: string
  description :: "string option"
  columns :: "column_info list"

section \<open>Nodes\<close>

datatype aggregation_strategy =
    NO_AGGREGATION
  | AGGREGATE_WITHIN_RECORD_FLAT
  | AGGREGATE_WITHIN_RECORD_DEEP
  | AGGREGATE_ALL

fun strategy_name :: "aggregation_strategy \<Rightarrow> string" where
  "strategy_name NO_AGGREGATION = ''NO_AGGREGATION''"
| "strategy_name AGGREGATE_WITHIN_RECORD_FLAT = ''AGGREGATE_WITHIN_RECORD_FLAT''"
| "strategy_name AGGREGATE_WITHIN_RECORD_DEEP = ''AGGREGATE_WITHIN_RECORD_DEEP''"
| "strategy_name AGGREGATE_ALL = ''AGGREGATE_ALL''"

text \<open>\<open>SelectListNode\<close>: an expression and its alias.\<close>

datatype select_list_node = SelectListNode (expression: expr_node) (alias_of: "string option")

definition setAlias :: "string \<Rightarrow> select_list_node \<Rightarrow> select_list_node" where
  "setAlias a s = SelectListNode (expression s) (Some a)"

definition columnName :: "select_list_node \<Rightarrow> string option" where
  "columnName s = (case alias_of s of Some a \<Rightarrow> Some a | None \<Rightarrow> node_toSQL (expression s))"

text \<open>\<open>OrderByNode::SortSpec\<close>; its column index is never negative and far below \<open>2^64\<close>.\<close>

record sort_spec =
  sort_column :: nat
  sort_descending :: bool

datatype query_tree =
    SequentialScanNode string "select_list_node list" "expr_node option" aggregation_strategy
  | SelectExpressionNode "select_list_node list"
  | GroupByNode "select_list_node list" "expr_node list" query_tree
  | OrderByNode "sort_spec list" nat query_tree
  | LimitNode "64 word" "64 word" query_tree
  | ShowTablesNode
  | DescribeTableNode string
  | UnionNode "query_tree list"
  | GroupByMergeNode "query_tree list"
  | DrawStatementNode ast "query_tree list"
  | ChartStatementNode "query_tree list"

section \<open>Children\<close>

text \<open>\<open>children_\<close>, which the constructors fill with \<open>addChild\<close>.\<close>

fun tree_children :: "query_tree \<Rightarrow> query_tree list" where
  "tree_children (GroupByNode sl gs t) = [t]"
| "tree_children (OrderByNode ss n t) = [t]"
| "tree_children (LimitNode l off t) = [t]"
| "tree_children (UnionNode ts) = ts"
| "tree_children (GroupByMergeNode ts) = ts"
| "tree_children (DrawStatementNode a ts) = ts"
| "tree_children (ChartStatementNode ts) = ts"
| "tree_children _ = []"

definition numChildren :: "query_tree \<Rightarrow> nat" where
  "numChildren t = List.length (tree_children t)"

definition child :: "query_tree \<Rightarrow> nat \<Rightarrow> query_tree result" where
  "child t index =
     (if List.length (tree_children t) < index then Inl (Raise IndexError) else elemR (tree_children t) index)"

section \<open>Text\<close>

text \<open>The text of a node, the key of the result cache. As in \<open>node_toSQL\<close>, \<open>None\<close> is a format that never ends.\<close>

definition expr_toString :: "expr_node \<Rightarrow> string option" where
  "expr_toString e = Option.bind (node_toSQL e) (\<lambda>s. formatv ''(expr $0)'' [s])"

definition select_toString :: "select_list_node \<Rightarrow> string option" where
  "select_toString s =
     Option.bind (expr_toString (expression s)) (\<lambda>e.
     Option.bind (case alias_of s of None \<Rightarrow> Some [] | Some a \<Rightarrow> formatv '' (alias $0)'' [a]) (\<lambda>al.
       Some (''(column-ref '' @ e @ al @ '')'')))"

text \<open>The texts of a list, each behind a fixed prefix and before a fixed suffix.\<close>

fun append_all :: "('a \<Rightarrow> string option) \<Rightarrow> string \<Rightarrow> string \<Rightarrow> 'a list \<Rightarrow> string option" where
  "append_all f pre post [] = Some []"
| "append_all f pre post (x # xs) =
     Option.bind (f x) (\<lambda>s. Option.bind (append_all f pre post xs) (\<lambda>r. Some (pre @ s @ post @ r)))"

lemma append_all_cong [fundef_cong]:
  assumes "xs = ys" and "pre = pre'" and "post = post'" and "\<And>x. x \<in> set ys \<Longrightarrow> f x = g x"
  shows "append_all f pre post xs = append_all g pre' post' ys"
proof -
  have "append_all f pre' post' ys = append_all g pre' post' ys"
    using assms(4) by (induction ys) simp_all
  with assms(1-3) show ?thesis by simp
qed

fun sort_toString :: "sort_spec list \<Rightarrow> string option" where
  "sort_toString [] = Some []"
| "sort_toString (s # ss) =
     Option.bind (formatv '' (sort-spec $0 $1)'' [digits_of (sort_column s), if sort_descending s then ''DESC'' else ''ASC'']) (\<lambda>t.
     Option.bind (sort_toString ss) (\<lambda>r. Some (t @ r)))"

fun tree_toString :: "query_tree \<Rightarrow> string option" where
  "tree_toString (SequentialScanNode tbl sl wh st) =
     Option.bind (formatv ''(seqscan (table $0) (aggregate $1) (select-list'' [tbl, strategy_name st]) (\<lambda>hd.
     Option.bind (append_all select_toString '' '' [] sl) (\<lambda>cols.
     Option.bind (case wh of None \<Rightarrow> Some []
                  | Some e \<Rightarrow> Option.bind (expr_toString e) (\<lambda>s. formatv '' (where $0)'' [s])) (\<lambda>w.
       Some (hd @ cols @ '')'' @ w @ '')''))))"
| "tree_toString (SelectExpressionNode sl) =
     Option.bind (append_all select_toString '' '' [] sl) (\<lambda>cols. Some (''(select-expr'' @ cols @ '')''))"
| "tree_toString (GroupByNode sl gs t) =
     Option.bind (append_all select_toString '' '' [] sl) (\<lambda>cols.
     Option.bind (append_all expr_toString '' '' [] gs) (\<lambda>groups.
     Option.bind (tree_toString t) (\<lambda>sub.
       Some (''(group-by (select-list'' @ cols @ '') (group-list'' @ groups @ '') (subexpr '' @ sub @ ''))''))))"
| "tree_toString (OrderByNode ss n t) =
     Option.bind (sort_toString ss) (\<lambda>specs.
     Option.bind (tree_toString t) (\<lambda>sub. Some (''(order-by'' @ specs @ '' (subexpr '' @ sub @ ''))'')))"
| "tree_toString (LimitNode l off t) =
     Option.bind (tree_toString t) (\<lambda>sub.
       formatv ''(limit $0 $1 (subexpr $2))'' [digits_of (unat l), digits_of (unat off), sub])"
| "tree_toString ShowTablesNode = Some ''(show-tables)''"
| "tree_toString (DescribeTableNode tbl) = formatv ''(describe-table $0)'' [tbl]"
| "tree_toString (UnionNode ts) =
     Option.bind (append_all tree_toString '' (subexpr '' '')'' ts) (\<lambda>s. Some (''(union'' @ s @ '')''))"
| "tree_toString (GroupByMergeNode ts) =
     Option.bind (append_all tree_toString '' (subexpr '' '')'' ts) (\<lambda>s. Some (''(group-merge'' @ s @ '')''))"
| "tree_toString (DrawStatementNode a ts) =
     Option.bind (append_all tree_toString '' (subexpr '' '')'' ts) (\<lambda>s. Some (''(draw'' @ s @ '')''))"
| "tree_toString (ChartStatementNode ts) =
     Option.bind (append_all tree_toString [] [] ts) (\<lambda>s. Some (''(chart'' @ s @ '')''))"

section \<open>Columns of a scan\<close>

text \<open>\<open>findSelectedColumnNames\<close> collects the names of all column references; the set is a list without order here.\<close>

fun findSelectedColumnNames :: "expr_node \<Rightarrow> string set" where
  "findSelectedColumnNames (ColumnReference name i) = {name}"
| "findSelectedColumnNames (LiteralExpression v) = {}"
| "findSelectedColumnNames (IfExpression c t f) =
     findSelectedColumnNames c \<union> findSelectedColumnNames t \<union> findSelectedColumnNames f"
| "findSelectedColumnNames (CallExpression symbol args) = (\<Union>a \<in> set args. findSelectedColumnNames a)"

definition selectedColumns :: "select_list_node list \<Rightarrow> string set" where
  "selectedColumns sl = (\<Union>s \<in> set sl. findSelectedColumnNames (expression s))"

section \<open>Providers\<close>

text \<open>
  \<open>TableRepository\<close> asks its providers in order and takes the first answer; a provider is code behind
  an interface, so it is a value: how it describes a table.
\<close>

fun describe :: "(string \<Rightarrow> table_info option) list \<Rightarrow> string \<Rightarrow> table_info option" where
  "describe [] name = None"
| "describe (p # ps) name = (case p name of Some t \<Rightarrow> Some t | None \<Rightarrow> describe ps name)"

lemma describe_append:
  "describe (ps @ qs) name = (case describe ps name of Some t \<Rightarrow> Some t | None \<Rightarrow> describe qs name)"
  by (induction ps) (simp_all split: option.splits)

end
