(* ===== verification/Query_Plan.thy ===== *)
theory Query_Plan
  imports Query_Tree
begin

text \<open>
  The query plan builder: src/csql/runtime/queryplanbuilder.cc, with \<open>ASTUtil\<close> of
  src/csql/parser/astutil.cc. It turns the syntax tree of a statement into a query tree. The code
  changes its trees in place; a function here returns the changed tree. A child pointer may be null, so
  reading a type or a token follows it with \<open>deref\<close>.
\<close>

section \<open>Reading the tree\<close>

definition getChild :: "ast \<Rightarrow> nat \<Rightarrow> ast result" where
  "getChild n k = bindR (elemR (nodeChildren n) k) deref"

definition numChilds :: "ast \<Rightarrow> nat" where
  "numChilds n = length (nodeChildren n)"

definition is_select :: "ast \<Rightarrow> bool" where
  "is_select n \<longleftrightarrow> nodeType n = A_SELECT \<or> nodeType n = A_SELECT_DEEP"

definition typed :: "node_type \<Rightarrow> ast option \<Rightarrow> bool result" where
  "typed ty c = bindR (deref c) (\<lambda>n. Inr (nodeType n = ty))"

definition has_clause :: "node_type \<Rightarrow> ast \<Rightarrow> bool result" where
  "has_clause ty n = anyR (typed ty) (nodeChildren n)"

text \<open>The first child, which must be the select list.\<close>

definition select_list_of :: "ast \<Rightarrow> ast result" where
  "select_list_of n =
     bindR (getChild n 0) (\<lambda>sl. if nodeType sl = A_SELECT_LIST then Inr sl else Inl (Raise RuntimeError))"

section \<open>Questions about a statement\<close>

definition unexpanded_column :: "ast option \<Rightarrow> bool result" where
  "unexpanded_column c =
     bindR (deref c) (\<lambda>col.
       if nodeType col \<noteq> A_DERIVED_COLUMN \<or> numChilds col \<noteq> 1 then Inr True
       else bindR (getChild col 0) (\<lambda>t.
         if nodeType t \<noteq> A_TABLE_NAME \<or> numChilds t \<noteq> 1 then Inr True
         else bindR (getChild t 0) (\<lambda>n. Inr (nodeType n \<noteq> A_COLUMN_NAME))))"

definition hasUnexpandedColumns :: "ast \<Rightarrow> bool result" where
  "hasUnexpandedColumns n =
     (if \<not> is_select n then Inr False
      else if numChilds n < 1 then Inl (Raise RuntimeError)
      else bindR (select_list_of n) (\<lambda>sl.
        if numChilds n = 1 then Inr False else anyR unexpanded_column (nodeChildren sl)))"

definition unnamed_column :: "ast option \<Rightarrow> bool result" where
  "unnamed_column c = bindR (deref c) (\<lambda>col. Inr (nodeType col = A_DERIVED_COLUMN \<and> numChilds col = 1))"

definition hasImplicitlyNamedColumns :: "ast \<Rightarrow> bool result" where
  "hasImplicitlyNamedColumns n =
     (if \<not> is_select n then Inr False
      else if numChilds n < 1 then Inl (Raise RuntimeError)
      else bindR (select_list_of n) (\<lambda>sl.
        if numChilds n = 1 then Inr False else anyR unnamed_column (nodeChildren sl)))"

definition hasGroupByClause :: "ast \<Rightarrow> bool result" where
  "hasGroupByClause n =
     (if nodeType n \<noteq> A_SELECT \<or> numChilds n < 2 then Inr False else has_clause A_GROUP_BY n)"

definition hasOrderByClause :: "ast \<Rightarrow> bool result" where
  "hasOrderByClause n = (if \<not> is_select n \<or> numChilds n < 2 then Inr False else has_clause A_ORDER_BY n)"

definition hasJoin :: "ast \<Rightarrow> bool result" where
  "hasJoin n =
     (if nodeType n \<noteq> A_SELECT \<or> numChilds n < 2 then Inr False
      else bindR (getChild n 1) (\<lambda>fl.
        if nodeType fl \<noteq> A_FROM \<or> numChilds fl < 1 then Inl (Raise RuntimeError)
        else Inr (1 < numChilds fl)))"

fun hasAggregationExpression :: "symbol_table \<Rightarrow> ast \<Rightarrow> bool result"
  and hasAggregationIn :: "symbol_table \<Rightarrow> ast option list \<Rightarrow> bool result" where
  "hasAggregationExpression syms (Node ty tok i cs) =
     bindR (if ty = A_METHOD_CALL then
              (case tok of None \<Rightarrow> Inl (Raise RuntimeError) | Some t \<Rightarrow> isAggregateFunction syms (getString t))
            else Inr False) (\<lambda>b.
       if b then Inr True else hasAggregationIn syms cs)"
| "hasAggregationIn syms [] = Inr False"
| "hasAggregationIn syms (None # cs) = Inl (Undefined NullDereference)"
| "hasAggregationIn syms (Some c # cs) =
     bindR (hasAggregationExpression syms c) (\<lambda>b. if b then Inr True else hasAggregationIn syms cs)"

fun hasAggregationWithinRecord :: "ast \<Rightarrow> bool result" and hasWithinRecordIn :: "ast option list \<Rightarrow> bool result" where
  "hasAggregationWithinRecord (Node ty tok i cs) =
     (if ty = A_METHOD_CALL_WITHIN_RECORD then Inr True else hasWithinRecordIn cs)"
| "hasWithinRecordIn [] = Inr False"
| "hasWithinRecordIn (None # cs) = Inl (Undefined NullDereference)"
| "hasWithinRecordIn (Some c # cs) =
     bindR (hasAggregationWithinRecord c) (\<lambda>b. if b then Inr True else hasWithinRecordIn cs)"

definition hasAggregationInSelectList :: "symbol_table \<Rightarrow> ast \<Rightarrow> bool result" where
  "hasAggregationInSelectList syms n =
     (if \<not> is_select n \<or> numChilds n < 2 then Inr False
      else bindR (select_list_of n) (hasAggregationExpression syms))"

section \<open>Expanding columns\<close>

text \<open>\<open>table -> column\<close> with the column's name as alias.\<close>

definition column_node :: "token \<Rightarrow> column_info \<Rightarrow> ast" where
  "column_node tbl c =
     branch A_DERIVED_COLUMN
       [Some (appendChild (leaf A_TABLE_NAME tbl) (Some (leaf A_COLUMN_NAME (Token T_IDENTIFIER (column_name c))))),
        Some (leaf A_COLUMN_ALIAS (Token T_IDENTIFIER (column_name c)))]"

text \<open>The columns a wildcard stands for.\<close>

definition wildcard_columns :: "(string \<Rightarrow> table_info option) \<Rightarrow> ast \<Rightarrow> ast \<Rightarrow> ast option list result" where
  "wildcard_columns tables n fl =
     bindR (hasJoin n) (\<lambda>j.
       if j \<or> numChilds fl \<noteq> 1 then Inl (Raise RuntimeError)
       else bindR (getChild fl 0) (\<lambda>t.
         if nodeType t \<noteq> A_TABLE_NAME then Inl (Raise RuntimeError)
         else case nodeToken t of
           None \<Rightarrow> Inl (Raise RuntimeError)
         | Some tok \<Rightarrow>
             (case tables (getString tok) of
                None \<Rightarrow> Inl (Raise NotFoundError)
              | Some info \<Rightarrow> Inr (map (\<lambda>c. Some (column_node tok c)) (columns info)))))"

text \<open>
  The loop walks the select list with an iterator while its body erases the wildcard and appends the
  columns. After the last element the iterator has reached the end that was taken before the loop;
  before it, the loop goes on with an iterator that the erasure and the insertions have invalidated.
\<close>

fun expand_loop :: "ast option list result \<Rightarrow> ast option list \<Rightarrow> ast option list \<Rightarrow> ast option list result" where
  "expand_loop cols done [] = Inr done"
| "expand_loop cols done (c # todo) =
     bindR (deref c) (\<lambda>node.
       if nodeType node \<noteq> A_ALL then expand_loop cols (done @ [c]) todo
       else bindR cols (\<lambda>new. if todo = [] then Inr (done @ new) else Inl (Undefined IteratorInvalidated)))"

definition set_select_list :: "ast \<Rightarrow> ast option list \<Rightarrow> ast" where
  "set_select_list n cs = (case n of Node ty tok i ds \<Rightarrow>
     (case hd ds of Some (Node ty' tok' i' _) \<Rightarrow> Node ty tok i (Some (Node ty' tok' i' cs) # tl ds) | None \<Rightarrow> n))"

definition expandColumns :: "(string \<Rightarrow> table_info option) \<Rightarrow> ast \<Rightarrow> ast result" where
  "expandColumns tables n =
     (if numChilds n < 2 then Inl (Raise RuntimeError)
      else bindR (select_list_of n) (\<lambda>sl. bindR (getChild n 1) (\<lambda>fl.
        if nodeType fl \<noteq> A_FROM \<or> numChilds fl < 1 then Inl (Raise RuntimeError)
        else bindR (expand_loop (wildcard_columns tables n fl) [] (nodeChildren sl)) (\<lambda>cs.
          Inr (set_select_list n cs)))))"

section \<open>Naming columns\<close>

definition token_text :: "token option \<Rightarrow> string result" where
  "token_text tok = bindR (deref tok) (\<lambda>t. Inr (getString t))"

definition format_run :: "string \<Rightarrow> string list \<Rightarrow> string run" where
  "format_run fmt vs = map_option Inr (formatv fmt vs)"

text \<open>How the operators print: the format, and the separator of the operands.\<close>

fun name_format :: "node_type \<Rightarrow> (string \<times> string) option" where
  "name_format A_IF_EXPR = Some (''if($0)'', '', '')"
| "name_format A_EQ_EXPR = Some (''($0)'', '' == '')"
| "name_format A_NEQ_EXPR = Some (''($0)'', '' != '')"
| "name_format A_LT_EXPR = Some (''($0)'', '' < '')"
| "name_format A_LTE_EXPR = Some (''($0)'', '' <= '')"
| "name_format A_GT_EXPR = Some (''($0)'', '' > '')"
| "name_format A_GTE_EXPR = Some (''($0)'', '' >= '')"
| "name_format A_AND_EXPR = Some (''($0)'', '' AND '')"
| "name_format A_OR_EXPR = Some (''($0)'', '' OR '')"
| "name_format A_NEGATE_EXPR = Some (''!($0)'', '', '')"
| "name_format A_ADD_EXPR = Some (''($0)'', '' + '')"
| "name_format A_SUB_EXPR = Some (''($0)'', '' - '')"
| "name_format A_MUL_EXPR = Some (''($0)'', '' * '')"
| "name_format A_DIV_EXPR = Some (''($0)'', '' / '')"
| "name_format A_MOD_EXPR = Some (''($0)'', '' % '')"
| "name_format A_POW_EXPR = Some (''($0)'', '' ^ '')"
| "name_format _ = None"

fun columnNameForExpression :: "ast \<Rightarrow> string run" and columnNamesFor :: "ast option list \<Rightarrow> string list run" where
  "columnNameForExpression (Node ty tok i cs) =
     (if ty = A_LITERAL then Some (token_text tok)
      else if ty = A_COLUMN_NAME \<or> ty = A_TABLE_NAME \<or> ty = A_RESOLVED_COLUMN then
        bindO (Some (token_text tok)) (\<lambda>str.
        bindO (columnNamesFor cs) (\<lambda>names. Some (Inr (str @ concat (map (\<lambda>n. ''.'' @ n) names)))))
      else if ty = A_RESOLVED_CALL \<or> ty = A_METHOD_CALL then
        bindO (columnNamesFor cs) (\<lambda>args.
        bindO (Some (token_text tok)) (\<lambda>str. format_run ''$0($1)'' [str, join_str args '', '']))
      else if ty = A_METHOD_CALL_WITHIN_RECORD then
        bindO (columnNamesFor cs) (\<lambda>args.
        bindO (Some (token_text tok)) (\<lambda>str. format_run ''$0($1) WITHIN RECORD'' [str, join_str args '', '']))
      else case name_format ty of
        None \<Rightarrow> Some (Inr ''<expr>'')
      | Some (fmt, sep) \<Rightarrow>
          bindO (columnNamesFor cs) (\<lambda>args. format_run fmt [join_str args sep]))"
| "columnNamesFor [] = Some (Inr [])"
| "columnNamesFor (None # cs) = Some (Inl (Undefined NullDereference))"
| "columnNamesFor (Some c # cs) =
     bindO (columnNameForExpression c) (\<lambda>n. bindO (columnNamesFor cs) (\<lambda>ns. Some (Inr (n # ns))))"

definition name_column :: "ast option \<Rightarrow> ast option run" where
  "name_column c =
     bindO (Some (deref c)) (\<lambda>col.
       if nodeType col = A_DERIVED_COLUMN \<and> numChilds col = 1 then
         bindO (Some (getChild col 0)) (\<lambda>e.
         bindO (columnNameForExpression e) (\<lambda>name.
           Some (Inr (Some (appendChild col (Some (leaf A_COLUMN_ALIAS (Token T_IDENTIFIER name))))))))
       else Some (Inr c))"

fun name_columns :: "ast option list \<Rightarrow> ast option list run" where
  "name_columns [] = Some (Inr [])"
| "name_columns (c # cs) =
     bindO (name_column c) (\<lambda>c'. bindO (name_columns cs) (\<lambda>cs'. Some (Inr (c' # cs'))))"

definition assignExplicitColumnNames :: "ast \<Rightarrow> ast run" where
  "assignExplicitColumnNames n =
     (if numChilds n < 1 then Some (Inl (Raise RuntimeError))
      else bindO (Some (select_list_of n)) (\<lambda>sl.
        bindO (name_columns (nodeChildren sl)) (\<lambda>cs. Some (Inr (set_select_list n cs)))))"

text \<open>The two rewritings at the start of \<open>build\<close>.\<close>

definition name_and_expand :: "(string \<Rightarrow> table_info option) \<Rightarrow> ast \<Rightarrow> ast run" where
  "name_and_expand tables n =
     bindO (Some (hasUnexpandedColumns n)) (\<lambda>u.
     bindO (if u then Some (expandColumns tables n) else Some (Inr n)) (\<lambda>n'.
     bindO (Some (hasImplicitlyNamedColumns n')) (\<lambda>i.
       if i then assignExplicitColumnNames n' else Some (Inr n'))))"

section \<open>Value expressions\<close>

definition buildLiteral :: "token option \<Rightarrow> expr_node result" where
  "buildLiteral tok = (case tok of
      None \<Rightarrow> Inl (Raise RuntimeError)
    | Some t \<Rightarrow>
        (if getType t = T_TRUE then Inr (LiteralExpression (Bool True))
         else if getType t = T_FALSE then Inr (LiteralExpression (Bool False))
         else if getType t = T_NUMERIC then
           bindR (tryNumericConversion (Str (getString t))) (\<lambda>(v, _). Inr (LiteralExpression v))
         else if getType t = T_STRING then Inr (LiteralExpression (Str (getString t)))
         else Inl (Raise RuntimeError)))"

text \<open>The path below a column name, joined with dots.\<close>

fun column_name_path :: "ast \<Rightarrow> string result" where
  "column_name_path (Node ty tok i cs) = (case tok of
      None \<Rightarrow> Inr []
    | Some t \<Rightarrow>
        if getType t \<noteq> T_IDENTIFIER then Inr []
        else case cs of
          [None] \<Rightarrow> Inl (Undefined NullDereference)
        | [Some c] \<Rightarrow>
            bindR (column_name_path c) (\<lambda>r.
              Inr (getString t @
                (case nodeToken c of
                   None \<Rightarrow> r
                 | Some t' \<Rightarrow> if getType t' = T_IDENTIFIER then ''.'' @ r else r)))
        | _ \<Rightarrow> Inr (getString t))"

definition buildColumnReference :: "ast \<Rightarrow> expr_node result" where
  "buildColumnReference n =
     bindR (column_name_path n) (\<lambda>name. Inr (ColumnReference name (Some (word_of_int (nodeId n)))))"

text \<open>\<open>Token::getInteger\<close> is \<open>std::stoi\<close>, whose exceptions nobody catches.\<close>

definition stoi :: "string \<Rightarrow> int result" where
  "stoi s =
     (let (neg, r) = read_sign (dropWhile is_space s); ds = takeWhile (is_digit_in 10) r;
          n = int (digits_value 10 ds); v = (if neg then - n else n) in
      if ds = [] then Inl (Raise StdInvalidArgument)
      else if \<not> (- (2 ^ 31) \<le> v \<and> v < 2 ^ 31) then Inl (Raise StdOutOfRange)
      else Inr v)"

definition token_integer :: "token \<Rightarrow> int result" where
  "token_integer t = stoi (getString t)"

definition buildColumnIndex :: "ast \<Rightarrow> expr_node result" where
  "buildColumnIndex n =
     (if numChilds n \<noteq> 1 then Inl (Raise RuntimeError)
      else bindR (getChild n 0) (\<lambda>c. case nodeToken c of
          None \<Rightarrow> Inl (Raise RuntimeError)
        | Some t \<Rightarrow>
            if getType t \<noteq> T_NUMERIC then Inl (Raise RuntimeError)
            else bindR (token_integer t) (\<lambda>k. let i = word_of_int k :: 64 word in
              Inr (ColumnReference (digits_of (unat i)) (Some i)))))"

text \<open>The functions the operators call.\<close>

fun operator_symbol :: "node_type \<Rightarrow> string option" where
  "operator_symbol A_EQ_EXPR = Some ''eq''"
| "operator_symbol A_NEQ_EXPR = Some ''neq''"
| "operator_symbol A_AND_EXPR = Some ''logical_and''"
| "operator_symbol A_OR_EXPR = Some ''logical_or''"
| "operator_symbol A_NEGATE_EXPR = Some ''neg''"
| "operator_symbol A_LT_EXPR = Some ''lt''"
| "operator_symbol A_LTE_EXPR = Some ''lte''"
| "operator_symbol A_GT_EXPR = Some ''gt''"
| "operator_symbol A_GTE_EXPR = Some ''gte''"
| "operator_symbol A_ADD_EXPR = Some ''add''"
| "operator_symbol A_SUB_EXPR = Some ''sub''"
| "operator_symbol A_MUL_EXPR = Some ''mul''"
| "operator_symbol A_DIV_EXPR = Some ''div''"
| "operator_symbol A_MOD_EXPR = Some ''mod''"
| "operator_symbol A_POW_EXPR = Some ''pow''"
| "operator_symbol _ = None"

fun buildValueExpression :: "ast \<Rightarrow> expr_node result" and buildArguments :: "ast option list \<Rightarrow> expr_node list result" where
  "buildValueExpression (Node ty tok i cs) =
     (case operator_symbol ty of
        Some name \<Rightarrow> bindR (buildArguments cs) (\<lambda>args. Inr (CallExpression name args))
      | None \<Rightarrow>
          if ty = A_LITERAL then buildLiteral tok
          else if ty = A_VOID then Inr (LiteralExpression (Str ''void''))
          else if ty = A_IF_EXPR then
            bindR (buildArguments cs) (\<lambda>args.
              case args of [c, t, f] \<Rightarrow> Inr (IfExpression c t f) | _ \<Rightarrow> Inl (Raise RuntimeError))
          else if ty = A_RESOLVED_COLUMN \<or> ty = A_COLUMN_NAME then buildColumnReference (Node ty tok i cs)
          else if ty = A_COLUMN_INDEX then buildColumnIndex (Node ty tok i cs)
          else if ty = A_TABLE_NAME then bindR (getChild (Node ty tok i cs) 0) buildColumnReference
          else if ty = A_METHOD_CALL \<or> ty = A_METHOD_CALL_WITHIN_RECORD then
            (case tok of
               None \<Rightarrow> Inl (Raise RuntimeError)
             | Some t \<Rightarrow>
                 if getType t \<noteq> T_IDENTIFIER then Inl (Raise RuntimeError)
                 else bindR (buildArguments cs) (\<lambda>args. Inr (CallExpression (getString t) args)))
          else Inl (Raise RuntimeError))"
| "buildArguments [] = Inr []"
| "buildArguments (None # cs) = Inl (Raise NullPointerError)"
| "buildArguments (Some c # cs) =
     bindR (buildValueExpression c) (\<lambda>e. bindR (buildArguments cs) (\<lambda>es. Inr (e # es)))"

text \<open>A null child reaches \<open>buildValueExpression\<close>, which throws.\<close>

definition buildOptional :: "ast option \<Rightarrow> expr_node result" where
  "buildOptional c = (case c of None \<Rightarrow> Inl (Raise NullPointerError) | Some e \<Rightarrow> buildValueExpression e)"

definition buildSelectList :: "ast \<Rightarrow> select_list_node result" where
  "buildSelectList n = (case n of Node ty tok i cs \<Rightarrow>
     (case cs of
        [] \<Rightarrow> Inl (Raise RuntimeError)
      | c # cs' \<Rightarrow>
          bindR (buildOptional c) (\<lambda>e.
            if ty = A_DERIVED_COLUMN \<and> cs' \<noteq> [] then
              bindR (deref (hd cs')) (\<lambda>a.
                if nodeType a = A_COLUMN_ALIAS then
                  bindR (token_text (nodeToken a)) (\<lambda>name. Inr (SelectListNode e (Some name)))
                else Inr (SelectListNode e None))
            else Inr (SelectListNode e None))))"

end
