(* ===== verification/Query_Plan_Build.thy ===== *)
theory Query_Plan_Build
  imports Query_Plan
begin

text \<open>
  The clauses of a statement and \<open>QueryPlanBuilder::build\<close> of src/csql/runtime/queryplanbuilder.cc.
  \<open>build\<close> calls itself on a changed copy of its statement, and nothing in the code bounds how often:
  a run of it is a \<open>partial_function\<close>. Each clause is a function up to its call of \<open>build\<close>; it
  returns the fields of its node and the statement that is planned next.
\<close>

section \<open>Columns of the inner statement\<close>

text \<open>
  \<open>buildInternalSelectList\<close>: every column and every aggregation within a record moves to the select
  list of the inner statement, and a reference to it takes its place. The result of the code is
  always true.
\<close>

definition resolved_column :: "nat \<Rightarrow> ast" where
  "resolved_column k = Node A_RESOLVED_COLUMN None (int k) []"

definition repeat_value_token :: token where
  "repeat_value_token = Token T_IDENTIFIER ''repeat_value''"

fun find_column :: "ast \<Rightarrow> nat \<Rightarrow> ast option list \<Rightarrow> nat option result" where
  "find_column derived i [] = Inr None"
| "find_column derived i (c # cs) =
     bindR (deref c) (\<lambda>n. bindR (compare derived n) (\<lambda>b.
       if b then Inr (Some i) else find_column derived (Suc i) cs))"

definition inner_column :: "bool \<Rightarrow> ast \<Rightarrow> ast" where
  "inner_column in_aggregation n =
     branch A_DERIVED_COLUMN
       [Some (if in_aggregation then deepCopy n
              else appendChild (leaf A_METHOD_CALL_WITHIN_RECORD repeat_value_token) (Some (deepCopy n)))]"

fun buildInternalSelectList :: "symbol_table \<Rightarrow> ast \<Rightarrow> ast \<Rightarrow> bool \<Rightarrow> (ast \<times> ast) result"
  and buildInternalChildren :: "symbol_table \<Rightarrow> ast option list \<Rightarrow> ast \<Rightarrow> bool \<Rightarrow> (ast option list \<times> ast) result" where
  "buildInternalSelectList syms (Node ty tok i cs) target in_aggregation =
     (if ty = A_METHOD_CALL_WITHIN_RECORD then
        Inr (resolved_column (numChilds target),
             appendChild target (Some (branch A_DERIVED_COLUMN [Some (deepCopy (Node ty tok i cs))])))
      else if ty = A_COLUMN_NAME then
        (let derived = inner_column in_aggregation (Node ty tok i cs) in
         bindR (find_column derived 0 (nodeChildren target)) (\<lambda>found.
           case found of
             Some k \<Rightarrow> Inr (resolved_column k, target)
           | None \<Rightarrow> Inr (resolved_column (numChilds target), appendChild target (Some derived))))
      else
        bindR (if ty = A_METHOD_CALL then
                 (case tok of
                    None \<Rightarrow> Inl (Raise RuntimeError)
                  | Some t \<Rightarrow> bindR (isAggregateFunction syms (getString t)) (\<lambda>b. Inr (b \<or> in_aggregation)))
               else Inr in_aggregation) (\<lambda>agg.
        bindR (buildInternalChildren syms cs target agg) (\<lambda>(cs', target').
          Inr (Node ty tok i cs', target'))))"
| "buildInternalChildren syms [] target agg = Inr ([], target)"
| "buildInternalChildren syms (None # cs) target agg = Inl (Undefined NullDereference)"
| "buildInternalChildren syms (Some c # cs) target agg =
     bindR (buildInternalSelectList syms c target agg) (\<lambda>(c', target1).
     bindR (buildInternalChildren syms cs target1 agg) (\<lambda>(cs', target2). Inr (Some c' # cs', target2)))"

text \<open>A copy of the statement with another select list.\<close>

definition swap_select_list :: "ast \<Rightarrow> ast \<Rightarrow> ast result" where
  "swap_select_list n sl = bindR (removeChildByIndex 0 (deepCopy n)) (\<lambda>c. insertChild (Some sl) 0 c)"

section \<open>GROUP BY\<close>

fun group_expressions :: "symbol_table \<Rightarrow> ast option list \<Rightarrow> ast \<Rightarrow> (expr_node list \<times> ast) result" where
  "group_expressions syms [] child_sl = Inr ([], child_sl)"
| "group_expressions syms (c # cs) child_sl =
     bindR (deref c) (\<lambda>g.
     bindR (buildInternalSelectList syms (deepCopy g) child_sl False) (\<lambda>(e, sl1).
     bindR (hasAggregationExpression syms e) (\<lambda>agg.
       if agg then Inl (Raise RuntimeError)
       else bindR (buildValueExpression e) (\<lambda>v.
            bindR (group_expressions syms cs sl1) (\<lambda>(vs, sl2). Inr (v # vs, sl2))))))"

text \<open>All \<open>GROUP BY\<close> clauses of the statement; each is removed from the copy.\<close>

fun group_clauses :: "symbol_table \<Rightarrow> ast option list \<Rightarrow> ast \<Rightarrow> ast \<Rightarrow> (expr_node list \<times> ast \<times> ast) result" where
  "group_clauses syms [] child_sl child_ast = Inr ([], child_sl, child_ast)"
| "group_clauses syms (c # cs) child_sl child_ast =
     bindR (deref c) (\<lambda>clause.
       if nodeType clause \<noteq> A_GROUP_BY then group_clauses syms cs child_sl child_ast
       else
         bindR (group_expressions syms (nodeChildren clause) child_sl) (\<lambda>(gs, sl1).
         bindR (removeChildrenByType A_GROUP_BY child_ast) (\<lambda>ast1.
         bindR (group_clauses syms cs sl1 ast1) (\<lambda>(gs', sl2, ast2). Inr (gs @ gs', sl2, ast2)))))"

definition select_nodes :: "ast option list \<Rightarrow> select_list_node list result" where
  "select_nodes cs = mapR (\<lambda>c. bindR (deref c) buildSelectList) cs"

text \<open>
  The select list of the inner statement is shared with the tree it sits in and grows after it was
  inserted; here it is put in place at the end, and the copy keeps a placeholder of its type.
\<close>

definition buildGroupBy :: "symbol_table \<Rightarrow> ast \<Rightarrow> (select_list_node list \<times> expr_node list \<times> ast) result" where
  "buildGroupBy syms n =
     bindR (select_list_of n) (\<lambda>sl.
     bindR (buildInternalSelectList syms (deepCopy sl) (new_node A_SELECT_LIST) False) (\<lambda>(select_list, sl0).
     bindR (swap_select_list (if nodeType n = A_SELECT then setType A_SELECT_DEEP n else n) sl0) (\<lambda>ast0.
     bindR (group_clauses syms (nodeChildren n) sl0 ast0) (\<lambda>(group_exprs, child_sl, child_ast).
     bindR (select_nodes (nodeChildren select_list)) (\<lambda>select_exprs.
       Inr (select_exprs, group_exprs, set_select_list child_ast (nodeChildren child_sl)))))))"

section \<open>LIMIT\<close>

definition clause_number :: "token option \<Rightarrow> int result" where
  "clause_number tok = (case tok of
      None \<Rightarrow> Inl (Raise RuntimeError)
    | Some t \<Rightarrow> if getType t \<noteq> T_NUMERIC then Inl (Raise RuntimeError) else token_integer t)"

definition limit_values :: "ast \<Rightarrow> (int \<times> int) result" where
  "limit_values clause =
     bindR (clause_number (nodeToken clause)) (\<lambda>limit.
       if numChilds clause = 1 then
         bindR (getChild clause 0) (\<lambda>off.
           if nodeType off \<noteq> A_OFFSET then Inl (Raise RuntimeError)
           else bindR (clause_number (nodeToken off)) (\<lambda>offset. Inr (limit, offset)))
       else Inr (limit, 0))"

fun find_clause :: "node_type \<Rightarrow> ast option list \<Rightarrow> ast option result" where
  "find_clause ty [] = Inr None"
| "find_clause ty (c # cs) =
     bindR (deref c) (\<lambda>clause. if nodeType clause = ty then Inr (Some clause) else find_clause ty cs)"

definition buildLimitClause :: "ast \<Rightarrow> (int \<times> int \<times> ast) option result" where
  "buildLimitClause n =
     (if \<not> is_select n \<or> numChilds n < 3 then Inr None
      else bindR (find_clause A_LIMIT (nodeChildren n)) (\<lambda>clause. case clause of
          None \<Rightarrow> Inr None
        | Some c \<Rightarrow>
            bindR (limit_values c) (\<lambda>(limit, offset).
            bindR (removeChildrenByType A_LIMIT (deepCopy n)) (\<lambda>new_ast. Inr (Some (limit, offset, new_ast))))))"

section \<open>ORDER BY\<close>

text \<open>The first column whose alias is the text of the sort expression's token.\<close>

fun find_alias :: "ast option \<Rightarrow> nat \<Rightarrow> ast option list \<Rightarrow> nat option result" where
  "find_alias col k [] = Inr None"
| "find_alias col k (d # ds) =
     bindR (deref d) (\<lambda>derived.
       if nodeType derived = A_DERIVED_COLUMN \<and> 1 < numChilds derived then
         bindR (getChild derived 1) (\<lambda>a.
           if nodeType a = A_COLUMN_ALIAS then
             bindR (token_text (nodeToken a)) (\<lambda>this_alias.
             bindR (deref col) (\<lambda>c.
             bindR (token_text (nodeToken c)) (\<lambda>name.
               if this_alias = name then Inr (Some k) else find_alias col (Suc k) ds)))
           else find_alias col (Suc k) ds)
       else find_alias col (Suc k) ds)"

definition sort_spec_of :: "ast option \<Rightarrow> ast \<Rightarrow> (sort_spec \<times> ast) result" where
  "sort_spec_of s child_sl =
     bindR (deref s) (\<lambda>sort.
     bindR (elemR (nodeChildren sort) 0) (\<lambda>col.
     bindR (find_alias col 0 (nodeChildren child_sl)) (\<lambda>found.
       let descending = (case nodeToken sort of None \<Rightarrow> False | Some t \<Rightarrow> getType t = T_DESC) in
       case found of
         Some k \<Rightarrow> Inr (\<lparr>sort_column = k, sort_descending = descending\<rparr>, child_sl)
       | None \<Rightarrow>
           Inr (\<lparr>sort_column = numChilds child_sl, sort_descending = descending\<rparr>,
                appendChild child_sl (Some (branch A_DERIVED_COLUMN [col]))))))"

fun sort_specs :: "ast option list \<Rightarrow> ast \<Rightarrow> (sort_spec list \<times> ast) result" where
  "sort_specs [] child_sl = Inr ([], child_sl)"
| "sort_specs (s # ss) child_sl =
     bindR (sort_spec_of s child_sl) (\<lambda>(spec, sl1).
     bindR (sort_specs ss sl1) (\<lambda>(specs, sl2). Inr (spec # specs, sl2)))"

fun order_clauses :: "ast option list \<Rightarrow> ast \<Rightarrow> (sort_spec list \<times> ast) result" where
  "order_clauses [] child_sl = Inr ([], child_sl)"
| "order_clauses (c # cs) child_sl =
     bindR (deref c) (\<lambda>clause.
       if nodeType clause \<noteq> A_ORDER_BY then order_clauses cs child_sl
       else bindR (sort_specs (nodeChildren clause) child_sl) (\<lambda>(specs, sl1).
            bindR (order_clauses cs sl1) (\<lambda>(specs', sl2). Inr (specs @ specs', sl2))))"

definition buildOrderByClause :: "ast \<Rightarrow> (sort_spec list \<times> nat \<times> ast) result" where
  "buildOrderByClause n =
     bindR (select_list_of n) (\<lambda>sl.
     bindR (order_clauses (nodeChildren n) (deepCopy sl)) (\<lambda>(specs, child_sl).
     bindR (swap_select_list n child_sl) (\<lambda>child0.
     bindR (removeChildrenByType A_ORDER_BY child0) (\<lambda>child_ast.
       Inr (specs, numChilds sl, child_ast)))))"

section \<open>Leaves\<close>

definition where_expression :: "symbol_table \<Rightarrow> ast \<Rightarrow> expr_node option option result" where
  "where_expression syms n =
     (if numChilds n \<le> 2 then Inr (Some None)
      else case nodeChildren n ! 2 of
        None \<Rightarrow> Inl (Raise RuntimeError)
      | Some clause \<Rightarrow>
          if nodeType clause \<noteq> A_WHERE then Inr None
          else if numChilds clause \<noteq> 1 then Inl (Raise RuntimeError)
          else case nodeChildren clause ! 0 of
            None \<Rightarrow> Inl (Raise RuntimeError)
          | Some e \<Rightarrow>
              bindR (hasAggregationExpression syms e) (\<lambda>agg.
                if agg then Inl (Raise RuntimeError)
                else bindR (buildValueExpression e) (\<lambda>v. Inr (Some (Some v)))))"

text \<open>The select list with the two flags about aggregation in it.\<close>

fun scan_columns :: "symbol_table \<Rightarrow> ast option list \<Rightarrow> (bool \<times> bool \<times> select_list_node list) result" where
  "scan_columns syms [] = Inr (False, False, [])"
| "scan_columns syms (c # cs) =
     bindR (deref c) (\<lambda>e.
     bindR (hasAggregationExpression syms e) (\<lambda>agg.
     bindR (hasAggregationWithinRecord e) (\<lambda>within.
     bindR (buildSelectList e) (\<lambda>s.
     bindR (scan_columns syms cs) (\<lambda>(agg', within', ss). Inr (agg \<or> agg', within \<or> within', s # ss))))))"

definition scan_strategy :: "ast \<Rightarrow> bool \<Rightarrow> bool \<Rightarrow> aggregation_strategy" where
  "scan_strategy n agg within =
     (if within then (if nodeType n = A_SELECT_DEEP then AGGREGATE_WITHIN_RECORD_DEEP else AGGREGATE_WITHIN_RECORD_FLAT)
      else if agg then AGGREGATE_ALL else NO_AGGREGATION)"

definition buildSequentialScan :: "symbol_table \<Rightarrow> ast \<Rightarrow> query_tree option result" where
  "buildSequentialScan syms n =
     (if \<not> is_select n \<or> numChilds n < 2 then Inr None
      else case nodeChildren n ! 1 of
        None \<Rightarrow> Inl (Raise RuntimeError)
      | Some from_list \<Rightarrow>
          if nodeType from_list \<noteq> A_FROM \<or> numChilds from_list \<noteq> 1 then Inr None
          else
            bindR (getChild from_list 0) (\<lambda>tbl.
              if nodeType tbl \<noteq> A_TABLE_NAME then Inl (Raise RuntimeError)
              else case nodeToken tbl of
                None \<Rightarrow> Inl (Raise RuntimeError)
              | Some tbl_token \<Rightarrow>
                  bindR (select_list_of n) (\<lambda>sl.
                  bindR (where_expression syms n) (\<lambda>w. case w of
                      None \<Rightarrow> Inr None
                    | Some where_expr \<Rightarrow>
                        bindR (scan_columns syms (nodeChildren sl)) (\<lambda>(agg, within, select_exprs).
                          if agg \<and> within then Inl (Raise RuntimeError)
                          else Inr (Some (SequentialScanNode (getString tbl_token) select_exprs where_expr
                                     (scan_strategy n agg within))))))))"

text \<open>The test stops at the first of the two that holds.\<close>

definition pure_column :: "symbol_table \<Rightarrow> ast option \<Rightarrow> select_list_node result" where
  "pure_column syms c =
     bindR (deref c) (\<lambda>e.
     bindR (hasAggregationExpression syms e) (\<lambda>agg.
     bindR (if agg then Inr True else hasAggregationWithinRecord e) (\<lambda>b.
       if b then Inl (Raise RuntimeError) else buildSelectList e)))"

definition buildSelectExpression :: "symbol_table \<Rightarrow> ast \<Rightarrow> query_tree option result" where
  "buildSelectExpression syms n =
     (if \<not> is_select n \<or> numChilds n \<noteq> 1 then Inr None
      else bindR (getChild n 0) (\<lambda>sl.
           bindR (mapR (pure_column syms) (nodeChildren sl)) (\<lambda>cs. Inr (Some (SelectExpressionNode cs)))))"

definition buildShowTables :: "ast \<Rightarrow> query_tree option" where
  "buildShowTables n = (if nodeType n \<noteq> A_SHOW_TABLES then None else Some ShowTablesNode)"

definition buildDescribeTable :: "ast \<Rightarrow> query_tree option result" where
  "buildDescribeTable n =
     (if nodeType n \<noteq> A_DESCRIBE_TABLE \<or> numChilds n \<noteq> 1 then Inr None
      else bindR (getChild n 0) (\<lambda>t.
        if nodeType t \<noteq> A_TABLE_NAME then Inl (Raise RuntimeError)
        else case nodeToken t of
          None \<Rightarrow> Inl (Raise RuntimeError)
        | Some tok \<Rightarrow> Inr (Some (DescribeTableNode (getString tok)))))"

text \<open>The node without an input that a statement becomes, the attempts one after the other.\<close>

definition build_leaf :: "symbol_table \<Rightarrow> ast \<Rightarrow> query_tree result" where
  "build_leaf syms n =
     bindR (buildSequentialScan syms n) (\<lambda>scan. case scan of Some t \<Rightarrow> Inr t | None \<Rightarrow>
     bindR (buildSelectExpression syms n) (\<lambda>sel. case sel of Some t \<Rightarrow> Inr t | None \<Rightarrow>
     (case buildShowTables n of Some t \<Rightarrow> Inr t | None \<Rightarrow>
     bindR (buildDescribeTable n) (\<lambda>desc. case desc of Some t \<Rightarrow> Inr t | None \<Rightarrow> Inl (Raise RuntimeError)))))"

section \<open>Statements\<close>

definition needs_grouping :: "symbol_table \<Rightarrow> ast \<Rightarrow> bool result" where
  "needs_grouping syms n =
     bindR (hasGroupByClause n) (\<lambda>g. if g then Inr True else hasAggregationInSelectList syms n)"

text \<open>What \<open>build\<close> does with a statement: a node, or a node to be put over the plan of another statement.\<close>

datatype plan_step =
    Leaf query_tree
  | Limit_Over int int ast
  | Order_Over "sort_spec list" nat ast
  | Group_Over "select_list_node list" "expr_node list" ast

definition plan :: "symbol_table \<Rightarrow> ast \<Rightarrow> plan_step result" where
  "plan syms n =
     bindR (buildLimitClause n) (\<lambda>l. case l of
       Some (limit, offset, c) \<Rightarrow> Inr (Limit_Over limit offset c)
     | None \<Rightarrow> bindR (hasOrderByClause n) (\<lambda>ord.
         if ord then bindR (buildOrderByClause n) (\<lambda>(specs, m, c). Inr (Order_Over specs m c))
         else bindR (needs_grouping syms n) (\<lambda>g.
           if g then bindR (buildGroupBy syms n) (\<lambda>(sl, gs, c). Inr (Group_Over sl gs c))
           else bindR (build_leaf syms n) (\<lambda>t. Inr (Leaf t)))))"

partial_function (option) build :: "symbol_table \<Rightarrow> (string \<Rightarrow> table_info option) \<Rightarrow> ast \<Rightarrow> query_tree run" where
  "build syms tables n =
     bindO (name_and_expand tables n) (\<lambda>n'.
     bindO (Some (plan syms n')) (\<lambda>step. case step of
       Leaf t \<Rightarrow> Some (Inr t)
     | Limit_Over limit offset c \<Rightarrow>
         bindO (build syms tables c) (\<lambda>t. Some (Inr (LimitNode (word_of_int limit) (word_of_int offset) t)))
     | Order_Over specs m c \<Rightarrow> bindO (build syms tables c) (\<lambda>t. Some (Inr (OrderByNode specs m t)))
     | Group_Over sl gs c \<Rightarrow> bindO (build syms tables c) (\<lambda>t. Some (Inr (GroupByNode sl gs t)))))"

declare build.simps [code]

text \<open>
  A list of statements. A \<open>DRAW\<close> takes the queries behind it, further ones join the same chart, and
  the loop only leaves the chart at the end of the list.
\<close>

fun subselects :: "symbol_table \<Rightarrow> (string \<Rightarrow> table_info option) \<Rightarrow> ast list \<Rightarrow> (query_tree list \<times> ast list) run" where
  "subselects syms tables [] = Some (Inr ([], []))"
| "subselects syms tables (s # ss) =
     (if is_select s then
        bindO (build syms tables s) (\<lambda>t. bindO (subselects syms tables ss) (\<lambda>(ts, r). Some (Inr (t # ts, r))))
      else if nodeType s = A_DRAW then Some (Inr ([], s # ss))
      else Some (Inl (Raise RuntimeError)))"

lemma subselects_shorter: "subselects syms tables ss = Some (Inr (ts, r)) \<Longrightarrow> length r \<le> length ss"
  by (induction ss arbitrary: ts r) (auto simp: bindO_eq_Some_iff split: if_splits)

function draw_statements :: "symbol_table \<Rightarrow> (string \<Rightarrow> table_info option) \<Rightarrow> ast list \<Rightarrow> query_tree list run" where
  "draw_statements syms tables [] = Some (Inr [])"
| "draw_statements syms tables (s # ss) =
     bindO (subselects syms tables ss) (\<lambda>(ts, r).
     bindO (draw_statements syms tables r) (\<lambda>ds. Some (Inr (DrawStatementNode (deepCopy s) ts # ds))))"
  by pat_completeness auto
termination
  by (relation "measure (\<lambda>(_, _, ss). length ss)") (auto dest: subselects_shorter)

definition plans_alone :: "node_type \<Rightarrow> bool" where
  "plans_alone ty \<longleftrightarrow> ty = A_SELECT \<or> ty = A_SELECT_DEEP \<or> ty = A_SHOW_TABLES \<or> ty = A_DESCRIBE_TABLE"

fun build_statements :: "symbol_table \<Rightarrow> (string \<Rightarrow> table_info option) \<Rightarrow> ast list \<Rightarrow> query_tree list run" where
  "build_statements syms tables [] = Some (Inr [])"
| "build_statements syms tables (s # ss) =
     (if plans_alone (nodeType s) then
        bindO (build syms tables s) (\<lambda>t.
        bindO (build_statements syms tables ss) (\<lambda>ts. Some (Inr (t # ts))))
      else if nodeType s = A_DRAW then
        bindO (draw_statements syms tables (s # ss)) (\<lambda>ds. Some (Inr [ChartStatementNode ds]))
      else Some (Inl (Raise RuntimeError)))"

end
