(* ===== verification/Query_Plan_Total.thy ===== *)
theory Query_Plan_Total
  imports Query_Plan_Build Query_Syntax
begin

text \<open>
  When the query plan builder returns. Every step removes a clause from the statement, or moves the
  aggregates out of its select list, so \<open>build\<close> ends unless an aggregate is called inside an
  aggregation within a record; with such a call the inner statement is the statement again.
\<close>

section \<open>Formats end\<close>

lemma replace_loop_total: "pat \<noteq> [] \<Longrightarrow> \<exists>r. replace_loop str pat rep = Some r"
proof (induction str rule: length_induct)
  case (1 str)
  show ?case
  proof (cases "find_str pat str")
    case None
    then show ?thesis by (simp add: replace_loop.simps)
  next
    case (Some k)
    then have "length (drop (k + length pat) str) < length str"
      using find_str_SomeD [OF Some] 1(2) by (cases pat) auto
    then obtain r where "replace_loop (drop (k + length pat) str) pat rep = Some r" using 1 by blast
    with Some show ?thesis by (simp add: replace_loop.simps [of str])
  qed
qed

lemma formatv_from_total: "\<exists>r. formatv_from i str vs = Some r"
proof (induction vs arbitrary: i str)
  case (Cons v vs)
  have "\<exists>s. replaceAll str (CHR ''$'' # digits_of i) v = Some s"
    using replace_loop_total [of "CHR ''$'' # digits_of i" str v] by (simp add: replaceAll_def)
  then obtain s where "replaceAll str (CHR ''$'' # digits_of i) v = Some s" by blast
  with Cons show ?case by simp
qed simp

text \<open>A run that returns.\<close>

definition returns :: "'a run \<Rightarrow> bool" where
  "returns m \<longleftrightarrow> m \<noteq> None"

lemma returns_Some [simp]: "returns (Some r)"
  by (simp add: returns_def)

lemma returns_bindO [intro!]:
  "returns m \<Longrightarrow> (\<And>x. m = Some (Inr x) \<Longrightarrow> returns (f x)) \<Longrightarrow> returns (bindO m f)"
  unfolding returns_def bindO_None_iff by blast

lemma format_run_total [simp]: "returns (format_run fmt vs)"
  using formatv_from_total [of 0 fmt vs] by (auto simp: format_run_def formatv_def returns_def)

lemma columnName_total [simp]: "returns (columnNameForExpression n)" "returns (columnNamesFor cs)"
proof (induction n and cs rule: columnNameForExpression_columnNamesFor.induct)
  case (1 ty tok i cs)
  consider (lit) "ty = A_LITERAL" | (path) "ty = A_COLUMN_NAME \<or> ty = A_TABLE_NAME \<or> ty = A_RESOLVED_COLUMN"
    | (call) "ty = A_RESOLVED_CALL \<or> ty = A_METHOD_CALL" | (within) "ty = A_METHOD_CALL_WITHIN_RECORD"
    | (op) "ty \<noteq> A_LITERAL" "\<not> (ty = A_COLUMN_NAME \<or> ty = A_TABLE_NAME \<or> ty = A_RESOLVED_COLUMN)"
        "\<not> (ty = A_RESOLVED_CALL \<or> ty = A_METHOD_CALL)" "ty \<noteq> A_METHOD_CALL_WITHIN_RECORD" by blast
  then show ?case
  proof cases
    case path
    then show ?thesis using 1(1) by auto
  next
    case call
    then show ?thesis using 1(2) by auto
  next
    case within
    then show ?thesis using 1(3) by auto
  next
    case op
    then show ?thesis using 1(4) by (auto split: option.split)
  qed simp
next
  case (4 c cs)
  then show ?case by auto
qed simp_all

lemma name_columns_total [simp]: "returns (name_columns cs)"
proof (induction cs)
  case (Cons c cs)
  have "returns (name_column c)" unfolding name_column_def by auto
  with Cons show ?case by auto
qed simp

lemma name_and_expand_total [simp]: "returns (name_and_expand tables n)"
  by (auto simp: name_and_expand_def assignExplicitColumnNames_def)

section \<open>Aggregates and where they stand\<close>

text \<open>An aggregate call anywhere in a tree; null children count as absent.\<close>

fun calls_aggregate :: "symbol_table \<Rightarrow> ast \<Rightarrow> bool" and calls_aggregate_in :: "symbol_table \<Rightarrow> ast option list \<Rightarrow> bool" where
  "calls_aggregate syms (Node ty tok i cs) \<longleftrightarrow>
     ty = A_METHOD_CALL \<and> tok \<noteq> None \<and> isAggregateFunction syms (getString (the tok)) = Inr True \<or>
     calls_aggregate_in syms cs"
| "calls_aggregate_in syms [] \<longleftrightarrow> False"
| "calls_aggregate_in syms (None # cs) \<longleftrightarrow> calls_aggregate_in syms cs"
| "calls_aggregate_in syms (Some c # cs) \<longleftrightarrow> calls_aggregate syms c \<or> calls_aggregate_in syms cs"

text \<open>Aggregations within a record, and column paths, without aggregate calls below them.\<close>

definition moved_type :: "node_type \<Rightarrow> bool" where
  "moved_type ty \<longleftrightarrow> ty = A_METHOD_CALL_WITHIN_RECORD \<or> ty = A_COLUMN_NAME"

fun records_pure :: "symbol_table \<Rightarrow> ast \<Rightarrow> bool" and records_pure_in :: "symbol_table \<Rightarrow> ast option list \<Rightarrow> bool" where
  "records_pure syms (Node ty tok i cs) \<longleftrightarrow>
     (moved_type ty \<longrightarrow> \<not> calls_aggregate_in syms cs) \<and> records_pure_in syms cs"
| "records_pure_in syms [] \<longleftrightarrow> True"
| "records_pure_in syms (None # cs) \<longleftrightarrow> records_pure_in syms cs"
| "records_pure_in syms (Some c # cs) \<longleftrightarrow> records_pure syms c \<and> records_pure_in syms cs"

lemma calls_aggregate_in_iff: "calls_aggregate_in syms cs \<longleftrightarrow> (\<exists>c. Some c \<in> set cs \<and> calls_aggregate syms c)"
proof (induction cs)
  case (Cons c cs)
  then show ?case by (cases c) auto
qed simp

lemma records_pure_in_iff: "records_pure_in syms cs \<longleftrightarrow> (\<forall>c. Some c \<in> set cs \<longrightarrow> records_pure syms c)"
proof (induction cs)
  case (Cons c cs)
  then show ?case by (cases c) auto
qed simp

lemma hasAggregation_calls:
  "hasAggregationExpression syms n = Inr True \<Longrightarrow> calls_aggregate syms n"
  "hasAggregationIn syms cs = Inr True \<Longrightarrow> calls_aggregate_in syms cs"
proof (induction n and cs rule: hasAggregationExpression_hasAggregationIn.induct)
  case (1 syms ty tok i cs)
  then show ?case by (fastforce simp: bindR_eq_Inr_iff split: if_splits option.splits)
next
  case (4 syms c cs)
  obtain b where b: "hasAggregationExpression syms c = Inr b" using 4(3) by (auto simp: bindR_eq_Inr_iff)
  show ?case using 4(1) 4(2) [OF b] 4(3) b by (cases b) auto
qed simp_all

lemma calls_aggregate_deepCopy [simp]:
  "calls_aggregate syms (deepCopy n) = calls_aggregate syms n"
  "calls_aggregate_in syms (copy_children cs) = calls_aggregate_in syms cs"
  by (induction n and cs rule: deepCopy_copy_children.induct) auto

lemma records_pure_deepCopy [simp]:
  "records_pure syms (deepCopy n) = records_pure syms n"
  "records_pure_in syms (copy_children cs) = records_pure_in syms cs"
  by (induction n and cs rule: deepCopy_copy_children.induct) auto

lemma records_pure_in_append [simp]:
  "records_pure_in syms (cs @ ds) \<longleftrightarrow> records_pure_in syms cs \<and> records_pure_in syms ds"
  by (auto simp: records_pure_in_iff)

lemma calls_aggregate_in_append [simp]:
  "calls_aggregate_in syms (cs @ ds) \<longleftrightarrow> calls_aggregate_in syms cs \<or> calls_aggregate_in syms ds"
  by (auto simp: calls_aggregate_in_iff)

section \<open>Naming and expanding keep the shape\<close>

lemma select_list_ofD:
  assumes "select_list_of n = Inr sl"
  obtains ty tok i ds t j cs where "n = Node ty tok i (Some sl # ds)" "sl = Node A_SELECT_LIST t j cs"
proof -
  obtain ty tok i es where n: "n = Node ty tok i es" by (cases n)
  obtain t' t j cs where sl: "sl = Node t' t j cs" by (cases sl)
  have "es \<noteq> []" "hd es = Some sl" "t' = A_SELECT_LIST"
    using assms n sl by (auto simp: select_list_of_def getChild_def elemR_def bindR_eq_Inr_iff deref_def hd_conv_nth
        split: if_splits option.splits)
  with that n sl show thesis by (cases es) auto
qed

lemma is_select_simp [simp]: "is_select (Node ty tok i cs) \<longleftrightarrow> ty = A_SELECT \<or> ty = A_SELECT_DEEP"
  by (simp add: is_select_def)

lemma numChilds_simp [simp]: "numChilds (Node ty tok i cs) = length cs"
  by (simp add: numChilds_def)

text \<open>How far a statement is from a leaf: its clauses, and whether its select list aggregates.\<close>

definition agg_bit :: "symbol_table \<Rightarrow> ast \<Rightarrow> nat" where
  "agg_bit syms n = (case nodeChildren n of Some sl # _ \<Rightarrow> if calls_aggregate syms sl then 1 else 0 | _ \<Rightarrow> 0)"

definition plan_size :: "symbol_table \<Rightarrow> ast \<Rightarrow> nat" where
  "plan_size syms n = 2 * numChilds n + agg_bit syms n"

lemma agg_bit_le: "agg_bit syms n \<le> 1"
  by (auto simp: agg_bit_def split: list.split option.split)

text \<open>A select list replaced by one whose new columns hold no aggregate.\<close>

lemma set_select_list_shape:
  assumes sl: "select_list_of n = Inr sl" and s: "is_select n"
    and cs: "records_pure_in syms (nodeChildren sl) \<Longrightarrow> records_pure_in syms cs"
      "calls_aggregate_in syms cs \<Longrightarrow> calls_aggregate_in syms (nodeChildren sl)"
  shows "is_select (set_select_list n cs)" "plan_size syms (set_select_list n cs) \<le> plan_size syms n"
    "records_pure syms n \<Longrightarrow> records_pure syms (set_select_list n cs)"
proof -
  obtain ty tok i ds t j es where n: "n = Node ty tok i (Some sl # ds)" "sl = Node A_SELECT_LIST t j es"
    using sl by (rule select_list_ofD)
  show "is_select (set_select_list n cs)" using s n by (simp add: set_select_list_def)
  show "plan_size syms (set_select_list n cs) \<le> plan_size syms n"
    using n cs(2) by (auto simp: plan_size_def agg_bit_def set_select_list_def)
  show "records_pure syms n \<Longrightarrow> records_pure syms (set_select_list n cs)"
    using n cs(1) s by (auto simp: set_select_list_def moved_type_def)
qed

lemma wildcard_columnsD:
  assumes "wildcard_columns tables n fl = Inr cols"
  obtains tok info where "tables (getString tok) = Some info" "cols = map (\<lambda>c. Some (column_node tok c)) (columns info)"
proof -
  obtain t where t: "getChild fl 0 = Inr t"
    and c: "(case nodeToken t of None \<Rightarrow> Inl (Raise RuntimeError) | Some tok \<Rightarrow> case tables (getString tok) of
      None \<Rightarrow> Inl (Raise NotFoundError) | Some info \<Rightarrow> Inr (map (\<lambda>c. Some (column_node tok c)) (columns info))) = Inr cols"
    using assms by (auto simp only: wildcard_columns_def bindR_eq_Inr_iff split: if_split_asm)
  obtain tok where tok: "nodeToken t = Some tok" using c by (cases "nodeToken t") auto
  with c obtain info where "tables (getString tok) = Some info" by (cases "tables (getString tok)") auto
  with that c tok show thesis by auto
qed

lemma wildcard_columns_pure:
  "wildcard_columns tables n fl = Inr cols \<Longrightarrow> records_pure_in syms cols \<and> \<not> calls_aggregate_in syms cols"
  by (erule wildcard_columnsD) (auto simp: records_pure_in_iff calls_aggregate_in_iff column_node_def)

lemma expand_loop_shape:
  assumes "expand_loop cols done todo = Inr cs" and "\<And>new. cols = Inr new \<Longrightarrow> records_pure_in syms new \<and> \<not> calls_aggregate_in syms new"
  shows "records_pure_in syms (done @ todo) \<Longrightarrow> records_pure_in syms cs"
    "calls_aggregate_in syms cs \<Longrightarrow> calls_aggregate_in syms (done @ todo)"
proof -
  have "(records_pure_in syms (done @ todo) \<longrightarrow> records_pure_in syms cs) \<and>
    (calls_aggregate_in syms cs \<longrightarrow> calls_aggregate_in syms (done @ todo))"
    using assms
  proof (induction cols "done" todo rule: expand_loop.induct)
    case (2 cols ds c todo)
    obtain node where c: "c = Some node" using 2(2) by (cases c) auto
    show ?case
    proof (cases "nodeType node = A_ALL")
      case True
      then show ?thesis using 2(2,3) c by (auto simp: bindR_eq_Inr_iff split: if_splits)
    next
      case False
      then have "(records_pure_in syms ((ds @ [c]) @ todo) \<longrightarrow> records_pure_in syms cs) \<and>
        (calls_aggregate_in syms cs \<longrightarrow> calls_aggregate_in syms ((ds @ [c]) @ todo))"
        using 2 c by (intro 2(1) [of node]) auto
      then show ?thesis by simp
    qed
  qed simp
  then show "records_pure_in syms (done @ todo) \<Longrightarrow> records_pure_in syms cs"
    "calls_aggregate_in syms cs \<Longrightarrow> calls_aggregate_in syms (done @ todo)" by auto
qed

lemma name_columns_shape:
  "name_columns cs = Some (Inr ds) \<Longrightarrow>
     (records_pure_in syms cs \<longrightarrow> records_pure_in syms ds) \<and> (calls_aggregate_in syms ds \<longrightarrow> calls_aggregate_in syms cs)"
proof (induction cs arbitrary: ds)
  case (Cons c cs)
  obtain d es where d: "name_column c = Some (Inr d)" "name_columns cs = Some (Inr es)" "ds = d # es"
    using Cons.prems by (auto simp: bindO_eq_Some_iff)
  obtain ty tok i fs where c: "c = Some (Node ty tok i fs)"
    using d(1) by (cases c; cases "the c") (auto simp: name_column_def)
  have "d = c \<or> (ty = A_DERIVED_COLUMN \<and> (\<exists>t. d = Some (Node ty tok i (fs @ [Some (Node A_COLUMN_ALIAS t (-1) [])]))))"
    using d(1) c by (auto simp: name_column_def bindO_eq_Some_iff split: if_splits)
  then show ?case using Cons.IH [OF d(2)] d(3) c by (auto simp: moved_type_def)
qed simp

lemma name_and_expand_shape:
  assumes "name_and_expand tables n = Some (Inr n')"
  shows "plan_size syms n' \<le> plan_size syms n" "records_pure syms n \<Longrightarrow> records_pure syms n'"
proof -
  obtain u m i where u: "hasUnexpandedColumns n = Inr u" "(if u then expandColumns tables n else Inr n) = Inr m"
    "hasImplicitlyNamedColumns m = Inr i" "(if i then assignExplicitColumnNames m else Some (Inr m)) = Some (Inr n')"
    using assms by (auto simp: name_and_expand_def bindO_eq_Some_iff split: if_splits)
  have m: "plan_size syms m \<le> plan_size syms n \<and> (records_pure syms n \<longrightarrow> records_pure syms m)"
  proof (cases u)
    case True
    then have s: "is_select n" using u(1) by (auto simp: hasUnexpandedColumns_def split: if_splits)
    obtain sl fl cs where sl: "select_list_of n = Inr sl" and cs: "expand_loop (wildcard_columns tables n fl) [] (nodeChildren sl) = Inr cs"
      and m: "m = set_select_list n cs"
      using u(2) True by (auto simp: expandColumns_def bindR_eq_Inr_iff split: if_splits)
    show ?thesis
      unfolding m using expand_loop_shape [where syms = syms, OF cs wildcard_columns_pure] set_select_list_shape [OF sl s, where syms = syms and cs = cs] by auto
  qed (use u(2) in auto)
  have "plan_size syms n' \<le> plan_size syms m \<and> (records_pure syms m \<longrightarrow> records_pure syms n')"
  proof (cases i)
    case True
    then have s: "is_select m" using u(3) by (auto simp: hasImplicitlyNamedColumns_def split: if_splits)
    obtain sl cs where sl: "select_list_of m = Inr sl" and cs: "name_columns (nodeChildren sl) = Some (Inr cs)"
      and n': "n' = set_select_list m cs"
      using u(4) True by (auto simp: assignExplicitColumnNames_def bindO_eq_Some_iff split: if_splits)
    show ?thesis
      unfolding n' using name_columns_shape [OF cs, where syms = syms] set_select_list_shape [OF sl s, where syms = syms and cs = cs] by auto
  qed (use u(4) in auto)
  with m show "plan_size syms n' \<le> plan_size syms n" "records_pure syms n \<Longrightarrow> records_pure syms n'" by auto
qed

section \<open>Every step comes closer to a leaf\<close>

lemma remove_by_type_set: "remove_by_type ty cs = Inr rs \<Longrightarrow> set rs \<subseteq> set cs \<and> length rs \<le> length cs"
proof (induction ty cs arbitrary: rs rule: remove_by_type.induct)
  case (3 ty c cs)
  show ?case
  proof (cases "nodeType c = ty")
    case True
    show ?thesis
    proof (cases cs)
      case (Cons d ds)
      with 3(3) True obtain r where "remove_by_type ty ds = Inr r" "rs = d # r" by (auto simp: bindR_eq_Inr_iff)
      then show ?thesis using 3(1) [OF True Cons] Cons by fastforce
    qed (use 3(3) True in simp)
  next
    case False
    with 3(3) obtain r where "remove_by_type ty cs = Inr r" "rs = Some c # r" by (auto simp: bindR_eq_Inr_iff)
    then show ?thesis using 3(2) [OF False] by auto
  qed
qed simp_all

lemma remove_by_type_less:
  "remove_by_type ty cs = Inr rs \<Longrightarrow> Some n \<in> set cs \<Longrightarrow> nodeType n = ty \<Longrightarrow> length rs < length cs"
proof (induction ty cs arbitrary: rs rule: remove_by_type.induct)
  case (3 ty c cs)
  show ?case
  proof (cases "nodeType c = ty")
    case True
    show ?thesis
    proof (cases cs)
      case (Cons d ds)
      with 3(3) True obtain r where "remove_by_type ty ds = Inr r" "rs = d # r" by (auto simp: bindR_eq_Inr_iff)
      then show ?thesis using remove_by_type_set [of ty ds r] Cons by auto
    qed (use 3(3) True in simp)
  next
    case False
    with 3(3) obtain r where "remove_by_type ty cs = Inr r" "rs = Some c # r" by (auto simp: bindR_eq_Inr_iff)
    then show ?thesis using 3(2) [OF False] 3(4,5) False by auto
  qed
qed simp_all

lemma copy_children_mem: "Some c \<in> set cs \<Longrightarrow> Some (deepCopy c) \<in> set (copy_children cs)"
  by (induction cs) (auto, metis copy_children.simps(2,3) list.set_intros(2) option.exhaust)

lemma copy_children_shorter: "length (copy_children cs) \<le> length cs"
proof (induction cs)
  case (Cons c cs)
  then show ?case by (cases c) auto
qed simp

lemma nodeType_deepCopy [simp]: "nodeType (deepCopy n) = nodeType n"
  by (cases n) simp

lemma anyR_True: "anyR f xs = Inr True \<Longrightarrow> \<exists>x\<in>set xs. f x = Inr True"
  by (induction xs) (auto simp: bindR_eq_Inr_iff split: if_splits)

lemma has_clauseD: "has_clause ty n = Inr True \<Longrightarrow> \<exists>c. Some c \<in> set (nodeChildren n) \<and> nodeType c = ty"
  unfolding has_clause_def by (drule anyR_True) (auto simp: typed_def bindR_eq_Inr_iff deref_def split: option.splits)

lemma find_clauseD: "find_clause ty cs = Inr (Some c) \<Longrightarrow> Some c \<in> set cs \<and> nodeType c = ty"
  by (induction ty cs rule: find_clause.induct) (auto simp: bindR_eq_Inr_iff deref_def split: if_splits option.splits)

text \<open>A copy with at least one clause removed.\<close>

lemma removed_clause:
  assumes rem: "remove_by_type ty (copy_children cs) = Inr rs" and c: "Some c \<in> set cs" "nodeType c = ty"
    and pure: "records_pure_in syms cs"
  shows "length rs < length cs" "records_pure_in syms rs"
proof -
  have "length rs < length (copy_children cs)"
    using remove_by_type_less [OF rem copy_children_mem [OF c(1)]] c(2) by simp
  then show "length rs < length cs" using copy_children_shorter [of cs] by linarith
  have "records_pure_in syms (copy_children cs)" using pure by simp
  then show "records_pure_in syms rs"
    using remove_by_type_set [OF rem] unfolding records_pure_in_iff by blast
qed

lemma fewer_clauses:
  "numChilds c < numChilds n \<Longrightarrow> plan_size syms c < plan_size syms n"
  using agg_bit_le [of syms c] by (simp add: plan_size_def)

lemma limit_step:
  assumes "buildLimitClause n = Inr (Some (limit, offset, c))" and pure: "records_pure syms n"
  shows "plan_size syms c < plan_size syms n \<and> records_pure syms c"
proof -
  obtain ty tok i cs where n: "n = Node ty tok i cs" by (cases n)
  obtain cl where sel: "is_select n" and cl: "find_clause A_LIMIT cs = Inr (Some cl)"
    and rem: "removeChildrenByType A_LIMIT (deepCopy n) = Inr c"
    using assms(1) n by (auto simp: buildLimitClause_def bindR_eq_Inr_iff split: if_splits option.splits prod.splits)
  obtain rs where rs: "remove_by_type A_LIMIT (copy_children cs) = Inr rs" "c = Node ty tok (-1) rs"
    using rem n by (auto simp: bindR_eq_Inr_iff)
  show ?thesis
    using removed_clause [OF rs(1), of cl syms] find_clauseD [OF cl] pure n rs(2) sel
    by (auto intro: fewer_clauses simp: moved_type_def)
qed

text \<open>A tree that can be a select list: it may hold anything except an impure record.\<close>

definition list_pure :: "symbol_table \<Rightarrow> ast \<Rightarrow> bool" where
  "list_pure syms sl \<longleftrightarrow> nodeType sl = A_SELECT_LIST \<and> records_pure_in syms (nodeChildren sl)"

lemma list_pure_simp [simp]:
  "list_pure syms (Node ty tok i cs) \<longleftrightarrow> ty = A_SELECT_LIST \<and> records_pure_in syms cs"
  by (simp add: list_pure_def)

lemma list_pure_records: "list_pure syms sl \<Longrightarrow> records_pure syms sl"
  by (cases sl) (simp add: moved_type_def)

lemma records_pure_children: "records_pure syms n \<Longrightarrow> records_pure_in syms (nodeChildren n)"
  by (cases n) simp

lemma elemR_in: "elemR xs k = Inr x \<Longrightarrow> x \<in> set xs"
  by (auto simp: elemR_def split: if_splits)

lemma appendChild_pure:
  "list_pure syms sl \<Longrightarrow> (\<And>n. c = Some n \<Longrightarrow> records_pure syms n) \<Longrightarrow> list_pure syms (appendChild sl c)"
  by (cases sl; cases c) auto

lemma sort_spec_of_pure:
  assumes "sort_spec_of s sl = Inr (spec, sl')" and "list_pure syms sl" and "\<And>n. s = Some n \<Longrightarrow> records_pure syms n"
  shows "list_pure syms sl'"
proof -
  obtain sort col where s: "s = Some sort" "elemR (nodeChildren sort) 0 = Inr col"
    and sl': "sl' = sl \<or> sl' = appendChild sl (Some (branch A_DERIVED_COLUMN [col]))"
    using assms(1) by (auto simp: sort_spec_of_def bindR_eq_Inr_iff Let_def deref_def split: option.split_asm)
  have "records_pure_in syms [col]"
    using records_pure_children [OF assms(3) [OF s(1)]] elemR_in [OF s(2)]
    by (cases col) (auto simp: records_pure_in_iff)
  then have "records_pure syms (branch A_DERIVED_COLUMN [col])" by (simp add: moved_type_def)
  then have "list_pure syms (appendChild sl (Some (branch A_DERIVED_COLUMN [col])))"
    by (intro appendChild_pure assms(2)) auto
  then show ?thesis using sl' assms(2) by auto
qed

lemma sort_specs_pure:
  "sort_specs ss sl = Inr (specs, sl') \<Longrightarrow> list_pure syms sl \<Longrightarrow> records_pure_in syms ss \<Longrightarrow> list_pure syms sl'"
proof (induction ss arbitrary: sl specs)
  case (Cons s ss)
  obtain spec sl1 rest where a: "sort_spec_of s sl = Inr (spec, sl1)" "sort_specs ss sl1 = Inr (rest, sl')"
    using Cons.prems(1) by (auto simp: bindR_eq_Inr_iff)
  have s: "records_pure_in syms ss" "\<And>n. s = Some n \<Longrightarrow> records_pure syms n"
    using Cons.prems(3) by (auto simp: records_pure_in_iff)
  show ?case using Cons.IH [OF a(2) sort_spec_of_pure [OF a(1) Cons.prems(2) s(2)] s(1)] .
qed simp

lemma order_clauses_pure:
  "order_clauses cs sl = Inr (specs, sl') \<Longrightarrow> list_pure syms sl \<Longrightarrow> records_pure_in syms cs \<Longrightarrow> list_pure syms sl'"
proof (induction cs arbitrary: sl specs)
  case (Cons c cs)
  obtain cl where c: "c = Some cl" using Cons.prems(1) by (cases c) auto
  have cs: "records_pure_in syms cs" "records_pure_in syms (nodeChildren cl)"
    using Cons.prems(3) c records_pure_children by auto
  show ?case
  proof (cases "nodeType cl = A_ORDER_BY")
    case True
    then obtain sp sl1 sp' where "sort_specs (nodeChildren cl) sl = Inr (sp, sl1)" "order_clauses cs sl1 = Inr (sp', sl')"
      using Cons.prems(1) c by (auto simp: bindR_eq_Inr_iff)
    then show ?thesis using Cons.IH sort_specs_pure Cons.prems(2) cs by blast
  next
    case False
    then show ?thesis using Cons.IH Cons.prems(1,2) c cs(1) by auto
  qed
qed simp

lemma swap_select_list_eq:
  "swap_select_list (Node ty tok i (Some sl # ds)) sl' = Inr (Node ty tok (-1) (Some sl' # copy_children ds))"
  by (simp add: swap_select_list_def)

lemma order_step:
  assumes ord: "hasOrderByClause n = Inr True" and "buildOrderByClause n = Inr (specs, m, c)" and pure: "records_pure syms n"
  shows "plan_size syms c < plan_size syms n \<and> records_pure syms c"
proof -
  obtain sl child_sl child0 where sl: "select_list_of n = Inr sl"
    and oc: "order_clauses (nodeChildren n) (deepCopy sl) = Inr (specs, child_sl)"
    and sw: "swap_select_list n child_sl = Inr child0" and rem: "removeChildrenByType A_ORDER_BY child0 = Inr c"
    using assms(2) by (auto simp: buildOrderByClause_def bindR_eq_Inr_iff)
  obtain ty tok i ds t j es where n: "n = Node ty tok i (Some sl # ds)" "sl = Node A_SELECT_LIST t j es"
    using sl by (rule select_list_ofD)
  obtain rs where rs: "remove_by_type A_ORDER_BY (Some child_sl # copy_children ds) = Inr rs" "c = Node ty tok (-1) rs"
    using sw rem n(1) by (auto simp: swap_select_list_eq bindR_eq_Inr_iff simp del: remove_by_type.simps)
  have "is_select n" "has_clause A_ORDER_BY n = Inr True" using ord by (auto simp: hasOrderByClause_def split: if_splits)
  then obtain cl where cl: "Some cl \<in> set (nodeChildren n)" "nodeType cl = A_ORDER_BY" using has_clauseD by blast
  then have "Some cl \<in> set ds" using n by auto
  then have mem: "Some (deepCopy cl) \<in> set (Some child_sl # copy_children ds)" by (simp add: copy_children_mem)
  have "length rs < Suc (length ds)"
    using remove_by_type_less [OF rs(1) mem] cl(2) copy_children_shorter [of ds] by simp
  then have less: "numChilds c < numChilds n" using rs(2) n by simp
  have "list_pure syms child_sl"
    using order_clauses_pure [OF oc] pure n by simp
  then have "records_pure_in syms (Some child_sl # copy_children ds)"
    using list_pure_records pure n(1) by auto
  then have "records_pure_in syms rs" using remove_by_type_set [OF rs(1)] unfolding records_pure_in_iff by blast
  then show ?thesis
    using less fewer_clauses rs(2) \<open>is_select n\<close> n(1) by (auto simp: moved_type_def)
qed

text \<open>The select list of an inner statement: no aggregate call is left in it.\<close>

definition inner_list :: "symbol_table \<Rightarrow> ast \<Rightarrow> bool" where
  "inner_list syms sl \<longleftrightarrow> list_pure syms sl \<and> \<not> calls_aggregate_in syms (nodeChildren sl)"

lemma inner_list_simp [simp]:
  "inner_list syms (Node ty tok i cs) \<longleftrightarrow>
     ty = A_SELECT_LIST \<and> records_pure_in syms cs \<and> \<not> calls_aggregate_in syms cs"
  by (auto simp: inner_list_def)

lemma inner_list_append:
  "inner_list syms sl \<Longrightarrow> records_pure syms n \<Longrightarrow> \<not> calls_aggregate syms n \<Longrightarrow> inner_list syms (appendChild sl (Some n))"
  by (cases sl) auto

lemma inner_column_pure:
  assumes "records_pure syms (Node A_COLUMN_NAME tok i cs)"
  shows "records_pure syms (inner_column b (Node A_COLUMN_NAME tok i cs))"
    "\<not> calls_aggregate syms (inner_column b (Node A_COLUMN_NAME tok i cs))"
  using assms by (auto simp: inner_column_def moved_type_def)

lemma buildInternalSelectList_inner:
  "buildInternalSelectList syms n target agg = Inr (n', target') \<Longrightarrow> records_pure syms n \<Longrightarrow>
     inner_list syms target \<Longrightarrow> inner_list syms target'"
  "buildInternalChildren syms cs target agg = Inr (cs', target') \<Longrightarrow> records_pure_in syms cs \<Longrightarrow>
     inner_list syms target \<Longrightarrow> inner_list syms target'"
proof (induction syms n target agg and syms cs target agg arbitrary: n' target' and cs' target'
    rule: buildInternalSelectList_buildInternalChildren.induct)
  case (1 syms ty tok i cs target agg)
  consider (within) "ty = A_METHOD_CALL_WITHIN_RECORD" | (column) "ty = A_COLUMN_NAME"
    | (other) "ty \<noteq> A_METHOD_CALL_WITHIN_RECORD" "ty \<noteq> A_COLUMN_NAME" by blast
  then show ?case
  proof cases
    case within
    then show ?thesis using 1(2-4) by (auto simp: moved_type_def intro!: inner_list_append)
  next
    case column
    then have "target' = target \<or> target' = appendChild target (Some (inner_column agg (Node A_COLUMN_NAME tok i cs)))"
      using 1(2) by (auto simp: bindR_eq_Inr_iff Let_def split: option.splits)
    then show ?thesis using 1(3,4) column inner_column_pure inner_list_append by auto
  next
    case other
    let ?agg = "if ty = A_METHOD_CALL then
                 (case tok of
                    None \<Rightarrow> Inl (Raise RuntimeError)
                  | Some t \<Rightarrow> bindR (isAggregateFunction syms (getString t)) (\<lambda>b. Inr (b \<or> agg)))
               else Inr agg"
    obtain a cs' where "?agg = Inr a" "buildInternalChildren syms cs target a = Inr (cs', target')"
      using 1(2) other by (auto simp: bindR_eq_Inr_iff simp del: buildInternalChildren.simps)
    then show ?thesis using 1(1) [OF other] 1(3,4) by auto
  qed
next
  case (4 syms c cs target agg)
  obtain c' t1 ds where "buildInternalSelectList syms c target agg = Inr (c', t1)" "buildInternalChildren syms cs t1 agg = Inr (ds, target')"
    using 4(3) by (auto simp: bindR_eq_Inr_iff)
  then show ?case using 4(1) 4(2) 4(4,5) by auto
qed simp_all

lemma group_expressions_inner:
  "group_expressions syms cs sl = Inr (gs, sl') \<Longrightarrow> records_pure_in syms cs \<Longrightarrow> inner_list syms sl \<Longrightarrow> inner_list syms sl'"
proof (induction cs arbitrary: sl gs)
  case (Cons c cs)
  obtain g where c: "c = Some g" using Cons.prems(1) by (cases c) auto
  obtain e sl1 gs' where e: "buildInternalSelectList syms (deepCopy g) sl False = Inr (e, sl1)" "group_expressions syms cs sl1 = Inr (gs', sl')"
    using Cons.prems(1) c by (auto simp: bindR_eq_Inr_iff split: if_splits)
  have "inner_list syms sl1" using buildInternalSelectList_inner(1) [OF e(1)] Cons.prems(2,3) c by simp
  then show ?case using Cons.IH [OF e(2)] Cons.prems(2) c by simp
qed simp

lemma group_clauses_inner:
  "group_clauses syms cs sl a = Inr (gs, sl', a') \<Longrightarrow> records_pure_in syms cs \<Longrightarrow> inner_list syms sl \<Longrightarrow>
     inner_list syms sl'"
proof (induction cs arbitrary: sl gs a)
  case (Cons c cs)
  obtain cl where c: "c = Some cl" using Cons.prems(1) by (cases c) auto
  show ?case
  proof (cases "nodeType cl = A_GROUP_BY")
    case True
    then obtain g1 sl1 a1 g2 where "group_expressions syms (nodeChildren cl) sl = Inr (g1, sl1)"
      "group_clauses syms cs sl1 a1 = Inr (g2, sl', a')"
      using Cons.prems(1) c by (auto simp: bindR_eq_Inr_iff)
    then show ?thesis
      using Cons.IH group_expressions_inner Cons.prems(2,3) c records_pure_children by auto
  next
    case False
    then show ?thesis using Cons.IH Cons.prems c by auto
  qed
qed simp

text \<open>What is left of the copy: the children in their order, and one less if a clause was found.\<close>

lemma removed_keeps_head:
  assumes "remove_by_type ty (Some h # cs) = Inr rs" and "nodeType h \<noteq> ty"
  shows "\<exists>rs'. rs = Some h # rs' \<and> remove_by_type ty cs = Inr rs'"
  using assms by (auto simp: bindR_eq_Inr_iff)

lemma group_clauses_rest:
  "group_clauses syms cs sl (Node ty tok i (Some h # ds)) = Inr (gs, sl', a') \<Longrightarrow> nodeType h = A_SELECT_LIST \<Longrightarrow>
     \<exists>ds'. a' = Node ty tok i (Some h # ds') \<and> set ds' \<subseteq> set ds \<and> length ds' \<le> length ds \<and>
       ((\<exists>c. Some c \<in> set cs \<and> nodeType c = A_GROUP_BY) \<and> (\<exists>c. Some c \<in> set ds \<and> nodeType c = A_GROUP_BY) \<longrightarrow>
          length ds' < length ds)"
proof (induction cs arbitrary: sl gs ds)
  case (Cons c cs)
  obtain cl where c: "c = Some cl" using Cons.prems(1) by (cases c) auto
  show ?case
  proof (cases "nodeType cl = A_GROUP_BY")
    case True
    then obtain g1 sl1 a1 g2 where a1: "removeChildrenByType A_GROUP_BY (Node ty tok i (Some h # ds)) = Inr a1"
      and rest: "group_clauses syms cs sl1 a1 = Inr (g2, sl', a')"
      using Cons.prems(1) c by (auto simp: bindR_eq_Inr_iff simp del: removeChildrenByType.simps)
    obtain es where es: "remove_by_type A_GROUP_BY ds = Inr es" "a1 = Node ty tok i (Some h # es)"
      using a1 Cons.prems(2) by (auto simp: bindR_eq_Inr_iff)
    obtain ds' where ds': "a' = Node ty tok i (Some h # ds')" "set ds' \<subseteq> set es" "length ds' \<le> length es"
      using Cons.IH [OF rest [unfolded es(2)] Cons.prems(2)] by blast
    have "set es \<subseteq> set ds" "length es \<le> length ds" using remove_by_type_set [OF es(1)] by auto
    moreover have "length es < length ds" if "Some d \<in> set ds" "nodeType d = A_GROUP_BY" for d
      using remove_by_type_less [OF es(1) that] .
    ultimately show ?thesis using ds' by (intro exI [of _ ds']) (auto intro: le_less_trans)
  next
    case False
    then show ?thesis using Cons.IH [of sl ds gs] Cons.prems c by auto
  qed
qed auto

lemma group_step:
  assumes needs: "needs_grouping syms n = Inr True" and g: "buildGroupBy syms n = Inr (sls, gs, c)"
    and pure: "records_pure syms n"
  shows "plan_size syms c < plan_size syms n \<and> records_pure syms c"
proof -
  obtain sl select_list sl0 ast0 child_sl child_ast where sl: "select_list_of n = Inr sl"
    and int: "buildInternalSelectList syms (deepCopy sl) (new_node A_SELECT_LIST) False = Inr (select_list, sl0)"
    and sw: "swap_select_list (if nodeType n = A_SELECT then setType A_SELECT_DEEP n else n) sl0 = Inr ast0"
    and gc: "group_clauses syms (nodeChildren n) sl0 ast0 = Inr (gs, child_sl, child_ast)"
    and c: "c = set_select_list child_ast (nodeChildren child_sl)"
    using g by (auto simp: buildGroupBy_def bindR_eq_Inr_iff)
  obtain ty tok i ds t j es where n: "n = Node ty tok i (Some sl # ds)" "sl = Node A_SELECT_LIST t j es"
    using sl by (rule select_list_ofD)
  have s: "is_select n" using needs n
    by (auto simp: needs_grouping_def hasGroupByClause_def hasAggregationInSelectList_def bindR_eq_Inr_iff split: if_splits)
  then have ast0: "ast0 = Node A_SELECT_DEEP tok (-1) (Some sl0 # copy_children ds)"
    using sw n by (auto simp: swap_select_list_eq split: if_splits)
  have sl_pure: "records_pure syms (deepCopy sl)" "records_pure_in syms (nodeChildren n)" using pure n by auto
  have sl0: "inner_list syms sl0"
    using buildInternalSelectList_inner(1) [OF int sl_pure(1)] by (simp add: new_node_def)
  then have csl: "inner_list syms child_sl" using group_clauses_inner [OF gc sl_pure(2)] by blast
  have h: "nodeType sl0 = A_SELECT_LIST" using sl0 by (simp add: inner_list_def list_pure_def)
  obtain ds' where ca: "child_ast = Node A_SELECT_DEEP tok (-1) (Some sl0 # ds')" and sub: "set ds' \<subseteq> set (copy_children ds)"
    and len: "length ds' \<le> length (copy_children ds)"
    and less: "(\<exists>c. Some c \<in> set (nodeChildren n) \<and> nodeType c = A_GROUP_BY) \<and>
        (\<exists>c. Some c \<in> set (copy_children ds) \<and> nodeType c = A_GROUP_BY) \<longrightarrow> length ds' < length (copy_children ds)"
    using group_clauses_rest [OF gc [unfolded ast0] h] by blast
  obtain t0 j0 cs0 where sl0_eq: "sl0 = Node A_SELECT_LIST t0 j0 cs0" using h by (cases sl0) auto
  have c_eq: "c = Node A_SELECT_DEEP tok (-1) (Some (Node A_SELECT_LIST t0 j0 (nodeChildren child_sl)) # ds')"
    using c ca sl0_eq by (simp add: set_select_list_def)
  have bit: "agg_bit syms c = 0" using csl c_eq by (cases child_sl) (simp add: agg_bit_def)
  have "records_pure_in syms (copy_children ds)" using pure n by simp
  then have "records_pure_in syms ds'" using sub unfolding records_pure_in_iff by blast
  then have pure_c: "records_pure syms c" using csl c_eq by (cases child_sl) (auto simp: moved_type_def)
  have le: "length ds' \<le> length ds" using len copy_children_shorter [of ds] by linarith
  have "hasGroupByClause n = Inr True \<or> hasAggregationInSelectList syms n = Inr True"
    using needs by (auto simp: needs_grouping_def bindR_eq_Inr_iff split: if_splits)
  then have "plan_size syms c < plan_size syms n"
  proof
    assume "hasGroupByClause n = Inr True"
    then have "has_clause A_GROUP_BY n = Inr True" by (auto simp: hasGroupByClause_def split: if_splits)
    then obtain cl where cl: "Some cl \<in> set (nodeChildren n)" "nodeType cl = A_GROUP_BY" using has_clauseD by blast
    then have "Some cl \<in> set ds" using n by auto
    then have "length ds' < length (copy_children ds)" using less cl copy_children_mem by fastforce
    then have "numChilds c < numChilds n" using copy_children_shorter [of ds] c_eq n(1) by simp
    then show ?thesis by (rule fewer_clauses)
  next
    assume "hasAggregationInSelectList syms n = Inr True"
    then have "hasAggregationExpression syms sl = Inr True"
      using sl by (auto simp: hasAggregationInSelectList_def bindR_eq_Inr_iff split: if_splits)
    then have "agg_bit syms n = 1" using hasAggregation_calls(1) n(1) by (simp add: agg_bit_def)
    then show ?thesis using bit le c_eq n(1) by (simp add: plan_size_def)
  qed
  with pure_c show ?thesis by blast
qed

section \<open>Termination\<close>

lemma build_unfold:
  assumes "name_and_expand tables n = Some (Inr n')"
  shows "build syms tables n =
    (case plan syms n' of
       Inl e \<Rightarrow> Some (Inl e)
     | Inr (Leaf t) \<Rightarrow> Some (Inr t)
     | Inr (Limit_Over limit offset c) \<Rightarrow>
         bindO (build syms tables c) (\<lambda>t. Some (Inr (LimitNode (word_of_int limit) (word_of_int offset) t)))
     | Inr (Order_Over specs m c) \<Rightarrow> bindO (build syms tables c) (\<lambda>t. Some (Inr (OrderByNode specs m t)))
     | Inr (Group_Over sl gs c) \<Rightarrow> bindO (build syms tables c) (\<lambda>t. Some (Inr (GroupByNode sl gs t))))"
  by (subst build.simps) (auto simp: assms bindO_def split: sum.split plan_step.split)

lemma plan_decreases:
  assumes "plan syms n = Inr step" and "records_pure syms n"
  shows "case step of Leaf t \<Rightarrow> True
    | Limit_Over limit offset c \<Rightarrow> plan_size syms c < plan_size syms n \<and> records_pure syms c
    | Order_Over specs m c \<Rightarrow> plan_size syms c < plan_size syms n \<and> records_pure syms c
    | Group_Over sl gs c \<Rightarrow> plan_size syms c < plan_size syms n \<and> records_pure syms c"
proof -
  obtain l where l: "buildLimitClause n = Inr l" using assms(1) by (auto simp: plan_def bindR_eq_Inr_iff)
  show ?thesis
  proof (cases l)
    case (Some r)
    then show ?thesis using assms l limit_step by (cases r) (auto simp: plan_def)
  next
    case None
    obtain b where b: "hasOrderByClause n = Inr b" using assms(1) l None by (auto simp: plan_def bindR_eq_Inr_iff)
    show ?thesis
    proof (cases b)
      case True
      then show ?thesis using assms l None b order_step by (auto simp: plan_def bindR_eq_Inr_iff)
    next
      case False
      then show ?thesis using assms l None b group_step
        by (auto simp: plan_def bindR_eq_Inr_iff split: if_splits)
    qed
  qed
qed

lemma build_returns:
  assumes "records_pure syms n"
  shows "returns (build syms tables n)"
  using assms
proof (induction "plan_size syms n" arbitrary: n rule: less_induct)
  case less
  show ?case
  proof (cases "\<exists>n'. name_and_expand tables n = Some (Inr n')")
    case True
    then obtain n' where n': "name_and_expand tables n = Some (Inr n')" by blast
    have le: "plan_size syms n' \<le> plan_size syms n" "records_pure syms n'"
      using name_and_expand_shape [OF n'] less.prems by auto
    have inner: "plan_size syms c < plan_size syms n' \<and> records_pure syms c \<Longrightarrow> returns (build syms tables c)" for c
      using less.hyps le(1) by auto
    show ?thesis
      unfolding build_unfold [OF n']
    proof (cases "plan syms n'")
      case (Inr step)
      then show "returns (case plan syms n' of Inl e \<Rightarrow> Some (Inl e) | Inr (Leaf t) \<Rightarrow> Some (Inr t)
         | Inr (Limit_Over limit offset c) \<Rightarrow>
             bindO (build syms tables c) (\<lambda>t. Some (Inr (LimitNode (word_of_int limit) (word_of_int offset) t)))
         | Inr (Order_Over specs m c) \<Rightarrow> bindO (build syms tables c) (\<lambda>t. Some (Inr (OrderByNode specs m t)))
         | Inr (Group_Over sl gs c) \<Rightarrow> bindO (build syms tables c) (\<lambda>t. Some (Inr (GroupByNode sl gs t))))"
        using plan_decreases [OF Inr le(2)] inner by (auto split: plan_step.split)
    qed simp
  next
    case False
    then obtain e where "name_and_expand tables n = Some (Inl e)"
      using name_and_expand_total [of tables n] unfolding returns_def by (metis not_None_eq sum.exhaust)
    then show ?thesis by (subst build.simps) simp
  qed
qed



section \<open>Aggregates inside a record\<close>

text \<open>The parser on concrete tokens.\<close>

lemma bindR_weak_cong: "m = m' \<Longrightarrow> bindR m f = bindR m' f"
  by simp

lemmas parse_run = parseQuery_def parse_def parse_tokens_def statement_def selectStatement_def selectSublist_def
  fromClause_def tableName_def whereClause_def groupByClause_def havingClause_def orderByClause_def limitClause_def
  appendClause_def cur_type_def consumeToken_def lookahead_def assertExpectation_def expectAndConsume_def consumeIf_def
  methodCall_def unaryExpr_def binaryExpr_def expr_def expectAndConsumeValueExpr_def call_type_def new_node_def

text \<open>\<open>SELECT f(g(x)) WITHIN RECORD FROM t\<close>, as the parser reads it and as an inner statement.\<close>

definition nested_record :: "string \<Rightarrow> string \<Rightarrow> string \<Rightarrow> ast" where
  "nested_record f g x =
     Node A_METHOD_CALL_WITHIN_RECORD (Some (ident f)) (-1)
       [Some (Node A_METHOD_CALL (Some (ident g)) (-1) [Some (leaf A_COLUMN_NAME (ident x))])]"

definition nested_statement :: "node_type \<Rightarrow> string \<Rightarrow> string \<Rightarrow> string \<Rightarrow> string \<Rightarrow> ast" where
  "nested_statement ty f g x t =
     branch ty [Some (branch A_SELECT_LIST [Some (branch A_DERIVED_COLUMN [Some (nested_record f g x)])]),
                Some (branch A_FROM [Some (leaf A_TABLE_NAME (ident t))])]"

lemma nested_name: "\<exists>name. columnNameForExpression (nested_record f g x) = Some (Inr name)"
proof -
  have f: "\<exists>s. format_run fmt vs = Some (Inr s)" for fmt vs
    using formatv_from_total [of 0 fmt vs] by (auto simp: format_run_def formatv_def)
  obtain s where s: "format_run ''$0($1)'' [g, x] = Some (Inr s)" using f by blast
  obtain s' where "format_run ''$0($1) WITHIN RECORD'' [f, s] = Some (Inr s')" using f by blast
  with s show ?thesis by (simp add: nested_record_def token_text_def)
qed

lemma nested_step:
  assumes "isAggregateFunction syms g = Inr True" and "ty = A_SELECT \<or> ty = A_SELECT_DEEP"
  shows "\<exists>n' sl. name_and_expand tables (nested_statement ty f g x t) = Some (Inr n') \<and>
    plan syms n' = Inr (Group_Over sl [] (nested_statement A_SELECT_DEEP f g x t))"
proof -
  obtain name where name: "columnNameForExpression (nested_record f g x) = Some (Inr name)" using nested_name by blast
  let ?n = "branch ty [Some (branch A_SELECT_LIST [Some (branch A_DERIVED_COLUMN
      [Some (nested_record f g x), Some (leaf A_COLUMN_ALIAS (ident name))])]),
    Some (branch A_FROM [Some (leaf A_TABLE_NAME (ident t))])]"
  have "name_and_expand tables (nested_statement ty f g x t) = Some (Inr ?n)"
    using assms(2) name
    by (auto simp: name_and_expand_def nested_statement_def hasUnexpandedColumns_def hasImplicitlyNamedColumns_def
        select_list_of_def getChild_def unexpanded_column_def unnamed_column_def expandColumns_def
        assignExplicitColumnNames_def set_select_list_def name_column_def nested_record_def)
  moreover have "plan syms ?n = Inr (Group_Over [SelectListNode (ColumnReference [] (Some 0)) (Some name)] []
      (nested_statement A_SELECT_DEEP f g x t))"
    using assms
    by (auto simp: plan_def buildLimitClause_def hasOrderByClause_def has_clause_def typed_def needs_grouping_def
        hasGroupByClause_def hasAggregationInSelectList_def select_list_of_def getChild_def nested_record_def
        buildGroupBy_def swap_select_list_def new_node_def resolved_column_def select_nodes_def buildSelectList_def
        buildOptional_def buildColumnReference_def token_text_def nested_statement_def set_select_list_def)
  ultimately show ?thesis by blast
qed

lemma nested_never:
  assumes "build syms tables n = Some r" and "isAggregateFunction syms g = Inr True"
  shows "n \<noteq> nested_statement A_SELECT f g x t \<and> n \<noteq> nested_statement A_SELECT_DEEP f g x t"
proof -
  let ?P = "\<lambda>syms (tables :: string \<Rightarrow> table_info option) n (r :: query_tree result). isAggregateFunction syms g = Inr True \<longrightarrow>
    n \<noteq> nested_statement A_SELECT f g x t \<and> n \<noteq> nested_statement A_SELECT_DEEP f g x t"
  have "?P syms tables n r"
  proof (rule build.raw_induct [where P = ?P, OF _ assms(1)], intro impI)
    fix bld syms and tables :: "string \<Rightarrow> table_info option" and n r
    assume ih: "\<And>syms tables n r. bld syms tables n = Some r \<Longrightarrow> ?P syms tables n r"
      and agg: "isAggregateFunction syms g = Inr True"
      and eq: "bindO (name_and_expand tables n) (\<lambda>n'. bindO (Some (plan syms n')) (\<lambda>step. case step of
          Leaf t \<Rightarrow> Some (Inr t)
        | Limit_Over limit offset c \<Rightarrow>
            bindO (bld syms tables c) (\<lambda>t. Some (Inr (LimitNode (word_of_int limit) (word_of_int offset) t)))
        | Order_Over specs m c \<Rightarrow> bindO (bld syms tables c) (\<lambda>t. Some (Inr (OrderByNode specs m t)))
        | Group_Over sl gs c \<Rightarrow> bindO (bld syms tables c) (\<lambda>t. Some (Inr (GroupByNode sl gs t))))) = Some r"
    have False if ty: "ty = A_SELECT \<or> ty = A_SELECT_DEEP" and n: "n = nested_statement ty f g x t" for ty
    proof -
      obtain n' sl where "name_and_expand tables n = Some (Inr n')"
        "plan syms n' = Inr (Group_Over sl [] (nested_statement A_SELECT_DEEP f g x t))"
        using nested_step [OF agg ty] n by blast
      then obtain r' where "bld syms tables (nested_statement A_SELECT_DEEP f g x t) = Some r'"
        using eq by (auto simp: bindO_eq_Some_iff)
      then show False using ih agg by blast
    qed
    then show "n \<noteq> nested_statement A_SELECT f g x t \<and> n \<noteq> nested_statement A_SELECT_DEEP f g x t" by blast
  qed
  with assms(2) show ?thesis by blast
qed

text \<open>
  C36. A statement that calls an aggregate function inside an aggregation \<open>WITHIN RECORD\<close> is never
  planned: the inner statement the builder makes of it is the statement itself, so the recursion does
  not end (the stack overflows), for every table and every two functions of which the inner one
  aggregates.
\<close>

theorem nested_record_diverges:
  assumes "isAggregateFunction syms g = Inr True"
  shows "build syms tables (nested_statement A_SELECT f g x t) = None"
  using nested_never [OF _ assms] by (metis not_None_eq)

theorem nested_record_diverges_witness:
  "parseQuery (print_tokens [token0 T_SELECT, ident ''sum'', token0 T_LPAREN, ident ''count'', token0 T_LPAREN, ident ''x'',
     token0 T_RPAREN, token0 T_RPAREN, token0 T_WITHIN, token0 T_RECORD, token0 T_FROM, ident ''t'', token0 T_SEMICOLON]) =
     Inr [nested_statement A_SELECT ''sum'' ''count'' ''x'' ''t''] \<and>
   build [(''count'', FN_AGGREGATE kCountExpr)] (\<lambda>_. None) (nested_statement A_SELECT ''sum'' ''count'' ''x'' ''t'') = None"
proof
  let ?ts = "[token0 T_SELECT, ident ''sum'', token0 T_LPAREN, ident ''count'', token0 T_LPAREN, ident ''x'',
     token0 T_RPAREN, token0 T_RPAREN, token0 T_WITHIN, token0 T_RECORD, token0 T_FROM, ident ''t'', token0 T_SEMICOLON]"
  have kw: "{T_SELECT, T_WITHIN, T_RECORD, T_FROM, T_SEMICOLON, T_LPAREN, T_RPAREN} \<subseteq> snd ` set spelling_table"
    using spelled [of "''SELECT''" T_SELECT] spelled [of "''WITHIN''" T_WITHIN] spelled [of "''RECORD''" T_RECORD]
      spelled [of "''FROM''" T_FROM] spelled_symbol [of "''(''" T_LPAREN] spelled_symbol [of "'')''" T_RPAREN] spelled_symbol [of "'';''" T_SEMICOLON]
    by (simp add: keyword_table_def query_keywords_def chart_keywords_def option_keywords_def symbol_table_def)
  then have "\<forall>t\<in>set ?ts. printable t" by (auto simp: printable_def)
  from tokenizeQuery_print_tokens [OF this]
  show "parseQuery (print_tokens ?ts) = Inr [nested_statement A_SELECT ''sum'' ''count'' ''x'' ''t'']"
    by (simp add: parse_run nested_statement_def nested_record_def print_tokens_def cong: bindR_weak_cong)
  show "build [(''count'', FN_AGGREGATE kCountExpr)] (\<lambda>_. None) (nested_statement A_SELECT ''sum'' ''count'' ''x'' ''t'') = None"
    by (rule nested_record_diverges)
      (simp add: isAggregateFunction_def lookup_def toLower_def lower_def)
qed

end
