(* ===== verification/Query_Plan_Columns.thy ===== *)
theory Query_Plan_Columns
  imports Query_Plan_Total Vm_Spec
begin

text \<open>
  Grouping and column references. \<open>buildGroupBy\<close> moves every column of a statement to an inner
  statement and leaves a reference to its position. Here the expressions of the node are related to those
  of the statement: on the columns of the inner statement they have the value that the statement's own
  expressions have on the rows of the table, whatever the functions are.
\<close>

section \<open>Expressions over named columns\<close>

definition position :: "string list \<Rightarrow> string \<Rightarrow> nat" where
  "position names name = length (takeWhile (\<lambda>n. n \<noteq> name) names)"

lemma position_less: "name \<in> set names \<Longrightarrow> position names name < length names"
  by (induction names) (auto simp: position_def)

lemma nth_position: "name \<in> set names \<Longrightarrow> names ! position names name = name"
  by (induction names) (auto simp: position_def)

text \<open>An expression with its columns looked up in a table.\<close>

fun resolve_names :: "string list \<Rightarrow> expr_node \<Rightarrow> expr_node" where
  "resolve_names schema (ColumnReference name i) = ColumnReference name (Some (word_of_nat (position schema name)))"
| "resolve_names schema (LiteralExpression v) = LiteralExpression v"
| "resolve_names schema (IfExpression c t f) =
     IfExpression (resolve_names schema c) (resolve_names schema t) (resolve_names schema f)"
| "resolve_names schema (CallExpression symbol args) = CallExpression symbol (map (resolve_names schema) args)"

text \<open>The row of an inner statement whose columns have the given names.\<close>

definition project :: "string list \<Rightarrow> string list \<Rightarrow> svalue list \<Rightarrow> svalue list" where
  "project schema names row = map (\<lambda>n. row ! position schema n) names"

text \<open>The second expression is the first one with its columns replaced by positions in \<open>names\<close>.\<close>

inductive resolves :: "string list \<Rightarrow> expr_node \<Rightarrow> expr_node \<Rightarrow> bool" for names :: "string list" where
  column: "k < length names \<Longrightarrow> names ! k = name \<Longrightarrow>
     resolves names (ColumnReference name i) (ColumnReference [] (Some (word_of_nat k)))"
| literal: "resolves names (LiteralExpression v) (LiteralExpression v)"
| conditional: "resolves names c c' \<Longrightarrow> resolves names t t' \<Longrightarrow> resolves names f f' \<Longrightarrow>
     resolves names (IfExpression c t f) (IfExpression c' t' f')"
| call: "list_all2 (resolves names) args args' \<Longrightarrow>
     resolves names (CallExpression symbol args) (CallExpression symbol args')"
  monos list.rel_mono

inductive_simps resolves_simps:
  "resolves names (ColumnReference name i) e'"
  "resolves names (LiteralExpression v) e'"
  "resolves names (IfExpression c t f) e'"
  "resolves names (CallExpression symbol args) e'"

lemma resolves_extend: "resolves names e e' \<Longrightarrow> resolves (names @ ext) e e'"
proof (induction rule: resolves.induct)
  case (call args args' symbol)
  then show ?case by (auto intro!: resolves.call elim: list.rel_mono_strong)
qed (auto intro: resolves.intros simp: nth_append)

text \<open>Rows as wide as the table, which has fewer columns than the reserved index.\<close>

definition fits :: "string list \<Rightarrow> string list \<Rightarrow> bool" where
  "fits schema names \<longleftrightarrow> set names \<subseteq> set schema \<and> length schema < 2 ^ 64 - 1 \<and> length names < 2 ^ 64 - 1"

lemma column_index:
  assumes "k < 2 ^ 64 - 1"
  shows "(word_of_nat k :: 64 word) \<noteq> -1" and "unat (word_of_nat k :: 64 word) = k"
proof -
  show u: "unat (word_of_nat k :: 64 word) = k" using assms by (simp add: unat_of_nat)
  have "unat (- 1 :: 64 word) = 2 ^ 64 - 1" by (simp add: unsigned_minus_1_eq_mask mask_eq_exp_minus_1)
  with u assms show "(word_of_nat k :: 64 word) \<noteq> -1" by fastforce
qed

lemma denote_column:
  assumes "k < length row" and "k < 2 ^ 64 - 1"
  shows "denote syms rows (ColumnReference name (Some (word_of_nat k))) row out = Inr (row ! k)"
  using assms column_index [OF assms(2)] by simp

lemma mapR_list_all2:
  "list_all2 (\<lambda>a b. f b = g a) xs ys \<Longrightarrow> mapR f ys = mapR g xs"
  by (induction rule: list_all2_induct) simp_all

lemma resolves_denote:
  assumes "resolves names e e'" and "fits schema names"
    and "list_all (\<lambda>r. length r = length schema) rows" and "length row = length schema"
  shows "denote syms (map (project schema names) rows) e' (project schema names row) out =
    denote syms rows (resolve_names schema e) row out"
  using assms(1,3,4)
proof (induction arbitrary: rows row out rule: resolves.induct)
  case (column k name i)
  have mem: "name \<in> set schema" using column(1,2) assms(2) by (auto simp: fits_def)
  have "denote syms (map (project schema names) rows) (ColumnReference [] (Some (word_of_nat k))) (project schema names row) out =
    Inr (project schema names row ! k)"
    using column assms(2) by (intro denote_column) (auto simp: project_def fits_def)
  also have "\<dots> = Inr (row ! position schema name)" using column(1,2) by (simp add: project_def)
  also have "\<dots> = denote syms rows (ColumnReference name (Some (word_of_nat (position schema name)))) row out"
    using position_less [OF mem] column(4) assms(2) by (intro denote_column [symmetric]) (auto simp: fits_def)
  finally show ?case by simp
next
  case (conditional c c' t t' f f')
  then show ?case by (simp cong: if_cong)
next
  case (call args args' symbol)
  have args: "mapR (\<lambda>a. denote syms (map (project schema names) rs) a (project schema names r) Null) args' =
      mapR (\<lambda>a. denote syms rs a r Null) (map (resolve_names schema) args)"
    if "list_all (\<lambda>r. length r = length schema) rs" "length r = length schema" for rs r
    using call that by (intro mapR_list_all2) (auto simp: list_all2_map1 elim: list.rel_mono_strong)
  have nil: "args' = [] \<longleftrightarrow> args = []" using call(1) by (auto dest: list_all2_lengthD)
  have step: "bindR (mapR (\<lambda>a. denote syms [] a (project schema names r) Null) args') g =
      bindR (mapR (\<lambda>a. denote syms [] a r Null) (map (resolve_names schema) args)) g"
    if "r \<in> set rows" for r g
    using args [of "[]" r] that call.prems(1) by (simp add: list_all_iff)
  have fold: "foldR (\<lambda>c r. bindR (mapR (\<lambda>a. denote syms [] a r Null) args') (acc c)) s (map (project schema names) rows) =
      foldR (\<lambda>c r. bindR (mapR (\<lambda>a. denote syms [] a r Null) (map (resolve_names schema) args)) (acc c)) s rows" for acc s
    unfolding foldR_map by (intro foldR_cong refl step)
  show ?case
  proof (cases "lookup syms symbol")
    case (Inr fn)
    then show ?thesis
    proof (cases fn)
      case (FN_PURE f)
      then show ?thesis using Inr args [OF call.prems] nil by simp
    next
      case (FN_AGGREGATE agg)
      then show ?thesis using Inr unfolding denote.simps resolve_names.simps fold by simp
    qed
  qed simp
qed simp_all

section \<open>Columns of the inner statement\<close>

text \<open>
  Statements as the parser makes them, before any column is resolved: no reference by position, no
  aggregation within a record, and a table name only around a column (from a wildcard).
\<close>

fun plain :: "ast \<Rightarrow> bool" and plain_in :: "ast option list \<Rightarrow> bool" where
  "plain (Node ty tok i cs) \<longleftrightarrow>
     ty \<notin> {A_METHOD_CALL_WITHIN_RECORD, A_RESOLVED_COLUMN, A_COLUMN_INDEX} \<and>
     (if ty = A_COLUMN_NAME then children_null_free cs else plain_in cs) \<and>
     (ty = A_TABLE_NAME \<longrightarrow> (\<exists>c. cs = [Some c] \<and> nodeType c = A_COLUMN_NAME))"
| "plain_in [] \<longleftrightarrow> True"
| "plain_in (None # cs) \<longleftrightarrow> False"
| "plain_in (Some c # cs) \<longleftrightarrow> plain c \<and> plain_in cs"

lemma plain_null_free: "plain n \<Longrightarrow> null_free n" "plain_in cs \<Longrightarrow> children_null_free cs"
  by (induction n and cs rule: plain_plain_in.induct) (auto split: if_splits)

lemma children_null_free_copy: "children_null_free (copy_children cs)"
proof -
  have "null_free (deepCopy (Node A_ROOT None (-1) cs))" by (rule deepCopy_null_free)
  then show ?thesis by simp
qed

text \<open>The name of the column that a column of an inner select list holds.\<close>

definition source_name :: "ast \<Rightarrow> string result" where
  "source_name d = bindR (getChild d 0) (\<lambda>c.
     if nodeType c = A_METHOD_CALL_WITHIN_RECORD then bindR (getChild c 0) column_name_path else column_name_path c)"

lemma nodeToken_deepCopy [simp]: "nodeToken (deepCopy n) = nodeToken n"
  by (cases n) simp

lemma column_name_path_deepCopy: "null_free n \<Longrightarrow> column_name_path (deepCopy n) = column_name_path n"
proof (induction n rule: column_name_path.induct)
  case (1 ty tok i cs)
  consider (none) "cs = []" | (one) c where "cs = [Some c]" | (two) c d ds where "cs = Some c # Some d # ds"
    using 1(2) by (cases cs; cases "tl cs"; cases "hd cs"; cases "hd (tl cs)") auto
  then show ?case
  proof cases
    case (one c)
    then show ?thesis
    proof (cases tok)
      case (Some t)
      then show ?thesis using 1(1) [OF Some] 1(2) one by (cases "getType t = T_IDENTIFIER") auto
    qed simp
  qed (cases tok; simp)+
qed

lemma source_name_inner:
  assumes "null_free n" and "nodeType n = A_COLUMN_NAME"
  shows "source_name (inner_column agg n) = column_name_path n" "null_free (inner_column agg n)"
  using assms
  by (auto simp: source_name_def inner_column_def getChild_def elemR_def column_name_path_deepCopy deepCopy_null_free)

lemma source_name_deepCopy: "null_free d \<Longrightarrow> source_name (deepCopy d) = source_name d"
proof -
  assume nf: "null_free d"
  obtain ty tok i cs where d: "d = Node ty tok i cs" by (cases d)
  show ?thesis
  proof (cases cs)
    case (Cons c ds)
    then obtain e where c: "c = Some e" using nf d by (cases c) auto
    obtain ety etok ei ecs where e: "e = Node ety etok ei ecs" by (cases e)
    have "null_free e" using nf d Cons c by simp
    then have p: "column_name_path (deepCopy e) = column_name_path e" by (rule column_name_path_deepCopy)
    show ?thesis
    proof (cases ecs)
      case Nil
      then show ?thesis using d Cons c e p by (simp add: source_name_def getChild_def)
    next
      case (Cons a as)
      then obtain f where f: "a = Some f" using \<open>null_free e\<close> e by (cases a) auto
      then have "column_name_path (deepCopy f) = column_name_path f"
        using \<open>null_free e\<close> e Cons by (intro column_name_path_deepCopy) simp
      then show ?thesis using d \<open>cs = c # ds\<close> c e p Cons f by (simp add: source_name_def getChild_def)
    qed
  qed (simp add: d source_name_def getChild_def)
qed

text \<open>A select list whose columns stand for the given names.\<close>

definition is_column :: "ast option \<Rightarrow> string \<Rightarrow> bool" where
  "is_column c name \<longleftrightarrow> (\<exists>d. c = Some d \<and> null_free d \<and> source_name d = Inr name)"

definition column_list :: "ast \<Rightarrow> string list \<Rightarrow> bool" where
  "column_list target names \<longleftrightarrow> list_all2 is_column (nodeChildren target) names"

lemma column_list_append:
  "column_list target names \<Longrightarrow> null_free d \<Longrightarrow> source_name d = Inr name \<Longrightarrow>
     column_list (appendChild target (Some d)) (names @ [name])"
  by (cases target) (simp add: column_list_def list_all2_appendI is_column_def)

lemma column_list_length: "column_list target names \<Longrightarrow> numChilds target = length names"
  by (simp add: column_list_def numChilds_def list_all2_lengthD)

lemma compare_deepCopy:
  assumes "compare a b = Inr True" and "null_free a" and "null_free b"
  shows "deepCopy a = deepCopy b"
  using assms compare_null_free(1) [OF assms(2,3)] by simp

lemma find_column_name:
  assumes "find_column derived i cs = Inr (Some k)" and "list_all2 is_column cs names"
    and "null_free derived" and "source_name derived = Inr name"
  shows "i \<le> k \<and> k - i < length names \<and> names ! (k - i) = name"
  using assms(1,2)
proof (induction cs arbitrary: i names)
  case (Cons c cs)
  obtain m ms where names: "names = m # ms" "list_all2 is_column cs ms" and "is_column c m"
    using Cons.prems(2) by (auto simp: list_all2_Cons1)
  then obtain d where d: "c = Some d" "null_free d" "source_name d = Inr m" by (auto simp: is_column_def)
  obtain b where b: "compare derived d = Inr b" using Cons.prems(1) d(1) by (auto simp: bindR_eq_Inr_iff)
  show ?case
  proof (cases b)
    case True
    then have "deepCopy derived = deepCopy d" using b assms(3) d(2) by (intro compare_deepCopy) simp_all
    then have "m = name"
      using source_name_deepCopy [OF assms(3)] source_name_deepCopy [OF d(2)] assms(4) d(3) by simp
    then show ?thesis using Cons.prems(1) d(1) b True names(1) by simp
  next
    case False
    then have "find_column derived (Suc i) cs = Inr (Some k)" using Cons.prems(1) d(1) b by simp
    from Cons.IH [OF this names(2)] have k: "Suc i \<le> k" "k - Suc i < length ms" "ms ! (k - Suc i) = name" by auto
    then have "k - i = Suc (k - Suc i)" by simp
    then show ?thesis using names(1) k by simp
  qed
qed simp

lemma column_name_path_total: "null_free n \<Longrightarrow> \<exists>name. column_name_path n = Inr name"
proof (induction n rule: column_name_path.induct)
  case (1 ty tok i cs)
  then show ?case
    by (cases tok; cases cs; cases "hd cs"; cases "tl cs") (fastforce split: option.splits)+
qed

lemma resolved_reference [simp]:
  "buildColumnReference (resolved_column k) = Inr (ColumnReference [] (Some (word_of_nat k)))"
  "buildValueExpression (resolved_column k) = Inr (ColumnReference [] (Some (word_of_nat k)))"
  by (simp_all add: buildColumnReference_def resolved_column_def)

lemma resolved_column_type [simp]: "nodeType (resolved_column k) = A_RESOLVED_COLUMN"
  by (simp add: resolved_column_def)

lemma reference_type:
  "nodeType c = A_COLUMN_NAME \<or> nodeType c = A_RESOLVED_COLUMN \<Longrightarrow> buildValueExpression c = buildColumnReference c"
  by (cases c) auto

lemma buildValue_args:
  assumes "list_all2 (resolves names) es es'" and "buildArguments cs = Inr es" and "buildArguments cs' = Inr es'"
    and "buildValueExpression (Node ty tok i cs) = Inr e"
    and "ty \<notin> {A_RESOLVED_COLUMN, A_COLUMN_NAME, A_COLUMN_INDEX, A_TABLE_NAME}"
  shows "\<exists>e'. buildValueExpression (Node ty tok i cs') = Inr e' \<and> resolves names e e'"
proof (cases "operator_symbol ty")
  case (Some name)
  then show ?thesis using assms by (auto intro: resolves.intros)
next
  case None
  consider (lit) "ty = A_LITERAL" | (void) "ty = A_VOID" | (cond) "ty = A_IF_EXPR"
    | (call) "ty = A_METHOD_CALL \<or> ty = A_METHOD_CALL_WITHIN_RECORD"
    using assms(4,5) None by (auto split: if_splits)
  then show ?thesis
  proof cases
    case lit
    then have "e \<in> range LiteralExpression"
      using assms(4) by (auto simp: buildLiteral_def bindR_eq_Inr_iff split: option.splits if_splits prod.splits)
    then show ?thesis using lit assms(4) by (auto intro: resolves.intros)
  next
    case void
    then show ?thesis using assms(4) by (auto intro: resolves.intros)
  next
    case cond
    then obtain c t f where "es = [c, t, f]" "e = IfExpression c t f"
      using assms(2,4) by (auto split: list.splits)
    then show ?thesis using cond assms(1,3) by (auto simp: list_all2_Cons1 intro: resolves.intros)
  next
    case call
    then obtain t where t: "tok = Some t" "getType t = T_IDENTIFIER"
      using assms(4) by (auto split: option.splits if_splits)
    then show ?thesis using call assms by (auto intro: resolves.intros)
  qed
qed

lemma buildInternal_resolves:
  "buildInternalSelectList syms n target agg = Inr (n', target') \<Longrightarrow> plain n \<Longrightarrow> column_list target names \<Longrightarrow>
     (nodeType n = A_COLUMN_NAME \<longrightarrow> nodeType n' = A_RESOLVED_COLUMN) \<and>
     (\<exists>ext. column_list target' (names @ ext) \<and>
       (\<forall>e. buildValueExpression n = Inr e \<longrightarrow>
         (\<exists>e'. buildValueExpression n' = Inr e' \<and> resolves (names @ ext) e e')))"
  "buildInternalChildren syms cs target agg = Inr (cs', target') \<Longrightarrow> plain_in cs \<Longrightarrow> column_list target names \<Longrightarrow>
     (\<forall>c. cs = [Some c] \<and> nodeType c = A_COLUMN_NAME \<longrightarrow> (\<exists>c'. cs' = [Some c'] \<and> nodeType c' = A_RESOLVED_COLUMN)) \<and>
     (\<exists>ext. column_list target' (names @ ext) \<and>
       (\<forall>es. buildArguments cs = Inr es \<longrightarrow>
         (\<exists>es'. buildArguments cs' = Inr es' \<and> list_all2 (resolves (names @ ext)) es es')))"
proof (induction syms n target agg and syms cs target agg arbitrary: n' target' names and cs' target' names
    rule: buildInternalSelectList_buildInternalChildren.induct)
  case (1 syms ty tok i cs target agg)
  show ?case
  proof (cases "ty = A_COLUMN_NAME")
    case True
    let ?n = "Node ty tok i cs" let ?d = "inner_column agg ?n"
    have nf: "null_free ?n" using 1(3) True by simp
    obtain name where name: "column_name_path ?n = Inr name" using column_name_path_total [OF nf] by blast
    have d: "source_name ?d = Inr name" "null_free ?d" using source_name_inner [OF nf] True name by simp_all
    obtain found where found: "find_column ?d 0 (nodeChildren target) = Inr found"
      using 1(2) True by (auto simp: bindR_eq_Inr_iff Let_def)
    have e: "buildValueExpression ?n = Inr (ColumnReference name (Some (word_of_int i)))"
      using True name by (simp add: buildColumnReference_def)
    have "\<exists>k ext. n' = resolved_column k \<and> column_list target' (names @ ext) \<and> k < length (names @ ext) \<and> (names @ ext) ! k = name"
    proof (cases found)
      case None
      then have "n' = resolved_column (length names)" "target' = appendChild target (Some ?d)"
        using 1(2) True found column_list_length [OF 1(4)] by (simp_all add: Let_def)
      then show ?thesis using column_list_append [OF 1(4) d(2,1)] by (intro exI [of _ "length names"] exI [of _ "[name]"]) simp
    next
      case (Some k)
      then have "n' = resolved_column k" "target' = target" using 1(2) True found by (simp_all add: Let_def)
      moreover have "k < length names \<and> names ! k = name"
        using find_column_name [OF found [unfolded Some] 1(4) [unfolded column_list_def] d(2,1)] by simp
      ultimately show ?thesis using 1(4) by (intro exI [of _ k] exI [of _ "[]"]) simp
    qed
    then obtain k ext where k: "n' = resolved_column k" "column_list target' (names @ ext)" "k < length (names @ ext)" "(names @ ext) ! k = name"
      by blast
    show ?thesis using k(1,2) e resolves.column [OF k(3,4)] by (intro conjI impI exI [of _ ext]) auto
  next
    case False
    have no: "ty \<noteq> A_METHOD_CALL_WITHIN_RECORD" using 1(3) by simp
    let ?agg = "if ty = A_METHOD_CALL then
                 (case tok of
                    None \<Rightarrow> Inl (Raise RuntimeError)
                  | Some t \<Rightarrow> bindR (isAggregateFunction syms (getString t)) (\<lambda>b. Inr (b \<or> agg)))
               else Inr agg"
    obtain a cs' where a: "?agg = Inr a" and cs': "buildInternalChildren syms cs target a = Inr (cs', target')"
      and n': "n' = Node ty tok i cs'"
      using 1(2) no False by (auto simp: bindR_eq_Inr_iff simp del: buildInternalChildren.simps)
    have "plain_in cs" using 1(3) False by simp
    note ih = 1(1) [OF no False a cs' this 1(4)]
    then obtain ext where ext: "column_list target' (names @ ext)"
      and args: "\<And>es. buildArguments cs = Inr es \<Longrightarrow> \<exists>es'. buildArguments cs' = Inr es' \<and> list_all2 (resolves (names @ ext)) es es'"
      by blast
    have "\<exists>e'. buildValueExpression n' = Inr e' \<and> resolves (names @ ext) e e'" if e: "buildValueExpression (Node ty tok i cs) = Inr e" for e
    proof (cases "ty = A_TABLE_NAME")
      case True
      then obtain c where c: "cs = [Some c]" "nodeType c = A_COLUMN_NAME" using 1(3) by auto
      then obtain c' where c': "cs' = [Some c']" "nodeType c' = A_RESOLVED_COLUMN" using ih by blast
      have same: "buildValueExpression c = buildColumnReference c" "buildValueExpression c' = buildColumnReference c'"
        using c(2) c'(2) by (simp_all add: reference_type)
      have "buildArguments cs = Inr [e]" using e True c same by (simp add: getChild_def)
      then obtain es' where "buildArguments cs' = Inr es'" "list_all2 (resolves (names @ ext)) [e] es'" using args by blast
      then show ?thesis using n' True c' same(2) by (auto simp: getChild_def list_all2_Cons1 bindR_eq_Inr_iff)
    next
      case False2: False
      have ty: "ty \<notin> {A_RESOLVED_COLUMN, A_COLUMN_NAME, A_COLUMN_INDEX, A_TABLE_NAME}" using 1(3) False False2 by auto
      show ?thesis
      proof (cases "buildArguments cs")
        case (Inr es)
        then show ?thesis using args [OF Inr] buildValue_args [OF _ Inr _ e ty] n' by blast
      next
        case (Inl err)
        then have "e \<in> range LiteralExpression \<and> (ty = A_LITERAL \<or> ty = A_VOID)"
          using e ty by (auto simp: buildLiteral_def bindR_eq_Inr_iff split: option.splits if_splits prod.splits)
        then show ?thesis using e n' by (auto intro: resolves.intros)
      qed
    qed
    then show ?thesis using ext False by auto
  qed
next
  case (4 syms c cs target agg)
  obtain c' t1 ds where c': "buildInternalSelectList syms c target agg = Inr (c', t1)"
    and ds: "buildInternalChildren syms cs t1 agg = Inr (ds, target')" and eq: "cs' = Some c' # ds"
    using 4(3) by (auto simp: bindR_eq_Inr_iff)
  have p: "plain c" "plain_in cs" using 4(4) by simp_all
  from 4(1) [OF c' p(1) 4(5)] obtain ext1 where
    ty: "nodeType c = A_COLUMN_NAME \<longrightarrow> nodeType c' = A_RESOLVED_COLUMN" and t1: "column_list t1 (names @ ext1)"
    and e1: "\<And>e. buildValueExpression c = Inr e \<Longrightarrow> \<exists>e'. buildValueExpression c' = Inr e' \<and> resolves (names @ ext1) e e'"
    by blast
  from 4(2) [OF c' refl ds p(2) t1] obtain ext2 where t2: "column_list target' ((names @ ext1) @ ext2)"
    and e2: "\<And>es. buildArguments cs = Inr es \<Longrightarrow> \<exists>es'. buildArguments ds = Inr es' \<and> list_all2 (resolves ((names @ ext1) @ ext2)) es es'"
    by blast
  have "\<exists>es'. buildArguments cs' = Inr es' \<and> list_all2 (resolves (names @ ext1 @ ext2)) es es'"
    if es: "buildArguments (Some c # cs) = Inr es" for es
  proof -
    obtain e es2 where e: "buildValueExpression c = Inr e" "buildArguments cs = Inr es2" "es = e # es2"
      using es by (auto simp: bindR_eq_Inr_iff)
    show ?thesis using e1 [OF e(1)] e2 [OF e(2)] e(3) eq resolves_extend [of "names @ ext1" e _ ext2] by fastforce
  qed
  moreover have "cs = [] \<Longrightarrow> ds = []" using ds by simp
  ultimately show ?case using t2 ty eq by auto
next
  case (2 syms target agg)
  then show ?case by (auto intro!: exI [of _ "[]"])
qed auto

section \<open>The expressions of a grouping node\<close>

lemma plain_deepCopy: "plain n \<Longrightarrow> plain (deepCopy n)" "plain_in cs \<Longrightarrow> plain_in (copy_children cs)"
  by (induction n and cs rule: plain_plain_in.induct) (auto simp: children_null_free_copy split: if_splits)

lemma buildInternal_keeps:
  assumes "buildInternalSelectList syms n target agg = Inr (n', target')" and "plain n" and "nodeType n \<noteq> A_COLUMN_NAME"
  shows "nodeType n' = nodeType n \<and> nodeToken n' = nodeToken n"
  using assms by (cases n) (auto simp: bindR_eq_Inr_iff)

text \<open>A column with its alias; the expression of the second stands for that of the first.\<close>

definition resolved_select :: "string list \<Rightarrow> select_list_node \<Rightarrow> select_list_node \<Rightarrow> bool" where
  "resolved_select names s s' \<longleftrightarrow> alias_of s' = alias_of s \<and> resolves names (expression s) (expression s')"

lemma resolved_select_extend: "resolved_select names s s' \<Longrightarrow> resolved_select (names @ ext) s s'"
  by (simp add: resolved_select_def resolves_extend)

lemma select_column_resolves:
  assumes int: "buildInternalSelectList syms n target agg = Inr (n', target')" and p: "plain n"
    and cl: "column_list target names" and ty: "nodeType n = A_DERIVED_COLUMN" and s: "buildSelectList n = Inr s"
  shows "\<exists>ext s'. column_list target' (names @ ext) \<and> buildSelectList n' = Inr s' \<and> resolved_select (names @ ext) s s'"
proof -
  obtain tok i cs where n: "n = Node A_DERIVED_COLUMN tok i cs" using ty by (cases n) auto
  obtain e v rest where cs: "cs = Some e # rest" and v: "buildValueExpression e = Inr v" "expression s = v"
    using s n by (cases cs) (auto simp: buildSelectList_def buildOptional_def bindR_eq_Inr_iff split: option.splits if_splits)
  obtain cs' where cs': "buildInternalChildren syms cs target agg = Inr (cs', target')" "n' = Node A_DERIVED_COLUMN tok i cs'"
    using int n by (auto simp: bindR_eq_Inr_iff simp del: buildInternalChildren.simps)
  obtain e' t1 rest' where e': "buildInternalSelectList syms e target agg = Inr (e', t1)"
    and rest': "buildInternalChildren syms rest t1 agg = Inr (rest', target')" and eq: "cs' = Some e' # rest'"
    using cs' cs by (auto simp: bindR_eq_Inr_iff)
  have pe: "plain e" "plain_in rest" using p n cs by simp_all
  from buildInternal_resolves(1) [OF e' pe(1) cl] v(1)
  obtain ext1 v' where t1: "column_list t1 (names @ ext1)" and v': "buildValueExpression e' = Inr v'" "resolves (names @ ext1) v v'"
    by blast
  obtain ext2 where t2: "column_list target' ((names @ ext1) @ ext2)" using buildInternal_resolves(2) [OF rest' pe(2) t1]
    by (elim conjE exE) (erule that)
  have "\<exists>s'. buildSelectList n' = Inr s' \<and> alias_of s' = alias_of s \<and> expression s' = v'"
  proof (cases rest)
    case Nil
    then show ?thesis using s n cs v v' cs'(2) eq rest' by (auto simp: buildSelectList_def buildOptional_def)
  next
    case (Cons a as)
    then obtain b where b: "a = Some b" using pe(2) by (cases a) auto
    obtain b' as' t3 where b': "buildInternalSelectList syms b t1 agg = Inr (b', t3)" "rest' = Some b' # as'"
      using rest' Cons b by (auto simp: bindR_eq_Inr_iff)
    have pb: "plain b" using pe(2) Cons b by simp
    have same: "nodeType b' = nodeType b \<and> nodeToken b' = nodeToken b \<or> nodeType b \<noteq> A_COLUMN_ALIAS \<and> nodeType b' \<noteq> A_COLUMN_ALIAS"
    proof (cases "nodeType b = A_COLUMN_NAME")
      case True
      then show ?thesis using buildInternal_resolves(1) [OF b'(1) pb t1] by simp
    next
      case False
      then show ?thesis using buildInternal_keeps [OF b'(1) pb] by simp
    qed
    then show ?thesis using s n cs v v' cs'(2) eq Cons b b'(2)
      by (cases s) (auto simp: buildSelectList_def buildOptional_def bindR_eq_Inr_iff split: if_splits)
  qed
  then show ?thesis using t2 v'(2) v(2) resolves_extend [OF v'(2), of ext2]
    by (intro exI [of _ "ext1 @ ext2"]) (auto simp: resolved_select_def)
qed

lemma select_list_resolves:
  "buildInternalChildren syms cs target False = Inr (cs', target') \<Longrightarrow> plain_in cs \<Longrightarrow> column_list target names \<Longrightarrow>
     \<forall>c. Some c \<in> set cs \<longrightarrow> nodeType c = A_DERIVED_COLUMN \<Longrightarrow> select_nodes cs = Inr ss \<Longrightarrow>
     \<exists>ext ss'. column_list target' (names @ ext) \<and> select_nodes cs' = Inr ss' \<and> list_all2 (resolved_select (names @ ext)) ss ss'"
proof (induction cs arbitrary: target names cs' ss)
  case Nil
  then show ?case by (auto simp: select_nodes_def intro!: exI [of _ "[]"])
next
  case (Cons c cs)
  obtain n where n: "c = Some n" using Cons.prems(2) by (cases c) auto
  obtain n' t1 ds where n': "buildInternalSelectList syms n target False = Inr (n', t1)"
    and ds: "buildInternalChildren syms cs t1 False = Inr (ds, target')" and eq: "cs' = Some n' # ds"
    using Cons.prems(1) n by (auto simp: bindR_eq_Inr_iff)
  obtain s rs where s: "buildSelectList n = Inr s" "select_nodes cs = Inr rs" "ss = s # rs"
    using Cons.prems(5) n by (auto simp: select_nodes_def bindR_eq_Inr_iff)
  from select_column_resolves [OF n' _ Cons.prems(3) _ s(1)] Cons.prems(2,4) n
  obtain ext1 s' where t1: "column_list t1 (names @ ext1)" and s': "buildSelectList n' = Inr s'" "resolved_select (names @ ext1) s s'"
    by auto
  from Cons.IH [OF ds _ t1 _ s(2)] Cons.prems(2,4) n
  obtain ext2 rs' where t2: "column_list target' ((names @ ext1) @ ext2)" and rs': "select_nodes ds = Inr rs'"
    "list_all2 (resolved_select ((names @ ext1) @ ext2)) rs rs'" by auto
  show ?case
    using t2 s' rs' eq s(3) resolved_select_extend [OF s'(2), of ext2]
    by (intro exI [of _ "ext1 @ ext2"] exI [of _ "s' # rs'"]) (auto simp: select_nodes_def)
qed

lemma plain_in_append: "plain_in (cs @ ds) \<longleftrightarrow> plain_in cs \<and> plain_in ds"
proof (induction cs)
  case (Cons c cs)
  then show ?case by (cases c) auto
qed simp

text \<open>The expressions of all grouping clauses, read from copies as the code does.\<close>

definition grouping_exprs :: "ast option list \<Rightarrow> ast option list" where
  "grouping_exprs cs =
     concat (map (\<lambda>c. case c of None \<Rightarrow> [] | Some cl \<Rightarrow> if nodeType cl = A_GROUP_BY then nodeChildren cl else []) cs)"

definition copied_exprs :: "ast option list \<Rightarrow> expr_node list result" where
  "copied_exprs cs = mapR (\<lambda>g. bindR (deref g) (\<lambda>n. buildValueExpression (deepCopy n))) cs"

lemma group_expressions_resolves:
  "group_expressions syms cs sl = Inr (gs, sl') \<Longrightarrow> plain_in cs \<Longrightarrow> column_list sl names \<Longrightarrow> copied_exprs cs = Inr es \<Longrightarrow>
     \<exists>ext. column_list sl' (names @ ext) \<and> list_all2 (resolves (names @ ext)) es gs"
proof (induction cs arbitrary: sl names gs es)
  case Nil
  then show ?case by (auto simp: copied_exprs_def intro!: exI [of _ "[]"])
next
  case (Cons c cs)
  obtain g where c: "c = Some g" using Cons.prems(2) by (cases c) auto
  obtain e sl1 v gs' where e: "buildInternalSelectList syms (deepCopy g) sl False = Inr (e, sl1)"
    and v: "buildValueExpression e = Inr v" and rest: "group_expressions syms cs sl1 = Inr (gs', sl')" and gs: "gs = v # gs'"
    using Cons.prems(1) c by (auto simp: bindR_eq_Inr_iff split: if_splits)
  obtain w ws where w: "buildValueExpression (deepCopy g) = Inr w" "copied_exprs cs = Inr ws" "es = w # ws"
    using Cons.prems(4) c by (auto simp: copied_exprs_def bindR_eq_Inr_iff)
  have "plain (deepCopy g)" using plain_deepCopy(1) Cons.prems(2) c by simp
  from buildInternal_resolves(1) [OF e this Cons.prems(3)] w(1) v
  obtain ext1 where t1: "column_list sl1 (names @ ext1)" "resolves (names @ ext1) w v" by auto
  from Cons.IH [OF rest _ t1(1) w(2)] Cons.prems(2) c
  obtain ext2 where t2: "column_list sl' ((names @ ext1) @ ext2)" "list_all2 (resolves ((names @ ext1) @ ext2)) ws gs'" by auto
  show ?case using t2 resolves_extend [OF t1(2), of ext2] gs w(3) by (intro exI [of _ "ext1 @ ext2"]) auto
qed

lemma copied_exprs_append:
  "copied_exprs (cs @ ds) = Inr es \<Longrightarrow> \<exists>xs ys. copied_exprs cs = Inr xs \<and> copied_exprs ds = Inr ys \<and> es = xs @ ys"
proof (induction cs arbitrary: es)
  case (Cons c cs)
  then obtain e rs where "bindR (deref c) (\<lambda>n. buildValueExpression (deepCopy n)) = Inr e" "copied_exprs (cs @ ds) = Inr rs" "es = e # rs"
    by (auto simp: copied_exprs_def bindR_eq_Inr_iff)
  with Cons.IH show ?case by (fastforce simp: copied_exprs_def)
qed (simp add: copied_exprs_def)

lemma group_clauses_resolves:
  "group_clauses syms cs sl a = Inr (gs, sl', a') \<Longrightarrow> plain_in (grouping_exprs cs) \<Longrightarrow> column_list sl names \<Longrightarrow>
     copied_exprs (grouping_exprs cs) = Inr es \<Longrightarrow>
     \<exists>ext. column_list sl' (names @ ext) \<and> list_all2 (resolves (names @ ext)) es gs"
proof (induction cs arbitrary: sl names gs es a)
  case Nil
  then show ?case by (auto simp: copied_exprs_def grouping_exprs_def intro!: exI [of _ "[]"])
next
  case (Cons c cs)
  obtain cl where c: "c = Some cl" using Cons.prems(1) by (cases c) auto
  show ?case
  proof (cases "nodeType cl = A_GROUP_BY")
    case False
    then show ?thesis using Cons.IH [of sl a gs names es] Cons.prems c by (auto simp: grouping_exprs_def)
  next
    case True
    then obtain g1 sl1 a1 g2 where g1: "group_expressions syms (nodeChildren cl) sl = Inr (g1, sl1)"
      and g2: "group_clauses syms cs sl1 a1 = Inr (g2, sl', a')" and gs: "gs = g1 @ g2"
      using Cons.prems(1) c by (auto simp: bindR_eq_Inr_iff)
    have ge: "grouping_exprs (c # cs) = nodeChildren cl @ grouping_exprs cs" using True c by (simp add: grouping_exprs_def)
    obtain xs ys where xs: "copied_exprs (nodeChildren cl) = Inr xs" "copied_exprs (grouping_exprs cs) = Inr ys" "es = xs @ ys"
      using copied_exprs_append Cons.prems(4) ge by metis
    have p: "plain_in (nodeChildren cl)" "plain_in (grouping_exprs cs)"
      using Cons.prems(2) unfolding ge plain_in_append by auto
    obtain ext1 where t1: "column_list sl1 (names @ ext1)" "list_all2 (resolves (names @ ext1)) xs g1"
      using group_expressions_resolves [OF g1 p(1) Cons.prems(3) xs(1)] by blast
    obtain ext2 where t2: "column_list sl' ((names @ ext1) @ ext2)" "list_all2 (resolves ((names @ ext1) @ ext2)) ys g2"
      using Cons.IH [OF g2 p(2) t1(1) xs(2)] by blast
    have "list_all2 (resolves ((names @ ext1) @ ext2)) xs g1"
      using t1(2) by (rule list.rel_mono_strong) (rule resolves_extend)
    then show ?thesis using t2 gs xs(3) by (intro exI [of _ "ext1 @ ext2"]) (auto intro: list_all2_appendI)
  qed
qed

lemma copied_type:
  "\<forall>d. Some d \<in> set cs \<longrightarrow> nodeType d = ty \<Longrightarrow> Some c \<in> set (copy_children cs) \<Longrightarrow> nodeType c = ty"
proof (induction cs)
  case (Cons d cs)
  then show ?case by (cases d) auto
qed simp

lemma appendChild_type [simp]: "nodeType (appendChild n c) = nodeType n"
  by (cases n) simp

lemma buildInternal_target_type:
  "buildInternalSelectList syms n target agg = Inr (n', target') \<Longrightarrow> nodeType target' = nodeType target"
  "buildInternalChildren syms cs target agg = Inr (cs', target') \<Longrightarrow> nodeType target' = nodeType target"
proof (induction syms n target agg and syms cs target agg arbitrary: n' target' and cs' target'
    rule: buildInternalSelectList_buildInternalChildren.induct)
  case (1 syms ty tok i cs target agg)
  consider (within) "ty = A_METHOD_CALL_WITHIN_RECORD" | (column) "ty = A_COLUMN_NAME"
    | (other) "ty \<noteq> A_METHOD_CALL_WITHIN_RECORD" "ty \<noteq> A_COLUMN_NAME" by blast
  then show ?case
  proof cases
    case column
    then show ?thesis using 1(2) by (auto simp: bindR_eq_Inr_iff Let_def split: option.splits)
  next
    case other
    let ?agg = "if ty = A_METHOD_CALL then
                 (case tok of
                    None \<Rightarrow> Inl (Raise RuntimeError)
                  | Some t \<Rightarrow> bindR (isAggregateFunction syms (getString t)) (\<lambda>b. Inr (b \<or> agg)))
               else Inr agg"
    obtain a cs' where "?agg = Inr a" "buildInternalChildren syms cs target a = Inr (cs', target')"
      using 1(2) other by (auto simp: bindR_eq_Inr_iff simp del: buildInternalChildren.simps)
    then show ?thesis using 1(1) [OF other] by auto
  qed (use 1(2) in auto)
next
  case (4 syms c cs target agg)
  then show ?case by (fastforce simp: bindR_eq_Inr_iff)
qed auto

text \<open>The select list and the inner columns it needs, before the group expressions.\<close>

lemma internal_select_list_resolves:
  assumes int: "buildInternalSelectList syms (deepCopy sl) (new_node A_SELECT_LIST) False = Inr (node, sl0)"
    and sl: "sl = Node A_SELECT_LIST t j cols" and sls: "select_nodes (nodeChildren node) = Inr sls"
    and columns: "\<forall>d. Some d \<in> set cols \<longrightarrow> nodeType d = A_DERIVED_COLUMN"
    and plain: "plain_in cols" and ss: "select_nodes (copy_children cols) = Inr ss"
  shows "\<exists>names. column_list sl0 names \<and> list_all2 (resolved_select names) ss sls"
proof -
  obtain cs' where cs': "buildInternalChildren syms (copy_children cols) (new_node A_SELECT_LIST) False = Inr (cs', sl0)"
    and sl_eq: "nodeChildren node = cs'"
    using int sl by (auto simp: bindR_eq_Inr_iff simp del: buildInternalChildren.simps)
  have derived: "\<forall>d. Some d \<in> set (copy_children cols) \<longrightarrow> nodeType d = A_DERIVED_COLUMN"
  proof (intro allI impI)
    show "nodeType d = A_DERIVED_COLUMN" if "Some d \<in> set (copy_children cols)" for d
      using columns that by (rule copied_type)
  qed
  have empty: "column_list (new_node A_SELECT_LIST) []" by (simp add: column_list_def new_node_def)
  have "plain_in (copy_children cols)" using plain plain_deepCopy(2) by simp
  from select_list_resolves [OF cs' this empty derived ss]
  obtain names1 ss' where "column_list sl0 ([] @ names1)" "select_nodes cs' = Inr ss'"
    "list_all2 (resolved_select ([] @ names1)) ss ss'" by (elim exE conjE) (erule (2) that)
  then have "column_list sl0 names1 \<and> list_all2 (resolved_select names1) ss sls" using sls sl_eq by simp
  then show ?thesis by blast
qed

text \<open>The grouping node: its inner select list, and what its select and group expressions refer to.\<close>

lemma grouping_node_resolves:
  assumes node: "buildGroupBy syms n = Inr (sls, gs, c)" and sl: "select_list_of n = Inr sl"
    and columns: "\<forall>d. Some d \<in> set (nodeChildren sl) \<longrightarrow> nodeType d = A_DERIVED_COLUMN"
    and plain: "plain_in (nodeChildren sl)" "plain_in (grouping_exprs (nodeChildren n))"
    and exprs: "select_nodes (copy_children (nodeChildren sl)) = Inr ss" "copied_exprs (grouping_exprs (nodeChildren n)) = Inr es"
  shows "\<exists>names inner. select_list_of c = Inr inner \<and> column_list inner names \<and>
    list_all2 (resolved_select names) ss sls \<and> list_all2 (resolves names) es gs"
proof -
  obtain select_list sl0 ast0 child_sl child_ast where
    int: "buildInternalSelectList syms (deepCopy sl) (new_node A_SELECT_LIST) False = Inr (select_list, sl0)"
    and sw: "swap_select_list (if nodeType n = A_SELECT then setType A_SELECT_DEEP n else n) sl0 = Inr ast0"
    and gc: "group_clauses syms (nodeChildren n) sl0 ast0 = Inr (gs, child_sl, child_ast)"
    and sls: "select_nodes (nodeChildren select_list) = Inr sls"
    and c: "c = set_select_list child_ast (nodeChildren child_sl)"
    using node sl by (auto simp: buildGroupBy_def bindR_eq_Inr_iff)
  obtain ty tok i ds t j cols where n: "n = Node ty tok i (Some sl # ds)" "sl = Node A_SELECT_LIST t j cols"
    using sl by (rule select_list_ofD)
  have "plain_in cols" "select_nodes (copy_children cols) = Inr ss" "\<forall>d. Some d \<in> set cols \<longrightarrow> nodeType d = A_DERIVED_COLUMN"
    using plain(1) exprs(1) columns n(2) by simp_all
  from internal_select_list_resolves [OF int n(2) sls this(3,1,2)]
  obtain names1 where t1: "column_list sl0 names1" "list_all2 (resolved_select names1) ss sls" by blast
  from group_clauses_resolves [OF gc plain(2) t1(1) exprs(2)]
  obtain ext where t2: "column_list child_sl (names1 @ ext)" "list_all2 (resolves (names1 @ ext)) es gs" by blast
  have sel: "list_all2 (resolved_select (names1 @ ext)) ss sls"
    using t1(2) by (rule list.rel_mono_strong) (rule resolved_select_extend)
  have h: "nodeType sl0 = A_SELECT_LIST" using buildInternal_target_type(1) [OF int] by (simp add: new_node_def)
  obtain ty' where "ast0 = Node ty' tok (-1) (Some sl0 # copy_children ds)"
    using sw n(1) by (auto simp: swap_select_list_eq split: if_splits)
  then obtain ds' where "child_ast = Node ty' tok (-1) (Some sl0 # ds')" using group_clauses_rest [OF _ h] gc by blast
  then obtain inner where "select_list_of c = Inr inner" "nodeChildren inner = nodeChildren child_sl"
    using c h by (cases sl0) (simp add: set_select_list_def select_list_of_def getChild_def)
  moreover have "column_list inner (names1 @ ext)" if "nodeChildren inner = nodeChildren child_sl" for inner
    using t2(1) that by (simp add: column_list_def)
  ultimately show ?thesis using sel t2(2) by blast
qed

section \<open>Properties\<close>

text \<open>
  C12. The grouping node means what the statement says. Let a statement (as the parser makes it) be
  planned as a grouping node over an inner statement. Then the inner select list holds columns with
  some names, and on every row of the table, and whatever rows the aggregates range over, each select
  expression and each group expression of the node, evaluated over the inner columns, has the value of
  the statement's own expression evaluated over the table's columns, errors included; the aliases
  are kept. The names have to be columns of the table.
\<close>

theorem group_node_columns:
  assumes node: "buildGroupBy syms n = Inr (sls, gs, c)" and sl: "select_list_of n = Inr sl"
    and columns: "\<forall>d. Some d \<in> set (nodeChildren sl) \<longrightarrow> nodeType d = A_DERIVED_COLUMN"
    and plain: "plain_in (nodeChildren sl)" "plain_in (grouping_exprs (nodeChildren n))"
    and exprs: "select_nodes (copy_children (nodeChildren sl)) = Inr ss" "copied_exprs (grouping_exprs (nodeChildren n)) = Inr es"
  shows "\<exists>names inner. select_list_of c = Inr inner \<and> column_list inner names \<and>
    (\<forall>schema rows row out. fits schema names \<and> list_all (\<lambda>r. length r = length schema) rows \<and> length row = length schema \<longrightarrow>
      list_all2 (\<lambda>s s'. alias_of s' = alias_of s \<and>
        denote syms (map (project schema names) rows) (expression s') (project schema names row) out =
          denote syms rows (resolve_names schema (expression s)) row out) ss sls \<and>
      list_all2 (\<lambda>e g. denote syms (map (project schema names) rows) g (project schema names row) out =
          denote syms rows (resolve_names schema e) row out) es gs)"
proof -
  from grouping_node_resolves [OF node sl columns plain exprs]
  obtain names inner where inner: "select_list_of c = Inr inner" "column_list inner names"
    and sel: "list_all2 (resolved_select names) ss sls" and grp: "list_all2 (resolves names) es gs" by blast
  have "list_all2 (\<lambda>s s'. alias_of s' = alias_of s \<and>
        denote syms (map (project schema names) rows) (expression s') (project schema names row) out =
          denote syms rows (resolve_names schema (expression s)) row out) ss sls \<and>
      list_all2 (\<lambda>e g. denote syms (map (project schema names) rows) g (project schema names row) out =
          denote syms rows (resolve_names schema e) row out) es gs"
    if "fits schema names \<and> list_all (\<lambda>r. length r = length schema) rows \<and> length row = length schema"
    for schema rows row out
  proof
    note eq = resolves_denote [OF _ conjunct1 [OF that] conjunct1 [OF conjunct2 [OF that]] conjunct2 [OF conjunct2 [OF that]]]
    show "list_all2 (\<lambda>s s'. alias_of s' = alias_of s \<and>
        denote syms (map (project schema names) rows) (expression s') (project schema names row) out =
          denote syms rows (resolve_names schema (expression s)) row out) ss sls"
      using sel by (rule list.rel_mono_strong) (simp add: resolved_select_def eq)
    show "list_all2 (\<lambda>e g. denote syms (map (project schema names) rows) g (project schema names row) out =
          denote syms rows (resolve_names schema e) row out) es gs"
      using grp by (rule list.rel_mono_strong) (rule eq)
  qed
  then show ?thesis using inner by blast
qed

text \<open>\<open>SELECT count(a) AS n FROM t GROUP BY b\<close> on a table with the columns a, b and c.\<close>

definition group_example :: ast where
  "group_example =
     branch A_SELECT
       [Some (branch A_SELECT_LIST [Some (branch A_DERIVED_COLUMN
          [Some (Node A_METHOD_CALL (Some (ident ''count'')) (-1) [Some (leaf A_COLUMN_NAME (ident ''a''))]),
           Some (leaf A_COLUMN_ALIAS (ident ''n''))])]),
        Some (branch A_FROM [Some (leaf A_TABLE_NAME (ident ''t''))]),
        Some (branch A_GROUP_BY [Some (leaf A_COLUMN_NAME (ident ''b''))])]"

definition group_example_inner :: ast where
  "group_example_inner =
     branch A_SELECT_DEEP
       [Some (branch A_SELECT_LIST
          [Some (branch A_DERIVED_COLUMN [Some (leaf A_COLUMN_NAME (ident ''a''))]),
           Some (branch A_DERIVED_COLUMN [Some (Node A_METHOD_CALL_WITHIN_RECORD (Some repeat_value_token) (-1)
             [Some (leaf A_COLUMN_NAME (ident ''b''))])])]),
        Some (branch A_FROM [Some (leaf A_TABLE_NAME (ident ''t''))])]"

lemma group_example_plan:
  "buildGroupBy [(''count'', FN_AGGREGATE kCountExpr)] group_example =
     Inr ([SelectListNode (CallExpression ''count'' [ColumnReference [] (Some 0)]) (Some ''n'')], [ColumnReference [] (Some 1)],
       group_example_inner)"
  by (simp add: group_example_def group_example_inner_def buildGroupBy_def select_list_of_def getChild_def new_node_def
      isAggregateFunction_def lookup_def toLower_def lower_def inner_column_def resolved_column_def swap_select_list_def
      select_nodes_def buildSelectList_def buildOptional_def buildColumnReference_def token_text_def set_select_list_def
      repeat_value_token_def)

theorem group_node_columns_witness:
  "let schema = [''a'', ''b'', ''c'']; names = [''a'', ''b'']; syms = [(''count'', FN_AGGREGATE kCountExpr)];
       rows = [[Integer 1, Integer 2, Integer 3], [Null, Integer 2, Integer 4]]; row = [Null, Integer 2, Integer 4] in
   denote syms (map (project schema names) rows) (CallExpression ''count'' [ColumnReference [] (Some 0)]) (project schema names row) Null =
     denote syms rows (resolve_names schema (CallExpression ''count'' [ColumnReference ''a'' (Some (-1))])) row Null \<and>
   denote syms (map (project schema names) rows) (ColumnReference [] (Some 1)) (project schema names row) Null =
     denote syms rows (resolve_names schema (ColumnReference ''b'' (Some (-1)))) row Null"
proof -
  let ?syms = "[(''count'', FN_AGGREGATE kCountExpr)]" let ?schema = "[''a'', ''b'', ''c'']"
  let ?rows = "[[Integer 1, Integer 2, Integer 3], [Null, Integer 2, Integer 4]]"
  obtain sl where sl: "select_list_of group_example = Inr sl"
    "nodeChildren sl = [Some (branch A_DERIVED_COLUMN
          [Some (Node A_METHOD_CALL (Some (ident ''count'')) (-1) [Some (leaf A_COLUMN_NAME (ident ''a''))]),
           Some (leaf A_COLUMN_ALIAS (ident ''n''))])]"
    by (simp add: group_example_def select_list_of_def getChild_def)
  have "\<exists>names inner. select_list_of group_example_inner = Inr inner \<and> column_list inner names \<and>
    (\<forall>schema rows row out. fits schema names \<and> list_all (\<lambda>r. length r = length schema) rows \<and> length row = length schema \<longrightarrow>
      list_all2 (\<lambda>s s'. alias_of s' = alias_of s \<and>
        denote ?syms (map (project schema names) rows) (expression s') (project schema names row) out =
          denote ?syms rows (resolve_names schema (expression s)) row out)
        [SelectListNode (CallExpression ''count'' [ColumnReference ''a'' (Some (-1))]) (Some ''n'')]
        [SelectListNode (CallExpression ''count'' [ColumnReference [] (Some 0)]) (Some ''n'')] \<and>
      list_all2 (\<lambda>e g. denote ?syms (map (project schema names) rows) g (project schema names row) out =
          denote ?syms rows (resolve_names schema e) row out)
        [ColumnReference ''b'' (Some (-1))] [ColumnReference [] (Some 1)])"
    by (rule group_node_columns [OF group_example_plan sl(1)])
      (simp_all add: sl(2) group_example_def grouping_exprs_def copied_exprs_def select_nodes_def buildSelectList_def
        buildOptional_def buildColumnReference_def token_text_def)
  then obtain names inner where inner: "select_list_of group_example_inner = Inr inner" "column_list inner names"
    and vals: "\<And>schema rows row out. fits schema names \<Longrightarrow> list_all (\<lambda>r. length r = length schema) rows \<Longrightarrow> length row = length schema \<Longrightarrow>
      denote ?syms (map (project schema names) rows) (CallExpression ''count'' [ColumnReference [] (Some 0)]) (project schema names row) out =
          denote ?syms rows (resolve_names schema (CallExpression ''count'' [ColumnReference ''a'' (Some (-1))])) row out \<and>
      denote ?syms (map (project schema names) rows) (ColumnReference [] (Some 1)) (project schema names row) out =
          denote ?syms rows (resolve_names schema (ColumnReference ''b'' (Some (-1)))) row out"
    by (elim exE conjE) (simp del: denote.simps resolve_names.simps)
  have "names = [''a'', ''b'']"
    using inner by (auto simp: group_example_inner_def select_list_of_def getChild_def column_list_def list_all2_Cons1 is_column_def source_name_def)
  then show ?thesis
    using vals [of ?schema ?rows "[Null, Integer 2, Integer 4]" Null] by (simp add: fits_def Let_def del: denote.simps resolve_names.simps)
qed

end
