(* ===== verification/Table_Expr.thy ===== *)
theory Table_Expr
  imports Query_Tree Group_By
begin

text \<open>
  Table expressions: how \<open>TableExpressionBuilder\<close> (src/csql/runtime/TableExpressionBuilder.cc) turns a
  query tree into operators, and how these run (limitclause.cc, orderby.cc, Union.cc,
  SelectExpression.cc, EmptyTable.cc, ShowTablesStatement.cc, DescribeTableStatement.cc, and GroupBy.cc
  without its cache). An operator hands its rows to a callback, which has a state of its own
  and answers whether it wants more. The scan of a table is code behind an interface: it has columns and
  rows, and hands them out in order until the callback wants no more.
\<close>

section \<open>Operators\<close>

datatype table_expr =
    LimitClause nat nat table_expr
  | OrderBy "sort_spec list" nat table_expr
  | GroupBy "string list" "vm_program list" "vm_program list" table_expr
  | GroupByMerge "table_expr list"
  | Union "table_expr list"
  | SelectExpression "string list" "vm_program list"
  | EmptyTable "string list"
  | ShowTablesStatement
  | DescribeTableStatement table_info
  | Scan "string list" "svalue list list"

fun columnNames :: "table_expr \<Rightarrow> string list result" where
  "columnNames (LimitClause l off t) = columnNames t"
| "columnNames (OrderBy specs m t) = bindR (columnNames t) (\<lambda>cs. Inr (take m cs))"
| "columnNames (GroupBy names sel ks t) = Inr names"
| "columnNames (GroupByMerge ts) = (case ts of [] \<Rightarrow> Inl (Undefined ReadOutOfBounds) | t # _ \<Rightarrow> columnNames t)"
| "columnNames (Union ts) = (case ts of [] \<Rightarrow> Inl (Undefined ReadOutOfBounds) | t # _ \<Rightarrow> columnNames t)"
| "columnNames (SelectExpression names ps) = Inr names"
| "columnNames (EmptyTable names) = Inr names"
| "columnNames ShowTablesStatement = Inr [''table_name'', ''description'']"
| "columnNames (DescribeTableStatement info) = Inr [''Field'', ''Type'', ''Null'', ''Description'']"
| "columnNames (Scan names rows) = Inr names"

fun numColumns :: "table_expr \<Rightarrow> nat result" where
  "numColumns (LimitClause l off t) = numColumns t"
| "numColumns (OrderBy specs m t) = bindR (numColumns t) (\<lambda>n. Inr (min n m))"
| "numColumns (GroupBy names sel ks t) = Inr (length names)"
| "numColumns (GroupByMerge ts) = (case ts of [] \<Rightarrow> Inl (Undefined ReadOutOfBounds) | t # _ \<Rightarrow> numColumns t)"
| "numColumns (Union ts) = (case ts of [] \<Rightarrow> Inl (Undefined ReadOutOfBounds) | t # _ \<Rightarrow> numColumns t)"
| "numColumns (SelectExpression names ps) = Inr (length names)"
| "numColumns (EmptyTable names) = Inr (length names)"
| "numColumns ShowTablesStatement = Inr 2"
| "numColumns (DescribeTableStatement info) = Inr 4"
| "numColumns (Scan names rows) = Inr (length names)"

section \<open>Constructors\<close>

text \<open>\<open>OrderBy::OrderBy\<close> checks its sort columns.\<close>

definition max_sort_idx :: "sort_spec list \<Rightarrow> nat" where
  "max_sort_idx specs = foldl (\<lambda>m s. if sort_column s > m then sort_column s else m) 0 specs"

definition new_OrderBy :: "sort_spec list \<Rightarrow> nat \<Rightarrow> table_expr \<Rightarrow> table_expr result" where
  "new_OrderBy specs m t =
     (if specs = [] then Inl (Raise IllegalArgumentError)
      else bindR (numColumns t) (\<lambda>child_columns.
        if child_columns \<le> max_sort_idx specs then Inl (Raise RuntimeError) else Inr (OrderBy specs m t)))"

text \<open>\<open>Union::Union\<close> compares the column counts of neighbours, leaving out empty tables.\<close>

fun union_columns :: "nat option \<Rightarrow> table_expr list \<Rightarrow> unit result" where
  "union_columns ncols [] = Inr ()"
| "union_columns ncols (t # ts) =
     (case t of
        EmptyTable names \<Rightarrow> union_columns ncols ts
      | _ \<Rightarrow> bindR (numColumns t) (\<lambda>tcols.
          if ncols \<noteq> None \<and> ncols \<noteq> Some tcols then Inl (Raise RuntimeError) else union_columns (Some tcols) ts))"

definition new_Union :: "table_expr list \<Rightarrow> table_expr result" where
  "new_Union ts = (if ts = [] then Inl (Raise RuntimeError) else bindR (union_columns None ts) (\<lambda>_. Inr (Union ts)))"

text \<open>\<open>buildGroupMerge\<close> accepts groupings only, and \<open>GroupByMerge::GroupByMerge\<close> makes the same check.\<close>

fun is_grouping :: "table_expr \<Rightarrow> bool" where
  "is_grouping (GroupBy names sel ks t) = True"
| "is_grouping _ = False"

definition new_GroupByMerge :: "table_expr list \<Rightarrow> table_expr result" where
  "new_GroupByMerge ts =
     (if ts = [] then Inl (Raise RuntimeError) else bindR (union_columns None ts) (\<lambda>_. Inr (GroupByMerge ts)))"

text \<open>\<open>LimitClause(int, int, ...)\<close> takes the values of the node, which are \<open>size_t\<close>, and stores them as \<open>size_t\<close>.\<close>

definition as_int_size :: "64 word \<Rightarrow> nat" where
  "as_int_size w = unat (signed (ucast w :: 32 word) :: 64 word)"

definition new_LimitClause :: "64 word \<Rightarrow> 64 word \<Rightarrow> table_expr \<Rightarrow> table_expr" where
  "new_LimitClause l off t = LimitClause (as_int_size l) (as_int_size off) t"

section \<open>Building\<close>

text \<open>A column's title; a format that never ends (see \<open>node_toSQL\<close>) does not occur.\<close>

definition column_title :: "select_list_node \<Rightarrow> string result" where
  "column_title s = (case columnName s of Some n \<Rightarrow> Inr n | None \<Rightarrow> Inl OutOfFuel)"

text \<open>The loop that fills \<open>column_names\<close> and \<open>select_expressions\<close>.\<close>

fun select_columns :: "symbol_table \<Rightarrow> select_list_node list \<Rightarrow> (string list \<times> vm_program list) result" where
  "select_columns syms [] = Inr ([], [])"
| "select_columns syms (s # ss) =
     bindR (column_title s) (\<lambda>name. bindR (compile syms (expression s)) (\<lambda>p.
     bindR (select_columns syms ss) (\<lambda>(names, ps). Inr (name # names, p # ps))))"

text \<open>A table provider: its description of a table, and its scan for a node.\<close>

record table_provider =
  describes :: "string \<Rightarrow> table_info option"
  scans :: "query_tree \<Rightarrow> table_expr option"

text \<open>\<open>TableRepository::describe\<close> and \<open>TableRepository::buildSequentialScan\<close>: the first provider that answers.\<close>

definition describe_table :: "table_provider list \<Rightarrow> string \<Rightarrow> table_info option" where
  "describe_table ps = describe (map describes ps)"

fun scan_table :: "table_provider list \<Rightarrow> query_tree \<Rightarrow> table_expr option" where
  "scan_table [] node = None"
| "scan_table (p # ps) node = (case scans p node of Some t \<Rightarrow> Some t | None \<Rightarrow> scan_table ps node)"

definition buildScan :: "table_provider list \<Rightarrow> query_tree \<Rightarrow> string \<Rightarrow> select_list_node list \<Rightarrow> table_expr result" where
  "buildScan ps node tbl sl =
     (case describe_table ps tbl of
        None \<Rightarrow> Inl (Raise RuntimeError)
      | Some tinfo \<Rightarrow>
          if \<not> selectedColumns sl \<subseteq> set (map column_name (columns tinfo)) then Inl (Raise RuntimeError)
          else case scan_table ps node of None \<Rightarrow> Inl (Raise RuntimeError) | Some t \<Rightarrow> Inr t)"

fun buildTable :: "symbol_table \<Rightarrow> table_provider list \<Rightarrow> query_tree \<Rightarrow> table_expr result" where
  "buildTable syms ps (LimitNode l off t) =
     bindR (buildTable syms ps t) (\<lambda>c. Inr (new_LimitClause l off c))"
| "buildTable syms ps (OrderByNode specs m t) = bindR (buildTable syms ps t) (new_OrderBy specs m)"
| "buildTable syms ps (GroupByNode sl gs t) =
     bindR (select_columns syms sl) (\<lambda>(names, sel).
     bindR (mapR (compile syms) gs) (\<lambda>ks.
     bindR (buildTable syms ps t) (\<lambda>c. Inr (GroupBy names sel ks c))))"
| "buildTable syms ps (UnionNode ts) = bindR (mapR (buildTable syms ps) ts) new_Union"
| "buildTable syms ps (SequentialScanNode tbl sl wh st) = buildScan ps (SequentialScanNode tbl sl wh st) tbl sl"
| "buildTable syms ps (SelectExpressionNode sl) =
     bindR (select_columns syms sl) (\<lambda>(names, sel). Inr (SelectExpression names sel))"
| "buildTable syms ps ShowTablesNode = Inr ShowTablesStatement"
| "buildTable syms ps (DescribeTableNode tbl) =
     (case describe_table ps tbl of
        None \<Rightarrow> Inl (Raise NotFoundError)
      | Some info \<Rightarrow> Inr (DescribeTableStatement info))"
| "buildTable syms ps (GroupByMergeNode ts) =
     bindR (mapR (\<lambda>t. bindR (buildTable syms ps t) (\<lambda>shard.
         if is_grouping shard then Inr shard else Inl (Raise IllegalStateError))) ts) new_GroupByMerge"
| "buildTable syms ps (DrawStatementNode a ts) = Inl (Raise RuntimeError)"
| "buildTable syms ps (ChartStatementNode ts) = Inl (Raise RuntimeError)"

section \<open>Running\<close>

text \<open>
  What an operator closes over while its child runs: the state of the client, a counter in front of it,
  the rows gathered so far, or the groups.
\<close>

datatype 's run_state =
    Client 's
  | Counting nat "'s run_state"
  | Gathering "svalue list list"
  | Grouping groups

text \<open>
  The environment: the order in which a hash map is iterated, \<open>std::sort\<close> on rows, the tables the
  providers list, and the order in which concurrent sources finish.
\<close>

record environment =
  hash_order :: "groups \<Rightarrow> groups"
  std_sort :: "(svalue list \<Rightarrow> svalue list \<Rightarrow> bool result) \<Rightarrow> svalue list list \<Rightarrow> svalue list list result"
  listed :: "table_info list"
  finished :: "(vm_program list \<times> groups result) list \<Rightarrow> (vm_program list \<times> groups result) list"

text \<open>Handing out rows until the callback wants no more, and handing them all out whatever it answers.\<close>

fun feed :: "'s row_callback \<Rightarrow> svalue list list \<Rightarrow> 's \<Rightarrow> 's result" where
  "feed fn [] s = Inr s"
| "feed fn (row # rows) s = bindR (fn s row) (\<lambda>(s', more). if more then feed fn rows s' else Inr s')"

definition feed_all :: "'s row_callback \<Rightarrow> svalue list list \<Rightarrow> 's \<Rightarrow> 's result" where
  "feed_all fn rows s = foldR (\<lambda>s row. bindR (fn s row) (\<lambda>(s', more). Inr s')) s rows"

text \<open>The comparison of \<open>OrderBy::execute\<close>; the indices are read without a check.\<close>

fun order_less :: "sort_spec list \<Rightarrow> svalue list \<Rightarrow> svalue list \<Rightarrow> bool result" where
  "order_less [] left right = Inr False"
| "order_less (spec # specs) left right =
     bindR (elemR left (sort_column spec)) (\<lambda>l. bindR (elemR right (sort_column spec)) (\<lambda>r.
     bindR (eqExpr [l, r] (Bool False)) (\<lambda>res. bindR (getBool res) (\<lambda>eq.
       if eq then order_less specs left right
       else bindR ((if sort_descending spec then gtExpr else ltExpr) [l, r] res) getBool))))"

definition table_row :: "table_info \<Rightarrow> svalue list" where
  "table_row t = [Str (table_name t), case description t of None \<Rightarrow> Null | Some d \<Rightarrow> Str d]"

definition column_row :: "column_info \<Rightarrow> svalue list" where
  "column_row c = [Str (column_name c), Str (column_type c), Str (if is_nullable c then ''YES'' else ''NO''), Null]"

text \<open>\<open>LimitClause\<close> adds its two \<open>size_t\<close> numbers.\<close>

definition limit_end :: "nat \<Rightarrow> nat \<Rightarrow> nat" where
  "limit_end limit offset = (offset + limit) mod 2 ^ 64"

definition counting :: "nat \<Rightarrow> nat \<Rightarrow> 's run_state row_callback \<Rightarrow> 's run_state row_callback" where
  "counting limit offset fn st row = (case st of
      Counting counter s \<Rightarrow>
        if counter < offset then Inr (Counting (Suc counter) s, True)
        else if limit_end limit offset < Suc counter then Inr (Counting (Suc counter) s, False)
        else bindR (fn s row) (\<lambda>(s', more). Inr (Counting (Suc counter) s', more))
    | _ \<Rightarrow> Inl (Undefined WrongScratchType))"

definition gathering :: "'s run_state row_callback" where
  "gathering st row = (case st of
      Gathering rows \<Rightarrow> Inr (Gathering (rows @ [row]), True)
    | _ \<Rightarrow> Inl (Undefined WrongScratchType))"

definition grouping :: "vm_program list \<Rightarrow> vm_program list \<Rightarrow> 's run_state row_callback" where
  "grouping sel ks st row = (case st of
      Grouping gs \<Rightarrow> bindR (nextRow sel ks gs row) (\<lambda>gs'. Inr (Grouping gs', True))
    | _ \<Rightarrow> Inl (Undefined WrongScratchType))"

text \<open>The sources of a merge, each with its own select expressions, and the groups merged from all of them.\<close>

definition merge_finished ::
  "environment \<Rightarrow> (vm_program list \<times> groups result) list \<Rightarrow> groups result" where
  "merge_finished env sources =
     bindR (foldR (\<lambda>acc (sel, source). merge_source (hash_order env) sel acc source) ([], False) (finished env sources))
       (\<lambda>(groups, failed). if failed then Inl (Raise RuntimeError) else Inr groups)"

definition groups_of :: "'s run_state result \<Rightarrow> groups result" where
  "groups_of r = bindR r (\<lambda>st. case st of Grouping gs \<Rightarrow> Inr gs | _ \<Rightarrow> Inl (Undefined WrongScratchType))"

fun execute :: "environment \<Rightarrow> table_expr \<Rightarrow> 's run_state row_callback \<Rightarrow> 's run_state \<Rightarrow> 's run_state result" where
  "execute env (LimitClause limit offset t) fn s =
     bindR (execute env t (counting limit offset fn) (Counting 0 s)) (\<lambda>st. case st of
         Counting _ s' \<Rightarrow> Inr s'
       | _ \<Rightarrow> Inl (Undefined WrongScratchType))"
| "execute env (OrderBy specs m t) fn s =
     bindR (execute env t gathering (Gathering [])) (\<lambda>st. case st of
         Gathering rows \<Rightarrow>
           bindR (std_sort env (order_less specs) rows) (\<lambda>sorted_rows. feed fn (map (take m) sorted_rows) s)
       | _ \<Rightarrow> Inl (Undefined WrongScratchType))"
| "execute env (GroupBy names sel ks t) fn s =
     bindR (groups_of (execute env t (grouping sel ks) (Grouping []))) (\<lambda>gs. getResult (hash_order env) sel gs fn s)"
| "execute env (GroupByMerge ts) fn s =
     (case map (\<lambda>t. case t of
           GroupBy names sel ks src \<Rightarrow> (sel, groups_of (execute env src (grouping sel ks) (Grouping [])))
         | _ \<Rightarrow> ([], Inl (Undefined WrongScratchType))) ts of
        [] \<Rightarrow> Inl (Undefined ReadOutOfBounds)
      | sources \<Rightarrow>
          bindR (merge_finished env sources) (\<lambda>gs. getResult (hash_order env) (fst (hd sources)) gs fn s))"
| "execute env (Union ts) fn s = foldR (\<lambda>s t. execute env t fn s) s ts"
| "execute env (SelectExpression names ps) fn s =
     bindR (mapR (\<lambda>p. vm_evaluate p [] Null) ps) (\<lambda>row. feed_all fn [row] s)"
| "execute env (EmptyTable names) fn s = Inr s"
| "execute env ShowTablesStatement fn s = feed_all fn (map table_row (listed env)) s"
| "execute env (DescribeTableStatement info) fn s = feed_all fn (map column_row (columns info)) s"
| "execute env (Scan names rows) fn s = feed fn rows s"

text \<open>The client that keeps every row, as \<open>Runtime::executeStatement\<close> runs it for a \<open>ResultList\<close>.\<close>

definition keep_row :: "svalue list list run_state row_callback" where
  "keep_row st row = (case st of
      Client rows \<Rightarrow> Inr (Client (rows @ [row]), True)
    | _ \<Rightarrow> Inl (Undefined WrongScratchType))"

definition run_table :: "environment \<Rightarrow> table_expr \<Rightarrow> svalue list list result" where
  "run_table env t =
     bindR (execute env t keep_row (Client [])) (\<lambda>st. case st of
         Client rows \<Rightarrow> Inr rows
       | _ \<Rightarrow> Inl (Undefined WrongScratchType))"

text \<open>\<open>executeStatement\<close> with a \<open>ResultList\<close>: the header, and the rows as text.\<close>

definition executeStatement :: "environment \<Rightarrow> table_expr \<Rightarrow> (string list \<times> string list list) result" where
  "executeStatement env t =
     bindR (columnNames t) (\<lambda>header. bindR (run_table env t) (\<lambda>rows. Inr (header, map (map toString) rows)))"

end
