(* ===== verification/Table_Expr_Correct.thy ===== *)
theory Table_Expr_Correct
  imports Table_Expr Group_By_Correct
begin

text \<open>
  The operators compute the operations of the relational algebra. \<open>table_rows\<close> says, without
  callbacks and counters, which rows an operator stands for; running it hands out these rows, in this
  order. Not every operator stops when its client asks for no more (a union goes on with its next source,
  the statements about tables never stop), so this is shown for clients that stay quiet
  once they have refused a row, and the callback of \<open>LIMIT\<close> is one.
\<close>

section \<open>The rows of a table expression\<close>

fun table_rows :: "environment \<Rightarrow> table_expr \<Rightarrow> svalue list list result" where
  "table_rows env (LimitClause limit offset t) =
     bindR (table_rows env t) (\<lambda>rows. Inr (take (limit_end limit offset - offset) (drop offset rows)))"
| "table_rows env (OrderBy specs m t) =
     bindR (table_rows env t) (\<lambda>rows. bindR (std_sort env (order_less specs) rows) (\<lambda>ss. Inr (map (take m) ss)))"
| "table_rows env (GroupBy names sel ks t) =
     bindR (table_rows env t) (\<lambda>rows. execute_group_by (hash_order env) sel ks rows collect [])"
| "table_rows env (GroupByMerge ts) =
     bindR (mapR (\<lambda>t. case t of
           GroupBy names sel ks src \<Rightarrow> bindR (table_rows env src) (\<lambda>rows. Inr (sel, accumulate_source sel ks rows))
         | _ \<Rightarrow> Inl (Undefined WrongScratchType)) ts) (\<lambda>sources.
       if sources = [] then Inl (Undefined ReadOutOfBounds)
       else bindR (merge_finished env sources) (\<lambda>gs. getResult (hash_order env) (fst (hd sources)) gs collect []))"
| "table_rows env (Union ts) = bindR (mapR (table_rows env) ts) (\<lambda>rss. Inr (concat rss))"
| "table_rows env (SelectExpression names ps) = bindR (mapR (\<lambda>p. vm_evaluate p [] Null) ps) (\<lambda>row. Inr [row])"
| "table_rows env (EmptyTable names) = Inr []"
| "table_rows env ShowTablesStatement = Inr (map table_row (listed env))"
| "table_rows env (DescribeTableStatement info) = Inr (map column_row (columns info))"
| "table_rows env (Scan names rows) = Inr rows"

section \<open>Quiet clients\<close>

text \<open>
  \<open>settled Q E fn\<close>: a state in which the client has refused a row satisfies \<open>Q\<close>, and from then on it
  refuses every row and its state stays the same up to \<open>E\<close>.
\<close>

definition settled :: "('s \<Rightarrow> bool) \<Rightarrow> ('s \<Rightarrow> 's \<Rightarrow> bool) \<Rightarrow> 's row_callback \<Rightarrow> bool" where
  "settled Q E fn \<longleftrightarrow> equivp E \<and> (\<forall>s row s'. fn s row = Inr (s', False) \<longrightarrow> Q s') \<and>
     (\<forall>s row. Q s \<longrightarrow> (\<exists>s'. fn s row = Inr (s', False) \<and> Q s' \<and> E s s'))"

definition similar :: "('s \<Rightarrow> bool) \<Rightarrow> ('s \<Rightarrow> 's \<Rightarrow> bool) \<Rightarrow> 's result \<Rightarrow> 's result \<Rightarrow> bool" where
  "similar Q E r r' \<longleftrightarrow> r = r' \<or> (\<exists>s s'. r = Inr s \<and> r' = Inr s' \<and> Q s \<and> Q s' \<and> E s s')"

lemma similar_refl [simp]: "similar Q E r r"
  by (simp add: similar_def)

lemma similar_trans: "equivp E \<Longrightarrow> similar Q E a b \<Longrightarrow> similar Q E b c \<Longrightarrow> similar Q E a c"
  unfolding similar_def by (metis equivp_transp sum.inject(2))

lemma settled_quiet:
  assumes "settled Q E fn" and "Q s"
  obtains s' where "fn s row = Inr (s', False)" "Q s'" "E s s'"
  using assms unfolding settled_def by blast

lemma feed_all_quiet:
  "settled Q E fn \<Longrightarrow> Q s \<Longrightarrow> \<exists>s'. feed_all fn rows s = Inr s' \<and> Q s' \<and> E s s'"
proof (induction rows arbitrary: s)
  case Nil
  then show ?case by (auto simp: feed_all_def settled_def intro: equivp_reflp)
next
  case (Cons row rows)
  obtain s1 where s1: "fn s row = Inr (s1, False)" "Q s1" "E s s1" using settled_quiet Cons.prems by metis
  obtain s2 where "feed_all fn rows s1 = Inr s2" "Q s2" "E s1 s2" using Cons.IH [OF Cons.prems(1) s1(2)] by blast
  then show ?case using s1 Cons.prems(1) by (auto simp: feed_all_def settled_def elim: equivp_transp)
qed

lemma feed_quiet: "settled Q E fn \<Longrightarrow> Q s \<Longrightarrow> \<exists>s'. feed fn rows s = Inr s' \<and> Q s' \<and> E s s'"
proof (cases rows)
  case Nil
  then show "settled Q E fn \<Longrightarrow> Q s \<Longrightarrow> ?thesis" by (auto simp: settled_def intro: equivp_reflp)
next
  case (Cons row rest)
  assume "settled Q E fn" "Q s"
  then obtain s1 where "fn s row = Inr (s1, False)" "Q s1" "E s s1" using settled_quiet by metis
  then show ?thesis using Cons by simp
qed

lemma feed_all_similar: "settled Q E fn \<Longrightarrow> similar Q E (feed_all fn rows s) (feed fn rows s)"
proof (induction rows arbitrary: s)
  case (Cons row rows)
  show ?case
  proof (cases "fn s row")
    case (Inr r)
    obtain s1 more where r: "r = (s1, more)" by (cases r)
    show ?thesis
    proof (cases more)
      case True
      then show ?thesis using Cons Inr r by (simp add: feed_all_def)
    next
      case False
      then have q: "Q s1" using Cons.prems Inr r by (simp add: settled_def)
      obtain s2 where s2: "feed_all fn rows s1 = Inr s2" "Q s2" "E s1 s2" using feed_all_quiet [OF Cons.prems q] by blast
      have "E s2 s1" using s2(3) Cons.prems by (simp add: settled_def equivp_symp)
      then show ?thesis using s2 q Inr r False by (auto simp: similar_def feed_all_def)
    qed
  qed (simp add: feed_all_def)
qed (simp add: feed_all_def)

text \<open>Similar states stay similar.\<close>

lemma feed_similar:
  assumes "settled Q E fn" and "similar Q E r r'"
  shows "similar Q E (bindR r (feed fn rows)) (bindR r' (feed fn rows))"
proof (cases "r = r'")
  case False
  then obtain s s' where s: "r = Inr s" "r' = Inr s'" "Q s" "Q s'" "E s s'" using assms(2) by (auto simp: similar_def)
  have eq: "equivp E" using assms(1) by (simp add: settled_def)
  obtain t t' where t: "feed fn rows s = Inr t" "Q t" "E s t" and t': "feed fn rows s' = Inr t'" "Q t'" "E s' t'"
    using feed_quiet [OF assms(1) s(3)] feed_quiet [OF assms(1) s(4)] by blast
  have "E t t'" using eq t(3) t'(3) s(5) by (meson equivp_symp equivp_transp)
  then show ?thesis using s t t' by (auto simp: similar_def)
qed simp

text \<open>Two lists of rows one after the other.\<close>

lemma feed_append_similar:
  assumes "settled Q E fn"
  shows "similar Q E (bindR (feed fn xs s) (feed fn ys)) (feed fn (xs @ ys) s)"
proof (induction xs arbitrary: s)
  case (Cons x xs)
  show ?case
  proof (cases "fn s x")
    case (Inr r)
    obtain s1 more where r: "r = (s1, more)" by (cases r)
    show ?thesis
    proof (cases more)
      case False
      then have q: "Q s1" using assms Inr r by (simp add: settled_def)
      obtain s2 where s2: "feed fn ys s1 = Inr s2" "Q s2" "E s1 s2" using feed_quiet [OF assms q] by blast
      have "E s2 s1" using s2(3) assms by (simp add: settled_def equivp_symp)
      then show ?thesis using s2 q Inr r False by (auto simp: similar_def)
    qed (use Cons Inr r in simp)
  qed simp
qed simp

section \<open>The callbacks of the operators\<close>

lemma settled_never:
  assumes "\<And>s row s'. fn s row \<noteq> Inr (s', False)"
  shows "settled (\<lambda>_. False) (=) fn"
  using assms by (auto simp: settled_def identity_equivp)

lemma similar_never: "similar (\<lambda>_. False) (=) r r' \<Longrightarrow> r = r'"
  by (simp add: similar_def)

lemma gathering_settled: "settled (\<lambda>_. False) (=) gathering"
  by (rule settled_never) (auto simp: gathering_def split: run_state.splits)

lemma grouping_settled: "settled (\<lambda>_. False) (=) (grouping sel ks)"
  by (rule settled_never) (auto simp: grouping_def bindR_eq_Inr_iff split: run_state.splits)

lemma feed_gathering: "feed gathering rows (Gathering acc) = Inr (Gathering (acc @ rows))"
  by (induction rows arbitrary: acc) (simp_all add: gathering_def)

lemma feed_grouping:
  "feed (grouping sel ks) rows (Grouping gs) = bindR (foldR (nextRow sel ks) gs rows) (\<lambda>g. Inr (Grouping g))"
  by (induction rows arbitrary: gs) (simp_all add: grouping_def bindR_assoc)

text \<open>The state of \<open>LIMIT\<close> is quiet after its last row, or once its client is.\<close>

definition limit_quiet :: "nat \<Rightarrow> nat \<Rightarrow> ('s run_state \<Rightarrow> bool) \<Rightarrow> 's run_state \<Rightarrow> bool" where
  "limit_quiet limit offset Q st = (case st of
      Counting c s \<Rightarrow> offset \<le> c \<and> (limit_end limit offset \<le> c \<or> Q s)
    | _ \<Rightarrow> False)"

definition limit_same :: "('s run_state \<Rightarrow> bool) \<Rightarrow> ('s run_state \<Rightarrow> 's run_state \<Rightarrow> bool) \<Rightarrow> 's run_state \<Rightarrow> 's run_state \<Rightarrow> bool" where
  "limit_same Q E st st' \<longleftrightarrow> st = st' \<or>
     (\<exists>c s c' s'. st = Counting c s \<and> st' = Counting c' s' \<and> (s = s' \<or> (Q s \<and> Q s' \<and> E s s')))"

lemma limit_same_equivp: "equivp E \<Longrightarrow> equivp (limit_same Q E)"
proof (rule equivpI)
  assume E: "equivp E"
  show "reflp (limit_same Q E)" by (simp add: reflp_def limit_same_def)
  show "symp (limit_same Q E)" using equivp_symp [OF E] by (auto simp: symp_def limit_same_def)
  show "transp (limit_same Q E)" using equivp_transp [OF E] unfolding transp_def limit_same_def by fastforce
qed

lemma counting_settled:
  assumes "settled Q E fn"
  shows "settled (limit_quiet limit offset Q) (limit_same Q E) (counting limit offset fn)"
  unfolding settled_def
proof (intro conjI allI impI)
  show "equivp (limit_same Q E)" using assms by (simp add: settled_def limit_same_equivp)
next
  fix st row st'
  assume "counting limit offset fn st row = Inr (st', False)"
  then show "limit_quiet limit offset Q st'"
    using assms
    by (auto simp: counting_def limit_quiet_def settled_def bindR_eq_Inr_iff split: run_state.splits if_splits)
next
  fix st row
  assume "limit_quiet limit offset Q st"
  then obtain c s where st: "st = Counting c s" and q: "offset \<le> c" "limit_end limit offset \<le> c \<or> Q s"
    by (auto simp: limit_quiet_def split: run_state.splits)
  show "\<exists>st'. counting limit offset fn st row = Inr (st', False) \<and> limit_quiet limit offset Q st' \<and> limit_same Q E st st'"
  proof (cases "limit_end limit offset < Suc c")
    case True
    then show ?thesis using st q(1) by (auto simp: counting_def limit_quiet_def limit_same_def)
  next
    case False
    with q have "Q s" by auto
    then obtain s' where "fn s row = Inr (s', False)" "Q s'" "E s s'" using settled_quiet [OF assms] by metis
    then show ?thesis using st False q(1) \<open>Q s\<close>
      by (auto simp: counting_def limit_quiet_def limit_same_def)
  qed
qed

text \<open>What \<open>LIMIT\<close> returns to its client.\<close>

definition uncounted :: "'s run_state \<Rightarrow> 's run_state result" where
  "uncounted st = (case st of Counting _ s' \<Rightarrow> Inr s' | _ \<Rightarrow> Inl (Undefined WrongScratchType))"

lemma feed_counting:
  "bindR (feed (counting limit offset fn) rows (Counting c s)) uncounted =
     feed fn (take (limit_end limit offset - max c offset) (drop (offset - c) rows)) s"
proof (induction rows arbitrary: c s)
  case Nil
  then show ?case by (simp add: uncounted_def)
next
  case (Cons row rows)
  consider (skip) "c < offset" | (stop) "offset \<le> c" "limit_end limit offset \<le> c" | (pass) "offset \<le> c" "c < limit_end limit offset"
    by linarith
  then show ?case
  proof cases
    case skip
    then have "max (Suc c) offset = offset" "max c offset = offset" "offset - c = Suc (offset - Suc c)" by simp_all
    then show ?thesis using skip Cons.IH [of "Suc c" s] by (simp add: counting_def)
  next
    case stop
    then have "counting limit offset fn (Counting c s) row = Inr (Counting (Suc c) s, False)" by (simp add: counting_def)
    then show ?thesis using stop by (simp add: uncounted_def)
  next
    case pass
    then have "max c offset = c" "offset - c = 0" by simp_all
    then have t: "take (limit_end limit offset - max c offset) (drop (offset - c) (row # rows)) =
        row # take (limit_end limit offset - max (Suc c) offset) (drop (offset - Suc c) rows)"
      using pass by (cases "limit_end limit offset - c") (auto simp: max_def diff_Suc)
    have step: "counting limit offset fn (Counting c s) row = bindR (fn s row) (\<lambda>(s', more). Inr (Counting (Suc c) s', more))"
      using pass by (simp add: counting_def)
    have stopped: "uncounted (Counting k s') = Inr s'" for k and s' :: "'a run_state" by (simp add: uncounted_def)
    show ?thesis
      unfolding t
    proof (cases "fn s row")
      case (Inr r)
      obtain s' more where "r = (s', more)" by (cases r)
      then show "bindR (feed (counting limit offset fn) (row # rows) (Counting c s)) uncounted =
          feed fn (row # take (limit_end limit offset - max (Suc c) offset) (drop (offset - Suc c) rows)) s"
        using Inr pass Cons.IH [of "Suc c" s'] by (cases more) (simp_all add: step stopped)
    qed (simp add: step)
  qed
qed

lemma similar_uncounted:
  assumes "settled Q E fn" and "similar (limit_quiet limit offset Q) (limit_same Q E) r r'"
  shows "similar Q E (bindR r uncounted) (bindR r' uncounted)"
proof (cases "r = r'")
  case False
  then obtain st st' where st: "r = Inr st" "r' = Inr st'" "limit_quiet limit offset Q st" "limit_same Q E st st'"
    using assms(2) by (auto simp: similar_def)
  have "st \<noteq> st'" using st(1,2) False by simp
  then obtain c s c' s' where "st = Counting c s" "st' = Counting c' s'" "s = s' \<or> (Q s \<and> Q s' \<and> E s s')"
    using st(4) by (auto simp: limit_same_def)
  then show ?thesis using st(1,2) by (auto simp: uncounted_def similar_def)
qed simp

text \<open>The rows a grouping collects are the rows it hands to any client.\<close>

lemma result_loop_feed:
  "result_loop sel gs out collect acc = Inr rows \<Longrightarrow>
     \<exists>new. rows = acc @ new \<and> (\<forall>s. result_loop sel gs out fn s = feed fn new s)"
proof (induction gs arbitrary: out acc)
  case (Cons g gs)
  obtain k insts where g: "g = (k, insts)" by (cases g)
  then obtain row where row: "result_row sel insts out = Inr row" "result_loop sel gs row collect (acc @ [row]) = Inr rows"
    using Cons.prems by (auto simp: result_loop_collect bindR_eq_Inr_iff simp del: result_loop.simps)
  from Cons.IH [OF row(2)] obtain new where "rows = (acc @ [row]) @ new" "\<forall>s. result_loop sel gs row fn s = feed fn new s"
    by blast
  then show ?case using row(1) g by (intro exI [of _ "row # new"]) (simp cong: if_cong)
qed simp

lemma getResult_feed: "getResult order sel gs collect [] = Inr rows \<Longrightarrow> getResult order sel gs fn s = feed fn rows s"
  using result_loop_feed [of sel "order gs" _ "[]" rows fn] by (fastforce simp: getResult_def)

section \<open>Running gives the rows\<close>

lemma mapR_Cons_Inr: "mapR f (x # xs) = Inr ys \<longleftrightarrow> (\<exists>z zs. f x = Inr z \<and> mapR f xs = Inr zs \<and> ys = z # zs)"
  by (auto simp: bindR_eq_Inr_iff)

lemma union_runs:
  assumes "\<And>t s rows. t \<in> set ts \<Longrightarrow> table_rows env t = Inr rows \<Longrightarrow> similar Q E (execute env t fn s) (feed fn rows s)"
    and "settled Q E fn" and "mapR (table_rows env) ts = Inr rss"
  shows "similar Q E (foldR (\<lambda>s t. execute env t fn s) s ts) (feed fn (concat rss) s)"
  using assms(1,3)
proof (induction ts arbitrary: rss s)
  case (Cons t ts)
  obtain rs rest where rs: "table_rows env t = Inr rs" "mapR (table_rows env) ts = Inr rest" "rss = rs # rest"
    using Cons.prems(2) by (auto simp: bindR_eq_Inr_iff)
  have eq: "equivp E" using assms(2) by (simp add: settled_def)
  have first: "similar Q E (execute env t fn s) (feed fn rs s)" using Cons.prems(1) rs(1) by simp
  have a: "similar Q E (foldR (\<lambda>s t. execute env t fn s) s (t # ts)) (bindR (execute env t fn s) (feed fn (concat rest)))"
  proof (cases "execute env t fn s")
    case (Inr s1)
    then show ?thesis using Cons.IH [OF _ rs(2), of s1] Cons.prems(1) by simp
  qed simp
  note b = similar_trans [OF eq a feed_similar [OF assms(2) first]]
  show ?case using similar_trans [OF eq b feed_append_similar [OF assms(2)]] rs(3) by simp
qed simp

lemma groups_of_run:
  assumes "similar (\<lambda>_. False) (=) (execute env src (grouping sel ks) (Grouping [] :: 's run_state))
      (feed (grouping sel ks) rows (Grouping []))"
  shows "groups_of (execute env src (grouping sel ks) (Grouping [] :: 's run_state)) = accumulate_source sel ks rows"
proof -
  have "execute env src (grouping sel ks) (Grouping [] :: 's run_state) =
      bindR (foldR (nextRow sel ks) [] rows) (\<lambda>g. Inr (Grouping g))"
    using similar_never [OF assms] unfolding feed_grouping .
  moreover have "bindR m Inr = m" for m :: "groups result" by (cases m) simp_all
  ultimately show ?thesis by (simp add: groups_of_def accumulate_source_def bindR_assoc)
qed

lemma execute_similar:
  fixes fn :: "'s run_state row_callback"
  shows "table_rows env t = Inr rows \<Longrightarrow> settled Q E fn \<Longrightarrow> similar Q E (execute env t fn s) (feed fn rows s)"
proof (induction env t arbitrary: rows Q E fn s rule: table_rows.induct)
  case (1 env limit offset t)
  then obtain rs where rs: "table_rows env t = Inr rs" "rows = take (limit_end limit offset - offset) (drop offset rs)" by auto
  have "similar (limit_quiet limit offset Q) (limit_same Q E)
      (execute env t (counting limit offset fn) (Counting 0 s)) (feed (counting limit offset fn) rs (Counting 0 s))"
    using 1(1) [OF rs(1) counting_settled [OF 1(3)]] .
  from similar_uncounted [OF 1(3) this] show ?case
    using rs(2) feed_counting [of limit offset fn rs 0 s] by (simp add: uncounted_def [abs_def])
next
  case (2 env specs m t)
  then obtain rs ss where rs: "table_rows env t = Inr rs" "std_sort env (order_less specs) rs = Inr ss" "rows = map (take m) ss"
    by (auto simp: bindR_eq_Inr_iff)
  have "execute env t gathering (Gathering [] :: 's run_state) = Inr (Gathering rs)"
    using similar_never [OF 2(1) [OF rs(1) gathering_settled]] by (simp add: feed_gathering)
  then show ?case using rs by simp
next
  case (3 env names sel ks t)
  then obtain rs where rs: "table_rows env t = Inr rs" "execute_group_by (hash_order env) sel ks rs collect [] = Inr rows"
    by (auto simp: bindR_eq_Inr_iff)
  obtain gs where gs: "accumulate_source sel ks rs = Inr gs" "getResult (hash_order env) sel gs collect [] = Inr rows"
    using rs(2) by (auto simp: execute_group_by_def bindR_eq_Inr_iff)
  show ?case
    using groups_of_run [OF 3(1) [OF rs(1) grouping_settled]] gs(1) getResult_feed [OF gs(2), of fn s] by simp
next
  case (4 env ts)
  let ?shard = "\<lambda>t. case t of GroupBy names sel ks src \<Rightarrow> bindR (table_rows env src) (\<lambda>rows. Inr (sel, accumulate_source sel ks rows))
         | _ \<Rightarrow> Inl (Undefined WrongScratchType)"
  let ?source = "\<lambda>t. case t of GroupBy names sel ks src \<Rightarrow> (sel, groups_of (execute env src (grouping sel ks) (Grouping [] :: 's run_state)))
         | _ \<Rightarrow> ([], Inl (Undefined WrongScratchType))"
  obtain sources gs where src: "mapR ?shard ts = Inr sources" "sources \<noteq> []" "merge_finished env sources = Inr gs"
    "getResult (hash_order env) (fst (hd sources)) gs collect [] = Inr rows"
    using 4(2) by (auto simp: bindR_eq_Inr_iff split: if_splits)
  have shard: "?source t = x" if mem: "t \<in> set ts" and sh: "?shard t = Inr x" for t x
  proof -
    obtain names sel ks src where t: "t = GroupBy names sel ks src" using sh by (cases t) auto
    obtain rs where rs: "table_rows env src = Inr rs" "x = (sel, accumulate_source sel ks rs)"
      using sh t by (auto simp: bindR_eq_Inr_iff)
    show ?thesis using groups_of_run [OF 4(1) [OF mem t rs(1) grouping_settled]] t rs(2) by simp
  qed
  have "map ?source ts' = ys" if "set ts' \<subseteq> set ts" "mapR ?shard ts' = Inr ys" for ts' ys
    using that shard by (induction ts' arbitrary: ys) (auto simp: mapR_Cons_Inr simp del: mapR.simps(2))
  then have "map ?source ts = sources" using src(1) by blast
  then show ?case using src(2,3) getResult_feed [OF src(4), of fn s] by (cases sources) simp_all
next
  case (5 env ts)
  then obtain rss where "mapR (table_rows env) ts = Inr rss" "rows = concat rss" by (auto simp: bindR_eq_Inr_iff)
  then show ?case using union_runs [of ts env Q E fn rss s] 5 by simp
next
  case (6 env names ps)
  then obtain row where row: "mapR (\<lambda>p. vm_evaluate p [] Null) ps = Inr row" "rows = [row]"
    by (auto simp: bindR_eq_Inr_iff)
  show ?case using feed_all_similar [of Q E fn "[row]" s] 6(2) row by (simp del: feed.simps)
next
  case (7 env names)
  then show ?case using feed_all_similar [of Q E fn "[]" s] by (simp add: feed_all_def)
qed (auto intro: feed_all_similar simp del: feed.simps)

section \<open>Properties\<close>

lemma keep_row_settled: "settled (\<lambda>_. False) (=) keep_row"
  by (rule settled_never) (auto simp: keep_row_def split: run_state.splits)

lemma feed_keep_row: "feed keep_row rows (Client acc) = Inr (Client (acc @ rows))"
  by (induction rows arbitrary: acc) (simp_all add: keep_row_def)

text \<open>
  C3. Running a tree of operators with a client that keeps every row gives exactly the rows that the
  relational algebra assigns to the tree: \<open>LIMIT l OFFSET o\<close> drops \<open>o\<close> rows and keeps the next \<open>l\<close> (as
  long as \<open>o + l\<close> does not wrap around at 64 bits),
  \<open>ORDER BY\<close> sorts all rows of its input and cuts them to the output columns, a union concatenates, and
  grouping, merging, selections without a table and the statements about tables give their own rows.
  No counter or buffer of one operator disturbs another, however they are nested.
\<close>

theorem run_table_rows:
  assumes "table_rows env t = Inr rows"
  shows "run_table env t = Inr rows"
  using similar_never [OF execute_similar [OF assms keep_row_settled, of "Client []"]]
  by (simp add: run_table_def feed_keep_row)

theorem run_table_rows_witness:
  "run_table \<lparr>hash_order = (\<lambda>gs. gs), std_sort = (\<lambda>_ rows. Inr rows), listed = [], finished = (\<lambda>xs. xs)\<rparr>
     (LimitClause 2 1 (Union [Scan [''a''] [[Integer 1], [Integer 2]], Scan [''a''] [[Integer 3], [Integer 4]]])) =
     Inr [[Integer 2], [Integer 3]]"
  by (rule run_table_rows) (simp add: limit_end_def)

end
