(* ===== verification/Order_By.thy ===== *)
theory Order_By
  imports Table_Expr_Correct "HOL-Library.Multiset"
begin

text \<open>
  What \<open>ORDER BY\<close> promises (src/csql/runtime/orderby.cc): on columns of comparable values the comparison
  it hands to \<open>std::sort\<close> is a strict weak order, the lexicographic one of the sort columns, so that the
  rows come out sorted. With nulls among numbers it is no strict weak order.
\<close>

section \<open>The contract of \<open>std::sort\<close>\<close>

definition strict_weak :: "('a \<Rightarrow> 'a \<Rightarrow> bool) \<Rightarrow> 'a set \<Rightarrow> bool" where
  "strict_weak lt A \<longleftrightarrow>
     (\<forall>a\<in>A. \<forall>b\<in>A. lt a b \<longrightarrow> \<not> lt b a) \<and>
     (\<forall>a\<in>A. \<forall>b\<in>A. \<forall>c\<in>A. lt a c \<longrightarrow> lt a b \<or> lt b c)"

text \<open>Given a strict weak order on the elements, \<open>std::sort\<close> permutes them so that no later one is less than an earlier.\<close>

definition sorts :: "(('a \<Rightarrow> 'a \<Rightarrow> bool result) \<Rightarrow> 'a list \<Rightarrow> 'a list result) \<Rightarrow> bool" where
  "sorts srt \<longleftrightarrow> (\<forall>cmp lt xs. (\<forall>a\<in>set xs. \<forall>b\<in>set xs. cmp a b = Inr (lt a b)) \<longrightarrow> strict_weak lt (set xs) \<longrightarrow>
     (\<exists>ys. srt cmp xs = Inr ys \<and> mset ys = mset xs \<and> sorted_wrt (\<lambda>a b. \<not> lt b a) ys))"

text \<open>A sort that meets the contract: insertion.\<close>

fun insert_by :: "('a \<Rightarrow> 'a \<Rightarrow> bool result) \<Rightarrow> 'a \<Rightarrow> 'a list \<Rightarrow> 'a list result" where
  "insert_by cmp x [] = Inr [x]"
| "insert_by cmp x (y # ys) =
     bindR (cmp y x) (\<lambda>b. if b then bindR (insert_by cmp x ys) (\<lambda>zs. Inr (y # zs)) else Inr (x # y # ys))"

fun insertion_sort :: "('a \<Rightarrow> 'a \<Rightarrow> bool result) \<Rightarrow> 'a list \<Rightarrow> 'a list result" where
  "insertion_sort cmp [] = Inr []"
| "insertion_sort cmp (x # xs) = bindR (insertion_sort cmp xs) (insert_by cmp x)"

lemma strict_weakI:
  assumes "\<And>a b. a \<in> A \<Longrightarrow> b \<in> A \<Longrightarrow> lt a b \<Longrightarrow> \<not> lt b a"
    and "\<And>a b c. a \<in> A \<Longrightarrow> b \<in> A \<Longrightarrow> c \<in> A \<Longrightarrow> lt a c \<Longrightarrow> \<not> lt a b \<Longrightarrow> lt b c"
  shows "strict_weak lt A"
  unfolding strict_weak_def
proof (intro conjI ballI impI)
  fix a b c assume *: "a \<in> A" "b \<in> A" "c \<in> A" "lt a c"
  show "lt a b \<or> lt b c" using assms(2) [OF *] by blast
qed (rule assms(1))

lemma strict_weak_asym: "strict_weak lt A \<Longrightarrow> a \<in> A \<Longrightarrow> b \<in> A \<Longrightarrow> lt a b \<Longrightarrow> \<not> lt b a"
  by (simp add: strict_weak_def)

lemma strict_weak_split: "strict_weak lt A \<Longrightarrow> a \<in> A \<Longrightarrow> b \<in> A \<Longrightarrow> c \<in> A \<Longrightarrow> lt a c \<Longrightarrow> \<not> lt a b \<Longrightarrow> lt b c"
  unfolding strict_weak_def by blast

lemma strict_weak_subset:
  assumes "strict_weak lt A" and "B \<subseteq> A"
  shows "strict_weak lt B"
proof (rule strict_weakI)
  fix a b assume "a \<in> B" "b \<in> B" "lt a b"
  then show "\<not> lt b a" using strict_weak_asym [OF assms(1)] assms(2) by blast
next
  fix a b c assume "a \<in> B" "b \<in> B" "c \<in> B" and *: "lt a c" "\<not> lt a b"
  then have "a \<in> A" "b \<in> A" "c \<in> A" using assms(2) by blast+
  then show "lt b c" by (rule strict_weak_split [OF assms(1) _ _ _ *])
qed

lemma strict_weak_image: "strict_weak lt (f ` A) \<Longrightarrow> strict_weak (\<lambda>a b. lt (f a) (f b)) A"
  by (rule strict_weakI) (blast intro: imageI dest: strict_weak_asym strict_weak_split)+

lemma strict_weak_flip:
  assumes "strict_weak lt A"
  shows "strict_weak (\<lambda>a b. lt b a) A"
proof (rule strict_weakI)
  fix a b c assume in_A: "a \<in> A" "b \<in> A" "c \<in> A" and "lt c a" "\<not> lt b a"
  then show "lt c b" using strict_weak_split [OF assms in_A(3,2,1)] by blast
qed (rule strict_weak_asym [OF assms])

lemma strict_weak_lex:
  assumes lt: "strict_weak lt A" and lt': "strict_weak lt' A"
  shows "strict_weak (\<lambda>a b. lt a b \<or> \<not> lt a b \<and> \<not> lt b a \<and> lt' a b) A"
proof (rule strict_weakI)
  fix a b assume in_A: "a \<in> A" "b \<in> A" and "lt a b \<or> \<not> lt a b \<and> \<not> lt b a \<and> lt' a b"
  then show "\<not> (lt b a \<or> \<not> lt b a \<and> \<not> lt a b \<and> lt' b a)"
    using strict_weak_asym [OF lt in_A] strict_weak_asym [OF lt' in_A] by blast
next
  fix a b c assume in_A: "a \<in> A" "b \<in> A" "c \<in> A"
    and *: "lt a c \<or> \<not> lt a c \<and> \<not> lt c a \<and> lt' a c" "\<not> (lt a b \<or> \<not> lt a b \<and> \<not> lt b a \<and> lt' a b)"
  note splits = strict_weak_split [OF lt in_A] strict_weak_split [OF lt in_A(2,1,3)] strict_weak_split [OF lt in_A(2,3,1)]
    strict_weak_split [OF lt in_A(3,2,1)] strict_weak_split [OF lt' in_A] strict_weak_split [OF lt in_A(3,1,2)]
  show "lt b c \<or> \<not> lt b c \<and> \<not> lt c b \<and> lt' b c"
    using * splits by satx
qed

lemma insert_by_correct:
  assumes "\<forall>a\<in>set (x # ys). \<forall>b\<in>set (x # ys). cmp a b = Inr (lt a b)" "strict_weak lt (set (x # ys))"
    and "sorted_wrt (\<lambda>a b. \<not> lt b a) ys"
  shows "\<exists>zs. insert_by cmp x ys = Inr zs \<and> mset zs = mset (x # ys) \<and> sorted_wrt (\<lambda>a b. \<not> lt b a) zs"
  using assms
proof (induction ys)
  case (Cons y ys)
  have cmp: "cmp y x = Inr (lt y x)" using Cons.prems(1) by simp
  show ?case
  proof (cases "lt y x")
    case True
    have "strict_weak lt (set (x # ys))" by (rule strict_weak_subset [OF Cons.prems(2)]) auto
    then obtain zs where zs: "insert_by cmp x ys = Inr zs" "mset zs = mset (x # ys)" "sorted_wrt (\<lambda>a b. \<not> lt b a) zs"
      using Cons.IH Cons.prems(1,3) by auto
    have "set zs = insert x (set ys)" using mset_eq_setD [OF zs(2)] by simp
    moreover have "\<not> lt x y" using True Cons.prems(2) by (auto simp: strict_weak_def)
    ultimately have "sorted_wrt (\<lambda>a b. \<not> lt b a) (y # zs)" using zs(3) Cons.prems(3) by auto
    then show ?thesis using cmp True zs by simp
  next
    case False
    have "\<not> lt z x" if "z \<in> set ys" for z
      using Cons.prems(3) that False strict_weak_split [OF Cons.prems(2), of z y x] by auto
    then show ?thesis using cmp False Cons.prems(3) by simp
  qed
qed simp

lemma insertion_sort_sorts: "sorts insertion_sort"
  unfolding sorts_def
proof (intro allI impI)
  fix cmp :: "'a \<Rightarrow> 'a \<Rightarrow> bool result" and lt xs
  assume "\<forall>a\<in>set xs. \<forall>b\<in>set xs. cmp a b = Inr (lt a b)" and "strict_weak lt (set xs)"
  then show "\<exists>ys. insertion_sort cmp xs = Inr ys \<and> mset ys = mset xs \<and> sorted_wrt (\<lambda>a b. \<not> lt b a) ys"
  proof (induction xs)
    case (Cons x xs)
    have "strict_weak lt (set xs)" by (rule strict_weak_subset [OF Cons.prems(2)]) auto
    then obtain ys where ys: "insertion_sort cmp xs = Inr ys" "mset ys = mset xs" "sorted_wrt (\<lambda>a b. \<not> lt b a) ys"
      using Cons.IH Cons.prems(1) by auto
    have "set ys = set xs" by (rule mset_eq_setD [OF ys(2)])
    then show ?case using insert_by_correct [of x ys cmp lt] Cons.prems ys by simp
  qed simp
qed

section \<open>The order of rows\<close>

fun value_less :: "svalue \<Rightarrow> svalue \<Rightarrow> bool" where
  "value_less (Str a) (Str b) = str_less a b"
| "value_less (Flt a) (Flt b) = (dbl_key a < dbl_key b)"
| "value_less (Integer a) (Integer b) = (int64 a < int64 b)"
| "value_less (Integer a) (Timestamp b) = (int64 a < int64 b)"
| "value_less (Timestamp a) (Integer b) = (int64 a < int64 b)"
| "value_less (Timestamp a) (Timestamp b) = (int64 a < int64 b)"
| "value_less _ _ = False"

text \<open>A column whose values can be sorted: strings, numbers, whole numbers and times, or nothing but nulls.\<close>

definition sortable :: "svalue set \<Rightarrow> bool" where
  "sortable A \<longleftrightarrow> A \<subseteq> range Str \<or> A \<subseteq> Flt ` {x. \<not> is_nan x} \<or> A \<subseteq> range Integer \<union> range Timestamp \<or> A \<subseteq> {Null}"

text \<open>Rows by their sort columns, the first one first.\<close>

fun row_less :: "sort_spec list \<Rightarrow> svalue list \<Rightarrow> svalue list \<Rightarrow> bool" where
  "row_less [] a b = False"
| "row_less (s # ss) a b =
     (let l = a ! sort_column s; r = b ! sort_column s in
        (if sort_descending s then value_less r l else value_less l r) \<or>
        \<not> value_less l r \<and> \<not> value_less r l \<and> row_less ss a b)"

definition sortable_rows :: "sort_spec list \<Rightarrow> svalue list list \<Rightarrow> bool" where
  "sortable_rows specs rows \<longleftrightarrow>
     (\<forall>s\<in>set specs. (\<forall>row\<in>set rows. sort_column s < length row) \<and> sortable ((\<lambda>row. row ! sort_column s) ` set rows))"

lemma str_less_trans: "str_less a b \<Longrightarrow> str_less b c \<Longrightarrow> str_less a c"
proof (induction a c arbitrary: b rule: str_less.induct)
  case (4 x xs y ys)
  then show ?case by (cases b) auto
qed (auto elim: str_less.elims)

lemma str_less_split: "str_less a c \<Longrightarrow> str_less a b \<or> str_less b c"
  using str_trichotomy [of a b] str_less_trans by blast

lemma value_strict_weak: "sortable A \<Longrightarrow> strict_weak value_less A"
proof -
  have "strict_weak value_less (range Str)" by (rule strict_weakI) (auto dest: str_less_asym str_less_split)
  moreover have "strict_weak value_less (Flt ` {x. \<not> is_nan x})" by (rule strict_weakI) auto
  moreover have "strict_weak value_less (range Integer \<union> range Timestamp)" by (rule strict_weakI) auto
  moreover have "strict_weak value_less {Null}" by (rule strict_weakI) auto
  moreover assume "sortable A"
  ultimately show ?thesis unfolding sortable_def by (elim disjE) (erule (1) strict_weak_subset)+
qed

lemma value_comparison:
  assumes "sortable A" and "l \<in> A" and "r \<in> A"
  shows "ltExpr [l, r] out = Inr (Bool (value_less l r))"
    and "gtExpr [l, r] out = Inr (Bool (value_less r l))"
    and "eqExpr [l, r] out = Inr (Bool (\<not> value_less l r \<and> \<not> value_less r l))"
proof -
  let ?claims = "ltExpr [l, r] out = Inr (Bool (value_less l r)) \<and> gtExpr [l, r] out = Inr (Bool (value_less r l)) \<and>
    eqExpr [l, r] out = Inr (Bool (\<not> value_less l r \<and> \<not> value_less r l))"
  consider (texts) a b where "l = Str a" "r = Str b" | (floats) x y where "l = Flt x" "r = Flt y" "\<not> is_nan x" "\<not> is_nan y"
    | (whole) "type_of l \<in> {T_Integer, T_Timestamp}" "type_of r \<in> {T_Integer, T_Timestamp}" | (null) "l = Null" "r = Null"
  proof -
    have "l \<in> range Str \<and> r \<in> range Str \<or> l \<in> Flt ` {x. \<not> is_nan x} \<and> r \<in> Flt ` {x. \<not> is_nan x} \<or>
      l \<in> range Integer \<union> range Timestamp \<and> r \<in> range Integer \<union> range Timestamp \<or> l = Null \<and> r = Null"
      using assms unfolding sortable_def by blast
    then show thesis
    proof (elim disjE conjE)
      assume "l \<in> range Str" "r \<in> range Str"
      then show thesis by (elim rangeE) (rule texts)
    next
      assume "l \<in> Flt ` {x. \<not> is_nan x}" "r \<in> Flt ` {x. \<not> is_nan x}"
      then show thesis using floats by (elim imageE) simp
    next
      assume "l \<in> range Integer \<union> range Timestamp" "r \<in> range Integer \<union> range Timestamp"
      then show thesis by (intro whole) (elim UnE rangeE; simp)+
    qed (rule null)
  qed
  then have ?claims
  proof cases
    case texts
    have "a = b \<longleftrightarrow> \<not> str_less a b \<and> \<not> str_less b a" using str_trichotomy [of a b] str_less_irrefl by blast
    then show ?thesis using texts by (simp add: comparison_defs compare_text_def)
  next
    case floats
    then show ?thesis
      by (auto simp: comparison_defs compare_floats_def getFloat_def dbl_lt_def dbl_eq_def)
  next
    case whole
    then show ?thesis
      by (cases l; cases r) (auto simp: comparison_defs compare_integers_def getInteger_def int64_eq_iff [symmetric])
  next
    case null
    then show ?thesis by (simp add: comparison_defs)
  qed
  then show "ltExpr [l, r] out = Inr (Bool (value_less l r))" "gtExpr [l, r] out = Inr (Bool (value_less r l))"
    "eqExpr [l, r] out = Inr (Bool (\<not> value_less l r \<and> \<not> value_less r l))" by blast+
qed

lemma order_less_is_row_less:
  assumes "sortable_rows specs rows" and "a \<in> set rows" and "b \<in> set rows"
  shows "order_less specs a b = Inr (row_less specs a b)"
  using assms(1)
proof (induction specs)
  case (Cons s ss)
  let ?l = "a ! sort_column s" and ?r = "b ! sort_column s"
  have s: "sort_column s < length a" "sort_column s < length b" "sortable ((\<lambda>row. row ! sort_column s) ` set rows)"
    and ss: "sortable_rows ss rows"
    using Cons.prems assms(2,3) by (auto simp: sortable_rows_def)
  note compare = value_comparison [OF s(3) imageI [OF assms(2)] imageI [OF assms(3)]]
  have "value_less ?l ?r \<Longrightarrow> \<not> value_less ?r ?l"
    using strict_weak_asym [OF value_strict_weak [OF s(3)] imageI [OF assms(2)] imageI [OF assms(3)]] .
  then show ?case
    using s(1,2) compare Cons.IH [OF ss]
    by (cases "value_less ?l ?r"; cases "value_less ?r ?l"; cases "sort_descending s") (simp_all add: elemR_def getBool_def)
qed simp

lemma row_strict_weak: "sortable_rows specs rows \<Longrightarrow> strict_weak (row_less specs) (set rows)"
proof (induction specs)
  case (Cons s ss)
  let ?lt = "\<lambda>a b. value_less (a ! sort_column s) (b ! sort_column s)"
  have rest: "strict_weak (row_less ss) (set rows)" using Cons by (simp add: sortable_rows_def)
  have column: "strict_weak ?lt (set rows)"
    using Cons.prems strict_weak_image [of value_less "\<lambda>row. row ! sort_column s", OF value_strict_weak]
    by (simp add: sortable_rows_def)
  show ?case
  proof (cases "sort_descending s")
    case True
    then have "row_less (s # ss) = (\<lambda>a b. ?lt b a \<or> \<not> ?lt b a \<and> \<not> ?lt a b \<and> row_less ss a b)"
      by (auto simp: fun_eq_iff Let_def)
    then show ?thesis using strict_weak_lex [OF strict_weak_flip [OF column] rest] by simp
  next
    case False
    then have "row_less (s # ss) = (\<lambda>a b. ?lt a b \<or> \<not> ?lt a b \<and> \<not> ?lt b a \<and> row_less ss a b)"
      by (auto simp: fun_eq_iff Let_def)
    then show ?thesis using strict_weak_lex [OF column rest] by simp
  qed
qed (simp add: strict_weak_def)

section \<open>Properties\<close>

text \<open>
  C26. \<open>ORDER BY\<close> sorts: when every sort column exists in every row and its values can be compared, the
  operator yields exactly the rows of its input, none lost or invented, cut to the output columns and
  ordered lexicographically by the sort columns, each ascending or descending as asked. The comparison
  handed to \<open>std::sort\<close> never fails and is a strict weak order, as its contract demands.
\<close>

theorem order_by_sorts:
  assumes "sorts (std_sort env)" and "table_rows env t = Inr rows" and "sortable_rows specs rows"
  shows "\<exists>sorted_rows. run_table env (OrderBy specs m t) = Inr (map (take m) sorted_rows) \<and>
    mset sorted_rows = mset rows \<and> sorted_wrt (\<lambda>a b. \<not> row_less specs b a) sorted_rows"
proof -
  have "\<forall>a\<in>set rows. \<forall>b\<in>set rows. order_less specs a b = Inr (row_less specs a b)"
    using order_less_is_row_less [OF assms(3)] by blast
  then obtain ys where ys: "std_sort env (order_less specs) rows = Inr ys" "mset ys = mset rows"
    "sorted_wrt (\<lambda>a b. \<not> row_less specs b a) ys"
    using assms(1) row_strict_weak [OF assms(3)] unfolding sorts_def by blast
  have "table_rows env (OrderBy specs m t) = Inr (map (take m) ys)" using assms(2) ys(1) by simp
  then have "run_table env (OrderBy specs m t) = Inr (map (take m) ys)"
    using similar_never [OF execute_similar [OF _ keep_row_settled, of env "OrderBy specs m t" _ "Client []"]]
    by (simp add: run_table_def feed_keep_row)
  then show ?thesis using ys(2,3) by blast
qed

definition sort_environment :: environment where
  "sort_environment = \<lparr>hash_order = (\<lambda>gs. gs), std_sort = insertion_sort, listed = [], finished = (\<lambda>xs. xs)\<rparr>"

theorem order_by_sorts_witness:
  "\<exists>sorted_rows. run_table sort_environment
      (OrderBy [\<lparr>sort_column = 0, sort_descending = True\<rparr>] 1 (Scan [''a'', ''b''] [[Integer 1, Null], [Integer 2, Null]])) =
      Inr (map (take 1) sorted_rows) \<and>
    mset sorted_rows = {#[Integer 1, Null], [Integer 2, Null]#} \<and>
    sorted_wrt (\<lambda>a b. \<not> row_less [\<lparr>sort_column = 0, sort_descending = True\<rparr>] b a) sorted_rows"
  using order_by_sorts [of sort_environment "Scan [''a'', ''b''] [[Integer 1, Null], [Integer 2, Null]]"
    "[[Integer 1, Null], [Integer 2, Null]]" "[\<lparr>sort_column = 0, sort_descending = True\<rparr>]" 1]
  by (auto simp: sort_environment_def insertion_sort_sorts sortable_rows_def sortable_def)

text \<open>
  C37. With a null and a zero in the first of two sort columns the comparison is no strict weak order: the
  null row ties with both zero rows, whatever their second columns, although one of these is less than
  the other. \<open>std::sort\<close> is undefined on it.
\<close>

theorem order_by_null_not_strict_weak:
  assumes "int64 x < int64 y"
  shows "let lt = order_less [\<lparr>sort_column = 0, sort_descending = False\<rparr>, \<lparr>sort_column = 1, sort_descending = False\<rparr>] in
    lt [Integer 0, Integer x] [Null, v] = Inr False \<and> lt [Null, v] [Integer 0, Integer x] = Inr False \<and>
    lt [Integer 0, Integer y] [Null, v] = Inr False \<and> lt [Null, v] [Integer 0, Integer y] = Inr False \<and>
    lt [Integer 0, Integer x] [Integer 0, Integer y] = Inr True"
proof -
  have zero: "\<not> dbl_lt (dbl_of_int 0) (dbl_of_int 0)" by (simp add: dbl_lt_def)
  show ?thesis using assms zero
    by (simp add: comparison_defs compare_integers_def getInteger_def getFloat_def elemR_def Let_def)
qed

theorem order_by_null_not_strict_weak_witness:
  "order_less [\<lparr>sort_column = 0, sort_descending = False\<rparr>, \<lparr>sort_column = 1, sort_descending = False\<rparr>]
     [Null, Null] [Integer 0, Integer 1] = Inr False"
  using order_by_null_not_strict_weak [of 1 2 Null] by (simp add: Let_def)

end
