(* ===== verification/Column.thy ===== *)
theory Column
  imports Streams Double
begin

text \<open>
  Columns of a columnar table: src/cstable (\<open>ColumnWriter\<close>, \<open>ColumnReader\<close> and their classes for each
  type), \<open>BitPackEncoder\<close> and \<open>BitPackDecoder\<close>, and \<open>BinaryMessageReader\<close>. A column holds, for each of its
  values, a repetition level, a definition level and, when the definition level is the greatest, a datum.
  The levels go through the bit packing of the simdcomp library, which works on blocks of 128 numbers;
  the library is a parameter.
\<close>

section \<open>Memory\<close>

text \<open>
  Bytes from a position on: what there is, and how many bytes the reader takes to be there. A read is
  checked against the latter.
\<close>

record memory =
  contents :: "byte list"
  limit :: nat

definition message_read :: "nat \<Rightarrow> memory \<Rightarrow> (byte list \<times> memory) result" where
  "message_read n m =
     (if limit m < n then Inl (Raise BufferOverflowError)
      else if length (contents m) < n then Inl (Undefined ReadOutOfBounds)
      else Inr (take n (contents m), \<lparr>contents = drop n (contents m), limit = limit m - n\<rparr>))"

definition message_readUInt16 :: "memory \<Rightarrow> (16 word \<times> memory) result" where
  "message_readUInt16 m = bindR (message_read 2 m) (\<lambda>(bs, m'). Inr (ucast (le_value bs), m'))"

definition message_readUInt32 :: "memory \<Rightarrow> (32 word \<times> memory) result" where
  "message_readUInt32 m = bindR (message_read 4 m) (\<lambda>(bs, m'). Inr (ucast (le_value bs), m'))"

definition message_readUInt64 :: "memory \<Rightarrow> (64 word \<times> memory) result" where
  "message_readUInt64 m = bindR (message_read 8 m) (\<lambda>(bs, m'). Inr (le_value bs, m'))"

text \<open>The loop ends: from the eleventh byte on its shift has no meaning.\<close>

function message_read_var :: "nat \<Rightarrow> 64 word \<Rightarrow> memory \<Rightarrow> (64 word \<times> memory) result" where
  "message_read_var i val m =
     bindR (message_read 1 m) (\<lambda>(bs, m').
       if 64 \<le> 7 * i then Inl (Undefined ShiftOutOfRange)
       else
         (let b = hd bs; val' = or val (push_bit (7 * i) (ucast (and b 127))) in
          if and b 128 = 0 then Inr (val', m') else message_read_var (Suc i) val' m'))"
  by pat_completeness auto

termination
  by (relation "measure (\<lambda>(i, _, _). 10 - i)") auto

declare message_read_var.simps [simp del]

definition message_readVarUInt :: "memory \<Rightarrow> (64 word \<times> memory) result" where
  "message_readVarUInt m = message_read_var 0 0 m"

section \<open>Bit packing\<close>

text \<open>The two functions of simdcomp: 128 numbers of a given width, as 16 bytes for every bit of it.\<close>

record simdcomp =
  simdpack :: "nat \<Rightarrow> 32 word list \<Rightarrow> byte list"
  simdunpack :: "nat \<Rightarrow> byte list \<Rightarrow> 32 word list"

definition packs :: "simdcomp \<Rightarrow> bool" where
  "packs lib \<longleftrightarrow> (\<forall>n xs. 0 < n \<longrightarrow> n \<le> 32 \<longrightarrow> length xs = 128 \<longrightarrow>
     length (simdpack lib n xs) = 16 * n \<and>
     ((\<forall>x\<in>set xs. unat x < 2 ^ n) \<longrightarrow> simdunpack lib n (simdpack lib n xs) = xs))"

definition bits :: "32 word \<Rightarrow> nat" where
  "bits v = bit_len (unat v)"

record bit_pack_encoder =
  enc_bits :: nat
  inbuf :: "32 word list"
  outbuf :: "byte list"

definition new_encoder :: "32 word \<Rightarrow> bit_pack_encoder" where
  "new_encoder max_val = \<lparr>enc_bits = (if 0 < max_val then bits max_val else 0), inbuf = [], outbuf = []\<rparr>"

definition flush :: "simdcomp \<Rightarrow> bit_pack_encoder \<Rightarrow> bit_pack_encoder" where
  "flush lib e =
     (if inbuf e = [] then e
      else e\<lparr>inbuf := [],
             outbuf := outbuf e @ simdpack lib (enc_bits e) (inbuf e @ replicate (128 - length (inbuf e)) 0)\<rparr>)"

definition encode_level :: "simdcomp \<Rightarrow> 32 word \<Rightarrow> bit_pack_encoder \<Rightarrow> bit_pack_encoder" where
  "encode_level lib v e =
     (if enc_bits e = 0 then e
      else let e' = e\<lparr>inbuf := inbuf e @ [v]\<rparr> in if length (inbuf e') = 128 then flush lib e' else e')"

text \<open>The numbers that are unpacked and not handed out yet, and the packed blocks behind them.\<close>

record bit_pack_decoder =
  dec_bits :: nat
  unpacked :: "32 word list"
  packed :: memory

definition new_decoder :: "32 word \<Rightarrow> memory \<Rightarrow> bit_pack_decoder" where
  "new_decoder max_val m = \<lparr>dec_bits = (if 0 < max_val then bits max_val else 0), unpacked = [], packed = m\<rparr>"

definition fetch :: "simdcomp \<Rightarrow> bool \<Rightarrow> bit_pack_decoder \<Rightarrow> (32 word \<times> bit_pack_decoder) result" where
  "fetch lib advance d =
     (if dec_bits d = 0 then Inr (0, d)
      else case unpacked d of
        x # xs \<Rightarrow> Inr (x, if advance then d\<lparr>unpacked := xs\<rparr> else d)
      | [] \<Rightarrow>
          (if limit (packed d) < 16 * dec_bits d \<and> \<not> advance then Inr (0, d)
           else bindR (message_read (16 * dec_bits d) (packed d)) (\<lambda>(bs, m).
             case simdunpack lib (dec_bits d) bs of
               [] \<Rightarrow> Inl (Undefined ReadOutOfBounds)
             | x # xs \<Rightarrow> Inr (x, d\<lparr>packed := m, unpacked := (if advance then xs else x # xs)\<rparr>))))"

section \<open>Column writers\<close>

datatype column_type =
    C_BOOLEAN
  | C_UINT32_BITPACKED "32 word"
  | C_UINT32_PLAIN
  | C_UINT64_PLAIN
  | C_UINT64_LEB128
  | C_DOUBLE
  | C_STRING_PLAIN

fun column_tag :: "column_type \<Rightarrow> byte" where
  "column_tag C_BOOLEAN = 1"
| "column_tag (C_UINT32_BITPACKED _) = 10"
| "column_tag C_UINT32_PLAIN = 11"
| "column_tag C_UINT64_PLAIN = 12"
| "column_tag C_UINT64_LEB128 = 13"
| "column_tag C_DOUBLE = 14"
| "column_tag C_STRING_PLAIN = 100"

text \<open>The data writer of a column: a bit packer for truth values and packed numbers, bytes for the others.\<close>

record column_writer =
  w_type :: column_type
  w_r_max :: "64 word"
  w_d_max :: "64 word"
  rlvl_writer :: bit_pack_encoder
  dlvl_writer :: bit_pack_encoder
  num_vals :: "64 word"
  data_packer :: bit_pack_encoder
  data_bytes :: "byte list"

definition new_writer :: "column_type \<Rightarrow> 64 word \<Rightarrow> 64 word \<Rightarrow> column_writer" where
  "new_writer ty r d =
     \<lparr>w_type = ty, w_r_max = r, w_d_max = d, rlvl_writer = new_encoder (ucast r), dlvl_writer = new_encoder (ucast d),
      num_vals = 0,
      data_packer = new_encoder (case ty of C_BOOLEAN \<Rightarrow> 1 | C_UINT32_BITPACKED m \<Rightarrow> m | _ \<Rightarrow> 0), data_bytes = []\<rparr>"

definition addNull :: "simdcomp \<Rightarrow> 64 word \<Rightarrow> 64 word \<Rightarrow> column_writer \<Rightarrow> column_writer" where
  "addNull lib r d w =
     w\<lparr>rlvl_writer := encode_level lib (ucast r) (rlvl_writer w),
       dlvl_writer := encode_level lib (ucast d) (dlvl_writer w),
       num_vals := num_vals w + 1\<rparr>"

text \<open>
  \<open>addDatum\<close> takes a pointer and a size: bytes. Each class checks the size it expects; a string of any
  size is stored behind its length in 32 bits.
\<close>

definition boolean_addDatum :: "simdcomp \<Rightarrow> byte list \<Rightarrow> column_writer \<Rightarrow> column_writer result" where
  "boolean_addDatum lib bs w =
     (if length bs \<noteq> 1 then Inl (Raise IllegalArgumentError)
      else Inr (w\<lparr>data_packer := encode_level lib (if 0 < hd bs then 1 else 0) (data_packer w)\<rparr>))"

definition bitpacked_addDatum :: "simdcomp \<Rightarrow> byte list \<Rightarrow> column_writer \<Rightarrow> column_writer result" where
  "bitpacked_addDatum lib bs w =
     (if length bs \<noteq> 4 then Inl (Raise IllegalArgumentError)
      else Inr (w\<lparr>data_packer := encode_level lib (ucast (le_value bs)) (data_packer w)\<rparr>))"

definition uint32_addDatum :: "byte list \<Rightarrow> column_writer \<Rightarrow> column_writer result" where
  "uint32_addDatum bs w =
     (if length bs \<noteq> 4 then Inl (Raise IllegalArgumentError)
      else Inr (w\<lparr>data_bytes := data_bytes w @ appendUInt32 (ucast (le_value bs))\<rparr>))"

definition uint64_addDatum :: "byte list \<Rightarrow> column_writer \<Rightarrow> column_writer result" where
  "uint64_addDatum bs w =
     (if length bs \<noteq> 8 then Inl (Raise IllegalArgumentError)
      else Inr (w\<lparr>data_bytes := data_bytes w @ appendUInt64 (le_value bs)\<rparr>))"

definition leb128_addDatum :: "byte list \<Rightarrow> column_writer \<Rightarrow> column_writer result" where
  "leb128_addDatum bs w =
     (if length bs \<noteq> 4 \<and> length bs \<noteq> 8 then Inl (Raise IllegalArgumentError)
      else Inr (w\<lparr>data_bytes := data_bytes w @ appendVarUInt (le_value bs)\<rparr>))"

definition double_addDatum :: "byte list \<Rightarrow> column_writer \<Rightarrow> column_writer result" where
  "double_addDatum bs w =
     (if length bs \<noteq> 8 then Inl (Raise IllegalArgumentError)
      else Inr (w\<lparr>data_bytes := data_bytes w @ appendDouble (le_value bs)\<rparr>))"

definition string_addDatum :: "byte list \<Rightarrow> column_writer \<Rightarrow> column_writer result" where
  "string_addDatum bs w = Inr (w\<lparr>data_bytes := data_bytes w @ appendUInt32 (of_nat (length bs)) @ bs\<rparr>)"

text \<open>Every class encodes the two levels and counts the value, as \<open>addNull\<close> does, then stores its datum.\<close>

definition addDatum :: "simdcomp \<Rightarrow> 64 word \<Rightarrow> 64 word \<Rightarrow> byte list \<Rightarrow> column_writer \<Rightarrow> column_writer result" where
  "addDatum lib r d bs w =
     (let w' = addNull lib r d w in
      case w_type w of
        C_BOOLEAN \<Rightarrow> boolean_addDatum lib bs w'
      | C_UINT32_BITPACKED _ \<Rightarrow> bitpacked_addDatum lib bs w'
      | C_UINT32_PLAIN \<Rightarrow> uint32_addDatum bs w'
      | C_UINT64_PLAIN \<Rightarrow> uint64_addDatum bs w'
      | C_UINT64_LEB128 \<Rightarrow> leb128_addDatum bs w'
      | C_DOUBLE \<Rightarrow> double_addDatum bs w'
      | C_STRING_PLAIN \<Rightarrow> string_addDatum bs w')"

lemmas addDatum_defs = addDatum_def boolean_addDatum_def bitpacked_addDatum_def uint32_addDatum_def
  uint64_addDatum_def leb128_addDatum_def double_addDatum_def string_addDatum_def

definition packs_data :: "column_type \<Rightarrow> bool" where
  "packs_data ty \<longleftrightarrow> (case ty of C_BOOLEAN \<Rightarrow> True | C_UINT32_BITPACKED _ \<Rightarrow> True | _ \<Rightarrow> False)"

definition commit_column :: "simdcomp \<Rightarrow> column_writer \<Rightarrow> column_writer" where
  "commit_column lib w =
     (let w' = w\<lparr>rlvl_writer := flush lib (rlvl_writer w), dlvl_writer := flush lib (dlvl_writer w)\<rparr> in
      if packs_data (w_type w) then w'\<lparr>data_packer := flush lib (data_packer w)\<rparr> else w')"

text \<open>
  What \<open>write\<close> appends for the data, and what \<open>size\<close> promises: for plain numbers and doubles it
  promises one number more, whose bytes keep whatever the buffer held.
\<close>

definition data_section :: "column_writer \<Rightarrow> byte list" where
  "data_section w = (case w_type w of
      C_BOOLEAN \<Rightarrow> outbuf (data_packer w)
    | C_UINT32_BITPACKED m \<Rightarrow> appendUInt32 m @ outbuf (data_packer w)
    | _ \<Rightarrow> data_bytes w)"

definition spare_size :: "column_type \<Rightarrow> nat" where
  "spare_size ty = (case ty of C_UINT32_PLAIN \<Rightarrow> 4 | C_UINT64_PLAIN \<Rightarrow> 8 | C_DOUBLE \<Rightarrow> 8 | _ \<Rightarrow> 0)"

definition data_size :: "column_writer \<Rightarrow> nat" where
  "data_size w = length (data_section w) + spare_size (w_type w)"

definition bodySize :: "column_writer \<Rightarrow> nat" where
  "bodySize w = 32 + length (outbuf (rlvl_writer w)) + length (outbuf (dlvl_writer w)) + data_size w"

text \<open>\<open>ColumnWriter::write\<close> into a fresh buffer of \<open>bodySize\<close> bytes; \<open>junk\<close> is what the buffer held.\<close>

definition column_body :: "(nat \<Rightarrow> byte list) \<Rightarrow> column_writer \<Rightarrow> byte list" where
  "column_body junk w =
     appendUInt64 (num_vals w) @ appendUInt64 (of_nat (length (outbuf (rlvl_writer w)))) @
     appendUInt64 (of_nat (length (outbuf (dlvl_writer w)))) @ appendUInt64 (of_nat (data_size w)) @
     outbuf (rlvl_writer w) @ outbuf (dlvl_writer w) @ data_section w @ junk (spare_size (w_type w))"

section \<open>Column readers\<close>

record column_reader =
  r_type :: column_type
  r_max :: "64 word"
  d_max :: "64 word"
  vals_total :: "64 word"
  vals_read :: "64 word"
  rlvl_reader :: bit_pack_decoder
  dlvl_reader :: bit_pack_decoder
  data_unpacker :: bit_pack_decoder
  data_reader :: memory

text \<open>A pointer \<open>n\<close> bytes further, with \<open>k\<close> bytes taken to be there.\<close>

definition region :: "nat \<Rightarrow> nat \<Rightarrow> byte list \<Rightarrow> memory" where
  "region n k bs = \<lparr>contents = drop n bs, limit = k\<rparr>"

text \<open>
  The constructors of the readers. \<open>tag\<close> is the type in the file; the reader of packed numbers finds their
  bound in front of them.
\<close>

definition type_of_tag :: "byte \<Rightarrow> column_type option" where
  "type_of_tag t =
     (if t = 1 then Some C_BOOLEAN else if t = 10 then Some (C_UINT32_BITPACKED 0) else if t = 11 then Some C_UINT32_PLAIN
      else if t = 12 then Some C_UINT64_PLAIN else if t = 13 then Some C_UINT64_LEB128 else if t = 14 then Some C_DOUBLE
      else if t = 100 then Some C_STRING_PLAIN else None)"

definition new_reader :: "column_type \<Rightarrow> 64 word \<Rightarrow> 64 word \<Rightarrow> byte list \<Rightarrow> nat \<Rightarrow> column_reader result" where
  "new_reader ty r d bs n =
     bindR (message_readUInt64 (region 0 n bs)) (\<lambda>(total, m1).
     bindR (message_readUInt64 m1) (\<lambda>(rsize, m2).
     bindR (message_readUInt64 m2) (\<lambda>(dsize, m3).
     bindR (message_readUInt64 m3) (\<lambda>(size, m4).
       let start = 32 + unat rsize + unat dsize;
           reader = \<lparr>r_type = ty, r_max = r, d_max = d, vals_total = total, vals_read = 0,
              rlvl_reader = new_decoder (ucast r) (region 32 (unat rsize) bs),
              dlvl_reader = new_decoder (ucast d) (region (32 + unat rsize) (unat dsize) bs),
              data_unpacker = new_decoder 1 (region start (unat size) bs),
              data_reader = region start (unat size) bs\<rparr> in
       case ty of
         C_UINT32_BITPACKED _ \<Rightarrow>
           bindR (message_read 4 \<lparr>contents = drop start bs, limit = 4\<rparr>) (\<lambda>(mx, _).
             let m = ucast (le_value mx) in
             Inr (reader\<lparr>r_type := C_UINT32_BITPACKED m,
               data_unpacker := new_decoder m (region (start + 4) (unat (size - 4)) bs)\<rparr>))
       | _ \<Rightarrow> Inr reader))))"

text \<open>The datum, as the bytes the pointer and the size that \<open>next\<close> hands out describe.\<close>

type_synonym datum_reader = "column_reader \<Rightarrow> (byte list \<times> column_reader) result"

definition boolean_next :: "simdcomp \<Rightarrow> datum_reader" where
  "boolean_next lib c =
     bindR (fetch lib True (data_unpacker c)) (\<lambda>(v, u). Inr ([if v \<noteq> 0 then 1 else 0], c\<lparr>data_unpacker := u\<rparr>))"

definition bitpacked_next :: "simdcomp \<Rightarrow> datum_reader" where
  "bitpacked_next lib c =
     bindR (fetch lib True (data_unpacker c)) (\<lambda>(v, u). Inr (appendUInt32 v, c\<lparr>data_unpacker := u\<rparr>))"

definition uint32_next :: datum_reader where
  "uint32_next c = bindR (message_readUInt32 (data_reader c)) (\<lambda>(v, m). Inr (appendUInt32 v, c\<lparr>data_reader := m\<rparr>))"

definition uint64_next :: datum_reader where
  "uint64_next c = bindR (message_readUInt64 (data_reader c)) (\<lambda>(v, m). Inr (appendUInt64 v, c\<lparr>data_reader := m\<rparr>))"

definition leb128_next :: datum_reader where
  "leb128_next c = bindR (message_readVarUInt (data_reader c)) (\<lambda>(v, m). Inr (appendUInt64 v, c\<lparr>data_reader := m\<rparr>))"

definition double_next :: datum_reader where
  "double_next c = bindR (message_readUInt64 (data_reader c)) (\<lambda>(v, m). Inr (appendDouble v, c\<lparr>data_reader := m\<rparr>))"

definition string_next :: datum_reader where
  "string_next c =
     bindR (message_readUInt32 (data_reader c)) (\<lambda>(n, m).
     bindR (message_read (unat n) m) (\<lambda>(bs, m'). Inr (bs, c\<lparr>data_reader := m'\<rparr>)))"

definition next_datum :: "simdcomp \<Rightarrow> datum_reader" where
  "next_datum lib c = (case r_type c of
      C_BOOLEAN \<Rightarrow> boolean_next lib c
    | C_UINT32_BITPACKED _ \<Rightarrow> bitpacked_next lib c
    | C_UINT32_PLAIN \<Rightarrow> uint32_next c
    | C_UINT64_PLAIN \<Rightarrow> uint64_next c
    | C_UINT64_LEB128 \<Rightarrow> leb128_next c
    | C_DOUBLE \<Rightarrow> double_next c
    | C_STRING_PLAIN \<Rightarrow> string_next c)"

lemmas next_datum_defs = next_datum_def boolean_next_def bitpacked_next_def uint32_next_def uint64_next_def
  leb128_next_def double_next_def string_next_def

definition next_value :: "simdcomp \<Rightarrow> column_reader \<Rightarrow> ((64 word \<times> 64 word \<times> byte list option) \<times> column_reader) result" where
  "next_value lib c =
     bindR (fetch lib True (rlvl_reader c)) (\<lambda>(r, rl).
     bindR (fetch lib True (dlvl_reader c)) (\<lambda>(d, dl).
       let c' = c\<lparr>rlvl_reader := rl, dlvl_reader := dl, vals_read := vals_read c + 1\<rparr> in
       if ucast d = d_max c then bindR (next_datum lib c') (\<lambda>(bs, c''). Inr ((ucast r, ucast d, Some bs), c''))
       else Inr ((ucast r, ucast d, None), c')))"

definition nextRepetitionLevel :: "simdcomp \<Rightarrow> column_reader \<Rightarrow> (64 word \<times> column_reader) result" where
  "nextRepetitionLevel lib c =
     bindR (fetch lib False (rlvl_reader c)) (\<lambda>(r, rl). Inr (ucast r, c\<lparr>rlvl_reader := rl\<rparr>))"

definition eofReached :: "column_reader \<Rightarrow> bool" where
  "eofReached c \<longleftrightarrow> vals_total c \<le> vals_read c"

end
