(* ===== verification/CSTable.thy ===== *)
theory CSTable
  imports Column SValue
begin

text \<open>
  The file of a columnar table: \<open>CSTableWriter\<close> and \<open>CSTableReader\<close> of src/cstable, with the constants
  of BinaryFormat.h. A header with the number of records and of columns, a header for each column with the
  place and the size of its body, and the bodies. What the system does with the file is left out; the
  model's file is its bytes.
\<close>

section \<open>Writing\<close>

definition kMagicBytes :: "32 word" where
  "kMagicBytes = 0x17231723"

definition kVersion :: "16 word" where
  "kVersion = 1"

record cstable_writer =
  written_bytes :: "byte list"
  offset :: "64 word"
  added :: "(string \<times> column_writer) list"

definition new_cstable :: "64 word \<Rightarrow> cstable_writer" where
  "new_cstable num_records =
     (let header = appendUInt32 kMagicBytes @ appendUInt16 kVersion @ appendUInt64 0 @ appendUInt64 num_records in
      \<lparr>written_bytes = header, offset = of_nat (length header), added = []\<rparr>)"

definition addColumn :: "simdcomp \<Rightarrow> string \<Rightarrow> column_writer \<Rightarrow> cstable_writer \<Rightarrow> cstable_writer" where
  "addColumn lib name w t = t\<lparr>added := added t @ [(name, commit_column lib w)]\<rparr>"

text \<open>The header of a column whose body starts at \<open>off\<close>.\<close>

definition column_header :: "64 word \<Rightarrow> string \<times> column_writer \<Rightarrow> byte list" where
  "column_header off c = (case c of (name, w) \<Rightarrow>
     appendUInt32 (ucast (column_tag (w_type w))) @ appendUInt32 (of_nat (length name)) @ bytes_of_string name @
     appendUInt32 (ucast (w_r_max w)) @ appendUInt32 (ucast (w_d_max w)) @ appendUInt64 off @
     appendUInt64 (of_nat (bodySize w)))"

fun column_headers :: "64 word \<Rightarrow> (string \<times> column_writer) list \<Rightarrow> byte list" where
  "column_headers off [] = []"
| "column_headers off (c # cs) = column_header off c @ column_headers (off + of_nat (bodySize (snd c))) cs"

text \<open>The bodies; \<open>junk i\<close> is what the buffer of the \<open>i\<close>-th body held.\<close>

fun column_bodies :: "(nat \<Rightarrow> nat \<Rightarrow> byte list) \<Rightarrow> nat \<Rightarrow> (string \<times> column_writer) list \<Rightarrow> byte list" where
  "column_bodies junk i [] = []"
| "column_bodies junk i (c # cs) = column_body (junk i) (snd c) @ column_bodies junk (Suc i) cs"

definition first_body :: "cstable_writer \<Rightarrow> 64 word" where
  "first_body t = foldl (\<lambda>off c. off + (32 + of_nat (length (fst c)))) (offset t + 4) (added t)"

definition commit_cstable :: "(nat \<Rightarrow> nat \<Rightarrow> byte list) \<Rightarrow> cstable_writer \<Rightarrow> byte list" where
  "commit_cstable junk t =
     written_bytes t @ appendUInt32 (of_nat (length (added t))) @ column_headers (first_body t) (added t) @
     column_bodies junk 0 (added t)"

section \<open>Reading\<close>

record stored_column =
  ci_type :: byte
  ci_body_offset :: "64 word"
  ci_size :: "64 word"
  ci_r_max :: "64 word"
  ci_d_max :: "64 word"

record cstable_reader =
  table_file :: "byte list"
  num_records :: "64 word"
  table_columns :: "string \<rightharpoonup> stored_column"

text \<open>\<open>emplace\<close> leaves a name that is already there as it is.\<close>

definition emplace :: "string \<Rightarrow> 'a \<Rightarrow> (string \<rightharpoonup> 'a) \<Rightarrow> (string \<rightharpoonup> 'a)" where
  "emplace name ci cols = (if name \<in> dom cols then cols else cols(name \<mapsto> ci))"

definition read_column_header :: "memory \<Rightarrow> ((string \<times> stored_column) \<times> memory) result" where
  "read_column_header m =
     bindR (message_readUInt32 m) (\<lambda>(ty, m).
     bindR (message_readUInt32 m) (\<lambda>(name_len, m).
     bindR (message_read (unat name_len) m) (\<lambda>(name, m).
     bindR (message_readUInt32 m) (\<lambda>(r, m).
     bindR (message_readUInt32 m) (\<lambda>(d, m).
     bindR (message_readUInt64 m) (\<lambda>(off, m).
     bindR (message_readUInt64 m) (\<lambda>(sz, m).
       Inr ((string_of_bytes name,
         \<lparr>ci_type = ucast ty, ci_body_offset = off, ci_size = sz, ci_r_max = ucast r, ci_d_max = ucast d\<rparr>), m))))))))"

fun read_column_headers :: "nat \<Rightarrow> memory \<Rightarrow> (string \<rightharpoonup> stored_column) \<Rightarrow> (string \<rightharpoonup> stored_column) result" where
  "read_column_headers 0 m cols = Inr cols"
| "read_column_headers (Suc n) m cols =
     bindR (read_column_header m) (\<lambda>((name, ci), m'). read_column_headers n m' (emplace name ci cols))"

definition open_cstable :: "byte list \<Rightarrow> cstable_reader result" where
  "open_cstable bs =
     bindR (message_readUInt32 \<lparr>contents = bs, limit = length bs\<rparr>) (\<lambda>(magic, m).
     if magic \<noteq> kMagicBytes then Inl (Raise IllegalStateError)
     else bindR (message_readUInt16 m) (\<lambda>(version, m).
     if version \<noteq> kVersion then Inl (Raise IllegalStateError)
     else bindR (message_readUInt64 m) (\<lambda>(flags, m).
     bindR (message_readUInt64 m) (\<lambda>(records, m).
     bindR (message_readUInt32 m) (\<lambda>(num_columns, m).
     bindR (read_column_headers (unat num_columns) m Map.empty) (\<lambda>cols.
       Inr \<lparr>table_file = bs, num_records = records, table_columns = cols\<rparr>))))))"

definition getColumnReader :: "cstable_reader \<Rightarrow> string \<Rightarrow> column_reader result" where
  "getColumnReader t name =
     (case table_columns t name of
        None \<Rightarrow> Inl (Raise IndexError)
      | Some c \<Rightarrow>
          (case type_of_tag (ci_type c) of
             None \<Rightarrow> Inl (Raise IllegalStateError)
           | Some ty \<Rightarrow>
               new_reader ty (ci_r_max c) (ci_d_max c) (drop (unat (ci_body_offset c)) (table_file t)) (unat (ci_size c))))"

definition hasColumn :: "cstable_reader \<Rightarrow> string \<Rightarrow> bool" where
  "hasColumn t name \<longleftrightarrow> name \<in> dom (table_columns t)"

definition getColumnType :: "cstable_reader \<Rightarrow> string \<Rightarrow> byte result" where
  "getColumnType t name = (case table_columns t name of None \<Rightarrow> Inl (Raise IndexError) | Some c \<Rightarrow> Inr (ci_type c))"

end
