(* ===== verification/CSTable_Scan.thy ===== *)
theory CSTable_Scan
  imports CSTable Table_Expr
begin

text \<open>
  The scan of a columnar table: \<open>CSTableScan\<close> (src/csql/CSTableScan.cc) puts the values of the columns
  together to rows, filters them and computes the select list, and \<open>CSTableScanProvider\<close> offers it to the
  table repository. A column may hold several values for one record; the repetition levels say where a
  record, and a group of values inside it, starts again.
\<close>

section \<open>Columns of the query\<close>

text \<open>\<open>findColumns\<close> fills a \<open>std::set\<close>: sorted, without duplicates.\<close>

fun insert_name :: "string \<Rightarrow> string list \<Rightarrow> string list" where
  "insert_name s [] = [s]"
| "insert_name s (t # ts) = (if s = t then t # ts else if str_less s t then s # t # ts else t # insert_name s ts)"

fun findColumns :: "expr_node \<Rightarrow> string list \<Rightarrow> string list" where
  "findColumns (ColumnReference name i) names = insert_name name names"
| "findColumns (LiteralExpression v) names = names"
| "findColumns (IfExpression c t f) names = findColumns f (findColumns t (findColumns c names))"
| "findColumns (CallExpression symbol es) names = fold findColumns es names"

text \<open>An entry of \<open>columns_\<close>: the name of the column, its place in the row, and its reader.\<close>

record scan_column =
  scanned_name :: string
  row_index :: nat
  col_reader :: column_reader

definition find_column :: "scan_column list \<Rightarrow> string \<Rightarrow> scan_column option" where
  "find_column cols name = List.find (\<lambda>c. scanned_name c = name) cols"

fun resolveColumns :: "scan_column list \<Rightarrow> expr_node \<Rightarrow> expr_node" where
  "resolveColumns cols (ColumnReference name i) =
     ColumnReference name (Some (case find_column cols name of None \<Rightarrow> -1 | Some c \<Rightarrow> of_nat (row_index c)))"
| "resolveColumns cols (LiteralExpression v) = LiteralExpression v"
| "resolveColumns cols (IfExpression c t f) =
     IfExpression (resolveColumns cols c) (resolveColumns cols t) (resolveColumns cols f)"
| "resolveColumns cols (CallExpression symbol es) = CallExpression symbol (map (resolveColumns cols) es)"

fun findMaxRepetitionLevel :: "scan_column list \<Rightarrow> expr_node \<Rightarrow> 64 word" where
  "findMaxRepetitionLevel cols (ColumnReference name i) =
     (case find_column cols name of None \<Rightarrow> 0 | Some c \<Rightarrow> r_max (col_reader c))"
| "findMaxRepetitionLevel cols (LiteralExpression v) = 0"
| "findMaxRepetitionLevel cols (IfExpression c t f) =
     foldl (\<lambda>m e. max m (findMaxRepetitionLevel cols e)) 0 [c, t, f]"
| "findMaxRepetitionLevel cols (CallExpression symbol es) =
     foldl (\<lambda>m e. max m (findMaxRepetitionLevel cols e)) 0 es"

section \<open>Fetching a row\<close>

text \<open>
  The value for a datum. \<open>next\<close> hands out no bytes when the definition level is not the greatest; a
  definition level above the greatest gets past the test for NULL.
\<close>

definition scan_value :: "column_type \<Rightarrow> 64 word \<Rightarrow> 64 word \<Rightarrow> byte list option \<Rightarrow> svalue" where
  "scan_value ty dm d data =
     (let bs = (case data of None \<Rightarrow> [] | Some b \<Rightarrow> b); n = length bs in
      if d < dm then Null
      else case ty of
        C_STRING_PLAIN \<Rightarrow> Str (string_of_bytes bs)
      | C_BOOLEAN \<Rightarrow> Bool (n \<noteq> 0 \<and> 0 < le_value bs)
      | C_DOUBLE \<Rightarrow> if n = 8 then Flt (le_value bs) else Null
      | _ \<Rightarrow> if n = 4 \<or> n = 8 then Integer (le_value bs) else Null)"

text \<open>One column: it is read when its next value belongs to the level that is fetched.\<close>

definition fetch_column ::
  "simdcomp \<Rightarrow> 64 word \<Rightarrow> scan_column \<Rightarrow> svalue list \<Rightarrow> (scan_column \<times> svalue list) result" where
  "fetch_column lib fetch_level col row =
     bindR (nextRepetitionLevel lib (col_reader col)) (\<lambda>(nextr, c).
       if nextr < fetch_level then Inr (col\<lparr>col_reader := c\<rparr>, row)
       else bindR (next_value lib c) (\<lambda>((r, d, data), c').
         Inr (col\<lparr>col_reader := c'\<rparr>, row[row_index col := scan_value (r_type c) (d_max c) d data])))"

fun fetch_columns ::
  "simdcomp \<Rightarrow> 64 word \<Rightarrow> scan_column list \<Rightarrow> svalue list \<Rightarrow> 64 word \<Rightarrow> (scan_column list \<times> svalue list \<times> 64 word) result" where
  "fetch_columns lib fetch_level [] row next_level = Inr ([], row, next_level)"
| "fetch_columns lib fetch_level (col # cols) row next_level =
     bindR (fetch_column lib fetch_level col row) (\<lambda>(col', row').
     bindR (nextRepetitionLevel lib (col_reader col')) (\<lambda>(nextr, c).
     bindR (fetch_columns lib fetch_level cols row' (max next_level nextr)) (\<lambda>(cols', row'', next_level').
       Inr (col'\<lparr>col_reader := c\<rparr> # cols', row'', next_level'))))"

section \<open>The select list\<close>

record select_ref =
  rep_level :: "64 word"
  program_of :: vm_program
  instance_of :: vm_instance

definition where_holds :: "vm_program option \<Rightarrow> svalue list \<Rightarrow> bool result" where
  "where_holds wh row = (case wh of None \<Rightarrow> Inr True | Some p \<Rightarrow> bindR (vm_evaluate p row Null) toBool)"

definition accumulate_selects :: "64 word \<Rightarrow> svalue list \<Rightarrow> select_ref list \<Rightarrow> select_ref list result" where
  "accumulate_selects select_level row sel = mapR (\<lambda>s.
     if select_level \<le> rep_level s
     then bindR (vm_accumulate (program_of s) (instance_of s) row) (\<lambda>i. Inr (s\<lparr>instance_of := i\<rparr>))
     else Inr s) sel"

text \<open>The loops that fill \<open>out_row\<close>, whose entries keep their values from row to row.\<close>

definition select_results :: "select_ref list \<Rightarrow> svalue list \<Rightarrow> svalue list result" where
  "select_results sel out_row = mapR (\<lambda>(s, v). vm_result (program_of s) (instance_of s) v) (zip sel out_row)"

definition reset_results :: "select_ref list \<Rightarrow> svalue list \<Rightarrow> (select_ref \<times> svalue) list result" where
  "reset_results sel out_row = mapR (\<lambda>(s, v).
     bindR (vm_result (program_of s) (instance_of s) v) (\<lambda>v'.
     bindR (vm_reset (program_of s) (instance_of s)) (\<lambda>i. Inr (s\<lparr>instance_of := i\<rparr>, v')))) (zip sel out_row)"

definition select_values :: "select_ref list \<Rightarrow> svalue list \<Rightarrow> svalue list \<Rightarrow> svalue list result" where
  "select_values sel row out_row = mapR (\<lambda>(s, v). vm_evaluate (program_of s) row v) (zip sel out_row)"

section \<open>The scan\<close>

record 's scan_state =
  selects :: "select_ref list"
  in_row :: "svalue list"
  out_row :: "svalue list"
  fetch_level :: "64 word"
  select_level :: "64 word"
  records_done :: "64 word"
  rows_scanned :: "64 word"
  client :: 's

text \<open>What a row that passes the filter does, and whether the scan goes on.\<close>

definition emit_row ::
  "aggregation_strategy \<Rightarrow> 64 word \<Rightarrow> 's row_callback \<Rightarrow> 's scan_state \<Rightarrow> ('s scan_state \<times> bool) result" where
  "emit_row strategy next_level fn st =
     (let within_record =
        bindR (reset_results (selects st) (out_row st)) (\<lambda>rs.
        bindR (fn (client st) (map snd rs)) (\<lambda>(s, more).
          Inr (st\<lparr>selects := map fst rs, out_row := map snd rs, client := s\<rparr>, more)))
      in case strategy of
        AGGREGATE_ALL \<Rightarrow> Inr (st, True)
      | AGGREGATE_WITHIN_RECORD_FLAT \<Rightarrow> if next_level \<noteq> 0 then Inr (st, True) else within_record
      | AGGREGATE_WITHIN_RECORD_DEEP \<Rightarrow> within_record
      | NO_AGGREGATION \<Rightarrow>
          bindR (select_values (selects st) (in_row st) (out_row st)) (\<lambda>out.
          bindR (fn (client st) out) (\<lambda>(s, more). Inr (st\<lparr>out_row := out, client := s\<rparr>, more))))"

text \<open>
  The body of the loop once the row is there; \<open>False\<close> when the client wants no more. Of the columns it uses
  their places in the row and their greatest repetition levels.
\<close>

definition column_places :: "scan_column list \<Rightarrow> (nat \<times> 64 word) list" where
  "column_places cols = map (\<lambda>c. (row_index c, r_max (col_reader c))) cols"

definition clear_row :: "64 word \<Rightarrow> (nat \<times> 64 word) list \<Rightarrow> svalue list \<Rightarrow> svalue list" where
  "clear_row level places row = foldl (\<lambda>r (i, rm). if level \<le> rm then r[i := Null] else r) row places"

definition process_row ::
  "vm_program option \<Rightarrow> aggregation_strategy \<Rightarrow> 's row_callback \<Rightarrow> (nat \<times> 64 word) list \<Rightarrow> 64 word \<Rightarrow>
     's scan_state \<Rightarrow> ('s scan_state \<times> bool) result" where
  "process_row wh strategy fn places next_level st0 =
     (let st = st0\<lparr>fetch_level := next_level,
                  records_done := (if next_level = 0 then records_done st0 + 1 else records_done st0)\<rparr>;
          finish = (\<lambda>level s. Inr (s\<lparr>select_level := level, in_row := clear_row level places (in_row s)\<rparr>, True)) in
      bindR (where_holds wh (in_row st)) (\<lambda>pred.
        if pred then
          bindR (accumulate_selects (select_level st) (in_row st) (selects st)) (\<lambda>sel.
          bindR (emit_row strategy next_level fn (st\<lparr>selects := sel\<rparr>)) (\<lambda>(st', more).
            if more then finish (fetch_level st') st' else Inr (st', False)))
        else finish (min (select_level st) (fetch_level st)) st))"

definition scan_step ::
  "simdcomp \<Rightarrow> vm_program option \<Rightarrow> aggregation_strategy \<Rightarrow> 's row_callback \<Rightarrow> scan_column list \<Rightarrow> 's scan_state \<Rightarrow>
     (scan_column list \<times> 's scan_state \<times> bool) result" where
  "scan_step lib wh strategy fn cols st =
     bindR (fetch_columns lib (fetch_level st) cols (in_row st) 0) (\<lambda>(cols', row, next_level).
     bindR (process_row wh strategy fn (column_places cols') next_level (st\<lparr>in_row := row, rows_scanned := rows_scanned st + 1\<rparr>))
       (\<lambda>(st', more). Inr (cols', st', more)))"

text \<open>
  The loop runs until all records are there; its bound \<open>fuel\<close> counts rows. The end of the scan gives
  its result when everything is aggregated to one row.
\<close>

definition scan_end :: "aggregation_strategy \<Rightarrow> 's row_callback \<Rightarrow> 's scan_state \<Rightarrow> 's scan_state result" where
  "scan_end strategy fn st = (case strategy of
      AGGREGATE_ALL \<Rightarrow>
        bindR (select_results (selects st) (out_row st)) (\<lambda>out.
        bindR (fn (client st) out) (\<lambda>(s, more). Inr (st\<lparr>out_row := out, client := s\<rparr>)))
    | _ \<Rightarrow> Inr st)"

fun scan_loop ::
  "simdcomp \<Rightarrow> vm_program option \<Rightarrow> aggregation_strategy \<Rightarrow> 64 word \<Rightarrow> 's row_callback \<Rightarrow> nat \<Rightarrow>
     scan_column list \<Rightarrow> 's scan_state \<Rightarrow> 's scan_state result" where
  "scan_loop lib wh strategy total_records fn fuel cols st =
     (if total_records \<le> records_done st then scan_end strategy fn st
      else case fuel of
        0 \<Rightarrow> Inl OutOfFuel
      | Suc n \<Rightarrow> bindR (scan_step lib wh strategy fn cols st) (\<lambda>(cols', st', more).
          if more then scan_loop lib wh strategy total_records fn n cols' st' else Inr st'))"

declare scan_loop.simps [simp del]

text \<open>Without columns, a row is a record without values.\<close>

definition constant_step ::
  "vm_program option \<Rightarrow> aggregation_strategy \<Rightarrow> 's row_callback \<Rightarrow> 's scan_state \<Rightarrow> ('s scan_state \<times> bool) result" where
  "constant_step wh strategy fn st =
     bindR (where_holds wh []) (\<lambda>pred.
       if \<not> pred then Inr (st, True)
       else case strategy of
         AGGREGATE_ALL \<Rightarrow>
           bindR (accumulate_selects 0 [] (selects st)) (\<lambda>sel. Inr (st\<lparr>selects := sel\<rparr>, True))
       | _ \<Rightarrow>
           bindR (select_values (selects st) [] (out_row st)) (\<lambda>out.
           bindR (fn (client st) out) (\<lambda>(s, more). Inr (st\<lparr>out_row := out, client := s\<rparr>, more))))"

fun constant_loop ::
  "vm_program option \<Rightarrow> aggregation_strategy \<Rightarrow> 's row_callback \<Rightarrow> nat \<Rightarrow> 's scan_state \<Rightarrow> 's scan_state result" where
  "constant_loop wh strategy fn 0 st = scan_end strategy fn st"
| "constant_loop wh strategy fn (Suc n) st =
     bindR (constant_step wh strategy fn st) (\<lambda>(st', more).
       if more then constant_loop wh strategy fn n st' else Inr st')"

section \<open>Execution\<close>

definition query_columns :: "select_list_node list \<Rightarrow> expr_node option \<Rightarrow> string list" where
  "query_columns sl wh =
     (let names = fold (\<lambda>s. findColumns (expression s)) sl [] in
      case wh of None \<Rightarrow> names | Some e \<Rightarrow> findColumns e names)"

fun open_columns :: "cstable_reader \<Rightarrow> string list \<Rightarrow> nat \<Rightarrow> scan_column list result" where
  "open_columns tab [] i = Inr []"
| "open_columns tab (name # names) i =
     (if \<not> hasColumn tab name then open_columns tab names i
      else bindR (getColumnReader tab name) (\<lambda>c. bindR (open_columns tab names (Suc i)) (\<lambda>cols.
        Inr (\<lparr>scanned_name = name, row_index = i, col_reader = c\<rparr> # cols))))"

definition compile_select :: "symbol_table \<Rightarrow> scan_column list \<Rightarrow> select_list_node \<Rightarrow> select_ref result" where
  "compile_select syms cols s =
     (let e = resolveColumns cols (expression s) in
      bindR (compile syms e) (\<lambda>p. bindR (allocInstance p) (\<lambda>i.
        Inr \<lparr>rep_level = findMaxRepetitionLevel cols e, program_of = p, instance_of = i\<rparr>)))"

definition compile_where :: "symbol_table \<Rightarrow> scan_column list \<Rightarrow> expr_node option \<Rightarrow> vm_program option result" where
  "compile_where syms cols wh =
     (case wh of
        None \<Rightarrow> Inr None
      | Some e \<Rightarrow> bindR (compile syms (resolveColumns cols e)) (\<lambda>p. Inr (Some p)))"

text \<open>
  \<open>order\<close> is the order in which the hash map of the columns is iterated, and \<open>fuel\<close> the bound of the loop.
\<close>

definition execute_scan ::
  "simdcomp \<Rightarrow> symbol_table \<Rightarrow> (scan_column list \<Rightarrow> scan_column list) \<Rightarrow> nat \<Rightarrow> byte list \<Rightarrow> select_list_node list \<Rightarrow>
     expr_node option \<Rightarrow> aggregation_strategy \<Rightarrow> 's row_callback \<Rightarrow> 's \<Rightarrow> 's result" where
  "execute_scan lib syms order fuel file_bytes sl wh strategy fn s =
     bindR (open_cstable file_bytes) (\<lambda>tab.
     bindR (open_columns tab (query_columns sl wh) 0) (\<lambda>cols.
     bindR (mapR (compile_select syms cols) sl) (\<lambda>sel.
     bindR (compile_where syms cols wh) (\<lambda>whp.
       let st = \<lparr>selects = sel, in_row = replicate (length cols) Null,
                 out_row = replicate (length sel) Null, fetch_level = 0, select_level = 0, records_done = 0,
                 rows_scanned = 0, client = s\<rparr> in
       bindR (if cols = [] then constant_loop whp strategy fn (unat (num_records tab)) st
              else scan_loop lib whp strategy (num_records tab) fn fuel (order cols) st)
         (\<lambda>st'. Inr (client st'))))))"

section \<open>The provider\<close>

definition type_name :: "byte \<Rightarrow> string" where
  "type_name t = (case type_of_tag t of
      None \<Rightarrow> ''''
    | Some C_BOOLEAN \<Rightarrow> ''bool''
    | Some (C_UINT32_BITPACKED _) \<Rightarrow> ''uint32''
    | Some C_UINT32_PLAIN \<Rightarrow> ''uint32''
    | Some C_UINT64_PLAIN \<Rightarrow> ''uint64''
    | Some C_UINT64_LEB128 \<Rightarrow> ''uint64''
    | Some C_DOUBLE \<Rightarrow> ''double''
    | Some C_STRING_PLAIN \<Rightarrow> ''string'')"

text \<open>\<open>names\<close> are the columns of the table, sorted as the \<open>std::set\<close> of \<open>columns()\<close> has them.\<close>

definition tableInfo :: "string \<Rightarrow> cstable_reader \<Rightarrow> string list \<Rightarrow> table_info result" where
  "tableInfo tname tab names =
     bindR (mapR (\<lambda>n. bindR (getColumnType tab n) (\<lambda>t.
         Inr \<lparr>column_name = n, column_type = type_name t, is_nullable = True, type_size = 0\<rparr>)) names)
       (\<lambda>cs. Inr \<lparr>table_name = tname, description = None, columns = cs\<rparr>)"

text \<open>\<open>describe\<close> answers for one name; \<open>buildSequentialScan\<close> answers for every node.\<close>

definition cstable_provider :: "table_info \<Rightarrow> (query_tree \<Rightarrow> table_expr) \<Rightarrow> table_provider" where
  "cstable_provider info scan =
     \<lparr>describes = (\<lambda>name. if name = table_name info then Some info else None), scans = (\<lambda>node. Some (scan node))\<rparr>"

end
