(* ===== verification/Column_Correct.thy ===== *)
theory Column_Correct
  imports Column
begin

text \<open>
  What is written to a column is read back: the bit packing of levels and numbers, the data of every
  type, and the body of a column with its header.
\<close>

section \<open>Blocks\<close>

text \<open>A list of numbers, packed in blocks of 128, the last one filled up with zeros.\<close>

function pack_all :: "simdcomp \<Rightarrow> nat \<Rightarrow> 32 word list \<Rightarrow> byte list" where
  "pack_all lib n xs =
     (if xs = [] then []
      else simdpack lib n (take 128 xs @ replicate (128 - length xs) 0) @ pack_all lib n (drop 128 xs))"
  by pat_completeness auto
termination by (relation "measure (\<lambda>(_, _, xs). length xs)") auto

declare pack_all.simps [simp del]

lemma pack_all_Nil [simp]: "pack_all lib n [] = []"
  by (simp add: pack_all.simps)

lemma pack_all_append:
  "length ys mod 128 = 0 \<Longrightarrow> pack_all lib n (ys @ zs) = pack_all lib n ys @ pack_all lib n zs"
proof (induction "length ys" arbitrary: ys rule: less_induct)
  case less
  show ?case
  proof (cases "ys = []")
    case False
    then have "128 \<le> length ys" using less.prems by (cases "length ys < 128") auto
    moreover have "pack_all lib n (drop 128 ys @ zs) = pack_all lib n (drop 128 ys) @ pack_all lib n zs"
      using less.hyps [of "drop 128 ys"] less.prems False \<open>128 \<le> length ys\<close> by (simp add: le_mod_geq)
    ultimately show ?thesis using False by (simp add: pack_all.simps [of _ _ "ys @ zs"] pack_all.simps [of _ _ ys])
  qed simp
qed

lemma pack_all_block: "length ys = 128 \<Longrightarrow> pack_all lib n ys = simdpack lib n ys"
  by (subst pack_all.simps) auto

lemma pack_all_last:
  "zs \<noteq> [] \<Longrightarrow> length zs \<le> 128 \<Longrightarrow> pack_all lib n zs = simdpack lib n (zs @ replicate (128 - length zs) 0)"
  by (subst pack_all.simps) simp

section \<open>Packing and unpacking\<close>

definition encodes :: "simdcomp \<Rightarrow> nat \<Rightarrow> 32 word list \<Rightarrow> bit_pack_encoder \<Rightarrow> bool" where
  "encodes lib n xs e \<longleftrightarrow> enc_bits e = n \<and>
     (if n = 0 then inbuf e = [] \<and> outbuf e = []
      else \<exists>ys. xs = ys @ inbuf e \<and> length ys mod 128 = 0 \<and> length (inbuf e) < 128 \<and> outbuf e = pack_all lib n ys)"

lemma new_encodes: "encodes lib (bits m) [] (new_encoder m)"
  by (cases "m = 0") (auto simp: encodes_def new_encoder_def bits_def bit_len.simps [of 0] word_neq_0_conv)

lemma encode_encodes:
  assumes "encodes lib n xs e"
  shows "encodes lib n (xs @ [v]) (encode_level lib v e)"
proof (cases "n = 0")
  case False
  then obtain ys where ys: "xs = ys @ inbuf e" "length ys mod 128 = 0" "length (inbuf e) < 128"
      "outbuf e = pack_all lib n ys" and n: "enc_bits e = n"
    using assms by (auto simp: encodes_def)
  show ?thesis
  proof (cases "Suc (length (inbuf e)) = 128")
    case True
    then have "length (ys @ inbuf e @ [v]) mod 128 = 0" using ys(2) by (simp add: mod_add_right_eq [symmetric])
    moreover have "pack_all lib n (ys @ inbuf e @ [v]) = pack_all lib n ys @ simdpack lib n (inbuf e @ [v])"
      using True pack_all_append [OF ys(2)] pack_all_block [of "inbuf e @ [v]" lib n] by simp
    ultimately show ?thesis
      using False True ys n
      by (auto simp: encodes_def encode_level_def flush_def Let_def intro!: exI [of _ "ys @ inbuf e @ [v]"])
  next
    case less: False
    then show ?thesis using False ys n by (auto simp: encodes_def encode_level_def Let_def)
  qed
qed (use assms in \<open>simp add: encodes_def encode_level_def\<close>)

lemma flush_encodes: "encodes lib n xs e \<Longrightarrow> outbuf (flush lib e) = (if n = 0 then [] else pack_all lib n xs)"
  by (auto simp: encodes_def flush_def pack_all_append pack_all_last less_imp_le split: if_splits)

text \<open>A decoder that is about to hand out the numbers \<open>xs\<close>, and after them zeros until its block ends.\<close>

definition decodes :: "simdcomp \<Rightarrow> nat \<Rightarrow> 32 word list \<Rightarrow> bit_pack_decoder \<Rightarrow> bool" where
  "decodes lib n xs d \<longleftrightarrow> dec_bits d = n \<and> n \<le> 32 \<and> (\<forall>x\<in>set xs. unat x < 2 ^ n) \<and>
     (n = 0 \<or> (\<exists>zs rest. packed d = \<lparr>contents = pack_all lib n zs @ rest, limit = length (pack_all lib n zs)\<rparr> \<and>
        (if zs = [] then \<exists>k. unpacked d = xs @ replicate k 0 else xs = unpacked d @ zs)))"

lemma fetch_decodes:
  assumes "packs lib" and "decodes lib n (x # xs) d"
  shows "\<exists>d'. fetch lib True d = Inr (x, d') \<and> decodes lib n xs d'"
    and "\<exists>d'. fetch lib False d = Inr (x, d') \<and> decodes lib n (x # xs) d'"
proof -
  have d: "dec_bits d = n" "n \<le> 32" "\<forall>y\<in>set (x # xs). unat y < 2 ^ n" using assms(2) by (simp_all add: decodes_def)
  have "(\<exists>d'. fetch lib True d = Inr (x, d') \<and> decodes lib n xs d') \<and>
    (\<exists>d'. fetch lib False d = Inr (x, d') \<and> decodes lib n (x # xs) d')"
  proof (cases "n = 0")
    case True
    then have "x = 0" using d(3) by (simp add: unat_eq_0)
    then show ?thesis using True assms(2) by (auto simp: fetch_def decodes_def)
  next
    case False
    then obtain zs rest where zs: "packed d = \<lparr>contents = pack_all lib n zs @ rest, limit = length (pack_all lib n zs)\<rparr>"
        "if zs = [] then \<exists>k. unpacked d = (x # xs) @ replicate k 0 else x # xs = unpacked d @ zs"
      using assms(2) by (auto simp: decodes_def)
    show ?thesis
    proof (cases "unpacked d")
      case (Cons y ys)
      then have "y = x" using zs(2) by (cases "zs = []") auto
      moreover have "decodes lib n xs (d\<lparr>unpacked := ys\<rparr>)"
        using False d zs Cons by (cases "zs = []") (auto simp: decodes_def intro!: exI [of _ zs])
      ultimately show ?thesis using False d(1) Cons assms(2) by (auto simp: fetch_def)
    next
      case Nil
      then have ne: "zs \<noteq> []" and xs: "x # xs = zs" using zs(2) by (cases "zs = []"; auto)+
      let ?block = "take 128 zs @ replicate (128 - length zs) 0"
      let ?d = "d\<lparr>packed := \<lparr>contents = pack_all lib n (drop 128 zs) @ rest, limit = length (pack_all lib n (drop 128 zs))\<rparr>\<rparr>"
      have block: "length ?block = 128" "\<forall>y\<in>set ?block. unat y < 2 ^ n"
        using d(3) xs by (auto dest: in_set_takeD)
      have pack: "length (simdpack lib n ?block) = 16 * n" "simdunpack lib n (simdpack lib n ?block) = ?block"
        using assms(1) block False d(2) unfolding packs_def by simp_all
      have all: "pack_all lib n zs = simdpack lib n ?block @ pack_all lib n (drop 128 zs)"
        using ne by (subst pack_all.simps) simp
      have read: "message_read (16 * n) (packed d) = Inr (simdpack lib n ?block, packed ?d)"
        using zs(1) all pack(1) by (simp add: message_read_def)
      have head: "?block = x # tl ?block" using xs by (cases zs) auto
      have fetch: "fetch lib a d = Inr (x, ?d\<lparr>unpacked := (if a then tl ?block else ?block)\<rparr>)" for a
      proof -
        obtain B where B: "B = ?block" "B = x # tl B" "simdunpack lib n (simdpack lib n B) = B" using head pack(2) by simp
        have "\<not> limit (packed d) < 16 * n" using zs(1) all pack(1) by simp
        then have "fetch lib a d = (case B of [] \<Rightarrow> Inl (Undefined ReadOutOfBounds)
            | x # xs \<Rightarrow> Inr (x, ?d\<lparr>unpacked := (if a then xs else x # xs)\<rparr>))"
          using False d(1) Nil read B(3) by (simp add: fetch_def flip: B(1))
        then show ?thesis using B(2) by (cases B) (simp_all flip: B(1))
      qed
      have tl: "tl ?block = take 127 xs @ replicate (128 - length zs) 0" using xs by auto
      have "decodes lib n xs (?d\<lparr>unpacked := tl ?block\<rparr>)"
        using d False xs unfolding decodes_def
        by (intro conjI disjI2 exI [of _ "drop 128 zs"] exI [of _ rest])
           (auto simp: tl simp del: replicate.simps(2))
      moreover have "decodes lib n (x # xs) (?d\<lparr>unpacked := ?block\<rparr>)"
        using d False xs unfolding decodes_def
        by (intro conjI disjI2 exI [of _ "drop 128 zs"] exI [of _ rest])
           (auto simp del: replicate.simps(2))
      ultimately show ?thesis using fetch [of True] fetch [of False] by simp
    qed
  qed
  then show "\<exists>d'. fetch lib True d = Inr (x, d') \<and> decodes lib n xs d'"
    "\<exists>d'. fetch lib False d = Inr (x, d') \<and> decodes lib n (x # xs) d'" by blast+
qed

lemma fetch_decoded:
  assumes "packs lib" and "decodes lib n [] d"
  shows "\<exists>d'. fetch lib False d = Inr (0, d') \<and> decodes lib n [] d'"
proof (cases "n = 0 \<or> unpacked d = []")
  case True
  then show ?thesis using assms(2) by (auto simp: decodes_def fetch_def split: if_splits)
next
  case False
  then obtain k where "unpacked d = replicate k 0" using assms(2) by (auto simp: decodes_def split: if_splits)
  then show ?thesis using False assms(2) by (cases k) (auto simp: decodes_def fetch_def)
qed

section \<open>Memory\<close>

lemma message_read_append:
  "length s = n \<Longrightarrow> n \<le> l \<Longrightarrow>
     message_read n \<lparr>contents = s @ r, limit = l\<rparr> = Inr (s, \<lparr>contents = r, limit = l - n\<rparr>)"
  by (simp add: message_read_def)

lemma bit_le_value: "bit (le_value bs) k \<Longrightarrow> k < 8 * length bs"
proof (induction bs arbitrary: k)
  case (Cons b bs)
  then have "bit (ucast b :: 64 word) k \<or> 8 \<le> k \<and> bit (le_value bs) (k - 8)" by (auto simp: bit_simps)
  then show ?case
  proof
    assume "bit (ucast b :: 64 word) k"
    then have "bit b k" by (simp add: bit_simps)
    then have "k < 8" using bit_imp_le_length [of b k] by simp
    then show ?thesis by simp
  qed (use Cons.IH [of "k - 8"] in simp)
qed simp

lemma le_bytes_value: "length bs \<le> 8 \<Longrightarrow> le_bytes (length bs) (le_value bs) = bs"
proof (induction bs)
  case (Cons b bs)
  have "ucast (le_value (b # bs)) = b" by (rule bit_word_eqI) (simp add: bit_simps)
  moreover have "drop_bit 8 (le_value (b # bs)) = le_value bs"
  proof (rule bit_word_eqI)
    fix k
    have "\<not> bit b (8 + k)" "\<not> bit b (k + 8)" using bit_imp_le_length [of b "8 + k"] by (auto simp: add.commute)
    moreover have "k + 8 < 64" if "bit (le_value bs) k" using bit_le_value [OF that] Cons.prems by simp
    ultimately show "bit (drop_bit 8 (le_value (b # bs))) k = bit (le_value bs) k" by (auto simp: bit_simps)
  qed
  ultimately show ?case using Cons by simp
qed simp

lemma message_readUInt32_append:
  "4 \<le> l \<Longrightarrow> message_readUInt32 \<lparr>contents = appendUInt32 v @ r, limit = l\<rparr> = Inr (v, \<lparr>contents = r, limit = l - 4\<rparr>)"
  by (simp add: message_readUInt32_def appendUInt32_def message_read_append ucast_le_value)

lemma message_readUInt64_append:
  "8 \<le> l \<Longrightarrow> message_readUInt64 \<lparr>contents = appendUInt64 v @ r, limit = l\<rparr> = Inr (v, \<lparr>contents = r, limit = l - 8\<rparr>)"
  by (simp add: message_readUInt64_def appendUInt64_def message_read_append le_value_bytes)

lemma message_read_var_stream:
  "read_var i val bs = Inr (v, r) \<Longrightarrow> length bs - length r \<le> l \<Longrightarrow> length r \<le> length bs \<and>
     message_read_var i val \<lparr>contents = bs, limit = l\<rparr> = Inr (v, \<lparr>contents = r, limit = l - (length bs - length r)\<rparr>)"
proof (induction i val bs arbitrary: l rule: read_var.induct)
  case (2 i val b bs)
  show ?case
  proof (cases "and b 128 = 0")
    case True
    then show ?thesis using 2(2,3)
      by (auto simp: message_read_var.simps [of i] message_read_def Let_def split: if_splits)
  next
    case False
    have small: "\<not> 64 \<le> 7 * i" using 2(2) by (simp split: if_splits)
    then have rest: "read_var (Suc i) (or val (push_bit (7 * i) (ucast (and b 127)))) bs = Inr (v, r)"
      using 2(2) False by (simp add: Let_def)
    have shorter: "length r \<le> length bs" using 2(1) [OF small refl False rest, of "length bs"] by simp
    then have "length bs - length r \<le> l - 1" "1 \<le> l" using 2(3) by auto
    then show ?thesis using 2(1) [OF small refl False rest, of "l - 1"] small False shorter
      by (simp add: message_read_var.simps [of i val] message_read_def Let_def Suc_diff_le)
  qed
qed simp

lemma message_readVarUInt_append:
  "length (appendVarUInt v) \<le> l \<Longrightarrow> message_readVarUInt \<lparr>contents = appendVarUInt v @ r, limit = l\<rparr> =
     Inr (v, \<lparr>contents = r, limit = l - length (appendVarUInt v)\<rparr>)"
  using message_read_var_stream [of 0 0 "appendVarUInt v @ r" v r l] readVarUInt_append [of v r]
  by (simp add: message_readVarUInt_def readVarUInt_def)

section \<open>Data\<close>

type_synonym column_entry = "64 word \<times> 64 word \<times> byte list option"

fun valid_datum :: "column_type \<Rightarrow> byte list \<Rightarrow> bool" where
  "valid_datum C_BOOLEAN bs \<longleftrightarrow> length bs = 1"
| "valid_datum (C_UINT32_BITPACKED m) bs \<longleftrightarrow> length bs = 4 \<and> ucast (le_value bs) \<le> m"
| "valid_datum C_UINT32_PLAIN bs \<longleftrightarrow> length bs = 4"
| "valid_datum C_UINT64_PLAIN bs \<longleftrightarrow> length bs = 8"
| "valid_datum C_UINT64_LEB128 bs \<longleftrightarrow> length bs = 4 \<or> length bs = 8"
| "valid_datum C_DOUBLE bs \<longleftrightarrow> length bs = 8"
| "valid_datum C_STRING_PLAIN bs \<longleftrightarrow> length bs < 2 ^ 32"

text \<open>What a reader gives back: a truth value as 0 or 1, and a variable-length number in eight bytes.\<close>

fun stored :: "column_type \<Rightarrow> byte list \<Rightarrow> byte list" where
  "stored C_BOOLEAN bs = [if 0 < hd bs then 1 else 0]"
| "stored C_UINT64_LEB128 bs = le_bytes 8 (le_value bs)"
| "stored _ bs = bs"

fun packed_number :: "column_type \<Rightarrow> byte list \<Rightarrow> 32 word" where
  "packed_number C_BOOLEAN bs = (if 0 < hd bs then 1 else 0)"
| "packed_number _ bs = ucast (le_value bs)"

fun number_bound :: "column_type \<Rightarrow> 32 word" where
  "number_bound C_BOOLEAN = 1"
| "number_bound (C_UINT32_BITPACKED m) = m"
| "number_bound _ = 0"

fun plain_bytes :: "column_type \<Rightarrow> byte list \<Rightarrow> byte list" where
  "plain_bytes C_UINT64_LEB128 bs = appendVarUInt (le_value bs)"
| "plain_bytes C_STRING_PLAIN bs = appendUInt32 (of_nat (length bs)) @ bs"
| "plain_bytes _ bs = bs"

definition data_of :: "column_entry list \<Rightarrow> byte list list" where
  "data_of es = List.map_filter (\<lambda>(r, d, bs). bs) es"

lemma data_of_simps [simp]:
  "data_of [] = []" "data_of ((r, d, Some bs) # es) = bs # data_of es" "data_of ((r, d, None) # es) = data_of es"
  "data_of (es @ es') = data_of es @ data_of es'"
  by (simp_all add: data_of_def map_filter_simps map_filter_def)

definition good_entry :: "column_type \<Rightarrow> 64 word \<Rightarrow> 64 word \<Rightarrow> column_entry \<Rightarrow> bool" where
  "good_entry ty rm dm e = (case e of (r, d, bs) \<Rightarrow>
     r \<le> rm \<and> d \<le> dm \<and> (case bs of None \<Rightarrow> d \<noteq> dm | Some b \<Rightarrow> d = dm \<and> valid_datum ty b))"

fun add_entry :: "simdcomp \<Rightarrow> column_writer \<Rightarrow> column_entry \<Rightarrow> column_writer result" where
  "add_entry lib w (r, d, None) = Inr (addNull lib r d w)"
| "add_entry lib w (r, d, Some bs) = addDatum lib r d bs w"

section \<open>Writing\<close>

definition levels :: "column_entry list \<Rightarrow> 32 word list \<times> 32 word list" where
  "levels es = (map (\<lambda>(r, d, bs). ucast r) es, map (\<lambda>(r, d, bs). ucast d) es)"

definition written :: "simdcomp \<Rightarrow> column_type \<Rightarrow> 64 word \<Rightarrow> 64 word \<Rightarrow> column_entry list \<Rightarrow> column_writer \<Rightarrow> bool" where
  "written lib ty rm dm es w \<longleftrightarrow> w_type w = ty \<and> w_r_max w = rm \<and> w_d_max w = dm \<and> num_vals w = of_nat (length es) \<and>
     encodes lib (bits (ucast rm)) (fst (levels es)) (rlvl_writer w) \<and>
     encodes lib (bits (ucast dm)) (snd (levels es)) (dlvl_writer w) \<and>
     (if packs_data ty then encodes lib (bits (number_bound ty)) (map (packed_number ty) (data_of es)) (data_packer w)
      else data_bytes w = concat (map (plain_bytes ty) (data_of es)))"

lemma new_written: "written lib ty rm dm [] (new_writer ty rm dm)"
proof -
  have "new_encoder (number_bound ty) = data_packer (new_writer ty rm dm)" if "packs_data ty"
    using that by (cases ty) (simp_all add: packs_data_def new_writer_def)
  then show ?thesis
    using new_encodes [of lib "ucast rm"] new_encodes [of lib "ucast dm"] new_encodes [of lib "number_bound ty"]
    by (auto simp: written_def levels_def new_writer_def)
qed

lemma word32_bytes:
  assumes "length bs = 4"
  shows "appendUInt32 (ucast (le_value bs)) = bs"
proof -
  have "ucast (ucast (le_value bs) :: 32 word) = le_value bs"
    by (rule bit_word_eqI) (use bit_le_value [of bs] assms in \<open>auto simp: bit_simps\<close>)
  then show ?thesis using le_bytes_value [of bs] assms by (simp add: appendUInt32_def)
qed

lemma add_written:
  assumes "written lib ty rm dm es w" and "good_entry ty rm dm e"
  shows "\<exists>w'. add_entry lib w e = Inr w' \<and> written lib ty rm dm (es @ [e]) w'"
proof -
  obtain r d bs where e: "e = (r, d, bs)" by (cases e) auto
  let ?w = "addNull lib r d w"
  have ty: "w_type w = ty" using assms(1) by (simp add: written_def)
  have levels: "encodes lib (bits (ucast rm)) (fst (levels (es @ [e]))) (rlvl_writer ?w)"
    "encodes lib (bits (ucast dm)) (snd (levels (es @ [e]))) (dlvl_writer ?w)" "num_vals ?w = of_nat (length (es @ [e]))"
    using assms(1) e by (simp_all add: written_def levels_def addNull_def encode_encodes)
  show ?thesis
  proof (cases bs)
    case None
    then show ?thesis using assms(1) levels e by (simp add: written_def addNull_def)
  next
    case (Some b)
    then have valid: "valid_datum ty b" using assms(2) e by (simp add: good_entry_def)
    have number: "encodes lib (bits (number_bound ty)) (map (packed_number ty) (data_of (es @ [e])))
        (encode_level lib (packed_number ty b) (data_packer w))" if "packs_data ty"
      using assms(1) that e Some encode_encodes by (simp add: written_def)
    have plain: "data_bytes w @ plain_bytes ty b = concat (map (plain_bytes ty) (data_of (es @ [e])))" if "\<not> packs_data ty"
      using assms(1) that e Some by (simp add: written_def)
    show ?thesis
      using levels number plain valid e Some ty assms(1) word32_bytes [of b] le_bytes_value [of b]
      by (cases ty) (auto simp: written_def packs_data_def addDatum_defs addNull_def Let_def appendUInt64_def appendDouble_def)
  qed
qed

lemma add_entries_written:
  assumes "\<forall>e\<in>set es. good_entry ty rm dm e"
  shows "\<exists>w. foldR (add_entry lib) (new_writer ty rm dm) es = Inr w \<and> written lib ty rm dm es w"
  using assms
proof (induction es rule: rev_induct)
  case (snoc e es)
  then obtain w where "foldR (add_entry lib) (new_writer ty rm dm) es = Inr w" "written lib ty rm dm es w" by auto
  then show ?case using add_written [of lib ty rm dm es w e] snoc.prems by (auto simp: foldR_append)
qed (simp add: new_written)

section \<open>Reading\<close>

definition read_entry :: "column_type \<Rightarrow> column_entry \<Rightarrow> column_entry" where
  "read_entry ty e = (case e of (r, d, bs) \<Rightarrow> (r, d, map_option (stored ty) bs))"

definition supplies :: "simdcomp \<Rightarrow> column_type \<Rightarrow> byte list list \<Rightarrow> bit_pack_decoder \<Rightarrow> memory \<Rightarrow> bool" where
  "supplies lib ty bss u m \<longleftrightarrow>
     (if packs_data ty then decodes lib (bits (number_bound ty)) (map (packed_number ty) bss) u
      else \<exists>rest extra. m = \<lparr>contents = concat (map (plain_bytes ty) bss) @ rest,
             limit = length (concat (map (plain_bytes ty) bss)) + extra\<rparr>)"

definition reading :: "simdcomp \<Rightarrow> column_type \<Rightarrow> 64 word \<Rightarrow> 64 word \<Rightarrow> column_entry list \<Rightarrow> column_reader \<Rightarrow> bool" where
  "reading lib ty rm dm es c \<longleftrightarrow> r_type c = ty \<and> d_max c = dm \<and>
     (\<forall>e\<in>set es. good_entry ty rm dm e) \<and> unat rm < 2 ^ 32 \<and> unat dm < 2 ^ 32 \<and>
     decodes lib (bits (ucast rm)) (fst (levels es)) (rlvl_reader c) \<and>
     decodes lib (bits (ucast dm)) (snd (levels es)) (dlvl_reader c) \<and>
     supplies lib ty (data_of es) (data_unpacker c) (data_reader c)"

lemma ucast_32_64: "unat (x :: 64 word) < 2 ^ 32 \<Longrightarrow> ucast (ucast x :: 32 word) = x"
proof (rule bit_word_eqI)
  fix n assume a: "unat x < 2 ^ 32" "n < LENGTH(64)"
  have "take_bit 32 (unat x) = unat x" using a(1) by (rule take_bit_nat_eq_self)
  then have "bit (unat x) n \<Longrightarrow> n < 32" by (metis bit_take_bit_iff)
  then have "bit x n \<Longrightarrow> n < 32" using a(2) by (simp add: bit_unsigned_iff)
  then show "bit (ucast (ucast x :: 32 word) :: 64 word) n = bit x n" using a(2) by (auto simp: bit_simps)
qed

lemma next_datum_supplies:
  assumes "packs lib" and "r_type c = ty" and "supplies lib ty (b # bs) (data_unpacker c) (data_reader c)" and "valid_datum ty b"
  shows "\<exists>u m. next_datum lib c = Inr (stored ty b, c\<lparr>data_unpacker := u, data_reader := m\<rparr>) \<and> supplies lib ty bs u m"
proof (cases "packs_data ty")
  case True
  then have "decodes lib (bits (number_bound ty)) (packed_number ty b # map (packed_number ty) bs) (data_unpacker c)"
    using assms(3) by (simp add: supplies_def)
  from fetch_decodes(1) [OF assms(1) this] obtain u where
    u: "fetch lib True (data_unpacker c) = Inr (packed_number ty b, u)"
       "decodes lib (bits (number_bound ty)) (map (packed_number ty) bs) u" by blast
  have same: "c\<lparr>data_unpacker := u, data_reader := data_reader c\<rparr> = c\<lparr>data_unpacker := u\<rparr>" by simp
  have "next_datum lib c = Inr (stored ty b, c\<lparr>data_unpacker := u, data_reader := data_reader c\<rparr>)"
    using True assms(2,4) u(1) word32_bytes [of b]
    by (cases ty) (simp_all add: packs_data_def next_datum_defs same)
  then show ?thesis using True u(2) by (intro exI [of _ u] exI [of _ "data_reader c"]) (simp add: supplies_def)
next
  case False
  then obtain rest extra where m: "data_reader c = \<lparr>contents = plain_bytes ty b @ concat (map (plain_bytes ty) bs) @ rest,
      limit = length (plain_bytes ty b) + (length (concat (map (plain_bytes ty) bs)) + extra)\<rparr>"
    using assms(3) by (auto simp: supplies_def add.assoc)
  let ?rest = "concat (map (plain_bytes ty) bs) @ rest" and ?l = "length (concat (map (plain_bytes ty) bs)) + extra"
  have word: "message_readUInt64 \<lparr>contents = b @ ?rest, limit = 8 + ?l\<rparr> = Inr (le_value b, \<lparr>contents = ?rest, limit = ?l\<rparr>)"
    if "length b = 8"
    using message_readUInt64_append [of "8 + ?l" "le_value b" ?rest] le_bytes_value [of b] that by (simp add: appendUInt64_def)
  have half: "message_readUInt32 \<lparr>contents = b @ ?rest, limit = 4 + ?l\<rparr> =
      Inr (ucast (le_value b), \<lparr>contents = ?rest, limit = ?l\<rparr>)" if "length b = 4"
    using message_readUInt32_append [of "4 + ?l" "ucast (le_value b)" ?rest] word32_bytes [of b] that by simp
  have var: "message_readVarUInt \<lparr>contents = appendVarUInt (le_value b) @ ?rest, limit = length (appendVarUInt (le_value b)) + ?l\<rparr> =
      Inr (le_value b, \<lparr>contents = ?rest, limit = ?l\<rparr>)"
    by (simp add: message_readVarUInt_append)
  have str: "message_readUInt32 \<lparr>contents = appendUInt32 (of_nat (length b)) @ b @ ?rest, limit = 4 + (length b + ?l)\<rparr> =
      Inr (of_nat (length b), \<lparr>contents = b @ ?rest, limit = length b + ?l\<rparr>)"
    "message_read (length b) \<lparr>contents = b @ ?rest, limit = length b + ?l\<rparr> = Inr (b, \<lparr>contents = ?rest, limit = ?l\<rparr>)"
    "length (appendUInt32 v) = 4" for v
    by (simp_all add: message_readUInt32_append message_read_append) (simp add: appendUInt32_def)
  have size: "unat (of_nat (length b) :: 32 word) = length b" if "length b < 2 ^ 32"
    using that by (simp add: unat_of_nat take_bit_nat_eq_self)
  have "next_datum lib c = Inr (stored ty b, c\<lparr>data_unpacker := data_unpacker c, data_reader := \<lparr>contents = ?rest, limit = ?l\<rparr>\<rparr>)"
    using False assms(2,4) m word half var str size le_bytes_value [of b] word32_bytes [of b]
    by (cases ty) (simp_all add: packs_data_def next_datum_defs appendUInt64_def appendDouble_def add.assoc)
  then show ?thesis using False
    by (intro exI [of _ "data_unpacker c"] exI [of _ "\<lparr>contents = ?rest, limit = ?l\<rparr>"]) (auto simp: supplies_def)
qed

lemma levels_Cons: "levels ((r, d, bs) # es) = (ucast r # fst (levels es), ucast d # snd (levels es))"
  by (simp add: levels_def)

lemma next_value_reading:
  assumes "packs lib" and "reading lib ty rm dm (e # es) c"
  shows "\<exists>c'. next_value lib c = Inr (read_entry ty e, c') \<and> reading lib ty rm dm es c' \<and>
    vals_read c' = vals_read c + 1 \<and> vals_total c' = vals_total c"
proof -
  obtain r d bs where e: "e = (r, d, bs)" by (cases e) auto
  have good: "good_entry ty rm dm e" "unat rm < 2 ^ 32" "unat dm < 2 ^ 32" "d_max c = dm" "r_type c = ty"
    using assms(2) by (simp_all add: reading_def)
  have "r \<le> rm" "d \<le> dm" using good(1) e by (simp_all add: good_entry_def)
  then have "unat r < 2 ^ 32" "unat d < 2 ^ 32" using good(2,3) by (simp_all add: word_le_nat_alt)
  then have casts: "ucast (ucast r :: 32 word) = r" "ucast (ucast d :: 32 word) = d" by (simp_all add: ucast_32_64)
  have decode: "decodes lib (bits (ucast rm)) (ucast r # fst (levels es)) (rlvl_reader c)"
    "decodes lib (bits (ucast dm)) (ucast d # snd (levels es)) (dlvl_reader c)"
    using assms(2) e by (simp_all add: reading_def levels_Cons)
  from fetch_decodes(1) [OF assms(1) decode(1)] obtain rl where
    rl: "fetch lib True (rlvl_reader c) = Inr (ucast r, rl)" "decodes lib (bits (ucast rm)) (fst (levels es)) rl" by blast
  from fetch_decodes(1) [OF assms(1) decode(2)] obtain dl where
    dl: "fetch lib True (dlvl_reader c) = Inr (ucast d, dl)" "decodes lib (bits (ucast dm)) (snd (levels es)) dl" by blast
  let ?c = "c\<lparr>rlvl_reader := rl, dlvl_reader := dl, vals_read := vals_read c + 1\<rparr>"
  show ?thesis
  proof (cases bs)
    case None
    then have "next_value lib c = Inr (read_entry ty e, ?c)"
      using e good(1,4) rl(1) dl(1) casts by (simp add: next_value_def good_entry_def read_entry_def)
    moreover have "reading lib ty rm dm es ?c" using assms(2) e None rl(2) dl(2) by (simp add: reading_def del: data_of_simps) simp
    ultimately show ?thesis by auto
  next
    case (Some b)
    have valid: "valid_datum ty b" "data_of (e # es) = b # data_of es" using good(1) e Some by (simp_all add: good_entry_def)
    have "supplies lib ty (b # data_of es) (data_unpacker ?c) (data_reader ?c)"
      using assms(2) valid(2) by (simp add: reading_def)
    from next_datum_supplies [OF assms(1) _ this valid(1)] obtain u m where
      datum: "next_datum lib ?c = Inr (stored ty b, ?c\<lparr>data_unpacker := u, data_reader := m\<rparr>)" "supplies lib ty (data_of es) u m"
      using good(5) by auto
    then have "next_value lib c = Inr (read_entry ty e, ?c\<lparr>data_unpacker := u, data_reader := m\<rparr>)"
      using e good(1,4) rl(1) dl(1) casts Some by (simp add: next_value_def good_entry_def read_entry_def)
    moreover have "reading lib ty rm dm es (?c\<lparr>data_unpacker := u, data_reader := m\<rparr>)"
      using assms(2) datum(2) rl(2) dl(2) by (simp add: reading_def)
    ultimately show ?thesis by auto
  qed
qed

section \<open>The body of a column\<close>

text \<open>Reading the values of a column one after the other.\<close>

fun read_values :: "simdcomp \<Rightarrow> nat \<Rightarrow> column_reader \<Rightarrow> (column_entry list \<times> column_reader) result" where
  "read_values lib 0 c = Inr ([], c)"
| "read_values lib (Suc n) c =
     bindR (next_value lib c) (\<lambda>(e, c'). bindR (read_values lib n c') (\<lambda>(es, c''). Inr (e # es, c'')))"

lemma read_values_reading:
  assumes "packs lib"
  shows "reading lib ty rm dm es c \<Longrightarrow>
    \<exists>c'. read_values lib (length es) c = Inr (map (read_entry ty) es, c') \<and> vals_read c' = vals_read c + of_nat (length es) \<and>
      vals_total c' = vals_total c"
proof (induction es arbitrary: c)
  case (Cons e es)
  from next_value_reading [OF assms Cons.prems] obtain c1 where
    c1: "next_value lib c = Inr (read_entry ty e, c1)" "reading lib ty rm dm es c1" "vals_read c1 = vals_read c + 1"
        "vals_total c1 = vals_total c" by blast
  from Cons.IH [OF c1(2)] obtain c' where
    "read_values lib (length es) c1 = Inr (map (read_entry ty) es, c')" "vals_read c' = vals_read c1 + of_nat (length es)"
    "vals_total c' = vals_total c1" by blast
  then show ?case using c1 by simp
qed simp

lemma dec_bits_new: "dec_bits (new_decoder m b) = bits m"
  by (cases "m = 0") (auto simp: new_decoder_def bits_def bit_len.simps [of 0] word_neq_0_conv)

lemma new_decodes:
  assumes "\<forall>x\<in>set xs. x \<le> m" and "out = (if bits m = 0 then [] else pack_all lib (bits m) xs)"
  shows "decodes lib (bits m) xs (new_decoder m \<lparr>contents = out @ rest, limit = length out\<rparr>)"
proof -
  have small: "unat x < 2 ^ bits m" if "x \<le> m" for x
  proof -
    have "unat x \<le> unat m" using that by (simp add: word_le_nat_alt)
    also have "unat m < 2 ^ bits m" using bit_len_bounds [of "unat m"] by (cases "m = 0") (auto simp: bits_def bit_len.simps [of 0] unat_gt_0)
    finally show ?thesis .
  qed
  have "unat m < 2 ^ 32" using unsigned_less [of m, where 'a = nat] by simp
  then have "bits m \<le> 32" unfolding bits_def by (rule bit_len_le)
  then show ?thesis
    using assms small dec_bits_new [of m "\<lparr>contents = out @ rest, limit = length out\<rparr>"]
    by (auto simp: decodes_def new_decoder_def intro!: exI [of _ xs])
qed

lemma bits_pos: "0 < bits m \<longleftrightarrow> m \<noteq> 0"
  using bit_len_bounds [of "unat m"] by (cases "m = 0") (auto simp: bits_def bit_len.simps [of 0] unat_gt_0)

text \<open>The type a reader is made for: its number bound is found in the body.\<close>

definition file_type :: "column_type \<Rightarrow> column_type" where
  "file_type ty = (case ty of C_UINT32_BITPACKED _ \<Rightarrow> C_UINT32_BITPACKED 0 | _ \<Rightarrow> ty)"

lemma type_of_tag: "type_of_tag (column_tag ty) = Some (file_type ty)"
  by (cases ty) (simp_all add: type_of_tag_def file_type_def)

lemma ucast_mono_32:
  assumes "(r :: 64 word) \<le> rm" and "unat rm < 2 ^ 32"
  shows "(ucast r :: 32 word) \<le> ucast rm"
proof -
  have "unat r < 2 ^ 32" using assms by (simp add: word_le_nat_alt)
  then show ?thesis using assms by (simp add: word_le_nat_alt unsigned_ucast_eq take_bit_nat_eq_self)
qed

lemma packed_number_bound: "packs_data ty \<Longrightarrow> valid_datum ty b \<Longrightarrow> packed_number ty b \<le> number_bound ty"
  by (cases ty) (auto simp: packs_data_def)

lemma data_of_valid: "\<forall>e\<in>set es. good_entry ty rm dm e \<Longrightarrow> b \<in> set (data_of es) \<Longrightarrow> valid_datum ty b"
proof (induction es)
  case (Cons e es)
  obtain r d bs where "e = (r, d, bs)" by (cases e) auto
  then show ?case using Cons by (cases bs) (auto simp: good_entry_def)
qed simp

text \<open>
  What the reader's constructor finds: a body whose sections are the packed levels of the entries and
  their data, followed by anything.
\<close>

lemma commit_sections:
  assumes "written lib ty rm dm es w"
  shows "outbuf (rlvl_writer (commit_column lib w)) = (if bits (ucast rm) = 0 then [] else pack_all lib (bits (ucast rm)) (fst (levels es)))"
    and "outbuf (dlvl_writer (commit_column lib w)) = (if bits (ucast dm) = 0 then [] else pack_all lib (bits (ucast dm)) (snd (levels es)))"
    and "num_vals (commit_column lib w) = of_nat (length es)" and "w_type (commit_column lib w) = ty"
    and "packs_data ty \<Longrightarrow> outbuf (data_packer (commit_column lib w)) =
      (if bits (number_bound ty) = 0 then [] else pack_all lib (bits (number_bound ty)) (map (packed_number ty) (data_of es)))"
    and "\<not> packs_data ty \<Longrightarrow> data_bytes (commit_column lib w) = concat (map (plain_bytes ty) (data_of es))"
  using assms flush_encodes by (auto simp: written_def commit_column_def Let_def)

lemma new_reader_header:
  assumes "bs = appendUInt64 vals @ appendUInt64 (of_nat (length rl)) @ appendUInt64 (of_nat (length dl)) @ appendUInt64 (of_nat m) @ rl @ dl @ data"
    and "32 \<le> n" and "length rl < 2 ^ 64" and "length dl < 2 ^ 64" and "m < 2 ^ 64"
  shows "new_reader ty r d bs n =
    (let reader = \<lparr>r_type = ty, r_max = r, d_max = d, vals_total = vals, vals_read = 0,
        rlvl_reader = new_decoder (ucast r) \<lparr>contents = rl @ dl @ data, limit = length rl\<rparr>,
        dlvl_reader = new_decoder (ucast d) \<lparr>contents = dl @ data, limit = length dl\<rparr>,
        data_unpacker = new_decoder 1 \<lparr>contents = data, limit = m\<rparr>, data_reader = \<lparr>contents = data, limit = m\<rparr>\<rparr> in
     case ty of
       C_UINT32_BITPACKED _ \<Rightarrow>
         bindR (message_read 4 \<lparr>contents = data, limit = 4\<rparr>) (\<lambda>(mx, _). let k = ucast (le_value mx) in
           Inr (reader\<lparr>r_type := C_UINT32_BITPACKED k,
             data_unpacker := new_decoder k \<lparr>contents = drop 4 data, limit = unat (of_nat m - 4 :: 64 word)\<rparr>\<rparr>))
     | _ \<Rightarrow> Inr reader)"
proof -
  have unats: "unat (of_nat (length rl) :: 64 word) = length rl" "unat (of_nat (length dl) :: 64 word) = length dl"
    "unat (of_nat m :: 64 word) = m"
    using assms(3-5) by (simp_all add: unat_of_nat take_bit_nat_eq_self)
  have header: "length (appendUInt64 v) = 8" for v by (simp add: appendUInt64_def)
  have at: "region 32 k bs = \<lparr>contents = rl @ dl @ data, limit = k\<rparr>" "region (32 + length rl) k bs = \<lparr>contents = dl @ data, limit = k\<rparr>"
    "region (32 + length rl + length dl) k bs = \<lparr>contents = data, limit = k\<rparr>"
    "region (36 + (length rl + length dl)) k bs = \<lparr>contents = drop 4 data, limit = k\<rparr>"
    "drop (32 + length rl + length dl) bs = data" for k
    by (simp_all add: region_def assms(1) header)
  have first: "message_readUInt64 (region 0 n bs) = Inr (vals, \<lparr>contents = appendUInt64 (of_nat (length rl)) @
      appendUInt64 (of_nat (length dl)) @ appendUInt64 (of_nat m) @ rl @ dl @ data, limit = n - 8\<rparr>)"
    using assms(2) by (simp add: region_def assms(1) message_readUInt64_append)
  show ?thesis
    unfolding new_reader_def first
    using assms(2) by (cases ty) (simp_all add: message_readUInt64_append unats at Let_def)
qed

lemma new_reader_reading:
  assumes "written lib ty rm dm es w" and "\<forall>e\<in>set es. good_entry ty rm dm e" and "unat rm < 2 ^ 32" and "unat dm < 2 ^ 32"
    and "bodySize (commit_column lib w) < 2 ^ 64" and "\<forall>k. length (junk k) = k"
  shows "\<exists>c. new_reader (file_type ty) rm dm (column_body junk (commit_column lib w) @ rest) (bodySize (commit_column lib w)) = Inr c \<and>
    reading lib ty rm dm es c \<and> vals_read c = 0 \<and> vals_total c = of_nat (length es)"
proof -
  let ?w = "commit_column lib w"
  let ?rl = "outbuf (rlvl_writer ?w)" and ?dl = "outbuf (dlvl_writer ?w)"
  let ?data = "data_section ?w @ junk (spare_size ty) @ rest"
  note sections = commit_sections [OF assms(1)]
  have sizes: "length ?rl < 2 ^ 64" "length ?dl < 2 ^ 64" "data_size ?w < 2 ^ 64"
    using assms(5) by (simp_all add: bodySize_def)
  have bs: "column_body junk ?w @ rest = appendUInt64 (of_nat (length es)) @ appendUInt64 (of_nat (length ?rl)) @
      appendUInt64 (of_nat (length ?dl)) @ appendUInt64 (of_nat (data_size ?w)) @ ?rl @ ?dl @ ?data"
    using sections(3,4) by (simp add: column_body_def)
  have n: "32 \<le> bodySize ?w" by (simp add: bodySize_def)
  note reader = new_reader_header [OF bs n sizes, of "file_type ty" rm dm]
  have rl: "decodes lib (bits (ucast rm)) (fst (levels es)) (new_decoder (ucast rm) \<lparr>contents = ?rl @ ?dl @ ?data, limit = length ?rl\<rparr>)"
    using assms(2,3) sections(1) by (intro new_decodes) (auto simp: levels_def good_entry_def intro!: ucast_mono_32)
  have dl: "decodes lib (bits (ucast dm)) (snd (levels es)) (new_decoder (ucast dm) \<lparr>contents = ?dl @ ?data, limit = length ?dl\<rparr>)"
    using assms(2,4) sections(2) by (intro new_decodes) (auto simp: levels_def good_entry_def intro!: ucast_mono_32)
  let ?c = "\<lparr>r_type = file_type ty, r_max = rm, d_max = dm, vals_total = of_nat (length es), vals_read = 0,
      rlvl_reader = new_decoder (ucast rm) \<lparr>contents = ?rl @ ?dl @ ?data, limit = length ?rl\<rparr>,
      dlvl_reader = new_decoder (ucast dm) \<lparr>contents = ?dl @ ?data, limit = length ?dl\<rparr>,
      data_unpacker = new_decoder 1 \<lparr>contents = ?data, limit = data_size ?w\<rparr>,
      data_reader = \<lparr>contents = ?data, limit = data_size ?w\<rparr>\<rparr>"
  have common: "reading lib ty rm dm es c"
    if "r_type c = ty" "d_max c = dm" "rlvl_reader c = rlvl_reader ?c" "dlvl_reader c = dlvl_reader ?c"
      "supplies lib ty (data_of es) (data_unpacker c) (data_reader c)" for c
    using that assms(2-4) rl dl by (simp add: reading_def)
  have bounded: "\<forall>x\<in>set (map (packed_number ty) (data_of es)). x \<le> number_bound ty" if "packs_data ty"
    using that data_of_valid [OF assms(2)] packed_number_bound by auto
  show ?thesis
  proof (cases "\<exists>m. ty = C_UINT32_BITPACKED m")
    case False
    then have "new_reader (file_type ty) rm dm (column_body junk ?w @ rest) (bodySize ?w) = Inr ?c"
      using reader by (cases ty) (simp_all add: file_type_def)
    moreover have "file_type ty = ty" using False by (cases ty) (simp_all add: file_type_def)
    moreover have "supplies lib ty (data_of es) (data_unpacker ?c) (data_reader ?c)"
    proof (cases "packs_data ty")
      case True
      then have ty: "ty = C_BOOLEAN" using False by (cases ty) (simp_all add: packs_data_def)
      then show ?thesis
        using new_decodes [OF bounded [OF True] sections(5) [OF True], of "junk 0 @ rest"] True sections(4)
        by (simp add: supplies_def data_section_def data_size_def spare_size_def)
    next
      case plain: False
      then have "data_section ?w = concat (map (plain_bytes ty) (data_of es))"
        using sections(4,6) by (cases ty) (simp_all add: data_section_def packs_data_def)
      then show ?thesis using plain sections(4) by (auto simp: supplies_def data_size_def)
    qed
    ultimately show ?thesis using common [of ?c] by (intro exI [of _ ?c]) simp
  next
    case True
    then obtain m where ty: "ty = C_UINT32_BITPACKED m" by blast
    let ?out = "outbuf (data_packer ?w)"
    have data: "data_section ?w = appendUInt32 m @ ?out" "length (appendUInt32 m) = 4" "data_size ?w = 4 + length ?out"
      using sections(4) ty by (simp_all add: data_section_def appendUInt32_def data_size_def spare_size_def)
    then have size: "unat (of_nat (data_size ?w) - 4 :: 64 word) = length ?out"
      using sizes(3) by (simp add: unat_of_nat take_bit_nat_eq_self)
    let ?c' = "?c\<lparr>r_type := ty, data_unpacker := new_decoder m \<lparr>contents = ?out @ junk (spare_size ty) @ rest, limit = length ?out\<rparr>\<rparr>"
    have "message_read 4 \<lparr>contents = ?data, limit = 4\<rparr> = Inr (appendUInt32 m, \<lparr>contents = ?out @ junk (spare_size ty) @ rest, limit = 0\<rparr>)"
      using message_read_append [of "appendUInt32 m" 4 4 "?out @ junk (spare_size ty) @ rest"] data by simp
    then have "new_reader (file_type ty) rm dm (column_body junk ?w @ rest) (bodySize ?w) = Inr ?c'"
      using reader data size ty by (simp add: file_type_def appendUInt32_def ucast_le_value)
    moreover have "supplies lib ty (data_of es) (data_unpacker ?c') (data_reader ?c')"
      using new_decodes [OF bounded sections(5), of "junk (spare_size ty) @ rest"] ty by (simp add: supplies_def packs_data_def)
    ultimately show ?thesis using common [of ?c'] by (intro exI [of _ ?c']) simp
  qed
qed

lemma column_reads:
  assumes "packs lib" and "written lib ty rm dm es w" and "\<forall>e\<in>set es. good_entry ty rm dm e" and "unat rm < 2 ^ 32" and "unat dm < 2 ^ 32"
    and "bodySize (commit_column lib w) < 2 ^ 64" and "\<forall>k. length (junk k) = k"
  shows "\<exists>c c'. new_reader (file_type ty) rm dm (column_body junk (commit_column lib w) @ rest) (bodySize (commit_column lib w)) = Inr c \<and>
    read_values lib (length es) c = Inr (map (read_entry ty) es, c') \<and> eofReached c'"
proof -
  from new_reader_reading [OF assms(2-7), of rest] obtain c where
    c: "new_reader (file_type ty) rm dm (column_body junk (commit_column lib w) @ rest) (bodySize (commit_column lib w)) = Inr c"
       "reading lib ty rm dm es c" "vals_read c = 0" "vals_total c = of_nat (length es)" by blast
  from read_values_reading [OF assms(1) c(2)] c obtain c' where
    "read_values lib (length es) c = Inr (map (read_entry ty) es, c')" "vals_read c' = of_nat (length es)"
    "vals_total c' = of_nat (length es)" by auto
  then show ?thesis using c(1) by (auto simp: eofReached_def)
qed

section \<open>A bit packer\<close>

text \<open>A packer that meets the contract: the numbers as digits of one large number.\<close>

fun number_of_digits :: "nat \<Rightarrow> nat list \<Rightarrow> nat" where
  "number_of_digits b [] = 0"
| "number_of_digits b (x # xs) = x mod b + b * number_of_digits b xs"

fun digits_of_number :: "nat \<Rightarrow> nat \<Rightarrow> nat \<Rightarrow> nat list" where
  "digits_of_number b 0 n = []"
| "digits_of_number b (Suc k) n = (n mod b) # digits_of_number b k (n div b)"

lemma digits_roundtrip: "\<forall>x\<in>set xs. x < b \<Longrightarrow> digits_of_number b (length xs) (number_of_digits b xs) = xs"
  by (induction xs) auto

lemma number_roundtrip: "0 < b \<Longrightarrow> n < b ^ k \<Longrightarrow> number_of_digits b (digits_of_number b k n) = n"
  by (induction k arbitrary: n) (auto simp: less_mult_imp_div_less mult.commute)

lemma number_bounded: "0 < b \<Longrightarrow> number_of_digits b xs < b ^ length xs"
proof (induction xs)
  case (Cons x xs)
  have "number_of_digits b xs + 1 \<le> b ^ length xs" using Cons by simp
  then have "b * (number_of_digits b xs + 1) \<le> b * b ^ length xs" by (rule mult_le_mono2)
  moreover have "x mod b < b" using Cons.prems by simp
  ultimately show ?case by simp
qed simp

lemma length_digits [simp]: "length (digits_of_number b k n) = k"
  by (induction k arbitrary: n) simp_all

definition digit_packer :: simdcomp where
  "digit_packer = \<lparr>
     simdpack = (\<lambda>n xs. map of_nat (digits_of_number 256 (16 * n) (number_of_digits (2 ^ n) (map unat xs)))),
     simdunpack = (\<lambda>n bs. map of_nat (digits_of_number (2 ^ n) 128 (number_of_digits 256 (map unat bs))))\<rparr>"

lemma digit_range: "x \<in> set (digits_of_number b k n) \<Longrightarrow> 0 < b \<Longrightarrow> x < b"
  by (induction k arbitrary: n) auto

lemma digit_packer_packs: "packs digit_packer"
  unfolding packs_def
proof (intro allI impI conjI)
  fix n :: nat and xs :: "32 word list"
  assume n: "0 < n" "n \<le> 32" "length xs = 128"
  show "length (simdpack digit_packer n xs) = 16 * n" by (simp add: digit_packer_def)
  assume small: "\<forall>x\<in>set xs. unat x < 2 ^ n"
  let ?k = "number_of_digits (2 ^ n) (map unat xs)"
  have "?k < (2 ^ n) ^ 128" using number_bounded [of "2 ^ n" "map unat xs"] n(3) by simp
  also have "\<dots> = 2 ^ (8 * (16 * n))" by (subst power_mult [symmetric]) (simp add: mult.commute)
  also have "\<dots> = 256 ^ (16 * n)" by (subst power_mult) simp
  finally have "number_of_digits 256 (digits_of_number 256 (16 * n) ?k) = ?k" by (intro number_roundtrip) simp_all
  moreover have "map (\<lambda>x. unat (of_nat x :: byte)) (digits_of_number 256 (16 * n) ?k) = digits_of_number 256 (16 * n) ?k"
    by (rule map_idI) (auto simp: unat_of_nat take_bit_nat_eq_self dest: digit_range)
  moreover have "digits_of_number (2 ^ n) 128 ?k = map unat xs" using digits_roundtrip [of "map unat xs" "2 ^ n"] small n(3) by simp
  ultimately show "simdunpack digit_packer n (simdpack digit_packer n xs) = xs"
    by (simp add: digit_packer_def comp_def)
qed

section \<open>Properties\<close>

text \<open>
  A column of any type gives back what was written to it. Entries whose levels do not exceed the
  maxima of the column, with a datum of the column's type exactly on the greatest definition level, are
  all accepted; the body written for them, with anything behind it and whatever the unused part of its
  buffer held, opens and yields the same levels and the same data in the same order, and then its end is reached.
\<close>

lemma column_roundtrip:
  assumes "packs lib" and "\<forall>e\<in>set es. good_entry ty rm dm e" and "unat rm < 2 ^ 32" and "unat dm < 2 ^ 32"
    and "\<forall>k. length (junk k) = k"
  shows "\<exists>w. foldR (add_entry lib) (new_writer ty rm dm) es = Inr w \<and>
    (bodySize (commit_column lib w) < 2 ^ 64 \<longrightarrow>
      (\<exists>c c'. new_reader (file_type ty) rm dm (column_body junk (commit_column lib w) @ rest) (bodySize (commit_column lib w)) = Inr c \<and>
        read_values lib (length es) c = Inr (map (read_entry ty) es, c') \<and> eofReached c'))"
proof -
  from add_entries_written [OF assms(2)] obtain w where
    w: "foldR (add_entry lib) (new_writer ty rm dm) es = Inr w" "written lib ty rm dm es w" by blast
  then show ?thesis using column_reads [OF assms(1) w(2) assms(2-4) _ assms(5), of rest] by blast
qed

lemma length_digit_packer: "length (simdpack digit_packer n xs) = 16 * n"
  by (simp add: digit_packer_def)

lemma column_roundtrip_witness:
  "\<exists>w c c'. foldR (add_entry digit_packer) (new_writer C_STRING_PLAIN 1 1) [(0, 1, Some [104, 105]), (1, 0, None)] = Inr w \<and>
    new_reader C_STRING_PLAIN 1 1 (column_body (\<lambda>k. replicate k 0) (commit_column digit_packer w) @ [7])
      (bodySize (commit_column digit_packer w)) = Inr c \<and>
    read_values digit_packer (length [(0, 1, Some [104, 105]), (1 :: 64 word, 0 :: 64 word, None :: byte list option)]) c =
      Inr ([(0, 1, Some [104, 105]), (1, 0, None)], c') \<and> eofReached c'"
proof -
  let ?es = "[(0, 1, Some [104, 105]), (1, 0, None)] :: column_entry list"
  have "\<exists>w. foldR (add_entry digit_packer) (new_writer C_STRING_PLAIN 1 1) ?es = Inr w \<and>
    (bodySize (commit_column digit_packer w) < 2 ^ 64 \<longrightarrow>
      (\<exists>c c'. new_reader (file_type C_STRING_PLAIN) 1 1 (column_body (\<lambda>k. replicate k 0) (commit_column digit_packer w) @ [7])
          (bodySize (commit_column digit_packer w)) = Inr c \<and>
        read_values digit_packer (length ?es) c = Inr (map (read_entry C_STRING_PLAIN) ?es, c') \<and> eofReached c'))"
    by (rule column_roundtrip) (simp_all add: digit_packer_packs good_entry_def)
  then obtain w where w: "foldR (add_entry digit_packer) (new_writer C_STRING_PLAIN 1 1) ?es = Inr w"
    and reads: "bodySize (commit_column digit_packer w) < 2 ^ 64 \<longrightarrow>
      (\<exists>c c'. new_reader (file_type C_STRING_PLAIN) 1 1 (column_body (\<lambda>k. replicate k 0) (commit_column digit_packer w) @ [7])
          (bodySize (commit_column digit_packer w)) = Inr c \<and>
        read_values digit_packer (length ?es) c = Inr (map (read_entry C_STRING_PLAIN) ?es, c') \<and> eofReached c')" by blast
  have "bodySize (commit_column digit_packer w) = 70"
    using w by (auto simp: addDatum_defs addNull_def new_writer_def new_encoder_def encode_level_def Let_def
        bits_def bit_len.simps commit_column_def flush_def bodySize_def data_size_def data_section_def spare_size_def
        packs_data_def appendUInt32_def length_digit_packer)
  moreover have "file_type C_STRING_PLAIN = C_STRING_PLAIN" "map (read_entry C_STRING_PLAIN) ?es = ?es"
    by (simp_all add: file_type_def read_entry_def)
  ultimately show ?thesis using w reads by (intro exI [of _ w]) auto
qed

end
