(* ===== verification/CSTable_Correct.thy ===== *)
theory CSTable_Correct
  imports CSTable Column_Correct
begin

text \<open>
  The file of a columnar table round-trips: its header leads to every column, and the reader of a
  column yields what was stored in it.
\<close>

section \<open>Lengths and places\<close>

lemma length_bytes_of_string [simp]: "length (bytes_of_string s) = length s"
  by (simp add: bytes_of_string_def)

lemma append_lengths [simp]:
  "length (appendUInt16 a) = 2" "length (appendUInt32 b) = 4" "length (appendUInt64 c) = 8"
  by (simp_all add: appendUInt16_def appendUInt32_def appendUInt64_def)

lemma length_column_body: "\<forall>k. length (junk k) = k \<Longrightarrow> length (column_body junk w) = bodySize w"
  by (simp add: column_body_def bodySize_def data_size_def)

definition bodies_size :: "(string \<times> column_writer) list \<Rightarrow> nat" where
  "bodies_size cs = sum_list (map (\<lambda>c. bodySize (snd c)) cs)"

definition headers_size :: "(string \<times> column_writer) list \<Rightarrow> nat" where
  "headers_size cs = sum_list (map (\<lambda>c. 32 + length (fst c)) cs)"

lemma length_column_headers: "length (column_headers off cs) = headers_size cs"
  by (induction cs arbitrary: off) (auto simp: headers_size_def column_header_def)

lemma length_column_bodies: "\<forall>i k. length (junk i k) = k \<Longrightarrow> length (column_bodies junk i cs) = bodies_size cs"
  by (induction cs arbitrary: i) (simp_all add: bodies_size_def length_column_body)

lemma column_bodies_append:
  "column_bodies junk i (cs @ ds) = column_bodies junk i cs @ column_bodies junk (i + length cs) ds"
  by (induction cs arbitrary: i) simp_all

lemma first_body_start: "first_body t = offset t + 4 + of_nat (headers_size (added t))"
proof -
  have "foldl (\<lambda>off c. off + (32 + of_nat (length (fst c)))) a cs = a + of_nat (headers_size cs)"
    for a :: "64 word" and cs :: "(string \<times> column_writer) list"
    by (induction cs arbitrary: a) (simp_all add: headers_size_def)
  then show ?thesis by (simp add: first_body_def)
qed

section \<open>Headers\<close>

definition info_of :: "64 word \<Rightarrow> column_writer \<Rightarrow> stored_column" where
  "info_of off w = \<lparr>ci_type = column_tag (w_type w), ci_body_offset = off, ci_size = of_nat (bodySize w),
     ci_r_max = w_r_max w, ci_d_max = w_d_max w\<rparr>"

fun infos :: "64 word \<Rightarrow> (string \<times> column_writer) list \<Rightarrow> (string \<times> stored_column) list" where
  "infos off [] = []"
| "infos off (c # cs) = (fst c, info_of off (snd c)) # infos (off + of_nat (bodySize (snd c))) cs"

definition named_well :: "string \<times> column_writer \<Rightarrow> bool" where
  "named_well c \<longleftrightarrow> length (fst c) < 2 ^ 32 \<and> unat (w_r_max (snd c)) < 2 ^ 32 \<and> unat (w_d_max (snd c)) < 2 ^ 32"

lemma ucast_down_up: "unat (v :: 64 word) < 2 ^ 32 \<Longrightarrow> ucast (ucast v :: 32 word) = v"
  by (simp add: word_unat_eq_iff unsigned_ucast_eq unsigned_take_bit_eq take_bit_nat_eq_self)

lemma ucast_up_down: "ucast (ucast (v :: byte) :: 32 word) = v"
  by (rule bit_word_eqI) (simp add: bit_simps)

lemma read_column_header:
  assumes "named_well c" and "32 + length (fst c) \<le> l"
  shows "read_column_header \<lparr>contents = column_header off c @ r, limit = l\<rparr> =
    Inr ((fst c, info_of off (snd c)), \<lparr>contents = r, limit = l - (32 + length (fst c))\<rparr>)"
proof -
  obtain name w where c: "c = (name, w)" by (cases c)
  have len: "unat (of_nat (length name) :: 32 word) = length name"
    using assms(1) c by (simp add: named_well_def unat_of_nat take_bit_nat_eq_self)
  have levels: "ucast (ucast (w_r_max w) :: 32 word) = w_r_max w" "ucast (ucast (w_d_max w) :: 32 word) = w_d_max w"
    using assms(1) c by (simp_all add: named_well_def ucast_down_up)
  show ?thesis
    using assms(2) c len levels
    by (simp add: read_column_header_def column_header_def info_of_def message_readUInt32_append message_readUInt64_append
        message_read_append ucast_up_down)
qed

lemma read_column_headers:
  "\<forall>c\<in>set cs. named_well c \<Longrightarrow> headers_size cs \<le> l \<Longrightarrow>
     read_column_headers (length cs) \<lparr>contents = column_headers off cs @ r, limit = l\<rparr> cols = Inr (map_of (infos off cs) ++ cols)"
proof (induction cs arbitrary: off l cols)
  case (Cons c cs)
  have first: "read_column_header \<lparr>contents = column_headers off (c # cs) @ r, limit = l\<rparr> =
      Inr ((fst c, info_of off (snd c)),
        \<lparr>contents = column_headers (off + of_nat (bodySize (snd c))) cs @ r, limit = l - (32 + length (fst c))\<rparr>)"
    using Cons.prems read_column_header [of c l off] by (simp add: headers_size_def)
  have "map_of (infos (off + of_nat (bodySize (snd c))) cs) ++ emplace (fst c) (info_of off (snd c)) cols =
      map_of (infos off (c # cs)) ++ cols"
    by (rule ext) (auto simp: emplace_def map_add_def split: option.splits)
  then show ?case
    using first Cons.IH [of "l - (32 + length (fst c))"] Cons.prems
    by (simp add: headers_size_def del: infos.simps map_of.simps)
qed simp

lemma map_of_infos:
  "name \<notin> fst ` set pre \<Longrightarrow>
     map_of (infos off (pre @ (name, w) # post)) name = Some (info_of (off + of_nat (bodies_size pre)) w)"
  by (induction pre arbitrary: off) (auto simp: bodies_size_def add.assoc)

lemma dom_infos: "dom (map_of (infos off cs)) = fst ` set cs"
  by (induction cs arbitrary: off) auto

section \<open>Opening\<close>

definition stored_bytes :: "(nat \<Rightarrow> nat \<Rightarrow> byte list) \<Rightarrow> 64 word \<Rightarrow> (string \<times> column_writer) list \<Rightarrow> byte list" where
  "stored_bytes junk n cs = commit_cstable junk ((new_cstable n)\<lparr>added := cs\<rparr>)"

lemma stored_bytes:
  "stored_bytes junk n cs = appendUInt32 kMagicBytes @ appendUInt16 kVersion @ appendUInt64 0 @ appendUInt64 n @
     appendUInt32 (of_nat (length cs)) @ column_headers (of_nat (26 + headers_size cs)) cs @ column_bodies junk 0 cs"
  by (simp add: stored_bytes_def commit_cstable_def new_cstable_def Let_def first_body_start add.commute)

lemma length_stored_bytes:
  "\<forall>i k. length (junk i k) = k \<Longrightarrow> length (stored_bytes junk n cs) = 26 + headers_size cs + bodies_size cs"
  by (simp add: stored_bytes length_column_headers length_column_bodies)

lemma message_readUInt16_append:
  "2 \<le> l \<Longrightarrow> message_readUInt16 \<lparr>contents = appendUInt16 v @ r, limit = l\<rparr> = Inr (v, \<lparr>contents = r, limit = l - 2\<rparr>)"
  by (simp add: message_readUInt16_def appendUInt16_def message_read_append ucast_le_value)

lemma open_stored:
  assumes "\<forall>c\<in>set cs. named_well c" and "\<forall>i k. length (junk i k) = k" and "length cs < 2 ^ 32"
  shows "open_cstable (stored_bytes junk n cs) = Inr \<lparr>table_file = stored_bytes junk n cs, num_records = n,
    table_columns = map_of (infos (of_nat (26 + headers_size cs)) cs)\<rparr>"
proof -
  obtain l where l: "length (stored_bytes junk n cs) = 26 + headers_size cs + l"
    using length_stored_bytes [OF assms(2)] by blast
  have len: "unat (of_nat (length cs) :: 32 word) = length cs"
    using assms(3) by (simp add: unat_of_nat take_bit_nat_eq_self)
  obtain off where off: "off = (of_nat (26 + headers_size cs) :: 64 word)" by blast
  have "stored_bytes junk n cs = appendUInt32 kMagicBytes @ appendUInt16 kVersion @ appendUInt64 0 @ appendUInt64 n @
     appendUInt32 (of_nat (length cs)) @ column_headers off cs @ column_bodies junk 0 cs"
    unfolding off by (rule stored_bytes)
  then obtain bs where bs: "bs = stored_bytes junk n cs" "bs = appendUInt32 kMagicBytes @ appendUInt16 kVersion @
      appendUInt64 0 @ appendUInt64 n @ appendUInt32 (of_nat (length cs)) @ column_headers off cs @ column_bodies junk 0 cs"
    by simp
  have "open_cstable bs = Inr \<lparr>table_file = bs, num_records = n, table_columns = map_of (infos off cs)\<rparr>"
    using l assms(1) unfolding open_cstable_def bs(1) [symmetric]
    by (subst (1) bs(2)) (simp add: message_readUInt32_append message_readUInt16_append message_readUInt64_append len
        read_column_headers)
  then show ?thesis by (simp add: bs(1) off)
qed

lemma drop_stored:
  assumes "\<forall>i k. length (junk i k) = k" and "cs = pre @ (name, w) # post"
  shows "drop (26 + headers_size cs + bodies_size pre) (stored_bytes junk n cs) =
    column_body (junk (length pre)) w @ column_bodies junk (Suc (length pre)) post"
proof -
  let ?front = "appendUInt32 kMagicBytes @ appendUInt16 kVersion @ appendUInt64 0 @ appendUInt64 n @
     appendUInt32 (of_nat (length cs)) @ column_headers (of_nat (26 + headers_size cs)) cs"
  have "stored_bytes junk n cs = (?front @ column_bodies junk 0 pre) @
      column_body (junk (length pre)) w @ column_bodies junk (Suc (length pre)) post"
    unfolding stored_bytes by (simp add: assms(2) column_bodies_append)
  moreover have "length (?front @ column_bodies junk 0 pre) = 26 + headers_size cs + bodies_size pre"
    using assms(1) by (simp add: length_column_headers length_column_bodies)
  ultimately show ?thesis by (metis append_eq_conv_conj)
qed

section \<open>The whole table\<close>

type_synonym table_column = "string \<times> column_type \<times> 64 word \<times> 64 word \<times> column_entry list"

fun store_columns :: "simdcomp \<Rightarrow> table_column list \<Rightarrow> cstable_writer \<Rightarrow> cstable_writer result" where
  "store_columns lib [] t = Inr t"
| "store_columns lib ((name, ty, rm, dm, es) # cs) t =
     bindR (foldR (add_entry lib) (new_writer ty rm dm) es) (\<lambda>w. store_columns lib cs (addColumn lib name w t))"

definition good_column :: "table_column \<Rightarrow> bool" where
  "good_column c \<longleftrightarrow> (case c of (name, ty, rm, dm, es) \<Rightarrow>
     length name < 2 ^ 32 \<and> unat rm < 2 ^ 32 \<and> unat dm < 2 ^ 32 \<and> (\<forall>e\<in>set es. good_entry ty rm dm e))"

text \<open>
  The column \<open>c\<close> of the open table \<open>tab\<close> reads as it was stored: its reader holds the entries, and
  hands them out.
\<close>

definition opens_as :: "simdcomp \<Rightarrow> cstable_reader \<Rightarrow> table_column \<Rightarrow> bool" where
  "opens_as lib tab c \<longleftrightarrow> (case c of (name, ty, rm, dm, es) \<Rightarrow>
     \<exists>r. getColumnReader tab name = Inr r \<and> reading lib ty rm dm es r \<and> r_max r = rm \<and> vals_read r = 0 \<and>
       vals_total r = of_nat (length es))"

definition reads_back :: "simdcomp \<Rightarrow> cstable_reader \<Rightarrow> table_column \<Rightarrow> bool" where
  "reads_back lib tab c \<longleftrightarrow> (case c of (name, ty, rm, dm, es) \<Rightarrow>
     \<exists>r r'. getColumnReader tab name = Inr r \<and> read_values lib (length es) r = Inr (map (read_entry ty) es, r') \<and> eofReached r')"

lemma opens_reads: "packs lib \<Longrightarrow> opens_as lib tab c \<Longrightarrow> reads_back lib tab c"
  using read_values_reading [of lib] by (fastforce simp: opens_as_def reads_back_def eofReached_def)

lemma new_reader_r_max: "new_reader ty r d bs n = Inr c \<Longrightarrow> r_max c = r"
  by (cases ty) (auto simp: new_reader_def bindR_eq_Inr_iff Let_def)

definition stored_as :: "simdcomp \<Rightarrow> table_column \<Rightarrow> string \<times> column_writer \<Rightarrow> bool" where
  "stored_as lib c nw \<longleftrightarrow> (case c of (name, ty, rm, dm, es) \<Rightarrow>
     fst nw = name \<and> (\<exists>w. written lib ty rm dm es w \<and> snd nw = commit_column lib w))"

lemma store_columns_stored:
  "\<forall>c\<in>set cs. good_column c \<Longrightarrow>
     \<exists>ws. store_columns lib cs t = Inr (t\<lparr>added := added t @ ws\<rparr>) \<and> list_all2 (stored_as lib) cs ws"
proof (induction cs arbitrary: t)
  case (Cons c cs)
  obtain name ty rm dm es where c: "c = (name, ty, rm, dm, es)" by (cases c)
  obtain w where w: "foldR (add_entry lib) (new_writer ty rm dm) es = Inr w" "written lib ty rm dm es w"
    using add_entries_written [of es ty rm dm lib] Cons.prems c by (auto simp: good_column_def)
  obtain ws where ws: "store_columns lib cs (addColumn lib name w t) =
      Inr ((addColumn lib name w t)\<lparr>added := added (addColumn lib name w t) @ ws\<rparr>)" "list_all2 (stored_as lib) cs ws"
    using Cons by auto
  moreover have "stored_as lib c (name, commit_column lib w)" using c w(2) by (auto simp: stored_as_def)
  ultimately show ?case
    using c w by (intro exI [of _ "(name, commit_column lib w) # ws"]) (auto simp: addColumn_def)
qed simp

lemma stored_named:
  "list_all2 (stored_as lib) cs ws \<Longrightarrow> \<forall>c\<in>set cs. good_column c \<Longrightarrow> \<forall>w\<in>set ws. named_well w"
  by (induction rule: list_all2_induct)
     (auto simp: stored_as_def good_column_def named_well_def written_def commit_column_def Let_def)

lemma stored_names: "list_all2 (stored_as lib) cs ws \<Longrightarrow> map fst ws = map fst cs"
  by (induction rule: list_all2_induct) (auto simp: stored_as_def)

lemma stored_column_opens:
  assumes "packs lib" and "\<forall>i k. length (junk i k) = k" and "distinct (map fst ws)"
    and "length (stored_bytes junk n ws) < 2 ^ 64"
    and "ws = pre @ (name, w) # post" and "stored_as lib (name, ty, rm, dm, es) (name, w)" and "good_column (name, ty, rm, dm, es)"
  shows "opens_as lib \<lparr>table_file = stored_bytes junk n ws, num_records = n,
    table_columns = map_of (infos (of_nat (26 + headers_size ws)) ws)\<rparr> (name, ty, rm, dm, es)"
proof -
  obtain v where v: "written lib ty rm dm es v" "w = commit_column lib v" using assms(6) by (auto simp: stored_as_def)
  have sizes: "bodySize w < 2 ^ 64" "26 + headers_size ws + bodies_size pre < 2 ^ 64"
    using assms(4) length_stored_bytes [OF assms(2), of n ws] assms(5) by (auto simp: bodies_size_def)
  have "map_of (infos (of_nat (26 + headers_size ws)) ws) name =
      Some (info_of (of_nat (26 + headers_size ws) + of_nat (bodies_size pre)) w)"
    using assms(3) unfolding assms(5) by (intro map_of_infos) auto
  then have found: "map_of (infos (of_nat (26 + headers_size ws)) ws) name =
      Some (info_of (of_nat (26 + headers_size ws + bodies_size pre)) w)"
    by (simp only: of_nat_add)
  have place: "unat (of_nat (26 + headers_size ws + bodies_size pre) :: 64 word) = 26 + headers_size ws + bodies_size pre"
    "unat (of_nat (bodySize w) :: 64 word) = bodySize w"
    using sizes by (simp_all only: unat_of_nat take_bit_nat_eq_self mod_less) simp_all
  have body: "drop (26 + headers_size ws + bodies_size pre) (stored_bytes junk n ws) =
      column_body (junk (length pre)) w @ column_bodies junk (Suc (length pre)) post"
    by (rule drop_stored [OF assms(2,5)])
  have levels: "w_type w = ty" "w_r_max w = rm" "w_d_max w = dm"
    using v by (simp_all add: written_def commit_column_def Let_def)
  obtain start where start: "start = 26 + headers_size ws + bodies_size pre" by blast
  have "getColumnReader \<lparr>table_file = stored_bytes junk n ws, num_records = n,
      table_columns = map_of (infos (of_nat (26 + headers_size ws)) ws)\<rparr> name =
    new_reader (file_type ty) rm dm (column_body (junk (length pre)) w @ column_bodies junk (Suc (length pre)) post) (bodySize w)"
    using found place body levels by (simp add: getColumnReader_def info_of_def type_of_tag flip: start)
  moreover have "\<exists>c. new_reader (file_type ty) rm dm
      (column_body (junk (length pre)) w @ column_bodies junk (Suc (length pre)) post) (bodySize w) = Inr c \<and>
      reading lib ty rm dm es c \<and> vals_read c = 0 \<and> vals_total c = of_nat (length es)"
    using new_reader_reading [OF v(1), of "junk (length pre)"] assms(2,7) sizes(1) v(2) by (simp add: good_column_def)
  ultimately show ?thesis using new_reader_r_max by (auto simp: opens_as_def)
qed

lemma stored_opens:
  assumes "packs lib" and "\<forall>i k. length (junk i k) = k" and "distinct (map fst cs)" and "\<forall>c\<in>set cs. good_column c"
    and "list_all2 (stored_as lib) cs ws" and "length (stored_bytes junk n ws) < 2 ^ 64"
  shows "\<forall>c\<in>set cs. opens_as lib \<lparr>table_file = stored_bytes junk n ws, num_records = n,
    table_columns = map_of (infos (of_nat (26 + headers_size ws)) ws)\<rparr> c"
proof
  fix c assume c: "c \<in> set cs"
  then obtain pre post where split: "cs = pre @ c # post" by (metis split_list)
  then obtain pre' w post' where ws: "ws = pre' @ w # post'" and w: "stored_as lib c w"
    using assms(5) by (auto simp: list_all2_append1 list_all2_Cons1)
  obtain name ty rm dm es where ce: "c = (name, ty, rm, dm, es)" by (cases c)
  then have we: "w = (name, snd w)" using w by (cases w) (simp add: stored_as_def)
  show "opens_as lib \<lparr>table_file = stored_bytes junk n ws, num_records = n,
    table_columns = map_of (infos (of_nat (26 + headers_size ws)) ws)\<rparr> c"
    unfolding ce
  proof (rule stored_column_opens [OF assms(1,2) _ assms(6)])
    show "distinct (map fst ws)" using assms(3) stored_names [OF assms(5)] by simp
    show "ws = pre' @ (name, snd w) # post'" using ws we by simp
    show "stored_as lib (name, ty, rm, dm, es) (name, snd w)" using w we ce by simp
    show "good_column (name, ty, rm, dm, es)" using assms(4) c ce by blast
  qed
qed

lemma stored_table:
  assumes "packs lib" and "\<forall>i k. length (junk i k) = k" and "distinct (map fst cs)" and "\<forall>c\<in>set cs. good_column c"
    and "length cs < 2 ^ 32"
  shows "\<exists>t. store_columns lib cs (new_cstable n) = Inr t \<and>
    (length (commit_cstable junk t) < 2 ^ 64 \<longrightarrow>
      (\<exists>tab. open_cstable (commit_cstable junk t) = Inr tab \<and> num_records tab = n \<and>
        (\<forall>name. hasColumn tab name \<longleftrightarrow> name \<in> fst ` set cs) \<and> (\<forall>c\<in>set cs. opens_as lib tab c)))"
proof -
  from store_columns_stored [OF assms(4)] obtain ws where
    ws: "store_columns lib cs (new_cstable n) = Inr ((new_cstable n)\<lparr>added := added (new_cstable n) @ ws\<rparr>)"
    and stored: "list_all2 (stored_as lib) cs ws" by blast
  have bytes: "commit_cstable junk ((new_cstable n)\<lparr>added := added (new_cstable n) @ ws\<rparr>) = stored_bytes junk n ws"
    by (simp add: stored_bytes_def new_cstable_def Let_def)
  have "length ws < 2 ^ 32" using assms(5) list_all2_lengthD [OF stored] by simp
  note opened = open_stored [OF stored_named [OF stored assms(4)] assms(2) this, of n]
  have names: "fst ` set ws = fst ` set cs" using stored_names [OF stored] by (metis list.set_map)
  show ?thesis
    unfolding ws using opened names stored_opens [OF assms(1-4) stored, of n]
    by (auto simp: bytes hasColumn_def dom_infos)
qed

text \<open>
  C6. A columnar table survives its file. Columns with distinct names, each with entries that fit it, are
  accepted by the writer; when the file is smaller than 2 ^ 64 bytes it opens, has the given number of
  records and exactly these columns, and the reader of each column yields the levels and the data that
  were stored in it, then reports its end.
\<close>

theorem cstable_roundtrip:
  assumes "packs lib" and "\<forall>i k. length (junk i k) = k" and "distinct (map fst cs)" and "\<forall>c\<in>set cs. good_column c"
    and "length cs < 2 ^ 32"
  shows "\<exists>t. store_columns lib cs (new_cstable n) = Inr t \<and>
    (length (commit_cstable junk t) < 2 ^ 64 \<longrightarrow>
      (\<exists>tab. open_cstable (commit_cstable junk t) = Inr tab \<and> num_records tab = n \<and>
        (\<forall>name. hasColumn tab name \<longleftrightarrow> name \<in> fst ` set cs) \<and> (\<forall>c\<in>set cs. reads_back lib tab c)))"
proof -
  from stored_table [OF assms, of n] obtain t where t: "store_columns lib cs (new_cstable n) = Inr t"
    and opens: "length (commit_cstable junk t) < 2 ^ 64 \<longrightarrow>
      (\<exists>tab. open_cstable (commit_cstable junk t) = Inr tab \<and> num_records tab = n \<and>
        (\<forall>name. hasColumn tab name \<longleftrightarrow> name \<in> fst ` set cs) \<and> (\<forall>c\<in>set cs. opens_as lib tab c))" by blast
  show ?thesis
  proof (intro exI [of _ t] conjI impI t)
    assume "length (commit_cstable junk t) < 2 ^ 64"
    then obtain tab where "open_cstable (commit_cstable junk t) = Inr tab" "num_records tab = n"
      "\<forall>name. hasColumn tab name \<longleftrightarrow> name \<in> fst ` set cs" "\<forall>c\<in>set cs. opens_as lib tab c" using opens by blast
    then show "\<exists>tab. open_cstable (commit_cstable junk t) = Inr tab \<and> num_records tab = n \<and>
        (\<forall>name. hasColumn tab name \<longleftrightarrow> name \<in> fst ` set cs) \<and> (\<forall>c\<in>set cs. reads_back lib tab c)"
      using opens_reads [OF assms(1)] by (intro exI [of _ tab]) simp
  qed
qed

theorem cstable_roundtrip_witness:
  "\<exists>t tab. store_columns digit_packer [(''id'', C_UINT64_LEB128, 0, 0, [(0, 0, Some [1, 2, 0, 0])]),
        (''ok'', C_BOOLEAN, 1, 1, [(0, 1, Some [9]), (1, 0, None)])] (new_cstable 1) = Inr t \<and>
    open_cstable (commit_cstable (\<lambda>i k. replicate k 0) t) = Inr tab \<and> num_records tab = 1 \<and>
    (\<forall>name. hasColumn tab name \<longleftrightarrow> name = ''id'' \<or> name = ''ok'') \<and>
    reads_back digit_packer tab (''ok'', C_BOOLEAN, 1, 1, [(0, 1, Some [9]), (1, 0, None)])"
proof -
  let ?cs = "[(''id'', C_UINT64_LEB128, 0, 0, [(0, 0, Some [1, 2, 0, 0])]),
    (''ok'', C_BOOLEAN, 1, 1, [(0, 1, Some [9]), (1, 0, None)])] :: table_column list"
  have "\<exists>t. store_columns digit_packer ?cs (new_cstable 1) = Inr t \<and>
    (length (commit_cstable (\<lambda>i k. replicate k 0) t) < 2 ^ 64 \<longrightarrow>
      (\<exists>tab. open_cstable (commit_cstable (\<lambda>i k. replicate k 0) t) = Inr tab \<and> num_records tab = 1 \<and>
        (\<forall>name. hasColumn tab name \<longleftrightarrow> name \<in> fst ` set ?cs) \<and> (\<forall>c\<in>set ?cs. reads_back digit_packer tab c)))"
    by (rule cstable_roundtrip) (simp_all add: digit_packer_packs good_column_def good_entry_def)
  then obtain t where t: "store_columns digit_packer ?cs (new_cstable 1) = Inr t" and opens:
    "length (commit_cstable (\<lambda>i k. replicate k 0) t) < 2 ^ 64 \<longrightarrow>
      (\<exists>tab. open_cstable (commit_cstable (\<lambda>i k. replicate k 0) t) = Inr tab \<and> num_records tab = 1 \<and>
        (\<forall>name. hasColumn tab name \<longleftrightarrow> name \<in> fst ` set ?cs) \<and> (\<forall>c\<in>set ?cs. reads_back digit_packer tab c))" by blast
  have "\<exists>ws. t = (new_cstable 1)\<lparr>added := ws\<rparr> \<and> headers_size ws + bodies_size ws < 1000"
    using t by (auto simp: addDatum_defs addNull_def new_writer_def new_encoder_def encode_level_def Let_def
        bits_def bit_len.simps commit_column_def flush_def bodySize_def data_size_def data_section_def spare_size_def
        packs_data_def length_digit_packer addColumn_def new_cstable_def headers_size_def bodies_size_def appendVarUInt.simps)
  then obtain ws where "t = (new_cstable 1)\<lparr>added := ws\<rparr>" "headers_size ws + bodies_size ws < 1000" by blast
  then have "length (commit_cstable (\<lambda>i k. replicate k 0) t) < 2 ^ 64"
    using length_stored_bytes [of "\<lambda>i k. replicate k 0" 1 ws] by (simp add: stored_bytes_def)
  then obtain tab where "open_cstable (commit_cstable (\<lambda>i k. replicate k 0) t) = Inr tab" "num_records tab = 1"
    "\<forall>name. hasColumn tab name \<longleftrightarrow> name \<in> fst ` set ?cs" "\<forall>c\<in>set ?cs. reads_back digit_packer tab c"
    using opens by blast
  then show ?thesis using t by (intro exI [of _ t] exI [of _ tab]) (simp del: store_columns.simps)
qed

end
