(* ===== verification/CSTable_Scan_Correct.thy ===== *)
theory CSTable_Scan_Correct
  imports CSTable_Scan CSTable_Correct
begin

text \<open>
  What the scan of a columnar table means. The readers of the columns are replaced by the lists of the
  values they will hand out, and these by the sequence of rows the scan puts together; on a table without
  repeated values, the sequence is its records.
\<close>

section \<open>A reader as a list of values\<close>

definition entry_value :: "column_type \<Rightarrow> 64 word \<Rightarrow> column_entry \<Rightarrow> 64 word \<times> svalue" where
  "entry_value ty dm e = (case e of (r, d, bs) \<Rightarrow> (r, scan_value ty dm d (map_option (stored ty) bs)))"

definition hands_out :: "simdcomp \<Rightarrow> 64 word \<Rightarrow> (64 word \<times> svalue) list \<Rightarrow> column_reader \<Rightarrow> bool" where
  "hands_out lib rm vs c \<longleftrightarrow> r_max c = rm \<and> (\<exists>ty dm es. reading lib ty rm dm es c \<and> vs = map (entry_value ty dm) es)"

definition pending_level :: "(64 word \<times> svalue) list \<Rightarrow> 64 word" where
  "pending_level vs = (case vs of [] \<Rightarrow> 0 | v # _ \<Rightarrow> fst v)"

lemma next_datum_fixed:
  "next_datum lib c = Inr (bs, c') \<Longrightarrow> r_type c' = r_type c \<and> r_max c' = r_max c \<and> d_max c' = d_max c"
  by (cases "r_type c") (auto simp: next_datum_defs bindR_eq_Inr_iff)

lemma next_value_fixed:
  "next_value lib c = Inr (e, c') \<Longrightarrow> r_type c' = r_type c \<and> r_max c' = r_max c \<and> d_max c' = d_max c"
  by (auto simp: next_value_def bindR_eq_Inr_iff Let_def dest!: next_datum_fixed split: if_splits)

lemma hands_out_level:
  assumes "packs lib" and "hands_out lib rm vs c"
  shows "\<exists>c'. nextRepetitionLevel lib c = Inr (pending_level vs, c') \<and> hands_out lib rm vs c' \<and>
    r_type c' = r_type c \<and> d_max c' = d_max c"
proof -
  obtain ty dm es where c: "reading lib ty rm dm es c" "vs = map (entry_value ty dm) es" "r_max c = rm"
    using assms(2) by (auto simp: hands_out_def)
  have "\<exists>d'. fetch lib False (rlvl_reader c) = Inr (ucast (pending_level vs), d') \<and>
      decodes lib (bits (ucast rm)) (fst (levels es)) d'"
  proof (cases es)
    case Nil
    then show ?thesis using fetch_decoded [OF assms(1), of _ "rlvl_reader c"] c
      by (simp add: reading_def levels_def pending_level_def)
  next
    case (Cons e es')
    then show ?thesis
      using fetch_decodes(2) [OF assms(1), of _ "ucast (fst e)" "fst (levels es')" "rlvl_reader c"] c
      by (cases e) (simp add: reading_def levels_Cons pending_level_def entry_value_def)
  qed
  then obtain rl where rl: "fetch lib False (rlvl_reader c) = Inr (ucast (pending_level vs), rl)"
    "decodes lib (bits (ucast rm)) (fst (levels es)) rl" by blast
  have "unat (pending_level vs) < 2 ^ 32"
  proof (cases es)
    case (Cons e es')
    then have "pending_level vs \<le> rm" "unat rm < 2 ^ 32"
      using c by (auto simp: reading_def good_entry_def pending_level_def entry_value_def split: prod.splits)
    then show ?thesis by (simp add: word_le_nat_alt)
  qed (simp add: c pending_level_def)
  then have "nextRepetitionLevel lib c = Inr (pending_level vs, c\<lparr>rlvl_reader := rl\<rparr>)"
    using rl(1) by (simp add: nextRepetitionLevel_def ucast_32_64)
  moreover have "reading lib ty rm dm es (c\<lparr>rlvl_reader := rl\<rparr>)" using c(1) rl(2) by (simp add: reading_def)
  ultimately show ?thesis using c by (intro exI [of _ "c\<lparr>rlvl_reader := rl\<rparr>"]) (auto simp: hands_out_def)
qed

lemma hands_out_next:
  assumes "packs lib" and "hands_out lib rm ((r, v) # vs) c"
  shows "\<exists>d data c'. next_value lib c = Inr ((r, d, data), c') \<and> scan_value (r_type c) (d_max c) d data = v \<and> hands_out lib rm vs c'"
proof -
  obtain ty dm e es where c: "reading lib ty rm dm (e # es) c" "(r, v) = entry_value ty dm e" "vs = map (entry_value ty dm) es"
      "r_max c = rm"
    using assms(2) by (auto simp: hands_out_def)
  obtain d bs where e: "e = (r, d, bs)" using c(2) by (cases e) (simp add: entry_value_def)
  from next_value_reading [OF assms(1) c(1)] obtain c' where
    c': "next_value lib c = Inr (read_entry ty e, c')" "reading lib ty rm dm es c'" by blast
  have "hands_out lib rm vs c'" using next_value_fixed [OF c'(1)] c'(2) c(3,4) by (auto simp: hands_out_def)
  moreover have "r_type c = ty" "d_max c = dm" using c(1) by (simp_all add: reading_def)
  ultimately show ?thesis
    using c'(1) c(2) e by (intro exI [of _ d] exI [of _ "map_option (stored ty) bs"] exI [of _ c'])
      (simp add: read_entry_def entry_value_def)
qed

section \<open>The sequence of rows\<close>

text \<open>A column in the model of the scan: its place in the row and the values to come.\<close>

type_synonym value_column = "nat \<times> (64 word \<times> svalue) list"

definition belongs :: "64 word \<Rightarrow> value_column \<Rightarrow> bool" where
  "belongs level c \<longleftrightarrow> level \<le> pending_level (snd c)"

definition rest_of :: "64 word \<Rightarrow> value_column \<Rightarrow> value_column" where
  "rest_of level c = (if belongs level c then (fst c, tl (snd c)) else c)"

definition updates :: "64 word \<Rightarrow> value_column list \<Rightarrow> (nat \<times> svalue) list" where
  "updates level cols = map (\<lambda>c. (fst c, snd (hd (snd c)))) (filter (belongs level) cols)"

definition fill :: "(nat \<times> svalue) list \<Rightarrow> svalue list \<Rightarrow> svalue list" where
  "fill ups row = foldl (\<lambda>r (i, v). r[i := v]) row ups"

definition level_after :: "value_column list \<Rightarrow> 64 word \<Rightarrow> 64 word" where
  "level_after cols level = foldl (\<lambda>m c. max m (pending_level (snd c))) level cols"

text \<open>\<open>delivers n level cols ds\<close>: \<open>n\<close> records of the columns are the rows \<open>ds\<close>, the next one to fetch at \<open>level\<close>.\<close>

inductive delivers :: "nat \<Rightarrow> 64 word \<Rightarrow> value_column list \<Rightarrow> ((nat \<times> svalue) list \<times> 64 word) list \<Rightarrow> bool" where
  delivers_end: "delivers 0 level cols []"
| delivers_row: "\<lbrakk>\<forall>c\<in>set cols. belongs level c \<longrightarrow> snd c \<noteq> []; level' = level_after (map (rest_of level) cols) 0;
     delivers (if level' = 0 then n else Suc n) level' (map (rest_of level) cols) ds\<rbrakk> \<Longrightarrow>
   delivers (Suc n) level cols ((updates level cols, level') # ds)"

definition column_of :: "simdcomp \<Rightarrow> scan_column \<Rightarrow> 64 word \<times> value_column \<Rightarrow> bool" where
  "column_of lib col c \<longleftrightarrow> row_index col = fst (snd c) \<and> hands_out lib (fst c) (snd (snd c)) (col_reader col)"

lemma fetch_column_of:
  assumes "packs lib" and "column_of lib col (rm, c)" and "belongs level c \<longrightarrow> snd c \<noteq> []"
  shows "\<exists>col'. fetch_column lib level col row = Inr (col', fill (updates level [c]) row) \<and> column_of lib col' (rm, rest_of level c)"
proof -
  obtain i vs where c: "c = (i, vs)" by (cases c)
  have col: "row_index col = i" "hands_out lib rm vs (col_reader col)" using assms(2) c by (simp_all add: column_of_def)
  from hands_out_level [OF assms(1) col(2)] obtain c1 where
    c1: "nextRepetitionLevel lib (col_reader col) = Inr (pending_level vs, c1)" "hands_out lib rm vs c1" by blast
  show ?thesis
  proof (cases "pending_level vs < level")
    case True
    then have "\<not> belongs level c" by (simp add: belongs_def c not_le)
    then show ?thesis using True c1 col c
      by (intro exI [of _ "col\<lparr>col_reader := c1\<rparr>"]) (simp add: fetch_column_def updates_def fill_def rest_of_def column_of_def)
  next
    case False
    then have b: "belongs level c" by (simp add: belongs_def c not_less)
    then obtain r v vs' where vs: "vs = (r, v) # vs'" using assms(3) c by (cases vs) auto
    from hands_out_next [OF assms(1), of rm r v vs' c1] c1(2) vs obtain d data c2 where
      "next_value lib c1 = Inr ((r, d, data), c2)" "scan_value (r_type c1) (d_max c1) d data = v" "hands_out lib rm vs' c2" by auto
    then show ?thesis using False b c1 col c vs
      by (intro exI [of _ "col\<lparr>col_reader := c2\<rparr>"]) (simp add: fetch_column_def updates_def fill_def rest_of_def column_of_def)
  qed
qed

lemma fetch_columns_of:
  assumes "packs lib"
  shows "list_all2 (column_of lib) cols cs \<Longrightarrow> \<forall>c\<in>snd ` set cs. belongs level c \<longrightarrow> snd c \<noteq> [] \<Longrightarrow>
    \<exists>cols'. fetch_columns lib level cols row m =
        Inr (cols', fill (updates level (map snd cs)) row, level_after (map (\<lambda>c. rest_of level (snd c)) cs) m) \<and>
      list_all2 (column_of lib) cols' (map (\<lambda>c. (fst c, rest_of level (snd c))) cs)"
proof (induction cols cs arbitrary: row m rule: list_all2_induct)
  case (Cons col cols c cs)
  obtain rm vc where c: "c = (rm, vc)" by (cases c)
  from fetch_column_of [OF assms, of col rm vc level row] Cons.hyps(1) Cons.prems c obtain col' where
    col': "fetch_column lib level col row = Inr (col', fill (updates level [vc]) row)" "column_of lib col' (rm, rest_of level vc)"
    by auto
  from hands_out_level [OF assms, of rm "snd (rest_of level vc)" "col_reader col'"] col'(2) obtain r where
    r: "nextRepetitionLevel lib (col_reader col') = Inr (pending_level (snd (rest_of level vc)), r)"
       "hands_out lib rm (snd (rest_of level vc)) r" by (auto simp: column_of_def)
  from Cons.IH [of "fill (updates level [vc]) row" "max m (pending_level (snd (rest_of level vc)))"] Cons.prems obtain cols' where
    cols': "fetch_columns lib level cols (fill (updates level [vc]) row) (max m (pending_level (snd (rest_of level vc)))) =
        Inr (cols', fill (updates level (map snd cs)) (fill (updates level [vc]) row),
          level_after (map (\<lambda>c. rest_of level (snd c)) cs) (max m (pending_level (snd (rest_of level vc)))))"
      "list_all2 (column_of lib) cols' (map (\<lambda>c. (fst c, rest_of level (snd c))) cs)" by auto
  have "column_of lib (col'\<lparr>col_reader := r\<rparr>) (rm, rest_of level vc)" using col'(2) r(2) by (simp add: column_of_def)
  then show ?case
    using col'(1) r(1) cols' c
    by (intro exI [of _ "col'\<lparr>col_reader := r\<rparr> # cols'"]) (simp add: updates_def fill_def level_after_def)
qed (simp add: updates_def fill_def level_after_def)

text \<open>The scan over a sequence of rows.\<close>

fun run_rows ::
  "vm_program option \<Rightarrow> aggregation_strategy \<Rightarrow> 's row_callback \<Rightarrow> (nat \<times> 64 word) list \<Rightarrow>
     ((nat \<times> svalue) list \<times> 64 word) list \<Rightarrow> 's scan_state \<Rightarrow> 's scan_state result" where
  "run_rows wh strategy fn places [] st = scan_end strategy fn st"
| "run_rows wh strategy fn places ((ups, level) # ds) st =
     bindR (process_row wh strategy fn places level (st\<lparr>in_row := fill ups (in_row st), rows_scanned := rows_scanned st + 1\<rparr>))
       (\<lambda>(st', more). if more then run_rows wh strategy fn places ds st' else Inr st')"

lemma emit_row_fixed:
  "emit_row strategy level fn st = Inr (st', cont) \<Longrightarrow>
     fetch_level st' = fetch_level st \<and> records_done st' = records_done st \<and> in_row st' = in_row st"
  by (cases strategy) (auto simp: emit_row_def bindR_eq_Inr_iff Let_def split: if_splits)

lemma process_row_levels:
  "process_row wh strategy fn places level st = Inr (st', True) \<Longrightarrow>
     fetch_level st' = level \<and> records_done st' = (if level = 0 then records_done st + 1 else records_done st)"
  by (auto simp: process_row_def bindR_eq_Inr_iff Let_def split: if_splits dest!: emit_row_fixed)

definition places_of :: "(64 word \<times> value_column) list \<Rightarrow> (nat \<times> 64 word) list" where
  "places_of cs = map (\<lambda>c. (fst (snd c), fst c)) cs"

lemma column_places_of: "list_all2 (column_of lib) cols cs \<Longrightarrow> column_places cols = places_of cs"
  by (induction rule: list_all2_induct) (auto simp: column_places_def places_of_def column_of_def hands_out_def)

lemma places_of_rest: "places_of (map (\<lambda>c. (fst c, rest_of level (snd c))) cs) = places_of cs"
  by (simp add: places_of_def rest_of_def)

lemma scan_delivers:
  assumes "packs lib"
  shows "delivers n level vcs ds \<Longrightarrow> vcs = map snd cs \<Longrightarrow> list_all2 (column_of lib) cols cs \<Longrightarrow> fetch_level st = level \<Longrightarrow>
    unat (records_done st) + n = unat records \<Longrightarrow> length ds \<le> fuel \<Longrightarrow>
    scan_loop lib wh strategy records fn fuel cols st = run_rows wh strategy fn (places_of cs) ds st"
proof (induction arbitrary: cs cols st fuel rule: delivers.induct)
  case (delivers_end level vcs)
  then have "records \<le> records_done st" by (simp add: word_le_nat_alt)
  then show ?case by (simp add: scan_loop.simps)
next
  case (delivers_row vcs level level' n ds)
  obtain fuel' where fuel: "fuel = Suc fuel'" "length ds \<le> fuel'" using delivers_row.prems(5) by (cases fuel) auto
  have more: "\<not> records \<le> records_done st" using delivers_row.prems(4) by (simp add: word_le_nat_alt)
  let ?cs = "map (\<lambda>c. (fst c, rest_of level (snd c))) cs"
  have vcs: "map (rest_of level) vcs = map snd ?cs" using delivers_row.prems(1) by simp
  obtain cols' where cols': "fetch_columns lib level cols (in_row st) 0 = Inr (cols', fill (updates level vcs) (in_row st), level')"
      "list_all2 (column_of lib) cols' ?cs"
    using fetch_columns_of [OF assms delivers_row.prems(2), of level "in_row st" 0] delivers_row.hyps(1,2) delivers_row.prems(1)
    by (auto simp: image_def comp_def)
  let ?st = "st\<lparr>in_row := fill (updates level vcs) (in_row st), rows_scanned := rows_scanned st + 1\<rparr>"
  have step: "scan_step lib wh strategy fn cols st =
      bindR (process_row wh strategy fn (places_of cs) level' ?st) (\<lambda>(st', more). Inr (cols', st', more))"
    using cols' column_places_of [OF cols'(2)] delivers_row.prems(3) by (simp add: scan_step_def places_of_rest)
  show ?case
  proof (cases "process_row wh strategy fn (places_of cs) level' ?st")
    case (Inl e)
    then show ?thesis using more fuel(1) step by (simp add: scan_loop.simps [of _ _ _ _ _ "Suc fuel'"])
  next
    case (Inr r)
    obtain st' more' where r: "r = (st', more')" by (cases r)
    show ?thesis
    proof (cases more')
      case False
      then show ?thesis using more fuel(1) step Inr r by (simp add: scan_loop.simps [of _ _ _ _ _ "Suc fuel'"])
    next
      case True
      have levels: "fetch_level st' = level'" "records_done st' = (if level' = 0 then records_done st + 1 else records_done st)"
        using process_row_levels [of wh strategy fn "places_of cs" level' ?st st'] Inr r True by auto
      have "unat (records_done st + 1) = unat (records_done st) + 1"
        using delivers_row.prems(4) unsigned_less [of records, where 'a = nat] by (simp add: unat_word_ariths)
      then have count: "unat (records_done st') + (if level' = 0 then n else Suc n) = unat records"
        using delivers_row.prems(4) levels(2) by simp
      have "scan_loop lib wh strategy records fn fuel' cols' st' = run_rows wh strategy fn (places_of ?cs) ds st'"
        by (rule delivers_row.IH [OF vcs cols'(2) levels(1) count fuel(2)])
      then show ?thesis using more fuel(1) step Inr r True places_of_rest
        by (simp add: scan_loop.simps [of _ _ _ _ _ "Suc fuel'"])
    qed
  qed
qed

section \<open>Tables without repeated values\<close>

text \<open>The column at place \<open>i\<close> of the row holds the values \<open>f i\<close>, one for each record.\<close>

definition flat_columns :: "(nat \<Rightarrow> svalue list) \<Rightarrow> nat list \<Rightarrow> value_column list" where
  "flat_columns f is = map (\<lambda>i. (i, map (Pair 0) (f i))) is"

definition flat_rows :: "(nat \<Rightarrow> svalue list) \<Rightarrow> nat list \<Rightarrow> nat \<Rightarrow> ((nat \<times> svalue) list \<times> 64 word) list" where
  "flat_rows f is n = map (\<lambda>j. (map (\<lambda>i. (i, f i ! j)) is, 0)) [0..<n]"

lemma pending_flat: "pending_level (map (Pair 0) vs) = 0"
  by (cases vs) (simp_all add: pending_level_def)

lemma level_after_flat: "level_after (flat_columns f is) 0 = 0"
  by (induction "is") (simp_all add: level_after_def flat_columns_def pending_flat)

lemma delivers_flat: "\<forall>i\<in>set is. length (f i) = n \<Longrightarrow> delivers n 0 (flat_columns f is) (flat_rows f is n)"
proof (induction n arbitrary: f)
  case 0
  then show ?case by (simp add: flat_rows_def delivers_end)
next
  case (Suc n)
  let ?f = "\<lambda>i. tl (f i)"
  have belongs: "belongs 0 c" for c by (simp add: belongs_def)
  have rest: "map (rest_of 0) (flat_columns f is) = flat_columns ?f is"
    by (simp add: flat_columns_def rest_of_def belongs map_tl)
  have tails: "\<forall>i\<in>set is. length (?f i) = n" using Suc.prems by simp
  have "f i ! Suc j = ?f i ! j" if "i \<in> set is" "j < n" for i j using that Suc.prems by (simp add: nth_tl)
  then have "map (\<lambda>j. (map (\<lambda>i. (i, f i ! j)) is, 0 :: 64 word)) (map Suc [0..<n]) = flat_rows ?f is n"
    by (simp add: flat_rows_def comp_def)
  moreover have "map (\<lambda>i. (i, f i ! 0)) is = updates 0 (flat_columns f is)"
  proof -
    have "f i ! 0 = snd (hd (map (Pair (0 :: 64 word)) (f i)))" if "i \<in> set is" for i
      using that Suc.prems by (cases "f i") auto
    then show ?thesis by (simp add: updates_def flat_columns_def belongs comp_def)
  qed
  ultimately have rows: "flat_rows f is (Suc n) = (updates 0 (flat_columns f is), 0) # flat_rows ?f is n"
    by (simp add: flat_rows_def upt_conv_Cons map_Suc_upt [symmetric] del: upt_Suc map_map)
  show ?case
    unfolding rows
  proof (rule delivers_row)
    show "\<forall>c\<in>set (flat_columns f is). belongs 0 c \<longrightarrow> snd c \<noteq> []" using Suc.prems by (auto simp: flat_columns_def)
    show "0 = level_after (map (rest_of 0) (flat_columns f is)) 0" by (simp add: rest level_after_flat)
    show "delivers (if (0 :: 64 word) = 0 then n else Suc n) 0 (map (rest_of 0) (flat_columns f is)) (flat_rows ?f is n)"
      using Suc.IH [OF tails] by (simp add: rest)
  qed
qed

lemma fill_nth: "length (fill (map (\<lambda>i. (i, f i)) is) row) = length row"
  "j < length row \<Longrightarrow> fill (map (\<lambda>i. (i, f i)) is) row ! j = (if j \<in> set is then f j else row ! j)"
  by (induction "is" arbitrary: row) (auto simp: fill_def)

lemma fill_all: "set is = {..<k} \<Longrightarrow> length row = k \<Longrightarrow> fill (map (\<lambda>i. (i, f i)) is) row = map f [0..<k]"
  by (rule nth_equalityI) (simp_all add: fill_nth)

section \<open>Selecting\<close>

text \<open>
  A program that sets its output on every row. Not every one does: a call without arguments leaves the
  output as it was, and so does the comparison of two truth values.
\<close>

definition overwrites :: "vm_program \<Rightarrow> bool" where
  "overwrites p \<longleftrightarrow> (\<forall>row out. vm_evaluate p row out = vm_evaluate p row Null)"

lemma overwritesD: "overwrites p \<Longrightarrow> vm_evaluate p row out = vm_evaluate p row Null"
  unfolding overwrites_def by blast

lemma overwrites_input: "overwrites (new_program (X_INPUT i) n)"
  by (simp add: overwrites_def vm_evaluate_def new_program_def)

lemma overwrites_literal: "overwrites (new_program (X_LITERAL v) n)"
  by (simp add: overwrites_def vm_evaluate_def new_program_def)

lemma overwrites_call:
  assumes "cs \<noteq> []" and "\<And>args out. f args out = f args Null"
  shows "overwrites (new_program (X_CALL_PURE f cs) n)"
proof -
  have "evaluate (X_CALL_PURE f cs) None row out = evaluate (X_CALL_PURE f cs) None row Null" for row out
    unfolding evaluate.simps if_not_P [OF assms(1)] by (intro arg_cong [where f = "bindR _"] ext assms(2))
  then show ?thesis unfolding overwrites_def vm_evaluate_def new_program_def by simp
qed

text \<open>A query without aggregates, row by row.\<close>

definition select_row ::
  "vm_program option \<Rightarrow> vm_program list \<Rightarrow> 's row_callback \<Rightarrow> svalue list \<Rightarrow> 's \<Rightarrow> ('s \<times> bool) result" where
  "select_row wh ps fn row s =
     bindR (where_holds wh row) (\<lambda>pred.
       if pred then bindR (mapR (\<lambda>p. vm_evaluate p row Null) ps) (fn s) else Inr (s, True))"

fun select_rows ::
  "vm_program option \<Rightarrow> vm_program list \<Rightarrow> 's row_callback \<Rightarrow> svalue list list \<Rightarrow> 's \<Rightarrow> 's result" where
  "select_rows wh ps fn [] s = Inr s"
| "select_rows wh ps fn (row # rows) s =
     bindR (select_row wh ps fn row s) (\<lambda>(s', go_on). if go_on then select_rows wh ps fn rows s' else Inr s')"

definition plain_select :: "select_ref \<Rightarrow> bool" where
  "plain_select r \<longleftrightarrow> \<not> has_aggregate (program_of r) \<and> overwrites (program_of r) \<and> (\<exists>v. instance_of r = Static v)"

lemma accumulate_plain:
  "\<forall>r\<in>set sel. plain_select r \<Longrightarrow>
     (case mapR (\<lambda>p. vm_evaluate p row Null) (map program_of sel) of
        Inl e \<Rightarrow> accumulate_selects 0 row sel = Inl e
      | Inr out \<Rightarrow> \<exists>sel'. accumulate_selects 0 row sel = Inr sel' \<and> map program_of sel' = map program_of sel \<and>
          (\<forall>r\<in>set sel'. plain_select r))"
proof (induction sel)
  case (Cons r sel)
  obtain v where r: "instance_of r = Static v" "\<not> has_aggregate (program_of r)" "overwrites (program_of r)"
    using Cons.prems by (auto simp: plain_select_def)
  have "vm_accumulate (program_of r) (instance_of r) row =
      bindR (vm_evaluate (program_of r) row Null) (\<lambda>w. Inr (Static w))"
    using r overwritesD [OF r(3), of row v] by (simp add: vm_accumulate_def on_static_def vm_evaluate_def)
  then show ?case
    using Cons r
    by (cases "vm_evaluate (program_of r) row Null"; cases "mapR (\<lambda>p. vm_evaluate p row Null) (map program_of sel)")
       (auto simp: accumulate_selects_def plain_select_def)
qed (simp add: accumulate_selects_def)

lemma values_plain:
  "\<forall>r\<in>set sel. plain_select r \<Longrightarrow> length out = length sel \<Longrightarrow>
     select_values sel row out = mapR (\<lambda>p. vm_evaluate p row Null) (map program_of sel)"
proof (induction sel arbitrary: out)
  case (Cons r sel)
  then obtain v out' where out: "out = v # out'" "length out' = length sel" by (cases out) auto
  have "vm_evaluate (program_of r) row v = vm_evaluate (program_of r) row Null"
    using Cons.prems(1) overwritesD [of "program_of r" row v] by (simp add: plain_select_def)
  then show ?case using Cons out by (simp add: select_values_def)
qed (simp add: select_values_def)

lemma length_clear_row [simp]: "length (clear_row level places row) = length row"
proof (induction places arbitrary: row)
  case (Cons p places)
  then show ?case by (cases p) (simp add: clear_row_def)
qed (simp add: clear_row_def)

definition filled_rows :: "(nat \<Rightarrow> nat \<Rightarrow> svalue) \<Rightarrow> nat list \<Rightarrow> nat list \<Rightarrow> ((nat \<times> svalue) list \<times> 64 word) list" where
  "filled_rows g is js = map (\<lambda>j. (map (\<lambda>i. (i, g j i)) is, 0)) js"

lemma filled_rows_simps [simp]:
  "filled_rows g is [] = []" "filled_rows g is (j # js) = (map (\<lambda>i. (i, g j i)) is, 0) # filled_rows g is js"
  by (simp_all add: filled_rows_def)

definition ready :: "nat \<Rightarrow> vm_program list \<Rightarrow> 's scan_state \<Rightarrow> bool" where
  "ready k ps st \<longleftrightarrow> length (in_row st) = k \<and> map program_of (selects st) = ps \<and> (\<forall>r\<in>set (selects st). plain_select r) \<and>
     length (out_row st) = length ps \<and> select_level st = 0"

lemma emit_plain:
  assumes "map program_of (selects st) = ps" and "\<forall>r\<in>set (selects st). plain_select r" and "length (out_row st) = length ps"
    and "mapR (\<lambda>p. vm_evaluate p (in_row st) Null) ps = Inr out"
  shows "emit_row NO_AGGREGATION level fn st = bindR (fn (client st) out) (\<lambda>(s, cont). Inr (st\<lparr>out_row := out, client := s\<rparr>, cont))"
proof -
  have "length (out_row st) = length (selects st)" using assms(1,3) by (metis length_map)
  then have "select_values (selects st) (in_row st) (out_row st) = Inr out" using values_plain [OF assms(2)] assms(1,4) by simp
  then show ?thesis by (simp add: emit_row_def)
qed

lemma process_row_select:
  assumes "ready k ps st" and "in_row st = row"
  shows "case select_row wh ps fn row (client st) of
      Inl e \<Rightarrow> process_row wh NO_AGGREGATION fn places 0 st = Inl e
    | Inr (s, go_on) \<Rightarrow> \<exists>st'. process_row wh NO_AGGREGATION fn places 0 st = Inr (st', go_on) \<and> client st' = s \<and>
        (go_on \<longrightarrow> ready k ps st')"
proof (cases "where_holds wh row")
  case (Inr pred)
  note where_row = Inr
  have st: "map program_of (selects st) = ps" "\<forall>r\<in>set (selects st). plain_select r" "length (out_row st) = length ps"
    "select_level st = 0" "length row = k" using assms by (simp_all add: ready_def)
  show ?thesis
  proof (cases pred)
    case False
    then show ?thesis using where_row assms by (simp add: select_row_def process_row_def Let_def ready_def)
  next
    case True
    show ?thesis
    proof (cases "mapR (\<lambda>p. vm_evaluate p row Null) ps")
      case (Inl e)
      then have "accumulate_selects 0 row (selects st) = Inl e" using accumulate_plain [OF st(2), of row] st(1) by simp
      then show ?thesis using where_row True Inl st(4) assms(2) by (simp add: select_row_def process_row_def Let_def)
    next
      case (Inr out)
      then obtain sel where sel: "accumulate_selects 0 row (selects st) = Inr sel" "map program_of sel = ps" "\<forall>r\<in>set sel. plain_select r"
        using accumulate_plain [OF st(2), of row] st(1) by auto
      obtain st1 where st1: "st1 = st\<lparr>fetch_level := 0, records_done := records_done st + 1, selects := sel\<rparr>" by blast
      have process: "process_row wh NO_AGGREGATION fn places 0 st = bindR (emit_row NO_AGGREGATION 0 fn st1) (\<lambda>(s, cont).
          if cont then Inr (s\<lparr>select_level := fetch_level s, in_row := clear_row (fetch_level s) places (in_row s)\<rparr>, True)
          else Inr (s, False))"
        using where_row True sel(1) st(4) assms(2) st1 by (simp add: process_row_def Let_def)
      have emit: "emit_row NO_AGGREGATION 0 fn st1 = bindR (fn (client st) out) (\<lambda>(s, cont). Inr (st1\<lparr>out_row := out, client := s\<rparr>, cont))"
        using emit_plain [of st1 ps out 0 fn] sel st(3) Inr assms(2) st1 by simp
      have "length out = length ps" by (rule mapR_length [OF Inr])
      then show ?thesis
        using where_row True Inr process emit sel st(5) assms(2) st1
        by (cases "fn (client st) out") (auto simp: select_row_def ready_def)
    qed
  qed
qed (use assms(2) in \<open>simp add: select_row_def process_row_def Let_def\<close>)

lemma run_rows_select:
  assumes "set is = {..<k}"
  shows "ready k ps st \<Longrightarrow>
    bindR (run_rows wh NO_AGGREGATION fn places (filled_rows g is js) st) (\<lambda>st'. Inr (client st')) =
    select_rows wh ps fn (map (\<lambda>j. map (g j) [0..<k]) js) (client st)"
proof (induction js arbitrary: st)
  case (Cons j js)
  obtain row where row: "row = map (g j) [0..<k]" by blast
  have "length (in_row st) = k" using Cons.prems by (simp add: ready_def)
  then have fill: "fill (map (\<lambda>i. (i, g j i)) is) (in_row st) = row" using fill_all [OF assms] row by simp
  let ?st = "st\<lparr>in_row := row, rows_scanned := rows_scanned st + 1\<rparr>"
  have "ready k ps ?st" using Cons.prems row by (simp add: ready_def)
  from process_row_select [OF this, of row wh fn places] show ?case
    using Cons.IH
    by (cases "select_row wh ps fn row (client st)") (auto simp: fill simp flip: row split: prod.splits)
qed (simp add: scan_end_def)

section \<open>Aggregating\<close>

text \<open>Accumulating the rows \<open>rows\<close> takes the instances of the select list to \<open>insts\<close>.\<close>

definition accumulates_to :: "svalue list list \<Rightarrow> select_ref list \<Rightarrow> vm_instance list \<Rightarrow> bool" where
  "accumulates_to rows sel insts \<longleftrightarrow>
     list_all2 (\<lambda>r i. foldR (vm_accumulate (program_of r)) (instance_of r) rows = Inr i) sel insts"

lemma accumulates_to_row:
  "accumulates_to (row # rows) sel insts \<Longrightarrow>
     \<exists>sel'. accumulate_selects 0 row sel = Inr sel' \<and> map program_of sel' = map program_of sel \<and> accumulates_to rows sel' insts"
  unfolding accumulates_to_def
proof (induction sel insts rule: list_all2_induct)
  case (Cons r sel i insts)
  then obtain i1 where i1: "vm_accumulate (program_of r) (instance_of r) row = Inr i1"
    "foldR (vm_accumulate (program_of r)) i1 rows = Inr i" by (auto simp: bindR_eq_Inr_iff)
  from Cons.IH obtain sel' where sel': "accumulate_selects 0 row sel = Inr sel'" "map program_of sel' = map program_of sel"
    "list_all2 (\<lambda>r i. foldR (vm_accumulate (program_of r)) (instance_of r) rows = Inr i) sel' insts" by blast
  have "accumulate_selects 0 row (r # sel) = Inr (r\<lparr>instance_of := i1\<rparr> # sel')"
    using i1(1) sel'(1) by (simp add: accumulate_selects_def)
  then show ?case using sel' i1(2) by (intro exI [of _ "r\<lparr>instance_of := i1\<rparr> # sel'"]) simp
qed (simp add: accumulate_selects_def)

lemma results_accumulated:
  "accumulates_to [] sel insts \<Longrightarrow>
     select_results sel (replicate (length sel) Null) = mapR (\<lambda>(p, i). vm_result p i Null) (zip (map program_of sel) insts)"
  unfolding accumulates_to_def select_results_def
  by (induction sel insts rule: list_all2_induct) simp_all

lemma run_rows_aggregate:
  assumes "set is = {..<k}"
  shows "\<forall>j\<in>set js. where_holds wh (map (g j) [0..<k]) = Inr (keep (map (g j) [0..<k])) \<Longrightarrow>
    length (in_row st) = k \<Longrightarrow> select_level st = 0 \<Longrightarrow> out_row st = replicate (length (selects st)) Null \<Longrightarrow>
    accumulates_to (filter keep (map (\<lambda>j. map (g j) [0..<k]) js)) (selects st) insts \<Longrightarrow>
    bindR (run_rows wh AGGREGATE_ALL fn places (filled_rows g is js) st) (\<lambda>st'. Inr (client st')) =
    bindR (mapR (\<lambda>(p, i). vm_result p i Null) (zip (map program_of (selects st)) insts)) (\<lambda>out.
      bindR (fn (client st) out) (\<lambda>(s, go_on). Inr s))"
proof (induction js arbitrary: st)
  case Nil
  then show ?case using results_accumulated [of "selects st" insts]
    by (auto simp: scan_end_def bindR_assoc intro!: bindR_cong split: prod.splits)
next
  case (Cons j js)
  obtain row where row: "row = map (g j) [0..<k]" by blast
  have fill: "fill (map (\<lambda>i. (i, g j i)) is) (in_row st) = row" using fill_all [OF assms Cons.prems(2)] row by simp
  let ?st = "st\<lparr>in_row := row, rows_scanned := rows_scanned st + 1\<rparr>"
  have "\<exists>st'. process_row wh AGGREGATE_ALL fn places 0 ?st = Inr (st', True) \<and> length (in_row st') = k \<and> select_level st' = 0 \<and>
      out_row st' = replicate (length (selects st')) Null \<and> client st' = client st \<and>
      map program_of (selects st') = map program_of (selects st) \<and>
      accumulates_to (filter keep (map (\<lambda>j. map (g j) [0..<k]) js)) (selects st') insts"
  proof (cases "keep row")
    case True
    then have "accumulates_to (row # filter keep (map (\<lambda>j. map (g j) [0..<k]) js)) (selects st) insts"
      using Cons.prems(5) row by simp
    from accumulates_to_row [OF this] obtain sel' where sel': "accumulate_selects 0 row (selects st) = Inr sel'"
      "map program_of sel' = map program_of (selects st)"
      "accumulates_to (filter keep (map (\<lambda>j. map (g j) [0..<k]) js)) sel' insts" by blast
    have "length sel' = length (selects st)" using sel'(2) by (metis length_map)
    then show ?thesis using True sel' Cons.prems(1,3,4) row by (simp add: process_row_def Let_def emit_row_def)
  next
    case False
    then show ?thesis using Cons.prems row by (simp add: process_row_def Let_def)
  qed
  then obtain st' where "process_row wh AGGREGATE_ALL fn places 0 ?st = Inr (st', True)" "length (in_row st') = k"
    "select_level st' = 0" "out_row st' = replicate (length (selects st')) Null" "client st' = client st"
    "map program_of (selects st') = map program_of (selects st)"
    "accumulates_to (filter keep (map (\<lambda>j. map (g j) [0..<k]) js)) (selects st') insts" by blast
  then show ?case using Cons.IH [of st'] Cons.prems(1) by (simp add: fill)
qed

section \<open>From the file\<close>

text \<open>The values of a column without repetitions, one for each record.\<close>

definition stored_values :: "table_column list \<Rightarrow> string \<Rightarrow> svalue list" where
  "stored_values cs name = (case map_of cs name of
      None \<Rightarrow> []
    | Some (ty, rm, dm, es) \<Rightarrow> map (\<lambda>(r, d, bs). scan_value ty dm d (map_option (stored ty) bs)) es)"

text \<open>Column references as positions in a list of names; a name that is not there stands for a missing column.\<close>

fun position :: "string list \<Rightarrow> string \<Rightarrow> nat option" where
  "position [] name = None"
| "position (n # ns) name = (if n = name then Some 0 else map_option Suc (position ns name))"

fun place_columns :: "string list \<Rightarrow> expr_node \<Rightarrow> expr_node" where
  "place_columns names (ColumnReference name i) =
     ColumnReference name (Some (case position names name of None \<Rightarrow> -1 | Some k \<Rightarrow> of_nat k))"
| "place_columns names (LiteralExpression v) = LiteralExpression v"
| "place_columns names (IfExpression c t f) =
     IfExpression (place_columns names c) (place_columns names t) (place_columns names f)"
| "place_columns names (CallExpression symbol es) = CallExpression symbol (map (place_columns names) es)"

definition flat_column :: "nat \<Rightarrow> table_column \<Rightarrow> bool" where
  "flat_column n c \<longleftrightarrow> (case c of (name, ty, rm, dm, es) \<Rightarrow> rm = 0 \<and> length es = n)"

lemma opens_hands_out:
  assumes "opens_as lib tab (name, ty, rm, dm, es)"
  shows "\<exists>r. getColumnReader tab name = Inr r \<and> hands_out lib rm (map (entry_value ty dm) es) r"
  using assms by (auto simp: opens_as_def hands_out_def)

lemma flat_entries:
  assumes "good_column (name, ty, 0, dm, es)"
  shows "map (entry_value ty dm) es = map (Pair 0) (map (\<lambda>(r, d, bs). scan_value ty dm d (map_option (stored ty) bs)) es)"
  using assms by (auto simp: good_column_def good_entry_def entry_value_def split: prod.splits)

text \<open>The greatest repetition level and the entries of a stored column.\<close>

definition stored_entries :: "table_column list \<Rightarrow> string \<Rightarrow> 64 word \<times> (64 word \<times> svalue) list" where
  "stored_entries cs name = (case map_of cs name of
      None \<Rightarrow> (0, [])
    | Some (ty, rm, dm, es) \<Rightarrow> (rm, map (entry_value ty dm) es))"

definition opened_column :: "simdcomp \<Rightarrow> table_column list \<Rightarrow> scan_column \<Rightarrow> bool" where
  "opened_column lib cs col \<longleftrightarrow> scanned_name col \<in> fst ` set cs \<and>
     hands_out lib (fst (stored_entries cs (scanned_name col))) (snd (stored_entries cs (scanned_name col))) (col_reader col)"

lemma open_columns_stored:
  assumes "\<forall>name. hasColumn tab name \<longleftrightarrow> name \<in> fst ` set cs" and "\<forall>c\<in>set cs. opens_as lib tab c"
    and "distinct (map fst cs)"
  shows "\<exists>cols. open_columns tab names i = Inr cols \<and> map scanned_name cols = filter (\<lambda>m. m \<in> fst ` set cs) names \<and>
    map row_index cols = [i ..< i + length cols] \<and> (\<forall>col\<in>set cols. opened_column lib cs col)"
proof (induction names arbitrary: i)
  case (Cons name names)
  show ?case
  proof (cases "name \<in> fst ` set cs")
    case False
    then show ?thesis using Cons [of i] assms(1) by simp
  next
    case True
    then obtain ty rm dm es where c: "(name, ty, rm, dm, es) \<in> set cs" by (auto simp: image_iff)
    from opens_hands_out assms(2) c obtain r where
      r: "getColumnReader tab name = Inr r" "hands_out lib rm (map (entry_value ty dm) es) r" by blast
    have "map_of cs name = Some (ty, rm, dm, es)" using c assms(3) by simp
    then have vals: "opened_column lib cs \<lparr>scanned_name = name, row_index = i, col_reader = r\<rparr>"
      using r(2) True by (simp add: opened_column_def stored_entries_def)
    from Cons.IH [of "Suc i"] obtain cols where cols: "open_columns tab names (Suc i) = Inr cols"
      "map scanned_name cols = filter (\<lambda>m. m \<in> fst ` set cs) names" "map row_index cols = [Suc i ..< Suc i + length cols]"
      "\<forall>col\<in>set cols. opened_column lib cs col" by blast
    have "i # [Suc i ..< Suc i + length cols] = [i ..< i + Suc (length cols)]"
      using upt_conv_Cons [of i "i + Suc (length cols)"] by (simp del: upt_Suc)
    then have "map row_index (\<lparr>scanned_name = name, row_index = i, col_reader = r\<rparr> # cols) = [i ..< i + Suc (length cols)]"
      using cols(3) by (simp del: upt_Suc)
    then show ?thesis using True r(1) vals cols(1,2,4) assms(1)
      by (intro exI [of _ "\<lparr>scanned_name = name, row_index = i, col_reader = r\<rparr> # cols"]) (simp del: upt_Suc)
  qed
qed simp

lemma stored_entries_flat:
  assumes "\<forall>c\<in>set cs. good_column c \<and> flat_column n c" and "name \<in> fst ` set cs"
  shows "stored_entries cs name = (0, map (Pair 0) (stored_values cs name))"
proof -
  have "map_of cs name \<noteq> None" using assms(2) by (simp add: map_of_eq_None_iff)
  then obtain ty rm dm es where c: "map_of cs name = Some (ty, rm, dm, es)" by auto
  then have "(name, ty, rm, dm, es) \<in> set cs" by (rule map_of_SomeD)
  then have "rm = 0" "good_column (name, ty, 0, dm, es)" using assms(1) by (auto simp: flat_column_def)
  then show ?thesis using c flat_entries [of name ty dm es] by (simp add: stored_entries_def stored_values_def del: map_map)
qed

lemma open_columns_flat:
  assumes "\<forall>name. hasColumn tab name \<longleftrightarrow> name \<in> fst ` set cs" and "\<forall>c\<in>set cs. opens_as lib tab c"
    and "distinct (map fst cs)" and "\<forall>c\<in>set cs. good_column c \<and> flat_column n c"
  shows "\<exists>cols. open_columns tab names i = Inr cols \<and> map scanned_name cols = filter (\<lambda>m. m \<in> fst ` set cs) names \<and>
    map row_index cols = [i ..< i + length cols] \<and>
    (\<forall>col\<in>set cols. hands_out lib 0 (map (Pair 0) (stored_values cs (scanned_name col))) (col_reader col))"
  using open_columns_stored [OF assms(1-3), of names i] stored_entries_flat [OF assms(4)]
  by (fastforce simp: opened_column_def)

lemma find_column_position:
  "map row_index cols = [i ..< i + length cols] \<Longrightarrow>
     map_option row_index (find_column cols name) = map_option ((+) i) (position (map scanned_name cols) name)"
proof (induction cols arbitrary: i)
  case (Cons col cols)
  then have "row_index col = i" "map row_index cols = [Suc i ..< Suc i + length cols]"
    by (simp_all add: upt_conv_Cons del: upt_Suc)
  then show ?case using Cons.IH [of "Suc i"] by (simp add: find_column_def option.map_comp comp_def)
qed (simp add: find_column_def)

lemma resolve_place:
  assumes "map row_index cols = [0 ..< length cols]"
  shows "resolveColumns cols e = place_columns (map scanned_name cols) e"
proof (induction e)
  case (ColumnReference name i)
  then show ?case using find_column_position [of cols 0 name] assms
    by (cases "find_column cols name"; cases "position (map scanned_name cols) name") simp_all
qed simp_all

lemma max_level_flat:
  assumes "\<forall>col\<in>set cols. r_max (col_reader col) = 0"
  shows "findMaxRepetitionLevel cols e = 0"
proof (induction e)
  case (ColumnReference name i)
  then show ?case using assms by (auto simp: find_column_def find_Some_iff split: option.splits)
next
  case (CallExpression symbol es)
  have "foldl (\<lambda>m e. max m (findMaxRepetitionLevel cols e)) 0 es = 0" using CallExpression
    by (induction es) simp_all
  then show ?case by simp
qed simp_all

definition fresh_select :: "vm_program \<Rightarrow> select_ref" where
  "fresh_select p = \<lparr>rep_level = 0, program_of = p, instance_of = (case allocInstance p of Inr i \<Rightarrow> i | Inl e \<Rightarrow> Static Null)\<rparr>"

lemma alloc_total: "\<exists>i. allocInstance p = Inr i"
  using initInstance_total [of "entry p" "\<lambda>_. Raw"] by (auto simp: allocInstance_def)

lemma compile_selects:
  assumes "\<forall>col\<in>set cols. r_max (col_reader col) = 0" and "map row_index cols = [0 ..< length cols]"
    and "mapR (\<lambda>s. compile syms (place_columns (map scanned_name cols) (expression s))) sl = Inr ps"
  shows "mapR (compile_select syms cols) sl = Inr (map fresh_select ps)"
  using assms(3)
proof (induction sl arbitrary: ps)
  case (Cons s sl)
  then obtain p ps' where ps: "compile syms (place_columns (map scanned_name cols) (expression s)) = Inr p" "ps = p # ps'"
    "mapR (\<lambda>s. compile syms (place_columns (map scanned_name cols) (expression s))) sl = Inr ps'"
    by (auto simp: bindR_eq_Inr_iff)
  obtain i where "allocInstance p = Inr i" using alloc_total by blast
  then have "compile_select syms cols s = Inr (fresh_select p)"
    using ps(1) max_level_flat [OF assms(1)] resolve_place [OF assms(2)]
    by (simp add: compile_select_def fresh_select_def Let_def)
  then show ?case using ps(2) Cons.IH [OF ps(3)] by simp
qed simp

definition program_for :: "symbol_table \<Rightarrow> string list \<Rightarrow> expr_node option \<Rightarrow> vm_program option result" where
  "program_for syms names wh = (case wh of
      None \<Rightarrow> Inr None
    | Some e \<Rightarrow> bindR (compile syms (place_columns names e)) (\<lambda>p. Inr (Some p)))"

lemma compile_where_place:
  "map row_index cols = [0 ..< length cols] \<Longrightarrow> compile_where syms cols wh = program_for syms (map scanned_name cols) wh"
  by (cases wh) (simp_all add: compile_where_def program_for_def resolve_place)

text \<open>The columns of the table a query names, and the records as rows of these.\<close>

definition used_columns :: "table_column list \<Rightarrow> select_list_node list \<Rightarrow> expr_node option \<Rightarrow> string list" where
  "used_columns cs sl wh = filter (\<lambda>name. name \<in> fst ` set cs) (query_columns sl wh)"

definition record_rows :: "table_column list \<Rightarrow> string list \<Rightarrow> nat \<Rightarrow> svalue list list" where
  "record_rows cs names n = map (\<lambda>j. map (\<lambda>name. stored_values cs name ! j) names) [0..<n]"

definition start_state :: "vm_program list \<Rightarrow> nat \<Rightarrow> 's \<Rightarrow> 's scan_state" where
  "start_state ps k s = \<lparr>selects = map fresh_select ps, in_row = replicate k Null, out_row = replicate (length ps) Null,
     fetch_level = 0, select_level = 0, records_done = 0, rows_scanned = 0, client = s\<rparr>"

lemma length_stored_values:
  assumes "\<forall>c\<in>set cs. flat_column n c" and "name \<in> fst ` set cs"
  shows "length (stored_values cs name) = n"
proof -
  have "map_of cs name \<noteq> None" using assms(2) by (simp add: map_of_eq_None_iff)
  then obtain ty rm dm es where c: "map_of cs name = Some (ty, rm, dm, es)" by auto
  then have "(name, ty, rm, dm, es) \<in> set cs" by (rule map_of_SomeD)
  then show ?thesis using c assms(1) by (auto simp: flat_column_def stored_values_def)
qed

lemma row_over_names: "map (\<lambda>i. h (names ! i)) [0..<length names] = map h names"
  by (rule nth_equalityI) simp_all

lemma execute_scan_rows:
  assumes "packs lib" and "open_cstable file_bytes = Inr tab" and "num_records tab = n"
    and "\<forall>name. hasColumn tab name \<longleftrightarrow> name \<in> fst ` set cs" and "\<forall>c\<in>set cs. opens_as lib tab c"
    and "distinct (map fst cs)" and "\<forall>c\<in>set cs. good_column c \<and> flat_column (unat n) c"
    and "\<forall>cols. mset (order cols) = mset cols" and "unat n \<le> fuel" and "names = used_columns cs sl wh"
    and "mapR (\<lambda>s. compile syms (place_columns names (expression s))) sl = Inr ps" and "program_for syms names wh = Inr whp"
  shows "if names = []
    then execute_scan lib syms order fuel file_bytes sl wh strategy fn s =
      bindR (constant_loop whp strategy fn (unat n) (start_state ps 0 s)) (\<lambda>st. Inr (client st))
    else \<exists>is places. set is = {..<length names} \<and> execute_scan lib syms order fuel file_bytes sl wh strategy fn s =
      bindR (run_rows whp strategy fn places (filled_rows (\<lambda>j i. stored_values cs (names ! i) ! j) is [0..<unat n])
        (start_state ps (length names) s)) (\<lambda>st. Inr (client st))"
proof -
  from open_columns_flat [OF assms(4-7), of "query_columns sl wh" 0] obtain cols where
    cols: "open_columns tab (query_columns sl wh) 0 = Inr cols" "map scanned_name cols = names"
      "map row_index cols = [0 ..< length cols]"
      "\<forall>col\<in>set cols. hands_out lib 0 (map (Pair 0) (stored_values cs (scanned_name col))) (col_reader col)"
    using assms(10) by (auto simp: used_columns_def)
  have len: "length cols = length names" using cols(2) by auto
  have levels: "\<forall>col\<in>set cols. r_max (col_reader col) = 0" using cols(4) by (simp add: hands_out_def)
  have sel: "mapR (compile_select syms cols) sl = Inr (map fresh_select ps)"
    using compile_selects [OF levels cols(3)] assms(11) cols(2) by simp
  have wh: "compile_where syms cols wh = Inr whp" using compile_where_place [OF cols(3)] assms(12) cols(2) by simp
  have execute: "execute_scan lib syms order fuel file_bytes sl wh strategy fn s =
      bindR (if cols = [] then constant_loop whp strategy fn (unat n) (start_state ps (length cols) s)
             else scan_loop lib whp strategy n fn fuel (order cols) (start_state ps (length cols) s)) (\<lambda>st. Inr (client st))"
    using assms(2,3) cols(1) sel wh by (simp add: execute_scan_def start_state_def Let_def)
  show ?thesis
  proof (cases "names = []")
    case False
    let ?is = "map row_index (order cols)" and ?f = "\<lambda>i. stored_values cs (names ! i)"
    have same: "set (order cols) = set cols" using assms(8) by (metis set_mset_mset)
    have "set (map row_index cols) = {..<length names}" using cols(3) len by auto
    then have places: "set ?is = {..<length names}" using same by simp
    have name: "scanned_name col = names ! row_index col" if col: "col \<in> set cols" for col
    proof -
      obtain m where m: "m < length cols" "cols ! m = col" using col by (auto simp: in_set_conv_nth)
      then have "map row_index cols ! m = m" using cols(3) by simp
      then show ?thesis using m cols(2) by (metis nth_map)
    qed
    let ?cs = "map (\<lambda>col. (0 :: 64 word, row_index col, map (Pair 0) (?f (row_index col)))) (order cols)"
    have columns: "list_all2 (column_of lib) (order cols) ?cs"
      using cols(4) name same by (auto simp: list_all2_conv_all_nth column_of_def)
    have delivered: "delivers (unat n) 0 (flat_columns ?f ?is) (flat_rows ?f ?is (unat n))"
    proof (rule delivers_flat, rule ballI)
      fix i assume "i \<in> set ?is"
      then have "names ! i \<in> set names" using places by simp
      then have "names ! i \<in> fst ` set cs" using assms(10) by (auto simp: used_columns_def)
      then show "length (stored_values cs (names ! i)) = unat n" using length_stored_values [of cs "unat n"] assms(7) by blast
    qed
    have "scan_loop lib whp strategy n fn fuel (order cols) (start_state ps (length cols) s) =
        run_rows whp strategy fn (places_of ?cs) (flat_rows ?f ?is (unat n)) (start_state ps (length cols) s)"
      by (rule scan_delivers [OF assms(1) delivered _ columns])
         (simp_all add: flat_columns_def start_state_def flat_rows_def assms(9))
    moreover have "flat_rows ?f ?is (unat n) = filled_rows (\<lambda>j i. ?f i ! j) ?is [0..<unat n]"
      by (simp add: flat_rows_def filled_rows_def)
    moreover have "cols \<noteq> []" using False len by auto
    ultimately have "execute_scan lib syms order fuel file_bytes sl wh strategy fn s =
        bindR (run_rows whp strategy fn (places_of ?cs) (filled_rows (\<lambda>j i. ?f i ! j) ?is [0..<unat n])
          (start_state ps (length names) s)) (\<lambda>st. Inr (client st))"
      using execute len by simp
    then show ?thesis using False places by (simp only: if_False) blast
  qed (use execute len in simp)
qed

text \<open>Without columns, the rows are empty.\<close>

lemma constant_loop_select:
  "\<forall>r\<in>set (selects st). plain_select r \<Longrightarrow> map program_of (selects st) = ps \<Longrightarrow> length (out_row st) = length ps \<Longrightarrow>
    bindR (constant_loop wh NO_AGGREGATION fn n st) (\<lambda>st. Inr (client st)) = select_rows wh ps fn (replicate n []) (client st)"
proof (induction n arbitrary: st)
  case (Suc n)
  have len: "length (out_row st) = length (selects st)" using Suc.prems(2,3) by (metis length_map)
  have vals: "select_values (selects st) [] (out_row st) = mapR (\<lambda>p. vm_evaluate p [] Null) ps"
    using values_plain [OF Suc.prems(1) len, of "[]"] Suc.prems(2) by simp
  have IH: "bindR (constant_loop wh NO_AGGREGATION fn n (st\<lparr>out_row := out, client := s'\<rparr>)) (\<lambda>st. Inr (client st)) =
      select_rows wh ps fn (replicate n []) s'" if "length out = length ps" for out s'
    using Suc.IH [of "st\<lparr>out_row := out, client := s'\<rparr>"] Suc.prems that by simp
  have same: "bindR (constant_loop wh NO_AGGREGATION fn n st) (\<lambda>st. Inr (client st)) =
      select_rows wh ps fn (replicate n []) (client st)" using Suc.IH [of st] Suc.prems by simp
  show ?case
  proof (cases "where_holds wh []")
    case (Inr pred)
    show ?thesis
    proof (cases "pred \<and> (\<exists>out. mapR (\<lambda>p. vm_evaluate p [] Null) ps = Inr out)")
      case True
      then obtain out where out: "mapR (\<lambda>p. vm_evaluate p [] Null) ps = Inr out" by blast
      then have "length out = length ps" by (rule mapR_length)
      then show ?thesis using Inr True out vals IH [of out]
        by (cases "fn (client st) out") (auto simp: constant_step_def select_row_def split: prod.splits)
    next
      case False
      then show ?thesis using Inr vals same
        by (cases "mapR (\<lambda>p. vm_evaluate p [] Null) ps") (auto simp: constant_step_def select_row_def)
    qed
  qed (simp add: constant_step_def select_row_def)
qed (simp add: scan_end_def)

lemma constant_loop_aggregate:
  assumes "where_holds wh [] = Inr (keep [])"
  shows "out_row st = replicate (length (selects st)) Null \<Longrightarrow> accumulates_to (filter keep (replicate n [])) (selects st) insts \<Longrightarrow>
    bindR (constant_loop wh AGGREGATE_ALL fn n st) (\<lambda>st'. Inr (client st')) =
    bindR (mapR (\<lambda>(p, i). vm_result p i Null) (zip (map program_of (selects st)) insts)) (\<lambda>out.
      bindR (fn (client st) out) (\<lambda>(s, go_on). Inr s))"
proof (induction n arbitrary: st)
  case 0
  then show ?case using results_accumulated [of "selects st" insts]
    by (auto simp: scan_end_def bindR_assoc intro!: bindR_cong split: prod.splits)
next
  case (Suc n)
  show ?case
  proof (cases "keep []")
    case True
    then have "accumulates_to ([] # filter keep (replicate n [])) (selects st) insts" using Suc.prems(2) by simp
    from accumulates_to_row [OF this] obtain sel' where sel': "accumulate_selects 0 [] (selects st) = Inr sel'"
      "map program_of sel' = map program_of (selects st)" "accumulates_to (filter keep (replicate n [])) sel' insts" by blast
    have "length sel' = length (selects st)" using sel'(2) by (metis length_map)
    then show ?thesis using True sel' assms Suc.IH [of "st\<lparr>selects := sel'\<rparr>"] Suc.prems(1) by (simp add: constant_step_def)
  next
    case False
    then show ?thesis using assms Suc.IH [of st] Suc.prems by (simp add: constant_step_def)
  qed
qed

section \<open>Properties\<close>

text \<open>A file in which a table without repeated values was stored: \<open>n\<close> records.\<close>

definition stored_flat :: "simdcomp \<Rightarrow> (nat \<Rightarrow> nat \<Rightarrow> byte list) \<Rightarrow> table_column list \<Rightarrow> 64 word \<Rightarrow> byte list \<Rightarrow> bool" where
  "stored_flat lib junk cs n bs \<longleftrightarrow> (\<forall>i k. length (junk i k) = k) \<and> distinct (map fst cs) \<and>
     (\<forall>c\<in>set cs. good_column c \<and> flat_column (unat n) c) \<and> length cs < 2 ^ 32 \<and>
     (\<exists>t. store_columns lib cs (new_cstable n) = Inr t \<and> bs = commit_cstable junk t) \<and> length bs < 2 ^ 64"

lemma stored_flat_opens:
  assumes "packs lib" and "stored_flat lib junk cs n bs"
  shows "\<exists>tab. open_cstable bs = Inr tab \<and> num_records tab = n \<and> (\<forall>name. hasColumn tab name \<longleftrightarrow> name \<in> fst ` set cs) \<and>
    (\<forall>c\<in>set cs. opens_as lib tab c)"
proof -
  obtain t where t: "store_columns lib cs (new_cstable n) = Inr t" "bs = commit_cstable junk t" "length bs < 2 ^ 64"
    using assms(2) by (auto simp: stored_flat_def)
  have "\<exists>t. store_columns lib cs (new_cstable n) = Inr t \<and> (length (commit_cstable junk t) < 2 ^ 64 \<longrightarrow>
      (\<exists>tab. open_cstable (commit_cstable junk t) = Inr tab \<and> num_records tab = n \<and>
        (\<forall>name. hasColumn tab name \<longleftrightarrow> name \<in> fst ` set cs) \<and> (\<forall>c\<in>set cs. opens_as lib tab c)))"
    using assms(2) by (intro stored_table [OF assms(1)]) (auto simp: stored_flat_def)
  then show ?thesis using t by auto
qed

text \<open>The programs of a query over the columns \<open>names\<close>.\<close>

definition query_programs ::
  "symbol_table \<Rightarrow> string list \<Rightarrow> select_list_node list \<Rightarrow> expr_node option \<Rightarrow> (vm_program list \<times> vm_program option) result" where
  "query_programs syms names sl wh =
     bindR (mapR (\<lambda>s. compile syms (place_columns names (expression s))) sl) (\<lambda>ps.
     bindR (program_for syms names wh) (\<lambda>whp. Inr (ps, whp)))"

lemma execute_stored_flat:
  assumes "packs lib" and "stored_flat lib junk cs n bs" and "\<forall>cols. mset (order cols) = mset cols" and "unat n \<le> fuel"
    and "query_programs syms (used_columns cs sl wh) sl wh = Inr (ps, whp)"
  shows "if used_columns cs sl wh = []
    then execute_scan lib syms order fuel bs sl wh strategy fn s =
      bindR (constant_loop whp strategy fn (unat n) (start_state ps 0 s)) (\<lambda>st. Inr (client st))
    else \<exists>is places. set is = {..<length (used_columns cs sl wh)} \<and> execute_scan lib syms order fuel bs sl wh strategy fn s =
      bindR (run_rows whp strategy fn places
        (filled_rows (\<lambda>j i. stored_values cs (used_columns cs sl wh ! i) ! j) is [0..<unat n])
        (start_state ps (length (used_columns cs sl wh)) s)) (\<lambda>st. Inr (client st))"
proof -
  obtain tab where tab: "open_cstable bs = Inr tab" "num_records tab = n"
    "\<forall>name. hasColumn tab name \<longleftrightarrow> name \<in> fst ` set cs" "\<forall>c\<in>set cs. opens_as lib tab c"
    using stored_flat_opens [OF assms(1,2)] by blast
  have table: "distinct (map fst cs)" "\<forall>c\<in>set cs. good_column c \<and> flat_column (unat n) c"
    using assms(2) by (simp_all add: stored_flat_def)
  have progs: "mapR (\<lambda>s. compile syms (place_columns (used_columns cs sl wh) (expression s))) sl = Inr ps"
    "program_for syms (used_columns cs sl wh) wh = Inr whp"
    using assms(5) by (auto simp: query_programs_def bindR_eq_Inr_iff)
  show ?thesis by (rule execute_scan_rows [OF assms(1) tab table assms(3,4) refl progs])
qed

lemma record_rows_eq: "map (\<lambda>j. map (\<lambda>i. stored_values cs (names ! i) ! j) [0..<length names]) [0..<n] = record_rows cs names n"
  by (simp add: record_rows_def row_over_names [of "\<lambda>name. stored_values cs name ! _"])

lemma record_rows_Nil: "record_rows cs [] n = replicate n []"
  by (simp add: record_rows_def map_replicate_const)

text \<open>A small table for the witnesses: one column of two records, the second without a value.\<close>

definition example_columns :: "table_column list" where
  "example_columns = [(''a'', C_UINT32_PLAIN, 0, 1, [(0, 1, Some [7, 0, 0, 0]), (0, 0, None)])]"

lemma example_stored: "\<exists>bs. stored_flat digit_packer (\<lambda>i k. replicate k 0) example_columns 2 bs"
proof -
  have "\<exists>t. store_columns digit_packer example_columns (new_cstable 2) = Inr t \<and>
      length (commit_cstable (\<lambda>i k. replicate k 0) t) < 1000"
    by (auto simp: addDatum_defs addNull_def new_writer_def new_encoder_def encode_level_def Let_def example_columns_def
        bits_def bit_len.simps commit_column_def flush_def bodySize_def data_size_def data_section_def spare_size_def
        packs_data_def length_digit_packer addColumn_def new_cstable_def commit_cstable_def column_body_def column_header_def)
  then obtain t where t: "store_columns digit_packer example_columns (new_cstable 2) = Inr t"
    "length (commit_cstable (\<lambda>i k. replicate k 0) t) < 1000" by blast
  then show ?thesis
    by (intro exI [of _ "commit_cstable (\<lambda>i k. replicate k 0) t"])
       (auto simp: stored_flat_def example_columns_def good_column_def good_entry_def flat_column_def)
qed

lemma example_rows: "record_rows example_columns [''a''] 2 = [[Integer 7], [Null]]"
  by (simp add: record_rows_def stored_values_def example_columns_def scan_value_def upt_rec)

text \<open>
  C5. Scanning a columnar file without repeated values is selecting from its records. For a table that
  was stored in the file, whatever the iteration order of the hash map and whatever the buffers held, the
  scan of a query without aggregates gives its callback, record by record and in the stored order, the
  values of the select list over the values of the record, for the records that pass the filter, until
  the callback wants no more; the first error ends it the same way.
\<close>

theorem cstable_scan_selects:
  assumes "packs lib" and "stored_flat lib junk cs n bs" and "\<forall>cols. mset (order cols) = mset cols" and "unat n \<le> fuel"
    and "query_programs syms (used_columns cs sl wh) sl wh = Inr (ps, whp)"
    and "\<forall>p\<in>set ps. \<not> has_aggregate p \<and> overwrites p"
  shows "execute_scan lib syms order fuel bs sl wh NO_AGGREGATION fn s =
    select_rows whp ps fn (record_rows cs (used_columns cs sl wh) (unat n)) s"
proof -
  have sel: "\<forall>r\<in>set (map fresh_select ps). plain_select r" "map program_of (map fresh_select ps) = ps"
    using assms(6) by (auto simp: plain_select_def fresh_select_def allocInstance_def comp_def)
  then have "ready k ps (start_state ps k s)" for k by (simp add: ready_def start_state_def)
  then have scan: "bindR (run_rows whp NO_AGGREGATION fn places (filled_rows g is js) (start_state ps k s)) (\<lambda>st. Inr (client st)) =
      select_rows whp ps fn (map (\<lambda>j. map (g j) [0..<k]) js) s" if "set is = {..<k}" for places g "is" js k
    using run_rows_select [OF that, of ps "start_state ps k s" whp fn places g js] by (simp add: start_state_def)
  have no_columns: "bindR (constant_loop whp NO_AGGREGATION fn (unat n) (start_state ps 0 s)) (\<lambda>st. Inr (client st)) =
      select_rows whp ps fn (replicate (unat n) []) s"
    using constant_loop_select [of "start_state ps 0 s" ps whp fn "unat n"] sel by (simp add: start_state_def)
  show ?thesis
    using execute_stored_flat [OF assms(1-5), of NO_AGGREGATION fn s] scan no_columns record_rows_eq [of cs "used_columns cs sl wh" "unat n"]
    by (auto simp: record_rows_Nil split: if_splits)
qed

theorem cstable_scan_selects_witness:
  "\<exists>bs. stored_flat digit_packer (\<lambda>i k. replicate k 0) example_columns 2 bs \<and>
    execute_scan digit_packer [] rev 2 bs [SelectListNode (ColumnReference ''a'' None) None,
        SelectListNode (ColumnReference ''b'' None) None] None NO_AGGREGATION
      (\<lambda>rows row. Inr (rows @ [row], True)) [] = Inr [[Integer 7, Null], [Null, Null]]"
proof -
  let ?sl = "[SelectListNode (ColumnReference ''a'' None) None, SelectListNode (ColumnReference ''b'' None) None]"
  let ?ps = "[new_program (X_INPUT 0) 0, new_program (X_LITERAL Null) 0]"
  obtain bs where bs: "stored_flat digit_packer (\<lambda>i k. replicate k 0) example_columns 2 bs" using example_stored by blast
  have names: "used_columns example_columns ?sl None = [''a'']"
    by (simp add: used_columns_def query_columns_def example_columns_def)
  have progs: "query_programs [] (used_columns example_columns ?sl None) ?sl None = Inr (?ps, None)"
    unfolding names by (simp add: query_programs_def program_for_def compile_def)
  have "execute_scan digit_packer [] rev 2 bs ?sl None NO_AGGREGATION (\<lambda>rows row. Inr (rows @ [row], True)) [] =
      select_rows None ?ps (\<lambda>rows row. Inr (rows @ [row], True)) (record_rows example_columns (used_columns example_columns ?sl None) (unat (2 :: 64 word))) []"
    by (rule cstable_scan_selects [OF digit_packer_packs bs _ _ progs])
       (auto simp: overwrites_input overwrites_literal, simp_all add: new_program_def)
  also have "\<dots> = Inr [[Integer 7, Null], [Null, Null]]"
    by (simp add: names example_rows select_row_def where_holds_def vm_evaluate_def new_program_def)
  finally show ?thesis using bs by blast
qed

text \<open>
  C15. A query that aggregates over all records of a columnar file without repeated values calls its
  callback once, with the results of its programs after they have accumulated the values of exactly the
  records that pass the filter.
\<close>

theorem cstable_scan_aggregates:
  assumes "packs lib" and "stored_flat lib junk cs n bs" and "\<forall>cols. mset (order cols) = mset cols" and "unat n \<le> fuel"
    and "query_programs syms (used_columns cs sl wh) sl wh = Inr (ps, whp)"
    and "\<forall>row\<in>set (record_rows cs (used_columns cs sl wh) (unat n)). where_holds whp row = Inr (keep row)"
    and "mapR (\<lambda>p. accumulate_rows p (filter keep (record_rows cs (used_columns cs sl wh) (unat n)))) ps = Inr insts"
  shows "execute_scan lib syms order fuel bs sl wh AGGREGATE_ALL fn s =
    bindR (mapR (\<lambda>(p, i). vm_result p i Null) (zip ps insts)) (\<lambda>out. bindR (fn s out) (\<lambda>(s', go_on). Inr s'))"
proof -
  let ?rows = "record_rows cs (used_columns cs sl wh) (unat n)"
  have sel: "map program_of (map fresh_select ps) = ps" by (simp add: fresh_select_def comp_def)
  have "accumulates_to rows (map fresh_select ps) insts" if "mapR (\<lambda>p. accumulate_rows p rows) ps = Inr insts" for rows
    using that
  proof (induction ps arbitrary: insts)
    case (Cons p ps)
    then show ?case using alloc_total [of p]
      by (auto simp: accumulates_to_def accumulate_rows_def fresh_select_def bindR_eq_Inr_iff)
  qed (simp add: accumulates_to_def)
  then have acc: "accumulates_to (filter keep ?rows) (map fresh_select ps) insts" using assms(7) by blast
  show ?thesis
  proof (cases "used_columns cs sl wh = []")
    case True
    then have rows: "?rows = replicate (unat n) []" by (simp add: record_rows_Nil)
    show ?thesis
    proof (cases "unat n")
      case 0
      then show ?thesis using True execute_stored_flat [OF assms(1-5), of AGGREGATE_ALL fn s]
          constant_loop_aggregate [of None "\<lambda>_. True" "start_state ps 0 s" 0 insts fn] acc rows sel
        by (simp add: start_state_def where_holds_def)
    next
      case (Suc m)
      then have "where_holds whp [] = Inr (keep [])" using assms(6) rows by simp
      then show ?thesis using True execute_stored_flat [OF assms(1-5), of AGGREGATE_ALL fn s]
          constant_loop_aggregate [of whp keep "start_state ps 0 s" "unat n" insts fn] acc rows sel
        by (simp add: start_state_def)
    qed
  next
    case False
    then obtain "is" places where scan: "set is = {..<length (used_columns cs sl wh)}"
      "execute_scan lib syms order fuel bs sl wh AGGREGATE_ALL fn s = bindR (run_rows whp AGGREGATE_ALL fn places
        (filled_rows (\<lambda>j i. stored_values cs (used_columns cs sl wh ! i) ! j) is [0..<unat n])
        (start_state ps (length (used_columns cs sl wh)) s)) (\<lambda>st. Inr (client st))"
      using execute_stored_flat [OF assms(1-5), of AGGREGATE_ALL fn s] by auto
    have each: "\<forall>j\<in>set [0..<unat n].
        where_holds whp (map (\<lambda>i. stored_values cs (used_columns cs sl wh ! i) ! j) [0..<length (used_columns cs sl wh)]) =
        Inr (keep (map (\<lambda>i. stored_values cs (used_columns cs sl wh ! i) ! j) [0..<length (used_columns cs sl wh)]))"
      using assms(6) unfolding record_rows_eq [symmetric] by simp
    show ?thesis
      unfolding scan(2)
      using run_rows_aggregate [OF scan(1) each, of "start_state ps (length (used_columns cs sl wh)) s" insts fn places] acc sel
        record_rows_eq [of cs "used_columns cs sl wh" "unat n"]
      by (simp add: start_state_def)
  qed
qed

theorem cstable_scan_aggregates_witness:
  "\<exists>bs. stored_flat digit_packer (\<lambda>i k. replicate k 0) example_columns 2 bs \<and>
    execute_scan digit_packer [(''count'', FN_AGGREGATE kCountExpr)] rev 2 bs
      [SelectListNode (CallExpression ''count'' [ColumnReference ''a'' None]) None] None AGGREGATE_ALL
      (\<lambda>rows row. Inr (rows @ [row], True)) [] = Inr [[Integer 1]]"
proof -
  let ?syms = "[(''count'', FN_AGGREGATE kCountExpr)]"
  let ?sl = "[SelectListNode (CallExpression ''count'' [ColumnReference ''a'' None]) None]"
  let ?p = "new_program (X_CALL_AGGREGATE 0 kCountExpr [X_INPUT 0]) 8"
  note count = kCountExpr_def aggregate_of_def countExprAcc_def countExprReset_def countExprGet_def
  obtain bs where bs: "stored_flat digit_packer (\<lambda>i k. replicate k 0) example_columns 2 bs" using example_stored by blast
  have names: "used_columns example_columns ?sl None = [''a'']"
    by (simp add: used_columns_def query_columns_def example_columns_def)
  have low: "toLower ''count'' = ''count''" by code_simp
  have progs: "query_programs ?syms (used_columns example_columns ?sl None) ?sl None = Inr ([?p], None)"
    unfolding names by (simp add: query_programs_def program_for_def compile_def lookup_def low count)
  obtain i where i: "accumulate_rows ?p [[Integer 7], [Null]] = Inr i" "vm_result ?p i Null = Inr (Integer 1)"
    by (simp add: accumulate_rows_def allocInstance_def vm_accumulate_def vm_result_def on_slots_def new_program_def
        initInstance_def count)
  have "execute_scan digit_packer ?syms rev 2 bs ?sl None AGGREGATE_ALL (\<lambda>rows row. Inr (rows @ [row], True)) [] =
      bindR (mapR (\<lambda>(p, i). vm_result p i Null) (zip [?p] [i])) (\<lambda>out. bindR (Inr ([] @ [out], True)) (\<lambda>(s', go_on). Inr s'))"
    by (rule cstable_scan_aggregates [OF digit_packer_packs bs _ _ progs, where keep = "\<lambda>_. True"])
       (simp_all add: names example_rows where_holds_def i(1))
  also have "\<dots> = Inr [[Integer 1]]" by (simp add: i(2))
  finally show ?thesis using bs by blast
qed

end
