(* ===== verification/CSTable_Scan_Nested.thy ===== *)
theory CSTable_Scan_Nested
  imports CSTable_Scan_Correct
begin

text \<open>
  The scan of a columnar table with repeated values ends, and on its way every value of every column
  gets into a row, once and in order.
\<close>

section \<open>Columns in step\<close>

definition starts :: "(64 word \<times> svalue) list \<Rightarrow> nat" where
  "starts vs = length (filter (\<lambda>v. fst v = 0) vs)"

text \<open>Every column has as many records to come as the others, and is not behind.\<close>

definition in_step :: "nat \<Rightarrow> 64 word \<Rightarrow> value_column list \<Rightarrow> bool" where
  "in_step n level cols \<longleftrightarrow>
     (if level = 0 then \<forall>c\<in>set cols. starts (snd c) = n \<and> pending_level (snd c) = 0
      else 0 < n \<and> (\<forall>c\<in>set cols. starts (snd c) = n - 1) \<and> (\<exists>c\<in>set cols. pending_level (snd c) = level))"

definition values_left :: "value_column list \<Rightarrow> nat" where
  "values_left cols = sum_list (map (\<lambda>c. length (snd c)) cols)"

lemma starts_tl: "vs \<noteq> [] \<Longrightarrow> starts (tl vs) = (if pending_level vs = 0 then starts vs - 1 else starts vs)"
  by (cases vs) (simp_all add: starts_def pending_level_def)

lemma starts_pos: "0 < starts vs \<Longrightarrow> vs \<noteq> []"
  by (auto simp: starts_def)

lemma starts_none: "starts vs = 0 \<Longrightarrow> pending_level vs = 0 \<Longrightarrow> vs = []"
  by (cases vs) (auto simp: starts_def pending_level_def split: if_splits)

lemma level_after_zero: "level_after cols m = 0 \<longleftrightarrow> m = 0 \<and> (\<forall>c\<in>set cols. pending_level (snd c) = 0)"
proof (induction cols arbitrary: m)
  case (Cons c cols)
  have "max m (pending_level (snd c)) = 0 \<longleftrightarrow> m = 0 \<and> pending_level (snd c) = 0"
    by (auto simp: max_def)
  then show ?case using Cons by (simp add: level_after_def)
qed (simp add: level_after_def)

lemma level_after_attained: "level_after cols m = m \<or> (\<exists>c\<in>set cols. pending_level (snd c) = level_after cols m)"
proof (induction cols arbitrary: m)
  case (Cons c cols)
  let ?m = "max m (pending_level (snd c))"
  have after: "level_after (c # cols) m = level_after cols ?m" by (simp add: level_after_def)
  show ?case
  proof (cases "level_after cols ?m = ?m")
    case True
    then show ?thesis unfolding after by (cases "m \<le> pending_level (snd c)") (simp_all add: max_def)
  next
    case False
    then show ?thesis unfolding after using Cons.IH [of ?m] by simp
  qed
qed (simp add: level_after_def)

lemma fst_rest [simp]: "fst (rest_of level c) = fst c"
  by (simp add: rest_of_def)

lemma rest_shorter: "length (snd (rest_of level c)) \<le> length (snd c)"
  by (simp add: rest_of_def)

lemma values_left_less:
  assumes "c \<in> set cols" and "belongs level c" and "snd c \<noteq> []"
  shows "values_left (map (rest_of level) cols) < values_left cols"
proof -
  obtain xs ys where cols: "cols = xs @ c # ys" using assms(1) by (metis split_list)
  have "sum_list (map (\<lambda>c. length (snd (rest_of level c))) zs) \<le> values_left zs" for zs
    unfolding values_left_def by (intro sum_list_mono) (simp add: rest_shorter)
  from this [of xs] this [of ys] show ?thesis
    using assms(2,3) by (auto simp: values_left_def cols comp_def rest_of_def add_less_le_mono add_le_less_mono)
qed

lemma in_step_row:
  assumes "in_step (Suc n) level cols" and "cols \<noteq> []" and "level' = level_after (map (rest_of level) cols) 0"
  shows "\<forall>c\<in>set cols. belongs level c \<longrightarrow> snd c \<noteq> []"
    and "in_step (if level' = 0 then n else Suc n) level' (map (rest_of level) cols)"
    and "values_left (map (rest_of level) cols) < values_left cols"
proof -
  show behind: "\<forall>c\<in>set cols. belongs level c \<longrightarrow> snd c \<noteq> []"
  proof (cases "level = 0")
    case True
    then have "0 < starts (snd c)" if "c \<in> set cols" for c using assms(1) that by (simp add: in_step_def)
    then show ?thesis using starts_pos by blast
  next
    case False
    then show ?thesis by (auto simp: belongs_def pending_level_def word_le_nat_alt unat_eq_0)
  qed
  have rest: "\<forall>c\<in>set cols. starts (snd (rest_of level c)) = n"
  proof
    fix c assume c: "c \<in> set cols"
    show "starts (snd (rest_of level c)) = n"
    proof (cases "level = 0")
      case True
      then have "starts (snd c) = Suc n" "pending_level (snd c) = 0" "belongs level c"
        using assms(1) c by (simp_all add: in_step_def belongs_def)
      then show ?thesis using starts_tl [of "snd c"] behind c by (simp add: rest_of_def)
    next
      case False
      then have "starts (snd c) = n" using assms(1) c by (simp add: in_step_def)
      moreover have "pending_level (snd c) \<noteq> 0" if "belongs level c"
        using that False by (auto simp: belongs_def word_le_nat_alt unat_eq_0)
      ultimately show ?thesis using starts_tl [of "snd c"] behind c by (auto simp: rest_of_def)
    qed
  qed
  show "in_step (if level' = 0 then n else Suc n) level' (map (rest_of level) cols)"
    using rest level_after_zero [of "map (rest_of level) cols" 0] level_after_attained [of "map (rest_of level) cols" 0] assms(3)
    by (auto simp: in_step_def)
  obtain c where "c \<in> set cols" "belongs level c"
  proof (cases "level = 0")
    case True
    then show thesis using that [of "hd cols"] assms(2) by (simp add: belongs_def)
  next
    case False
    then show thesis using that assms(1) by (auto simp: in_step_def belongs_def)
  qed
  then show "values_left (map (rest_of level) cols) < values_left cols" using values_left_less behind by blast
qed

section \<open>Every value\<close>

text \<open>What the rows give to the place \<open>i\<close>.\<close>

definition handed :: "nat \<Rightarrow> ((nat \<times> svalue) list \<times> 64 word) list \<Rightarrow> svalue list" where
  "handed i ds = concat (map (\<lambda>(ups, level). map snd (filter (\<lambda>u. fst u = i) ups)) ds)"

lemma updates_of:
  "distinct (map fst cols) \<Longrightarrow> (i, vs) \<in> set cols \<Longrightarrow>
     map snd (filter (\<lambda>u. fst u = i) (updates level cols)) = (if belongs level (i, vs) then [snd (hd vs)] else [])"
proof (induction cols)
  case (Cons c cols)
  show ?case
  proof (cases "c = (i, vs)")
    case True
    then have "filter (\<lambda>u. fst u = i) (updates level cols) = []" using Cons.prems(1) by (force simp: updates_def filter_empty_conv)
    then show ?thesis using True by (simp add: updates_def)
  next
    case False
    then have "fst c \<noteq> i" "(i, vs) \<in> set cols" using Cons.prems by (auto simp: rev_image_eqI)
    then show ?thesis using Cons by (cases "belongs level (i, vs)") (simp_all add: updates_def)
  qed
qed simp

lemma delivers_all:
  "in_step n level cols \<Longrightarrow> cols \<noteq> [] \<Longrightarrow> distinct (map fst cols) \<Longrightarrow>
     \<exists>ds. delivers n level cols ds \<and> length ds \<le> values_left cols \<and> (\<forall>c\<in>set cols. handed (fst c) ds = map snd (snd c))"
proof (induction "values_left cols" arbitrary: n level cols rule: less_induct)
  case less
  show ?case
  proof (cases n)
    case 0
    then have "\<forall>c\<in>set cols. snd c = []" using less.prems(1) starts_none by (auto simp: in_step_def split: if_splits)
    then have "\<forall>c\<in>set cols. handed (fst c) [] = map snd (snd c)" by (simp add: handed_def)
    then show ?thesis unfolding 0 by (intro exI [of _ "[]"]) (simp add: delivers_end)
  next
    case (Suc m)
    obtain level' where level': "level' = level_after (map (rest_of level) cols) 0" by blast
    note row = in_step_row [OF less.prems(1) [unfolded Suc] less.prems(2) level']
    have distinct: "distinct (map fst (map (rest_of level) cols))" using less.prems(3) by (simp add: comp_def)
    from less.hyps [OF row(3,2) _ distinct] less.prems(2) obtain ds where
      ds: "delivers (if level' = 0 then m else Suc m) level' (map (rest_of level) cols) ds"
        "length ds \<le> values_left (map (rest_of level) cols)" "\<forall>c\<in>set (map (rest_of level) cols). handed (fst c) ds = map snd (snd c)"
      by auto
    have "handed (fst c) ((updates level cols, level') # ds) = map snd (snd c)" if c: "c \<in> set cols" for c
    proof -
      have "rest_of level c \<in> set (map (rest_of level) cols)" using c by simp
      then have "handed (fst c) ds = map snd (snd (rest_of level c))" using ds(3) by (metis fst_rest)
      moreover have "map snd (filter (\<lambda>u. fst u = fst c) (updates level cols)) = (if belongs level c then [snd (hd (snd c))] else [])"
        using updates_of [OF less.prems(3), of "fst c" "snd c" level] c by simp
      moreover have "belongs level c \<Longrightarrow> snd c \<noteq> []" using row(1) c by blast
      ultimately show ?thesis by (cases "snd c") (auto simp: handed_def rest_of_def)
    qed
    then have "\<forall>c\<in>set cols. handed (fst c) ((updates level cols, level') # ds) = map snd (snd c)" by blast
    moreover have "delivers (Suc m) level cols ((updates level cols, level') # ds)"
      by (rule delivers_row [OF row(1) level' ds(1)])
    moreover have "length ((updates level cols, level') # ds) \<le> values_left cols" using ds(2) row(3) by simp
    ultimately show ?thesis unfolding Suc by blast
  qed
qed

section \<open>Properties\<close>

text \<open>A column of \<open>n\<close> records: each starts with a value of repetition level 0.\<close>

definition record_aligned :: "nat \<Rightarrow> table_column \<Rightarrow> bool" where
  "record_aligned n c \<longleftrightarrow> (case c of (name, ty, rm, dm, es) \<Rightarrow>
     length (filter (\<lambda>e. fst e = 0) es) = n \<and> (es = [] \<or> fst (hd es) = 0))"

definition stored_nested :: "simdcomp \<Rightarrow> (nat \<Rightarrow> nat \<Rightarrow> byte list) \<Rightarrow> table_column list \<Rightarrow> 64 word \<Rightarrow> byte list \<Rightarrow> bool" where
  "stored_nested lib junk cs n bs \<longleftrightarrow> (\<forall>i k. length (junk i k) = k) \<and> distinct (map fst cs) \<and>
     (\<forall>c\<in>set cs. good_column c \<and> record_aligned (unat n) c) \<and> length cs < 2 ^ 32 \<and>
     (\<exists>t. store_columns lib cs (new_cstable n) = Inr t \<and> bs = commit_cstable junk t) \<and> length bs < 2 ^ 64"

lemma stored_nested_opens:
  assumes "packs lib" and "stored_nested lib junk cs n bs"
  shows "\<exists>tab. open_cstable bs = Inr tab \<and> num_records tab = n \<and> (\<forall>name. hasColumn tab name \<longleftrightarrow> name \<in> fst ` set cs) \<and>
    (\<forall>c\<in>set cs. opens_as lib tab c)"
proof -
  obtain t where t: "store_columns lib cs (new_cstable n) = Inr t" "bs = commit_cstable junk t" "length bs < 2 ^ 64"
    using assms(2) by (auto simp: stored_nested_def)
  have "\<exists>t. store_columns lib cs (new_cstable n) = Inr t \<and> (length (commit_cstable junk t) < 2 ^ 64 \<longrightarrow>
      (\<exists>tab. open_cstable (commit_cstable junk t) = Inr tab \<and> num_records tab = n \<and>
        (\<forall>name. hasColumn tab name \<longleftrightarrow> name \<in> fst ` set cs) \<and> (\<forall>c\<in>set cs. opens_as lib tab c)))"
    using assms(2) by (intro stored_table [OF assms(1)]) (auto simp: stored_nested_def)
  then show ?thesis using t by auto
qed

lemma stored_entries_aligned:
  assumes "\<forall>c\<in>set cs. record_aligned n c" and "name \<in> fst ` set cs"
  shows "starts (snd (stored_entries cs name)) = n \<and> pending_level (snd (stored_entries cs name)) = 0"
proof -
  have "map_of cs name \<noteq> None" using assms(2) by (simp add: map_of_eq_None_iff)
  then obtain ty rm dm es where c: "map_of cs name = Some (ty, rm, dm, es)" by auto
  then have aligned: "length (filter (\<lambda>e. fst e = 0) es) = n" "es = [] \<or> fst (hd es) = 0"
    using assms(1) map_of_SomeD [OF c] by (auto simp: record_aligned_def)
  have fst: "fst (entry_value ty dm e) = fst e" for e by (cases e) (simp add: entry_value_def)
  have "starts (map (entry_value ty dm) es) = n" using aligned(1) by (simp add: starts_def filter_map comp_def fst)
  moreover have "pending_level (map (entry_value ty dm) es) = 0" using aligned(2) by (cases es) (simp_all add: pending_level_def fst)
  ultimately show ?thesis using c by (simp add: stored_entries_def)
qed

lemma scan_opened:
  assumes "packs lib" and "\<forall>c\<in>set cs. record_aligned (unat n) c"
    and "map scanned_name cols = present" and "map row_index cols = [0 ..< length cols]"
    and "\<forall>col\<in>set cols. opened_column lib cs col" and "present \<noteq> []" and "mset order_cols = mset cols"
  shows "\<exists>ds. (\<forall>k<length present. handed k ds = map snd (snd (stored_entries cs (present ! k)))) \<and>
    (\<forall>wh strategy fn fuel st. sum_list (map (\<lambda>name. length (snd (stored_entries cs name))) present) \<le> fuel \<and>
        fetch_level st = 0 \<and> records_done st = 0 \<longrightarrow>
      scan_loop lib wh strategy n fn fuel order_cols st = run_rows wh strategy fn (column_places order_cols) ds st)"
proof -
  let ?entries = "\<lambda>col. stored_entries cs (scanned_name col)"
  let ?cs = "map (\<lambda>col. (fst (?entries col), row_index col, snd (?entries col))) order_cols"
  have set: "set order_cols = set cols" using assms(7) by (metis set_mset_mset)
  have "list_all2 (column_of lib) order_cols ?cs"
    using assms(5) set by (auto simp: list_all2_conv_all_nth column_of_def opened_column_def)
  note columns = this column_places_of [OF this]
  have "distinct (map row_index order_cols)" using assms(4,7) by (metis distinct_upt mset_eq_imp_distinct_iff mset_map)
  then have distinct: "distinct (map fst (map snd ?cs))" by (simp add: comp_def)
  have step: "in_step (unat n) 0 (map snd ?cs)"
    using stored_entries_aligned [OF assms(2)] assms(5) set by (auto simp: in_step_def opened_column_def)
  have "map snd ?cs \<noteq> []" using assms(3,6,7) by auto
  from delivers_all [OF step this distinct] obtain ds where ds: "delivers (unat n) 0 (map snd ?cs) ds"
    "length ds \<le> values_left (map snd ?cs)" "\<forall>c\<in>set (map snd ?cs). handed (fst c) ds = map snd (snd c)" by blast
  have "values_left (map snd ?cs) = sum_mset (image_mset (\<lambda>col. length (snd (?entries col))) (mset order_cols))"
    by (simp add: values_left_def comp_def sum_mset_sum_list [symmetric])
  also have "\<dots> = sum_list (map (\<lambda>col. length (snd (?entries col))) cols)"
    unfolding assms(7) by (simp add: sum_mset_sum_list [symmetric])
  also have "\<dots> = sum_list (map (\<lambda>name. length (snd (stored_entries cs name))) present)"
    by (simp add: assms(3) [symmetric] comp_def)
  finally have size: "values_left (map snd ?cs) = sum_list (map (\<lambda>name. length (snd (stored_entries cs name))) present)" .
  have handed: "handed k ds = map snd (snd (stored_entries cs (present ! k)))" if k: "k < length present" for k
  proof -
    have len: "k < length cols" using k assms(3) by auto
    then have "row_index (cols ! k) = k" using assms(4) by (metis add_0 nth_map nth_upt)
    moreover have "scanned_name (cols ! k) = present ! k" using len assms(3) by (metis nth_map)
    moreover have "cols ! k \<in> set order_cols" using len set by simp
    ultimately show ?thesis using ds(3) by force
  qed
  have "scan_loop lib wh strategy n fn fuel order_cols st = run_rows wh strategy fn (places_of ?cs) ds st"
    if "sum_list (map (\<lambda>name. length (snd (stored_entries cs name))) present) \<le> fuel" "fetch_level st = 0" "records_done st = 0"
    for wh strategy fn fuel and st :: "'a scan_state"
    by (rule scan_delivers [OF assms(1) ds(1) refl columns(1) that(2)]) (use that ds(2) size in simp_all)
  then show ?thesis using handed columns(2) by (intro exI [of _ ds]) simp
qed

text \<open>Two records: two values in the first, none in the second.\<close>

definition repeated_columns :: "table_column list" where
  "repeated_columns = [(''a'', C_UINT32_PLAIN, 1, 1, [(0, 1, Some [7, 0, 0, 0]), (1, 1, Some [8, 0, 0, 0]), (0, 0, None)])]"

lemma repeated_stored: "\<exists>bs. stored_nested digit_packer (\<lambda>i k. replicate k 0) repeated_columns 2 bs"
proof -
  have "\<exists>t. store_columns digit_packer repeated_columns (new_cstable 2) = Inr t \<and>
      length (commit_cstable (\<lambda>i k. replicate k 0) t) < 1000"
    by (auto simp: addDatum_defs addNull_def new_writer_def new_encoder_def encode_level_def Let_def repeated_columns_def
        bits_def bit_len.simps commit_column_def flush_def bodySize_def data_size_def data_section_def spare_size_def
        packs_data_def length_digit_packer addColumn_def new_cstable_def commit_cstable_def column_body_def column_header_def)
  then obtain t where t: "store_columns digit_packer repeated_columns (new_cstable 2) = Inr t"
    "length (commit_cstable (\<lambda>i k. replicate k 0) t) < 1000" by blast
  then show ?thesis
    by (intro exI [of _ "commit_cstable (\<lambda>i k. replicate k 0) t"])
       (auto simp: stored_nested_def repeated_columns_def good_column_def good_entry_def record_aligned_def)
qed

lemma repeated_entries: "stored_entries repeated_columns ''a'' = (1, [(0, Integer 7), (1, Integer 8), (0, Null)])"
  by (simp add: stored_entries_def repeated_columns_def entry_value_def scan_value_def)

text \<open>
  A record whose last row does not pass the filter is not handed out when results are formed within
  records, and what it accumulated goes to the next record: here the count of the second record, which
  has one value, is 2.
\<close>

lemma record_result_leaks:
  assumes "\<And>v. wh_fn [Integer v] Null = Inr (Bool (v \<noteq> 8))"
  shows "bindR (run_rows (Some (new_program (X_CALL_PURE wh_fn [X_INPUT 0]) 0)) AGGREGATE_WITHIN_RECORD_FLAT
      (\<lambda>rows row. Inr (rows @ [row], True)) [(0, 1)] [([(0, Integer 7)], 1), ([(0, Integer 8)], 0), ([(0, Integer 9)], 0)]
      (start_state [new_program (X_CALL_AGGREGATE 0 kCountExpr [X_INPUT 0]) 8] 1 [])) (\<lambda>st. Inr (client st)) = Inr [[Integer 2]]"
  using assms
  by (simp add: process_row_def Let_def where_holds_def vm_evaluate_def new_program_def fill_def start_state_def fresh_select_def
      allocInstance_def initInstance_def resetInstance_def kCountExpr_def aggregate_of_def countExprAcc_def countExprReset_def countExprGet_def
      toBool_def accumulate_selects_def vm_accumulate_def vm_result_def vm_reset_def on_slots_def emit_row_def reset_results_def clear_row_def scan_end_def)

text \<open>
  C14. The scan of a columnar file whose columns may repeat ends, and it misses and repeats nothing. When
  every column was stored with as many records as the file says, there is a sequence of rows that gives every
  column the values stored in it, each once and in order, and not longer than the number of these values;
  with that bound, the scan of these columns, in any order, with any filter, strategy and callback, is the
  run over that sequence of rows.
\<close>

theorem cstable_scan_complete:
  assumes "packs lib" and "stored_nested lib junk cs n bs" and "present = filter (\<lambda>name. name \<in> fst ` set cs) names" and "present \<noteq> []"
  shows "\<exists>tab cols. open_cstable bs = Inr tab \<and> open_columns tab names 0 = Inr cols \<and> map scanned_name cols = present \<and>
    (\<forall>order_cols. mset order_cols = mset cols \<longrightarrow> (\<exists>ds.
      (\<forall>k<length present. handed k ds = map snd (snd (stored_entries cs (present ! k)))) \<and>
      (\<forall>wh strategy fn fuel st. sum_list (map (\<lambda>name. length (snd (stored_entries cs name))) present) \<le> fuel \<and>
          fetch_level st = 0 \<and> records_done st = 0 \<longrightarrow>
        scan_loop lib wh strategy n fn fuel order_cols st = run_rows wh strategy fn (column_places order_cols) ds st)))"
proof -
  obtain tab where tab: "open_cstable bs = Inr tab" "num_records tab = n"
    "\<forall>name. hasColumn tab name \<longleftrightarrow> name \<in> fst ` set cs" "\<forall>c\<in>set cs. opens_as lib tab c"
    using stored_nested_opens [OF assms(1,2)] by blast
  have table: "distinct (map fst cs)" "\<forall>c\<in>set cs. record_aligned (unat n) c"
    using assms(2) by (simp_all add: stored_nested_def)
  from open_columns_stored [OF tab(3,4) table(1), of names 0] obtain cols where
    cols: "open_columns tab names 0 = Inr cols" "map scanned_name cols = present" "map row_index cols = [0 ..< length cols]"
      "\<forall>col\<in>set cols. opened_column lib cs col"
    using assms(3) by auto
  have runs: "\<exists>ds. (\<forall>k<length present. handed k ds = map snd (snd (stored_entries cs (present ! k)))) \<and>
      (\<forall>wh strategy fn fuel st. sum_list (map (\<lambda>name. length (snd (stored_entries cs name))) present) \<le> fuel \<and>
          fetch_level st = 0 \<and> records_done st = 0 \<longrightarrow>
        scan_loop lib wh strategy n fn fuel order_cols st = run_rows wh strategy fn (column_places order_cols) ds st)"
    if same: "mset order_cols = mset cols" for order_cols
    by (rule scan_opened [OF assms(1) table(2) cols(2-4) assms(4) same])
  show ?thesis by (intro exI [of _ tab] exI [of _ cols] conjI tab(1) cols(1,2) allI impI runs)
qed

theorem cstable_scan_complete_witness:
  "\<exists>bs tab cols ds. stored_nested digit_packer (\<lambda>i k. replicate k 0) repeated_columns 2 bs \<and> open_cstable bs = Inr tab \<and>
    open_columns tab [''b'', ''a''] 0 = Inr cols \<and> handed 0 ds = [Integer 7, Integer 8, Null] \<and>
    scan_loop digit_packer None AGGREGATE_ALL 2 (\<lambda>rows row. Inr (rows @ [row], True)) 3 cols (start_state [] 1 []) =
      run_rows None AGGREGATE_ALL (\<lambda>rows row. Inr (rows @ [row], True)) (column_places cols) ds (start_state [] 1 [])"
proof -
  obtain bs where bs: "stored_nested digit_packer (\<lambda>i k. replicate k 0) repeated_columns 2 bs" using repeated_stored by blast
  have present: "[''a''] = filter (\<lambda>name. name \<in> fst ` set repeated_columns) [''b'', ''a'']" by (simp add: repeated_columns_def)
  from cstable_scan_complete [OF digit_packer_packs bs present] obtain tab cols where
    cols: "open_cstable bs = Inr tab" "open_columns tab [''b'', ''a''] 0 = Inr cols" and
    runs: "\<forall>order_cols. mset order_cols = mset cols \<longrightarrow> (\<exists>ds.
      (\<forall>k<length [''a'']. handed k ds = map snd (snd (stored_entries repeated_columns ([''a''] ! k)))) \<and>
      (\<forall>wh strategy fn fuel (st :: svalue list list scan_state).
          sum_list (map (\<lambda>name. length (snd (stored_entries repeated_columns name))) [''a'']) \<le> fuel \<and>
          fetch_level st = 0 \<and> records_done st = 0 \<longrightarrow>
        scan_loop digit_packer wh strategy 2 fn fuel order_cols st = run_rows wh strategy fn (column_places order_cols) ds st))"
    by blast
  from runs have "\<exists>ds. (\<forall>k<length [''a'']. handed k ds = map snd (snd (stored_entries repeated_columns ([''a''] ! k)))) \<and>
      (\<forall>wh strategy fn fuel (st :: svalue list list scan_state).
          sum_list (map (\<lambda>name. length (snd (stored_entries repeated_columns name))) [''a'']) \<le> fuel \<and>
          fetch_level st = 0 \<and> records_done st = 0 \<longrightarrow>
        scan_loop digit_packer wh strategy 2 fn fuel cols st = run_rows wh strategy fn (column_places cols) ds st)"
    by blast
  then obtain ds where "handed 0 ds = [Integer 7, Integer 8, Null]" and
    "\<forall>wh strategy fn fuel (st :: svalue list list scan_state). 3 \<le> fuel \<and> fetch_level st = 0 \<and> records_done st = 0 \<longrightarrow>
        scan_loop digit_packer wh strategy 2 fn fuel cols st = run_rows wh strategy fn (column_places cols) ds st"
    by (auto simp: repeated_entries)
  then show ?thesis using bs cols
    by (intro exI [of _ bs] exI [of _ tab] exI [of _ cols] exI [of _ ds]) (simp add: start_state_def)
qed

end
