(* ===== verification/Uri.thy ===== *)
theory Uri
  imports Strings
begin

text \<open>
  URIs: \<open>URI\<close> of src/stx/uri.cc. Percent encoding, the parts of a URI and its text, and query strings. The
  pointers of the code walk over the text; here the part that is still ahead is passed on.
\<close>

section \<open>Percent encoding\<close>

definition is_unreserved :: "char \<Rightarrow> bool" where
  "is_unreserved c \<longleftrightarrow> between CHR ''A'' CHR ''Z'' c \<or> between CHR ''a'' CHR ''z'' c \<or> between CHR ''0'' CHR ''9'' c \<or>
     c \<in> {CHR ''-'', CHR ''_'', CHR ''.'', CHR ''~''}"

definition hextbl :: string where
  "hextbl = ''0123456789ABCDEF''"

definition url_encode_char :: "char \<Rightarrow> string" where
  "url_encode_char c =
     (if is_unreserved c then [c]
      else [CHR ''%'', hextbl ! (of_char c div 16), hextbl ! (of_char c mod 16)])"

definition urlEncode :: "string \<Rightarrow> string" where
  "urlEncode str = concat (map url_encode_char str)"

fun urlDecode :: "string \<Rightarrow> string result" where
  "urlDecode [] = Inr []"
| "urlDecode (c # cs) =
     (if c = CHR ''%'' then
        (if length cs < 2 then Inl (Raise IllegalArgumentError)
         else if \<not> isHexString (take 2 cs) then bindR (urlDecode cs) (\<lambda>r. Inr (CHR ''%'' # r))
         else bindR (urlDecode (drop 2 cs)) (\<lambda>r. Inr (char_of (digits_value 16 (take 2 cs)) # r)))
      else if c = CHR ''+'' then bindR (urlDecode cs) (\<lambda>r. Inr (CHR '' '' # r))
      else bindR (urlDecode cs) (\<lambda>r. Inr (c # r)))"

section \<open>The parts of a URI\<close>

record uri =
  scheme :: string
  userinfo :: string
  host :: string
  port :: "32 word"
  path :: string
  query_part :: string
  fragment :: string

definition empty_uri :: uri where
  "empty_uri = \<lparr>scheme = [], userinfo = [], host = [], port = 0, path = [], query_part = [], fragment = []\<rparr>"

text \<open>Each step sets the parts it finds and leaves the others as they were; it gives the text that is left.\<close>

definition parse_scheme :: "string \<Rightarrow> uri \<Rightarrow> uri \<times> string" where
  "parse_scheme s u =
     (let pre = takeWhile (\<lambda>c. c \<noteq> CHR ''/'' \<and> c \<noteq> CHR '':'') s; r = drop (length pre) s in
      if r \<noteq> [] \<and> hd r = CHR '':'' then (u\<lparr>scheme := pre\<rparr>, tl r) else (u, s))"

definition parse_userinfo :: "string \<Rightarrow> uri \<Rightarrow> uri \<times> string" where
  "parse_userinfo a u =
     (let pre = takeWhile (\<lambda>c. c \<noteq> CHR ''@'') a; r = drop (length pre) a in
      if r \<noteq> [] then (u\<lparr>userinfo := pre\<rparr>, tl r) else (u, a))"

definition parse_port :: "string \<Rightarrow> uri \<Rightarrow> uri result" where
  "parse_port r u =
     (if length r \<le> 1 \<or> hd r \<noteq> CHR '':'' then Inr u
      else let ds = takeWhile (between CHR ''0'' CHR ''9'') (tl r) in
        if ds = [] then Inr u
        else if 2 ^ 31 \<le> digits_value 10 ds then Inl (Raise RuntimeError)
        else Inr (u\<lparr>port := of_nat (digits_value 10 ds)\<rparr>))"

definition parse_authority :: "string \<Rightarrow> uri \<Rightarrow> uri result" where
  "parse_authority a u =
     (if a = [] then Inr u
      else let (u', a') = parse_userinfo a u; h = takeWhile (\<lambda>c. c \<noteq> CHR '':'') a' in
        parse_port (drop (length h) a') (u'\<lparr>host := h\<rparr>))"

definition ends_authority :: "char \<Rightarrow> bool" where
  "ends_authority c \<longleftrightarrow> c \<in> {CHR ''/'', CHR ''?'', CHR ''#''}"

definition parse_hierarchy :: "string \<Rightarrow> uri \<Rightarrow> (uri \<times> string) result" where
  "parse_hierarchy s u =
     (if 2 < length s \<and> take 2 s = ''//'' then
        (let a = takeWhile (\<lambda>c. \<not> ends_authority c) (drop 2 s) in
         bindR (parse_authority a u) (\<lambda>u'. Inr (u', drop (2 + length a) s)))
      else Inr (u, s))"

definition parse_path :: "string \<Rightarrow> uri \<Rightarrow> uri \<times> string" where
  "parse_path s u =
     (let p = takeWhile (\<lambda>c. c \<noteq> CHR ''?'' \<and> c \<noteq> CHR ''#'') s in
      (if p = [] then u else u\<lparr>path := p\<rparr>, drop (length p) s))"

definition parse_query :: "string \<Rightarrow> uri \<Rightarrow> uri \<times> string" where
  "parse_query s u =
     (if s \<noteq> [] \<and> hd s = CHR ''?'' then
        (let q = takeWhile (\<lambda>c. c \<noteq> CHR ''#'') (tl s) in
         (if q = [] then u else u\<lparr>query_part := q\<rparr>, drop (length q) (tl s)))
      else (u, s))"

definition parse_fragment :: "string \<Rightarrow> uri \<Rightarrow> uri" where
  "parse_fragment s u = (if 1 < length s \<and> hd s = CHR ''#'' then u\<lparr>fragment := tl s\<rparr> else u)"

definition parseURI :: "string \<Rightarrow> uri \<Rightarrow> uri result" where
  "parseURI s u =
     (let (u1, s1) = parse_scheme s u in
      bindR (parse_hierarchy s1 u1) (\<lambda>(u2, s2).
        let (u3, s3) = parse_path s2 u2; (u4, s4) = parse_query s3 u3 in Inr (parse_fragment s4 u4)))"

definition uri_toString :: "uri \<Rightarrow> string" where
  "uri_toString u =
     scheme u @ '':'' @
     (if host u = [] then []
      else ''//'' @ (if userinfo u = [] then [] else userinfo u @ ''@'') @ host u @
        (if 0 < port u then '':'' @ digits_of (unat (port u)) else [])) @
     path u @ (if query_part u = [] then [] else ''?'' @ query_part u) @
     (if fragment u = [] then [] else ''#'' @ fragment u)"

text \<open>The formats of these two may run forever when a value holds a placeholder that repeats itself.\<close>

definition hostAndPort :: "uri \<Rightarrow> string option" where
  "hostAndPort u = (if 0 < port u then formatv ''$0:$1'' [host u, digits_of (unat (port u))] else Some (host u))"

definition pathAndQuery :: "uri \<Rightarrow> string option" where
  "pathAndQuery u = (if query_part u \<noteq> [] then formatv ''$0?$1'' [path u, query_part u] else Some (path u))"

section \<open>Query strings\<close>

definition ends_word :: "char \<Rightarrow> bool" where
  "ends_word c \<longleftrightarrow> c = CHR ''='' \<or> c = CHR ''&''"

function parseQueryString :: "string \<Rightarrow> (string \<times> string) list result" where
  "parseQueryString s =
     (let key = takeWhile (\<lambda>c. \<not> ends_word c) s; r = drop (length key) s in
      if key = [] \<or> r = [] \<or> hd r \<noteq> CHR ''='' then Inr []
      else let val = takeWhile (\<lambda>c. \<not> ends_word c) (tl r); r' = drop (length val) (tl r) in
        bindR (urlDecode key) (\<lambda>k. bindR (urlDecode val) (\<lambda>v.
        bindR (parseQueryString (tl r')) (\<lambda>ps. Inr ((k, v) # ps)))))"
  by pat_completeness auto
termination by (relation "measure length") (auto simp: Let_def)

declare parseQueryString.simps [simp del]

fun build_params :: "(string \<times> string) list \<Rightarrow> string list option" where
  "build_params [] = Some []"
| "build_params ((k, v) # ps) =
     Option.bind (formatv ''$0=$1'' [urlEncode k, urlEncode v]) (\<lambda>p.
     Option.bind (build_params ps) (\<lambda>rest. Some (p # rest)))"

definition buildQueryString :: "(string \<times> string) list \<Rightarrow> string option" where
  "buildQueryString ps = Option.bind (build_params ps) (\<lambda>words. Some (join_str words ''&''))"

definition queryParams :: "uri \<Rightarrow> (string \<times> string) list result" where
  "queryParams u = (if query_part u \<noteq> [] then parseQueryString (query_part u) else Inr [])"

fun getParam :: "(string \<times> string) list \<Rightarrow> string \<Rightarrow> string option" where
  "getParam [] key = None"
| "getParam ((k, v) # ps) key = (if k = key then Some v else getParam ps key)"

end
