(* ===== verification/Http_Parser.thy ===== *)
theory Http_Parser
  imports Uri
begin

text \<open>
  The HTTP parser: \<open>HTTPParser\<close> of src/stx/http/httpparser.cc. It is fed pieces of a message and calls its
  callbacks as the parts of the message are complete. Here all callbacks are set, and a call of one is an
  event; an exception ends the connection, so the events of a call that throws are not kept.
\<close>

section \<open>State\<close>

datatype parser_mode = PARSE_HTTP_REQUEST | PARSE_HTTP_RESPONSE

datatype parser_state =
    S_REQ_METHOD
  | S_REQ_URI
  | S_REQ_VERSION
  | S_RES_VERSION
  | S_RES_STATUS_CODE
  | S_RES_STATUS_NAME
  | S_HEADER
  | S_BODY
  | S_DONE

datatype http_method = M_CONNECT | M_DELETE | M_GET | M_HEAD | M_OPTIONS | M_POST | M_PUT | M_TRACE

datatype http_event =
    OnMethod http_method
  | OnURI string
  | OnVersion string
  | OnStatusCode int
  | OnStatusName string
  | OnHeader string string
  | OnHeadersComplete
  | OnBodyChunk string

record http_parser =
  parser_mode :: parser_mode
  state :: parser_state
  buf :: string
  body_bytes_read :: "64 word"
  body_bytes_expected :: "64 word"
  expect_body :: bool

definition kMaxMethodSize :: nat where "kMaxMethodSize = 16"
definition kMaxURISize :: nat where "kMaxURISize = 8192"
definition kMaxVersionSize :: nat where "kMaxVersionSize = 16"
definition kMaxHeaderSize :: nat where "kMaxHeaderSize = 65535"

definition start_of :: "parser_mode \<Rightarrow> parser_state" where
  "start_of m = (case m of PARSE_HTTP_REQUEST \<Rightarrow> S_REQ_METHOD | PARSE_HTTP_RESPONSE \<Rightarrow> S_RES_VERSION)"

definition new_parser :: "parser_mode \<Rightarrow> http_parser" where
  "new_parser m = \<lparr>parser_mode = m, state = start_of m, buf = [], body_bytes_read = 0, body_bytes_expected = 0, expect_body = True\<rparr>"

definition reset_parser :: "http_parser \<Rightarrow> http_parser" where
  "reset_parser p = p\<lparr>state := start_of (parser_mode p), buf := [], body_bytes_read := 0, body_bytes_expected := 0, expect_body := True\<rparr>"

definition ignoreBody :: "http_parser \<Rightarrow> http_parser" where
  "ignoreBody p = p\<lparr>expect_body := False\<rparr>"

section \<open>Library functions\<close>

text \<open>\<open>strncasecmp\<close> of the bytes \<open>a\<close> with a string literal, over the length of \<open>a\<close>; both end at a zero byte.\<close>

fun strncasecmp_same :: "string \<Rightarrow> string \<Rightarrow> bool" where
  "strncasecmp_same [] lit = True"
| "strncasecmp_same (a # as) [] = (a = CHR 0x00)"
| "strncasecmp_same (a # as) (b # bs) = (lower a = lower b \<and> strncasecmp_same as bs)"

text \<open>
  \<open>std::stoul\<close> and \<open>std::stoi\<close>; \<open>None\<close> is an exception. A minus sign negates the unsigned value.
\<close>

definition stoul :: "string \<Rightarrow> 64 word option" where
  "stoul s =
     (let (neg, r) = read_sign (dropWhile is_space s); ds = takeWhile (is_digit_in 10) r; n = digits_value 10 ds in
      if ds = [] \<or> 2 ^ 64 \<le> n then None else Some (if neg then - of_nat n else of_nat n))"

definition stoi_int :: "string \<Rightarrow> int option" where
  "stoi_int s = (case stol s of None \<Rightarrow> None | Some n \<Rightarrow> if - (2 ^ 31) \<le> n \<and> n < 2 ^ 31 then Some n else None)"

definition stripTrailingBytes :: "char \<Rightarrow> string \<Rightarrow> string" where
  "stripTrailingBytes b s = rev (dropWhile (\<lambda>c. c = b) (rev s))"

section \<open>Steps\<close>

text \<open>
  A step takes the parser and the bytes that are left of the piece, and gives the parser, what is then
  left, and its events. \<open>readUntil\<close> moves the bytes before the separator to the buffer.
\<close>

type_synonym http_step = "http_parser \<Rightarrow> string \<Rightarrow> (http_parser \<times> string \<times> http_event list) result"

definition readUntil :: "char \<Rightarrow> http_parser \<Rightarrow> string \<Rightarrow> http_parser \<times> string" where
  "readUntil search p s =
     (let w = takeWhile (\<lambda>c. c \<noteq> search) s in (p\<lparr>buf := buf p @ w\<rparr>, drop (length w) s))"

text \<open>The steps for a word that ends with a separator have one shape; the limit holds for an incomplete word only.\<close>

definition word_step ::
  "char \<Rightarrow> nat \<Rightarrow> (http_parser \<Rightarrow> (http_parser \<times> http_event list) result) \<Rightarrow> http_step" where
  "word_step search max_size complete p s =
     (let (p', r) = readUntil search p s in
      if r = [] then (if max_size < length (buf p') then Inl (Raise ParseError) else Inr (p', [], []))
      else bindR (complete p') (\<lambda>(p'', es). Inr (p'', tl r, es)))"

definition method_of :: "string \<Rightarrow> http_method option" where
  "method_of s =
     (if s = ''CONNECT'' then Some M_CONNECT else if s = ''DELETE'' then Some M_DELETE
      else if s = ''GET'' then Some M_GET else if s = ''HEAD'' then Some M_HEAD
      else if s = ''OPTIONS'' then Some M_OPTIONS else if s = ''POST'' then Some M_POST
      else if s = ''PUT'' then Some M_PUT else if s = ''TRACE'' then Some M_TRACE else None)"

definition parseMethod :: http_step where
  "parseMethod = word_step CHR '' '' kMaxMethodSize (\<lambda>p.
     case method_of (buf p) of
       None \<Rightarrow> Inl (Raise ParseError)
     | Some m \<Rightarrow> Inr (p\<lparr>state := S_REQ_URI, buf := []\<rparr>, [OnMethod m]))"

definition parseRequestURI :: http_step where
  "parseRequestURI = word_step CHR '' '' kMaxURISize (\<lambda>p.
     Inr (p\<lparr>state := S_REQ_VERSION, buf := []\<rparr>, [OnURI (buf p)]))"

definition parseRequestVersion :: http_step where
  "parseRequestVersion = word_step CHR 0x0A kMaxVersionSize (\<lambda>p.
     Inr (p\<lparr>state := S_HEADER, buf := []\<rparr>, [OnVersion (stripTrailingBytes CHR 0x0D (buf p))]))"

definition parseResponseVersion :: http_step where
  "parseResponseVersion = word_step CHR '' '' kMaxVersionSize (\<lambda>p.
     Inr (p\<lparr>state := S_RES_STATUS_CODE, buf := [],
            body_bytes_expected := (if strncasecmp_same (buf p) ''HTTP/1.0'' then -1 else body_bytes_expected p)\<rparr>,
          [OnVersion (buf p)]))"

definition parseResponseStatusCode :: http_step where
  "parseResponseStatusCode = word_step CHR '' '' kMaxURISize (\<lambda>p.
     case stoi_int (buf p) of
       None \<Rightarrow> Inl (Raise ParseError)
     | Some code \<Rightarrow> Inr (p\<lparr>state := S_RES_STATUS_NAME, buf := []\<rparr>, [OnStatusCode code]))"

definition parseResponseStatusName :: http_step where
  "parseResponseStatusName = word_step CHR 0x0A kMaxVersionSize (\<lambda>p.
     Inr (p\<lparr>state := S_HEADER, buf := []\<rparr>, [OnStatusName (stripTrailingBytes CHR 0x0D (buf p))]))"

definition processHeader :: "string \<Rightarrow> string \<Rightarrow> http_parser \<Rightarrow> http_parser result" where
  "processHeader key val p =
     bindR (if expect_body p \<and> length key = length ''Content-Length'' \<and> strncasecmp_same key ''Content-Length''
            then (case stoul val of None \<Rightarrow> Inl (Raise ParseError) | Some n \<Rightarrow> Inr (p\<lparr>body_bytes_expected := n\<rparr>))
            else Inr p) (\<lambda>p'.
       Inr (if parser_mode p' = PARSE_HTTP_RESPONSE \<and> expect_body p' \<and> length key = length ''Connection'' \<and>
               strncasecmp_same key ''Connection'' \<and> length val = length ''Close'' \<and> strncasecmp_same val ''Close''
            then p'\<lparr>body_bytes_expected := -1\<rparr> else p'))"

definition complete_header :: "http_parser \<Rightarrow> (http_parser \<times> http_event list) result" where
  "complete_header p =
     (let line = stripTrailingBytes CHR 0x0D (buf p) in
      if line = [] then
        Inr (p\<lparr>buf := [], state := (if body_bytes_expected p = 0 then S_DONE else S_BODY)\<rparr>, [OnHeadersComplete])
      else
        let key = takeWhile (\<lambda>c. c \<noteq> CHR '':'') line; r = drop (length key) line in
        if r = [] then Inl (Raise ParseError)
        else let val = dropWhile (\<lambda>c. c = CHR '' '') (tl r) in
          bindR (processHeader key val p) (\<lambda>p'. Inr (p'\<lparr>buf := [], state := S_HEADER\<rparr>, [OnHeader key val])))"

definition parseHeader :: http_step where
  "parseHeader = word_step CHR 0x0A kMaxHeaderSize complete_header"

definition readBody :: http_step where
  "readBody p s =
     (let total = body_bytes_read p + of_nat (length s) in
      Inr (p\<lparr>body_bytes_read := total, state := (if total = body_bytes_expected p then S_DONE else state p)\<rparr>, [], [OnBodyChunk s]))"

definition parser_step :: http_step where
  "parser_step p s = (case state p of
      S_REQ_METHOD \<Rightarrow> parseMethod p s
    | S_REQ_URI \<Rightarrow> parseRequestURI p s
    | S_REQ_VERSION \<Rightarrow> parseRequestVersion p s
    | S_RES_VERSION \<Rightarrow> parseResponseVersion p s
    | S_RES_STATUS_CODE \<Rightarrow> parseResponseStatusCode p s
    | S_RES_STATUS_NAME \<Rightarrow> parseResponseStatusName p s
    | S_HEADER \<Rightarrow> parseHeader p s
    | S_DONE \<Rightarrow> if parser_mode p = PARSE_HTTP_REQUEST then Inl (Raise ParseError) else readBody p s
    | S_BODY \<Rightarrow> readBody p s)"

section \<open>Feeding\<close>

lemma word_step_shorter:
  assumes "s \<noteq> []" and "word_step c n f p s = Inr (p', r, es)"
  shows "length r < length s"
proof (cases "drop (length (takeWhile (\<lambda>x. x \<noteq> c) s)) s = []")
  case True
  then show ?thesis using assms by (auto simp: word_step_def readUntil_def Let_def split: if_splits)
next
  case False
  then have "r = tl (drop (length (takeWhile (\<lambda>x. x \<noteq> c) s)) s)"
    using assms(2) by (auto simp: word_step_def readUntil_def Let_def bindR_eq_Inr_iff split: if_splits)
  then show ?thesis using assms(1) by (cases s) auto
qed

lemma parser_step_shorter: "s \<noteq> [] \<Longrightarrow> parser_step p s = Inr (p', r, es) \<Longrightarrow> length r < length s"
  by (cases "state p")
     (auto simp: parser_step_def parseMethod_def parseRequestURI_def parseRequestVersion_def parseResponseVersion_def
        parseResponseStatusCode_def parseResponseStatusName_def parseHeader_def readBody_def Let_def
        dest: word_step_shorter split: if_splits)

function parse_http :: "http_parser \<Rightarrow> string \<Rightarrow> (http_parser \<times> http_event list) result" where
  "parse_http p s =
     (if s = [] then Inr (p, [])
      else bindR (parser_step p s) (\<lambda>(p', r, es).
        bindR (parse_http p' r) (\<lambda>(p'', es'). Inr (p'', es @ es'))))"
  by pat_completeness auto
termination by (relation "measure (\<lambda>(p, s). length s)") (auto dest: parser_step_shorter)

declare parse_http.simps [simp del]

definition http_eof :: "http_parser \<Rightarrow> http_parser result" where
  "http_eof p =
     (if state p = S_DONE then Inr p
      else if body_bytes_expected p \<noteq> -1 \<and> body_bytes_read p < body_bytes_expected p then Inl (Raise ParseError)
      else Inr (p\<lparr>state := S_DONE\<rparr>))"

end
