(* ===== verification/Http_Message.thy ===== *)
theory Http_Message
  imports Http_Parser
begin

text \<open>
  HTTP messages: \<open>HTTPMessage\<close>, \<open>HTTPRequest\<close>, \<open>HTTPResponse\<close>, \<open>HTTPGenerator\<close> and \<open>Cookies\<close> of
  src/stx/http/httpmessage.cc, httprequest.cc, httpresponse.cc, httpgenerator.cc and cookies.cc. A message
  is its text's parts; the parser of \<open>Http_Parser\<close> reads it and the generator writes it.
\<close>

section \<open>Headers\<close>

type_synonym headers = "(string \<times> string) list"

fun lookup_header :: "headers \<Rightarrow> string \<Rightarrow> string option" where
  "lookup_header [] key = None"
| "lookup_header ((k, v) # hs) key = (if k = key then Some v else lookup_header hs key)"

definition getHeader :: "headers \<Rightarrow> string \<Rightarrow> string" where
  "getHeader hs key = (case lookup_header hs (toLower key) of None \<Rightarrow> [] | Some v \<Rightarrow> v)"

definition hasHeader :: "headers \<Rightarrow> string \<Rightarrow> bool" where
  "hasHeader hs key = (lookup_header hs (toLower key) \<noteq> None)"

definition addHeader :: "string \<Rightarrow> string \<Rightarrow> headers \<Rightarrow> headers" where
  "addHeader key val hs = hs @ [(toLower key, val)]"

fun set_first :: "string \<Rightarrow> string \<Rightarrow> headers \<Rightarrow> headers" where
  "set_first key val [] = [(key, val)]"
| "set_first key val ((k, v) # hs) = (if k = key then (k, val) # hs else (k, v) # set_first key val hs)"

definition setHeader :: "string \<Rightarrow> string \<Rightarrow> headers \<Rightarrow> headers" where
  "setHeader key val hs = set_first (toLower key) val hs"

section \<open>Requests\<close>

record http_request =
  req_method :: http_method
  req_uri :: string
  req_version :: string
  req_headers :: headers
  req_body :: string

definition empty_request :: http_request where
  "empty_request = \<lparr>req_method = M_GET, req_uri = [], req_version = [], req_headers = [], req_body = []\<rparr>"

definition new_request :: "http_method \<Rightarrow> string \<Rightarrow> http_request" where
  "new_request m u = \<lparr>req_method = m, req_uri = u, req_version = ''HTTP/1.1'', req_headers = [], req_body = []\<rparr>"

fun method_name :: "http_method \<Rightarrow> string" where
  "method_name M_CONNECT = ''CONNECT''"
| "method_name M_DELETE = ''DELETE''"
| "method_name M_GET = ''GET''"
| "method_name M_HEAD = ''HEAD''"
| "method_name M_OPTIONS = ''OPTIONS''"
| "method_name M_POST = ''POST''"
| "method_name M_PUT = ''PUT''"
| "method_name M_TRACE = ''TRACE''"

text \<open>\<open>None\<close> where the text of the address is formatted forever (see \<open>formatv\<close>).\<close>

definition mkGet :: "uri \<Rightarrow> headers \<Rightarrow> http_request option" where
  "mkGet u hs =
     Option.bind (pathAndQuery u) (\<lambda>target. Option.bind (hostAndPort u) (\<lambda>h.
       Some ((new_request M_GET target)\<lparr>req_headers := fold (\<lambda>(k, v). setHeader k v) hs (addHeader ''Host'' h [])\<rparr>)))"

definition mkPost :: "uri \<Rightarrow> string \<Rightarrow> headers \<Rightarrow> http_request option" where
  "mkPost u data hs =
     Option.bind (pathAndQuery u) (\<lambda>target. Option.bind (hostAndPort u) (\<lambda>h.
       Some ((new_request M_POST target)\<lparr>req_headers := fold (\<lambda>(k, v). setHeader k v) hs (addHeader ''Host'' h []), req_body := data\<rparr>)))"

definition keepalive :: "http_request \<Rightarrow> bool" where
  "keepalive r =
     (if getHeader (req_headers r) ''Connection'' = ''keep-alive'' then True
      else if getHeader (req_headers r) ''Connection'' = ''close'' then False
      else req_version r = ''HTTP/1.1'')"

text \<open>The callbacks that \<open>HTTPRequest::parse\<close> gives to the parser.\<close>

fun request_event :: "http_event \<Rightarrow> http_request \<Rightarrow> http_request" where
  "request_event (OnMethod m) r = r\<lparr>req_method := m\<rparr>"
| "request_event (OnURI u) r = r\<lparr>req_uri := u\<rparr>"
| "request_event (OnVersion v) r = r\<lparr>req_version := v\<rparr>"
| "request_event (OnHeader k v) r = r\<lparr>req_headers := addHeader k v (req_headers r)\<rparr>"
| "request_event (OnBodyChunk s) r = r\<lparr>req_body := req_body r @ s\<rparr>"
| "request_event _ r = r"

definition parse_request :: "string \<Rightarrow> http_request result" where
  "parse_request s =
     bindR (parse_http (new_parser PARSE_HTTP_REQUEST) s) (\<lambda>(p, es).
     bindR (http_eof p) (\<lambda>p'.
       if state p' \<noteq> S_DONE then Inl (Raise RuntimeError) else Inr (fold request_event es empty_request)))"

section \<open>Responses\<close>

record http_response =
  status_code :: int
  status_name :: string
  res_version :: string
  res_headers :: headers
  res_body :: string

definition empty_response :: http_response where
  "empty_response = \<lparr>status_code = 404, status_name = ''Not found'', res_version = [], res_headers = [], res_body = []\<rparr>"

fun response_event :: "http_event \<Rightarrow> http_response \<Rightarrow> http_response" where
  "response_event (OnVersion v) r = r\<lparr>res_version := v\<rparr>"
| "response_event (OnStatusCode c) r = r\<lparr>status_code := c\<rparr>"
| "response_event (OnStatusName n) r = r\<lparr>status_name := n\<rparr>"
| "response_event (OnHeader k v) r = r\<lparr>res_headers := addHeader k v (res_headers r)\<rparr>"
| "response_event (OnBodyChunk s) r = r\<lparr>res_body := res_body r @ s\<rparr>"
| "response_event _ r = r"

definition parse_response :: "string \<Rightarrow> http_response result" where
  "parse_response s =
     bindR (parse_http (new_parser PARSE_HTTP_RESPONSE) s) (\<lambda>(p, es).
     bindR (http_eof p) (\<lambda>p'.
       if state p' \<noteq> S_DONE then Inl (Raise RuntimeError) else Inr (fold response_event es empty_response)))"

definition populateFromRequest :: "http_request \<Rightarrow> http_response \<Rightarrow> http_response" where
  "populateFromRequest q r =
     (let r' = r\<lparr>res_version := req_version q\<rparr> in
      if req_version q = ''HTTP/1.0''
      then r'\<lparr>res_headers := addHeader ''Connection'' (if keepalive q then ''keep-alive'' else ''close'') (res_headers r')\<rparr>
      else r')"

section \<open>Generator\<close>

definition crlf :: string where
  "crlf = [CHR 0x0D, CHR 0x0A]"

fun header_lines :: "headers \<Rightarrow> string option" where
  "header_lines [] = Some []"
| "header_lines ((k, v) # hs) =
     Option.bind (formatv (''$0: $1'' @ crlf) [k, v]) (\<lambda>line. Option.bind (header_lines hs) (\<lambda>rest. Some (line @ rest)))"

definition generate_request :: "http_request \<Rightarrow> string option" where
  "generate_request r =
     Option.bind (formatv (''$0 $1 $2'' @ crlf) [method_name (req_method r), req_uri r, req_version r]) (\<lambda>start.
     Option.bind (header_lines (req_headers r)) (\<lambda>hs.
     Option.bind (if req_body r \<noteq> [] \<and> \<not> hasHeader (req_headers r) ''Content-Length''
                  then formatv (''Content-Length: $0'' @ crlf) [digits_of (length (req_body r))] else Some []) (\<lambda>cl.
       Some (start @ hs @ cl @ crlf @ req_body r))))"

definition generate_response :: "http_response \<Rightarrow> string run" where
  "generate_response r =
     (if length (res_version r) < 4 then Some (Inl (Raise RuntimeError))
      else Option.bind (formatv (''$0 $1 $2'' @ crlf) [res_version r, int_to_string (status_code r), status_name r]) (\<lambda>start.
        Option.bind (header_lines (res_headers r)) (\<lambda>hs. Some (Inr (start @ hs @ crlf @ res_body r)))))"

section \<open>Cookies\<close>

fun getCookie :: "(string \<times> string) list \<Rightarrow> string \<Rightarrow> string option" where
  "getCookie [] key = None"
| "getCookie ((k, v) # cs) key = (if k = key then Some v else getCookie cs key)"

function parseCookieHeader :: "string \<Rightarrow> (string \<times> string) list result" where
  "parseCookieHeader s =
     (if s = [] then Inr []
      else let s' = dropWhile (\<lambda>c. c = CHR '' '') s; key = takeWhile (\<lambda>c. c \<noteq> CHR ''='') s'; r = drop (Suc (length key)) s';
               val = takeWhile (\<lambda>c. c \<noteq> CHR '';'') r in
        bindR (urlDecode key) (\<lambda>k. bindR (urlDecode val) (\<lambda>v.
        bindR (parseCookieHeader (drop (Suc (length val)) r)) (\<lambda>cs. Inr ((k, v) # cs)))))"
  by pat_completeness auto
termination
proof (relation "measure length")
  fix s s' key r val :: string and k v
  assume "s \<noteq> []" and s': "s' = dropWhile (\<lambda>c. c = CHR '' '') s" and "r = drop (Suc (length key)) s'"
  moreover have "length s' \<le> length s" using s' by (simp add: length_dropWhile_le)
  ultimately show "(drop (Suc (length val)) r, s) \<in> measure length" by (cases s) auto
qed simp

declare parseCookieHeader.simps [simp del]

text \<open>
  \<open>strftime\<close> gives the text of the expiry time from its microseconds.
\<close>

definition mkCookie ::
  "(64 word \<Rightarrow> string) \<Rightarrow> string \<Rightarrow> string \<Rightarrow> 64 word \<Rightarrow> string \<Rightarrow> string \<Rightarrow> bool \<Rightarrow> bool \<Rightarrow> string option" where
  "mkCookie strftime key val expire cpath cdomain secure httponly =
     Option.bind (formatv ''$0=$1'' [urlEncode key, urlEncode val]) (\<lambda>c.
     Option.bind (if cpath \<noteq> [] then formatv ''; Path=$0'' [cpath] else Some []) (\<lambda>p.
     Option.bind (if cdomain \<noteq> [] then formatv ''; Domain=$0'' [cdomain] else Some []) (\<lambda>d.
     Option.bind (if 0 < expire then formatv ''; Expires=$0'' [strftime expire] else Some []) (\<lambda>e.
       Some (c @ p @ d @ e @ (if httponly then ''; HttpOnly'' else []) @ (if secure then ''; Secure'' else []))))))"

definition addCookie ::
  "(64 word \<Rightarrow> string) \<Rightarrow> string \<Rightarrow> string \<Rightarrow> 64 word \<Rightarrow> string \<Rightarrow> string \<Rightarrow> bool \<Rightarrow> bool \<Rightarrow> http_response \<Rightarrow> http_response option" where
  "addCookie strftime key val expire cpath cdomain secure httponly r =
     Option.bind (mkCookie strftime key val expire cpath cdomain secure httponly) (\<lambda>c.
       Some (r\<lparr>res_headers := setHeader ''Set-Cookie'' c (res_headers r)\<rparr>))"

definition request_cookies :: "http_request \<Rightarrow> (string \<times> string) list result" where
  "request_cookies r = parseCookieHeader (getHeader (req_headers r) ''Cookie'')"

end
