(* ===== verification/Http_Parser_Correct.thy ===== *)
theory Http_Parser_Correct
  imports Http_Parser
begin

text \<open>
  The parser does not depend on how a message is cut into pieces: what it reports for the pieces it
  reports for the whole, up to where the chunks of the body begin and end.
\<close>

section \<open>What is reported\<close>

fun body_of :: "http_event \<Rightarrow> string" where
  "body_of (OnBodyChunk s) = s"
| "body_of _ = []"

fun is_body :: "http_event \<Rightarrow> bool" where
  "is_body (OnBodyChunk s) = True"
| "is_body _ = False"

definition reported :: "http_event list \<Rightarrow> http_event list \<times> string" where
  "reported es = (filter (\<lambda>e. \<not> is_body e) es, concat (map body_of es))"

lemma reported_append: "reported es = reported es' \<Longrightarrow> reported (fs @ es) = reported (fs @ es')"
  by (simp add: reported_def)

section \<open>One step on a longer piece\<close>

lemma word_step_complete:
  assumes "word_step c n f p a = Inr (p', r, es)" and "c \<in> set a"
  shows "word_step c n f p (a @ b) = Inr (p', r @ b, es)"
proof -
  obtain w v where a: "a = w @ c # v" "c \<notin> set w" using assms(2) by (metis split_list_first)
  have "takeWhile (\<lambda>x. x \<noteq> c) (w @ c # v) = w" "takeWhile (\<lambda>x. x \<noteq> c) (w @ c # v @ b) = w"
    using a(2) by (auto simp: takeWhile_tail takeWhile_append)
  then show ?thesis using assms(1) a(1) by (auto simp: word_step_def readUntil_def Let_def bindR_eq_Inr_iff)
qed

lemma readUntil_all: "c \<notin> set a \<Longrightarrow> readUntil c p a = (p\<lparr>buf := buf p @ a\<rparr>, [])"
proof -
  assume "c \<notin> set a"
  then have tw: "takeWhile (\<lambda>x. x \<noteq> c) a = a" by (auto simp: takeWhile_eq_all_conv)
  show ?thesis unfolding readUntil_def Let_def tw by simp
qed

lemma readUntil_split: "c \<notin> set a \<Longrightarrow> readUntil c p (a @ b) = readUntil c (p\<lparr>buf := buf p @ a\<rparr>) b"
proof -
  assume "c \<notin> set a"
  then have tw: "takeWhile (\<lambda>x. x \<noteq> c) (a @ b) = a @ takeWhile (\<lambda>x. x \<noteq> c) b" by (auto simp: takeWhile_append)
  show ?thesis unfolding readUntil_def Let_def tw by simp
qed

lemma word_step_incomplete:
  assumes "word_step c n f p a = Inr (p', r, es)" and "c \<notin> set a"
  shows "p' = p\<lparr>buf := buf p @ a\<rparr> \<and> r = [] \<and> es = [] \<and> word_step c n f p (a @ b) = word_step c n f p' b"
proof -
  have p': "p' = p\<lparr>buf := buf p @ a\<rparr> \<and> r = [] \<and> es = []"
    using assms(1) by (auto simp: word_step_def readUntil_all [OF assms(2)] split: if_splits)
  then show ?thesis by (simp add: word_step_def readUntil_split [OF assms(2)])
qed

text \<open>Outside of the body every step is a step for a word.\<close>

lemma parser_step_word:
  assumes "state p \<noteq> S_BODY" and "state p \<noteq> S_DONE"
  shows "\<exists>c n f. \<forall>q s. state q = state p \<longrightarrow> parser_step q s = word_step c n f q s"
proof (cases "state p")
  case S_REQ_METHOD
  then show ?thesis by (auto simp: parser_step_def parseMethod_def)
next
  case S_REQ_URI
  then show ?thesis by (auto simp: parser_step_def parseRequestURI_def)
next
  case S_REQ_VERSION
  then show ?thesis by (auto simp: parser_step_def parseRequestVersion_def)
next
  case S_RES_VERSION
  then show ?thesis by (auto simp: parser_step_def parseResponseVersion_def)
next
  case S_RES_STATUS_CODE
  then show ?thesis by (auto simp: parser_step_def parseResponseStatusCode_def)
next
  case S_RES_STATUS_NAME
  then show ?thesis by (auto simp: parser_step_def parseResponseStatusName_def)
next
  case S_HEADER
  then show ?thesis by (auto simp: parser_step_def parseHeader_def)
qed (use assms in auto)

lemma parser_step_append:
  assumes "parser_step p a = Inr (p', r, es)" and "state p \<noteq> S_BODY" and "state p \<noteq> S_DONE"
  shows "parser_step p (a @ b) = Inr (p', r @ b, es) \<or> r = [] \<and> es = [] \<and> parser_step p (a @ b) = parser_step p' b"
proof -
  obtain c n f where step: "\<And>q s. state q = state p \<Longrightarrow> parser_step q s = word_step c n f q s"
    using parser_step_word [OF assms(2,3)] by blast
  have first: "word_step c n f p a = Inr (p', r, es)" using step [of p a] assms(1) by simp
  show ?thesis
  proof (cases "c \<in> set a")
    case True
    then show ?thesis using word_step_complete [OF first] step [of p "a @ b"] by simp
  next
    case False
    then have "p' = p\<lparr>buf := buf p @ a\<rparr>" "r = []" "es = []" "word_step c n f p (a @ b) = word_step c n f p' b"
      using word_step_incomplete [OF first, of b] by blast+
    then show ?thesis using step [of p "a @ b"] step [of p' b] by simp
  qed
qed

section \<open>Two pieces\<close>

lemma parse_body: "s \<noteq> [] \<Longrightarrow> state p = S_BODY \<Longrightarrow>
    parse_http p s = Inr (p\<lparr>body_bytes_read := body_bytes_read p + of_nat (length s),
      state := (if body_bytes_read p + of_nat (length s) = body_bytes_expected p then S_DONE else S_BODY)\<rparr>, [OnBodyChunk s])"
  by (simp add: parse_http.simps [of p s] parser_step_def readBody_def Let_def parse_http.simps [of _ "[]"])

lemma parse_http_append:
  "parse_http p a = Inr (p1, e1) \<Longrightarrow> state p1 \<noteq> S_DONE \<Longrightarrow> parse_http p1 b = Inr (p2, e2) \<Longrightarrow>
     \<exists>e. parse_http p (a @ b) = Inr (p2, e) \<and> reported e = reported (e1 @ e2)"
proof (induction p a arbitrary: e1 rule: parse_http.induct)
  case (1 p a)
  show ?case
  proof (cases "a = [] \<or> b = []")
    case True
    then show ?thesis using "1.prems" by (auto simp: parse_http.simps [of _ "[]"])
  next
    case False
    then obtain p' r es es' where step: "parser_step p a = Inr (p', r, es)" and rest: "parse_http p' r = Inr (p1, es')"
      and e1: "e1 = es @ es'"
      using "1.prems"(1) by (auto simp: parse_http.simps [of p a] bindR_eq_Inr_iff)
    have whole: "parse_http p (a @ b) = bindR (parser_step p (a @ b)) (\<lambda>(p', r, es).
        bindR (parse_http p' r) (\<lambda>(p'', es'). Inr (p'', es @ es')))"
      using False by (simp add: parse_http.simps [of p "a @ b"])
    show ?thesis
    proof (cases "state p = S_BODY \<or> state p = S_DONE")
      case False
      then consider "parser_step p (a @ b) = Inr (p', r @ b, es)" | "r = []" "es = []" "parser_step p (a @ b) = parser_step p' b"
        using parser_step_append [OF step] by blast
      then show ?thesis
      proof cases
        case 1
        obtain e where "parse_http p' (r @ b) = Inr (p2, e)" "reported e = reported (es' @ e2)"
          using "1.IH" [OF _ step refl refl rest "1.prems"(2,3)] \<open>\<not> (a = [] \<or> b = [])\<close> by blast
        then show ?thesis using 1 whole e1 reported_append [of e "es' @ e2" es] by simp
      next
        case 2
        then have "p' = p1" "es' = []" using rest by (simp_all add: parse_http.simps [of _ "[]"])
        then have "parse_http p (a @ b) = parse_http p1 b"
          using 2 whole \<open>\<not> (a = [] \<or> b = [])\<close> by (simp add: parse_http.simps [of p1 b])
        then show ?thesis using "1.prems"(3) e1 2 \<open>es' = []\<close> by simp
      qed
    next
      case True
      have "p' = p\<lparr>body_bytes_read := body_bytes_read p + of_nat (length a),
          state := (if body_bytes_read p + of_nat (length a) = body_bytes_expected p then S_DONE else state p)\<rparr>"
        "r = []" "es = [OnBodyChunk a]"
        using True step by (auto simp: parser_step_def readBody_def Let_def split: if_splits)
      moreover from this rest have "p1 = p'" "es' = []" by (simp_all add: parse_http.simps [of _ "[]"])
      ultimately have body: "state p = S_BODY" "p1 = p\<lparr>body_bytes_read := body_bytes_read p + of_nat (length a), state := S_BODY\<rparr>"
        "e1 = [OnBodyChunk a]"
        using True "1.prems"(2) e1 by (auto split: if_splits)
      have "parse_http p (a @ b) = Inr (p2, [OnBodyChunk (a @ b)])"
        using "1.prems"(3) parse_body [of b p1] parse_body [of "a @ b" p] False body by (auto simp: add.assoc)
      moreover have "e2 = [OnBodyChunk b]" using "1.prems"(3) parse_body [of b p1] False body by auto
      ultimately show ?thesis using body(3) by (simp add: reported_def)
    qed
  qed
qed

section \<open>Any number of pieces\<close>

fun feed_chunks :: "http_parser \<Rightarrow> string list \<Rightarrow> (http_parser \<times> http_event list) result" where
  "feed_chunks p [] = Inr (p, [])"
| "feed_chunks p (c # cs) =
     bindR (parse_http p c) (\<lambda>(p', es). bindR (feed_chunks p' cs) (\<lambda>(p'', es'). Inr (p'', es @ es')))"

text \<open>The message does not end before the last piece.\<close>

fun ends_last :: "http_parser \<Rightarrow> string list \<Rightarrow> bool" where
  "ends_last p [] = True"
| "ends_last p (c # cs) =
     (cs = [] \<or> (case parse_http p c of Inl e \<Rightarrow> False | Inr (p', es) \<Rightarrow> state p' \<noteq> S_DONE \<and> ends_last p' cs))"

text \<open>
  C16. A message can arrive in any pieces. When the parser accepts the pieces and the message does not end
  before the last of them, it accepts the message in one piece, ends in the same state, and reports the
  same method, address, version, status and headers in the same order and the same body, whose chunks alone
  depend on the pieces.
\<close>

theorem http_chunks:
  assumes "feed_chunks p cs = Inr (p', es)" and "ends_last p cs"
  shows "\<exists>es'. parse_http p (concat cs) = Inr (p', es') \<and> reported es' = reported es"
  using assms
proof (induction cs arbitrary: p es)
  case (Cons c cs)
  obtain p1 e1 e2 where first: "parse_http p c = Inr (p1, e1)" "feed_chunks p1 cs = Inr (p', e2)" "es = e1 @ e2"
    using Cons.prems(1) by (auto simp: bindR_eq_Inr_iff)
  show ?case
  proof (cases "cs = []")
    case True
    then show ?thesis using first by simp
  next
    case False
    then have "state p1 \<noteq> S_DONE" "ends_last p1 cs" using Cons.prems(2) first(1) by simp_all
    moreover from Cons.IH [OF first(2) this(2)] obtain e where "parse_http p1 (concat cs) = Inr (p', e)" "reported e = reported e2"
      by blast
    ultimately show ?thesis
      using parse_http_append [OF first(1), of "concat cs" p' e] reported_append [of e e2 e1] first(3) by simp
  qed
qed (simp add: parse_http.simps)

definition chunked_get :: "string list" where
  "chunked_get = [''GET /a HT'', ''TP/1.1'' @ [CHR 0x0D], [CHR 0x0A] @ ''A: b'' @ [CHR 0x0D, CHR 0x0A, CHR 0x0A]]"

lemmas step_defs = parser_step_def parseMethod_def parseRequestURI_def parseRequestVersion_def parseHeader_def complete_header_def
  word_step_def readUntil_def method_of_def stripTrailingBytes_def processHeader_def new_parser_def start_of_def
  kMaxMethodSize_def kMaxURISize_def kMaxVersionSize_def kMaxHeaderSize_def

theorem http_chunks_witness:
  "\<exists>es'. parse_http (new_parser PARSE_HTTP_REQUEST) (concat chunked_get) =
       Inr (\<lparr>parser_mode = PARSE_HTTP_REQUEST, state = S_DONE, buf = [], body_bytes_read = 0, body_bytes_expected = 0,
              expect_body = True\<rparr>, es') \<and>
     reported es' = reported [OnMethod M_GET, OnURI ''/a'', OnVersion ''HTTP/1.1'', OnHeader ''A'' ''b'', OnHeadersComplete]"
proof (rule http_chunks)
  show "feed_chunks (new_parser PARSE_HTTP_REQUEST) chunked_get = Inr
     (\<lparr>parser_mode = PARSE_HTTP_REQUEST, state = S_DONE, buf = [], body_bytes_read = 0, body_bytes_expected = 0,
              expect_body = True\<rparr>, [OnMethod M_GET, OnURI ''/a'', OnVersion ''HTTP/1.1'', OnHeader ''A'' ''b'', OnHeadersComplete])"
    by (simp add: chunked_get_def parse_http.simps step_defs)
  show "ends_last (new_parser PARSE_HTTP_REQUEST) chunked_get"
    by (simp add: chunked_get_def parse_http.simps step_defs)
qed

end
