(* ===== verification/Uri_Correct.thy ===== *)
theory Uri_Correct
  imports Uri
begin

text \<open>
  Round trips of URIs: percent encoding, query strings, and the text of a URI.
\<close>

section \<open>Percent encoding\<close>

lemma hextbl_nibbles: "\<forall>n\<in>set [0..<16]. is_unreserved (hextbl ! n) \<and> isHexString [hextbl ! n] \<and> digit_value 16 (hextbl ! n) = Some n"
  by code_simp

lemma hextbl_nibble:
  "n < 16 \<Longrightarrow> is_unreserved (hextbl ! n)" "n < 16 \<Longrightarrow> isHexString [hextbl ! n]" "n < 16 \<Longrightarrow> digit_value 16 (hextbl ! n) = Some n"
  using hextbl_nibbles by simp_all

lemma special_chars: "\<not> is_unreserved CHR ''%''" "\<not> is_unreserved CHR ''+''" "\<not> is_unreserved CHR ''=''"
    "\<not> is_unreserved CHR ''&''" "\<not> is_unreserved CHR ''$''"
  by code_simp+

lemma of_char_less: "(of_char c :: nat) < 256"
  by simp

lemma nibbles: "of_char c div 16 < (16 :: nat)" "of_char c mod 16 < (16 :: nat)"
  using of_char_less [of c] by (simp_all add: less_mult_imp_div_less)

lemma urlDecode_encoded_char: "urlDecode (url_encode_char c @ s) = bindR (urlDecode s) (\<lambda>r. Inr (c # r))"
proof (cases "is_unreserved c")
  case True
  then have "c \<noteq> CHR ''%''" "c \<noteq> CHR ''+''" using special_chars by auto
  then show ?thesis using True by (simp add: url_encode_char_def)
next
  case False
  let ?n = "of_char c :: nat"
  note n = nibbles [of c]
  have "digits_value 16 [hextbl ! (?n div 16), hextbl ! (?n mod 16)] = ?n"
    using n by (simp add: digits_value_def hextbl_nibble(3))
  moreover have "isHexString [hextbl ! (?n div 16), hextbl ! (?n mod 16)]"
    using n hextbl_nibble(2) [of "?n div 16"] hextbl_nibble(2) [of "?n mod 16"] by (simp add: isHexString_def)
  ultimately show ?thesis using False by (simp add: url_encode_char_def)
qed

lemma urlDecode_encode: "urlDecode (urlEncode s) = Inr s"
  by (induction s) (simp_all add: urlEncode_def urlDecode_encoded_char)

lemma encoded_chars: "c \<in> set (urlEncode s) \<Longrightarrow> is_unreserved c \<or> c = CHR ''%''"
  using hextbl_nibble(1) nibbles by (force simp: urlEncode_def url_encode_char_def split: if_splits)

lemma encoded_plain: "c \<in> {CHR ''='', CHR ''&'', CHR ''$''} \<Longrightarrow> c \<notin> set (urlEncode s)"
  using encoded_chars special_chars by fastforce

lemma urlEncode_empty: "urlEncode s = [] \<longleftrightarrow> s = []"
  by (cases s) (simp_all add: urlEncode_def url_encode_char_def)

section \<open>Query strings\<close>

lemma find_str_skip:
  "c \<notin> set a \<Longrightarrow> find_str (c # p) (a @ s) = map_option ((+) (length a)) (find_str (c # p) s)"
  by (induction a; cases "find_str (c # p) s") auto

lemma format_pair:
  assumes "CHR ''$'' \<notin> set a"
  shows "formatv ''$0=$1'' [a, b] = Some (a @ ''='' @ b)"
proof -
  have zero: "digits_of 0 = ''0''" "digits_of (Suc 0) = ''1''" by code_simp+
  have first: "replace_loop ''$0=$1'' ''$0'' a = Some (a @ ''=$1'')"
    by (simp add: replace_loop.simps)
  have second: "replace_loop (a @ ''=$1'') ''$1'' b = Some (a @ ''='' @ b)"
    using find_str_skip [OF assms, of "''1''" "''=$1''"] by (simp add: replace_loop.simps)
  show ?thesis by (simp add: formatv_def replaceAll_def zero first second)
qed

lemma build_params: "build_params ps = Some (map (\<lambda>(k, v). urlEncode k @ ''='' @ urlEncode v) ps)"
  by (induction ps) (auto simp: format_pair encoded_plain)

lemma takeWhile_word: "\<forall>c\<in>set w. \<not> ends_word c \<Longrightarrow> r = [] \<or> ends_word (hd r) \<Longrightarrow>
    takeWhile (\<lambda>c. \<not> ends_word c) (w @ r) = w"
  by (cases r) (simp_all add: takeWhile_append)

lemma encoded_word: "\<forall>c\<in>set (urlEncode s). \<not> ends_word c"
  using encoded_plain by (auto simp: ends_word_def)

lemma parse_param:
  assumes "k \<noteq> []" and "rest = [] \<or> hd rest = CHR ''&''"
  shows "parseQueryString (urlEncode k @ CHR ''='' # urlEncode v @ rest) =
    bindR (parseQueryString (tl rest)) (\<lambda>ps. Inr ((k, v) # ps))"
proof -
  have key: "takeWhile (\<lambda>c. \<not> ends_word c) (urlEncode k @ CHR ''='' # urlEncode v @ rest) = urlEncode k"
    by (rule takeWhile_word [OF encoded_word]) (simp add: ends_word_def)
  have val: "takeWhile (\<lambda>c. \<not> ends_word c) (urlEncode v @ rest) = urlEncode v"
    by (rule takeWhile_word [OF encoded_word]) (use assms(2) in \<open>auto simp: ends_word_def\<close>)
  show ?thesis
    by (subst parseQueryString.simps) (use assms(1) in \<open>simp add: key val urlDecode_encode urlEncode_empty Let_def\<close>)
qed

lemma parse_build: "\<forall>(k, v)\<in>set ps. k \<noteq> [] \<Longrightarrow>
    parseQueryString (join_str (map (\<lambda>(k, v). urlEncode k @ ''='' @ urlEncode v) ps) ''&'') = Inr ps"
proof (induction ps)
  case Nil
  then show ?case by (simp add: parseQueryString.simps)
next
  case (Cons p ps)
  obtain k v where p: "p = (k, v)" by (cases p)
  have k: "k \<noteq> []" using Cons.prems p by simp
  show ?case
  proof (cases ps)
    case Nil
    then show ?thesis using parse_param [OF k, of "[]" v] p by (simp add: parseQueryString.simps [of "[]"])
  next
    case (Cons q qs)
    then show ?thesis using parse_param [OF k, of "CHR ''&'' # join_str (map (\<lambda>(k, v). urlEncode k @ ''='' @ urlEncode v) ps) ''&''" v]
        Cons.IH Cons.prems p by simp
  qed
qed

section \<open>The text of a URI\<close>

definition without :: "char set \<Rightarrow> string \<Rightarrow> bool" where
  "without cs s \<longleftrightarrow> set s \<inter> cs = {}"

text \<open>The parts keep out of each other's separators.\<close>

definition well_formed_uri :: "uri \<Rightarrow> bool" where
  "well_formed_uri u \<longleftrightarrow> without {CHR ''/'', CHR '':''} (scheme u) \<and> without {CHR ''?'', CHR ''#''} (path u) \<and>
     without {CHR ''#''} (query_part u) \<and>
     (if host u = [] then userinfo u = [] \<and> port u = 0 \<and> take 2 (path u) \<noteq> ''//''
      else without {CHR ''/'', CHR ''?'', CHR ''#'', CHR ''@''} (userinfo u) \<and>
        without {CHR ''/'', CHR ''?'', CHR ''#'', CHR ''@'', CHR '':''} (host u) \<and> unat (port u) < 2 ^ 31 \<and>
        (path u = [] \<or> hd (path u) = CHR ''/''))"

definition authority_text :: "uri \<Rightarrow> string" where
  "authority_text u = (if userinfo u = [] then [] else userinfo u @ ''@'') @ host u @
     (if 0 < port u then '':'' @ digits_of (unat (port u)) else [])"

definition tail_text :: "uri \<Rightarrow> string" where
  "tail_text u = path u @ (if query_part u = [] then [] else ''?'' @ query_part u) @
     (if fragment u = [] then [] else ''#'' @ fragment u)"

lemma uri_text: "uri_toString u = scheme u @ '':'' @ (if host u = [] then [] else ''//'' @ authority_text u) @ tail_text u"
  by (simp add: uri_toString_def authority_text_def tail_text_def)

lemma takeWhile_stop: "\<forall>c\<in>set w. P c \<Longrightarrow> r = [] \<or> \<not> P (hd r) \<Longrightarrow> takeWhile P (w @ r) = w"
  by (cases r) (simp_all add: takeWhile_append)

lemma parse_scheme_text:
  assumes "without {CHR ''/'', CHR '':''} sch"
  shows "parse_scheme (sch @ CHR '':'' # r) u = (u\<lparr>scheme := sch\<rparr>, r)"
proof -
  have "takeWhile (\<lambda>c. c \<noteq> CHR ''/'' \<and> c \<noteq> CHR '':'') (sch @ CHR '':'' # r) = sch"
    by (rule takeWhile_stop) (use assms in \<open>auto simp: without_def\<close>)
  then show ?thesis by (simp add: parse_scheme_def Let_def)
qed

lemma digits_between: "c \<in> set (digits_of n) \<Longrightarrow> between CHR ''0'' CHR ''9'' c \<and> c \<noteq> CHR ''@'' \<and> \<not> ends_authority c"
proof -
  assume "c \<in> set (digits_of n)"
  then obtain d where "d < 10" "c = char_of (48 + d :: nat)" using digits_of_props(3) [of n] by (auto simp: list_all_iff)
  moreover have "\<forall>d\<in>set [0..<10]. between CHR ''0'' CHR ''9'' (char_of (48 + d :: nat)) \<and> char_of (48 + d :: nat) \<noteq> CHR ''@'' \<and>
      \<not> ends_authority (char_of (48 + d :: nat))"
    by code_simp
  ultimately show ?thesis by simp
qed

lemma parse_port_text:
  assumes "unat p < 2 ^ 31" and "port u = 0"
  shows "parse_port (if 0 < p then '':'' @ digits_of (unat p) else []) u = Inr (u\<lparr>port := p\<rparr>)"
proof (cases "0 < p")
  case True
  have all: "takeWhile (between CHR ''0'' CHR ''9'') (digits_of (unat p)) = digits_of (unat p)"
    using digits_between by (simp add: takeWhile_eq_all_conv)
  show ?thesis using True assms digits_of_props(1,2) by (simp add: parse_port_def Let_def all)
next
  case False
  then have "p = 0" by (simp add: word_neq_0_conv [symmetric])
  then show ?thesis using assms(2) by (simp add: parse_port_def)
qed

lemma parse_userinfo_text:
  "CHR ''@'' \<notin> set a \<Longrightarrow> parse_userinfo a v = (v, a)"
  "CHR ''@'' \<notin> set w \<Longrightarrow> parse_userinfo (w @ CHR ''@'' # r) v = (v\<lparr>userinfo := w\<rparr>, r)"
proof -
  assume "CHR ''@'' \<notin> set a"
  then have "takeWhile (\<lambda>c. c \<noteq> CHR ''@'') a = a" by (auto simp: takeWhile_eq_all_conv)
  then show "parse_userinfo a v = (v, a)" unfolding parse_userinfo_def Let_def by (simp only:) simp
next
  assume "CHR ''@'' \<notin> set w"
  then have "takeWhile (\<lambda>c. c \<noteq> CHR ''@'') (w @ CHR ''@'' # r) = w" by (intro takeWhile_stop) auto
  then show "parse_userinfo (w @ CHR ''@'' # r) v = (v\<lparr>userinfo := w\<rparr>, r)"
    unfolding parse_userinfo_def Let_def by (simp only:) simp
qed

lemma parse_authority_text:
  assumes "without {CHR ''@''} (userinfo u)" and "without {CHR ''@'', CHR '':''} (host u)" and "unat (port u) < 2 ^ 31"
    and "host u \<noteq> []" and "userinfo v = []" and "port v = 0"
  shows "parse_authority (authority_text u) v = Inr (v\<lparr>userinfo := userinfo u, host := host u, port := port u\<rparr>)"
proof -
  obtain p where p: "p = (if 0 < port u then '':'' @ digits_of (unat (port u)) else [])" by blast
  have plain: "CHR ''@'' \<notin> set (host u @ p)" "p = [] \<or> hd p = CHR '':''"
    using assms(2) digits_between by (auto simp: without_def p split: if_splits)
  have whole: "authority_text u = (if userinfo u = [] then host u @ p else userinfo u @ CHR ''@'' # host u @ p)"
    by (simp add: authority_text_def p)
  have user: "parse_userinfo (authority_text u) v = (v\<lparr>userinfo := userinfo u\<rparr>, host u @ p)"
    using parse_userinfo_text(1) [OF plain(1), of v] parse_userinfo_text(2) [of "userinfo u" "host u @ p" v] assms(1,5)
    by (auto simp: whole without_def)
  have host: "takeWhile (\<lambda>c. c \<noteq> CHR '':'') (host u @ p) = host u"
    by (rule takeWhile_stop) (use assms(2) plain(2) in \<open>auto simp: without_def\<close>)
  have port: "parse_port p (v\<lparr>userinfo := userinfo u, host := host u\<rparr>) = Inr (v\<lparr>userinfo := userinfo u, host := host u, port := port u\<rparr>)"
    unfolding p using parse_port_text [OF assms(3), of "v\<lparr>userinfo := userinfo u, host := host u\<rparr>"] assms(6) by simp
  have "authority_text u \<noteq> []" using assms(4) by (simp add: authority_text_def)
  then show ?thesis by (simp add: parse_authority_def Let_def user host port)
qed

lemma tail_start: "path u = [] \<or> hd (path u) = CHR ''/'' \<Longrightarrow> tail_text u = [] \<or> ends_authority (hd (tail_text u))"
  by (cases "path u") (auto simp: tail_text_def ends_authority_def)

lemma parse_hierarchy_text:
  assumes "well_formed_uri u"
  shows "parse_hierarchy ((if host u = [] then [] else ''//'' @ authority_text u) @ tail_text u) (empty_uri\<lparr>scheme := s\<rparr>) =
    Inr (\<lparr>scheme = s, userinfo = userinfo u, host = host u, port = port u, path = [], query_part = [], fragment = []\<rparr>, tail_text u)"
proof (cases "host u = []")
  case True
  have "take 2 (tail_text u) \<noteq> ''//''"
    using assms True by (cases "path u"; cases "tl (path u)") (auto simp: well_formed_uri_def tail_text_def)
  then show ?thesis using True assms by (auto simp: parse_hierarchy_def empty_uri_def well_formed_uri_def)
next
  case False
  then have w: "without {CHR ''/'', CHR ''?'', CHR ''#'', CHR ''@''} (userinfo u)"
    "without {CHR ''/'', CHR ''?'', CHR ''#'', CHR ''@'', CHR '':''} (host u)" "unat (port u) < 2 ^ 31"
    "path u = [] \<or> hd (path u) = CHR ''/''" using assms by (simp_all add: well_formed_uri_def)
  have "\<forall>c\<in>set (authority_text u). \<not> ends_authority c"
    using w(1,2) digits_between by (auto simp: authority_text_def without_def ends_authority_def split: if_splits)
  then have take: "takeWhile (\<lambda>c. \<not> ends_authority c) (authority_text u @ tail_text u) = authority_text u"
    using tail_start [OF w(4)] by (intro takeWhile_stop) auto
  have auth: "parse_authority (authority_text u) (empty_uri\<lparr>scheme := s\<rparr>) =
      Inr (empty_uri\<lparr>scheme := s, userinfo := userinfo u, host := host u, port := port u\<rparr>)"
    using parse_authority_text [of u "empty_uri\<lparr>scheme := s\<rparr>"] w False by (auto simp: without_def empty_uri_def)
  have "authority_text u \<noteq> []" using False by (simp add: authority_text_def)
  then show ?thesis using False take auth by (simp add: parse_hierarchy_def Let_def empty_uri_def)
qed

lemma parse_path_text:
  assumes "without {CHR ''?'', CHR ''#''} p" and "r = [] \<or> hd r = CHR ''?'' \<or> hd r = CHR ''#''" and "path v = []"
  shows "parse_path (p @ r) v = (v\<lparr>path := p\<rparr>, r)"
proof -
  have "takeWhile (\<lambda>c. c \<noteq> CHR ''?'' \<and> c \<noteq> CHR ''#'') (p @ r) = p"
    by (rule takeWhile_stop) (use assms in \<open>auto simp: without_def\<close>)
  then show ?thesis unfolding parse_path_def Let_def using assms(3) by (simp only:) simp
qed

lemma parse_query_text:
  assumes "without {CHR ''#''} q" and "r = [] \<or> hd r = CHR ''#''" and "query_part v = []"
  shows "parse_query ((if q = [] then [] else CHR ''?'' # q) @ r) v = (v\<lparr>query_part := q\<rparr>, r)"
proof (cases "q = []")
  case False
  have "takeWhile (\<lambda>c. c \<noteq> CHR ''#'') (q @ r) = q"
    by (rule takeWhile_stop) (use assms in \<open>auto simp: without_def\<close>)
  then show ?thesis unfolding parse_query_def Let_def using False by (simp only: append.simps list.sel if_False list.simps) simp
qed (use assms(2,3) in \<open>auto simp: parse_query_def\<close>)

lemma parse_tail:
  assumes "well_formed_uri u" and "path v = []" and "query_part v = []" and "fragment v = []"
  shows "(let (u3, s3) = parse_path (tail_text u) v; (u4, s4) = parse_query s3 u3 in parse_fragment s4 u4) =
    v\<lparr>path := path u, query_part := query_part u, fragment := fragment u\<rparr>"
proof -
  obtain f where f: "f = (if fragment u = [] then [] else CHR ''#'' # fragment u)" by blast
  obtain q where q: "q = (if query_part u = [] then [] else CHR ''?'' # query_part u) @ f" by blast
  have starts: "f = [] \<or> hd f = CHR ''#''" "q = [] \<or> hd q = CHR ''?'' \<or> hd q = CHR ''#''" by (simp_all add: f q)
  have whole: "tail_text u = path u @ q" by (simp add: tail_text_def f q)
  have w: "without {CHR ''?'', CHR ''#''} (path u)" "without {CHR ''#''} (query_part u)"
    using assms(1) by (simp_all add: well_formed_uri_def)
  have path: "parse_path (tail_text u) v = (v\<lparr>path := path u\<rparr>, q)"
    unfolding whole by (rule parse_path_text [OF w(1) starts(2) assms(2)])
  have query: "parse_query q (v\<lparr>path := path u\<rparr>) = (v\<lparr>path := path u, query_part := query_part u\<rparr>, f)"
    unfolding q by (rule parse_query_text [OF w(2) starts(1)]) (simp add: assms(3))
  have "parse_fragment f x = x\<lparr>fragment := fragment u\<rparr>" if "fragment x = []" for x
    using that by (simp add: parse_fragment_def f)
  then show ?thesis by (simp add: path query assms(4))
qed

section \<open>Properties\<close>

text \<open>
  Percent encoding loses nothing, and a query string built from parameters with non-empty keys,
  whatever characters keys and values hold, parses to the same parameters in the same order.
\<close>

theorem query_string_roundtrip:
  assumes "\<forall>(k, v)\<in>set ps. k \<noteq> []"
  shows "urlDecode (urlEncode s) = Inr s \<and>
    (\<exists>text. buildQueryString ps = Some text \<and> parseQueryString text = Inr ps)"
  using parse_build [OF assms] by (simp add: urlDecode_encode buildQueryString_def build_params)

theorem query_string_roundtrip_witness:
  "urlDecode (urlEncode ''a b'') = Inr ''a b'' \<and>
    (\<exists>text. buildQueryString [(''q'', ''a&b=$1''), (''r'', [])] = Some text \<and>
      parseQueryString text = Inr [(''q'', ''a&b=$1''), (''r'', [])])"
  by (rule query_string_roundtrip) simp

text \<open>
  C38. The text of a URI whose parts keep out of each other's separators parses, into an object without
  parts, to that URI.
\<close>

theorem uri_roundtrip:
  assumes "well_formed_uri u"
  shows "parseURI (uri_toString u) empty_uri = Inr u"
proof -
  have "parse_scheme (uri_toString u) empty_uri = (empty_uri\<lparr>scheme := scheme u\<rparr>,
      (if host u = [] then [] else ''//'' @ authority_text u) @ tail_text u)"
    using parse_scheme_text [of "scheme u"] assms by (simp add: uri_text well_formed_uri_def)
  then show ?thesis
    using parse_hierarchy_text [OF assms, of "scheme u"]
      parse_tail [OF assms, of "\<lparr>scheme = scheme u, userinfo = userinfo u, host = host u, port = port u, path = [], query_part = [], fragment = []\<rparr>"]
    by (simp add: parseURI_def split: prod.splits)
qed

theorem uri_roundtrip_witness:
  "parseURI ''http://me@example.org:80/q/a?x=1#top'' empty_uri =
    Inr \<lparr>scheme = ''http'', userinfo = ''me'', host = ''example.org'', port = 80, path = ''/q/a'', query_part = ''x=1'', fragment = ''top''\<rparr>"
proof -
  let ?u = "\<lparr>scheme = ''http'', userinfo = ''me'', host = ''example.org'', port = 80, path = ''/q/a'', query_part = ''x=1'', fragment = ''top''\<rparr>"
  have "digits_of 80 = ''80''" by (simp add: digits_of.simps [of 80] digits_of.simps [of 8] char_of_eq)
  then have "uri_toString ?u = ''http://me@example.org:80/q/a?x=1#top''" by (simp add: uri_toString_def)
  then show ?thesis using uri_roundtrip [of ?u] by (simp add: well_formed_uri_def without_def)
qed

end
