(* ===== verification/Http_Message_Correct.thy ===== *)
theory Http_Message_Correct
  imports Http_Message Http_Parser_Correct Uri_Correct
begin

text \<open>
  Messages that the generator writes are read back by the parser, headers and body included, and cookies
  survive their header.
\<close>

section \<open>Formats\<close>

lemma replace_placeholder:
  assumes "CHR ''$'' \<notin> set pre" and "find_str (CHR ''$'' # d) post = None"
  shows "replaceAll (pre @ (CHR ''$'' # d) @ post) (CHR ''$'' # d) v = Some (pre @ v @ post)"
proof -
  have here: "find_str (CHR ''$'' # d) (pre @ (CHR ''$'' # d) @ post) = Some (length pre)"
    using find_str_skip [OF assms(1), of d "(CHR ''$'' # d) @ post"] by simp
  have "replace_loop post (CHR ''$'' # d) v = Some post"
    using assms(2) by (simp add: replace_loop.simps)
  then show ?thesis using here by (simp add: replaceAll_def replace_loop.simps [of "pre @ CHR ''$'' # d @ post"])
qed

lemma small_digits: "digits_of 0 = ''0''" "digits_of (Suc 0) = ''1''" "digits_of (Suc (Suc 0)) = ''2''"
  by code_simp+

lemma format_header:
  assumes "CHR ''$'' \<notin> set k"
  shows "formatv (''$0: $1'' @ crlf) [k, v] = Some (k @ '': '' @ v @ crlf)"
proof -
  have first: "replaceAll (''$0: $1'' @ crlf) ''$0'' k = Some (k @ '': $1'' @ crlf)"
    using replace_placeholder [of "[]" "''0''" "'': $1'' @ crlf" k] by (simp add: crlf_def)
  have second: "replaceAll (k @ '': $1'' @ crlf) ''$1'' v = Some (k @ '': '' @ v @ crlf)"
    using replace_placeholder [of "k @ '': ''" "''1''" crlf v] assms by (simp add: crlf_def)
  show ?thesis
    unfolding formatv_def formatv_from.simps small_digits by (simp only: first second Option.bind.simps)
qed

lemma format_start:
  assumes "CHR ''$'' \<notin> set a" and "CHR ''$'' \<notin> set b"
  shows "formatv (''$0 $1 $2'' @ crlf) [a, b, c] = Some (a @ '' '' @ b @ '' '' @ c @ crlf)"
proof -
  have first: "replaceAll (''$0 $1 $2'' @ crlf) ''$0'' a = Some (a @ '' $1 $2'' @ crlf)"
    using replace_placeholder [of "[]" "''0''" "'' $1 $2'' @ crlf" a] by (simp add: crlf_def)
  have second: "replaceAll (a @ '' $1 $2'' @ crlf) ''$1'' b = Some (a @ '' '' @ b @ '' $2'' @ crlf)"
    using replace_placeholder [of "a @ '' ''" "''1''" "'' $2'' @ crlf" b] assms(1) by (simp add: crlf_def)
  have third: "replaceAll (a @ '' '' @ b @ '' $2'' @ crlf) ''$2'' c = Some (a @ '' '' @ b @ '' '' @ c @ crlf)"
    using replace_placeholder [of "a @ '' '' @ b @ '' ''" "''2''" crlf c] assms by (simp add: crlf_def)
  show ?thesis
    unfolding formatv_def formatv_from.simps small_digits by (simp only: first second third Option.bind.simps)
qed

lemma format_one: "formatv (''Content-Length: $0'' @ crlf) [v] = Some (''Content-Length: '' @ v @ crlf)"
  using replace_placeholder [of "''Content-Length: ''" "''0''" crlf v]
  by (simp add: formatv_def small_digits crlf_def)

lemma header_lines: "\<forall>(k, v)\<in>set hs. CHR ''$'' \<notin> set k \<Longrightarrow>
    header_lines hs = Some (concat (map (\<lambda>(k, v). k @ '': '' @ v @ crlf) hs))"
  by (induction hs) (auto simp: format_header simp del: append_Cons append.simps)

section \<open>Words and header lines\<close>

lemma parse_word:
  assumes "parser_step p (w @ c # r) = word_step c n f p (w @ c # r)" and "c \<notin> set w"
    and "f (p\<lparr>buf := buf p @ w\<rparr>) = Inr (p', es)"
  shows "parse_http p (w @ c # r) = bindR (parse_http p' r) (\<lambda>(p'', es'). Inr (p'', es @ es'))"
proof -
  have "takeWhile (\<lambda>x. x \<noteq> c) (w @ c # r) = w"
    using assms(2) by (auto simp: takeWhile_tail takeWhile_append)
  then have "readUntil c p (w @ c # r) = (p\<lparr>buf := buf p @ w\<rparr>, c # r)"
    unfolding readUntil_def Let_def by simp
  then show ?thesis
    using assms(1,3) by (simp add: parse_http.simps [of p] word_step_def)
qed

lemma strip_cr: "w = [] \<or> last w \<noteq> CHR 0x0D \<Longrightarrow> stripTrailingBytes CHR 0x0D (w @ [CHR 0x0D]) = w"
  by (cases w rule: rev_cases) (auto simp: stripTrailingBytes_def)

text \<open>A name or a value that fits the line it stands in.\<close>

definition header_ok :: "string \<times> string \<Rightarrow> bool" where
  "header_ok h \<longleftrightarrow>
     CHR ''$'' \<notin> set (fst h) \<and> CHR '':'' \<notin> set (fst h) \<and> CHR 0x0A \<notin> set (fst h) \<and>
     CHR 0x0A \<notin> set (snd h) \<and> (snd h = [] \<or> hd (snd h) \<noteq> CHR '' '' \<and> last (snd h) \<noteq> CHR 0x0D)"

text \<open>\<open>clear_parser\<close> is a parser between two lines of the header.\<close>

definition between_lines :: "http_parser \<Rightarrow> bool" where
  "between_lines p \<longleftrightarrow> state p = S_HEADER \<and> buf p = []"

lemma parse_header_line:
  assumes "header_ok (k, v)" and "between_lines p" and "processHeader k v p = Inr (p\<lparr>body_bytes_expected := n\<rparr>)"
  shows "parse_http p (k @ '': '' @ v @ crlf @ r) =
    bindR (parse_http (p\<lparr>body_bytes_expected := n\<rparr>) r) (\<lambda>(p', es). Inr (p', OnHeader k v # es))"
proof -
  have strip: "stripTrailingBytes CHR 0x0D (k @ '': '' @ v @ [CHR 0x0D]) = k @ '': '' @ v"
    using strip_cr [of "k @ '': '' @ v"] assms(1) by (auto simp: header_ok_def)
  have tw: "takeWhile (\<lambda>c. c \<noteq> CHR '':'') (k @ '': '' @ v) = k"
    using assms(1) by (auto simp: header_ok_def takeWhile_tail takeWhile_append)
  have val: "dropWhile (\<lambda>c. c = CHR '' '') (tl (drop (length k) (k @ '': '' @ v))) = v"
    using assms(1) by (cases v) (auto simp: header_ok_def)
  have proc: "processHeader k v (p\<lparr>buf := w\<rparr>) = Inr (p\<lparr>buf := w, body_bytes_expected := n\<rparr>)" for w
    using assms(3) by (cases p) (auto simp: processHeader_def split: if_splits option.splits)
  have line: "k @ '': '' @ v @ crlf @ r = (k @ '': '' @ v @ [CHR 0x0D]) @ CHR 0x0A # r"
    by (simp add: crlf_def)
  have "complete_header (p\<lparr>buf := buf p @ k @ '': '' @ v @ [CHR 0x0D]\<rparr>) = Inr (p\<lparr>body_bytes_expected := n\<rparr>, [OnHeader k v])"
    using assms(2) proc
    by (cases p) (simp add: complete_header_def between_lines_def strip [simplified] tw [simplified] val [simplified])
  moreover have "parser_step p s = word_step CHR 0x0A kMaxHeaderSize complete_header p s" for s
    using assms(2) by (simp add: parser_step_def parseHeader_def between_lines_def)
  moreover have "CHR 0x0A \<notin> set (k @ '': '' @ v @ [CHR 0x0D])"
    using assms(1) by (auto simp: header_ok_def)
  ultimately show ?thesis
    using parse_word [of p "k @ '': '' @ v @ [CHR 0x0D]" "CHR 0x0A" r kMaxHeaderSize complete_header]
    unfolding line by simp
qed

lemma parse_header_end:
  assumes "between_lines p"
  shows "parse_http p (crlf @ r) =
    bindR (parse_http (p\<lparr>state := (if body_bytes_expected p = 0 then S_DONE else S_BODY)\<rparr>) r)
      (\<lambda>(p', es). Inr (p', OnHeadersComplete # es))"
proof -
  have "complete_header (p\<lparr>buf := buf p @ [CHR 0x0D]\<rparr>) =
      Inr (p\<lparr>state := (if body_bytes_expected p = 0 then S_DONE else S_BODY)\<rparr>, [OnHeadersComplete])"
    using assms by (cases p) (simp add: complete_header_def between_lines_def stripTrailingBytes_def)
  moreover have "parser_step p s = word_step CHR 0x0A kMaxHeaderSize complete_header p s" for s
    using assms by (simp add: parser_step_def parseHeader_def between_lines_def)
  ultimately show ?thesis
    using parse_word [of p "[CHR 0x0D]" "CHR 0x0A" r kMaxHeaderSize complete_header] by (simp add: crlf_def)
qed

section \<open>The length of the body\<close>

lemma strncasecmp_lower: "length a = length b \<Longrightarrow> strncasecmp_same a b \<longleftrightarrow> toLower a = toLower b"
  by (induction a b rule: list_induct2) (simp_all add: toLower_def)

lemma length_toLower [simp]: "length (toLower s) = length s"
  by (simp add: toLower_def)

lemma same_name: "length a = length b \<and> strncasecmp_same a b \<longleftrightarrow> toLower a = toLower b"
  using strncasecmp_lower [of a b] by (metis length_toLower)

lemma lower_names: "toLower ''Content-Length'' = ''content-length''" "toLower ''Connection'' = ''connection''"
  "toLower ''Close'' = ''close''"
  by code_simp+

definition expected_after :: "parser_mode \<Rightarrow> headers \<Rightarrow> 64 word \<Rightarrow> 64 word" where
  "expected_after m hs n = fold (\<lambda>(k, v) n.
     let n' = (if toLower k = ''content-length'' then the (stoul v) else n) in
     if m = PARSE_HTTP_RESPONSE \<and> toLower k = ''connection'' \<and> toLower v = ''close'' then -1 else n') hs n"

lemma processHeader_expected:
  assumes "expect_body p" and "toLower k = ''content-length'' \<longrightarrow> stoul v \<noteq> None"
  shows "processHeader k v p = Inr (p\<lparr>body_bytes_expected := expected_after (parser_mode p) [(k, v)] (body_bytes_expected p)\<rparr>)"
proof -
  have "length k = length ''Content-Length'' \<and> strncasecmp_same k ''Content-Length'' \<longleftrightarrow> toLower k = ''content-length''"
    "length k = length ''Connection'' \<and> strncasecmp_same k ''Connection'' \<longleftrightarrow> toLower k = ''connection''"
    "length v = length ''Close'' \<and> strncasecmp_same v ''Close'' \<longleftrightarrow> toLower v = ''close''"
    using same_name [of k "''Content-Length''"] same_name [of k "''Connection''"] same_name [of v "''Close''"]
    by (simp_all only: lower_names)
  moreover have "(toLower k = ''connection'') \<Longrightarrow> (toLower k \<noteq> ''content-length'')" by simp
  ultimately show ?thesis
    using assms by (cases p) (auto simp: processHeader_def expected_after_def)
qed

lemma parse_headers:
  "\<forall>h\<in>set hs. header_ok h \<and> (toLower (fst h) = ''content-length'' \<longrightarrow> stoul (snd h) \<noteq> None) \<Longrightarrow>
   between_lines p \<Longrightarrow> expect_body p \<Longrightarrow>
   parse_http p (concat (map (\<lambda>(k, v). k @ '': '' @ v @ crlf) hs) @ r) =
     bindR (parse_http (p\<lparr>body_bytes_expected := expected_after (parser_mode p) hs (body_bytes_expected p)\<rparr>) r)
       (\<lambda>(p', es). Inr (p', map (\<lambda>(k, v). OnHeader k v) hs @ es))"
proof (induction hs arbitrary: p)
  case Nil
  then show ?case by (cases "parse_http p r") (auto simp: expected_after_def)
next
  case (Cons h hs)
  obtain k v where h: "h = (k, v)" by (cases h)
  let ?n = "expected_after (parser_mode p) [(k, v)] (body_bytes_expected p)"
  have ok: "header_ok (k, v)" "toLower k = ''content-length'' \<longrightarrow> stoul v \<noteq> None"
    using Cons.prems(1) h by auto
  have line: "parse_http p (k @ '': '' @ v @ crlf @ s) =
      bindR (parse_http (p\<lparr>body_bytes_expected := ?n\<rparr>) s) (\<lambda>(p', es). Inr (p', OnHeader k v # es))" for s
    using parse_header_line [OF ok(1) Cons.prems(2) processHeader_expected [OF Cons.prems(3) ok(2)]] .
  have rest: "parse_http (p\<lparr>body_bytes_expected := ?n\<rparr>) (concat (map (\<lambda>(k, v). k @ '': '' @ v @ crlf) hs) @ r) =
     bindR (parse_http (p\<lparr>body_bytes_expected := expected_after (parser_mode p) hs ?n\<rparr>) r)
       (\<lambda>(p', es). Inr (p', map (\<lambda>(k, v). OnHeader k v) hs @ es))"
    using Cons.IH [of "p\<lparr>body_bytes_expected := ?n\<rparr>"] Cons.prems by (simp add: between_lines_def)
  have "expected_after (parser_mode p) hs ?n = expected_after (parser_mode p) (h # hs) (body_bytes_expected p)"
    by (simp add: h expected_after_def)
  then show ?case
    using line [of "concat (map (\<lambda>(k, v). k @ '': '' @ v @ crlf) hs) @ r"] rest h
    by (cases "parse_http (p\<lparr>body_bytes_expected := expected_after (parser_mode p) hs ?n\<rparr>) r") auto
qed

section \<open>Start lines\<close>

lemma method_of_name: "method_of (method_name m) = Some m"
  by (cases m) (simp_all add: method_of_def)

lemma method_name_plain: "CHR '' '' \<notin> set (method_name m)" "CHR ''$'' \<notin> set (method_name m)"
  by (cases m; simp)+

lemma request_line:
  assumes "CHR '' '' \<notin> set u" and "CHR 0x0A \<notin> set v" and "v = [] \<or> last v \<noteq> CHR 0x0D"
  shows "parse_http (new_parser PARSE_HTTP_REQUEST) (method_name m @ '' '' @ u @ '' '' @ v @ crlf @ r) =
    bindR (parse_http ((new_parser PARSE_HTTP_REQUEST)\<lparr>state := S_HEADER\<rparr>) r)
      (\<lambda>(p, es). Inr (p, OnMethod m # OnURI u # OnVersion v # es))"
proof -
  let ?p = "\<lambda>s. (new_parser PARSE_HTTP_REQUEST)\<lparr>state := s\<rparr>"
  have first: "parse_http (new_parser PARSE_HTTP_REQUEST) (method_name m @ CHR '' '' # s) =
      bindR (parse_http (?p S_REQ_URI) s) (\<lambda>(p, es). Inr (p, [OnMethod m] @ es))" for s
    by (rule parse_word) (simp add: parser_step_def parseMethod_def new_parser_def start_of_def,
       simp_all add: new_parser_def method_of_name method_name_plain)
  have second: "parse_http (?p S_REQ_URI) (u @ CHR '' '' # s) =
      bindR (parse_http (?p S_REQ_VERSION) s) (\<lambda>(p, es). Inr (p, [OnURI u] @ es))" for s
    by (rule parse_word) (simp add: parser_step_def parseRequestURI_def new_parser_def, simp_all add: new_parser_def assms)
  have third: "parse_http (?p S_REQ_VERSION) ((v @ [CHR 0x0D]) @ CHR 0x0A # s) =
      bindR (parse_http (?p S_HEADER) s) (\<lambda>(p, es). Inr (p, [OnVersion v] @ es))" for s
    by (rule parse_word) (simp add: parser_step_def parseRequestVersion_def new_parser_def,
       simp_all add: new_parser_def strip_cr assms)
  show ?thesis
    using first [of "u @ '' '' @ v @ crlf @ r"] second [of "v @ crlf @ r"] third [of r]
    by (cases "parse_http (?p S_HEADER) r") (auto simp: crlf_def)
qed

section \<open>Requests\<close>

definition content_length :: "string \<times> string \<Rightarrow> bool" where
  "content_length h \<longleftrightarrow> toLower (fst h) = ''content-length''"

lemma stoul_digits: "n < 2 ^ 64 \<Longrightarrow> stoul (digits_of n) = Some (of_nat n)"
proof -
  assume n: "n < 2 ^ 64"
  have all: "takeWhile (is_digit_in 10) (digits_of n) = digits_of n"
    using digits_all(2) [of n] by (simp add: takeWhile_eq_all_conv list_all_iff)
  show ?thesis
    using n digits_of_props(1,2) [of n] digits_all(3) [of n]
    by (simp add: stoul_def read_sign_digits not_space_drop all)
qed

lemma expected_request:
  "\<forall>h\<in>set hs. content_length h \<longrightarrow> stoul (snd h) = Some n \<Longrightarrow>
   expected_after PARSE_HTTP_REQUEST hs d = (if \<exists>h\<in>set hs. content_length h then n else d)"
  by (induction hs arbitrary: d) (auto simp: expected_after_def content_length_def)

lemma fold_request_headers:
  "fold request_event (map (\<lambda>(k, v). OnHeader k v) hs) r =
     r\<lparr>req_headers := req_headers r @ map (\<lambda>(k, v). (toLower k, v)) hs\<rparr>"
  by (induction hs arbitrary: r) (auto simp: addHeader_def)

text \<open>The address and version fit the first line, and the headers that give a length give the length of the body.\<close>

definition request_ok :: "http_request \<Rightarrow> bool" where
  "request_ok r \<longleftrightarrow>
     CHR '' '' \<notin> set (req_uri r) \<and> CHR ''$'' \<notin> set (req_uri r) \<and>
     CHR 0x0A \<notin> set (req_version r) \<and> (req_version r = [] \<or> last (req_version r) \<noteq> CHR 0x0D) \<and>
     length (req_body r) < 2 ^ 64 \<and>
     (\<forall>h\<in>set (req_headers r). header_ok h \<and> toLower (fst h) = fst h \<and>
        (content_length h \<longrightarrow> stoul (snd h) = Some (of_nat (length (req_body r)))))"

definition length_header :: "http_request \<Rightarrow> headers" where
  "length_header r =
     (if req_body r \<noteq> [] \<and> \<not> hasHeader (req_headers r) ''Content-Length''
      then [(''Content-Length'', digits_of (length (req_body r)))] else [])"

definition header_text :: "headers \<Rightarrow> string" where
  "header_text hs = concat (map (\<lambda>(k, v). k @ '': '' @ v @ crlf) hs)"

lemma generate_request_text:
  assumes "request_ok r"
  shows "generate_request r = Some (method_name (req_method r) @ '' '' @ req_uri r @ '' '' @ req_version r @ crlf @
    header_text (req_headers r @ length_header r) @ crlf @ req_body r)"
proof -
  have start: "formatv (''$0 $1 $2'' @ crlf) [method_name (req_method r), req_uri r, req_version r] =
      Some (method_name (req_method r) @ '' '' @ req_uri r @ '' '' @ req_version r @ crlf)"
    using assms by (intro format_start) (auto simp: request_ok_def method_name_plain)
  have hs: "header_lines (req_headers r) = Some (header_text (req_headers r))"
    unfolding header_text_def using assms by (intro header_lines) (auto simp: request_ok_def header_ok_def)
  show ?thesis
    unfolding generate_request_def start hs
    by (simp add: length_header_def format_one header_text_def del: append_Cons)
qed

lemma lookup_header: "lookup_header hs k = None \<longleftrightarrow> k \<notin> fst ` set hs"
  by (induction hs k rule: lookup_header.induct) auto

lemma sent_headers:
  assumes "request_ok r" and "h \<in> set (req_headers r @ length_header r)"
  shows "header_ok h" and "content_length h \<longrightarrow> stoul (snd h) = Some (of_nat (length (req_body r)))"
proof -
  have digit: "c \<in> set (digits_of n) \<Longrightarrow> c \<noteq> CHR '' '' \<and> c \<noteq> CHR 0x0D \<and> c \<noteq> CHR 0x0A" for c n
    using digits_between [of c n] by (auto simp: between_def)
  have "header_ok (''Content-Length'', digits_of n)" for n
    using digit [of _ n] digits_of_props(1) [of n] by (auto simp: header_ok_def)
  then show "header_ok h" "content_length h \<longrightarrow> stoul (snd h) = Some (of_nat (length (req_body r)))"
    using assms stoul_digits [of "length (req_body r)"] by (auto simp: request_ok_def length_header_def split: if_splits)
qed

lemma expected_sent:
  assumes "request_ok r"
  shows "expected_after PARSE_HTTP_REQUEST (req_headers r @ length_header r) 0 = of_nat (length (req_body r))"
proof (cases "req_body r = []")
  case True
  then show ?thesis
    using expected_request [of "req_headers r @ length_header r" "of_nat (length (req_body r))" 0] sent_headers(2) [OF assms]
    by simp
next
  case False
  have "\<exists>h\<in>set (req_headers r @ length_header r). content_length h"
  proof (cases "hasHeader (req_headers r) ''Content-Length''")
    case True
    then obtain h where "h \<in> set (req_headers r)" "fst h = ''content-length''"
      by (auto simp: hasHeader_def lookup_header lower_names)
    moreover from this have "toLower (fst h) = fst h" using assms by (auto simp: request_ok_def)
    ultimately have "h \<in> set (req_headers r @ length_header r)" "content_length h" by (simp_all add: content_length_def)
    then show ?thesis by blast
  qed (use False in \<open>simp add: length_header_def content_length_def lower_names\<close>)
  then show ?thesis
    using expected_request [of "req_headers r @ length_header r" "of_nat (length (req_body r))" 0] sent_headers(2) [OF assms]
    by simp
qed

lemma parse_request_text:
  assumes "request_ok r"
  shows "\<exists>p. state p = S_DONE \<and>
    parse_http (new_parser PARSE_HTTP_REQUEST) (method_name (req_method r) @ '' '' @ req_uri r @ '' '' @ req_version r @ crlf @
      header_text (req_headers r @ length_header r) @ crlf @ req_body r) =
    Inr (p, OnMethod (req_method r) # OnURI (req_uri r) # OnVersion (req_version r) #
      map (\<lambda>(k, v). OnHeader k v) (req_headers r @ length_header r) @
      OnHeadersComplete # (if req_body r = [] then [] else [OnBodyChunk (req_body r)]))"
proof (intro exI conjI)
  let ?hs = "req_headers r @ length_header r" and ?n = "of_nat (length (req_body r)) :: 64 word"
  let ?p0 = "(new_parser PARSE_HTTP_REQUEST)\<lparr>state := S_HEADER\<rparr>"
  let ?p1 = "?p0\<lparr>body_bytes_expected := ?n\<rparr>"
  let ?p2 = "?p1\<lparr>state := (if ?n = 0 then S_DONE else S_BODY)\<rparr>"
  let ?p3 = "?p1\<lparr>state := S_DONE, body_bytes_read := ?n\<rparr>"
  let ?es = "if req_body r = [] then [] else [OnBodyChunk (req_body r)]"
  have "unat ?n = length (req_body r)"
    using assms by (simp add: request_ok_def unat_of_nat)
  then have nonzero: "?n = 0 \<longleftrightarrow> req_body r = []" by (metis length_0_conv unat_eq_zero)
  have body: "parse_http ?p2 (req_body r) = Inr (?p3, ?es)"
    using nonzero parse_body [of "req_body r" ?p2]
    by (cases "req_body r = []") (auto simp: parse_http.simps [of _ "[]"] new_parser_def)
  have tail: "parse_http ?p1 (crlf @ req_body r) = Inr (?p3, OnHeadersComplete # ?es)"
    using parse_header_end [of ?p1 "req_body r"] body by (simp add: between_lines_def new_parser_def)
  have headers: "parse_http ?p0 (header_text ?hs @ crlf @ req_body r) =
      Inr (?p3, map (\<lambda>(k, v). OnHeader k v) ?hs @ OnHeadersComplete # ?es)"
    using parse_headers [of ?hs ?p0 "crlf @ req_body r"] sent_headers [OF assms] tail expected_sent [OF assms]
    by (auto simp: header_text_def content_length_def between_lines_def new_parser_def)
  have start: "CHR '' '' \<notin> set (req_uri r)" "CHR 0x0A \<notin> set (req_version r)"
    "req_version r = [] \<or> last (req_version r) \<noteq> CHR 0x0D"
    using assms by (simp_all add: request_ok_def)
  show "parse_http (new_parser PARSE_HTTP_REQUEST) (method_name (req_method r) @ '' '' @ req_uri r @ '' '' @ req_version r @ crlf @
      header_text ?hs @ crlf @ req_body r) = Inr (?p3, OnMethod (req_method r) # OnURI (req_uri r) # OnVersion (req_version r) #
      map (\<lambda>(k, v). OnHeader k v) ?hs @ OnHeadersComplete # ?es)"
    unfolding request_line [OF start] headers bindR_Inr prod.case ..
qed simp

text \<open>
  C23. A request that is generated is parsed back: method, address, version, headers in their order and
  body, with a Content-Length header added when there is a body and the request has none. The address has
  no blank, no name has a colon, no line has a line break, and headers that give a length give the body's.
\<close>

theorem http_request_roundtrip:
  assumes "request_ok r"
  shows "\<exists>s. generate_request r = Some s \<and>
    parse_request s = Inr (r\<lparr>req_headers := req_headers r @ map (\<lambda>(k, v). (toLower k, v)) (length_header r)\<rparr>)"
proof (intro exI conjI)
  let ?s = "method_name (req_method r) @ '' '' @ req_uri r @ '' '' @ req_version r @ crlf @
    header_text (req_headers r @ length_header r) @ crlf @ req_body r"
  show "generate_request r = Some ?s" by (rule generate_request_text [OF assms])
  have lower: "map (\<lambda>(k, v). (toLower k, v)) (req_headers r) = req_headers r"
    using assms by (intro map_idI) (auto simp: request_ok_def)
  have read: "fold request_event (OnMethod (req_method r) # OnURI (req_uri r) # OnVersion (req_version r) #
      map (\<lambda>(k, v). OnHeader k v) (req_headers r @ length_header r) @
      OnHeadersComplete # (if req_body r = [] then [] else [OnBodyChunk (req_body r)])) empty_request =
    r\<lparr>req_headers := req_headers r @ map (\<lambda>(k, v). (toLower k, v)) (length_header r)\<rparr>"
    by (simp add: fold_request_headers empty_request_def lower del: map_append) (simp add: lower)
  from parse_request_text [OF assms] obtain p where "state p = S_DONE" and
    "parse_http (new_parser PARSE_HTTP_REQUEST) ?s = Inr (p, OnMethod (req_method r) # OnURI (req_uri r) # OnVersion (req_version r) #
      map (\<lambda>(k, v). OnHeader k v) (req_headers r @ length_header r) @
      OnHeadersComplete # (if req_body r = [] then [] else [OnBodyChunk (req_body r)]))" by blast
  then show "parse_request ?s =
    Inr (r\<lparr>req_headers := req_headers r @ map (\<lambda>(k, v). (toLower k, v)) (length_header r)\<rparr>)"
    by (simp only: parse_request_def bindR_Inr prod.case read http_eof_def simp_thms if_True if_False)
qed

definition sample_post :: http_request where
  "sample_post = \<lparr>req_method = M_POST, req_uri = ''/a?b=c'', req_version = ''HTTP/1.1'',
     req_headers = [(''host'', ''h:80'')], req_body = ''x y''\<rparr>"

theorem http_request_roundtrip_witness:
  "request_ok sample_post \<and>
   (\<exists>s. generate_request sample_post = Some s \<and>
     parse_request s = Inr (sample_post\<lparr>req_headers := [(''host'', ''h:80''), (''content-length'', ''3'')]\<rparr>))"
proof -
  have ok: "request_ok sample_post"
    by (simp add: request_ok_def sample_post_def header_ok_def content_length_def toLower_def lower_def)
  have three: "digits_of (Suc (Suc (Suc 0))) = ''3''" by code_simp
  have "req_headers sample_post @ map (\<lambda>(k, v). (toLower k, v)) (length_header sample_post) =
      [(''host'', ''h:80''), (''content-length'', ''3'')]"
    by (simp add: sample_post_def length_header_def hasHeader_def lower_names three)
  then show ?thesis using http_request_roundtrip [OF ok] ok by simp
qed

section \<open>Responses\<close>

lemma plain_int: "c \<in> set (int_to_string n) \<Longrightarrow> c \<noteq> CHR '' '' \<and> c \<noteq> CHR ''$''"
  using digits_between [of c] by (auto simp: int_to_string_def between_def split: if_splits)

text \<open>After the status line more of the parser's state is known than its place: \<open>HTTP/1.0\<close> has no length.\<close>

definition after_status :: "string \<Rightarrow> http_parser" where
  "after_status v = (new_parser PARSE_HTTP_RESPONSE)\<lparr>state := S_HEADER,
     body_bytes_expected := (if strncasecmp_same v ''HTTP/1.0'' then -1 else 0)\<rparr>"

lemma status_line:
  assumes "CHR '' '' \<notin> set v" and "- (2 ^ 31) \<le> c" and "c < 2 ^ 31"
    and "CHR 0x0A \<notin> set n" and "n = [] \<or> last n \<noteq> CHR 0x0D"
  shows "parse_http (new_parser PARSE_HTTP_RESPONSE) (v @ '' '' @ int_to_string c @ '' '' @ n @ crlf @ r) =
    bindR (parse_http (after_status v) r) (\<lambda>(p, es). Inr (p, OnVersion v # OnStatusCode c # OnStatusName n # es))"
proof -
  let ?p = "\<lambda>s. (after_status v)\<lparr>state := s\<rparr>"
  have code: "stoi_int (int_to_string c) = Some c" "CHR '' '' \<notin> set (int_to_string c)"
    using assms(2,3) plain_int stol_int_to_string [of c] by (auto simp: stoi_int_def)
  have first: "parse_http (new_parser PARSE_HTTP_RESPONSE) (v @ CHR '' '' # s) =
      bindR (parse_http (?p S_RES_STATUS_CODE) s) (\<lambda>(p, es). Inr (p, [OnVersion v] @ es))" for s
    by (rule parse_word)
      (simp add: parser_step_def parseResponseVersion_def new_parser_def start_of_def, simp_all add: new_parser_def after_status_def assms)
  have second: "parse_http (?p S_RES_STATUS_CODE) (int_to_string c @ CHR '' '' # s) =
      bindR (parse_http (?p S_RES_STATUS_NAME) s) (\<lambda>(p, es). Inr (p, [OnStatusCode c] @ es))" for s
    by (rule parse_word)
      (simp add: parser_step_def parseResponseStatusCode_def after_status_def, simp_all add: new_parser_def after_status_def code)
  have third: "parse_http (?p S_RES_STATUS_NAME) ((n @ [CHR 0x0D]) @ CHR 0x0A # s) =
      bindR (parse_http (?p S_HEADER) s) (\<lambda>(p, es). Inr (p, [OnStatusName n] @ es))" for s
    by (rule parse_word)
      (simp add: parser_step_def parseResponseStatusName_def after_status_def,
       simp_all add: new_parser_def after_status_def strip_cr assms)
  have "?p S_HEADER = after_status v" by (simp add: after_status_def)
  then show ?thesis
    using first [of "int_to_string c @ '' '' @ n @ crlf @ r"] second [of "n @ crlf @ r"] third [of r]
    by (cases "parse_http (after_status v) r") (auto simp: crlf_def)
qed

definition response_ok :: "http_response \<Rightarrow> bool" where
  "response_ok r \<longleftrightarrow>
     4 \<le> length (res_version r) \<and> CHR '' '' \<notin> set (res_version r) \<and> CHR ''$'' \<notin> set (res_version r) \<and>
     - (2 ^ 31) \<le> status_code r \<and> status_code r < 2 ^ 31 \<and>
     CHR 0x0A \<notin> set (status_name r) \<and> (status_name r = [] \<or> last (status_name r) \<noteq> CHR 0x0D) \<and>
     (\<forall>h\<in>set (res_headers r). header_ok h \<and> toLower (fst h) = fst h \<and>
        (content_length h \<longrightarrow> stoul (snd h) = Some (of_nat (length (res_body r)))))"

lemma generate_response_text:
  assumes "response_ok r"
  shows "generate_response r = Some (Inr (res_version r @ '' '' @ int_to_string (status_code r) @ '' '' @ status_name r @ crlf @
    header_text (res_headers r) @ crlf @ res_body r))"
proof -
  have start: "formatv (''$0 $1 $2'' @ crlf) [res_version r, int_to_string (status_code r), status_name r] =
      Some (res_version r @ '' '' @ int_to_string (status_code r) @ '' '' @ status_name r @ crlf)"
    using assms plain_int by (intro format_start) (auto simp: response_ok_def)
  have hs: "header_lines (res_headers r) = Some (header_text (res_headers r))"
    unfolding header_text_def using assms by (intro header_lines) (auto simp: response_ok_def header_ok_def)
  show ?thesis
    unfolding generate_response_def start hs using assms by (simp add: response_ok_def)
qed

text \<open>What the parser then expects of the body: nothing, everything, or as much as there is.\<close>

lemma expected_response:
  "\<forall>h\<in>set hs. content_length h \<longrightarrow> stoul (snd h) = Some n \<Longrightarrow> d \<in> {0, -1, n} \<Longrightarrow>
   expected_after PARSE_HTTP_RESPONSE hs d \<in> {0, -1, n}"
proof (induction hs arbitrary: d)
  case (Cons h hs)
  let ?d = "expected_after PARSE_HTTP_RESPONSE [h] d"
  have "?d \<in> {0, -1, n}"
    using Cons.prems by (cases h) (auto simp: expected_after_def content_length_def)
  moreover have "expected_after PARSE_HTTP_RESPONSE (h # hs) d = expected_after PARSE_HTTP_RESPONSE hs ?d"
    by (simp add: expected_after_def)
  ultimately show ?case using Cons.IH [of ?d] Cons.prems(1) by auto
qed (simp add: expected_after_def)

lemma response_body:
  assumes "state p = (if body_bytes_expected p = 0 then S_DONE else S_BODY)" and "parser_mode p = PARSE_HTTP_RESPONSE"
    and "body_bytes_read p = 0" and "body_bytes_expected p \<in> {0, -1, of_nat (length s)}"
  shows "\<exists>p' p''. parse_http p s = Inr (p', if s = [] then [] else [OnBodyChunk s]) \<and>
    http_eof p' = Inr p'' \<and> state p'' = S_DONE"
proof (cases "s = []")
  case True
  then show ?thesis using assms by (auto simp: parse_http.simps [of p] http_eof_def)
next
  case False
  let ?p = "p\<lparr>body_bytes_read := of_nat (length s),
    state := (if of_nat (length s) = body_bytes_expected p then S_DONE else state p)\<rparr>"
  have "parse_http p s = Inr (?p, [OnBodyChunk s])"
    using False assms(1-3) by (simp add: parse_http.simps [of p s] parser_step_def readBody_def Let_def parse_http.simps [of _ "[]"])
  moreover have "\<exists>p''. http_eof ?p = Inr p'' \<and> state p'' = S_DONE"
    using assms(1,4) by (auto simp: http_eof_def)
  ultimately show ?thesis using False by simp
qed

lemma fold_response_headers:
  "fold response_event (map (\<lambda>(k, v). OnHeader k v) hs) r =
     r\<lparr>res_headers := res_headers r @ map (\<lambda>(k, v). (toLower k, v)) hs\<rparr>"
  by (induction hs arbitrary: r) (auto simp: addHeader_def)

lemma parse_response_text:
  assumes "response_ok r"
  shows "\<exists>p p'. http_eof p = Inr p' \<and> state p' = S_DONE \<and>
    parse_http (new_parser PARSE_HTTP_RESPONSE) (res_version r @ '' '' @ int_to_string (status_code r) @ '' '' @ status_name r @ crlf @
      header_text (res_headers r) @ crlf @ res_body r) =
    Inr (p, OnVersion (res_version r) # OnStatusCode (status_code r) # OnStatusName (status_name r) #
      map (\<lambda>(k, v). OnHeader k v) (res_headers r) @ OnHeadersComplete # (if res_body r = [] then [] else [OnBodyChunk (res_body r)]))"
proof -
  let ?n = "of_nat (length (res_body r)) :: 64 word" and ?p0 = "after_status (res_version r)"
  obtain e where e: "e = expected_after PARSE_HTTP_RESPONSE (res_headers r) (body_bytes_expected ?p0)" "e \<in> {0, -1, ?n}"
    using assms expected_response [of "res_headers r" ?n "body_bytes_expected ?p0"]
    by (auto simp: response_ok_def after_status_def)
  let ?p1 = "?p0\<lparr>body_bytes_expected := e\<rparr>"
  have "\<exists>p' p''. parse_http (?p1\<lparr>state := (if e = 0 then S_DONE else S_BODY)\<rparr>) (res_body r) =
      Inr (p', if res_body r = [] then [] else [OnBodyChunk (res_body r)]) \<and> http_eof p' = Inr p'' \<and> state p'' = S_DONE"
    using e(2) by (intro response_body) (simp_all add: after_status_def new_parser_def)
  then obtain p p' where body: "parse_http (?p1\<lparr>state := (if e = 0 then S_DONE else S_BODY)\<rparr>) (res_body r) =
      Inr (p, if res_body r = [] then [] else [OnBodyChunk (res_body r)])" and ended: "http_eof p = Inr p'" "state p' = S_DONE"
    by blast
  have tail: "parse_http ?p1 (crlf @ res_body r) =
      Inr (p, OnHeadersComplete # (if res_body r = [] then [] else [OnBodyChunk (res_body r)]))"
    using parse_header_end [of ?p1 "res_body r"] body by (simp add: between_lines_def after_status_def new_parser_def)
  have ok: "\<forall>h\<in>set (res_headers r). header_ok h \<and> (toLower (fst h) = ''content-length'' \<longrightarrow> stoul (snd h) \<noteq> None)"
    using assms by (auto simp: content_length_def response_ok_def)
  have headers: "parse_http ?p0 (header_text (res_headers r) @ crlf @ res_body r) = Inr (p, map (\<lambda>(k, v). OnHeader k v) (res_headers r) @
      OnHeadersComplete # (if res_body r = [] then [] else [OnBodyChunk (res_body r)]))"
    using parse_headers [OF ok, of ?p0 "crlf @ res_body r"] tail e(1)
    by (simp add: header_text_def between_lines_def after_status_def new_parser_def)
  have start: "CHR '' '' \<notin> set (res_version r)" "- (2 ^ 31) \<le> status_code r" "status_code r < 2 ^ 31"
    "CHR 0x0A \<notin> set (status_name r)" "status_name r = [] \<or> last (status_name r) \<noteq> CHR 0x0D"
    using assms by (simp_all add: response_ok_def)
  show ?thesis
    unfolding status_line [OF start] headers bindR_Inr prod.case using ended by blast
qed


definition sample_response :: http_response where
  "sample_response = \<lparr>status_code = 200, status_name = ''OK'', res_version = ''HTTP/1.0'',
     res_headers = [(''connection'', ''Close'')], res_body = ''a''\<rparr>"


section \<open>Cookies\<close>

text \<open>A cookie header as a browser sends it, from cookies that have a name and a value only.\<close>

definition plain_cookie :: "string \<times> string \<Rightarrow> string option" where
  "plain_cookie c = mkCookie (\<lambda>_. []) (fst c) (snd c) 0 [] [] False False"

lemma plain_cookie: "plain_cookie (k, v) = Some (urlEncode k @ ''='' @ urlEncode v)"
  by (simp add: plain_cookie_def mkCookie_def format_pair encoded_plain)

lemma encoded_safe: "c \<in> {CHR '' '', CHR '';'', CHR ''=''} \<Longrightarrow> c \<notin> set (urlEncode s)"
  using encoded_chars [of c s] by (auto simp: is_unreserved_def between_def)

lemma parse_one_cookie:
  assumes "sp = [] \<or> sp = '' ''" and "rest = [] \<or> rest = CHR '';'' # r" and "rest = [] \<longrightarrow> r = []"
  shows "parseCookieHeader (sp @ urlEncode k @ ''='' @ urlEncode v @ rest) =
     bindR (parseCookieHeader r) (\<lambda>cs. Inr ((k, v) # cs))"
proof -
  let ?s = "urlEncode k @ ''='' @ urlEncode v @ rest"
  have "?s \<noteq> [] \<and> hd ?s \<noteq> CHR '' ''"
    using encoded_safe [of "CHR '' ''" k] by (cases "urlEncode k") auto
  then have "dropWhile (\<lambda>c. c = CHR '' '') ?s = ?s" by (cases ?s) simp_all
  then have sp: "dropWhile (\<lambda>c. c = CHR '' '') (sp @ ?s) = ?s" using assms(1) by auto
  have key: "takeWhile (\<lambda>c. c \<noteq> CHR ''='') ?s = urlEncode k"
    using encoded_safe [of "CHR ''=''" k] by (auto simp: takeWhile_tail takeWhile_append)
  have val: "takeWhile (\<lambda>c. c \<noteq> CHR '';'') (urlEncode v @ rest) = urlEncode v"
    using encoded_safe [of "CHR '';''" v] assms(2) by (intro takeWhile_stop) auto
  have parts: "drop (Suc (length (urlEncode k))) ?s = urlEncode v @ rest"
    "drop (Suc (length (urlEncode v))) (urlEncode v @ rest) = r"
    using assms(2,3) by auto
  show ?thesis
    by (subst parseCookieHeader.simps) (simp only: Let_def sp key parts val urlDecode_encode bindR_Inr, simp)
qed

lemma parse_cookies:
  "sp = [] \<or> sp = '' '' \<Longrightarrow> cs \<noteq> [] \<Longrightarrow>
   parseCookieHeader (sp @ join_str (map (\<lambda>(k, v). urlEncode k @ ''='' @ urlEncode v) cs) ''; '') = Inr cs"
proof (induction cs arbitrary: sp)
  case (Cons c cs)
  obtain k v where c: "c = (k, v)" by (cases c)
  show ?case
  proof (cases cs)
    case Nil
    then show ?thesis
      using parse_one_cookie [OF Cons.prems(1), of "[]" "[]" k v] c by (simp add: parseCookieHeader.simps [of "[]"])
  next
    case (Cons c' cs')
    let ?r = "join_str (map (\<lambda>(k, v). urlEncode k @ ''='' @ urlEncode v) cs) ''; ''"
    have "parseCookieHeader ('' '' @ ?r) = Inr cs" using Cons.IH [of "'' ''"] Cons by simp
    then show ?thesis
      using parse_one_cookie [OF Cons.prems(1), of "CHR '';'' # '' '' @ ?r" "'' '' @ ?r" k v] c Cons by simp
  qed
qed simp

text \<open>
  Cookies that are written as name and value and sent back in one header, separated by semicolons and
  blanks, are read as they were, whatever bytes the names and values hold.
\<close>

theorem cookies_roundtrip:
  "\<exists>words. map plain_cookie cs = map Some words \<and> parseCookieHeader (join_str words ''; '') = Inr cs"
proof (intro exI conjI)
  let ?words = "map (\<lambda>(k, v). urlEncode k @ ''='' @ urlEncode v) cs"
  show "map plain_cookie cs = map Some ?words" by (auto simp: plain_cookie)
  show "parseCookieHeader (join_str ?words ''; '') = Inr cs"
    using parse_cookies [of "[]" cs] by (cases "cs = []") (simp_all add: parseCookieHeader.simps [of "[]"])
qed

end
