(* ===== verification/Message.thy ===== *)
theory Message
  imports Column SValue
begin

text \<open>
  Messages and their schemas: \<open>MessageObject\<close> and \<open>MessageSchema\<close> of src/stx/protobuf. A message is an object
  with children that carry the number of a field; a schema names the fields and gives their types. The
  lookup tables of a schema follow from its list of fields, so the model looks there.
\<close>

section \<open>Messages\<close>

text \<open>An enum with a fixed underlying type holds any byte that is cast to it.\<close>

datatype field_type =
    F_OBJECT
  | F_BOOLEAN
  | F_UINT32
  | F_STRING
  | F_UINT64
  | F_DOUBLE
  | F_DATETIME
  | F_OTHER byte

text \<open>A message: its number and its value, whose constructor is the type. A double is its bytes, a time its microseconds.\<close>

datatype message = Message (msg_id: "32 word") (msg_value: message_value)
  and message_value =
    V_Object "message list"
  | V_Bool bool
  | V_UInt32 "32 word"
  | V_String string
  | V_UInt64 "64 word"
  | V_Double "64 word"
  | V_DateTime "64 word"

definition new_object :: "32 word \<Rightarrow> message" where
  "new_object i = Message i (V_Object [])"

fun asObject :: "message \<Rightarrow> message list result" where
  "asObject (Message i (V_Object ms)) = Inr ms"
| "asObject _ = Inl (Raise TypeError)"

fun asString :: "message \<Rightarrow> string result" where
  "asString (Message i (V_String s)) = Inr s"
| "asString _ = Inl (Raise TypeError)"

fun asUInt32 :: "message \<Rightarrow> 32 word result" where
  "asUInt32 (Message i (V_UInt64 v)) = Inr (ucast v)"
| "asUInt32 (Message i (V_UInt32 v)) = Inr v"
| "asUInt32 _ = Inl (Raise TypeError)"

fun asUInt64 :: "message \<Rightarrow> 64 word result" where
  "asUInt64 (Message i (V_UInt32 v)) = Inr (ucast v)"
| "asUInt64 (Message i (V_UInt64 v)) = Inr v"
| "asUInt64 (Message i (V_DateTime v)) = Inr v"
| "asUInt64 _ = Inl (Raise TypeError)"

fun asDouble :: "message \<Rightarrow> 64 word result" where
  "asDouble (Message i (V_Double v)) = Inr v"
| "asDouble _ = Inl (Raise TypeError)"

fun asBool :: "message \<Rightarrow> bool result" where
  "asBool (Message i (V_UInt32 v)) = Inr (0 < v)"
| "asBool (Message i (V_Bool b)) = Inr b"
| "asBool _ = Inl (Raise TypeError)"

fun asUnixTime :: "message \<Rightarrow> 64 word result" where
  "asUnixTime (Message i (V_DateTime v)) = Inr v"
| "asUnixTime _ = Inl (Raise TypeError)"

definition addChild :: "message \<Rightarrow> message \<Rightarrow> message result" where
  "addChild c m = bindR (asObject m) (\<lambda>ms. Inr (Message (msg_id m) (V_Object (ms @ [c]))))"

fun find_child :: "32 word \<Rightarrow> message list \<Rightarrow> message result" where
  "find_child i [] = Inl (Raise IndexError)"
| "find_child i (m # ms) = (if msg_id m = i then Inr m else find_child i ms)"

definition getObject :: "32 word \<Rightarrow> message \<Rightarrow> message result" where
  "getObject i m = bindR (asObject m) (find_child i)"

definition getObjects :: "32 word \<Rightarrow> message \<Rightarrow> message list result" where
  "getObjects i m = bindR (asObject m) (\<lambda>ms. Inr (filter (\<lambda>c. msg_id c = i) ms))"

definition getUInt32 :: "32 word \<Rightarrow> message \<Rightarrow> 32 word result" where
  "getUInt32 i m = bindR (getObject i m) asUInt32"

definition getUInt64 :: "32 word \<Rightarrow> message \<Rightarrow> 64 word result" where
  "getUInt64 i m = bindR (getObject i m) asUInt64"

definition getString :: "32 word \<Rightarrow> message \<Rightarrow> string result" where
  "getString i m = bindR (getObject i m) asString"

section \<open>Schemas\<close>

datatype encoding_hint = H_NONE | H_BITPACK | H_LEB128 | H_OTHER byte

text \<open>The schema of a field is a pointer, null unless it was set for an object.\<close>

datatype schema = Schema (schema_name: string) (schema_fields: "field list")
  and field = Field
    (field_id: "32 word")
    (field_name: string)
    (field_type: field_type)
    (type_size: "64 word")
    (repeated: bool)
    (optional: bool)
    (encoding: encoding_hint)
    (field_schema: "schema option")

definition mkObjectField :: "32 word \<Rightarrow> string \<Rightarrow> bool \<Rightarrow> bool \<Rightarrow> schema \<Rightarrow> field" where
  "mkObjectField i name rep opt s = Field i name F_OBJECT 0 rep opt H_NONE (Some s)"

text \<open>The tables of the code keep the first entry of a name or a number.\<close>

fun find_field :: "(field \<Rightarrow> bool) \<Rightarrow> field list \<Rightarrow> field option" where
  "find_field P [] = None"
| "find_field P (f # fs) = (if P f then Some f else find_field P fs)"

definition field_named :: "schema \<Rightarrow> string \<Rightarrow> field option" where
  "field_named s name = find_field (\<lambda>f. field_name f = name) (schema_fields s)"

definition field_numbered :: "schema \<Rightarrow> 32 word \<Rightarrow> field option" where
  "field_numbered s i = find_field (\<lambda>f. field_id f = i) (schema_fields s)"

definition hasFieldName :: "schema \<Rightarrow> string \<Rightarrow> bool" where
  "hasFieldName s name = (field_named s name \<noteq> None)"

definition hasField :: "schema \<Rightarrow> 32 word \<Rightarrow> bool" where
  "hasField s i = (field_numbered s i \<noteq> None)"

definition fieldId :: "schema \<Rightarrow> string \<Rightarrow> 32 word result" where
  "fieldId s name = (case field_named s name of None \<Rightarrow> Inl (Raise IndexError) | Some f \<Rightarrow> Inr (field_id f))"

definition fieldType :: "schema \<Rightarrow> 32 word \<Rightarrow> field_type result" where
  "fieldType s i =
     (if i = 0 then Inr F_OBJECT
      else case field_numbered s i of None \<Rightarrow> Inl (Raise IndexError) | Some f \<Rightarrow> Inr (field_type f))"

definition fieldName :: "schema \<Rightarrow> 32 word \<Rightarrow> string result" where
  "fieldName s i =
     (if i = 0 then Inr (schema_name s)
      else case field_numbered s i of None \<Rightarrow> Inl (Raise IndexError) | Some f \<Rightarrow> Inr (field_name f))"

definition fieldSchema :: "schema \<Rightarrow> 32 word \<Rightarrow> schema option result" where
  "fieldSchema s i =
     (case field_numbered s i of None \<Rightarrow> Inl (Raise IndexError) | Some f \<Rightarrow> Inr (field_schema f))"

text \<open>The columns of a schema: the fields that are not objects, by their path. A null schema is followed.\<close>

fun columns_of_field :: "field \<Rightarrow> (string \<times> field) list result" where
  "columns_of_field (Field i name ty ts rep opt enc sch) =
     (if ty = F_OBJECT then
        (case sch of
           None \<Rightarrow> Inl (Undefined NullDereference)
         | Some (Schema n fs) \<Rightarrow>
             bindR (mapR columns_of_field fs) (\<lambda>css. Inr (map (\<lambda>(c, f). (name @ ''.'' @ c, f)) (concat css))))
      else Inr [(name, Field i name ty ts rep opt enc sch)])"

definition schema_columns :: "schema \<Rightarrow> (string \<times> field) list result" where
  "schema_columns s = bindR (mapR columns_of_field (schema_fields s)) (\<lambda>css. Inr (concat css))"

end
