(* ===== verification/CSTable_Builder.thy ===== *)
theory CSTable_Builder
  imports Message CSTable
begin

text \<open>
  Messages as columns: \<open>CSTableBuilder\<close> of src/cstable/CSTableBuilder.cc. Each field of the schema that is
  not an object is a column; a message is taken apart into its values and nulls, each with the level at
  which a list repeats and the level to which its path is there. Nesting levels are natural numbers: they
  are at most the depth of the schema.
\<close>

section \<open>Columns\<close>

type_synonym writers = "string \<rightharpoonup> column_writer"

text \<open>The column of a field that is not an object; the second test of the encoding repeats the first, so LEB128 is not used.\<close>

definition column_for :: "field_type \<Rightarrow> 64 word \<Rightarrow> encoding_hint \<Rightarrow> column_type option" where
  "column_for ty ts enc = (case ty of
      F_UINT32 \<Rightarrow> Some (if enc = H_BITPACK then C_UINT32_BITPACKED (ucast ts) else C_UINT32_PLAIN)
    | F_UINT64 \<Rightarrow> Some (if enc = H_BITPACK then C_UINT32_BITPACKED (ucast ts) else C_UINT64_PLAIN)
    | F_DATETIME \<Rightarrow> Some C_UINT64_LEB128
    | F_DOUBLE \<Rightarrow> Some C_DOUBLE
    | F_STRING \<Rightarrow> Some C_STRING_PLAIN
    | F_BOOLEAN \<Rightarrow> Some C_BOOLEAN
    | _ \<Rightarrow> None)"

definition deeper :: "bool \<Rightarrow> nat \<Rightarrow> nat" where
  "deeper b n = (if b then Suc n else n)"

fun createColumns :: "string \<Rightarrow> nat \<Rightarrow> nat \<Rightarrow> writers \<Rightarrow> field \<Rightarrow> writers result" where
  "createColumns prefix r d cols (Field i name ty ts rep opt enc sch) =
     (let colname = prefix @ name; r' = deeper rep r; d' = deeper (rep \<or> opt) d in
      if ty = F_OBJECT then
        (case sch of
           None \<Rightarrow> Inl (Undefined NullDereference)
         | Some (Schema n fs) \<Rightarrow> foldR (\<lambda>cols f. createColumns (colname @ ''.'') r' d' cols f) cols fs)
      else (case column_for ty ts enc of
           None \<Rightarrow> Inr cols
         | Some c \<Rightarrow> Inr (emplace colname (new_writer c (of_nat r') (of_nat d')) cols)))"

record table_builder =
  builder_schema :: schema
  builder_columns :: writers
  builder_records :: "64 word"

definition new_builder :: "schema \<Rightarrow> table_builder result" where
  "new_builder s =
     bindR (foldR (createColumns [] 0 0) Map.empty (schema_fields s)) (\<lambda>cols.
       Inr \<lparr>builder_schema = s, builder_columns = cols, builder_records = 0\<rparr>)"

section \<open>Records\<close>

text \<open>The column is looked up without a test whether there is one.\<close>

definition column_named :: "writers \<Rightarrow> string \<Rightarrow> column_writer result" where
  "column_named cols name = deref (cols name)"

text \<open>The bytes of a value as \<open>writeField\<close> hands them to the column; a type that is none writes nothing.\<close>

definition field_bytes :: "field_type \<Rightarrow> message \<Rightarrow> byte list option result" where
  "field_bytes ty m = (case ty of
      F_STRING \<Rightarrow> bindR (asString m) (\<lambda>s. Inr (Some (bytes_of_string s)))
    | F_UINT32 \<Rightarrow> bindR (asUInt32 m) (\<lambda>v. Inr (Some (appendUInt32 v)))
    | F_DATETIME \<Rightarrow> bindR (asUInt64 m) (\<lambda>v. Inr (Some (appendUInt64 v)))
    | F_UINT64 \<Rightarrow> bindR (asUInt64 m) (\<lambda>v. Inr (Some (appendUInt64 v)))
    | F_DOUBLE \<Rightarrow> bindR (asDouble m) (\<lambda>v. Inr (Some (appendUInt64 v)))
    | F_BOOLEAN \<Rightarrow> bindR (asBool m) (\<lambda>b. Inr (Some [if b then 1 else 0]))
    | F_OBJECT \<Rightarrow> Inl (Raise IllegalStateError)
    | F_OTHER t \<Rightarrow> Inr None)"

definition writeField :: "simdcomp \<Rightarrow> nat \<Rightarrow> nat \<Rightarrow> message \<Rightarrow> string \<Rightarrow> field_type \<Rightarrow> writers \<Rightarrow> writers result" where
  "writeField lib r d m column ty cols =
     bindR (field_bytes ty m) (\<lambda>bs. case bs of
        None \<Rightarrow> Inr cols
      | Some b \<Rightarrow>
          bindR (column_named cols column) (\<lambda>w.
          bindR (addDatum lib (of_nat r) (of_nat d) b w) (\<lambda>w'. Inr (cols(column \<mapsto> w')))))"

fun writeNull :: "simdcomp \<Rightarrow> nat \<Rightarrow> nat \<Rightarrow> string \<Rightarrow> writers \<Rightarrow> field \<Rightarrow> writers result" where
  "writeNull lib r d column cols (Field i name ty ts rep opt enc sch) =
     (if ty = F_OBJECT then
        (case sch of
           None \<Rightarrow> Inl (Undefined NullDereference)
         | Some (Schema n fs) \<Rightarrow> foldR (\<lambda>cols f. writeNull lib r d (column @ ''.'' @ field_name f) cols f) cols fs)
      else
        bindR (column_named cols column) (\<lambda>w. Inr (cols(column \<mapsto> addNull lib (of_nat r) (of_nat d) w))))"

text \<open>
  The values of a field among the children: the first continues the list of the caller at level \<open>r\<close>, the
  others repeat at the level of the field. Without a value the field and all below it are null.
\<close>

fun addRecordField ::
  "simdcomp \<Rightarrow> nat \<Rightarrow> nat \<Rightarrow> nat \<Rightarrow> message \<Rightarrow> string \<Rightarrow> writers \<Rightarrow> field \<Rightarrow> writers result" where
  "addRecordField lib r rmax d m column cols (Field i name ty ts rep opt enc sch) =
     (let rmax' = deeper rep rmax; d' = deeper (rep \<or> opt) d in
      bindR (asObject m) (\<lambda>kids.
      let found = filter (\<lambda>c. msg_id c = i) kids in
      if found = [] then
        (if \<not> (opt \<or> rep) then Inl (Raise IllegalArgumentError)
         else writeNull lib r d (column @ name) cols (Field i name ty ts rep opt enc sch))
      else
        bindR (foldR (\<lambda>(next_r, cols) c.
            bindR (if ty = F_OBJECT then
                (case sch of
                   None \<Rightarrow> Inl (Undefined NullDereference)
                 | Some (Schema n fs) \<Rightarrow>
                     foldR (\<lambda>cols f. addRecordField lib next_r rmax' d' c (column @ name @ ''.'') cols f) cols fs)
              else writeField lib next_r d' c (column @ name) ty cols)
            (\<lambda>cols'. Inr (rmax', cols'))) (r, cols) found)
          (\<lambda>(next_r, cols'). Inr cols')))"

definition addRecord :: "simdcomp \<Rightarrow> message \<Rightarrow> table_builder \<Rightarrow> table_builder result" where
  "addRecord lib m b =
     bindR (foldR (addRecordField lib 0 0 0 m []) (builder_columns b) (schema_fields (builder_schema b))) (\<lambda>cols.
       Inr (b\<lparr>builder_columns := cols, builder_records := builder_records b + 1\<rparr>))"

section \<open>Writing\<close>

text \<open>\<open>order\<close> is the order in which the hash map hands out its columns.\<close>

definition write_columns :: "simdcomp \<Rightarrow> string list \<Rightarrow> table_builder \<Rightarrow> cstable_writer \<Rightarrow> cstable_writer result" where
  "write_columns lib order b t =
     foldR (\<lambda>t name. bindR (column_named (builder_columns b) name) (\<lambda>w. Inr (addColumn lib name w t))) t order"

definition builder_file :: "simdcomp \<Rightarrow> (nat \<Rightarrow> nat \<Rightarrow> byte list) \<Rightarrow> string list \<Rightarrow> table_builder \<Rightarrow> byte list result" where
  "builder_file lib junk order b =
     bindR (write_columns lib order b (new_cstable (builder_records b))) (\<lambda>t. Inr (commit_cstable junk t))"

end
