(* ===== verification/Record_Shredding.thy ===== *)
theory Record_Shredding
  imports CSTable_Builder CSTable_Correct
begin

text \<open>
  What the builder writes: every column of a schema gets, for each message, the entries of its path. The
  path of a column is the list of fields from the message down to the value.
\<close>

section \<open>Paths\<close>

fun leaf_paths :: "field \<Rightarrow> field list list" where
  "leaf_paths (Field i name ty ts rep opt enc sch) =
     (if ty = F_OBJECT then
        (case sch of None \<Rightarrow> []
         | Some (Schema n fs) \<Rightarrow> map ((#) (Field i name ty ts rep opt enc sch)) (concat (map leaf_paths fs)))
      else [[Field i name ty ts rep opt enc sch]])"

definition schema_paths :: "schema \<Rightarrow> field list list" where
  "schema_paths s = concat (map leaf_paths (schema_fields s))"

fun path_name :: "field list \<Rightarrow> string" where
  "path_name [] = []"
| "path_name (f # p) = field_name f @ (if p = [] then [] else ''.'' @ path_name p)"

definition nullable :: "field \<Rightarrow> bool" where
  "nullable f \<longleftrightarrow> repeated f \<or> optional f"

fun path_r :: "field list \<Rightarrow> nat" where
  "path_r [] = 0"
| "path_r (f # p) = deeper (repeated f) (path_r p)"

fun path_d :: "field list \<Rightarrow> nat" where
  "path_d [] = 0"
| "path_d (f # p) = deeper (nullable f) (path_d p)"

definition path_column :: "field list \<Rightarrow> column_type option" where
  "path_column p = column_for (field_type (last p)) (type_size (last p)) (encoding (last p))"

text \<open>
  A well-formed field: objects have a schema with fields of different numbers, every other type has a
  column, and a packed column is for 32-bit numbers.
\<close>

fun wf_field :: "field \<Rightarrow> bool" where
  "wf_field (Field i name ty ts rep opt enc sch) \<longleftrightarrow>
     (if ty = F_OBJECT then
        (case sch of None \<Rightarrow> False
         | Some (Schema n fs) \<Rightarrow> fs \<noteq> [] \<and> distinct (map field_id fs) \<and> (\<forall>f\<in>set fs. wf_field f))
      else column_for ty ts enc \<noteq> None \<and> (ty = F_UINT64 \<longrightarrow> enc \<noteq> H_BITPACK))"

definition wf_fields :: "field list \<Rightarrow> bool" where
  "wf_fields fs \<longleftrightarrow> distinct (map field_id fs) \<and> (\<forall>f\<in>set fs. wf_field f)"

definition wf_schema :: "schema \<Rightarrow> bool" where
  "wf_schema s \<longleftrightarrow> wf_fields (schema_fields s) \<and> distinct (map path_name (schema_paths s)) \<and>
     (\<forall>p\<in>set (schema_paths s). length p < 2 ^ 32 \<and> length (path_name p) < 2 ^ 32) \<and> length (schema_paths s) < 2 ^ 32"

section \<open>Messages that fit\<close>

definition children :: "message \<Rightarrow> message list" where
  "children m = (case msg_value m of V_Object ms \<Rightarrow> ms | _ \<Rightarrow> [])"

text \<open>A value of exactly the field's type, within the bound of a packed column and the size of a string.\<close>

fun leaf_ok :: "field_type \<Rightarrow> 64 word \<Rightarrow> encoding_hint \<Rightarrow> message_value \<Rightarrow> bool" where
  "leaf_ok F_BOOLEAN ts enc (V_Bool b) = True"
| "leaf_ok F_UINT32 ts enc (V_UInt32 v) = (enc = H_BITPACK \<longrightarrow> v \<le> ucast ts)"
| "leaf_ok F_STRING ts enc (V_String s) = (length s < 2 ^ 32)"
| "leaf_ok F_UINT64 ts enc (V_UInt64 v) = True"
| "leaf_ok F_DOUBLE ts enc (V_Double v) = True"
| "leaf_ok F_DATETIME ts enc (V_DateTime v) = True"
| "leaf_ok _ ts enc _ = False"

definition found :: "32 word \<Rightarrow> message list \<Rightarrow> message list" where
  "found i kids = filter (\<lambda>c. msg_id c = i) kids"

fun fits :: "message list \<Rightarrow> field \<Rightarrow> bool" where
  "fits kids (Field i name ty ts rep opt enc sch) \<longleftrightarrow>
     (\<not> rep \<longrightarrow> length (found i kids) \<le> 1) \<and> (\<not> rep \<and> \<not> opt \<longrightarrow> found i kids \<noteq> []) \<and>
     (\<forall>c\<in>set (found i kids).
        if ty = F_OBJECT then
          (case sch of None \<Rightarrow> False
           | Some (Schema n fs) \<Rightarrow> msg_value c = V_Object (children c) \<and> (\<forall>f\<in>set fs. fits (children c) f))
        else leaf_ok ty ts enc (msg_value c))"

definition message_fits :: "schema \<Rightarrow> message \<Rightarrow> bool" where
  "message_fits s m \<longleftrightarrow> msg_value m = V_Object (children m) \<and> (\<forall>f\<in>set (schema_fields s). fits (children m) f)"

definition leaf_bytes :: "field_type \<Rightarrow> message \<Rightarrow> byte list" where
  "leaf_bytes ty m = (case field_bytes ty m of Inr (Some b) \<Rightarrow> b | _ \<Rightarrow> [])"

section \<open>Entries of a message\<close>

type_synonym entry = "nat \<times> nat \<times> byte list option"

definition column_entry :: "entry \<Rightarrow> column_entry" where
  "column_entry e = (case e of (r, d, b) \<Rightarrow> (of_nat r, of_nat d, b))"

text \<open>The entries of all columns below a field, in the order in which the builder writes them.\<close>

fun field_log :: "nat \<Rightarrow> nat \<Rightarrow> nat \<Rightarrow> message list \<Rightarrow> field \<Rightarrow> (field list \<times> entry) list" where
  "field_log r rmax d kids (Field i name ty ts rep opt enc sch) =
     (let f = Field i name ty ts rep opt enc sch; rmax' = deeper rep rmax; d' = deeper (rep \<or> opt) d;
          one = (\<lambda>r c. if ty = F_OBJECT then
              (case sch of None \<Rightarrow> []
               | Some (Schema n fs) \<Rightarrow> map (\<lambda>(q, e). (f # q, e)) (concat (map (\<lambda>g. field_log r rmax' d' (children c) g) fs)))
            else [([f], (r, d', Some (leaf_bytes ty c)))]) in
      case found i kids of
        [] \<Rightarrow> map (\<lambda>q. (q, (r, d, None))) (leaf_paths f)
      | c # cs \<Rightarrow> one r c @ concat (map (one rmax') cs))"

text \<open>The entries of one column.\<close>

fun column_entries :: "field list \<Rightarrow> nat \<Rightarrow> nat \<Rightarrow> nat \<Rightarrow> message list \<Rightarrow> entry list" where
  "column_entries [] r rmax d kids = []"
| "column_entries (f # p) r rmax d kids =
     (let rmax' = deeper (repeated f) rmax; d' = deeper (nullable f) d;
          one = (\<lambda>r c. if p = [] then [(r, d', Some (leaf_bytes (field_type f) c))]
            else column_entries p r rmax' d' (children c)) in
      case found (field_id f) kids of
        [] \<Rightarrow> [(r, d, None)]
      | c # cs \<Rightarrow> one r c @ concat (map (one rmax') cs))"

lemma leaf_paths_nonempty: "q \<in> set (leaf_paths f) \<Longrightarrow> q \<noteq> [] \<and> hd q = f"
  by (cases f) (auto split: if_splits option.splits schema.splits)

lemma field_log_path: "(q, e) \<in> set (field_log r rmax d kids f) \<Longrightarrow> q \<noteq> [] \<and> hd q = f"
  using leaf_paths_nonempty
  by (cases f) (fastforce simp: Let_def split: list.splits if_splits option.splits schema.splits)

section \<open>The builder writes the entries\<close>

definition write_entry :: "simdcomp \<Rightarrow> string \<Rightarrow> writers \<Rightarrow> field list \<times> entry \<Rightarrow> writers result" where
  "write_entry lib prefix cols x =
     bindR (column_named cols (prefix @ path_name (fst x))) (\<lambda>w.
     bindR (add_entry lib w (column_entry (snd x))) (\<lambda>w'. Inr (cols(prefix @ path_name (fst x) \<mapsto> w'))))"

lemma foldR_concat_map: "foldR g s (concat (map h xs)) = foldR (\<lambda>s x. foldR g s (h x)) s xs"
  by (induction xs arbitrary: s) (auto simp: foldR_append)

lemma bindR_Inr_right [simp]: "bindR x Inr = x"
  by (cases x) simp_all

lemma foldR_same: "(\<And>s x. x \<in> set xs \<Longrightarrow> g s x = h s x) \<Longrightarrow> foldR g s xs = foldR h s xs"
  by (rule foldR_cong) auto

lemma write_below: "q \<noteq> [] \<Longrightarrow> write_entry lib prefix cols (f # q, e) = write_entry lib (prefix @ field_name f @ ''.'') cols (q, e)"
  by (simp add: write_entry_def)

lemma writeNull_log:
  "wf_field f \<Longrightarrow> writeNull lib r d (prefix @ field_name f) cols f =
     foldR (write_entry lib prefix) cols (map (\<lambda>q. (q, (r, d, None))) (leaf_paths f))"
proof (induction f arbitrary: prefix cols rule: leaf_paths.induct)
  case (1 i name ty ts rep opt enc sch)
  let ?f = "Field i name ty ts rep opt enc sch"
  show ?case
  proof (cases "ty = F_OBJECT")
    case False
    then show ?thesis
      by (cases "cols (prefix @ name)") (simp_all add: write_entry_def column_named_def column_entry_def)
  next
    case True
    then obtain n fs where sch: "sch = Some (Schema n fs)" "\<forall>g\<in>set fs. wf_field g"
      using 1(2) by (auto split: option.splits schema.splits)
    have "writeNull lib r d ((prefix @ name @ ''.'') @ field_name g) cols g =
        foldR (write_entry lib prefix) cols (map (\<lambda>q. (?f # q, (r, d, None))) (leaf_paths g))"
      if "g \<in> set fs" for g cols
    proof -
      have "foldR (write_entry lib prefix) cols (map (\<lambda>q. (?f # q, (r, d, None))) (leaf_paths g)) =
          foldR (write_entry lib (prefix @ name @ ''.'')) cols (map (\<lambda>q. (q, (r, d, None))) (leaf_paths g))"
        unfolding foldR_map using leaf_paths_nonempty by (intro foldR_same) (auto simp: write_below)
      then show ?thesis using 1(1) [OF True sch(1) refl that, of "prefix @ name @ ''.''" cols] that sch(2) by simp
    qed
    then show ?thesis
      using True sch(1) by (simp add: foldR_map foldR_concat_map) (rule foldR_same, simp)
  qed
qed

lemma leaf_ok_bytes:
  "leaf_ok ty ts enc (msg_value c) \<Longrightarrow> field_bytes ty c = Inr (Some (leaf_bytes ty c))"
  by (cases c; cases "(ty, ts, enc, msg_value c)" rule: leaf_ok.cases) (auto simp: field_bytes_def leaf_bytes_def)

lemma loop_log:
  assumes "\<And>r c cols. c \<in> set os \<Longrightarrow> step r cols c = foldR W cols (one r c)"
  shows "bindR (foldR (\<lambda>(next_r, cols) c. bindR (step next_r cols c) (\<lambda>cols'. Inr (rmax', cols'))) (r, cols) os) (\<lambda>(next_r, cols'). Inr cols') =
    (case os of [] \<Rightarrow> Inr cols | c # cs \<Rightarrow> foldR W cols (one r c @ concat (map (one rmax') cs)))"
  using assms
proof (induction os arbitrary: r cols)
  case (Cons c cs)
  have "bindR (foldR (\<lambda>(next_r, cols) c. bindR (step next_r cols c) (\<lambda>cols'. Inr (rmax', cols'))) (rmax', cols') cs) (\<lambda>(next_r, cols'). Inr cols') =
      foldR W cols' (concat (map (one rmax') cs))" for cols'
    using Cons.IH [of rmax' cols'] Cons.prems by (cases cs) simp_all
  then show ?case
    using Cons.prems [of c r cols] by (cases "foldR W cols (one r c)") (simp_all add: foldR_append)
qed simp

lemma asObject_children: "msg_value m = V_Object (children m) \<Longrightarrow> asObject m = Inr (children m)"
  by (metis asObject.simps(1) message.collapse)

lemma addRecordField_log:
  "wf_field f \<Longrightarrow> fits (children m) f \<Longrightarrow> msg_value m = V_Object (children m) \<Longrightarrow>
     addRecordField lib r rmax d m prefix cols f = foldR (write_entry lib prefix) cols (field_log r rmax d (children m) f)"
proof (induction f arbitrary: r rmax d m prefix cols rule: leaf_paths.induct)
  case (1 i name ty ts rep opt enc sch)
  let ?f = "Field i name ty ts rep opt enc sch" and ?kids = "children m"
  let ?rm = "deeper rep rmax" and ?d = "deeper (rep \<or> opt) d"
  let ?one = "\<lambda>r c. if ty = F_OBJECT then
      (case sch of None \<Rightarrow> []
       | Some (Schema n fs) \<Rightarrow> map (\<lambda>(q, e). (?f # q, e)) (concat (map (\<lambda>g. field_log r ?rm ?d (children c) g) fs)))
    else [([?f], (r, ?d, Some (leaf_bytes ty c)))]"
  let ?step = "\<lambda>r cols c. if ty = F_OBJECT then
      (case sch of None \<Rightarrow> Inl (Undefined NullDereference)
       | Some (Schema n fs) \<Rightarrow> foldR (\<lambda>cols f. addRecordField lib r ?rm ?d c (prefix @ name @ ''.'') cols f) cols fs)
    else writeField lib r ?d c (prefix @ name) ty cols"
  have kids: "asObject m = Inr ?kids" by (rule asObject_children) (rule "1.prems"(3))
  have step: "?step r cols c = foldR (write_entry lib prefix) cols (?one r c)" if c: "c \<in> set (found i ?kids)" for r cols c
  proof (cases "ty = F_OBJECT")
    case False
    then have "field_bytes ty c = Inr (Some (leaf_bytes ty c))"
      using "1.prems"(2) c leaf_ok_bytes by auto
    then show ?thesis
      using False by (cases "cols (prefix @ name)") (simp_all add: writeField_def write_entry_def column_named_def column_entry_def)
  next
    case True
    then obtain n fs where sch: "sch = Some (Schema n fs)" "\<forall>g\<in>set fs. wf_field g"
      using "1.prems"(1) by (auto split: option.splits schema.splits)
    have obj: "msg_value c = V_Object (children c)" "\<forall>g\<in>set fs. fits (children c) g"
      using "1.prems"(2) True sch(1) c by auto
    have "addRecordField lib r ?rm ?d c (prefix @ name @ ''.'') cols g =
        foldR (\<lambda>cols (q, e). write_entry lib prefix cols (?f # q, e)) cols (field_log r ?rm ?d (children c) g)"
      if g: "g \<in> set fs" for g cols
    proof -
      have "foldR (\<lambda>cols (q, e). write_entry lib prefix cols (?f # q, e)) cols (field_log r ?rm ?d (children c) g) =
          foldR (write_entry lib (prefix @ name @ ''.'')) cols (field_log r ?rm ?d (children c) g)"
        using field_log_path by (intro foldR_same) (fastforce simp: write_below)
      then show ?thesis using "1.IH" [OF True sch(1) refl g] sch(2) obj g by simp
    qed
    then show ?thesis
      using True sch(1) by (simp add: foldR_map foldR_concat_map case_prod_unfold) (rule foldR_same, simp)
  qed
  show ?case
  proof (cases "found i ?kids")
    case Nil
    moreover from this have "rep \<or> opt" using "1.prems"(2) by auto
    ultimately show ?thesis
      using kids writeNull_log [OF "1.prems"(1), of lib r d prefix cols]
      by (auto simp add: found_def Let_def simp del: writeNull.simps leaf_paths.simps)
  next
    case (Cons c cs)
    then have "addRecordField lib r rmax d m prefix cols ?f =
        bindR (foldR (\<lambda>(next_r, cols) c. bindR (?step next_r cols c) (\<lambda>cols'. Inr (?rm, cols'))) (r, cols) (found i ?kids)) (\<lambda>(next_r, cols'). Inr cols')"
      using kids by (simp add: found_def Let_def)
    also have "\<dots> = foldR (write_entry lib prefix) cols (?one r c @ concat (map (?one ?rm) cs))"
      by (subst loop_log [where one = ?one]) (use step Cons in auto)
    also have "\<dots> = foldR (write_entry lib prefix) cols (field_log r rmax d ?kids ?f)"
      using Cons by (simp add: Let_def)
    finally show ?thesis .
  qed
qed

section \<open>The entries of a column\<close>

definition entries_of :: "field list \<Rightarrow> (field list \<times> entry) list \<Rightarrow> entry list" where
  "entries_of p xs = map snd (filter (\<lambda>x. fst x = p) xs)"

lemma entries_of_simps [simp]:
  "entries_of p [] = []" "entries_of p (xs @ ys) = entries_of p xs @ entries_of p ys"
  by (simp_all add: entries_of_def)

lemma entries_of_concat [simp]: "entries_of p (concat xss) = concat (map (entries_of p) xss)"
  by (induction xss) simp_all

lemma entries_of_below: "entries_of (f # p) (map (\<lambda>(q, e). (f # q, e)) xs) = entries_of p xs"
  by (induction xs) (auto simp: entries_of_def)

lemma entries_of_other: "(\<And>q e. (q, e) \<in> set xs \<Longrightarrow> hd q \<noteq> hd p) \<Longrightarrow> entries_of p xs = []"
  unfolding entries_of_def filter_empty_conv map_is_Nil_conv by (metis prod.collapse)

text \<open>Of the logs of different fields only the one whose field heads the path counts.\<close>

lemma concat_only:
  "distinct fs \<Longrightarrow> f \<in> set fs \<Longrightarrow> (\<And>g. g \<in> set fs \<Longrightarrow> g \<noteq> f \<Longrightarrow> h g = []) \<Longrightarrow> concat (map h fs) = h f"
proof (induction fs)
  case (Cons g fs)
  show ?case
  proof (cases "g = f")
    case True
    then have "\<forall>g\<in>set fs. h g = []" using Cons.prems by auto
    then show ?thesis using True by simp
  next
    case False
    then show ?thesis using Cons by simp
  qed
qed simp

lemma entries_of_fields:
  assumes "distinct (map field_id fs)" and "f \<in> set fs" and "p \<in> set (leaf_paths f)"
  shows "concat (map (entries_of p \<circ> field_log r rmax d kids) fs) = entries_of p (field_log r rmax d kids f)"
proof -
  have "entries_of p (field_log r rmax d kids g) = []" if "g \<noteq> f" for g
    using that field_log_path leaf_paths_nonempty [OF assms(3)] by (intro entries_of_other) fastforce
  then show ?thesis using concat_only [of fs f "entries_of p \<circ> field_log r rmax d kids"] assms by (simp add: distinct_map)
qed

lemma distinct_leaf_paths: "wf_field f \<Longrightarrow> distinct (leaf_paths f)"
proof (induction f rule: leaf_paths.induct)
  case (1 i name ty ts rep opt enc sch)
  show ?case
  proof (cases "ty = F_OBJECT")
    case True
    then obtain n fs where sch: "sch = Some (Schema n fs)" "distinct (map field_id fs)" "\<forall>g\<in>set fs. wf_field g"
      using "1.prems" by (auto split: option.splits schema.splits)
    have apart: "set (leaf_paths g) \<inter> set (leaf_paths h) = {}" if "g \<noteq> h" for g h
      using that leaf_paths_nonempty by blast
    have "distinct (concat (map leaf_paths gs))" if "set gs \<subseteq> set fs" "distinct gs" for gs
      using that
    proof (induction gs)
      case (Cons g gs)
      then have "set (leaf_paths g) \<inter> set (leaf_paths h) = {}" if "h \<in> set gs" for h
        using apart [of g h] that by auto
      then show ?case using Cons "1.IH" [OF True sch(1) refl, of g] sch(3) by auto
    qed simp
    then have "distinct (concat (map leaf_paths fs))" using sch(2) by (simp add: distinct_map)
    then show ?thesis using True sch(1) by (simp add: distinct_map inj_on_def)
  qed simp
qed

lemma entries_of_field_log:
  "wf_field f \<Longrightarrow> p \<in> set (leaf_paths f) \<Longrightarrow> entries_of p (field_log r rmax d kids f) = column_entries p r rmax d kids"
proof (induction f arbitrary: p r rmax d kids rule: leaf_paths.induct)
  case (1 i name ty ts rep opt enc sch)
  let ?f = "Field i name ty ts rep opt enc sch"
  have deeper: "deeper (nullable ?f) d = deeper (rep \<or> opt) d" by (simp add: nullable_def)
  obtain q where p: "p = ?f # q" using leaf_paths_nonempty [OF "1.prems"(2)] by (cases p) auto
  show ?case
  proof (cases "found i kids")
    case Nil
    have "entries_of p (map (\<lambda>q. (q, (r, d, None))) ps) = (if p \<in> set ps then [(r, d, None)] else [])" if "distinct ps" for ps
      using that by (induction ps) (auto simp: entries_of_def)
    then show ?thesis using Nil p "1.prems"(2) distinct_leaf_paths [OF "1.prems"(1)] by simp
  next
    case (Cons c cs)
    show ?thesis
    proof (cases "ty = F_OBJECT")
      case False
      then have "q = []" using "1.prems"(2) p by simp
      then show ?thesis using Cons False p deeper by (simp add: comp_def Let_def entries_of_def)
    next
      case True
      then obtain n fs where sch: "sch = Some (Schema n fs)" "distinct (map field_id fs)" "\<forall>g\<in>set fs. wf_field g"
        using "1.prems"(1) by (auto split: option.splits schema.splits)
      then obtain g where g: "g \<in> set fs" "q \<in> set (leaf_paths g)" using "1.prems"(2) True p by auto
      have "entries_of p (map (\<lambda>(q, e). (?f # q, e)) (concat (map (\<lambda>g. field_log r (deeper rep rmax) (deeper (rep \<or> opt) d) (children c) g) fs))) =
          column_entries q r (deeper rep rmax) (deeper (rep \<or> opt) d) (children c)" for r c
        using entries_of_fields [OF sch(2) g] "1.IH" [OF True sch(1) refl g(1) _ g(2)] sch(3) g(1)
        unfolding p entries_of_below by (simp add: comp_def)
      moreover have "q \<noteq> []" using leaf_paths_nonempty [OF g(2)] by simp
      ultimately show ?thesis using Cons True sch(1) p deeper by (simp add: comp_def Let_def)
    qed
  qed
qed

section \<open>Levels\<close>

lemma leaf_ok_valid:
  assumes "leaf_ok ty ts enc (msg_value c)" and "ty = F_UINT64 \<longrightarrow> enc \<noteq> H_BITPACK"
  shows "\<exists>col. column_for ty ts enc = Some col \<and> valid_datum col (leaf_bytes ty c)"
proof -
  have word: "ucast (le_value (appendUInt32 v)) = v" "length (appendUInt32 v) = 4" for v
    by (simp_all add: appendUInt32_def ucast_le_value)
  show ?thesis
    using assms word
    by (cases c; cases "(ty, ts, enc, msg_value c)" rule: leaf_ok.cases)
       (auto simp: leaf_bytes_def field_bytes_def column_for_def appendUInt64_def)
qed

text \<open>
  Every entry of a column keeps to its maxima: a value stands on the greatest definition level, a null
  below it; the first entry has the level the caller gave, the others repeat below it.
\<close>

definition entry_within :: "nat \<Rightarrow> nat \<Rightarrow> field list \<Rightarrow> entry \<Rightarrow> bool" where
  "entry_within rmax d p e \<longleftrightarrow> (case e of (r, dl, b) \<Rightarrow>
     r \<le> rmax + path_r p \<and> d \<le> dl \<and>
     (case b of None \<Rightarrow> dl < d + path_d p
      | Some b \<Rightarrow> dl = d + path_d p \<and> (\<exists>col. path_column p = Some col \<and> valid_datum col b)))"

lemma entry_within_mono:
  assumes "entry_within (deeper b rmax) (deeper b' d) p (r, dl, x)" and "path_column (f # p) = path_column p"
    and "b = repeated f" and "b' = nullable f"
  shows "entry_within rmax d (f # p) (r, dl, x)"
  using assms by (auto simp: entry_within_def deeper_def split: option.splits if_splits)

lemma column_entries_within:
  "wf_field f \<Longrightarrow> fits kids f \<Longrightarrow> p \<in> set (leaf_paths f) \<Longrightarrow> r \<le> rmax \<Longrightarrow> e \<in> set (column_entries p r rmax d kids) \<Longrightarrow>
     entry_within rmax d p e"
proof (induction f arbitrary: p r rmax d kids e rule: leaf_paths.induct)
  case (1 i name ty ts rep opt enc sch)
  let ?f = "Field i name ty ts rep opt enc sch"
  obtain q where p: "p = ?f # q" using leaf_paths_nonempty [OF "1.prems"(3)] by (cases p) auto
  show ?case
  proof (cases "found i kids")
    case Nil
    then have "e = (r, d, None)" "rep \<or> opt" using "1.prems"(2,5) p by auto
    then show ?thesis using "1.prems"(4) p by (auto simp: entry_within_def nullable_def deeper_def)
  next
    case (Cons c cs)
    let ?one = "\<lambda>r c. if q = [] then [(r, deeper (nullable ?f) d, Some (leaf_bytes ty c))]
        else column_entries q r (deeper rep rmax) (deeper (nullable ?f) d) (children c)"
    obtain one where one: "one = ?one" by simp
    have "e \<in> set (one r c) \<or> (\<exists>c'\<in>set cs. e \<in> set (one (deeper rep rmax) c'))"
      using "1.prems"(5) p Cons one by (cases "q = []") (auto simp: Let_def)
    moreover have "r \<le> deeper rep rmax" using "1.prems"(4) by (simp add: deeper_def)
    moreover have "c \<in> set (found i kids)" "set cs \<subseteq> set (found i kids)" using Cons by auto
    ultimately have "\<exists>c'\<in>set (found i kids). \<exists>r'\<le>deeper rep rmax. e \<in> set (one r' c')" by blast
    then obtain r' c' where c': "c' \<in> set (found i kids)" "r' \<le> deeper rep rmax" "e \<in> set (?one r' c')"
      unfolding one by blast
    show ?thesis
    proof (cases "ty = F_OBJECT")
      case False
      then have "q = []" using "1.prems"(3) p by simp
      then have "e = (r', deeper (nullable ?f) d, Some (leaf_bytes ty c'))" using c'(3) by simp
      moreover have "\<exists>col. column_for ty ts enc = Some col \<and> valid_datum col (leaf_bytes ty c')"
        using leaf_ok_valid [of ty ts enc c'] "1.prems"(1,2) False c'(1) by auto
      ultimately show ?thesis
        using p \<open>q = []\<close> c'(2) by (auto simp: entry_within_def path_column_def deeper_def)
    next
      case True
      then obtain n fs where sch: "sch = Some (Schema n fs)" "\<forall>g\<in>set fs. wf_field g"
        using "1.prems"(1) by (auto split: option.splits schema.splits)
      then obtain g where g: "g \<in> set fs" "q \<in> set (leaf_paths g)" using "1.prems"(3) True p by auto
      have q: "q \<noteq> []" using leaf_paths_nonempty [OF g(2)] by simp
      have "fits (children c') g" using "1.prems"(2) True sch(1) c'(1) g(1) by auto
      then have "entry_within (deeper rep rmax) (deeper (nullable ?f) d) q e"
        using "1.IH" [OF True sch(1) refl g(1) _ _ g(2) c'(2)] c'(3) sch(2) g(1) q by simp
      then show ?thesis
        using entry_within_mono [of rep rmax "nullable ?f" d q _ _ _ ?f] q p by (cases e) (simp add: path_column_def)
    qed
  qed
qed

lemma column_entries_repeat:
  "p \<noteq> [] \<Longrightarrow> p \<in> set (leaf_paths f) \<Longrightarrow> fits kids f \<Longrightarrow>
     \<exists>dl b es. column_entries p r rmax d kids = (r, dl, b) # es \<and> (\<forall>e\<in>set es. rmax < fst e)"
proof (induction p arbitrary: f r rmax d kids)
  case (Cons h q)
  then obtain i name ty ts rep opt enc sch where f: "f = h" "h = Field i name ty ts rep opt enc sch"
    using leaf_paths_nonempty [OF Cons.prems(2)] by (metis field.exhaust list.sel(1))
  let ?one = "\<lambda>r c. if q = [] then [(r, deeper (nullable h) d, Some (leaf_bytes ty c))]
        else column_entries q r (deeper rep rmax) (deeper (nullable h) d) (children c)"
  have one: "\<exists>dl b es. ?one r c = (r, dl, b) # es \<and> (\<forall>e\<in>set es. deeper rep rmax < fst e)" if "c \<in> set (found i kids)" for r c
  proof (cases "q = []")
    case False
    then have obj: "ty = F_OBJECT" using Cons.prems(2) f by (auto split: if_splits)
    then obtain n fs g where sch: "sch = Some (Schema n fs)" "g \<in> set fs" "q \<in> set (leaf_paths g)"
      using Cons.prems(2) f by (auto split: option.splits schema.splits)
    then have "fits (children c) g" using Cons.prems(3) that f obj by auto
    then show ?thesis using Cons.IH [OF False sch(3)] False by simp
  qed simp
  show ?case
  proof (cases "found i kids")
    case Nil
    then show ?thesis using f by simp
  next
    case (Cons c cs)
    obtain dl b es where first: "?one r c = (r, dl, b) # es" "\<forall>e\<in>set es. deeper rep rmax < fst e"
      using one [of c r] Cons by auto
    have rest: "rmax < fst e" if "c' \<in> set cs" "e \<in> set (?one (deeper rep rmax) c')" for c' e
    proof -
      have rep: "rep" using Cons.prems(3) f Cons that(1) by (cases cs) auto
      have "c' \<in> set (found i kids)" using Cons that(1) by simp
      from one [OF this, of "deeper rep rmax"] obtain dl b es where
        "?one (deeper rep rmax) c' = (deeper rep rmax, dl, b) # es" "\<forall>e\<in>set es. deeper rep rmax < fst e" by blast
      then show ?thesis using that(2) rep by (auto simp: deeper_def)
    qed
    have "column_entries (h # q) r rmax d kids = (r, dl, b) # es @ concat (map (?one (deeper rep rmax)) cs)"
      using first(1) Cons f by (cases "q = []") (simp_all add: Let_def)
    moreover have "\<forall>e\<in>set es. rmax < fst e" using first(2) by (auto simp: deeper_def split: if_splits)
    moreover have "\<forall>e\<in>set (concat (map (?one (deeper rep rmax)) cs)). rmax < fst e"
      using rest unfolding set_concat set_map by blast
    ultimately show ?thesis by (metis (no_types, lifting) UnE set_append)
  qed
qed simp

section \<open>The columns of the builder\<close>

definition path_writer :: "nat \<Rightarrow> nat \<Rightarrow> field list \<Rightarrow> column_writer" where
  "path_writer r d p = new_writer (the (path_column p)) (of_nat (r + path_r p)) (of_nat (d + path_d p))"

definition path_writers :: "string \<Rightarrow> nat \<Rightarrow> nat \<Rightarrow> field list list \<Rightarrow> (string \<times> column_writer) list" where
  "path_writers prefix r d ps = map (\<lambda>p. (prefix @ path_name p, path_writer r d p)) ps"

lemma path_writers_append: "path_writers prefix r d (ps @ qs) = path_writers prefix r d ps @ path_writers prefix r d qs"
  by (simp add: path_writers_def)

lemma emplace_all: "foldl (\<lambda>cols (n, w). emplace n w cols) cols xs = map_of xs ++ cols"
proof (induction xs arbitrary: cols)
  case (Cons x xs)
  obtain n w where x: "x = (n, w)" by (cases x)
  have "map_of xs ++ emplace n w cols = map_of (x # xs) ++ cols"
    by (rule ext) (auto simp: emplace_def map_add_def x split: option.splits)
  then show ?case by (simp only: x foldl.simps prod.case Cons.IH)
qed simp

lemma deeper_add: "deeper b n + m = n + deeper b m"
  by (simp add: deeper_def)

lemma createColumns_paths:
  "wf_field f \<Longrightarrow> createColumns prefix r d cols f = Inr (map_of (path_writers prefix r d (leaf_paths f)) ++ cols)"
proof (induction f arbitrary: prefix r d cols rule: leaf_paths.induct)
  case (1 i name ty ts rep opt enc sch)
  let ?f = "Field i name ty ts rep opt enc sch"
  show ?case
  proof (cases "ty = F_OBJECT")
    case False
    then obtain c where "column_for ty ts enc = Some c" using "1.prems" by auto
    moreover have "map_of [(n, w)] ++ cols = emplace n w cols" for n and w :: column_writer
      using emplace_all [of cols "[(n, w)]"] by simp
    ultimately show ?thesis
      using False by (simp add: path_writers_def path_writer_def path_column_def nullable_def deeper_def add.commute
          del: map_of.simps)
  next
    case True
    then obtain n fs where sch: "sch = Some (Schema n fs)" "\<forall>g\<in>set fs. wf_field g"
      using "1.prems" by (auto split: option.splits schema.splits)
    have below: "path_writers (prefix @ name @ ''.'') (deeper rep r) (deeper (rep \<or> opt) d) (leaf_paths g) =
        path_writers prefix r d (map ((#) ?f) (leaf_paths g))" for g
      using leaf_paths_nonempty [of _ g]
      by (auto simp: path_writers_def path_writer_def path_column_def nullable_def deeper_add simp del: of_nat_add)
    have "foldR (\<lambda>cols g. createColumns (prefix @ name @ ''.'') (deeper rep r) (deeper (rep \<or> opt) d) cols g) cols gs =
        Inr (map_of (path_writers prefix r d (map ((#) ?f) (concat (map leaf_paths gs)))) ++ cols)" if "set gs \<subseteq> set fs" for gs cols
      using that
    proof (induction gs arbitrary: cols)
      case (Cons g gs)
      then show ?case
        using "1.IH" [OF True sch(1) refl, of g] sch(2)
        by (simp add: below path_writers_append)
    qed (simp add: path_writers_def)
    then show ?thesis using True sch(1) by simp
  qed
qed

lemma new_builder_paths:
  assumes "wf_schema s"
  shows "new_builder s = Inr \<lparr>builder_schema = s, builder_columns = map_of (path_writers [] 0 0 (schema_paths s)), builder_records = 0\<rparr>"
proof -
  have "foldR (createColumns [] 0 0) cols gs = Inr (map_of (path_writers [] 0 0 (concat (map leaf_paths gs))) ++ cols)"
    if "\<forall>g\<in>set gs. wf_field g" for gs cols
    using that
  proof (induction gs arbitrary: cols)
    case (Cons g gs)
    then show ?case by (simp add: createColumns_paths path_writers_def map_of_append)
  qed (simp add: path_writers_def)
  then show ?thesis using assms by (simp add: new_builder_def wf_schema_def wf_fields_def schema_paths_def)
qed

text \<open>\<open>holds_entries\<close>: the columns are those of the paths, and each has been written the entries \<open>es\<close> gives for it.\<close>

definition holds_entries :: "simdcomp \<Rightarrow> field list list \<Rightarrow> (field list \<Rightarrow> entry list) \<Rightarrow> writers \<Rightarrow> bool" where
  "holds_entries lib ps es cols \<longleftrightarrow> dom cols = path_name ` set ps \<and>
     (\<forall>p\<in>set ps. \<exists>w. cols (path_name p) = Some w \<and>
        written lib (the (path_column p)) (of_nat (path_r p)) (of_nat (path_d p)) (map column_entry (es p)) w)"

lemma new_holds:
  assumes "distinct (map path_name ps)"
  shows "holds_entries lib ps (\<lambda>p. []) (map_of (path_writers [] 0 0 ps))"
proof -
  have fst: "map fst (path_writers [] 0 0 ps) = map path_name ps" by (simp add: path_writers_def comp_def)
  have "map_of (path_writers [] 0 0 ps) (path_name p) = Some (path_writer 0 0 p)" if "p \<in> set ps" for p
    using that assms by (intro map_of_is_SomeI) (auto simp: fst, auto simp: path_writers_def)
  moreover have "dom (map_of (path_writers [] 0 0 ps)) = path_name ` set ps"
    unfolding dom_map_of_conv_image_fst by (auto simp: path_writers_def image_image)
  ultimately show ?thesis by (simp add: holds_entries_def path_writer_def new_written)
qed

text \<open>An entry within the levels of its path is good for its column.\<close>

lemma within_good:
  assumes "entry_within 0 0 p e" and "length p < 2 ^ 32"
  shows "good_entry (the (path_column p)) (of_nat (path_r p)) (of_nat (path_d p)) (column_entry e)"
proof -
  obtain r d b where e: "e = (r, d, b)" by (cases e)
  have "path_r q \<le> length q" "path_d q \<le> length q" for q
    by (induction q) (auto simp: deeper_def)
  then have small: "path_r p < 2 ^ 32" "path_d p < 2 ^ 32" using assms(2) by (meson le_less_trans)+
  have le: "(of_nat a :: 64 word) \<le> of_nat b" "(of_nat a :: 64 word) = of_nat b \<longleftrightarrow> a = b" if "a \<le> b" "b < 2 ^ 32" for a b
    using that by (simp_all add: word_le_nat_alt unat_of_nat word_unat_eq_iff)
  show ?thesis
    using assms(1) e le small by (auto simp: good_entry_def entry_within_def column_entry_def split: option.splits)
qed

lemma write_log_holds:
  assumes "distinct (map path_name ps)" and "\<forall>p\<in>set ps. length p < 2 ^ 32"
  shows "holds_entries lib ps es cols \<Longrightarrow> \<forall>(p, e)\<in>set xs. p \<in> set ps \<and> entry_within 0 0 p e \<Longrightarrow>
    \<exists>cols'. foldR (write_entry lib []) cols xs = Inr cols' \<and> holds_entries lib ps (\<lambda>p. es p @ entries_of p xs) cols'"
proof (induction xs arbitrary: es cols)
  case (Cons x xs)
  obtain p e where x: "x = (p, e)" by (cases x)
  have p: "p \<in> set ps" "entry_within 0 0 p e" using Cons.prems(2) x by auto
  obtain w where w: "cols (path_name p) = Some w"
    "written lib (the (path_column p)) (of_nat (path_r p)) (of_nat (path_d p)) (map column_entry (es p)) w"
    using Cons.prems(1) p(1) by (auto simp: holds_entries_def)
  obtain w' where w': "add_entry lib w (column_entry e) = Inr w'"
    "written lib (the (path_column p)) (of_nat (path_r p)) (of_nat (path_d p)) (map column_entry (es p @ [e])) w'"
    using add_written [OF w(2) within_good [OF p(2)]] assms(2) p(1) by auto
  have names: "path_name q = path_name p \<longleftrightarrow> q = p" if "q \<in> set ps" for q
    using assms(1) p(1) that by (auto simp: distinct_map inj_on_def)
  have "holds_entries lib ps (\<lambda>q. es q @ (if q = p then [e] else [])) (cols(path_name p \<mapsto> w'))"
    using Cons.prems(1) w'(2) p(1) names by (auto simp: holds_entries_def)
  then obtain cols' where "foldR (write_entry lib []) (cols(path_name p \<mapsto> w')) xs = Inr cols'"
    "holds_entries lib ps (\<lambda>q. (es q @ (if q = p then [e] else [])) @ entries_of q xs) cols'"
    using Cons.IH Cons.prems(2) by fastforce
  moreover have "(\<lambda>q. (es q @ (if q = p then [e] else [])) @ entries_of q xs) = (\<lambda>q. es q @ entries_of q (x # xs))"
    by (rule ext) (simp add: x entries_of_def)
  moreover have "write_entry lib [] cols x = Inr (cols(path_name p \<mapsto> w'))"
    using x w(1) w'(1) by (simp add: write_entry_def column_named_def)
  ultimately show ?case by simp
qed simp

section \<open>Records\<close>

definition record_entries :: "message list \<Rightarrow> field list \<Rightarrow> entry list" where
  "record_entries ms p = concat (map (\<lambda>m. column_entries p 0 0 0 (children m)) ms)"

lemma schema_path_field: "p \<in> set (schema_paths s) \<longleftrightarrow> (\<exists>f\<in>set (schema_fields s). p \<in> set (leaf_paths f))"
  by (auto simp: schema_paths_def)

lemma field_log_paths: "wf_field f \<Longrightarrow> (p, e) \<in> set (field_log r rmax d kids f) \<Longrightarrow> p \<in> set (leaf_paths f)"
proof (induction f arbitrary: p e r rmax d kids rule: leaf_paths.induct)
  case (1 i name ty ts rep opt enc sch)
  show ?case
  proof (cases "ty = F_OBJECT")
    case True
    then obtain n fs where sch: "sch = Some (Schema n fs)" "\<forall>g\<in>set fs. wf_field g"
      using "1.prems"(1) by (auto split: option.splits schema.splits)
    have "q \<in> set (leaf_paths g)" if "g \<in> set fs" "(q, e) \<in> set (field_log r rmax d kids g)" for q e g r rmax d kids
      using "1.IH" [OF True sch(1) refl that(1) _ that(2)] sch(2) that(1) by simp
    then show ?thesis using "1.prems"(2) True sch(1) by (fastforce simp: Let_def split: list.splits)
  qed (use "1.prems"(2) in \<open>auto simp: Let_def split: list.splits\<close>)
qed

lemma record_log:
  assumes "wf_fields fs" and "\<forall>f\<in>set fs. fits kids f" and "f \<in> set fs" and "p \<in> set (leaf_paths f)"
  shows "entries_of p (concat (map (field_log 0 0 0 kids) fs)) = column_entries p 0 0 0 kids"
  using assms entries_of_fields [of fs f p 0 0 0 kids] entries_of_field_log [of f p 0 0 0 kids]
  by (simp add: wf_fields_def comp_def)

lemma addRecord_holds:
  assumes "wf_schema s" and "message_fits s m" and "builder_schema b = s"
    and "holds_entries lib (schema_paths s) (record_entries ms) (builder_columns b)"
  shows "\<exists>b'. addRecord lib m b = Inr b' \<and> builder_schema b' = s \<and> builder_records b' = builder_records b + 1 \<and>
    holds_entries lib (schema_paths s) (record_entries (ms @ [m])) (builder_columns b')"
proof -
  let ?fs = "schema_fields s" and ?log = "concat (map (field_log 0 0 0 (children m)) (schema_fields s))"
  have wf: "wf_fields ?fs" "distinct (map path_name (schema_paths s))" "\<forall>p\<in>set (schema_paths s). length p < 2 ^ 32"
    using assms(1) by (simp_all add: wf_schema_def)
  have fit: "msg_value m = V_Object (children m)" "\<forall>f\<in>set ?fs. fits (children m) f"
    using assms(2) by (simp_all add: message_fits_def)
  have written: "foldR (addRecordField lib 0 0 0 m []) cols ?fs = foldR (write_entry lib []) cols ?log" for cols
    unfolding foldR_concat_map using wf(1) fit by (intro foldR_same addRecordField_log) (simp_all add: wf_fields_def)
  have log: "entries_of p ?log = column_entries p 0 0 0 (children m)" if "p \<in> set (schema_paths s)" for p
    using that record_log [OF wf(1) fit(2)] by (auto simp: schema_path_field)
  have "\<forall>(p, e)\<in>set ?log. p \<in> set (schema_paths s) \<and> entry_within 0 0 p e"
  proof clarify
    fix p r d and bs :: "byte list option"
    assume e: "(p, r, d, bs) \<in> set ?log"
    then obtain f where f: "f \<in> set ?fs" "(p, r, d, bs) \<in> set (field_log 0 0 0 (children m) f)" by auto
    then have p: "p \<in> set (leaf_paths f)" using wf(1) field_log_paths by (auto simp: wf_fields_def)
    moreover have "(r, d, bs) \<in> set (entries_of p (field_log 0 0 0 (children m) f))"
      using image_eqI [of "(r, d, bs)" snd "(p, r, d, bs)"] f(2) by (simp add: entries_of_def)
    then have "(r, d, bs) \<in> set (column_entries p 0 0 0 (children m))"
      using entries_of_field_log [OF _ p, of 0 0 0 "children m"] f(1) wf(1) by (simp add: wf_fields_def)
    ultimately show "p \<in> set (schema_paths s) \<and> entry_within 0 0 p (r, d, bs)"
      using column_entries_within [of f "children m" p 0 0] wf(1) fit(2) f(1) by (auto simp: wf_fields_def schema_path_field)
  qed
  from write_log_holds [OF wf(2,3) assms(4) this] obtain cols where
    cols: "foldR (write_entry lib []) (builder_columns b) ?log = Inr cols"
      "holds_entries lib (schema_paths s) (\<lambda>p. record_entries ms p @ entries_of p ?log) cols" by blast
  then have "holds_entries lib (schema_paths s) (record_entries (ms @ [m])) cols"
    using log by (simp add: holds_entries_def record_entries_def)
  then show ?thesis using cols(1) written assms(3) by (simp add: addRecord_def)
qed

lemma builder_holds:
  assumes "wf_schema s" and "\<forall>m\<in>set ms. message_fits s m"
  shows "\<exists>b. bindR (new_builder s) (\<lambda>b. foldR (\<lambda>b m. addRecord lib m b) b ms) = Inr b \<and> builder_schema b = s \<and>
    builder_records b = of_nat (length ms) \<and> holds_entries lib (schema_paths s) (record_entries ms) (builder_columns b)"
  using assms(2)
proof (induction ms rule: rev_induct)
  case Nil
  show ?case
    using new_builder_paths [OF assms(1)] new_holds [of "schema_paths s" lib] assms(1)
    by (simp add: wf_schema_def record_entries_def)
next
  case (snoc m ms)
  then obtain b where b: "bindR (new_builder s) (\<lambda>b. foldR (\<lambda>b m. addRecord lib m b) b ms) = Inr b" "builder_schema b = s"
    "builder_records b = of_nat (length ms)" "holds_entries lib (schema_paths s) (record_entries ms) (builder_columns b)" by auto
  obtain b' where b': "addRecord lib m b = Inr b'" "builder_schema b' = s" "builder_records b' = builder_records b + 1"
    "holds_entries lib (schema_paths s) (record_entries (ms @ [m])) (builder_columns b')"
    using addRecord_holds [OF assms(1) _ b(2,4), of m] snoc.prems by auto
  have "bindR (new_builder s) (\<lambda>b. foldR (\<lambda>b m. addRecord lib m b) b (ms @ [m])) =
      bindR (bindR (new_builder s) (\<lambda>b. foldR (\<lambda>b m. addRecord lib m b) b ms)) (addRecord lib m)"
    by (simp add: foldR_append bindR_assoc)
  then show ?case using b b' by simp
qed

end
