(* ===== verification/Record_Materializer.thy ===== *)
theory Record_Materializer
  imports Message CSTable
begin

text \<open>
  Messages from columns: \<open>RecordMaterializer\<close> of src/cstable/RecordMaterializer.cc. Every column is read up to
  the next record, and each of its values is put at the place in the message that its repetition levels
  tell; objects on the way are made when they are not there.
\<close>

section \<open>State\<close>

text \<open>An object above a column: its number, whether it is a list, and the definition level from which on it is there.\<close>

type_synonym parent = "32 word \<times> bool \<times> nat"

record column_state =
  cs_reader :: column_reader
  cs_data :: "byte list"
  cs_r :: "64 word"
  cs_d :: "64 word"
  pending :: bool
  defined :: bool
  parents :: "parent list"
  cs_field_id :: "32 word"
  cs_field_type :: field_type

type_synonym column_states = "string \<rightharpoonup> column_state"

definition new_column_state :: "column_reader \<Rightarrow> parent list \<Rightarrow> 32 word \<Rightarrow> field_type \<Rightarrow> column_state" where
  "new_column_state c ps i ty =
     \<lparr>cs_reader = c, cs_data = [], cs_r = 0, cs_d = 0, pending = False, defined = False, parents = ps,
      cs_field_id = i, cs_field_type = ty\<rparr>"

text \<open>An empty set of wanted columns means all of them.\<close>

fun openColumns ::
  "cstable_reader \<Rightarrow> string set \<Rightarrow> string \<Rightarrow> nat \<Rightarrow> parent list \<Rightarrow> column_states \<Rightarrow> field \<Rightarrow> column_states result" where
  "openColumns tab wanted prefix dmax ps cols (Field i name ty ts rep opt enc sch) =
     (let colname = prefix @ name; dmax' = (if rep \<or> opt then Suc dmax else dmax) in
      if ty = F_OBJECT then
        (case sch of
           None \<Rightarrow> Inl (Undefined NullDereference)
         | Some (Schema n fs) \<Rightarrow>
             foldR (\<lambda>cols f. openColumns tab wanted (colname @ ''.'') dmax' (ps @ [(i, rep, dmax')]) cols f) cols fs)
      else if hasColumn tab colname \<and> (wanted = {} \<or> colname \<in> wanted) then
        bindR (getColumnReader tab colname) (\<lambda>c. Inr (emplace colname (new_column_state c ps i ty) cols))
      else Inr cols)"

definition new_materializer :: "cstable_reader \<Rightarrow> string set \<Rightarrow> schema \<Rightarrow> column_states result" where
  "new_materializer tab wanted s = foldR (openColumns tab wanted [] 0 []) Map.empty (schema_fields s)"

definition fetchIfNotPending :: "simdcomp \<Rightarrow> column_state \<Rightarrow> column_state result" where
  "fetchIfNotPending lib cs =
     (if pending cs then Inr cs
      else bindR (next_value lib (cs_reader cs)) (\<lambda>((r, d, bs), c).
        Inr (cs\<lparr>cs_reader := c, cs_r := r, cs_d := d, cs_data := (case bs of None \<Rightarrow> [] | Some b \<Rightarrow> b),
                defined := (bs \<noteq> None), pending := True\<rparr>)))"

definition consume :: "column_state \<Rightarrow> column_state" where
  "consume cs = cs\<lparr>pending := False\<rparr>"

section \<open>Values in a message\<close>

text \<open>
  A step into the \<open>k\<close>-th of the children with a number; missing ones are made, empty. The loops of the code
  over the children stop there.
\<close>

fun into_child :: "32 word \<Rightarrow> nat \<Rightarrow> (message \<Rightarrow> message result) \<Rightarrow> message list \<Rightarrow> message list result" where
  "into_child i k f [] = bindR (f (new_object i)) (\<lambda>m. Inr (replicate k (new_object i) @ [m]))"
| "into_child i k f (c # cs) =
     (if msg_id c = i then
        (case k of
           0 \<Rightarrow> bindR (f c) (\<lambda>c'. Inr (c' # cs))
         | Suc k' \<Rightarrow> bindR (into_child i k' f cs) (\<lambda>cs'. Inr (c # cs')))
      else bindR (into_child i k f cs) (\<lambda>cs'. Inr (c # cs')))"

text \<open>The bytes of the datum are read as the type of the field, however many there are.\<close>

definition read_data :: "nat \<Rightarrow> byte list \<Rightarrow> 64 word result" where
  "read_data n bs = (if length bs < n then Inl (Undefined ReadOutOfBounds) else Inr (le_value (take n bs)))"

definition read_value :: "field_type \<Rightarrow> byte list \<Rightarrow> message_value option result" where
  "read_value ty bs = (case ty of
      F_UINT32 \<Rightarrow> bindR (read_data 4 bs) (\<lambda>v. Inr (Some (V_UInt32 (ucast v))))
    | F_UINT64 \<Rightarrow> bindR (read_data 8 bs) (\<lambda>v. Inr (Some (V_UInt64 v)))
    | F_DATETIME \<Rightarrow> bindR (read_data 8 bs) (\<lambda>v. Inr (Some (V_DateTime v)))
    | F_STRING \<Rightarrow> Inr (Some (V_String (string_of_bytes bs)))
    | F_BOOLEAN \<Rightarrow> bindR (read_data 1 bs) (\<lambda>v. Inr (Some (V_Bool (v = 1))))
    | F_DOUBLE \<Rightarrow> bindR (read_data 8 bs) (\<lambda>v. Inr (Some (V_Double v)))
    | _ \<Rightarrow> Inr None)"

definition insert_leaf :: "32 word \<Rightarrow> field_type \<Rightarrow> byte list \<Rightarrow> message \<Rightarrow> message result" where
  "insert_leaf i ty bs m =
     bindR (read_value ty bs) (\<lambda>v. case v of None \<Rightarrow> Inr m | Some v \<Rightarrow> addChild (Message i v) m)"

fun insertValue :: "32 word \<Rightarrow> field_type \<Rightarrow> byte list \<Rightarrow> parent list \<Rightarrow> nat list \<Rightarrow> message \<Rightarrow> message result" where
  "insertValue i ty bs [] idx m = insert_leaf i ty bs m"
| "insertValue i ty bs ((pid, rep, dm) # ps) idx m =
     (if rep \<and> idx = [] then Inl (Undefined ReadOutOfBounds)
      else bindR (asObject m) (\<lambda>kids.
        bindR (into_child pid (if rep then hd idx else 0) (insertValue i ty bs ps (if rep then tl idx else idx)) kids) (\<lambda>kids'.
          Inr (Message (msg_id m) (V_Object kids')))))"

text \<open>A null makes the objects above it, down to the one that is not there.\<close>

fun insertNull :: "64 word \<Rightarrow> parent list \<Rightarrow> nat list \<Rightarrow> message \<Rightarrow> message result" where
  "insertNull d [] idx m = Inr m"
| "insertNull d ((pid, rep, dm) # ps) idx m =
     (if unat d < dm then Inr m
      else if rep \<and> idx = [] then Inl (Undefined ReadOutOfBounds)
      else bindR (asObject m) (\<lambda>kids.
        bindR (into_child pid (if rep then hd idx else 0) (insertNull d ps (if rep then tl idx else idx)) kids) (\<lambda>kids'.
          Inr (Message (msg_id m) (V_Object kids')))))"

section \<open>Records\<close>

text \<open>A level that repeats counts on, and everything below starts again.\<close>

definition next_indexes :: "64 word \<Rightarrow> nat list \<Rightarrow> nat list result" where
  "next_indexes r idx =
     (if r = 0 then Inr idx
      else if length idx < unat r then Inl (Undefined ReadOutOfBounds)
      else Inr (take (unat r - 1) idx @ [Suc (idx ! (unat r - 1))] @ replicate (length idx - unat r) 0))"

definition insert_current :: "column_state \<Rightarrow> nat list \<Rightarrow> message \<Rightarrow> message result" where
  "insert_current cs idx m =
     (if defined cs then insertValue (cs_field_id cs) (cs_field_type cs) (cs_data cs) (parents cs) idx m
      else insertNull (cs_d cs) (parents cs) idx m)"

lemma next_datum_counts: "next_datum lib c = Inr (bs, c') \<Longrightarrow> vals_total c' = vals_total c \<and> vals_read c' = vals_read c"
  by (cases "r_type c") (auto simp: next_datum_defs bindR_eq_Inr_iff)

lemma next_value_counts: "next_value lib c = Inr (e, c') \<Longrightarrow> vals_total c' = vals_total c \<and> vals_read c' = vals_read c + 1"
  by (auto simp: next_value_def bindR_eq_Inr_iff Let_def split: if_splits dest: next_datum_counts)

lemma fetch_counts:
  "fetchIfNotPending lib cs = Inr cs' \<Longrightarrow> pending cs' \<and> vals_total (cs_reader cs') = vals_total (cs_reader cs) \<and>
     vals_read (cs_reader cs') = (if pending cs then vals_read (cs_reader cs) else vals_read (cs_reader cs) + 1)"
  by (auto simp: fetchIfNotPending_def bindR_eq_Inr_iff split: if_splits dest: next_value_counts)

definition values_left :: "column_state \<Rightarrow> nat" where
  "values_left cs = (if pending cs then unat (vals_total (cs_reader cs) - vals_read (cs_reader cs)) else 2 ^ 64)"

lemma fewer_values:
  assumes "fetchIfNotPending lib cs = Inr cs1" and "\<not> eofReached (cs_reader (consume cs1))"
    and "fetchIfNotPending lib (consume cs1) = Inr cs2"
  shows "values_left cs2 < values_left cs"
proof -
  have one: "vals_total (cs_reader cs1) = vals_total (cs_reader cs)"
    "vals_read (cs_reader cs1) = (if pending cs then vals_read (cs_reader cs) else vals_read (cs_reader cs) + 1)"
    using fetch_counts [OF assms(1)] by simp_all
  have two: "pending cs2" "vals_total (cs_reader cs2) = vals_total (cs_reader cs)"
    "vals_read (cs_reader cs2) = vals_read (cs_reader cs1) + 1"
    using fetch_counts [OF assms(3)] one by (simp_all add: consume_def)
  have less: "vals_read (cs_reader cs1) < vals_total (cs_reader cs)"
    using assms(2) one by (simp add: eofReached_def consume_def)
  then have "unat (vals_total (cs_reader cs) - (vals_read (cs_reader cs1) + 1)) < unat (vals_total (cs_reader cs) - vals_read (cs_reader cs1))"
    by unat_arith
  moreover have "unat (x :: 64 word) < 2 ^ 64" for x using unsigned_less [of x] by simp
  ultimately show ?thesis using one two by (auto simp: values_left_def)
qed

function load_entries :: "simdcomp \<Rightarrow> column_state \<Rightarrow> nat list \<Rightarrow> message \<Rightarrow> (column_state \<times> message) result" where
  "load_entries lib cs idx m =
     bindR (fetchIfNotPending lib cs) (\<lambda>cs.
     bindR (next_indexes (cs_r cs) idx) (\<lambda>idx.
     bindR (insert_current cs idx m) (\<lambda>m.
       let cs = consume cs in
       if eofReached (cs_reader cs) then Inr (cs, m)
       else bindR (fetchIfNotPending lib cs) (\<lambda>cs.
         if cs_r cs = 0 then Inr (cs, m) else load_entries lib cs idx m))))"
  by pat_completeness auto
termination by (relation "measure (\<lambda>(lib, cs, idx, m). values_left cs)") (auto dest: fewer_values)

declare load_entries.simps [simp del]

definition loadColumn :: "simdcomp \<Rightarrow> column_state \<Rightarrow> message \<Rightarrow> (column_state \<times> message) result" where
  "loadColumn lib cs m = load_entries lib cs (replicate (unat (r_max (cs_reader cs))) 0) m"

text \<open>\<open>order\<close> is the order in which the hash map hands out the columns.\<close>

definition nextRecord :: "simdcomp \<Rightarrow> string list \<Rightarrow> column_states \<Rightarrow> message \<Rightarrow> (column_states \<times> message) result" where
  "nextRecord lib order cols m =
     foldR (\<lambda>(cols, m) name.
       bindR (deref (cols name)) (\<lambda>cs. bindR (loadColumn lib cs m) (\<lambda>(cs', m'). Inr (cols(name \<mapsto> cs'), m')))) (cols, m) order"

function skip_entries :: "simdcomp \<Rightarrow> column_state \<Rightarrow> column_state result" where
  "skip_entries lib cs =
     bindR (fetchIfNotPending lib cs) (\<lambda>cs.
       let cs = consume cs in
       if eofReached (cs_reader cs) then Inr cs
       else bindR (fetchIfNotPending lib cs) (\<lambda>cs. if cs_r cs = 0 then Inr cs else skip_entries lib cs))"
  by pat_completeness auto
termination by (relation "measure (\<lambda>(lib, cs). values_left cs)") (auto dest: fewer_values)

declare skip_entries.simps [simp del]

definition skipRecord :: "simdcomp \<Rightarrow> string list \<Rightarrow> column_states \<Rightarrow> column_states result" where
  "skipRecord lib order cols =
     foldR (\<lambda>cols name. bindR (deref (cols name)) (\<lambda>cs. bindR (skip_entries lib cs) (\<lambda>cs'. Inr (cols(name \<mapsto> cs'))))) cols order"

end
