(* ===== verification/Record_Assembly.thy ===== *)
theory Record_Assembly
  imports Record_Shredding Record_Materializer
begin

text \<open>
  What the materializer makes of the entries of a column: the repetition levels give each value the
  positions of the objects above it, and putting all values of a column at their positions adds the column
  to the message.
\<close>

section \<open>Positions\<close>

text \<open>The entries of a column with the positions in the lists above them.\<close>

type_synonym placed = "nat list \<times> nat \<times> byte list option"

fun placed_entries :: "field list \<Rightarrow> nat \<Rightarrow> message list \<Rightarrow> placed list" where
  "placed_entries [] d kids = []"
| "placed_entries (f # p) d kids =
     (let d' = deeper (nullable f) d;
          one = (\<lambda>(k, c). map (\<lambda>(idx, x). (if repeated f then k # idx else idx, x))
            (if p = [] then [([], d', Some (leaf_bytes (field_type f) c))] else placed_entries p d' (children c))) in
      case found (field_id f) kids of
        [] \<Rightarrow> [(replicate (path_r (f # p)) 0, d, None)]
      | cs \<Rightarrow> concat (map one (enumerate 0 cs)))"

definition step_index :: "nat \<Rightarrow> nat list \<Rightarrow> nat list" where
  "step_index r v = (if r = 0 then v else take (r - 1) v @ [Suc (v ! (r - 1))] @ replicate (length v - r) 0)"

fun place :: "nat list \<Rightarrow> entry list \<Rightarrow> placed list" where
  "place v [] = []"
| "place v ((r, x) # es) = (let v' = step_index r v in (v', x) # place v' es)"

fun last_index :: "nat list \<Rightarrow> entry list \<Rightarrow> nat list" where
  "last_index v [] = v"
| "last_index v ((r, x) # es) = last_index (step_index r v) es"

lemma place_append: "place v (es @ es') = place v es @ place (last_index v es) es'"
  by (induction v es rule: place.induct) (simp_all add: Let_def)

lemma last_index_append: "last_index v (es @ es') = last_index (last_index v es) es'"
  by (induction v es rule: place.induct) simp_all

lemma next_indexes_step: "r \<le> length v \<Longrightarrow> r < 2 ^ 64 \<Longrightarrow> next_indexes (of_nat r) v = Inr (step_index r v)"
  by (auto simp: next_indexes_def step_index_def unat_of_nat word_unat_eq_iff)

text \<open>After a step at the level below \<open>pre\<close> everything deeper starts at 0.\<close>

lemma step_index_below:
  "step_index (Suc (length pre)) (pre @ k # v) = pre @ Suc k # replicate (length v) 0"
  by (simp add: step_index_def)

lemma place_column:
  "p \<in> set (leaf_paths f) \<Longrightarrow> fits kids f \<Longrightarrow> step_index r v = pre @ replicate (path_r p) 0 \<Longrightarrow> length pre = rmax \<Longrightarrow>
     place v (column_entries p r rmax d kids) = map (\<lambda>(idx, x). (pre @ idx, x)) (placed_entries p d kids) \<and>
     (\<exists>w. last_index v (column_entries p r rmax d kids) = pre @ w \<and> length w = path_r p)"
proof (induction p arbitrary: f r rmax d kids v pre)
  case Nil
  then show ?case using leaf_paths_nonempty by blast
next
  case (Cons h q)
  obtain i name ty ts rep opt enc sch where f: "f = h" "h = Field i name ty ts rep opt enc sch"
    using leaf_paths_nonempty [OF Cons.prems(1)] by (metis field.exhaust list.sel(1))
  let ?d = "deeper (nullable h) d" and ?rm = "deeper rep rmax"
  obtain ent where ent: "ent = (\<lambda>r c. if q = [] then [(r, ?d, Some (leaf_bytes ty c))]
        else column_entries q r ?rm ?d (children c))" by simp
  obtain sub where sub: "sub = (\<lambda>c. if q = [] then [([], ?d, Some (leaf_bytes ty c))] else placed_entries q ?d (children c))" by simp
  show ?case
  proof (cases "found i kids")
    case Nil
    then show ?thesis using Cons.prems(3) f by (simp add: Let_def)
  next
    case (Cons c0 cs0)
    have one: "place v (ent r c) = map (\<lambda>(idx, x). (pre' @ idx, x)) (sub c) \<and>
        (\<exists>w. last_index v (ent r c) = pre' @ w \<and> length w = path_r q)"
      if "c \<in> set (found i kids)" "step_index r v = pre' @ replicate (path_r q) 0" "length pre' = ?rm" for c r v pre'
    proof (cases "q = []")
      case True
      then show ?thesis using that(2) by (simp add: ent sub)
    next
      case False
      then have obj: "ty = F_OBJECT" using Cons.prems(1) f by (auto split: if_splits)
      then obtain n fs g where g: "sch = Some (Schema n fs)" "g \<in> set fs" "q \<in> set (leaf_paths g)"
        using Cons.prems(1) f by (auto split: option.splits schema.splits)
      then have "fits (children c) g" using Cons.prems(2) that(1) f obj by auto
      then show ?thesis using Cons.IH [OF g(3) _ that(2,3)] False by (simp add: ent sub)
    qed
    have entries: "column_entries (h # q) r rmax d kids = ent r c0 @ concat (map (ent ?rm) cs0)"
      using f Cons by (cases "q = []") (simp_all add: Let_def ent)
    have placed: "placed_entries (h # q) d kids =
        concat (map (\<lambda>(k, c). map (\<lambda>(idx, x). (if rep then k # idx else idx, x)) (sub c)) (enumerate 0 (c0 # cs0)))"
      using f Cons by (cases "q = []") (simp_all add: Let_def sub)
    show ?thesis
    proof (cases rep)
      case False
      then have "cs0 = []" using Cons.prems(2) f Cons by (cases cs0) auto
      then show ?thesis
        using one [of c0 r v pre] Cons.prems(3,4) Cons False f entries placed by (simp add: deeper_def)
    next
      case True
      have rest: "place w (concat (map (ent ?rm) cs)) =
            map (\<lambda>(idx, x). (pre @ idx, x)) (concat (map (\<lambda>(k, c). map (\<lambda>(idx, x). (k # idx, x)) (sub c)) (enumerate (Suc k) cs))) \<and>
          (\<exists>w'. last_index w (concat (map (ent ?rm) cs)) = pre @ w' \<and> length w' = Suc (path_r q))"
        if "set cs \<subseteq> set (found i kids)" "w = pre @ k # u" "length u = path_r q" for cs w k u
        using that
      proof (induction cs arbitrary: w k u)
        case (Cons c cs)
        have "step_index ?rm w = (pre @ [Suc k]) @ replicate (path_r q) 0"
          using step_index_below [of pre k u] Cons.prems True \<open>length pre = rmax\<close> by (simp add: deeper_def)
        then obtain u' where first: "place w (ent ?rm c) = map (\<lambda>(idx, x). ((pre @ [Suc k]) @ idx, x)) (sub c)"
          "last_index w (ent ?rm c) = pre @ Suc k # u'" "length u' = path_r q"
          using one [of c ?rm w "pre @ [Suc k]"] Cons.prems(1) True \<open>length pre = rmax\<close> by (auto simp: deeper_def)
        show ?case
          using Cons.IH [of "pre @ Suc k # u'" "Suc k" u'] Cons.prems(1) first
          by (simp add: place_append last_index_append case_prod_unfold comp_def)
      qed simp
      have "step_index r v = (pre @ [0]) @ replicate (path_r q) 0"
        using Cons.prems(3) f True by (simp add: deeper_def)
      then obtain u where first: "place v (ent r c0) = map (\<lambda>(idx, x). ((pre @ [0]) @ idx, x)) (sub c0)"
        "last_index v (ent r c0) = pre @ 0 # u" "length u = path_r q"
        using one [of c0 r v "pre @ [0]"] Cons True \<open>length pre = rmax\<close> by (auto simp: deeper_def)
      have tail: "set cs0 \<subseteq> set (found i kids)" using Cons by auto
      show ?thesis
        using rest [OF tail refl first(3), of 0] first Cons True f entries placed
        by (simp add: place_append last_index_append case_prod_unfold comp_def deeper_def)
    qed
  qed
qed

section \<open>Children\<close>

lemma found_simps [simp]: "found i [] = []" "found i (c # cs) = (if msg_id c = i then c # found i cs else found i cs)"
  "found i (cs @ ds) = found i cs @ found i ds"
  by (simp_all add: found_def)

lemma found_new [simp]: "found i (replicate k (new_object i)) = replicate k (new_object i)"
  "i \<noteq> j \<Longrightarrow> found j (replicate k (new_object i)) = []"
  by (simp_all add: found_def new_object_def)

text \<open>What a step into a child does to the children with its number, and that it leaves the others alone.\<close>

lemma into_child_found:
  assumes "k \<le> length (found i kids)" and "f (if k < length (found i kids) then found i kids ! k else new_object i) = Inr x"
    and "msg_id x = i"
  shows "\<exists>kids'. into_child i k f kids = Inr kids' \<and> found i kids' = take k (found i kids) @ x # drop (Suc k) (found i kids) \<and>
    (\<forall>j. j \<noteq> i \<longrightarrow> found j kids' = found j kids)"
  using assms
proof (induction kids arbitrary: k)
  case (Cons c cs)
  show ?case
  proof (cases "msg_id c = i")
    case True
    show ?thesis
    proof (cases k)
      case 0
      then show ?thesis using Cons.prems True by auto
    next
      case (Suc k')
      have "f (if k' < length (found i cs) then found i cs ! k' else new_object i) = Inr x"
        using Cons.prems(2) Suc True by (simp split: if_splits)
      then obtain cs' where "into_child i k' f cs = Inr cs'" "found i cs' = take k' (found i cs) @ x # drop (Suc k') (found i cs)"
        "\<forall>j. j \<noteq> i \<longrightarrow> found j cs' = found j cs"
        using Cons.IH [of k'] Cons.prems Suc True by auto
      then show ?thesis using Suc True by simp
    qed
  next
    case False
    then have same: "found i (c # cs) = found i cs" by simp
    obtain cs' where "into_child i k f cs = Inr cs'" "found i cs' = take k (found i cs) @ x # drop (Suc k) (found i cs)"
      "\<forall>j. j \<noteq> i \<longrightarrow> found j cs' = found j cs"
      using Cons.IH [of k] Cons.prems unfolding same by blast
    then show ?thesis using False by auto
  qed
qed simp

text \<open>Two steps into the same child are one.\<close>

lemma into_child_made: "msg_id m = i \<Longrightarrow>
    into_child i k g (replicate k (new_object i) @ [m]) = bindR (g m) (\<lambda>m'. Inr (replicate k (new_object i) @ [m']))"
  by (induction k) (auto simp: new_object_def bindR_assoc)

lemma into_child_twice:
  assumes "\<And>c c'. msg_id c = i \<Longrightarrow> f c = Inr c' \<Longrightarrow> msg_id c' = i"
  shows "bindR (into_child i k f kids) (into_child i k g) = into_child i k (\<lambda>c. bindR (f c) g) kids"
proof (induction kids arbitrary: k)
  case Nil
  show ?case
    using assms [of "new_object i"] into_child_made [of _ i k g]
    by (cases "f (new_object i)") (auto simp: new_object_def)
next
  case (Cons c cs)
  have later: "bindR (bindR (into_child i k f cs) (\<lambda>cs'. Inr (c # cs'))) (\<lambda>cs. bindR (into_child i k g (tl cs)) (\<lambda>cs'. Inr (c # cs'))) =
      bindR (into_child i k (\<lambda>c. bindR (f c) g) cs) (\<lambda>cs'. Inr (c # cs'))" for k
    using Cons.IH [of k] by (simp add: bindR_assoc) (metis bindR_assoc)
  show ?case
  proof (cases "msg_id c = i")
    case True
    show ?thesis
    proof (cases k)
      case 0
      then show ?thesis using True assms [of c] by (cases "f c") auto
    next
      case (Suc k')
      then show ?thesis using True later [of k'] by (simp add: bindR_assoc)
    qed
  next
    case False
    then show ?thesis using later [of k] by (simp add: bindR_assoc)
  qed
qed

section \<open>Entries put into a message\<close>

fun path_parents :: "nat \<Rightarrow> field list \<Rightarrow> parent list" where
  "path_parents d [] = []"
| "path_parents d (f # p) =
     (let d' = deeper (nullable f) d in if p = [] then [] else (field_id f, repeated f, d') # path_parents d' p)"

text \<open>A value as the column of the field gives it back.\<close>

definition stored_value :: "field \<Rightarrow> byte list \<Rightarrow> byte list" where
  "stored_value f = stored (the (column_for (field_type f) (type_size f) (encoding f)))"

definition put_entry :: "field \<Rightarrow> parent list \<Rightarrow> placed \<Rightarrow> message \<Rightarrow> message result" where
  "put_entry f ps x m = (case x of (idx, d, b) \<Rightarrow> (case b of
      Some bs \<Rightarrow> insertValue (field_id f) (field_type f) (stored_value f bs) ps idx m
    | None \<Rightarrow> insertNull (of_nat d) ps idx m))"

definition put_all :: "field \<Rightarrow> parent list \<Rightarrow> placed list \<Rightarrow> message \<Rightarrow> message result" where
  "put_all f ps xs m = foldR (\<lambda>m x. put_entry f ps x m) m xs"

lemma put_all_simps [simp]:
  "put_all f ps [] = Inr" "put_all f ps (x # xs) m = bindR (put_entry f ps x m) (put_all f ps xs)"
  "put_all f ps (xs @ ys) m = bindR (put_all f ps xs m) (put_all f ps ys)"
  by (simp_all add: put_all_def [abs_def] foldR_append)

lemma insertValue_id: "insertValue i ty bs ps idx m = Inr m' \<Longrightarrow> msg_id m' = msg_id m"
  by (cases ps) (auto simp: insert_leaf_def addChild_def bindR_eq_Inr_iff split: if_splits option.splits)

lemma insertNull_id: "insertNull d ps idx m = Inr m' \<Longrightarrow> msg_id m' = msg_id m"
  by (cases ps) (auto simp: bindR_eq_Inr_iff split: if_splits)

lemma put_entry_id: "put_entry f ps x m = Inr m' \<Longrightarrow> msg_id m' = msg_id m"
  by (auto simp: put_entry_def insertValue_id insertNull_id split: prod.splits option.splits)

lemma put_all_id: "put_all f ps xs m = Inr m' \<Longrightarrow> msg_id m' = msg_id m"
proof (induction xs arbitrary: m)
  case (Cons x xs)
  then obtain m1 where "put_entry f ps x m = Inr m1" "put_all f ps xs m1 = Inr m'" by (auto simp: bindR_eq_Inr_iff)
  then show ?case using Cons.IH [of m1] put_entry_id [of f ps x m m1] by simp
qed simp

text \<open>Entries below one object are put into that object.\<close>

definition below :: "bool \<Rightarrow> nat \<Rightarrow> placed \<Rightarrow> placed" where
  "below rep k x = (case x of (idx, y) \<Rightarrow> (if rep then k # idx else idx, y))"

lemma put_one_below:
  assumes "dm \<le> fst (snd x)" and "fst (snd x) < 2 ^ 64" and "rep \<or> k = 0"
  shows "put_entry f ((i, rep, dm) # ps) (below rep k x) (Message j (V_Object kids)) =
    bindR (into_child i k (put_entry f ps x) kids) (\<lambda>kids'. Inr (Message j (V_Object kids')))"
proof -
  obtain idx d b where x: "x = (idx, d, b)" by (cases x)
  have "unat (of_nat d :: 64 word) = d" using assms(2) x by (simp add: unat_of_nat)
  moreover have "put_entry f ps x = (\<lambda>m. case b of
      Some bs \<Rightarrow> insertValue (field_id f) (field_type f) (stored_value f bs) ps idx m | None \<Rightarrow> insertNull (of_nat d) ps idx m)"
    by (rule ext) (simp add: put_entry_def x)
  ultimately show ?thesis
    using assms(1,3) x by (cases b; cases rep) (auto simp: put_entry_def below_def)
qed

lemma put_below:
  "xs \<noteq> [] \<Longrightarrow> \<forall>x\<in>set xs. dm \<le> fst (snd x) \<and> fst (snd x) < 2 ^ 64 \<Longrightarrow> rep \<or> k = 0 \<Longrightarrow>
   put_all f ((i, rep, dm) # ps) (map (below rep k) xs) (Message j (V_Object kids)) =
     bindR (into_child i k (put_all f ps xs) kids) (\<lambda>kids'. Inr (Message j (V_Object kids')))"
proof (induction xs arbitrary: kids)
  case (Cons x xs)
  have first: "put_entry f ((i, rep, dm) # ps) (below rep k x) (Message j (V_Object kids)) =
      bindR (into_child i k (put_entry f ps x) kids) (\<lambda>kids'. Inr (Message j (V_Object kids')))"
    using put_one_below Cons.prems by simp
  show ?case
  proof (cases "xs = []")
    case True
    have "put_all f ps [x] = put_entry f ps x" by (rule ext) simp
    then show ?thesis using True first by simp
  next
    case False
    have "into_child i k (\<lambda>m. bindR (put_entry f ps x m) (put_all f ps xs)) kids =
        bindR (into_child i k (put_entry f ps x) kids) (into_child i k (put_all f ps xs))"
      using into_child_twice [of i "put_entry f ps x" k kids "put_all f ps xs"] put_entry_id by simp
    moreover have "put_all f ((i, rep, dm) # ps) (map (below rep k) xs) (Message j (V_Object kids')) =
        bindR (into_child i k (put_all f ps xs) kids') (\<lambda>kids'. Inr (Message j (V_Object kids')))" for kids'
      using Cons.IH [OF False] Cons.prems by simp
    ultimately show ?thesis using first by (simp add: bindR_assoc)
  qed
qed simp

section \<open>What a set of columns leaves of a message\<close>

text \<open>
  \<open>proj C kids kids'\<close>: as far as a field goes, \<open>kids'\<close> are \<open>kids\<close> with only the columns in \<open>C\<close>. Objects are all
  there as soon as one column below them is.
\<close>

fun proj :: "field list set \<Rightarrow> message list \<Rightarrow> message list \<Rightarrow> field \<Rightarrow> bool" where
  "proj C kids kids' (Field i name ty ts rep opt enc sch) =
     (let f = Field i name ty ts rep opt enc sch in
      if ty = F_OBJECT then
        (case sch of
           None \<Rightarrow> found i kids' = []
         | Some (Schema n fs) \<Rightarrow>
             if \<forall>p\<in>set (leaf_paths f). p \<notin> C then found i kids' = []
             else list_all2 (\<lambda>c c'. msg_value c' = V_Object (children c') \<and>
                (\<forall>g\<in>set fs. proj {q. f # q \<in> C} (children c) (children c') g)) (found i kids) (found i kids'))
      else found i kids' = (if [f] \<in> C then found i kids else []))"

lemma proj_none: "\<forall>p\<in>set (leaf_paths f). p \<notin> C \<Longrightarrow> found (field_id f) kids' = [] \<Longrightarrow> proj C kids kids' f"
  by (cases f) (auto simp: Let_def split: option.splits schema.splits)

lemma proj_found: "found (field_id f) ks = found (field_id f) ks' \<Longrightarrow> proj C kids ks f = proj C kids ks' f"
  by (cases f) (auto simp: Let_def split: option.splits schema.splits)

lemma proj_cong: "\<forall>p\<in>set (leaf_paths f). p \<in> C \<longleftrightarrow> p \<in> D \<Longrightarrow> proj C kids kids' f = proj D kids kids' f"
proof (induction f arbitrary: C D kids kids' rule: leaf_paths.induct)
  case (1 i name ty ts rep opt enc sch)
  let ?f = "Field i name ty ts rep opt enc sch"
  show ?case
  proof (cases "ty = F_OBJECT \<and> sch \<noteq> None")
    case True
    then obtain n fs where sch: "sch = Some (Schema n fs)" by (metis not_None_eq schema.exhaust)
    have none: "(\<forall>p\<in>set (leaf_paths ?f). p \<notin> C) = (\<forall>p\<in>set (leaf_paths ?f). p \<notin> D)" using "1.prems" by blast
    have "proj {q. ?f # q \<in> C} ks ks' g = proj {q. ?f # q \<in> D} ks ks' g" if "g \<in> set fs" for g ks ks'
      using "1.IH" [OF _ sch refl that] True "1.prems" sch that by auto
    then show ?thesis using True sch none by (simp only: proj.simps Let_def option.case schema.case simp_thms if_True) simp
  qed (use "1.prems" in auto)
qed

section \<open>Putting a column in\<close>

lemma found_ids: "c \<in> set (found i kids) \<Longrightarrow> msg_id c = i"
  by (simp add: found_def)

lemma children_object [simp]: "children (Message i (V_Object ks)) = ks" "children (new_object i) = []"
  by (simp_all add: children_def new_object_def)

lemma put_children:
  assumes "\<And>c c'. c \<in> set cs \<Longrightarrow> msg_id c' = i \<Longrightarrow> old c c' \<Longrightarrow> \<exists>x. F c c' = Inr x \<and> msg_id x = i \<and> R c x"
    and "ys = [] \<and> (\<forall>c\<in>set cs. old c (new_object i)) \<or> list_all2 old cs ys"
    and "found i kids = xs @ ys" and "length xs = k"
  shows "\<exists>kids' zs. foldR (\<lambda>kids (k, c). into_child i k (F c) kids) kids (enumerate k cs) = Inr kids' \<and>
    found i kids' = xs @ zs \<and> list_all2 R cs zs \<and> (\<forall>j. j \<noteq> i \<longrightarrow> found j kids' = found j kids)"
  using assms
proof (induction cs arbitrary: kids xs ys k)
  case (Cons c cs)
  obtain cur ys' where cur: "cur = (if ys = [] then new_object i else hd ys)" "ys' = tl ys" by simp
  have old: "old c cur" "msg_id cur = i" "ys' = [] \<and> (\<forall>c\<in>set cs. old c (new_object i)) \<or> list_all2 old cs ys'"
  proof -
    have ids: "\<forall>y\<in>set (xs @ ys). msg_id y = i" using Cons.prems(3) by (metis found_ids)
    show "old c cur" "msg_id cur = i" "ys' = [] \<and> (\<forall>c\<in>set cs. old c (new_object i)) \<or> list_all2 old cs ys'"
      using Cons.prems(2) ids cur by (cases ys; auto simp: new_object_def)+
  qed
  obtain x where x: "F c cur = Inr x" "msg_id x = i" "R c x" using Cons.prems(1) [of c cur] old(1,2) by auto
  have here: "(if k < length (found i kids) then found i kids ! k else new_object i) = cur"
    using Cons.prems(3,4) cur(1) by (cases ys) (auto simp: nth_append)
  obtain kids1 where kids1: "into_child i k (F c) kids = Inr kids1" "found i kids1 = (xs @ [x]) @ ys'"
    "\<forall>j. j \<noteq> i \<longrightarrow> found j kids1 = found j kids"
    using into_child_found [of k i kids "F c" x] Cons.prems(3,4) x(1,2) here cur(2) by (cases ys) auto
  obtain kids' zs where "foldR (\<lambda>kids (k, c). into_child i k (F c) kids) kids1 (enumerate (Suc k) cs) = Inr kids'"
    "found i kids' = (xs @ [x]) @ zs" "list_all2 R cs zs" "\<forall>j. j \<noteq> i \<longrightarrow> found j kids' = found j kids1"
    using Cons.IH [OF Cons.prems(1) old(3) kids1(2)] Cons.prems(4) by fastforce
  then show ?case using kids1 x(3) by (intro exI [of _ kids'] exI [of _ "x # zs"]) simp
qed simp

lemma leaf_read:
  assumes "leaf_ok ty ts enc v" and "ty = F_UINT64 \<longrightarrow> enc \<noteq> H_BITPACK"
  shows "read_value ty (stored (the (column_for ty ts enc)) (leaf_bytes ty (Message i v))) = Inr (Some v)"
proof -
  have word: "ucast (le_value (appendUInt32 w)) = w" "length (appendUInt32 w) = 4" for w
    by (simp_all add: appendUInt32_def ucast_le_value)
  have long: "le_value (appendUInt64 w) = w" "length (appendUInt64 w) = 8" "le_value (le_bytes 8 w) = w" "length (le_bytes 8 w) = 8" for w
    by (simp_all add: appendUInt64_def le_value_bytes)
  show ?thesis
    using assms word long
    by (cases "(ty, ts, enc, v)" rule: leaf_ok.cases)
       (auto simp: leaf_bytes_def field_bytes_def column_for_def read_value_def read_data_def)
qed

lemma put_leaves:
  assumes "\<forall>c\<in>set cs. leaf_ok ty ts enc (msg_value c) \<and> msg_id c = i" and "ty = F_UINT64 \<longrightarrow> enc \<noteq> H_BITPACK"
    and "f = Field i name ty ts rep opt enc sch"
  shows "put_all f [] (concat (map (\<lambda>(k, c). map (below rep k) [([], d, Some (leaf_bytes ty c))]) (enumerate k cs))) (Message j (V_Object kids)) =
    Inr (Message j (V_Object (kids @ cs)))"
  using assms(1)
proof (induction cs arbitrary: k kids)
  case (Cons c cs)
  have "c = Message i (msg_value c)" using Cons.prems by (cases c) simp
  then have "put_entry f [] (below rep k ([], d, Some (leaf_bytes ty c))) (Message j (V_Object kids)) = Inr (Message j (V_Object (kids @ [c])))"
    using leaf_read [of ty ts enc "msg_value c" i] Cons.prems assms(2,3)
    by (auto simp: put_entry_def below_def insert_leaf_def addChild_def stored_value_def)
  then show ?case using Cons by simp
qed simp

lemma placed_nonempty: "p \<noteq> [] \<Longrightarrow> p \<in> set (leaf_paths f) \<Longrightarrow> placed_entries p d kids \<noteq> []"
proof (induction p arbitrary: f d kids)
  case (Cons h q)
  have "placed_entries q d kids \<noteq> []" if "q \<noteq> []" for d kids
  proof -
    obtain g where "q \<in> set (leaf_paths g)"
      using Cons.prems(2) \<open>q \<noteq> []\<close> by (cases f) (fastforce split: if_splits option.splits schema.splits)
    then show ?thesis using Cons.IH \<open>q \<noteq> []\<close> by blast
  qed
  then show ?case by (cases "found (field_id h) kids") (auto simp: Let_def)
qed simp

lemma placed_levels: "x \<in> set (placed_entries p d kids) \<Longrightarrow> d \<le> fst (snd x) \<and> fst (snd x) \<le> d + length p"
proof (induction p arbitrary: x d kids)
  case (Cons h q)
  show ?case
  proof (cases "found (field_id h) kids")
    case Nil
    then show ?thesis using Cons.prems by auto
  next
    case (Cons c cs)
    obtain y c' where y: "snd x = snd y" "y \<in> set (if q = [] then [([], deeper (nullable h) d, Some (leaf_bytes (field_type h) c'))]
        else placed_entries q (deeper (nullable h) d) (children c'))"
      using Cons.prems Cons by (cases "q = []") (fastforce simp: Let_def split: if_splits)+
    then show ?thesis using Cons.IH [of y "deeper (nullable h) d" "children c'"] by (auto simp: deeper_def split: if_splits)
  qed
qed simp

lemma below_eq: "below rep k = (\<lambda>(idx, y). (if rep then k # idx else idx, y))"
  by (rule ext) (simp add: below_def split: prod.splits)

text \<open>The column of a field that is not an object.\<close>

lemma put_leaf_column:
  assumes "f = Field i name ty ts rep opt enc sch" and "ty \<noteq> F_OBJECT" and "wf_field f" and "fits kids f"
    and "[f] \<notin> C" and "proj C kids kids' f"
  shows "\<exists>kids2. put_all f [] (placed_entries [f] d kids) (Message j (V_Object kids')) = Inr (Message j (V_Object kids2)) \<and>
     proj (insert [f] C) kids kids2 f \<and> (\<forall>k. k \<noteq> i \<longrightarrow> found k kids2 = found k kids')"
proof -
  let ?cs = "found i kids"
  have found: "found i kids' = []" using assms(1,2,5,6) by simp
  show ?thesis
  proof (cases ?cs)
    case Nil
    then show ?thesis using assms(1,2) found by (intro exI [of _ kids']) (simp add: put_entry_def)
  next
    case (Cons c cs)
    have "\<forall>c\<in>set ?cs. leaf_ok ty ts enc (msg_value c) \<and> msg_id c = i"
      using assms(1,2,4) by (auto simp: found_def)
    moreover have "ty = F_UINT64 \<longrightarrow> enc \<noteq> H_BITPACK" using assms(1-3) by simp
    ultimately have "put_all f [] (concat (map (\<lambda>(k, c). map (below rep k) [([], deeper (nullable f) d, Some (leaf_bytes ty c))]) (enumerate 0 ?cs)))
        (Message j (V_Object kids')) = Inr (Message j (V_Object (kids' @ ?cs)))"
      using assms(1) by (rule put_leaves)
    moreover have "placed_entries [f] d kids =
        concat (map (\<lambda>(k, c). map (below rep k) [([], deeper (nullable f) d, Some (leaf_bytes ty c))]) (enumerate 0 ?cs))"
      using Cons assms(1) by (simp add: Let_def below_eq)
    moreover have "found k ?cs = (if k = i then ?cs else [])" for k
      by (auto simp: found_def filter_empty_conv)
    ultimately show ?thesis
      using assms(1,2) found by (intro exI [of _ "kids' @ ?cs"]) simp
  qed
qed

text \<open>The batches of entries of the objects of a field go into its children one after the other.\<close>

lemma put_batches:
  assumes "\<forall>(k, c)\<in>set xs. (rep \<or> k = 0) \<and> E c \<noteq> [] \<and> (\<forall>x\<in>set (E c). dm \<le> fst (snd x) \<and> fst (snd x) < 2 ^ 64)"
  shows "put_all f ((i, rep, dm) # ps) (concat (map (\<lambda>(k, c). map (below rep k) (E c)) xs)) (Message j (V_Object ks)) =
    bindR (foldR (\<lambda>kids (k, c). into_child i k (put_all f ps (E c)) kids) ks xs) (\<lambda>kids'. Inr (Message j (V_Object kids')))"
  using assms
proof (induction xs arbitrary: ks)
  case (Cons x xs)
  obtain k c where x: "x = (k, c)" by (cases x)
  then show ?case
    using Cons put_below [of "E c" dm rep k f i ps j ks] by (cases "into_child i k (put_all f ps (E c)) ks") auto
qed simp

text \<open>A column below one field leaves what the other fields of the object have.\<close>

lemma proj_others:
  assumes "distinct (map field_id fs)" and "g \<in> set fs" and "q \<in> set (leaf_paths g)"
    and "\<forall>h\<in>set fs. proj D kids kids' h" and "proj (insert q D) kids ks g"
    and "\<forall>k. k \<noteq> field_id g \<longrightarrow> found k ks = found k kids'"
  shows "\<forall>h\<in>set fs. proj (insert q D) kids ks h"
proof
  fix h assume h: "h \<in> set fs"
  show "proj (insert q D) kids ks h"
  proof (cases "h = g")
    case False
    then have "field_id h \<noteq> field_id g" using h assms(1,2) by (auto simp: distinct_map inj_on_def)
    then have "found (field_id h) ks = found (field_id h) kids'" using assms(6) by blast
    then have "proj D kids ks h" using assms(4) h proj_found [of h ks kids' D kids] by blast
    moreover have "q \<notin> set (leaf_paths h)" using leaf_paths_nonempty assms(3) False by blast
    then have "\<forall>r\<in>set (leaf_paths h). r \<in> D \<longleftrightarrow> r \<in> insert q D" by blast
    ultimately show ?thesis using proj_cong [of h D "insert q D" kids ks] by blast
  qed (use assms(5) in blast)
qed

lemma put_column:
  "wf_field f \<Longrightarrow> fits kids f \<Longrightarrow> p \<in> set (leaf_paths f) \<Longrightarrow> p \<notin> C \<Longrightarrow> proj C kids kids' f \<Longrightarrow> d + length p < 2 ^ 64 \<Longrightarrow>
   \<exists>kids2. put_all (last p) (path_parents d p) (placed_entries p d kids) (Message j (V_Object kids')) = Inr (Message j (V_Object kids2)) \<and>
     proj (insert p C) kids kids2 f \<and> (\<forall>i. i \<noteq> field_id f \<longrightarrow> found i kids2 = found i kids')"
proof (induction f arbitrary: p C kids kids' d j rule: leaf_paths.induct)
  case (1 i name ty ts rep opt enc sch)
  let ?f = "Field i name ty ts rep opt enc sch" and ?cs = "found i kids"
  obtain q where p: "p = ?f # q" using leaf_paths_nonempty [OF "1.prems"(3)] by (cases p) auto
  let ?d = "deeper (nullable ?f) d"
  show ?case
  proof (cases "ty = F_OBJECT")
    case False
    then have "p = [?f]" using "1.prems"(3) p by simp
    then show ?thesis using put_leaf_column [OF refl False "1.prems"(1,2) _ "1.prems"(5), of d j] "1.prems"(4) by simp
  next
    case True
    then obtain n fs where sch: "sch = Some (Schema n fs)" "distinct (map field_id fs)" "\<forall>g\<in>set fs. wf_field g"
      using "1.prems"(1) by (auto split: option.splits schema.splits)
    obtain g where g: "g \<in> set fs" "q \<in> set (leaf_paths g)" using "1.prems"(3) True sch(1) p by auto
    have q: "q \<noteq> []" using leaf_paths_nonempty [OF g(2)] by simp
    let ?D = "{r. ?f # r \<in> C}"
    let ?old = "\<lambda>c c'. msg_value c' = V_Object (children c') \<and> (\<forall>h\<in>set fs. proj ?D (children c) (children c') h)"
    let ?new = "\<lambda>c c'. msg_value c' = V_Object (children c') \<and> (\<forall>h\<in>set fs. proj (insert q ?D) (children c) (children c') h)"
    have "{r. ?f # r \<in> insert p C} = insert q ?D" using p by auto
    then have goal: "proj (insert p C) kids ks ?f \<longleftrightarrow> list_all2 ?new ?cs (found i ks)" for ks
      using True sch(1) "1.prems"(3) by (auto simp: Let_def)
    have ys: "found i kids' = [] \<and> (\<forall>c\<in>set ?cs. ?old c (new_object i)) \<or> list_all2 ?old ?cs (found i kids')"
    proof (cases "\<forall>r\<in>set (leaf_paths ?f). r \<notin> C")
      case none: True
      then have "proj ?D (children c) [] h" if "h \<in> set fs" for c h
        using True sch(1) that by (intro proj_none) auto
      then show ?thesis using "1.prems"(5) True sch(1) none by (simp add: new_object_def children_def Let_def del: leaf_paths.simps)
    next
      case False
      then show ?thesis using "1.prems"(5) True sch(1) by (simp add: Let_def del: leaf_paths.simps)
    qed
    let ?F = "\<lambda>c. put_all (last q) (path_parents ?d q) (placed_entries q ?d (children c))"
    have step: "\<exists>x. ?F c c' = Inr x \<and> msg_id x = i \<and> ?new c x" if c: "c \<in> set ?cs" "msg_id c' = i" "?old c c'" for c c'
    proof -
      have c': "c' = Message i (V_Object (children c'))" using c(2,3) by (metis message.collapse)
      have "fits (children c) g" "wf_field g" "q \<notin> ?D" "proj ?D (children c) (children c') g" "?d + length q < 2 ^ 64"
        using "1.prems"(2,4,6) True sch g c p by (auto simp: deeper_def)
      from "1.IH" [OF True sch(1) refl g(1) this(2,1) g(2) this(3,4,5), of i] obtain ks where
        ks: "?F c c' = Inr (Message i (V_Object ks))" "proj (insert q ?D) (children c) ks g"
          "\<forall>k. k \<noteq> field_id g \<longrightarrow> found k ks = found k (children c')" using c' by auto
      have "\<forall>h\<in>set fs. proj (insert q ?D) (children c) ks h"
        by (rule proj_others [OF sch(2) g _ ks(2,3)]) (use c(3) in blast)
      then show ?thesis by (intro exI [of _ "Message i (V_Object ks)"] conjI) (simp_all only: ks(1) children_object message.sel)
    qed
    have "\<exists>kids2 zs. foldR (\<lambda>kids (k, c). into_child i k (?F c) kids) kids' (enumerate 0 ?cs) = Inr kids2 \<and>
        found i kids2 = [] @ zs \<and> list_all2 ?new ?cs zs \<and> (\<forall>k. k \<noteq> i \<longrightarrow> found k kids2 = found k kids')"
      by (rule put_children [OF step ys]) simp_all
    then obtain kids2 where kids2: "foldR (\<lambda>kids (k, c). into_child i k (?F c) kids) kids' (enumerate 0 ?cs) = Inr kids2"
      "list_all2 ?new ?cs (found i kids2)" "\<forall>k. k \<noteq> i \<longrightarrow> found k kids2 = found k kids'"
      unfolding append_Nil by blast
    have "put_all (last p) (path_parents d p) (placed_entries p d kids) (Message j (V_Object kids')) = Inr (Message j (V_Object kids2))"
    proof (cases ?cs)
      case Nil
      then have "nullable ?f" "kids2 = kids'" using "1.prems"(2) kids2(1) by (auto simp: nullable_def)
      then show ?thesis using Nil p q "1.prems"(6) by (simp add: put_entry_def deeper_def unat_of_nat)
    next
      case (Cons c0 cs0)
      have "\<forall>(k, c)\<in>set (enumerate 0 ?cs). (rep \<or> k = 0) \<and> placed_entries q ?d (children c) \<noteq> [] \<and>
          (\<forall>x\<in>set (placed_entries q ?d (children c)). ?d \<le> fst (snd x) \<and> fst (snd x) < 2 ^ 64)"
        using "1.prems"(2,6) p placed_nonempty [OF q g(2)] placed_levels [of _ q ?d]
        by (fastforce simp: in_set_enumerate_eq deeper_def split: if_splits)
      then show ?thesis
        using put_batches [of "enumerate 0 ?cs" rep "\<lambda>c. placed_entries q ?d (children c)" ?d "last q" i "path_parents ?d q" j kids']
          kids2(1) Cons p q by (simp add: Let_def below_eq)
    qed
    then show ?thesis using kids2(2,3) goal [of kids2] by (intro exI [of _ kids2]) simp
  qed
qed

end
