(* ===== verification/Record_Roundtrip.thy ===== *)
theory Record_Roundtrip
  imports Record_Assembly
begin

text \<open>
  Messages survive a columnar file: what the builder takes apart, writes to a file and the materializer
  reads from it is the same messages again, as far as the schema goes.
\<close>

section \<open>A column at a place\<close>

definition values_behind :: "nat \<Rightarrow> column_reader \<Rightarrow> bool" where
  "values_behind n c \<longleftrightarrow> (\<exists>a. vals_read c = of_nat a \<and> vals_total c = of_nat (a + n) \<and> a + n < 2 ^ 64)"

lemma values_behind_eof: "values_behind n c \<Longrightarrow> eofReached c \<longleftrightarrow> n = 0"
  by (auto simp: values_behind_def eofReached_def word_le_nat_alt unat_of_nat simp del: of_nat_add)

lemma values_behind_next:
  assumes "values_behind (Suc n) c" and "vals_read c' = vals_read c + 1" and "vals_total c' = vals_total c"
  shows "values_behind n c'"
  using assms unfolding values_behind_def by (metis add_Suc_right add_Suc of_nat_Suc add.commute)

text \<open>The state of a column whose entries \<open>es\<close> are not used yet; the first may be fetched already.\<close>

definition field_column :: "field \<Rightarrow> column_type" where
  "field_column f = the (column_for (field_type f) (type_size f) (encoding f))"

definition holds_current :: "field \<Rightarrow> column_entry \<Rightarrow> column_state \<Rightarrow> bool" where
  "holds_current f e cs \<longleftrightarrow> (case read_entry (field_column f) e of (r, d, b) \<Rightarrow>
     cs_r cs = r \<and> cs_d cs = d \<and> defined cs = (b \<noteq> None) \<and> (\<forall>bs. b = Some bs \<longrightarrow> cs_data cs = bs))"

definition reads_entries :: "simdcomp \<Rightarrow> field \<Rightarrow> 64 word \<Rightarrow> 64 word \<Rightarrow> column_entry list \<Rightarrow> column_reader \<Rightarrow> bool" where
  "reads_entries lib f rm dm es c \<longleftrightarrow> reading lib (field_column f) rm dm es c \<and> r_max c = rm \<and> values_behind (length es) c"

definition column_at ::
  "simdcomp \<Rightarrow> field \<Rightarrow> parent list \<Rightarrow> 64 word \<Rightarrow> 64 word \<Rightarrow> column_entry list \<Rightarrow> column_state \<Rightarrow> bool" where
  "column_at lib f ps rm dm es cs \<longleftrightarrow>
     parents cs = ps \<and> cs_field_id cs = field_id f \<and> cs_field_type cs = field_type f \<and>
     (if pending cs
      then es \<noteq> [] \<and> holds_current f (hd es) cs \<and> reads_entries lib f rm dm (tl es) (cs_reader cs)
      else reads_entries lib f rm dm es (cs_reader cs))"

lemma next_datum_r_max: "next_datum lib c = Inr (bs, c') \<Longrightarrow> r_max c' = r_max c"
  by (cases "r_type c") (auto simp: next_datum_defs bindR_eq_Inr_iff)

lemma next_value_r_max: "next_value lib c = Inr (e, c') \<Longrightarrow> r_max c' = r_max c"
  by (auto simp: next_value_def bindR_eq_Inr_iff Let_def split: if_splits dest: next_datum_r_max)

lemma reads_next:
  assumes "packs lib" and "reads_entries lib f rm dm (e # es) c"
  shows "\<exists>c'. next_value lib c = Inr (read_entry (field_column f) e, c') \<and> reads_entries lib f rm dm es c'"
proof -
  obtain c' where c': "next_value lib c = Inr (read_entry (field_column f) e, c')" "reading lib (field_column f) rm dm es c'"
    "vals_read c' = vals_read c + 1" "vals_total c' = vals_total c"
    using next_value_reading [OF assms(1)] assms(2) unfolding reads_entries_def by blast
  moreover have "values_behind (length es) c'"
    using values_behind_next [OF _ c'(3,4)] assms(2) by (simp add: reads_entries_def)
  ultimately show ?thesis using assms(2) next_value_r_max [OF c'(1)] by (simp add: reads_entries_def)
qed

lemma column_fetch:
  assumes "packs lib" and "column_at lib f ps rm dm (e # es) cs"
  shows "\<exists>cs'. fetchIfNotPending lib cs = Inr cs' \<and> pending cs' \<and> column_at lib f ps rm dm (e # es) cs'"
proof (cases "pending cs")
  case True
  then show ?thesis using assms(2) by (simp add: fetchIfNotPending_def)
next
  case False
  then have "reads_entries lib f rm dm (e # es) (cs_reader cs)" using assms(2) by (simp add: column_at_def)
  from reads_next [OF assms(1) this] obtain c' where
    "next_value lib (cs_reader cs) = Inr (read_entry (field_column f) e, c')" "reads_entries lib f rm dm es c'" by blast
  then show ?thesis
    using False assms(2) by (cases "read_entry (field_column f) e") (auto simp: fetchIfNotPending_def column_at_def holds_current_def)
qed

lemma column_consume:
  assumes "column_at lib f ps rm dm (e # es) cs" and "pending cs"
  shows "column_at lib f ps rm dm es (consume cs)" and "eofReached (cs_reader (consume cs)) \<longleftrightarrow> es = []"
  using assms values_behind_eof [of "length es" "cs_reader cs"] by (auto simp: column_at_def consume_def reads_entries_def)

lemma column_insert:
  assumes "column_at lib f ps rm dm (column_entry (r, d, b) # es) cs" and "pending cs"
  shows "cs_r cs = of_nat r" and "insert_current cs idx m = put_entry f ps (idx, d, b) m"
  using assms
  by (auto simp: column_at_def holds_current_def read_entry_def column_entry_def insert_current_def put_entry_def
      stored_value_def field_column_def split: option.splits)

text \<open>A column is read up to the next record, and its values are put where their positions tell.\<close>

lemma load_column_entries:
  assumes "packs lib" and "\<forall>x\<in>set (tl b). 0 < fst x" and "rest = [] \<or> fst (hd rest) = 0"
    and "\<forall>x\<in>set b. fst x \<le> length v" and "length v < 2 ^ 64"
    and "put_all f ps (place v b) m = Inr m'" and "b \<noteq> []"
    and "column_at lib f ps rm dm (map column_entry (b @ rest)) cs"
  shows "\<exists>cs'. load_entries lib cs v m = Inr (cs', m') \<and> column_at lib f ps rm dm (map column_entry rest) cs'"
  using assms(2,4-8)
proof (induction b arbitrary: v m cs)
  case (Cons x b)
  obtain r d y where x: "x = (r, d, y)" by (cases x)
  let ?v = "step_index r v"
  have r: "r \<le> length v" "r < 2 ^ 64" using Cons.prems(2,3) x by auto
  have len: "length ?v = length v" using r(1) by (auto simp: step_index_def)
  obtain cs1 where cs1: "fetchIfNotPending lib cs = Inr cs1" "pending cs1"
    "column_at lib f ps rm dm (column_entry x # map column_entry (b @ rest)) cs1"
    using column_fetch [OF assms(1)] Cons.prems(6) by fastforce
  obtain m1 where m1: "put_entry f ps (?v, d, y) m = Inr m1" "put_all f ps (place ?v b) m1 = Inr m'"
    using Cons.prems(4) x by (auto simp: Let_def bindR_eq_Inr_iff)
  have now: "cs_r cs1 = of_nat r" "insert_current cs1 ?v m = Inr m1"
    using column_insert [of lib f ps rm dm r d y "map column_entry (b @ rest)" cs1] cs1(2,3) x m1(1) by auto
  note left = column_consume [OF cs1(3,2)]
  show ?case
  proof (cases "b @ rest")
    case Nil
    then show ?thesis
      using cs1 now left r m1 next_indexes_step [OF r]
      by (intro exI [of _ "consume cs1"]) (simp add: load_entries.simps [of lib cs])
  next
    case (Cons z zs)
    obtain cs2 where cs2: "fetchIfNotPending lib (consume cs1) = Inr cs2" "pending cs2" "column_at lib f ps rm dm (map column_entry (b @ rest)) cs2"
      using column_fetch [OF assms(1)] left(1) Cons by fastforce
    have step: "load_entries lib cs v m = (if cs_r cs2 = 0 then Inr (cs2, m1) else load_entries lib cs2 ?v m1)"
      using cs1 now left cs2(1) Cons next_indexes_step [OF r] by (simp add: load_entries.simps [of lib cs])
    have z: "cs_r cs2 = of_nat (fst z)"
      using column_insert(1) [of lib f ps rm dm "fst z" "fst (snd z)" "snd (snd z)" "map column_entry zs" cs2] cs2(2,3) Cons by simp
    show ?thesis
    proof (cases b)
      case Nil
      then have "cs_r cs2 = 0" using assms(3) Cons z by auto
      then show ?thesis using step m1(2) cs2(3) Nil by simp
    next
      case (Cons w ws)
      then have w: "w = z" "0 < fst w" "fst w \<le> length v" using \<open>b @ rest = z # zs\<close> Cons.prems(1,2) by auto
      then have "cs_r cs2 \<noteq> 0" using z Cons.prems(3) by (simp add: word_unat_eq_iff unat_of_nat)
      moreover obtain cs' where "load_entries lib cs2 ?v m1 = Inr (cs', m')" "column_at lib f ps rm dm (map column_entry rest) cs'"
        using Cons.IH [of ?v m1 cs2] Cons.prems(1-3) len m1(2) cs2(3) Cons by auto
      ultimately show ?thesis using step by simp
    qed
  qed
qed simp

section \<open>Records\<close>

definition path_at :: "simdcomp \<Rightarrow> field list \<Rightarrow> entry list \<Rightarrow> column_state \<Rightarrow> bool" where
  "path_at lib p es cs \<longleftrightarrow>
     column_at lib (last p) (path_parents 0 p) (of_nat (path_r p)) (of_nat (path_d p)) (map column_entry es) cs"

lemma column_at_r_max: "column_at lib f ps rm dm es cs \<Longrightarrow> r_max (cs_reader cs) = rm"
  by (auto simp: column_at_def reads_entries_def split: if_splits)

lemma path_r_length: "path_r p \<le> length p" "path_d p \<le> length p"
  by (induction p) (auto simp: deeper_def)

text \<open>One column of one record.\<close>

lemma load_path:
  assumes "packs lib" and "wf_field f" and "fits kids f" and "p \<in> set (leaf_paths f)" and "length p < 2 ^ 32"
    and "p \<notin> C" and "proj C kids kids' f" and "rest = [] \<or> fst (hd rest) = 0"
    and "path_at lib p (column_entries p 0 0 0 kids @ rest) cs"
  shows "\<exists>cs' kids2. loadColumn lib cs (Message j (V_Object kids')) = Inr (cs', Message j (V_Object kids2)) \<and>
    path_at lib p rest cs' \<and> proj (insert p C) kids kids2 f \<and> (\<forall>i. i \<noteq> field_id f \<longrightarrow> found i kids2 = found i kids')"
proof -
  have p: "p \<noteq> []" using leaf_paths_nonempty [OF assms(4)] by simp
  let ?v = "replicate (path_r p) 0"
  obtain kids2 where kids2: "put_all (last p) (path_parents 0 p) (placed_entries p 0 kids) (Message j (V_Object kids')) = Inr (Message j (V_Object kids2))"
    "proj (insert p C) kids kids2 f" "\<forall>i. i \<noteq> field_id f \<longrightarrow> found i kids2 = found i kids'"
    using put_column [OF assms(2-4,6,7), of 0 j] assms(5) by auto
  have placed: "place ?v (column_entries p 0 0 0 kids) = placed_entries p 0 kids"
    using place_column [OF assms(4,3), of 0 ?v "[]" 0 0] by (simp add: step_index_def case_prod_unfold)
  obtain dl b es where shape: "column_entries p 0 0 0 kids = (0, dl, b) # es" "\<forall>e\<in>set es. 0 < fst e"
    using column_entries_repeat [OF p assms(4,3), of 0 0 0] by blast
  have within: "\<forall>x\<in>set (column_entries p 0 0 0 kids). fst x \<le> length ?v"
    using column_entries_within [OF assms(2,3,4), of 0 0 _ 0] by (fastforce simp: entry_within_def)
  have small: "path_r p < 2 ^ 32" using path_r_length(1) [of p] assms(5) by linarith
  have start: "column_at lib (last p) (path_parents 0 p) (of_nat (path_r p)) (of_nat (path_d p))
      (map column_entry (column_entries p 0 0 0 kids @ rest)) cs"
    using assms(9) by (simp add: path_at_def)
  have "\<exists>cs'. load_entries lib cs ?v (Message j (V_Object kids')) = Inr (cs', Message j (V_Object kids2)) \<and>
      column_at lib (last p) (path_parents 0 p) (of_nat (path_r p)) (of_nat (path_d p)) (map column_entry rest) cs'"
    by (rule load_column_entries [OF assms(1) _ assms(8) within _ _ _ start]) (use shape small kids2(1) placed in simp_all)
  then show ?thesis
    using kids2(2,3) column_at_r_max [OF start] small by (auto simp: loadColumn_def path_at_def unat_of_nat)
qed

text \<open>All columns of a record, in any order.\<close>

definition states_at :: "simdcomp \<Rightarrow> field list list \<Rightarrow> (field list \<Rightarrow> entry list) \<Rightarrow> column_states \<Rightarrow> bool" where
  "states_at lib ps es cols \<longleftrightarrow> (\<forall>p\<in>set ps. \<exists>cs. cols (path_name p) = Some cs \<and> path_at lib p (es p) cs)"

lemma load_paths:
  assumes "packs lib" and "wf_schema s" and "message_fits s m"
    and "\<forall>p\<in>set (schema_paths s). rest p = [] \<or> fst (hd (rest p)) = 0"
  shows "distinct order \<Longrightarrow> set order \<subseteq> set (schema_paths s) - C \<Longrightarrow>
    states_at lib (schema_paths s) (\<lambda>p. (if p \<in> C then [] else column_entries p 0 0 0 (children m)) @ rest p) cols \<Longrightarrow>
    \<forall>f\<in>set (schema_fields s). proj C (children m) kids f \<Longrightarrow>
    \<exists>cols' kids'. nextRecord lib (map path_name order) cols (Message j (V_Object kids)) = Inr (cols', Message j (V_Object kids')) \<and>
      states_at lib (schema_paths s) (\<lambda>p. (if p \<in> C \<union> set order then [] else column_entries p 0 0 0 (children m)) @ rest p) cols' \<and>
      (\<forall>f\<in>set (schema_fields s). proj (C \<union> set order) (children m) kids' f)"
proof (induction order arbitrary: C cols kids)
  case (Cons p order)
  have p: "p \<in> set (schema_paths s)" "p \<notin> C" "p \<notin> set order" using Cons.prems(1,2) by auto
  then obtain f where f: "f \<in> set (schema_fields s)" "p \<in> set (leaf_paths f)" by (auto simp: schema_path_field)
  obtain cs where cs: "cols (path_name p) = Some cs" "path_at lib p (column_entries p 0 0 0 (children m) @ rest p) cs"
    using Cons.prems(3) p(1,2) by (auto simp: states_at_def)
  have wf: "wf_field f" "fits (children m) f" "length p < 2 ^ 32" "distinct (map field_id (schema_fields s))"
    using assms(2,3) f(1) p(1) by (simp_all add: wf_schema_def wf_fields_def message_fits_def)
  have "proj C (children m) kids f" "rest p = [] \<or> fst (hd (rest p)) = 0" using Cons.prems(4) f(1) assms(4) p(1) by auto
  from load_path [OF assms(1) wf(1,2) f(2) wf(3) p(2) this cs(2), of j] obtain cs' kids2 where
    load: "loadColumn lib cs (Message j (V_Object kids)) = Inr (cs', Message j (V_Object kids2))"
      "path_at lib p (rest p) cs'" "proj (insert p C) (children m) kids2 f" "\<forall>i. i \<noteq> field_id f \<longrightarrow> found i kids2 = found i kids" by blast
  have fields: "\<forall>f\<in>set (schema_fields s). proj (insert p C) (children m) kids2 f"
    using proj_others [OF wf(4) f Cons.prems(4) load(3,4)] .
  have names: "path_name q = path_name p \<longleftrightarrow> q = p" if "q \<in> set (schema_paths s)" for q
    using assms(2) p(1) that by (auto simp: wf_schema_def distinct_map inj_on_def)
  have states: "states_at lib (schema_paths s) (\<lambda>q. (if q \<in> insert p C then [] else column_entries q 0 0 0 (children m)) @ rest q)
      (cols(path_name p \<mapsto> cs'))"
    using Cons.prems(3) load(2) names by (auto simp: states_at_def)
  have rest_order: "set order \<subseteq> set (schema_paths s) - insert p C" "distinct order" using Cons.prems(1,2) p(3) by auto
  have union: "insert p C \<union> set order = C \<union> set (p # order)" by auto
  from Cons.IH [OF rest_order(2,1) states fields] obtain cols' kids' where
    "nextRecord lib (map path_name order) (cols(path_name p \<mapsto> cs')) (Message j (V_Object kids2)) = Inr (cols', Message j (V_Object kids'))"
    "states_at lib (schema_paths s) (\<lambda>q. (if q \<in> C \<union> set (p # order) then [] else column_entries q 0 0 0 (children m)) @ rest q) cols'"
    "\<forall>f\<in>set (schema_fields s). proj (C \<union> set (p # order)) (children m) kids' f" unfolding union by blast
  then show ?case using cs(1) load(1) by (simp add: nextRecord_def)
qed (simp add: nextRecord_def)

section \<open>The same message\<close>

text \<open>The values of every field of the schema are the same, in the same order.\<close>

fun same_field :: "message list \<Rightarrow> message list \<Rightarrow> field \<Rightarrow> bool" where
  "same_field kids kids' (Field i name ty ts rep opt enc sch) \<longleftrightarrow>
     (if ty = F_OBJECT then
        (case sch of None \<Rightarrow> False
         | Some (Schema n fs) \<Rightarrow> list_all2 (\<lambda>c c'. msg_value c' = V_Object (children c') \<and>
             (\<forall>g\<in>set fs. same_field (children c) (children c') g)) (found i kids) (found i kids'))
      else found i kids' = found i kids)"

definition same_message :: "schema \<Rightarrow> message \<Rightarrow> message \<Rightarrow> bool" where
  "same_message s m m' \<longleftrightarrow> msg_value m' = V_Object (children m') \<and>
     (\<forall>f\<in>set (schema_fields s). same_field (children m) (children m') f)"

lemma leaf_paths_exist: "wf_field f \<Longrightarrow> leaf_paths f \<noteq> []"
proof (induction f rule: leaf_paths.induct)
  case (1 i name ty ts rep opt enc sch)
  show ?case
  proof (cases "ty = F_OBJECT")
    case True
    then obtain n fs where sch: "sch = Some (Schema n fs)" "fs \<noteq> []" "\<forall>g\<in>set fs. wf_field g"
      using "1.prems" by (auto split: option.splits schema.splits)
    then have "leaf_paths (hd fs) \<noteq> []" using "1.IH" [OF True sch(1) refl, of "hd fs"] by simp
    then show ?thesis using True sch by (cases fs) auto
  qed simp
qed

lemma proj_same: "wf_field f \<Longrightarrow> set (leaf_paths f) \<subseteq> C \<Longrightarrow> proj C kids kids' f \<Longrightarrow> same_field kids kids' f"
proof (induction f arbitrary: C kids kids' rule: leaf_paths.induct)
  case (1 i name ty ts rep opt enc sch)
  let ?f = "Field i name ty ts rep opt enc sch"
  show ?case
  proof (cases "ty = F_OBJECT")
    case True
    then obtain n fs where sch: "sch = Some (Schema n fs)" "\<forall>g\<in>set fs. wf_field g"
      using "1.prems"(1) by (auto split: option.splits schema.splits)
    have "\<not> (\<forall>p\<in>set (leaf_paths ?f). p \<notin> C)"
      using leaf_paths_exist [OF "1.prems"(1)] "1.prems"(2) by (cases "leaf_paths ?f") auto
    then have all: "list_all2 (\<lambda>c c'. msg_value c' = V_Object (children c') \<and>
        (\<forall>g\<in>set fs. proj {q. ?f # q \<in> C} (children c) (children c') g)) (found i kids) (found i kids')"
      using "1.prems"(3) True sch(1) by (simp add: Let_def del: leaf_paths.simps)
    have same: "same_field ks ks' g" if g: "g \<in> set fs" "proj {q. ?f # q \<in> C} ks ks' g" for g ks ks'
    proof -
      have "set (leaf_paths g) \<subseteq> {q. ?f # q \<in> C}" using "1.prems"(2) True sch(1) g(1) by fastforce
      moreover have "wf_field g" using sch(2) g(1) by blast
      ultimately show ?thesis using "1.IH" [OF True sch(1) refl g(1) _ _ g(2)] by blast
    qed
    have "list_all2 (\<lambda>c c'. msg_value c' = V_Object (children c') \<and>
        (\<forall>g\<in>set fs. same_field (children c) (children c') g)) (found i kids) (found i kids')"
      by (rule list_all2_mono [OF all]) (use same in blast)
    then show ?thesis using True sch(1) by simp
  qed (use "1.prems" in simp)
qed

text \<open>A record is what one call reads; all of them, one after the other.\<close>

fun read_records :: "simdcomp \<Rightarrow> string list \<Rightarrow> nat \<Rightarrow> column_states \<Rightarrow> message list result" where
  "read_records lib order 0 cols = Inr []"
| "read_records lib order (Suc n) cols =
     bindR (nextRecord lib order cols (new_object 0)) (\<lambda>(cols', m).
     bindR (read_records lib order n cols') (\<lambda>ms. Inr (m # ms)))"

lemma record_start:
  assumes "wf_schema s" and "\<forall>m\<in>set ms. message_fits s m" and "p \<in> set (schema_paths s)"
  shows "record_entries ms p = [] \<or> fst (hd (record_entries ms p)) = 0"
proof (cases ms)
  case (Cons m ms')
  obtain f where f: "f \<in> set (schema_fields s)" "p \<in> set (leaf_paths f)" using assms(3) by (auto simp: schema_path_field)
  moreover have "fits (children m) f" using assms(2) f(1) Cons by (simp add: message_fits_def)
  ultimately obtain dl b es where "column_entries p 0 0 0 (children m) = (0, dl, b) # es"
    using column_entries_repeat [of p f "children m" 0 0 0] leaf_paths_nonempty by blast
  then show ?thesis using Cons by (simp add: record_entries_def)
qed (simp add: record_entries_def)

lemma read_all_records:
  assumes "packs lib" and "wf_schema s" and "distinct order" and "set order = set (schema_paths s)"
  shows "\<forall>m\<in>set ms. message_fits s m \<Longrightarrow> states_at lib (schema_paths s) (record_entries ms) cols \<Longrightarrow>
    \<exists>ms'. read_records lib (map path_name order) (length ms) cols = Inr ms' \<and> list_all2 (same_message s) ms ms'"
proof (induction ms arbitrary: cols)
  case (Cons m ms)
  have fit: "message_fits s m" and wf: "\<forall>f\<in>set (schema_fields s). wf_field f"
    using Cons.prems(1) assms(2) by (simp_all add: wf_schema_def wf_fields_def)
  have start: "\<forall>p\<in>set (schema_paths s). record_entries ms p = [] \<or> fst (hd (record_entries ms p)) = 0"
    using record_start [OF assms(2)] Cons.prems(1) by simp
  have states: "states_at lib (schema_paths s) (\<lambda>p. (if p \<in> {} then [] else column_entries p 0 0 0 (children m)) @ record_entries ms p) cols"
    using Cons.prems(2) by (simp add: record_entries_def)
  have none: "\<forall>f\<in>set (schema_fields s). proj {} (children m) [] f" by (simp add: proj_none)
  have sub: "set order \<subseteq> set (schema_paths s) - {}" using assms(4) by simp
  from load_paths [OF assms(1,2) fit start assms(3) sub states none, of 0] obtain cols' kids' where
    load: "nextRecord lib (map path_name order) cols (new_object 0) = Inr (cols', Message 0 (V_Object kids'))"
      "states_at lib (schema_paths s) (\<lambda>p. (if p \<in> {} \<union> set order then [] else column_entries p 0 0 0 (children m)) @ record_entries ms p) cols'"
      "\<forall>f\<in>set (schema_fields s). proj ({} \<union> set order) (children m) kids' f" unfolding new_object_def by blast
  have fits: "\<forall>m\<in>set ms. message_fits s m" using Cons.prems(1) by simp
  have "states_at lib (schema_paths s) (record_entries ms) cols'" using load(2) assms(4) by (simp add: states_at_def)
  from Cons.IH [OF fits this] obtain ms' where
    "read_records lib (map path_name order) (length ms) cols' = Inr ms'" "list_all2 (same_message s) ms ms'" by blast
  moreover have "same_field (children m) kids' f" if f: "f \<in> set (schema_fields s)" for f
  proof (rule proj_same)
    show "wf_field f" using wf f by blast
    show "set (leaf_paths f) \<subseteq> {} \<union> set order" unfolding assms(4) using f schema_path_field by blast
    show "proj ({} \<union> set order) (children m) kids' f" using load(3) f by blast
  qed
  then have "same_message s m (Message 0 (V_Object kids'))" by (simp add: same_message_def children_def)
  ultimately show ?case using load(1) by simp
qed simp

section \<open>Opening the columns\<close>

definition fresh_states :: "(string \<Rightarrow> column_reader) \<Rightarrow> string \<Rightarrow> nat \<Rightarrow> parent list \<Rightarrow> field list list \<Rightarrow> (string \<times> column_state) list" where
  "fresh_states rd prefix d ps paths = map (\<lambda>p. (prefix @ path_name p,
     new_column_state (rd (prefix @ path_name p)) (ps @ path_parents d p) (field_id (last p)) (field_type (last p)))) paths"

lemma fresh_states_append:
  "fresh_states rd prefix d ps (xs @ ys) = fresh_states rd prefix d ps xs @ fresh_states rd prefix d ps ys"
  by (simp add: fresh_states_def)

lemma openColumns_paths:
  "wf_field f \<Longrightarrow> \<forall>p\<in>set (leaf_paths f). hasColumn tab (prefix @ path_name p) \<and> getColumnReader tab (prefix @ path_name p) = Inr (rd (prefix @ path_name p)) \<Longrightarrow>
     openColumns tab {} prefix d ps cols f = Inr (map_of (fresh_states rd prefix d ps (leaf_paths f)) ++ cols)"
proof (induction f arbitrary: prefix d ps cols rule: leaf_paths.induct)
  case (1 i name ty ts rep opt enc sch)
  let ?f = "Field i name ty ts rep opt enc sch" and ?d = "if rep \<or> opt then Suc d else d"
  show ?case
  proof (cases "ty = F_OBJECT")
    case False
    have "map_of [(n, w)] ++ cols = emplace n w cols" for n and w :: column_state
      by (rule ext) (auto simp: emplace_def map_add_def split: option.split)
    then show ?thesis using False "1.prems"(2) by (simp add: fresh_states_def Let_def del: map_of.simps)
  next
    case True
    then obtain n fs where sch: "sch = Some (Schema n fs)" "\<forall>g\<in>set fs. wf_field g"
      using "1.prems"(1) by (auto split: option.splits schema.splits)
    have deeper: "deeper (nullable ?f) d = ?d" by (simp add: deeper_def nullable_def)
    have down: "fresh_states rd (prefix @ name @ ''.'') ?d (ps @ [(i, rep, ?d)]) (leaf_paths g) =
        fresh_states rd prefix d ps (map ((#) ?f) (leaf_paths g))" for g
      using leaf_paths_nonempty [of _ g] deeper by (auto simp: fresh_states_def Let_def)
    have sub: "openColumns tab {} (prefix @ name @ ''.'') ?d (ps @ [(i, rep, ?d)]) cols g =
        Inr (map_of (fresh_states rd prefix d ps (map ((#) ?f) (leaf_paths g))) ++ cols)" if "g \<in> set fs" for g cols
    proof -
      have "\<forall>p\<in>set (leaf_paths g). hasColumn tab ((prefix @ name @ ''.'') @ path_name p) \<and>
          getColumnReader tab ((prefix @ name @ ''.'') @ path_name p) = Inr (rd ((prefix @ name @ ''.'') @ path_name p))"
        using "1.prems"(2) True sch(1) that leaf_paths_nonempty [of _ g] by auto
      from "1.IH" [OF True sch(1) refl that _ this] show ?thesis using sch(2) that down by simp
    qed
    have "foldR (\<lambda>cols g. openColumns tab {} (prefix @ name @ ''.'') ?d (ps @ [(i, rep, ?d)]) cols g) cols gs =
        Inr (map_of (fresh_states rd prefix d ps (map ((#) ?f) (concat (map leaf_paths gs)))) ++ cols)" if "set gs \<subseteq> set fs" for gs cols
      using that by (induction gs arbitrary: cols) (simp_all add: fresh_states_append sub, simp add: fresh_states_def)
    then show ?thesis using True sch(1) by simp
  qed
qed

lemma new_materializer_paths:
  assumes "wf_schema s" and "\<forall>p\<in>set (schema_paths s). hasColumn tab (path_name p) \<and> getColumnReader tab (path_name p) = Inr (rd (path_name p))"
  shows "new_materializer tab {} s = Inr (map_of (fresh_states rd [] 0 [] (schema_paths s)))"
proof -
  have "foldR (openColumns tab {} [] 0 []) cols gs = Inr (map_of (fresh_states rd [] 0 [] (concat (map leaf_paths gs))) ++ cols)"
    if "set gs \<subseteq> set (schema_fields s)" for gs cols
    using that
  proof (induction gs arbitrary: cols)
    case (Cons g gs)
    then have "wf_field g" "\<forall>p\<in>set (leaf_paths g). hasColumn tab ([] @ path_name p) \<and> getColumnReader tab ([] @ path_name p) = Inr (rd ([] @ path_name p))"
      using assms by (auto simp: wf_schema_def wf_fields_def schema_path_field)
    then show ?case using openColumns_paths [of g tab "[]" rd 0 "[]" cols] Cons by (simp add: fresh_states_append)
  qed (simp add: fresh_states_def)
  then show ?thesis by (simp add: new_materializer_def schema_paths_def)
qed

section \<open>Through the file\<close>

definition path_table_column :: "(field list \<Rightarrow> entry list) \<Rightarrow> field list \<Rightarrow> table_column" where
  "path_table_column es p =
     (path_name p, the (path_column p), of_nat (path_r p), of_nat (path_d p), map column_entry (es p))"

lemma fst_path_table_column [simp]: "fst (path_table_column es p) = path_name p"
  by (simp add: path_table_column_def)

lemma write_columns_stored:
  "holds_entries lib ps es (builder_columns b) \<Longrightarrow> set order \<subseteq> set ps \<Longrightarrow>
     \<exists>ws. write_columns lib (map path_name order) b t = Inr (t\<lparr>added := added t @ ws\<rparr>) \<and>
       list_all2 (stored_as lib) (map (path_table_column es) order) ws"
proof (induction order arbitrary: t)
  case (Cons p order)
  obtain w where w: "builder_columns b (path_name p) = Some w"
    "written lib (the (path_column p)) (of_nat (path_r p)) (of_nat (path_d p)) (map column_entry (es p)) w"
    using Cons.prems by (auto simp: holds_entries_def)
  obtain ws where ws: "write_columns lib (map path_name order) b (addColumn lib (path_name p) w t) =
      Inr ((addColumn lib (path_name p) w t)\<lparr>added := added (addColumn lib (path_name p) w t) @ ws\<rparr>)"
    "list_all2 (stored_as lib) (map (path_table_column es) order) ws"
    using Cons by auto
  have "stored_as lib (path_table_column es p) (path_name p, commit_column lib w)"
    using w(2) by (auto simp: stored_as_def path_table_column_def)
  then show ?case
    using ws w(1) by (intro exI [of _ "(path_name p, commit_column lib w) # ws"])
      (auto simp: addColumn_def write_columns_def column_named_def)
qed (simp add: write_columns_def)

lemma record_entries_good:
  assumes "wf_schema s" and "\<forall>m\<in>set ms. message_fits s m" and "p \<in> set (schema_paths s)"
  shows "good_column (path_table_column (record_entries ms) p)"
proof -
  obtain f where f: "f \<in> set (schema_fields s)" "p \<in> set (leaf_paths f)" using assms(3) by (auto simp: schema_path_field)
  have len: "length p < 2 ^ 32" "length (path_name p) < 2 ^ 32" "wf_field f"
    using assms(1,3) f(1) by (simp_all add: wf_schema_def wf_fields_def)
  then have levels: "path_r p < 2 ^ 32" "path_d p < 2 ^ 32" using path_r_length [of p] by linarith+
  have "good_entry (the (path_column p)) (of_nat (path_r p)) (of_nat (path_d p)) (column_entry e)"
    if e: "e \<in> set (record_entries ms p)" for e
  proof (rule within_good [OF _ len(1)])
    obtain m where m: "m \<in> set ms" "e \<in> set (column_entries p 0 0 0 (children m))" using e by (auto simp: record_entries_def)
    then have "fits (children m) f" using assms(2) f(1) by (simp add: message_fits_def)
    then show "entry_within 0 0 p e" using column_entries_within len(3) f(2) m(2) by blast
  qed
  then show ?thesis using len(2) levels by (auto simp: good_column_def path_table_column_def unat_of_nat)
qed

lemma opened_states:
  assumes "wf_schema s" and "\<forall>p\<in>set (schema_paths s). hasColumn tab (path_name p)"
    and "\<forall>p\<in>set (schema_paths s). opens_as lib tab (path_table_column es p)"
    and "\<forall>p\<in>set (schema_paths s). length (es p) < 2 ^ 64"
  shows "\<exists>cols. new_materializer tab {} s = Inr cols \<and> dom cols = path_name ` set (schema_paths s) \<and>
    states_at lib (schema_paths s) es cols"
proof -
  obtain rd where rd: "rd = (\<lambda>n. case getColumnReader tab n of Inr r \<Rightarrow> r | Inl e \<Rightarrow> undefined)" by blast
  have opened: "getColumnReader tab (path_name p) = Inr (rd (path_name p)) \<and>
      reads_entries lib (last p) (of_nat (path_r p)) (of_nat (path_d p)) (map column_entry (es p)) (rd (path_name p))"
    if p: "p \<in> set (schema_paths s)" for p
  proof -
    have "field_column (last p) = the (path_column p)" by (simp add: field_column_def path_column_def)
    moreover have "opens_as lib tab (path_table_column es p)" "length (es p) < 2 ^ 64" using assms(3,4) p by blast+
    ultimately show ?thesis
      unfolding reads_entries_def values_behind_def opens_as_def path_table_column_def
      by (auto simp: rd intro!: exI [of _ 0])
  qed
  let ?xs = "fresh_states rd [] 0 [] (schema_paths s)"
  have cols: "new_materializer tab {} s = Inr (map_of ?xs)"
    using new_materializer_paths [OF assms(1), of tab rd] opened assms(2) by blast
  have fst: "map fst ?xs = map path_name (schema_paths s)" by (simp add: fresh_states_def comp_def)
  have distinct: "distinct (map fst ?xs)" unfolding fst using assms(1) by (simp add: wf_schema_def)
  have "dom (map_of ?xs) = path_name ` set (schema_paths s)"
    unfolding dom_map_of_conv_image_fst by (simp add: fresh_states_def image_image)
  moreover have "\<exists>cs. map_of ?xs (path_name p) = Some cs \<and> path_at lib p (es p) cs" if p: "p \<in> set (schema_paths s)" for p
  proof -
    let ?cs = "new_column_state (rd (path_name p)) (path_parents 0 p) (field_id (last p)) (field_type (last p))"
    have "(path_name p, ?cs) \<in> set ?xs" using p by (auto simp: fresh_states_def)
    then have "map_of ?xs (path_name p) = Some ?cs" by (rule map_of_is_SomeI [OF distinct])
    moreover have "path_at lib p (es p) ?cs" using opened [OF p] by (simp add: path_at_def column_at_def new_column_state_def)
    ultimately show ?thesis by blast
  qed
  ultimately show ?thesis using cols by (simp add: states_at_def)
qed

lemma order_paths:
  assumes "distinct (map path_name ps)" and "distinct order" and "set order = path_name ` set ps"
  shows "\<exists>qs. order = map path_name qs \<and> distinct qs \<and> set qs = set ps"
proof -
  obtain g where g: "g = inv_into (set ps) path_name" by blast
  have inj: "inj_on path_name (set ps)" using assms(1) by (simp add: distinct_map)
  have "path_name (g n) = n" if "n \<in> set order" for n using that assms(3) by (auto simp: g f_inv_into_f)
  then have "map path_name (map g order) = order" by (simp add: map_idI)
  moreover from this have "distinct (map g order)" using assms(2) by (metis distinct_map)
  moreover have "set (map g order) = set ps" using assms(3) inj by (auto simp: g image_image inv_into_f_f)
  ultimately show ?thesis by metis
qed

definition build_table :: "simdcomp \<Rightarrow> schema \<Rightarrow> message list \<Rightarrow> table_builder result" where
  "build_table lib s ms = bindR (new_builder s) (\<lambda>b. foldR (\<lambda>b m. addRecord lib m b) b ms)"

text \<open>The records that come back from a file whose columns hold the entries of messages.\<close>

lemma stored_records_read:
  assumes "packs lib" and "\<forall>i k. length (junk i k) = k" and wf: "wf_schema s" and fits: "\<forall>m\<in>set ms. message_fits s m"
    and sizes: "\<forall>p\<in>set (schema_paths s). length (record_entries ms p) < 2 ^ 64"
    and ps: "distinct ps" "set ps = set (schema_paths s)" and order': "distinct order'" "set order' = path_name ` set (schema_paths s)"
    and stored: "list_all2 (stored_as lib) (map (path_table_column (record_entries ms)) ps) ws"
    and len: "length (stored_bytes junk (of_nat (length ms)) ws) < 2 ^ 64"
  shows "\<exists>tab cols ms'. open_cstable (stored_bytes junk (of_nat (length ms)) ws) = Inr tab \<and> num_records tab = of_nat (length ms) \<and>
    new_materializer tab {} s = Inr cols \<and> dom cols = set order' \<and>
    read_records lib order' (length ms) cols = Inr ms' \<and> list_all2 (same_message s) ms ms'"
proof -
  let ?es = "record_entries ms" let ?cs = "map (path_table_column (record_entries ms)) ps"
  have paths: "distinct (map path_name (schema_paths s))" "length (schema_paths s) < 2 ^ 32" using wf by (simp_all add: wf_schema_def)
  obtain qs where qs: "order' = map path_name qs" "distinct qs" "set qs = set (schema_paths s)"
    using order_paths [OF paths(1) order'] by blast
  have "distinct (map path_name ps)" using paths(1) ps by (simp add: distinct_map)
  then have good: "\<forall>c\<in>set ?cs. good_column c" "distinct (map fst ?cs)"
    using record_entries_good [OF wf fits] ps by (auto simp: comp_def)
  have "length ?cs < 2 ^ 32" using paths(2) distinct_card [OF ps(1)] card_length [of "schema_paths s"] ps(2) by simp
  then have few: "length ws < 2 ^ 32" using list_all2_lengthD [OF stored] by simp
  note opened = open_stored [OF stored_named [OF stored good(1)] assms(2) few, of "of_nat (length ms)"]
  have "map fst ws = map path_name ps" using stored_names [OF stored] by (simp add: comp_def)
  then have "set (map fst ws) = set (map path_name ps)" by (rule arg_cong)
  then have names: "fst ` set ws = path_name ` set (schema_paths s)" by (simp only: set_map ps(2))
  note opens = stored_opens [OF assms(1,2) good(2,1) stored len]
  obtain tab where tab: "open_cstable (stored_bytes junk (of_nat (length ms)) ws) = Inr tab" "num_records tab = of_nat (length ms)"
    "\<forall>name. hasColumn tab name \<longleftrightarrow> name \<in> path_name ` set (schema_paths s)" "\<forall>c\<in>set ?cs. opens_as lib tab c"
    using opened opens names by (auto simp: hasColumn_def dom_infos)
  have "\<forall>p\<in>set (schema_paths s). opens_as lib tab (path_table_column ?es p)" using tab(4) ps(2) by simp
  then obtain cols where cols: "new_materializer tab {} s = Inr cols" "dom cols = path_name ` set (schema_paths s)"
    "states_at lib (schema_paths s) ?es cols"
    using opened_states [OF wf, of tab lib ?es] tab(3) sizes by blast
  have "dom cols = set order'" by (simp only: cols(2) order'(2))
  then show ?thesis
    using tab(1,2) cols(1) read_all_records [OF assms(1) wf qs(2,3) fits cols(3)] unfolding qs(1) by blast
qed

text \<open>
  C4. Messages survive a columnar file. For a well-formed schema and messages that fit it, the builder
  accepts every message and, whatever the order in which its hash map hands out the columns, writes a file;
  when that is smaller than 2 ^ 64 bytes it opens with one record for each message, the materializer opens
  every column of the schema, and reading record by record, in any order of the columns, gives messages
  with the same values and objects in every field, at every depth, in the same order.
\<close>

theorem records_roundtrip:
  assumes "packs lib" and "\<forall>i k. length (junk i k) = k" and "wf_schema s" and "\<forall>m\<in>set ms. message_fits s m"
    and "\<forall>p\<in>set (schema_paths s). length (record_entries ms p) < 2 ^ 64"
    and "distinct order" and "set order = path_name ` set (schema_paths s)"
    and "distinct order'" and "set order' = path_name ` set (schema_paths s)"
  shows "\<exists>b bytes. build_table lib s ms = Inr b \<and> dom (builder_columns b) = set order \<and> builder_file lib junk order b = Inr bytes \<and>
    (length bytes < 2 ^ 64 \<longrightarrow>
      (\<exists>tab cols ms'. open_cstable bytes = Inr tab \<and> num_records tab = of_nat (length ms) \<and>
        new_materializer tab {} s = Inr cols \<and> dom cols = set order' \<and>
        read_records lib order' (length ms) cols = Inr ms' \<and> list_all2 (same_message s) ms ms'))"
proof -
  let ?es = "record_entries ms"
  have paths: "distinct (map path_name (schema_paths s))" using assms(3) by (simp add: wf_schema_def)
  obtain b where b: "build_table lib s ms = Inr b" "builder_records b = of_nat (length ms)"
    "holds_entries lib (schema_paths s) ?es (builder_columns b)"
    using builder_holds [OF assms(3,4)] unfolding build_table_def by blast
  obtain ps where ps: "order = map path_name ps" "distinct ps" "set ps = set (schema_paths s)"
    using order_paths [OF paths(1) assms(6,7)] by blast
  obtain cs where cs: "cs = map (path_table_column ?es) ps" by blast
  obtain ws where ws: "write_columns lib order b (new_cstable (of_nat (length ms))) = Inr ((new_cstable (of_nat (length ms)))\<lparr>added := ws\<rparr>)"
    and stored: "list_all2 (stored_as lib) cs ws"
    using write_columns_stored [OF b(3), of ps "new_cstable (of_nat (length ms))"] ps by (auto simp: cs new_cstable_def)
  have bytes: "builder_file lib junk order b = Inr (stored_bytes junk (of_nat (length ms)) ws)"
    using ws b(2) by (simp add: builder_file_def stored_bytes_def)
  note read = stored_records_read [OF assms(1-5) ps(2,3) assms(8,9) stored [unfolded cs]]
  have "dom (builder_columns b) = set order" using b(3) by (simp only: holds_entries_def assms(7))
  then show ?thesis using b(1) bytes read by (intro exI [of _ b] exI [of _ "stored_bytes junk (of_nat (length ms)) ws"]) blast
qed

text \<open>A number and a list of objects, each with a string.\<close>

definition tagged_schema :: schema where
  "tagged_schema = Schema ''event'' [Field 1 ''id'' F_UINT32 0 False False H_NONE None,
     mkObjectField 2 ''tag'' True False (Schema ''tag'' [Field 1 ''k'' F_STRING 0 False True H_NONE None])]"

definition tagged_message :: message where
  "tagged_message = Message 0 (V_Object [Message 1 (V_UInt32 7), Message 2 (V_Object [Message 1 (V_String ''a'')]), Message 2 (V_Object [])])"

lemmas tagged_simps = tagged_schema_def tagged_message_def mkObjectField_def

lemma tagged_paths: "map path_name (schema_paths tagged_schema) = [''id'', ''tag.k'']"
  by (simp add: tagged_simps schema_paths_def)

lemma tagged_fits: "wf_schema tagged_schema" "message_fits tagged_schema tagged_message"
  by (simp_all add: tagged_simps schema_paths_def wf_schema_def wf_fields_def column_for_def message_fits_def children_def found_def)

lemma tagged_bytes:
  "\<exists>b bytes. build_table digit_packer tagged_schema [tagged_message] = Inr b \<and>
     builder_file digit_packer (\<lambda>i k. replicate k 0) [''id'', ''tag.k''] b = Inr bytes \<and> length bytes < 1000"
  by (simp add: tagged_simps build_table_def new_builder_def column_for_def emplace_def addRecord_def writeField_def field_bytes_def
      column_named_def deeper_def builder_file_def write_columns_def
      addDatum_defs addNull_def new_writer_def new_encoder_def encode_level_def Let_def bytes_of_string_def
      bits_def bit_len.simps commit_column_def flush_def bodySize_def data_size_def data_section_def spare_size_def
      packs_data_def length_digit_packer addColumn_def new_cstable_def headers_size_def bodies_size_def
      commit_cstable_def column_header_def length_column_body)

text \<open>The record with the number and the two tags is read as it was written, from columns in another order.\<close>

theorem records_roundtrip_witness:
  "\<exists>b bytes tab cols m. build_table digit_packer tagged_schema [tagged_message] = Inr b \<and>
     builder_file digit_packer (\<lambda>i k. replicate k 0) [''id'', ''tag.k''] b = Inr bytes \<and> open_cstable bytes = Inr tab \<and>
     new_materializer tab {} tagged_schema = Inr cols \<and> read_records digit_packer [''tag.k'', ''id''] 1 cols = Inr [m] \<and>
     same_message tagged_schema tagged_message m"
proof -
  have names: "path_name ` set (schema_paths tagged_schema) = {''id'', ''tag.k''}"
    using arg_cong [OF tagged_paths, of set] by simp
  have "\<exists>b bytes. build_table digit_packer tagged_schema [tagged_message] = Inr b \<and> dom (builder_columns b) = set [''id'', ''tag.k''] \<and>
      builder_file digit_packer (\<lambda>i k. replicate k 0) [''id'', ''tag.k''] b = Inr bytes \<and>
      (length bytes < 2 ^ 64 \<longrightarrow>
        (\<exists>tab cols ms'. open_cstable bytes = Inr tab \<and> num_records tab = of_nat (length [tagged_message]) \<and>
          new_materializer tab {} tagged_schema = Inr cols \<and> dom cols = set [''tag.k'', ''id''] \<and>
          read_records digit_packer [''tag.k'', ''id''] (length [tagged_message]) cols = Inr ms' \<and>
          list_all2 (same_message tagged_schema) [tagged_message] ms'))"
  proof (rule records_roundtrip)
    show "\<forall>p\<in>set (schema_paths tagged_schema). length (record_entries [tagged_message] p) < 2 ^ 64"
      by (simp add: record_entries_def tagged_simps schema_paths_def children_def found_def Let_def)
  qed (simp_all add: digit_packer_packs tagged_fits names insert_commute)
  then show ?thesis using tagged_bytes by (fastforce simp: list_all2_Cons1)
qed

end
