(* ===== verification/Message_Codec.thy ===== *)
theory Message_Codec
  imports Message Column
begin

text \<open>
  The wire format of messages and of schemas: \<open>MessageEncoder\<close> and \<open>MessageDecoder\<close>, the codec of
  \<open>MessageSchema\<close>, all of src/stx/protobuf, over \<open>BinaryMessageWriter\<close> and \<open>BinaryMessageReader\<close> of
  src/stx/util. A field is its number and wire type in a variable-length integer, then its data.
\<close>

section \<open>Reading at a position\<close>

text \<open>
  The reader is its bytes and its position. The sum of the position and the size of a read is a 64-bit
  word, so a size that is large enough wraps around and moves the position back.
\<close>

definition memory_at :: "byte list \<Rightarrow> nat \<Rightarrow> memory" where
  "memory_at bs k = \<lparr>contents = drop k bs, limit = length bs - k\<rparr>"

definition read_at :: "(memory \<Rightarrow> ('a \<times> memory) result) \<Rightarrow> byte list \<Rightarrow> nat \<Rightarrow> ('a \<times> nat) result" where
  "read_at f bs k = bindR (f (memory_at bs k)) (\<lambda>(x, m). Inr (x, length bs - limit m))"

definition moved :: "byte list \<Rightarrow> 64 word \<Rightarrow> nat \<Rightarrow> nat result" where
  "moved bs n k = (let k' = unat (of_nat k + n) in if length bs < k' then Inl (Raise BufferOverflowError) else Inr k')"

text \<open>A string of the bytes read: none is as long as a size that wraps around, and the constructor throws.\<close>

definition read_string :: "byte list \<Rightarrow> 64 word \<Rightarrow> nat \<Rightarrow> (string \<times> nat) result" where
  "read_string bs n k =
     bindR (moved bs n k) (\<lambda>k'.
       if k' < k then Inl (Raise StdLengthError) else Inr (string_of_bytes (take (unat n) (drop k bs)), k'))"

definition message_readUInt8 :: "memory \<Rightarrow> (byte \<times> memory) result" where
  "message_readUInt8 m = bindR (message_read 1 m) (\<lambda>(bs, m'). Inr (hd bs, m'))"

definition message_readLenencString :: "byte list \<Rightarrow> nat \<Rightarrow> (string \<times> nat) result" where
  "message_readLenencString bs k = bindR (read_at message_readVarUInt bs k) (\<lambda>(n, k). read_string bs n k)"

section \<open>Messages\<close>

text \<open>The number of the field above the wire type, in 32 bits.\<close>

definition field_key :: "32 word \<Rightarrow> 32 word \<Rightarrow> byte list" where
  "field_key i wire = appendVarUInt (ucast (or (push_bit 3 i) wire))"

text \<open>An exception is thrown again as another type; looking up the name for its text can throw itself.\<close>

definition encoding_error :: "schema \<Rightarrow> 32 word \<Rightarrow> byte list result \<Rightarrow> byte list result" where
  "encoding_error s i r = (case r of
      Inl (Raise e) \<Rightarrow> bindR (fieldName s i) (\<lambda>_. Inl (Raise RuntimeError))
    | _ \<Rightarrow> r)"

text \<open>A value that is not an object: its wire type and its bytes. A type that is none writes nothing.\<close>

definition encode_leaf :: "field_type \<Rightarrow> message \<Rightarrow> (32 word \<times> byte list) option result" where
  "encode_leaf ty m = (case ty of
      F_STRING \<Rightarrow> bindR (asString m) (\<lambda>str. Inr (Some (2, appendLenencString (bytes_of_string str))))
    | F_UINT32 \<Rightarrow> bindR (asUInt32 m) (\<lambda>n. Inr (Some (0, appendVarUInt (ucast n))))
    | F_UINT64 \<Rightarrow> bindR (asUInt64 m) (\<lambda>n. Inr (Some (0, appendVarUInt n)))
    | F_DATETIME \<Rightarrow> bindR (asUInt64 m) (\<lambda>n. Inr (Some (0, appendVarUInt n)))
    | F_DOUBLE \<Rightarrow> bindR (asDouble m) (\<lambda>n. Inr (Some (1, appendDouble n)))
    | F_BOOLEAN \<Rightarrow> bindR (asBool m) (\<lambda>b. Inr (Some (0, appendVarUInt (if b then 1 else 0))))
    | _ \<Rightarrow> Inr None)"

fun encodeObject :: "schema \<Rightarrow> message \<Rightarrow> byte list result" where
  "encodeObject s (Message i v) = encoding_error s i
     (bindR (fieldType s i) (\<lambda>ty.
        if ty = F_OBJECT then
          bindR (fieldSchema s i) (\<lambda>os.
            (case v of
               V_Object cs \<Rightarrow>
                 bindR (mapR (\<lambda>c. case os of None \<Rightarrow> Inl (Undefined NullDereference) | Some s' \<Rightarrow> encodeObject s' c) cs) (\<lambda>bss.
                   let cld = concat bss in Inr (field_key i 2 @ appendVarUInt (of_nat (length cld)) @ cld))
             | _ \<Rightarrow> Inl (Raise TypeError)))
        else bindR (encode_leaf ty (Message i v)) (\<lambda>e. Inr (case e of None \<Rightarrow> [] | Some (wire, bs) \<Rightarrow> field_key i wire @ bs))))"

definition encode_message :: "schema \<Rightarrow> message \<Rightarrow> byte list result" where
  "encode_message s m = bindR (asObject m) (\<lambda>cs. bindR (mapR (encodeObject s) cs) (\<lambda>bss. Inr (concat bss)))"

text \<open>A field that the schema does not have is skipped by its wire type.\<close>

definition skip_field :: "byte list \<Rightarrow> 64 word \<Rightarrow> nat \<Rightarrow> nat result" where
  "skip_field bs fkey k =
     (let wire = and fkey 7 in
      if wire = 0 then bindR (read_at message_readVarUInt bs k) (\<lambda>(v, k). Inr k)
      else if wire = 2 then bindR (read_at message_readVarUInt bs k) (\<lambda>(n, k). moved bs n k)
      else if wire = 5 then bindR (read_at message_readUInt32 bs k) (\<lambda>(v, k). Inr k)
      else if wire = 1 then bindR (read_at message_readUInt64 bs k) (\<lambda>(v, k). Inr k)
      else Inl (Raise RuntimeError))"

text \<open>The value of a field that is not an object. A type that is none reads nothing and adds nothing.\<close>

definition decode_leaf :: "field_type \<Rightarrow> byte list \<Rightarrow> nat \<Rightarrow> (message_value option \<times> nat) result" where
  "decode_leaf ty bs k = (case ty of
      F_UINT32 \<Rightarrow> bindR (read_at message_readVarUInt bs k) (\<lambda>(v, k). Inr (Some (V_UInt32 (ucast v)), k))
    | F_UINT64 \<Rightarrow> bindR (read_at message_readVarUInt bs k) (\<lambda>(v, k). Inr (Some (V_UInt64 v), k))
    | F_DATETIME \<Rightarrow> bindR (read_at message_readVarUInt bs k) (\<lambda>(v, k). Inr (Some (V_DateTime v), k))
    | F_DOUBLE \<Rightarrow> bindR (read_at message_readUInt64 bs k) (\<lambda>(v, k). Inr (Some (V_Double v), k))
    | F_BOOLEAN \<Rightarrow> bindR (read_at message_readVarUInt bs k) (\<lambda>(v, k). Inr (Some (V_Bool (v = 1)), k))
    | F_STRING \<Rightarrow> bindR (message_readLenencString bs k) (\<lambda>(str, k). Inr (Some (V_String str), k))
    | _ \<Rightarrow> Inr (None, k))"

text \<open>
  The loop of the decoder with the children it has made so far. It need not end: skipping a field can
  move the position back. \<open>fuel\<close> bounds its rounds and the depth of the objects.
\<close>

fun decode_fields :: "nat \<Rightarrow> schema \<Rightarrow> byte list \<Rightarrow> nat \<Rightarrow> message list \<Rightarrow> message list result" where
  "decode_fields 0 s bs k kids = Inl OutOfFuel"
| "decode_fields (Suc fuel) s bs k kids =
     (if length bs \<le> k then Inr kids
      else bindR (read_at message_readVarUInt bs k) (\<lambda>(fkey, k).
        let fid = ucast (drop_bit 3 fkey) in
        if \<not> hasField s fid then bindR (skip_field bs fkey k) (\<lambda>k. decode_fields fuel s bs k kids)
        else bindR (fieldType s fid) (\<lambda>ty.
          if ty = F_OBJECT then
            bindR (read_at message_readVarUInt bs k) (\<lambda>(len, k).
              if of_nat (length bs - k) < len then Inl (Raise BufferOverflowError)
              else bindR (fieldSchema s fid) (\<lambda>os.
                bindR (moved bs len k) (\<lambda>k'.
                bindR (deref os) (\<lambda>s'.
                bindR (decode_fields fuel s' (take (unat len) (drop k bs)) 0 []) (\<lambda>cs.
                  decode_fields fuel s bs k' (kids @ [Message fid (V_Object cs)]))))))
          else bindR (decode_leaf ty bs k) (\<lambda>(v, k).
            decode_fields fuel s bs k (kids @ (case v of None \<Rightarrow> [] | Some v \<Rightarrow> [Message fid v]))))))"

text \<open>Decoding adds to the children that the message has.\<close>

definition decode_message :: "nat \<Rightarrow> schema \<Rightarrow> byte list \<Rightarrow> message \<Rightarrow> message result" where
  "decode_message fuel s bs m = bindR (asObject m) (\<lambda>kids. bindR (decode_fields fuel s bs 0 kids) (\<lambda>kids'. Inr (Message (msg_id m) (V_Object kids'))))"

section \<open>Schemas\<close>

fun type_code :: "field_type \<Rightarrow> byte" where
  "type_code F_OBJECT = 0"
| "type_code F_BOOLEAN = 1"
| "type_code F_UINT32 = 2"
| "type_code F_STRING = 3"
| "type_code F_UINT64 = 4"
| "type_code F_DOUBLE = 5"
| "type_code F_DATETIME = 6"
| "type_code (F_OTHER t) = t"

definition type_of_code :: "byte \<Rightarrow> field_type" where
  "type_of_code b =
     (if b = 0 then F_OBJECT else if b = 1 then F_BOOLEAN else if b = 2 then F_UINT32 else if b = 3 then F_STRING
      else if b = 4 then F_UINT64 else if b = 5 then F_DOUBLE else if b = 6 then F_DATETIME else F_OTHER b)"

fun hint_code :: "encoding_hint \<Rightarrow> byte" where
  "hint_code H_NONE = 0"
| "hint_code H_BITPACK = 1"
| "hint_code H_LEB128 = 2"
| "hint_code (H_OTHER b) = b"

definition hint_of_code :: "byte \<Rightarrow> encoding_hint" where
  "hint_of_code b = (if b = 0 then H_NONE else if b = 1 then H_BITPACK else if b = 2 then H_LEB128 else H_OTHER b)"

definition bool_byte :: "bool \<Rightarrow> byte" where
  "bool_byte b = (if b then 1 else 0)"

fun encode_schema :: "schema \<Rightarrow> byte list result"
  and encode_field :: "field \<Rightarrow> byte list result" where
  "encode_schema (Schema name fs) =
     bindR (mapR encode_field fs) (\<lambda>bss.
       Inr (appendUInt8 1 @ appendLenencString (bytes_of_string name) @ appendVarUInt (of_nat (length fs)) @ concat bss))"
| "encode_field (Field i name ty ts rep opt enc sch) =
     (let start = appendVarUInt (ucast i) @ appendLenencString (bytes_of_string name) @ appendUInt8 (type_code ty) @
        appendVarUInt ts @ appendUInt8 (bool_byte rep) @ appendUInt8 (bool_byte opt) @ appendUInt8 (hint_code enc) in
      if ty = F_OBJECT then
        (case sch of
           None \<Rightarrow> Inl (Undefined NullDereference)
         | Some s \<Rightarrow> bindR (encode_schema s) (\<lambda>bs. Inr (start @ bs)))
      else Inr start)"

text \<open>
  The fields of a schema, one after the other; the schema of an object stands right behind its field.
  Each field takes bytes, so the bytes left bound the recursion, and the fuel of \<open>decode_schema\<close> is enough.
\<close>

definition read_schema_start :: "byte list \<Rightarrow> nat \<Rightarrow> ((string \<times> 64 word) \<times> nat) result" where
  "read_schema_start bs k =
     bindR (read_at message_readUInt8 bs k) (\<lambda>(version, k).
     bindR (message_readLenencString bs k) (\<lambda>(name, k).
     bindR (read_at message_readVarUInt bs k) (\<lambda>(n, k). Inr ((name, n), k))))"

definition read_field_start :: "byte list \<Rightarrow> nat \<Rightarrow> (field \<times> nat) result" where
  "read_field_start bs k =
     bindR (read_at message_readVarUInt bs k) (\<lambda>(i, k).
     bindR (message_readLenencString bs k) (\<lambda>(name, k).
     bindR (read_at message_readUInt8 bs k) (\<lambda>(ty, k).
     bindR (read_at message_readVarUInt bs k) (\<lambda>(ts, k).
     bindR (read_at message_readUInt8 bs k) (\<lambda>(rep, k).
     bindR (read_at message_readUInt8 bs k) (\<lambda>(opt, k).
     bindR (read_at message_readUInt8 bs k) (\<lambda>(enc, k).
       Inr (Field (ucast i) name (type_of_code ty) ts (0 < rep) (0 < opt) (hint_of_code enc) None, k))))))))"

fun decode_schema_fields :: "nat \<Rightarrow> nat \<Rightarrow> byte list \<Rightarrow> nat \<Rightarrow> (field list \<times> nat) result" where
  "decode_schema_fields fuel 0 bs k = Inr ([], k)"
| "decode_schema_fields 0 (Suc n) bs k = Inl OutOfFuel"
| "decode_schema_fields (Suc fuel) (Suc n) bs k =
     bindR (read_field_start bs k) (\<lambda>(f, k).
     bindR (case field_type f of
         F_OBJECT \<Rightarrow>
           bindR (read_schema_start bs k) (\<lambda>((name, m), k).
           bindR (decode_schema_fields fuel (unat m) bs k) (\<lambda>(fs, k).
             Inr (Some (Schema name fs), k)))
       | _ \<Rightarrow> Inr (None, k)) (\<lambda>(sch, k).
     bindR (decode_schema_fields fuel n bs k) (\<lambda>(fs, k).
       Inr (Field (field_id f) (field_name f) (field_type f) (type_size f) (repeated f) (optional f) (encoding f) sch # fs, k))))"

definition decode_schema :: "byte list \<Rightarrow> schema result" where
  "decode_schema bs =
     bindR (read_schema_start bs 0) (\<lambda>((name, n), k).
     bindR (decode_schema_fields (Suc (length bs)) (unat n) bs k) (\<lambda>(fs, k). Inr (Schema name fs)))"

end
