(* ===== verification/Message_Codec_Correct.thy ===== *)
theory Message_Codec_Correct
  imports Message_Codec Column_Correct
begin

text \<open>
  Messages and schemas survive their wire format, and a message of eleven bytes that keeps the decoder
  busy for ever.
\<close>

section \<open>Reading what was appended\<close>

lemma drop_shift: "drop k bs = s @ r \<Longrightarrow> drop (k + length s) bs = r"
  by (metis add.commute append_eq_conv_conj drop_drop)

lemma drop_within: "drop k bs = s @ r \<Longrightarrow> s \<noteq> [] \<or> k \<le> length bs \<Longrightarrow> k + length s + length r = length bs"
  using length_drop [of k bs] by (cases "k \<le> length bs") auto

lemma read_at_append:
  assumes "drop k bs = s @ r" and "s \<noteq> []"
    and "f \<lparr>contents = s @ r, limit = length (s @ r)\<rparr> = Inr (v, \<lparr>contents = r, limit = length r\<rparr>)"
  shows "read_at f bs k = Inr (v, k + length s)"
proof -
  have "length bs - k = length (s @ r)" using drop_within [OF assms(1)] assms(2) by simp
  then show ?thesis using assms drop_within [OF assms(1)] by (auto simp: read_at_def memory_at_def)
qed

lemma appendVarUInt_nonempty [simp]: "appendVarUInt v \<noteq> []"
  by (subst appendVarUInt.simps) (simp add: Let_def)

lemma read_at_var: "drop k bs = appendVarUInt v @ r \<Longrightarrow> read_at message_readVarUInt bs k = Inr (v, k + length (appendVarUInt v))"
  by (rule read_at_append) (simp_all add: message_readVarUInt_append)

lemma read_at_byte: "drop k bs = b # r \<Longrightarrow> read_at message_readUInt8 bs k = Inr (b, Suc k)"
  using read_at_append [of k bs "[b]" r message_readUInt8 b] by (simp add: message_readUInt8_def message_read_def)

lemma read_at_double:
  assumes "drop k bs = appendDouble v @ r"
  shows "read_at message_readUInt64 bs k = Inr (v, k + 8)"
proof -
  have len: "length (appendUInt64 v) = 8" by (simp add: appendUInt64_def)
  then have "appendUInt64 v \<noteq> []" by auto
  moreover have "message_readUInt64 \<lparr>contents = appendUInt64 v @ r, limit = length (appendUInt64 v @ r)\<rparr> = Inr (v, \<lparr>contents = r, limit = length r\<rparr>)"
    by (subst message_readUInt64_append) (simp_all add: len)
  ultimately show ?thesis using read_at_append [of k bs "appendUInt64 v" r message_readUInt64 v] assms len by (simp add: appendDouble_def)
qed

lemma moved_within: "k + unat n \<le> length bs \<Longrightarrow> length bs < 2 ^ 64 \<Longrightarrow> moved bs n k = Inr (k + unat n)"
proof -
  assume a: "k + unat n \<le> length bs" "length bs < 2 ^ 64"
  then have "unat (of_nat (k + unat n) :: 64 word) = k + unat n" by (simp only: unat_of_nat) (simp add: take_bit_nat_eq_self)
  then show ?thesis using a by (simp add: moved_def Let_def)
qed

lemma unat_length: "length s < 2 ^ 64 \<Longrightarrow> unat (of_nat (length s) :: 64 word) = length s"
  by (simp add: unat_of_nat take_bit_nat_eq_self)

lemma read_string_append:
  assumes "drop k bs = bytes_of_string s @ r" and "k \<le> length bs" and "length bs < 2 ^ 64"
  shows "read_string bs (of_nat (length s)) k = Inr (s, k + length s)"
proof -
  have len: "length (bytes_of_string s) = length s" by (simp add: bytes_of_string_def)
  then have "k + length s + length r = length bs" using drop_within [OF assms(1)] assms(2) by simp
  then show ?thesis
    using assms(1,3) moved_within [of k "of_nat (length s)" bs] len by (simp add: read_string_def unat_length)
qed

lemma read_lenenc:
  assumes "drop k bs = appendLenencString (bytes_of_string s) @ r" and "length bs < 2 ^ 64"
  shows "message_readLenencString bs k = Inr (s, k + length (appendLenencString (bytes_of_string s)))"
    and "drop (k + length (appendLenencString (bytes_of_string s))) bs = r"
proof -
  let ?v = "appendVarUInt (of_nat (length s))"
  have len: "length (bytes_of_string s) = length s" by (simp add: bytes_of_string_def)
  have d: "drop k bs = ?v @ (bytes_of_string s @ r)" using assms(1) len by (simp add: appendLenencString_def)
  have "drop (k + length ?v) bs = bytes_of_string s @ r" by (rule drop_shift [OF d])
  moreover have "k + length ?v \<le> length bs" using drop_within [OF d] by simp
  ultimately show "message_readLenencString bs k = Inr (s, k + length (appendLenencString (bytes_of_string s)))"
    using read_at_var [OF d] len assms(2) by (simp add: message_readLenencString_def read_string_append appendLenencString_def)
  show "drop (k + length (appendLenencString (bytes_of_string s))) bs = r" by (rule drop_shift [OF assms(1)])
qed

section \<open>Messages\<close>

fun typed :: "field_type \<Rightarrow> message_value \<Rightarrow> bool" where
  "typed F_BOOLEAN (V_Bool b) = True"
| "typed F_UINT32 (V_UInt32 v) = True"
| "typed F_STRING (V_String s) = True"
| "typed F_UINT64 (V_UInt64 v) = True"
| "typed F_DOUBLE (V_Double v) = True"
| "typed F_DATETIME (V_DateTime v) = True"
| "typed _ _ = False"

text \<open>Every field is one of the schema, with a value of its type and a number of at most 29 bits that is not zero.\<close>

fun codable :: "schema \<Rightarrow> message \<Rightarrow> bool" where
  "codable s (Message i v) \<longleftrightarrow> i \<noteq> 0 \<and> unat i < 2 ^ 29 \<and>
     (case field_numbered s i of
        None \<Rightarrow> False
      | Some f \<Rightarrow>
          (case v of
             V_Object cs \<Rightarrow> field_type f = F_OBJECT \<and>
               (case field_schema f of None \<Rightarrow> False | Some s' \<Rightarrow> (\<forall>c\<in>set cs. codable s' c))
           | _ \<Rightarrow> typed (field_type f) v))"

lemma key_number:
  assumes "unat (i :: 32 word) < 2 ^ 29" and "w = 0 \<or> w = 1 \<or> w = 2"
  shows "ucast (drop_bit 3 (ucast (or (push_bit 3 i) w) :: 64 word)) = i"
proof (rule bit_word_eqI)
  fix n assume n: "n < LENGTH(32)"
  have "i = take_bit 29 i" using assms(1) by (simp add: word_unat_eq_iff unsigned_take_bit_eq take_bit_nat_eq_self)
  then have high: "bit i n \<Longrightarrow> n < 29" by (metis bit_take_bit_iff)
  have "\<not> bit w (n + 3)" "\<not> bit w (3 + n)" using assms(2) by (auto simp: bit_1_iff bit_2_iff)
  then show "bit (ucast (drop_bit 3 (ucast (or (push_bit 3 i) w) :: 64 word)) :: 32 word) n = bit i n"
    using n high by (auto simp: bit_simps)
qed

text \<open>What encoding a field of the schema gives: its key and its data, by type.\<close>

definition reads_field :: "schema \<Rightarrow> message \<Rightarrow> byte list \<Rightarrow> bool" where
  "reads_field s c b \<longleftrightarrow> b \<noteq> [] \<and> (\<forall>bs k r kids fuel. drop k bs = b @ r \<longrightarrow> length bs < 2 ^ 64 \<longrightarrow> length b \<le> fuel \<longrightarrow>
     decode_fields (Suc fuel) s bs k kids = decode_fields fuel s bs (k + length b) (kids @ [c]))"

lemma field_key_nonempty [simp]: "field_key i w \<noteq> []"
  by (simp add: field_key_def)

text \<open>The start of a round of the decoder, at the key of a known field.\<close>

lemma decode_key:
  assumes "drop k bs = field_key i w @ r" and "w = 0 \<or> w = 1 \<or> w = 2" and "unat i < 2 ^ 29"
    and "field_numbered s i = Some f" and "i \<noteq> 0"
  shows "k < length bs" and "\<exists>fkey. read_at message_readVarUInt bs k = Inr (fkey, k + length (field_key i w)) \<and>
    ucast (drop_bit 3 fkey) = i" and "hasField s i" and "fieldType s i = Inr (field_type f)" and "fieldSchema s i = Inr (field_schema f)"
    and "drop (k + length (field_key i w)) bs = r"
proof -
  have "drop k bs \<noteq> []" using assms(1) by simp
  then show "k < length bs" by simp
  show "\<exists>fkey. read_at message_readVarUInt bs k = Inr (fkey, k + length (field_key i w)) \<and> ucast (drop_bit 3 fkey) = i"
    using read_at_var key_number [OF assms(3,2)] assms(1) unfolding field_key_def by blast
  show "hasField s i" "fieldType s i = Inr (field_type f)" "fieldSchema s i = Inr (field_schema f)"
    using assms(4,5) by (simp_all add: hasField_def fieldType_def fieldSchema_def)
  show "drop (k + length (field_key i w)) bs = r" by (rule drop_shift [OF assms(1)])
qed

lemma read_list:
  "list_all2 (reads_field s) cs bss \<Longrightarrow> drop k bs = concat bss \<Longrightarrow> length bs < 2 ^ 64 \<Longrightarrow> length (concat bss) < fuel \<Longrightarrow>
     decode_fields fuel s bs k kids = Inr (kids @ cs)"
proof (induction cs bss arbitrary: k kids fuel rule: list_all2_induct)
  case Nil
  then show ?case by (cases fuel) auto
next
  case (Cons c cs b bss)
  obtain n where n: "fuel = Suc n" "length b + length (concat bss) \<le> n" using Cons.prems(3) by (cases fuel) auto
  have b: "b \<noteq> []" using Cons.hyps(1) by (simp add: reads_field_def)
  have "drop k bs = b @ concat bss" using Cons.prems(1) by simp
  then have "decode_fields fuel s bs k kids = decode_fields n s bs (k + length b) (kids @ [c])"
    using Cons.hyps(1) Cons.prems(2) n unfolding reads_field_def by simp
  moreover have "drop (k + length b) bs = concat bss" using drop_shift Cons.prems(1) by simp
  moreover have "length (concat bss) < n" using n(2) b by (cases b) auto
  ultimately show ?case using Cons.IH [of "k + length b" n "kids @ [c]"] Cons.prems(2) by simp
qed

lemma ucast_up_down32: "ucast (ucast (v :: 32 word) :: 64 word) = v"
  by (rule bit_word_eqI) (simp add: bit_simps)

text \<open>A value of its type is read back from its bytes.\<close>

lemma leaf_roundtrip:
  assumes "typed ty v"
  shows "\<exists>w b. encode_leaf ty (Message i v) = Inr (Some (w, b)) \<and> ty \<noteq> F_OBJECT \<and> (w = 0 \<or> w = 1 \<or> w = 2) \<and>
    (\<forall>bs k r. drop k bs = b @ r \<longrightarrow> length bs < 2 ^ 64 \<longrightarrow> decode_leaf ty bs k = Inr (Some v, k + length b))"
proof (cases "(ty, v)" rule: typed.cases)
  case (3 str)
  then show ?thesis using read_lenenc by (auto simp: encode_leaf_def decode_leaf_def)
qed (use assms read_at_var read_at_double in
      \<open>auto simp: encode_leaf_def decode_leaf_def appendDouble_def appendUInt64_def ucast_up_down32\<close>)

lemma object_reads:
  assumes "field_numbered s i = Some f" and "i \<noteq> 0" and "unat i < 2 ^ 29" and "field_type f = F_OBJECT"
    and "field_schema f = Some s'" and "list_all2 (reads_field s') cs bss"
  shows "reads_field s (Message i (V_Object cs)) (field_key i 2 @ appendVarUInt (of_nat (length (concat bss))) @ concat bss)"
  unfolding reads_field_def
proof (intro conjI allI impI)
  obtain cld n where cld: "cld = concat bss" and n: "n = (of_nat (length cld) :: 64 word)" by blast
  fix bs k r kids fuel
  assume "drop k bs = (field_key i 2 @ appendVarUInt (of_nat (length (concat bss))) @ concat bss) @ r" and len: "length bs < 2 ^ 64"
    and fuel: "length (field_key i 2 @ appendVarUInt (of_nat (length (concat bss))) @ concat bss) \<le> fuel"
  then have d: "drop k bs = field_key i 2 @ (appendVarUInt n @ (cld @ r))" by (simp add: cld n)
  note k = decode_key [OF d _ assms(3,1,2), simplified]
  obtain k2 where k2: "k2 = k + length (field_key i 2) + length (appendVarUInt n)" by blast
  have start: "read_at message_readVarUInt bs (k + length (field_key i 2)) = Inr (n, k2)" using read_at_var [OF k(6)] by (simp add: k2)
  have body: "drop k2 bs = cld @ r" "k2 + length cld + length r = length bs"
    using drop_shift [OF k(6)] drop_within [OF k(6)] by (simp_all add: k2)
  have size: "unat n = length cld" unfolding n using body(2) len by (intro unat_length) simp
  have "unat (of_nat (length bs - k2) :: 64 word) = length bs - k2" using len by (simp add: unat_of_nat take_bit_nat_eq_self)
  then have room: "\<not> of_nat (length bs - k2) < n" using size body(2) by (simp add: word_less_nat_alt)
  have go: "moved bs n k2 = Inr (k2 + length cld)" using moved_within [of k2 n bs] size body(2) len by simp
  have "length cld < fuel" using fuel by (cases "field_key i 2") (auto simp: cld)
  then have inner: "decode_fields fuel s' cld 0 [] = Inr cs"
    using read_list [OF assms(6), of 0 cld fuel "[]"] body(2) len by (simp add: cld)
  have "decode_fields (Suc fuel) s bs k kids = decode_fields fuel s bs (k2 + length cld) (kids @ [Message i (V_Object cs)])"
    using k(1-5) start room go inner size body(1) assms(4,5) by auto
  then show "decode_fields (Suc fuel) s bs k kids = decode_fields fuel s bs
      (k + length (field_key i 2 @ appendVarUInt (of_nat (length (concat bss))) @ concat bss)) (kids @ [Message i (V_Object cs)])"
    by (simp add: k2 n cld add.assoc)
qed simp

lemma codable_reads: "codable s c \<Longrightarrow> \<exists>b. encodeObject s c = Inr b \<and> reads_field s c b"
proof (induction s c rule: codable.induct)
  case (1 s i v)
  obtain f where f: "field_numbered s i = Some f" "i \<noteq> 0" "unat i < 2 ^ 29" using "1.prems"(1) by (auto split: option.splits)
  have ty: "fieldType s i = Inr (field_type f)" "fieldSchema s i = Inr (field_schema f)"
    using f by (simp_all add: fieldType_def fieldSchema_def)
  show ?case
  proof (cases "\<exists>cs. v = V_Object cs")
    case False
    then have "typed (field_type f) v" using "1.prems" f by (auto split: message_value.splits)
    from leaf_roundtrip [OF this, of i] obtain w b where leaf: "encode_leaf (field_type f) (Message i v) = Inr (Some (w, b))"
      "field_type f \<noteq> F_OBJECT" "w = 0 \<or> w = 1 \<or> w = 2"
      "\<forall>bs k r. drop k bs = b @ r \<longrightarrow> length bs < 2 ^ 64 \<longrightarrow> decode_leaf (field_type f) bs k = Inr (Some v, k + length b)" by blast
    have "reads_field s (Message i v) (field_key i w @ b)"
      unfolding reads_field_def
    proof (intro conjI allI impI)
      fix bs k r kids fuel
      assume "drop k bs = (field_key i w @ b) @ r" and len: "length bs < 2 ^ 64"
      then have d: "drop k bs = field_key i w @ (b @ r)" by simp
      note k = decode_key [OF d leaf(3) f(3,1,2)]
      show "decode_fields (Suc fuel) s bs k kids = decode_fields fuel s bs (k + length (field_key i w @ b)) (kids @ [Message i v])"
        using k(1-5) leaf(2,4) k(6) len by (auto simp: add.assoc)
    qed simp
    moreover have "encodeObject s (Message i v) = Inr (field_key i w @ b)"
      using leaf(1,2) ty by (simp add: encoding_error_def)
    ultimately show ?thesis by blast
  next
    case True
    then obtain cs where v: "v = V_Object cs" by blast
    then obtain s' where s': "field_type f = F_OBJECT" "field_schema f = Some s'" "\<forall>c\<in>set cs. codable s' c"
      using "1.prems" f by (auto split: option.splits)
    have "\<forall>c\<in>set cs. \<exists>b. encodeObject s' c = Inr b \<and> reads_field s' c b" using "1.IH" [OF f(1) v s'(2)] s'(3) by blast
    then obtain g where g: "\<forall>c\<in>set cs. encodeObject s' c = Inr (g c) \<and> reads_field s' c (g c)" by metis
    then have "mapR (encodeObject s') cs = Inr (map g cs)" by (intro mapR_Inr) blast
    moreover have "list_all2 (reads_field s') cs (map g cs)" using g by (simp add: list_all2_conv_all_nth)
    ultimately obtain bss where bss: "mapR (encodeObject s') cs = Inr bss" "list_all2 (reads_field s') cs bss" by blast
    have "reads_field s (Message i v) (field_key i 2 @ appendVarUInt (of_nat (length (concat bss))) @ concat bss)"
      by (rule object_reads [OF f(1) f(2,3) s'(1,2) bss(2), folded v])
    then show ?thesis using bss(1) v s' ty by (simp add: encoding_error_def Let_def)
  qed
qed

text \<open>
  C17. Messages survive their wire format. A message whose fields are all of the schema, with values of
  their types, at every depth, is encoded; when the bytes are fewer than 2 ^ 64 the decoder, given one
  round for each byte, ends and gives the same message: the same fields in the same order.
\<close>

theorem message_codec_roundtrip:
  assumes "\<forall>c\<in>set cs. codable s c"
  shows "\<exists>bs. encode_message s (Message i (V_Object cs)) = Inr bs \<and>
    (length bs < 2 ^ 64 \<longrightarrow> (\<forall>fuel > length bs. decode_message fuel s bs (new_object i) = Inr (Message i (V_Object cs))))"
proof -
  obtain g where g: "\<forall>c\<in>set cs. encodeObject s c = Inr (g c) \<and> reads_field s c (g c)" using codable_reads assms by metis
  have "mapR (encodeObject s) cs = Inr (map g cs)" using g by (intro mapR_Inr) blast
  moreover have "list_all2 (reads_field s) cs (map g cs)" using g by (simp add: list_all2_conv_all_nth)
  then have "length (concat (map g cs)) < 2 ^ 64 \<Longrightarrow> length (concat (map g cs)) < fuel \<Longrightarrow>
      decode_fields fuel s (concat (map g cs)) 0 [] = Inr cs" for fuel
    using read_list [of s cs "map g cs" 0 "concat (map g cs)" fuel "[]"] by simp
  ultimately show ?thesis by (simp add: encode_message_def decode_message_def new_object_def)
qed

text \<open>A number, a time before it and a list of two objects.\<close>

definition coded_schema :: schema where
  "coded_schema = Schema ''event'' [Field 1 ''id'' F_UINT32 0 False False H_NONE None, Field 7 ''at'' F_DATETIME 0 False True H_NONE None,
     mkObjectField 2 ''tag'' True False (Schema ''tag'' [Field 1 ''k'' F_STRING 0 False True H_NONE None])]"

theorem message_codec_roundtrip_witness:
  "\<exists>bs. encode_message coded_schema (Message 0 (V_Object [Message 7 (V_DateTime 300), Message 1 (V_UInt32 7),
       Message 2 (V_Object [Message 1 (V_String ''a'')]), Message 2 (V_Object [])])) = Inr bs \<and> bs = [56, 172, 2, 8, 7, 18, 3, 10, 1, 97, 18, 0] \<and>
     decode_message 100 coded_schema bs (new_object 0) = Inr (Message 0 (V_Object [Message 7 (V_DateTime 300), Message 1 (V_UInt32 7),
       Message 2 (V_Object [Message 1 (V_String ''a'')]), Message 2 (V_Object [])]))"
  using message_codec_roundtrip [of "[Message 7 (V_DateTime 300), Message 1 (V_UInt32 7),
       Message 2 (V_Object [Message 1 (V_String ''a'')]), Message 2 (V_Object [])]" coded_schema 0]
  by (simp add: coded_schema_def mkObjectField_def field_numbered_def encode_message_def encoding_error_def fieldType_def
      fieldSchema_def encode_leaf_def field_key_def appendVarUInt.simps appendLenencString_def bytes_of_string_def Let_def)

text \<open>
  Eleven bytes: the key of an unknown field with a length, and the length 2 ^ 64 - 11. Skipping it wraps
  the position around to the start, for ever.
\<close>

definition endless_bytes :: "byte list" where
  "endless_bytes = [42, 245, 255, 255, 255, 255, 255, 255, 255, 255, 1]"

lemma endless_skip: "read_at message_readVarUInt endless_bytes 0 = Inr (42, 1)" "skip_field endless_bytes 42 1 = Inr 0"
  by (simp_all add: endless_bytes_def read_at_def memory_at_def message_readVarUInt_def message_read_var.simps message_read_def
      skip_field_def moved_def Let_def)

lemma decode_endless: "\<not> hasField s 5 \<Longrightarrow> decode_fields fuel s endless_bytes 0 kids = Inl OutOfFuel"
proof (induction fuel)
  case (Suc fuel)
  have "\<not> length endless_bytes \<le> 0" by (simp add: endless_bytes_def)
  moreover have "ucast (drop_bit 3 (42 :: 64 word)) = (5 :: 32 word)" by (simp add: drop_bit_eq_div)
  ultimately show ?case using Suc endless_skip by simp
qed simp

section \<open>Schemas\<close>

text \<open>A schema that the codec can hold: codes as the enums have them, and sub-schemas only at objects.\<close>

fun codable_schema :: "schema \<Rightarrow> bool"
  and codable_field :: "field \<Rightarrow> bool" where
  "codable_schema (Schema name fs) \<longleftrightarrow> (\<forall>f\<in>set fs. codable_field f)"
| "codable_field (Field i name ty ts rep opt enc sch) \<longleftrightarrow>
     type_of_code (type_code ty) = ty \<and> hint_of_code (hint_code enc) = enc \<and>
     (if ty = F_OBJECT then (case sch of None \<Rightarrow> False | Some s \<Rightarrow> codable_schema s) else sch = None)"

definition reads_schema :: "schema \<Rightarrow> byte list \<Rightarrow> bool" where
  "reads_schema s b \<longleftrightarrow> b \<noteq> [] \<and> (\<forall>bs k r fuel. drop k bs = b @ r \<longrightarrow> length bs < 2 ^ 64 \<longrightarrow> length b \<le> fuel \<longrightarrow>
     bindR (read_schema_start bs k) (\<lambda>((name, n), k). bindR (decode_schema_fields fuel (unat n) bs k) (\<lambda>(fs, k). Inr (Schema name fs, k))) =
       Inr (s, k + length b))"

definition reads_one :: "field \<Rightarrow> byte list \<Rightarrow> bool" where
  "reads_one f b \<longleftrightarrow> b \<noteq> [] \<and> (\<forall>bs k r fuel n. drop k bs = b @ r \<longrightarrow> length bs < 2 ^ 64 \<longrightarrow> length b \<le> Suc fuel \<longrightarrow>
     decode_schema_fields (Suc fuel) (Suc n) bs k = bindR (decode_schema_fields fuel n bs (k + length b)) (\<lambda>(fs, k). Inr (f # fs, k)))"

lemma read_fields:
  "list_all2 reads_one fs bss \<Longrightarrow> drop k bs = concat bss @ r \<Longrightarrow> length bs < 2 ^ 64 \<Longrightarrow> length (concat bss) \<le> fuel \<Longrightarrow>
     decode_schema_fields fuel (length fs) bs k = Inr (fs, k + length (concat bss))"
proof (induction fs bss arbitrary: k fuel rule: list_all2_induct)
  case (Cons f fs b bss)
  have b: "b \<noteq> []" using Cons.hyps(1) by (simp add: reads_one_def)
  then obtain n where n: "fuel = Suc n" "length b \<le> Suc n" "length (concat bss) \<le> n"
    using Cons.prems(3) by (cases fuel; cases b) auto
  have d: "drop k bs = b @ (concat bss @ r)" using Cons.prems(1) by simp
  then have "decode_schema_fields fuel (length (f # fs)) bs k = bindR (decode_schema_fields n (length fs) bs (k + length b)) (\<lambda>(fs, k). Inr (f # fs, k))"
    using Cons.hyps(1) Cons.prems(2) n(1,2) unfolding reads_one_def by simp
  moreover have "drop (k + length b) bs = concat bss @ r" by (rule drop_shift [OF d])
  ultimately show ?case using Cons.IH [of "k + length b" n] Cons.prems(2) n(3) by (simp add: add.assoc)
qed simp

lemma read_var_shift:
  assumes "drop k bs = appendVarUInt v @ r"
  shows "read_at message_readVarUInt bs k = Inr (v, k + length (appendVarUInt v))" and "drop (k + length (appendVarUInt v)) bs = r"
  using read_at_var [OF assms] drop_shift [OF assms] by simp_all

lemma read_byte_shift:
  assumes "drop k bs = b # r"
  shows "read_at message_readUInt8 bs k = Inr (b, Suc k)" and "drop (Suc k) bs = r"
  using read_at_byte [OF assms] drop_shift [of k bs "[b]" r] assms by simp_all

lemma bool_byte_back: "(0 < bool_byte b) = b"
  by (simp add: bool_byte_def)

text \<open>The part of a field before the schema of an object.\<close>

definition field_start :: "field \<Rightarrow> byte list" where
  "field_start f = appendVarUInt (ucast (field_id f)) @ appendLenencString (bytes_of_string (field_name f)) @
     appendUInt8 (type_code (field_type f)) @ appendVarUInt (type_size f) @ appendUInt8 (bool_byte (repeated f)) @
     appendUInt8 (bool_byte (optional f)) @ appendUInt8 (hint_code (encoding f))"

lemma field_start_read:
  assumes "drop k bs = field_start (Field i name ty ts rep opt enc sch) @ r" and "length bs < 2 ^ 64"
    and "type_of_code (type_code ty) = ty" and "hint_of_code (hint_code enc) = enc"
  shows "read_field_start bs k = Inr (Field i name ty ts rep opt enc None, k + length (field_start (Field i name ty ts rep opt enc sch)))"
proof -
  have d: "drop k bs = appendVarUInt (ucast i) @ (appendLenencString (bytes_of_string name) @
      (type_code ty # (appendVarUInt ts @ (bool_byte rep # bool_byte opt # hint_code enc # r))))"
    using assms(1) by (simp add: field_start_def appendUInt8_def)
  note a = read_var_shift [OF d]
  note b = read_lenenc [OF a(2) assms(2)]
  note c = read_byte_shift [OF b(2)]
  note e = read_var_shift [OF c(2)]
  note f = read_byte_shift [OF e(2)]
  note g = read_byte_shift [OF f(2)]
  note h = read_byte_shift [OF g(2)]
  show ?thesis
    using a(1) b(1) c(1) e(1) f(1) g(1) h(1) assms(3,4)
    by (simp add: read_field_start_def field_start_def appendUInt8_def ucast_up_down32 bool_byte_back)
qed

lemma schema_reads:
  assumes "list_all2 reads_one fs bss" and "b = appendUInt8 1 @ appendLenencString (bytes_of_string name) @ appendVarUInt (of_nat (length fs)) @ concat bss"
  shows "reads_schema (Schema name fs) b"
  unfolding reads_schema_def
proof (intro conjI allI impI)
  show "b \<noteq> []" using assms(2) by (simp add: appendUInt8_def)
  fix bs k r fuel
  assume "drop k bs = b @ r" and len: "length bs < 2 ^ 64" and fuel: "length b \<le> fuel"
  then have d: "drop k bs = 1 # (appendLenencString (bytes_of_string name) @ (appendVarUInt (of_nat (length fs)) @ (concat bss @ r)))"
    using assms(2) by (simp add: appendUInt8_def)
  note a = read_byte_shift [OF d]
  note c = read_lenenc [OF a(2) len]
  note e = read_var_shift [OF c(2)]
  have "\<forall>b\<in>set bss. b \<noteq> []" using assms(1) by (auto simp: list_all2_conv_all_nth reads_one_def in_set_conv_nth)
  then have "length bss \<le> length (concat bss)"
    by (induction bss) (auto simp: Suc_le_eq neq_Nil_conv)
  moreover have "length (concat bss) \<le> length bs" using drop_within [OF e(2)] drop_within [OF c(2)] by simp
  ultimately have "unat (of_nat (length fs) :: 64 word) = length fs" using len list_all2_lengthD [OF assms(1)] by (intro unat_length) simp
  moreover have "decode_schema_fields fuel (length fs) bs (Suc k + length (appendLenencString (bytes_of_string name)) + length (appendVarUInt (of_nat (length fs)))) =
      Inr (fs, Suc k + length (appendLenencString (bytes_of_string name)) + length (appendVarUInt (of_nat (length fs))) + length (concat bss))"
    using fuel assms(2) by (intro read_fields [OF assms(1) e(2) len]) simp
  ultimately show "bindR (read_schema_start bs k) (\<lambda>((name, n), k). bindR (decode_schema_fields fuel (unat n) bs k) (\<lambda>(fs, k). Inr (Schema name fs, k))) =
      Inr (Schema name fs, k + length b)"
    using a(1) c(1) e(1) by (simp add: read_schema_start_def assms(2) appendUInt8_def)
qed

lemma schema_codec:
  "codable_schema s \<Longrightarrow> \<exists>b. encode_schema s = Inr b \<and> reads_schema s b"
  "codable_field f \<Longrightarrow> \<exists>b. encode_field f = Inr b \<and> reads_one f b"
proof (induction s and f rule: encode_schema_encode_field.induct)
  case (1 name fs)
  then obtain g where g: "\<forall>f\<in>set fs. encode_field f = Inr (g f) \<and> reads_one f (g f)" by (metis codable_schema.simps)
  then have "mapR encode_field fs = Inr (map g fs)" by (intro mapR_Inr) blast
  moreover have "list_all2 reads_one fs (map g fs)" using g by (simp add: list_all2_conv_all_nth)
  ultimately show ?case using schema_reads by (simp del: append.simps)
next
  case (2 i name ty ts rep opt enc sch)
  let ?f = "Field i name ty ts rep opt enc sch"
  have codes: "type_of_code (type_code ty) = ty" "hint_of_code (hint_code enc) = enc" using "2.prems" by simp_all
  have start: "field_start ?f \<noteq> []" by (simp add: field_start_def)
  show ?case
  proof (cases "ty = F_OBJECT")
    case False
    then have "sch = None" using "2.prems" by simp
    then have "reads_one ?f (field_start ?f)"
      using False start field_start_read [OF _ _ codes] by (auto simp: reads_one_def split: field_type.split)
    then show ?thesis using False by (simp add: field_start_def Let_def)
  next
    case True
    then obtain s where s: "sch = Some s" "codable_schema s" using "2.prems" by (auto split: option.splits)
    then obtain b where b: "encode_schema s = Inr b" "reads_schema s b" using "2.IH" [OF refl True s(1)] by blast
    have "reads_one ?f (field_start ?f @ b)"
      unfolding reads_one_def
    proof (intro conjI allI impI)
      fix bs k r fuel n
      assume "drop k bs = (field_start ?f @ b) @ r" and len: "length bs < 2 ^ 64" and fuel: "length (field_start ?f @ b) \<le> Suc fuel"
      then have d: "drop k bs = field_start ?f @ (b @ r)" by simp
      have short: "length b \<le> fuel" using fuel start by (cases "field_start ?f") auto
      have "bindR (read_schema_start bs (k + length (field_start ?f))) (\<lambda>((name, m), k).
          bindR (decode_schema_fields fuel (unat m) bs k) (\<lambda>(fs, k). Inr (Schema name fs, k))) = Inr (s, k + length (field_start ?f) + length b)"
        using b(2) drop_shift [OF d] len short unfolding reads_schema_def by blast
      then show "decode_schema_fields (Suc fuel) (Suc n) bs k = bindR (decode_schema_fields fuel n bs (k + length (field_start ?f @ b))) (\<lambda>(fs, k). Inr (?f # fs, k))"
        using field_start_read [OF d len codes] True s(1)
        by (auto simp: bindR_eq_Inr_iff add.assoc split: prod.splits)
    qed (use start in simp)
    then show ?thesis using True s(1) b(1) by (simp add: field_start_def Let_def)
  qed
qed

text \<open>Reading moves on within the bytes, and never lacks fuel.\<close>

definition forward :: "nat \<Rightarrow> (byte list \<Rightarrow> nat \<Rightarrow> ('a \<times> nat) result) \<Rightarrow> bool" where
  "forward n f \<longleftrightarrow> (\<forall>bs k. k \<le> length bs \<longrightarrow> (case f bs k of Inl e \<Rightarrow> e \<noteq> OutOfFuel | Inr (x, k') \<Rightarrow> k + n \<le> k' \<and> k' \<le> length bs))"

lemma forward_bind:
  assumes "forward n f" and "\<And>x. forward m (g x)"
  shows "forward n (\<lambda>bs k. bindR (f bs k) (\<lambda>(x, k). g x bs k))"
  unfolding forward_def
proof (intro allI impI)
  fix bs :: "byte list" and k assume k: "k \<le> length bs"
  show "case bindR (f bs k) (\<lambda>(x, k). g x bs k) of Inl e \<Rightarrow> e \<noteq> OutOfFuel | Inr (x, k') \<Rightarrow> k + n \<le> k' \<and> k' \<le> length bs"
  proof (cases "f bs k")
    case (Inr y)
    obtain x k1 where y: "y = (x, k1)" by (cases y)
    then have "k + n \<le> k1" "k1 \<le> length bs" using assms(1) k Inr unfolding forward_def by fastforce+
    then show ?thesis using assms(2) [of x] Inr y unfolding forward_def by (fastforce split: sum.splits)
  qed (use assms(1) k in \<open>auto simp: forward_def split: sum.splits\<close>)
qed

lemma forward_return: "forward 0 (\<lambda>bs k. Inr (x, k))"
  by (simp add: forward_def)

lemma forward_read_at:
  assumes "\<And>m. case f m of Inl e \<Rightarrow> e \<noteq> OutOfFuel | Inr (x, m') \<Rightarrow> limit m' + n \<le> limit m"
  shows "forward n (read_at f)"
  unfolding forward_def
proof (intro allI impI)
  fix bs :: "byte list" and k assume "k \<le> length bs"
  then show "case read_at f bs k of Inl e \<Rightarrow> e \<noteq> OutOfFuel | Inr (x, k') \<Rightarrow> k + n \<le> k' \<and> k' \<le> length bs"
    using assms [of "memory_at bs k"] by (auto simp: read_at_def memory_at_def split: sum.splits)
qed

lemma read_var_forward:
  "case message_read_var i val m of Inl e \<Rightarrow> e \<noteq> OutOfFuel | Inr (x, m') \<Rightarrow> limit m' + 1 \<le> limit m"
proof (induction i val m rule: message_read_var.induct)
  case (1 i val m)
  show ?case
  proof (cases "message_read 1 m")
    case (Inl e)
    then show ?thesis by (subst message_read_var.simps) (auto simp: message_read_def split: if_splits)
  next
    case (Inr y)
    obtain bs m1 where y: "y = (bs, m1)" by (cases y)
    have less: "limit m1 + 1 \<le> limit m" using Inr y by (auto simp: message_read_def split: if_splits)
    show ?thesis
    proof (cases "64 \<le> 7 * i \<or> and (hd bs) 128 = 0")
      case True
      then show ?thesis using Inr y less by (subst message_read_var.simps) (auto simp: Let_def)
    next
      case False
      then have big: "\<not> 64 \<le> 7 * i" "and (hd bs) 128 \<noteq> 0" by auto
      note rest = "1.IH" [OF Inr [unfolded y] refl big(1) refl refl big(2)]
      then show ?thesis using Inr y less big by (subst message_read_var.simps) (auto simp: Let_def split: sum.splits)
    qed
  qed
qed

lemma forward_reads: "forward 1 (read_at message_readVarUInt)" "forward 1 (read_at message_readUInt8)"
  by (rule forward_read_at, simp add: message_readVarUInt_def read_var_forward [simplified])
     (rule forward_read_at, auto simp: message_readUInt8_def message_read_def split: sum.splits)

lemma forward_string: "forward 0 (\<lambda>bs k. read_string bs n k)"
  by (auto simp: forward_def read_string_def moved_def Let_def split: sum.splits)

lemma forward_weaken: "forward n f \<Longrightarrow> m \<le> n \<Longrightarrow> forward m f"
  unfolding forward_def by (fastforce split: sum.splits)

lemma forward_starts: "forward 1 read_schema_start" "forward 1 read_field_start"
  unfolding read_schema_start_def [abs_def] read_field_start_def [abs_def] message_readLenencString_def [abs_def]
  by (intro forward_bind [where m = 0] forward_reads forward_weaken [OF forward_reads(1)] forward_weaken [OF forward_reads(2)]
      forward_string forward_return; simp)+

lemma schema_fields_forward:
  "k \<le> length bs \<Longrightarrow> length bs - k < fuel \<Longrightarrow>
     case decode_schema_fields fuel n bs k of Inl e \<Rightarrow> e \<noteq> OutOfFuel | Inr (fs, k') \<Rightarrow> k \<le> k' \<and> k' \<le> length bs"
proof (induction fuel n bs k rule: decode_schema_fields.induct)
  case (3 fuel n bs k)
  show ?case
  proof (cases "read_field_start bs k")
    case (Inl e)
    then show ?thesis using forward_starts(2) "3.prems"(1) by (auto simp: forward_def split: sum.splits)
  next
    case (Inr y)
    obtain f k1 where y: "y = (f, k1)" by (cases y)
    have k1: "k + 1 \<le> k1" "k1 \<le> length bs" using forward_starts(2) "3.prems"(1) Inr y unfolding forward_def by fastforce+
    obtain sub where sub: "sub = (case field_type f of
         F_OBJECT \<Rightarrow> bindR (read_schema_start bs k1) (\<lambda>((name, m), k). bindR (decode_schema_fields fuel (unat m) bs k) (\<lambda>(fs, k). Inr (Some (Schema name fs), k)))
       | _ \<Rightarrow> Inr (None, k1))" by blast
    have within: "case sub of Inl e \<Rightarrow> e \<noteq> OutOfFuel | Inr (x, k2) \<Rightarrow> k1 \<le> k2 \<and> k2 \<le> length bs"
    proof (cases "field_type f = F_OBJECT")
      case False
      then show ?thesis using k1(2) by (cases "field_type f") (simp_all add: sub)
    next
      case True
      show ?thesis
      proof (cases "read_schema_start bs k1")
        case (Inl e)
        then show ?thesis using forward_starts(1) k1(2) True by (auto simp: sub forward_def split: sum.splits)
      next
        case (Inr z)
        obtain name m k2 where z: "z = ((name, m), k2)" by (cases z) auto
        have k2: "k1 + 1 \<le> k2" "k2 \<le> length bs" using forward_starts(1) k1(2) Inr z unfolding forward_def by fastforce+
        then have short: "length bs - k2 < fuel" using k1 "3.prems" by linarith
        have "case decode_schema_fields fuel (unat m) bs k2 of Inl e \<Rightarrow> e \<noteq> OutOfFuel | Inr (fs, k') \<Rightarrow> k2 \<le> k' \<and> k' \<le> length bs"
          using "3.IH"(1) [OF \<open>read_field_start bs k = Inr y\<close> y [symmetric] True Inr z [symmetric] refl k2(2) short]
          by simp
        then show ?thesis using True Inr z k2 by (auto simp: sub split: sum.splits)
      qed
    qed
    have step: "decode_schema_fields (Suc fuel) (Suc n) bs k = bindR sub (\<lambda>(sch, k). bindR (decode_schema_fields fuel n bs k) (\<lambda>(fs, k).
        Inr (Field (field_id f) (field_name f) (field_type f) (type_size f) (repeated f) (optional f) (encoding f) sch # fs, k)))"
      by (simp add: Inr y sub)
    show ?thesis
    proof (cases sub)
      case (Inl e)
      then show ?thesis using within step by simp
    next
      case (Inr w)
      obtain sch k2 where w: "w = (sch, k2)" by (cases w)
      then have k2: "k1 \<le> k2" "k2 \<le> length bs" "length bs - k2 < fuel" using within Inr k1 "3.prems" by auto
      have "case decode_schema_fields fuel n bs k2 of Inl e \<Rightarrow> e \<noteq> OutOfFuel | Inr (fs, k') \<Rightarrow> k2 \<le> k' \<and> k' \<le> length bs"
        using "3.IH"(2) [OF \<open>read_field_start bs k = Inr y\<close> y [symmetric] Inr [unfolded sub] w [symmetric] k2(2,3)] .
      then show ?thesis using step Inr w k1 k2 by (auto split: sum.splits)
    qed
  qed
qed simp_all

text \<open>Decoding a schema ends, whatever the bytes: its fuel is enough.\<close>

lemma decode_schema_fuel: "decode_schema bs \<noteq> Inl OutOfFuel"
proof (cases "read_schema_start bs 0")
  case (Inl e)
  then show ?thesis using forward_starts(1) by (auto simp: forward_def decode_schema_def split: sum.splits)
next
  case (Inr y)
  obtain name n k where y: "y = ((name, n), k)" by (cases y) auto
  have "k \<le> length bs" using forward_starts(1) [unfolded forward_def, rule_format, of 0 bs] Inr y by simp
  moreover have "length bs - k < Suc (length bs)" by simp
  ultimately show ?thesis
    using schema_fields_forward [of k bs "Suc (length bs)" "unat n"] Inr y
    by (auto simp: decode_schema_def bindR_eq_Inl_iff simp del: decode_schema_fields.simps split: sum.splits)
qed

text \<open>
  C18. Schemas survive their wire format: every schema whose objects, and no other fields, have schemas of
  their own, at every depth, is encoded, and decoding the bytes, when they are fewer than 2 ^ 64, gives the
  schema with all of its names, numbers, types, sizes, flags and encodings.
\<close>

theorem schema_codec_roundtrip:
  assumes "codable_schema s"
  shows "\<exists>bs. encode_schema s = Inr bs \<and> (length bs < 2 ^ 64 \<longrightarrow> decode_schema bs = Inr s)"
proof -
  obtain b where b: "encode_schema s = Inr b" "reads_schema s b" using schema_codec(1) [OF assms] by blast
  have "decode_schema b = Inr s" if len: "length b < 2 ^ 64"
  proof -
    have "bindR (read_schema_start b 0) (\<lambda>((name, n), k). bindR (decode_schema_fields (Suc (length b)) (unat n) b k) (\<lambda>(fs, k). Inr (Schema name fs, k))) = Inr (s, length b)"
      using b(2) [unfolded reads_schema_def, THEN conjunct2, rule_format, of 0 b "[]" "Suc (length b)"] len by simp
    then show ?thesis by (auto simp: decode_schema_def bindR_eq_Inr_iff split: prod.splits)
  qed
  then show ?thesis using b(1) by blast
qed

theorem schema_codec_roundtrip_witness:
  "\<exists>bs. encode_schema (Schema ''e'' [Field 7 ''at'' F_DATETIME 300 False True H_LEB128 None,
      mkObjectField 2 ''t'' True False (Schema ''u'' [])]) = Inr bs \<and>
    bs = [1, 1, 101, 2, 7, 2, 97, 116, 6, 172, 2, 0, 1, 2, 2, 1, 116, 0, 0, 1, 0, 0, 1, 1, 117, 0] \<and>
    decode_schema bs = Inr (Schema ''e'' [Field 7 ''at'' F_DATETIME 300 False True H_LEB128 None,
      mkObjectField 2 ''t'' True False (Schema ''u'' [])])"
  using schema_codec_roundtrip [of "Schema ''e'' [Field 7 ''at'' F_DATETIME 300 False True H_LEB128 None,
      mkObjectField 2 ''t'' True False (Schema ''u'' [])]"]
  by (simp add: mkObjectField_def appendVarUInt.simps appendLenencString_def appendUInt8_def bytes_of_string_def bool_byte_def
      type_of_code_def hint_of_code_def Let_def)

end
