(* ===== verification/Civil_Time.thy ===== *)
theory Civil_Time
  imports Strings
begin

text \<open>
  Dates: \<open>CivilTime\<close>, the parser \<open>ISO8601\<close> and the conversion of a date to a \<open>UnixTime\<close>, of src/stx. The
  parser works on pointers into a string that ends with a zero character; here it works on the text that
  is left, and reading behind the zero is undefined.
\<close>

section \<open>Dates\<close>

record civil_time =
  year :: "16 word"
  month :: "8 word"
  day :: "8 word"
  hour :: "8 word"
  minute :: "8 word"
  second :: "8 word"
  millisecond :: "16 word"
  tz_offset :: "32 word"

definition no_time :: civil_time where
  "no_time = \<lparr>year = 0, month = 0, day = 0, hour = 0, minute = 0, second = 0, millisecond = 0, tz_offset = 0\<rparr>"

definition isLeapYear :: "nat \<Rightarrow> bool" where
  "isLeapYear y \<longleftrightarrow> y mod 4 = 0 \<and> y mod 100 \<noteq> 0 \<or> y mod 400 = 0"

text \<open>The remainders of C++ round to zero, which only shows at month 0.\<close>

definition daysInMonth :: "nat \<Rightarrow> nat \<Rightarrow> nat" where
  "daysInMonth y m =
     (if m = 2 then 28 + (if isLeapYear y then 1 else 0) else if m = 0 then 32 else 31 - (m - 1) mod 7 mod 2)"

section \<open>Parsing\<close>

text \<open>The character at an offset, and a copy of some characters from one on.\<close>

definition char_at :: "string \<Rightarrow> nat \<Rightarrow> char result" where
  "char_at s n = (if n < length s then Inr (s ! n) else if n = length s then Inr (CHR 0x00) else Inl (Undefined ReadOutOfBounds))"

definition chars_at :: "string \<Rightarrow> nat \<Rightarrow> nat \<Rightarrow> string result" where
  "chars_at s k n = mapR (char_at s) [k..<k + n]"

text \<open>Two digits at an offset: the test stops at the first character that is none.\<close>

definition two_digits :: "string \<Rightarrow> nat \<Rightarrow> nat option result" where
  "two_digits s k =
     bindR (char_at s k) (\<lambda>a. if \<not> is_decimal a then Inr None
       else bindR (char_at s (k + 1)) (\<lambda>b. if \<not> is_decimal b then Inr None else Inr (Some (digits_value 10 [a, b]))))"

text \<open>Every step gives whether the text was understood, and the date with what was read so far.\<close>

type_synonym parsed = "(bool \<times> civil_time) result"

definition parseTimeOffset :: "string \<Rightarrow> civil_time \<Rightarrow> parsed" where
  "parseTimeOffset s t =
     bindR (char_at s 0) (\<lambda>c.
       if length s = 1 \<and> (c = CHR ''z'' \<or> c = CHR ''Z'') then Inr (True, t\<lparr>tz_offset := 0\<rparr>)
       else if c \<noteq> CHR ''+'' \<and> c \<noteq> CHR ''-'' then Inr (False, t)
       else if length s < 3 then Inr (False, t)
       else bindR (two_digits s 1) (\<lambda>h. case h of
           None \<Rightarrow> Inr (False, t)
         | Some h \<Rightarrow>
             if 24 < h then Inr (False, t)
             else if length s < 6 \<or> s ! 3 \<noteq> CHR '':'' then Inr (False, t)
             else bindR (two_digits s 4) (\<lambda>m. case m of
                 None \<Rightarrow> Inr (False, t)
               | Some m \<Rightarrow>
                   if 59 < m then Inr (False, t)
                   else Inr (True, t\<lparr>tz_offset := (if c = CHR ''+'' then 1 else - 1) * of_nat (h * 3600 + m * 60)\<rparr>))))"

text \<open>At most three digits of a second; the power of ten is exact.\<close>

definition parseSecondFrac :: "string \<Rightarrow> civil_time \<Rightarrow> parsed" where
  "parseSecondFrac s t =
     (if length s < 1 then Inr (False, t)
      else bindR (char_at s 0) (\<lambda>c.
        let ds = takeWhile is_decimal (tl s) in
        if c \<noteq> CHR ''.'' \<or> length ds < 1 \<or> 3 < length ds then Inr (False, t)
        else parseTimeOffset (drop (1 + length ds) s) (t\<lparr>millisecond := of_nat (digits_value 10 ds * 10 ^ (3 - length ds))\<rparr>)))"

definition parseSecond :: "string \<Rightarrow> civil_time \<Rightarrow> parsed" where
  "parseSecond s t =
     (if length s < 1 \<or> hd s \<noteq> CHR '':'' then Inr (False, t)
      else bindR (two_digits s 1) (\<lambda>n. case n of
          None \<Rightarrow> Inr (False, t)
        | Some n \<Rightarrow>
            if 59 < n then Inr (False, t)
            else bindR (parseSecondFrac (drop 3 s) (t\<lparr>second := of_nat n\<rparr>)) (\<lambda>(ok, t).
              if ok then Inr (True, t) else parseTimeOffset (drop 3 s) t)))"

definition parseMinute :: "string \<Rightarrow> civil_time \<Rightarrow> parsed" where
  "parseMinute s t =
     (if length s < 1 \<or> hd s \<noteq> CHR '':'' then Inr (False, t)
      else bindR (two_digits s 1) (\<lambda>n. case n of
          None \<Rightarrow> Inr (False, t)
        | Some n \<Rightarrow> if 59 < n then Inr (False, t) else parseSecond (drop 3 s) (t\<lparr>minute := of_nat n\<rparr>)))"

definition parseHour :: "string \<Rightarrow> civil_time \<Rightarrow> parsed" where
  "parseHour s t =
     (if length s < 1 \<or> hd s \<noteq> CHR ''T'' \<and> hd s \<noteq> CHR ''t'' then Inr (False, t)
      else bindR (two_digits s 1) (\<lambda>n. case n of
          None \<Rightarrow> Inr (False, t)
        | Some n \<Rightarrow> if 24 < n then Inr (False, t) else parseMinute (drop 3 s) (t\<lparr>hour := of_nat n\<rparr>)))"

text \<open>The day is looked up as if it were the month; its two characters are copied before they are tested.\<close>

definition parseDay :: "string \<Rightarrow> civil_time \<Rightarrow> parsed" where
  "parseDay s t =
     (if length s < 1 \<or> hd s \<noteq> CHR ''-'' then Inr (False, t)
      else bindR (chars_at s 1 2) (\<lambda>ds.
        if \<not> isDigitString ds then Inr (False, t)
        else
          (let n = digits_value 10 ds in
           if n = 0 \<or> daysInMonth (unat (year t)) n < n then Inr (False, t)
           else if 3 < length s then parseHour (drop 3 s) (t\<lparr>day := of_nat n\<rparr>)
           else Inr (True, t\<lparr>day := of_nat n\<rparr>))))"

definition parseMonth :: "string \<Rightarrow> civil_time \<Rightarrow> parsed" where
  "parseMonth s t =
     (if length s < 3 \<or> hd s \<noteq> CHR ''-'' then Inr (False, t)
      else bindR (chars_at s 1 2) (\<lambda>ds.
        if \<not> isDigitString ds then Inr (False, t)
        else
          (let n = digits_value 10 ds in
           if n = 0 \<or> 13 \<le> n then Inr (False, t)
           else if 3 < length s then parseDay (drop 3 s) (t\<lparr>month := of_nat n\<rparr>)
           else Inr (True, t\<lparr>month := of_nat n\<rparr>))))"

definition parseYear :: "string \<Rightarrow> civil_time \<Rightarrow> parsed" where
  "parseYear s t =
     (if length s < 4 then Inr (False, t)
      else bindR (chars_at s 0 4) (\<lambda>ds.
        if \<not> isDigitString ds then Inr (False, t)
        else
          (let t' = t\<lparr>year := of_nat (digits_value 10 ds)\<rparr> in
           if 4 < length s then parseMonth (drop 4 s) t' else Inr (True, t'))))"

definition iso8601_parse :: "string \<Rightarrow> civil_time option result" where
  "iso8601_parse s = bindR (parseYear s no_time) (\<lambda>(ok, t). Inr (if ok then Some t else None))"

section \<open>Unix time\<close>

text \<open>Days before a year and before a month, summed as the loops do; all in 64 bits.\<close>

definition days_before_year :: "nat \<Rightarrow> 64 word" where
  "days_before_year y = (\<Sum>i\<leftarrow>[1970..<y]. 365 + (if isLeapYear i then 1 else 0))"

definition days_before_month :: "nat \<Rightarrow> nat \<Rightarrow> 64 word" where
  "days_before_month y m = (\<Sum>i\<leftarrow>[1..<m]. of_nat (daysInMonth y i))"

definition unix_time :: "civil_time \<Rightarrow> 64 word" where
  "unix_time t =
     (let days = (ucast (day t) - 1) + days_before_year (unat (year t)) + days_before_month (unat (year t)) (unat (month t)) in
      days * 86400000000 + ucast (hour t) * 3600000000 + ucast (minute t) * 60000000 + ucast (second t) * 1000000 +
      ucast (millisecond t) * 1000 + scast (tz_offset t) * 1000000 * (- 1))"

text \<open>\<open>operator==\<close> of \<open>UnixTime\<close> compares with less.\<close>

definition unix_time_equals :: "64 word \<Rightarrow> 64 word \<Rightarrow> bool" where
  "unix_time_equals a b \<longleftrightarrow> a < b"

end
