(* ===== verification/Utf8.thy ===== *)
theory Utf8
  imports Prelude
begin

text \<open>
  UTF-8: src/stx/UTF8.cc, with the conversions of strings in src/stx/stringutil.cc. Code points are 32-bit
  words; the decoder takes up to six bytes and does not look at the top bits of all but the first.
\<close>

section \<open>Decoding\<close>

text \<open>The bits of a byte under a mask, moved to their place.\<close>

definition low_bits :: "8 word \<Rightarrow> 8 word \<Rightarrow> nat \<Rightarrow> 32 word" where
  "low_bits mk b n = push_bit n (ucast (and b mk))"

text \<open>
  The next code point and the bytes behind it. The shifts are those of the code: the first byte of five
  has 14 where its place is 24.
\<close>

fun nextCodepoint :: "8 word list \<Rightarrow> (32 word \<times> 8 word list) result" where
  "nextCodepoint [] = Inr (0, [])"
| "nextCodepoint (a # bs) =
     (if a < 0x80 then Inr (ucast a, bs)
      else if and a 0xE0 = 0xC0 then
        (case bs of
           b # r \<Rightarrow> Inr (or (low_bits 0x1F a 6) (low_bits 0x3F b 0), r)
         | _ \<Rightarrow> Inl (Raise EncodingError))
      else if and a 0xF0 = 0xE0 then
        (case bs of
           b # c # r \<Rightarrow> Inr (or (or (low_bits 0x0F a 12) (low_bits 0x3F b 6)) (low_bits 0x3F c 0), r)
         | _ \<Rightarrow> Inl (Raise EncodingError))
      else if and a 0xF8 = 0xF0 then
        (case bs of
           b # c # d # r \<Rightarrow>
             Inr (or (or (or (low_bits 0x07 a 18) (low_bits 0x3F b 12)) (low_bits 0x3F c 6)) (low_bits 0x3F d 0), r)
         | _ \<Rightarrow> Inl (Raise EncodingError))
      else if and a 0xFC = 0xF8 then
        (case bs of
           b # c # d # e # r \<Rightarrow>
             Inr (or (or (or (or (low_bits 0x03 a 14) (low_bits 0x3F b 18)) (low_bits 0x3F c 12)) (low_bits 0x3F d 6)) (low_bits 0x3F e 0), r)
         | _ \<Rightarrow> Inl (Raise EncodingError))
      else if and a 0xFE = 0xFC then
        (case bs of
           b # c # d # e # f # r \<Rightarrow>
             Inr (or (or (or (or (or (low_bits 0x01 a 30) (low_bits 0x3F b 24)) (low_bits 0x3F c 18)) (low_bits 0x3F d 12)) (low_bits 0x3F e 6)) (low_bits 0x3F f 0), r)
         | _ \<Rightarrow> Inl (Raise EncodingError))
      else Inl (Raise EncodingError))"

lemma next_shorter: "nextCodepoint (a # bs) = Inr (c, r) \<Longrightarrow> length r < length (a # bs)"
  by (auto split: if_splits list.splits)

text \<open>All code points up to the end of the text, or to a zero in it.\<close>

function convertUTF8To16 :: "8 word list \<Rightarrow> 32 word list result" where
  "convertUTF8To16 bs =
     bindR (nextCodepoint bs) (\<lambda>(c, r).
       if c = 0 then Inr [] else bindR (convertUTF8To16 r) (\<lambda>cs. Inr (c # cs)))"
  by pat_completeness auto
termination
proof (relation "measure length", goal_cases)
  case (2 bs x c r)
  then show ?case by (cases bs) (auto dest: next_shorter simp del: nextCodepoint.simps(2))
qed simp

declare convertUTF8To16.simps [simp del]

section \<open>Encoding\<close>

definition tail_byte :: "32 word \<Rightarrow> nat \<Rightarrow> 8 word" where
  "tail_byte c n = ucast (or 0x80 (and (drop_bit n c) 0x3F))"

text \<open>The fourth of six bytes is shifted by 11 where its place is 12.\<close>

definition encodeCodepoint :: "32 word \<Rightarrow> 8 word list" where
  "encodeCodepoint c =
     (if c < 0x80 then [ucast c]
      else if c < 0x800 then [ucast (or 0xC0 (and (drop_bit 6 c) 0x1F)), tail_byte c 0]
      else if c < 0x10000 then [ucast (or 0xE0 (and (drop_bit 12 c) 0x0F)), tail_byte c 6, tail_byte c 0]
      else if c < 0x200000 then [ucast (or 0xF0 (and (drop_bit 18 c) 0x07)), tail_byte c 12, tail_byte c 6, tail_byte c 0]
      else if c < 0x4000000 then
        [ucast (or 0xF8 (and (drop_bit 24 c) 0x03)), tail_byte c 18, tail_byte c 12, tail_byte c 6, tail_byte c 0]
      else [ucast (or 0xFC (and (drop_bit 30 c) 0x01)), tail_byte c 24, tail_byte c 18, tail_byte c 11, tail_byte c 6, tail_byte c 0])"

definition convertUTF16To8 :: "32 word list \<Rightarrow> 8 word list" where
  "convertUTF16To8 cs = concat (map encodeCodepoint cs)"

section \<open>Validation\<close>

text \<open>
  A text whose next character is one byte is valid there and then. A byte that starts no character leaves
  the loop where it is, for ever: \<open>fuel\<close> bounds its rounds.
\<close>

fun isValidUTF8 :: "nat \<Rightarrow> 8 word list \<Rightarrow> bool result" where
  "isValidUTF8 0 bs = Inl OutOfFuel"
| "isValidUTF8 (Suc fuel) [] = Inr True"
| "isValidUTF8 (Suc fuel) (a # bs) =
     (if a < 0x80 then Inr True
      else if and a 0xE0 = 0xC0 then (if length bs < 1 then Inr False else isValidUTF8 fuel (drop 1 bs))
      else if and a 0xF0 = 0xE0 then (if length bs < 2 then Inr False else isValidUTF8 fuel (drop 2 bs))
      else if and a 0xF8 = 0xF0 then (if length bs < 3 then Inr False else isValidUTF8 fuel (drop 3 bs))
      else if and a 0xFC = 0xF8 then (if length bs < 4 then Inr False else isValidUTF8 fuel (drop 4 bs))
      else if and a 0xFE = 0xFC then (if length bs < 5 then Inr False else isValidUTF8 fuel (drop 5 bs))
      else isValidUTF8 fuel (a # bs))"

section \<open>Round trip\<close>

text \<open>Bytes by their bits.\<close>

lemma word8_eq: "(a :: 8 word) = b \<longleftrightarrow> (bit a 0 = bit b 0) \<and> (bit a 1 = bit b 1) \<and> (bit a 2 = bit b 2) \<and> (bit a 3 = bit b 3) \<and> (bit a 4 = bit b 4)
  \<and> (bit a 5 = bit b 5) \<and> (bit a 6 = bit b 6) \<and> (bit a 7 = bit b 7)"
proof
  assume r: "(bit a 0 = bit b 0) \<and> (bit a 1 = bit b 1) \<and> (bit a 2 = bit b 2) \<and> (bit a 3 = bit b 3) \<and> (bit a 4 = bit b 4)
  \<and> (bit a 5 = bit b 5) \<and> (bit a 6 = bit b 6) \<and> (bit a 7 = bit b 7)"
  show "a = b"
  proof (rule bit_word_eqI)
    fix n assume "n < LENGTH(8)"
    then have "n = 0 \<or> n = 1 \<or> n = 2 \<or> n = 3 \<or> n = 4 \<or> n = 5 \<or> n = 6 \<or> n = 7" by auto
    with r show "bit a n = bit b n" by auto
  qed
qed simp

lemma ascii_bit: "(a :: 8 word) < 0x80 \<longleftrightarrow> \<not> bit a 7"
proof -
  have "bit a 7 = bit (unat a) 7" by (simp add: bit_simps)
  then have "bit a 7 \<longleftrightarrow> odd (unat a div 128)" by (simp add: bit_iff_odd)
  moreover have "unat a < 2 ^ 8" using unsigned_less [of a] by simp
  then have two: "unat a div 128 < 2" by simp
  ultimately have "bit a 7 \<longleftrightarrow> unat a div 128 = 1" using two by (cases "unat a div 128") auto
  also have "\<dots> \<longleftrightarrow> 128 \<le> unat a" using two by auto
  finally show ?thesis by (auto simp: word_less_nat_alt)
qed

text \<open>The masks as words of ones, and the code point as the bits below its size.\<close>

lemma masks: "(0x3F :: 'a::len word) = mask 6" "(0x1F :: 'a::len word) = mask 5" "(0x0F :: 'a::len word) = mask 4"
  "(0x07 :: 'a::len word) = mask 3" "(0x03 :: 'a::len word) = mask 2"
  by (simp_all add: mask_eq_decr_exp)

lemma bits_below: "unat (c :: 32 word) < 2 ^ k \<Longrightarrow> bit c n \<Longrightarrow> n < k"
proof -
  assume "unat c < 2 ^ k" and n: "bit c n"
  then have "c = take_bit k c" by (simp add: word_unat_eq_iff unsigned_take_bit_eq take_bit_nat_eq_self)
  then show "n < k" using n by (metis bit_take_bit_iff)
qed

lemma tail_part: "bit (low_bits 0x3F (tail_byte c m) n) k \<longleftrightarrow> k < 32 \<and> n \<le> k \<and> k < n + 6 \<and> bit c (m + (k - n))"
proof -
  have "\<not> bit (0x80 :: 32 word) j" if "j < 6" for j
  proof -
    have "(0x80 :: 32 word) = push_bit 7 1" by simp
    then show ?thesis using that by (simp only: bit_push_bit_iff) simp
  qed
  then show ?thesis
    unfolding low_bits_def tail_byte_def masks
    by (auto simp: bit_simps dest: bit_imp_le_length)
qed

text \<open>The bits that the lead byte holds.\<close>

lemma lead_part:
  assumes "j = 5 \<and> mk = 0x1F \<and> hb = 0xC0 \<or> j = 4 \<and> mk = 0x0F \<and> hb = 0xE0 \<or> j = 3 \<and> mk = 0x07 \<and> hb = 0xF0"
  shows "bit (low_bits (ucast mk) (ucast (or hb (and (drop_bit m c) mk))) n) k \<longleftrightarrow> k < 32 \<and> n \<le> k \<and> k < n + j \<and> bit (c :: 32 word) (m + (k - n))"
proof -
  have "ucast mk = (mask j :: 8 word)" "mk = (mask j :: 32 word)" using assms by (auto simp: mask_eq_decr_exp)
  moreover have "\<not> bit (hb :: 32 word) x" if "x < j" for x
  proof -
    have "x = 0 \<or> x = 1 \<or> x = 2 \<or> x = 3 \<or> x = 4" using that assms by auto
    then show ?thesis using that assms by auto
  qed
  ultimately show ?thesis
    unfolding low_bits_def using assms
    by (auto simp: bit_simps dest: bit_imp_le_length)
qed

lemma next_encode: "unat c < 2 ^ 24 \<Longrightarrow> nextCodepoint (encodeCodepoint c @ r) = Inr (c, r)"
proof -
  assume c: "unat c < 2 ^ 24"
  have ascii: "ucast (ucast c :: 8 word) = c" "(ucast c :: 8 word) < 0x80" if "c < 0x80"
    using that by (auto simp: word_less_nat_alt word_unat_eq_iff unsigned_ucast_eq unsigned_take_bit_eq take_bit_nat_eq_self)
  show ?thesis
  proof (cases "c < 0x80")
    case True
    then show ?thesis using ascii by (simp add: encodeCodepoint_def)
  next
    case False
    have lead: "\<not> (ucast (or 0xC0 (and x 0x1F)) :: 8 word) < 0x80" "and (ucast (or 0xC0 (and x 0x1F)) :: 8 word) 0xE0 = 0xC0"
      "\<not> (ucast (or 0xE0 (and x 0x0F)) :: 8 word) < 0x80" "and (ucast (or 0xE0 (and x 0x0F)) :: 8 word) 0xE0 \<noteq> 0xC0"
      "and (ucast (or 0xE0 (and x 0x0F)) :: 8 word) 0xF0 = 0xE0"
      "\<not> (ucast (or 0xF0 (and x 0x07)) :: 8 word) < 0x80" "and (ucast (or 0xF0 (and x 0x07)) :: 8 word) 0xE0 \<noteq> 0xC0"
      "and (ucast (or 0xF0 (and x 0x07)) :: 8 word) 0xF0 \<noteq> 0xE0" "and (ucast (or 0xF0 (and x 0x07)) :: 8 word) 0xF8 = 0xF0"
      "\<not> (0xF8 :: 8 word) < 0x80" "and (0xF8 :: 8 word) 0xE0 \<noteq> 0xC0" "and (0xF8 :: 8 word) 0xF0 \<noteq> 0xE0" "and (0xF8 :: 8 word) 0xF8 \<noteq> 0xF0"
      "and (0xF8 :: 8 word) 0xFC = 0xF8"
      for x :: "32 word"
      by (simp_all add: ascii_bit word8_eq bit_simps)
    have parts: "bit (low_bits 0x1F (ucast (or 0xC0 (and (drop_bit m c) 0x1F))) n) k \<longleftrightarrow> k < 32 \<and> n \<le> k \<and> k < n + 5 \<and> bit c (m + (k - n))"
      "bit (low_bits 0x0F (ucast (or 0xE0 (and (drop_bit m c) 0x0F))) n) k \<longleftrightarrow> k < 32 \<and> n \<le> k \<and> k < n + 4 \<and> bit c (m + (k - n))"
      "bit (low_bits 0x07 (ucast (or 0xF0 (and (drop_bit m c) 0x07))) n) k \<longleftrightarrow> k < 32 \<and> n \<le> k \<and> k < n + 3 \<and> bit c (m + (k - n))"
      for m n k
      using lead_part [of 5 "0x1F" "0xC0"] lead_part [of 4 "0x0F" "0xE0"] lead_part [of 3 "0x07" "0xF0"] by simp_all
    note below = bits_below [of c]
    consider "unat c < 2 ^ 11" | "\<not> c < 0x800" "unat c < 2 ^ 16" | "\<not> c < 0x800" "\<not> c < 0x10000" "unat c < 2 ^ 21"
      | "\<not> c < 0x800" "\<not> c < 0x10000" "\<not> c < 0x200000" using c by (auto simp: word_less_nat_alt)
    then show ?thesis
    proof cases
      case 1
      note first = 1
      then have "c < 0x800" by (simp add: word_less_nat_alt)
      moreover have "or (low_bits 0x1F (ucast (or 0xC0 (and (drop_bit 6 c) 0x1F))) 6) (low_bits 0x3F (tail_byte c 0) 0) = c"
      proof (rule bit_word_eqI, goal_cases)
        case (1 k)
        show ?case using below [OF first, of k] 1 by (cases "k < 6"; cases "k < 12"; cases "k < 18") (auto simp: bit_or_iff parts tail_part)
      qed
      ultimately show ?thesis using False lead by (simp add: encodeCodepoint_def)
    next
      case 2
      then have "c < 0x10000" by (simp add: word_less_nat_alt)
      moreover have "or (or (low_bits 0x0F (ucast (or 0xE0 (and (drop_bit 12 c) 0x0F))) 12) (low_bits 0x3F (tail_byte c 6) 6)) (low_bits 0x3F (tail_byte c 0) 0) = c"
      proof (rule bit_word_eqI, goal_cases)
        case (1 k)
        show ?case using below [OF 2(2), of k] 1 by (cases "k < 6"; cases "k < 12"; cases "k < 18") (auto simp: bit_or_iff parts tail_part)
      qed
      ultimately show ?thesis using False 2(1) lead by (simp add: encodeCodepoint_def)
    next
      case 3
      then have "c < 0x200000" by (simp add: word_less_nat_alt)
      moreover have "or (or (or (low_bits 0x07 (ucast (or 0xF0 (and (drop_bit 18 c) 0x07))) 18) (low_bits 0x3F (tail_byte c 12) 12)) (low_bits 0x3F (tail_byte c 6) 6)) (low_bits 0x3F (tail_byte c 0) 0) = c"
      proof (rule bit_word_eqI, goal_cases)
        case (1 k)
        show ?case using below [OF 3(3), of k] 1 by (cases "k < 6"; cases "k < 12"; cases "k < 18") (auto simp: bit_or_iff parts tail_part)
      qed
      ultimately show ?thesis using False 3(1,2) lead by (simp add: encodeCodepoint_def)
    next
      case 4
      have "c < 0x4000000" using c by (simp add: word_less_nat_alt)
      moreover have "drop_bit 24 c = 0" using below [OF c] by (intro bit_word_eqI) (auto simp: bit_simps)
      moreover have "or (or (or (or (low_bits 0x03 0xF8 14) (low_bits 0x3F (tail_byte c 18) 18)) (low_bits 0x3F (tail_byte c 12) 12)) (low_bits 0x3F (tail_byte c 6) 6)) (low_bits 0x3F (tail_byte c 0) 0) = c"
      proof (rule bit_word_eqI, goal_cases)
        case (1 k)
        show ?case using below [OF c, of k] 1
          by (cases "k < 6"; cases "k < 12"; cases "k < 18") (auto simp: bit_or_iff tail_part low_bits_def [of 3])
      qed
      ultimately show ?thesis using False 4 lead by (simp add: encodeCodepoint_def)
    qed
  qed
qed

text \<open>
  C39. Text survives UTF-8: a text of code points that are not zero and below 2 ^ 24, which holds all of
  Unicode, is encoded into bytes from which decoding gives it back.
\<close>

theorem utf8_roundtrip:
  "\<forall>c\<in>set cs. c \<noteq> 0 \<and> unat c < 2 ^ 24 \<Longrightarrow> convertUTF8To16 (convertUTF16To8 cs) = Inr cs"
proof (induction cs)
  case (Cons c cs)
  then show ?case using next_encode [of c "convertUTF16To8 cs"]
    by (subst convertUTF8To16.simps) (simp add: convertUTF16To8_def)
qed (simp add: convertUTF16To8_def convertUTF8To16.simps)

theorem utf8_roundtrip_witness:
  "convertUTF16To8 [0x24, 0xE9, 0x20AC, 0x1D11E] = [0x24, 0xC3, 0xA9, 0xE2, 0x82, 0xAC, 0xF0, 0x9D, 0x84, 0x9E] \<and>
   convertUTF8To16 [0x24, 0xC3, 0xA9, 0xE2, 0x82, 0xAC, 0xF0, 0x9D, 0x84, 0x9E] = Inr [0x24, 0xE9, 0x20AC, 0x1D11E]"
proof -
  have "convertUTF16To8 [0x24, 0xE9, 0x20AC, 0x1D11E] = [0x24, 0xC3, 0xA9, 0xE2, 0x82, 0xAC, 0xF0, 0x9D, 0x84, 0x9E]"
    by (simp add: convertUTF16To8_def encodeCodepoint_def tail_byte_def drop_bit_eq_div)
  then show ?thesis using utf8_roundtrip [of "[0x24, 0xE9, 0x20AC, 0x1D11E]"] by simp
qed

text \<open>Beyond, the wrong shifts show: of five bytes in the decoder, of six in the encoder.\<close>

lemma five_bytes_differ: "nextCodepoint (encodeCodepoint 0x1000000) = Inr (0x4000, [])"
  by (simp add: encodeCodepoint_def tail_byte_def low_bits_def drop_bit_eq_div)

lemma six_bytes_differ: "nextCodepoint (encodeCodepoint 0x4001000) = Inr (0x4002000, [])"
  by (simp add: encodeCodepoint_def tail_byte_def low_bits_def drop_bit_eq_div)

text \<open>Any text that starts with an ASCII character is taken as valid; one that starts with a tail byte is never done.\<close>

lemma valid_after_ascii: "a < 0x80 \<Longrightarrow> isValidUTF8 (Suc fuel) (a # bs) = Inr True"
  by simp

lemma validation_never_ends: "isValidUTF8 fuel (0x80 # bs) = Inl OutOfFuel"
  by (induction fuel) simp_all

end
