(* ===== verification/Human.thy ===== *)
theory Human
  imports Civil_Time Utf8
begin

text \<open>
  What a text written by a person means: \<open>Human\<close> of src/stx/human.cc. Times, durations and truth values are
  parsed, and the type of a value, and of a series of values, is guessed. The clock is a parameter.
\<close>

section \<open>Parsing\<close>

text \<open>\<open>std::stoull\<close> with the text behind the number.\<close>

definition stoull :: "string \<Rightarrow> (64 word \<times> string) result" where
  "stoull s =
     (let (neg, r) = read_sign (dropWhile is_space s); ds = takeWhile (is_digit_in 10) r; n = digits_value 10 ds in
      if ds = [] then Inl (Raise StdInvalidArgument)
      else if 2 ^ 64 \<le> n then Inl (Raise StdOutOfRange)
      else Inr (if neg then - of_nat n else of_nat n, drop (length ds) r))"

text \<open>The microseconds of a unit, by its suffix.\<close>

definition unit_micros :: "string \<Rightarrow> 64 word option" where
  "unit_micros u =
     (if u \<in> {''s'', ''sec'', ''secs'', ''second'', ''seconds''} then Some 1000000
      else if u \<in> {''m'', ''min'', ''mins'', ''minute'', ''minutes''} then Some (60 * 1000000)
      else if u \<in> {''h'', ''hour'', ''hours''} then Some (3600 * 1000000)
      else if u \<in> {''d'', ''day'', ''days''} then Some (86400 * 1000000)
      else if u \<in> {''w'', ''week'', ''weeks''} then Some (7 * 86400 * 1000000)
      else if u \<in> {''y'', ''year'', ''years''} then Some (365 * 86400 * 1000000)
      else None)"

definition parseDuration :: "string \<Rightarrow> 64 word option result" where
  "parseDuration s = bindR (stoull s) (\<lambda>(n, u). Inr (map_option (\<lambda>k. n * k) (unit_micros u)))"

text \<open>A number of seconds, of milliseconds or of microseconds, by its size; at the two bounds it is none of them.\<close>

definition raw_timestamp :: "string \<Rightarrow> 64 word option" where
  "raw_timestamp s =
     (if \<not> isDigitString s then None
      else (case stoull s of
          Inl e \<Rightarrow> None
        | Inr (ts, r) \<Rightarrow>
            if ts < 30000000000 then Some (ts * 1000000)
            else if 30000000000 < ts \<and> ts < 30000000000000 then Some (ts * 1000)
            else if 30000000000000 < ts then Some ts
            else None))"

definition before_now :: "64 word \<Rightarrow> string \<Rightarrow> 64 word option result" where
  "before_now clock s =
     (if 1 < length s \<and> hd s = CHR ''-'' \<and> is_decimal (s ! 1) then
        bindR (parseDuration (tl s)) (\<lambda>d. Inr (map_option (\<lambda>k. clock - k) d))
      else Inr None)"

definition parseTime :: "64 word \<Rightarrow> string \<Rightarrow> 64 word option result" where
  "parseTime clock s =
     (if s = ''now'' then Inr (Some clock)
      else bindR (before_now clock s) (\<lambda>t. case t of
          Some t \<Rightarrow> Inr (Some t)
        | None \<Rightarrow>
            (case raw_timestamp s of
               Some t \<Rightarrow> Inr (Some t)
             | None \<Rightarrow> bindR (iso8601_parse s) (\<lambda>t. Inr (map_option unix_time t)))))"

definition parseBoolean :: "string \<Rightarrow> bool option" where
  "parseBoolean s =
     (if s \<in> {''true'', ''TRUE'', ''yes'', ''YES''} then Some True
      else if s \<in> {''false'', ''FALSE'', ''no'', ''NO''} then Some False
      else None)"

definition isNullOrEmpty :: "string \<Rightarrow> bool" where
  "isNullOrEmpty s \<longleftrightarrow> s = [] \<or> s = ''null'' \<or> s = ''NULL''"

section \<open>Types of values\<close>

datatype human_type =
    H_UNKNOWN
  | H_DATETIME
  | H_DATETIME_NULLABLE
  | H_URL
  | H_URL_NULLABLE
  | H_CURRENCY
  | H_CURRENCY_NULLABLE
  | H_UNSIGNED
  | H_UNSIGNED_NULLABLE
  | H_SIGNED
  | H_SIGNED_NULLABLE
  | H_FLOAT
  | H_FLOAT_NULLABLE
  | H_BOOLEAN
  | H_BOOLEAN_NULLABLE
  | H_NULL_OR_EMPTY
  | H_TEXT
  | H_BINARY

text \<open>The validation of UTF-8 may never end; when it does, one round for each byte and one more are enough.\<close>

definition detectDataType :: "64 word \<Rightarrow> string \<Rightarrow> human_type result" where
  "detectDataType clock s =
     (if isNumber s then
        Inr (if CHR ''.'' \<in> set s \<or> CHR '','' \<in> set s then H_FLOAT
             else if s \<noteq> [] \<and> hd s = CHR ''-'' then H_SIGNED else H_UNSIGNED)
      else if isNullOrEmpty s then Inr H_NULL_OR_EMPTY
      else if parseBoolean s \<noteq> None then Inr H_BOOLEAN
      else bindR (parseTime clock s) (\<lambda>t.
        if t \<noteq> None then Inr H_DATETIME
        else bindR (isValidUTF8 (Suc (length s)) (bytes_of_string s)) (\<lambda>ok. Inr (if ok then H_TEXT else H_BINARY))))"

text \<open>The type that a null after values of a type gives.\<close>

fun with_null :: "human_type \<Rightarrow> human_type" where
  "with_null H_DATETIME = H_DATETIME_NULLABLE"
| "with_null H_URL = H_URL_NULLABLE"
| "with_null H_CURRENCY = H_CURRENCY_NULLABLE"
| "with_null H_UNSIGNED = H_UNSIGNED_NULLABLE"
| "with_null H_SIGNED = H_SIGNED_NULLABLE"
| "with_null H_FLOAT = H_FLOAT_NULLABLE"
| "with_null H_BOOLEAN = H_BOOLEAN_NULLABLE"
| "with_null H_UNKNOWN = H_NULL_OR_EMPTY"
| "with_null t = t"

text \<open>The cases for one type after another that is not the same, with the code's fall through from a type to its nullable one.\<close>

definition after_unsigned_nullable :: "human_type \<Rightarrow> human_type" where
  "after_unsigned_nullable prev =
     (if prev \<in> {H_FLOAT, H_FLOAT_NULLABLE} then H_FLOAT_NULLABLE
      else if prev \<in> {H_SIGNED, H_SIGNED_NULLABLE} then H_SIGNED_NULLABLE
      else if prev \<in> {H_NULL_OR_EMPTY, H_UNSIGNED, H_UNSIGNED_NULLABLE} then H_UNSIGNED_NULLABLE
      else H_TEXT)"

definition after_signed_nullable :: "human_type \<Rightarrow> human_type" where
  "after_signed_nullable prev =
     (if prev \<in> {H_FLOAT, H_FLOAT_NULLABLE} then H_FLOAT_NULLABLE
      else if prev \<in> {H_NULL_OR_EMPTY, H_UNSIGNED, H_UNSIGNED_NULLABLE, H_SIGNED, H_SIGNED_NULLABLE} then H_SIGNED_NULLABLE
      else H_TEXT)"

definition after_float_nullable :: "human_type \<Rightarrow> human_type" where
  "after_float_nullable prev =
     (if prev \<in> {H_NULL_OR_EMPTY, H_FLOAT_NULLABLE, H_UNSIGNED, H_UNSIGNED_NULLABLE, H_SIGNED, H_SIGNED_NULLABLE} then H_FLOAT_NULLABLE
      else H_TEXT)"

definition series_type :: "human_type \<Rightarrow> human_type \<Rightarrow> human_type" where
  "series_type prev ty =
     (if prev = H_BINARY then H_BINARY
      else if ty = prev \<or> prev = H_UNKNOWN then ty
      else case ty of
          H_UNKNOWN \<Rightarrow> H_UNKNOWN
        | H_TEXT \<Rightarrow> H_TEXT
        | H_BINARY \<Rightarrow> H_BINARY
        | H_NULL_OR_EMPTY \<Rightarrow> with_null prev
        | H_UNSIGNED \<Rightarrow> if prev = H_FLOAT then H_FLOAT else if prev = H_SIGNED then H_SIGNED else after_unsigned_nullable prev
        | H_UNSIGNED_NULLABLE \<Rightarrow> after_unsigned_nullable prev
        | H_SIGNED \<Rightarrow> if prev = H_FLOAT then H_FLOAT else if prev = H_UNSIGNED then H_SIGNED else after_signed_nullable prev
        | H_SIGNED_NULLABLE \<Rightarrow> after_signed_nullable prev
        | H_FLOAT \<Rightarrow> if prev = H_UNSIGNED \<or> prev = H_SIGNED then H_FLOAT else after_float_nullable prev
        | H_FLOAT_NULLABLE \<Rightarrow> after_float_nullable prev
        | H_DATETIME \<Rightarrow> if prev \<in> {H_NULL_OR_EMPTY, H_DATETIME_NULLABLE} then H_DATETIME_NULLABLE else H_TEXT
        | H_DATETIME_NULLABLE \<Rightarrow> if prev \<in> {H_NULL_OR_EMPTY, H_DATETIME_NULLABLE} then H_DATETIME_NULLABLE else H_TEXT
        | H_URL \<Rightarrow> if prev \<in> {H_NULL_OR_EMPTY, H_URL_NULLABLE} then H_URL_NULLABLE else H_TEXT
        | H_URL_NULLABLE \<Rightarrow> if prev \<in> {H_NULL_OR_EMPTY, H_URL_NULLABLE} then H_URL_NULLABLE else H_TEXT
        | H_CURRENCY \<Rightarrow> if prev \<in> {H_NULL_OR_EMPTY, H_CURRENCY_NULLABLE} then H_CURRENCY_NULLABLE else H_TEXT
        | H_CURRENCY_NULLABLE \<Rightarrow> if prev \<in> {H_NULL_OR_EMPTY, H_CURRENCY_NULLABLE} then H_CURRENCY_NULLABLE else H_TEXT
        | H_BOOLEAN \<Rightarrow> if prev \<in> {H_NULL_OR_EMPTY, H_BOOLEAN_NULLABLE} then H_BOOLEAN_NULLABLE else H_TEXT
        | H_BOOLEAN_NULLABLE \<Rightarrow> if prev \<in> {H_NULL_OR_EMPTY, H_BOOLEAN_NULLABLE} then H_BOOLEAN_NULLABLE else H_TEXT)"

text \<open>A value is not looked at once the series is binary.\<close>

definition detectDataTypeSeries :: "64 word \<Rightarrow> string \<Rightarrow> human_type \<Rightarrow> human_type result" where
  "detectDataTypeSeries clock s prev =
     (if prev = H_BINARY then Inr prev else bindR (detectDataType clock s) (\<lambda>ty. Inr (series_type prev ty)))"

end
