(* ===== verification/Civil_Time_Correct.thy ===== *)
theory Civil_Time_Correct
  imports Civil_Time
begin

text \<open>
  The conversion of a date counts the days of the calendar, and the parser understands every date and
  time that is written in its format.
\<close>

section \<open>The calendar\<close>

definition month_length :: "nat \<Rightarrow> nat \<Rightarrow> nat" where
  "month_length y m =
     (if m = 2 then (if y mod 4 = 0 \<and> (y mod 100 \<noteq> 0 \<or> y mod 400 = 0) then 29 else 28)
      else if m = 4 \<or> m = 6 \<or> m = 9 \<or> m = 11 then 30 else 31)"

fun next_day :: "nat \<times> nat \<times> nat \<Rightarrow> nat \<times> nat \<times> nat" where
  "next_day (y, m, d) =
     (if d < month_length y m then (y, m, d + 1) else if m < 12 then (y, m + 1, 1) else (y + 1, 1, 1))"

definition day_of_epoch :: "nat \<Rightarrow> nat \<times> nat \<times> nat" where
  "day_of_epoch n = (next_day ^^ n) (1970, 1, 1)"

definition real_date :: "nat \<times> nat \<times> nat \<Rightarrow> bool" where
  "real_date = (\<lambda>(y, m, d). 1970 \<le> y \<and> 1 \<le> m \<and> m \<le> 12 \<and> 1 \<le> d \<and> d \<le> month_length y m)"

definition days_until :: "nat \<times> nat \<times> nat \<Rightarrow> 64 word" where
  "days_until = (\<lambda>(y, m, d). days_before_year y + days_before_month y m + of_nat (d - 1))"

lemma month_cases: "1 \<le> m \<Longrightarrow> m \<le> 12 \<Longrightarrow>
    m = 1 \<or> m = 2 \<or> m = 3 \<or> m = 4 \<or> m = 5 \<or> m = 6 \<or> m = 7 \<or> m = 8 \<or> m = 9 \<or> m = 10 \<or> m = 11 \<or> m = (12 :: nat)"
proof -
  assume "1 \<le> m" "m \<le> 12"
  then have "m \<in> set [1..<13]" by simp
  moreover have "[1..<13] = [1, 2, 3, 4, 5, 6, 7, 8, 9, 10, 11, 12 :: nat]" by (simp add: upt_conv_Cons)
  ultimately have "m \<in> set [1, 2, 3, 4, 5, 6, 7, 8, 9, 10, 11, 12]" by (simp only:)
  then show ?thesis by (simp only: set_simps insert_iff empty_iff) blast
qed

lemma isLeapYear_iff: "isLeapYear y \<longleftrightarrow> y mod 4 = 0 \<and> (y mod 100 \<noteq> 0 \<or> y mod 400 = 0)"
proof -
  have "4 dvd (400 :: nat)" by (rule dvdI [of _ _ 100]) simp
  then have "y mod 400 = 0 \<Longrightarrow> y mod 4 = 0" unfolding mod_eq_0_iff_dvd by (rule dvd_trans)
  then show ?thesis by (auto simp: isLeapYear_def)
qed

lemma daysInMonth_length: "1 \<le> m \<Longrightarrow> m \<le> 12 \<Longrightarrow> daysInMonth y m = month_length y m"
proof -
  assume "1 \<le> m" "m \<le> 12"
  from month_cases [OF this] show ?thesis by (elim disjE) (simp_all add: daysInMonth_def month_length_def isLeapYear_iff)
qed

lemma days_before_next_month: "1 \<le> m \<Longrightarrow> m \<le> 12 \<Longrightarrow> days_before_month y (m + 1) = days_before_month y m + of_nat (month_length y m)"
  by (simp add: days_before_month_def daysInMonth_length)

lemma days_before_next_year: "1970 \<le> y \<Longrightarrow> days_before_year (y + 1) = days_before_year y + days_before_month y 13"
proof -
  assume "1970 \<le> y"
  moreover have "[1..<13] = [1, 2, 3, 4, 5, 6, 7, 8, 9, 10, 11, 12 :: nat]" by (simp add: upt_conv_Cons)
  then have "days_before_month y 13 = 365 + (if isLeapYear y then 1 else 0)" by (simp add: days_before_month_def daysInMonth_def)
  ultimately show ?thesis by (simp add: days_before_year_def)
qed

lemma next_day_counts:
  assumes "real_date x"
  shows "real_date (next_day x) \<and> days_until (next_day x) = days_until x + 1"
proof -
  obtain y m d where x: "x = (y, m, d)" by (cases x) auto
  have date: "1970 \<le> y" "1 \<le> m" "m \<le> 12" "1 \<le> d" "d \<le> month_length y m" using assms by (auto simp: x real_date_def)
  have pos: "1 \<le> month_length y k" for y k by (simp add: month_length_def)
  consider "d < month_length y m" | "d = month_length y m" "m < 12" | "d = month_length y m" "m = 12" using date by linarith
  then show ?thesis
  proof cases
    case 1
    then show ?thesis using date by (simp add: x real_date_def days_until_def of_nat_diff)
  next
    case 2
    then show ?thesis
      using date pos [of y "m + 1"] days_before_next_month [of m y]
      by (auto simp: x real_date_def days_until_def of_nat_diff)
  next
    case 3
    have "days_before_month y 13 = days_before_month y 12 + of_nat (month_length y 12)" using days_before_next_month [of 12 y] by simp
    moreover have "days_before_month (y + 1) 1 = 0" by (simp add: days_before_month_def)
    ultimately show ?thesis
      using 3 date pos [of "y + 1" 1] days_before_next_year [of y]
      by (auto simp: x real_date_def days_until_def of_nat_diff)
  qed
qed

lemma day_of_epoch_counts: "real_date (day_of_epoch n) \<and> days_until (day_of_epoch n) = of_nat n"
proof (induction n)
  case 0
  then show ?case
    by (simp add: day_of_epoch_def real_date_def month_length_def days_until_def days_before_year_def days_before_month_def)
next
  case (Suc n)
  then show ?case using next_day_counts [of "day_of_epoch n"] by (simp add: day_of_epoch_def)
qed

lemma unix_time_days:
  assumes "day_of_epoch n = (y, m, d)" and "y < 2 ^ 16"
  shows "unix_time \<lparr>year = of_nat y, month = of_nat m, day = of_nat d, hour = h, minute = mi, second = s, millisecond = ms, tz_offset = z\<rparr> =
    of_nat n * 86400000000 + ucast h * 3600000000 + ucast mi * 60000000 + ucast s * 1000000 + ucast ms * 1000 - scast z * 1000000"
proof -
  have date: "1 \<le> m" "m \<le> 12" "1 \<le> d" "d \<le> month_length y m" "days_until (y, m, d) = of_nat n"
    using day_of_epoch_counts [of n] assms(1) by (auto simp: real_date_def)
  have "month_length y m \<le> 31" by (simp add: month_length_def)
  then have fits: "unat (of_nat y :: 16 word) = y" "unat (of_nat m :: 8 word) = m" "unat (of_nat d :: 8 word) = d"
    using date assms(2) by (simp_all add: unat_of_nat take_bit_nat_eq_self)
  moreover have "ucast (of_nat d :: 8 word) = (of_nat d :: 64 word)" using \<open>month_length y m \<le> 31\<close> date by (simp add: unsigned_of_nat take_bit_nat_eq_self)
  ultimately have "ucast (of_nat d :: 8 word) - 1 + days_before_year y + days_before_month y m = (of_nat n :: 64 word)"
    using date by (simp add: days_until_def of_nat_diff algebra_simps)
  then show ?thesis using fits by (simp add: unix_time_def)
qed

text \<open>
  C25. The conversion of a date to a Unix time counts days: for the date that is n days after 1970-01-01 in
  the Gregorian calendar, stepping from day to day, and any time of the day and offset, the result is n days
  and the time in microseconds, less the offset. The year need only fit in its 16 bits.
\<close>

theorem unix_time_calendar:
  assumes "day_of_epoch n = (y, m, d)" and "y < 2 ^ 16"
  shows "unix_time \<lparr>year = of_nat y, month = of_nat m, day = of_nat d, hour = h, minute = mi, second = s, millisecond = ms, tz_offset = z\<rparr> =
    of_nat n * 86400000000 + ucast h * 3600000000 + ucast mi * 60000000 + ucast s * 1000000 + ucast ms * 1000 - scast z * 1000000"
  by (rule unix_time_days [OF assms])

theorem unix_time_calendar_witness:
  "day_of_epoch 2 = (1970, 1, 3) \<and>
   unix_time \<lparr>year = of_nat 1970, month = of_nat 1, day = of_nat 3, hour = 12, minute = 0, second = 0, millisecond = 7, tz_offset = 3600\<rparr> =
     of_nat 2 * 86400000000 + ucast (12 :: 8 word) * 3600000000 + ucast (0 :: 8 word) * 60000000 + ucast (0 :: 8 word) * 1000000 +
     ucast (7 :: 16 word) * 1000 - scast (3600 :: 32 word) * 1000000"
proof -
  have "day_of_epoch 2 = (1970, 1, 3)" by (simp add: day_of_epoch_def numeral_2_eq_2 month_length_def)
  then show ?thesis using unix_time_calendar [of 2 1970 1 3 12 0 0 7 3600] by simp
qed

section \<open>The format\<close>

definition two :: "nat \<Rightarrow> string" where
  "two n = [char_of (48 + n div 10 mod 10), char_of (48 + n mod 10)]"

definition date_text :: "nat \<Rightarrow> nat \<Rightarrow> nat \<Rightarrow> string" where
  "date_text y m d = two (y div 100) @ two (y mod 100) @ ''-'' @ two m @ ''-'' @ two d"

definition time_text :: "nat \<Rightarrow> nat \<Rightarrow> nat \<Rightarrow> nat \<Rightarrow> string" where
  "time_text h mi s ms = ''T'' @ two h @ '':'' @ two mi @ '':'' @ two s @ ''.'' @ [char_of (48 + ms div 100 mod 10)] @ two (ms mod 100)"

definition zone_text :: "bool \<Rightarrow> nat \<Rightarrow> nat \<Rightarrow> string" where
  "zone_text neg h mi = (if neg then ''-'' else ''+'') @ two h @ '':'' @ two mi"

lemma length_two [simp]: "length (two n) = 2"
  by (simp add: two_def)

lemma two_value:
  "n < 100 \<Longrightarrow> digits_value 10 (two n) = n" "is_decimal (char_of (48 + n mod 10))" "digits_value 10 [char_of (48 + n mod 10)] = n mod 10"
  using digit_char(1,2) [of "n mod 10"] digit_char(1) [of "n div 10"] by (simp_all add: two_def digits_value_def)

lemma digits_value_two: "n < 100 \<Longrightarrow> digits_value 10 (s @ two n) = digits_value 10 s * 100 + n"
  using digit_char(1) [of "n mod 10"] digit_char(1) [of "n div 10"] by (simp add: two_def digits_value_def)

lemma two_read:
  "two_digits (c # two n @ s) (Suc 0) = Inr (Some (digits_value 10 (two n)))"
  "chars_at (c # two n @ s) (Suc 0) 2 = Inr (two n)" "chars_at (c # two n) (Suc 0) 2 = Inr (two n)" "isDigitString (two n)"
  using two_value(2) [of n] two_value(2) [of "n div 10"]
  by (simp_all add: two_digits_def two_def chars_at_def char_at_def isDigitString_def upt_conv_Cons)

lemma day_passes: "1 \<le> d \<Longrightarrow> d \<le> 31 \<Longrightarrow> d \<le> daysInMonth y d"
proof -
  assume "1 \<le> d" "d \<le> 31"
  moreover have "30 \<le> 31 - x mod 2" for x :: nat by (cases "even x") (auto simp: mod2_eq_if)
  ultimately show ?thesis by (cases "d = 31") (auto simp: daysInMonth_def intro: order_trans [of _ 30])
qed

lemma parse_zone:
  assumes "h \<le> 24" and "mi \<le> 59"
  shows "parseTimeOffset (zone_text neg h mi) t =
    Inr (True, t\<lparr>tz_offset := (if neg then - 1 else 1) * of_nat (h * 3600 + mi * 60)\<rparr>)"
proof -
  let ?s = "zone_text neg h mi"
  have "two_digits ?s 1 = Inr (Some h)" "two_digits ?s 4 = Inr (Some mi)" "length ?s = 6" "?s ! 3 = CHR '':''"
    "char_at ?s 0 = Inr (if neg then CHR ''-'' else CHR ''+'')"
    using two_value(2) [of h] two_value(2) [of "h div 10"] two_value(2) [of mi] two_value(2) [of "mi div 10"] two_value(1) [of h] two_value(1) [of mi] assms
    by (simp_all add: zone_text_def two_digits_def two_def char_at_def)
  then show ?thesis using assms by (cases neg) (simp_all add: parseTimeOffset_def)
qed

lemma parse_fraction:
  assumes "ms \<le> 999" and "h \<le> 24" and "mi \<le> 59"
  shows "parseSecondFrac (''.'' @ [char_of (48 + ms div 100 mod 10)] @ two (ms mod 100) @ zone_text neg h mi) t =
    Inr (True, t\<lparr>millisecond := of_nat ms, tz_offset := (if neg then - 1 else 1) * of_nat (h * 3600 + mi * 60)\<rparr>)"
proof -
  let ?ds = "[char_of (48 + ms div 100 mod 10)] @ two (ms mod 100)"
  have zone: "zone_text neg h mi = (if neg then CHR ''-'' else CHR ''+'') # tl (zone_text neg h mi)" "\<not> is_decimal (if neg then CHR ''-'' else CHR ''+'')"
    by (auto simp: zone_text_def is_decimal_def less_eq_char_def)
  have ds: "takeWhile is_decimal (?ds @ zone_text neg h mi) = ?ds"
    using two_value(2) [of "ms div 100"] two_value(2) [of "ms mod 100"] two_value(2) [of "ms mod 100 div 10"] zone(2)
    by (subst zone(1)) (simp add: two_def)
  have val: "digits_value 10 ?ds = ms"
    using two_value(3) [of "ms div 100"] assms(1) unfolding digits_value_two [of "ms mod 100", simplified] by simp
  show ?thesis using ds val parse_zone [OF assms(2,3)] by (simp add: parseSecondFrac_def char_at_def two_def)
qed

lemma two_drop: "drop 3 (c # two n @ s) = s" "drop 3 (c # two n) = []" "3 < length (c # two n @ s) \<longleftrightarrow> s \<noteq> []" "\<not> 3 < length (c # two n)"
  by (simp_all add: two_def)

lemma parse_clock:
  assumes "h \<le> 24" and "mi \<le> 59" and "s \<le> 59" and "ms \<le> 999" and "zh \<le> 24" and "zm \<le> 59"
  shows "parseHour (time_text h mi s ms @ zone_text neg zh zm) t = Inr (True, t\<lparr>hour := of_nat h, minute := of_nat mi, second := of_nat s,
    millisecond := of_nat ms, tz_offset := (if neg then - 1 else 1) * of_nat (zh * 3600 + zm * 60)\<rparr>)"
proof -
  obtain r where r: "r = ''.'' @ [char_of (48 + ms div 100 mod 10)] @ two (ms mod 100) @ zone_text neg zh zm" by blast
  obtain z :: "32 word" where z: "z = (if neg then - 1 else 1) * of_nat (zh * 3600 + zm * 60)" by blast
  have frac: "parseSecondFrac r t = Inr (True, t\<lparr>millisecond := of_nat ms, tz_offset := z\<rparr>)" for t
    using parse_fraction [OF assms(4-6)] unfolding r z by blast
  have "parseSecond (CHR '':'' # two s @ r) t = Inr (True, t\<lparr>second := of_nat s, millisecond := of_nat ms, tz_offset := z\<rparr>)" for t
    using frac assms(3) by (simp add: parseSecond_def two_read two_drop two_value(1))
  then have "parseMinute (CHR '':'' # two mi @ CHR '':'' # two s @ r) t =
      Inr (True, t\<lparr>minute := of_nat mi, second := of_nat s, millisecond := of_nat ms, tz_offset := z\<rparr>)" for t
    using assms(2) by (simp add: parseMinute_def two_read two_drop two_value(1))
  then have "parseHour (CHR ''T'' # two h @ CHR '':'' # two mi @ CHR '':'' # two s @ r) t =
      Inr (True, t\<lparr>hour := of_nat h, minute := of_nat mi, second := of_nat s, millisecond := of_nat ms, tz_offset := z\<rparr>)"
    using assms(1) by (simp add: parseHour_def two_read two_drop two_value(1))
  moreover have "time_text h mi s ms @ zone_text neg zh zm = CHR ''T'' # two h @ CHR '':'' # two mi @ CHR '':'' # two s @ r"
    by (simp add: time_text_def r)
  ultimately show ?thesis by (simp only: z)
qed

lemma parse_date:
  assumes "y < 10000" and "1 \<le> m" and "m \<le> 12" and "1 \<le> d" and "d \<le> month_length y m"
  shows "parseYear (date_text y m d @ s) t =
    (if s = [] then Inr (True, t\<lparr>year := of_nat y, month := of_nat m, day := of_nat d\<rparr>)
     else parseHour s (t\<lparr>year := of_nat y, month := of_nat m, day := of_nat d\<rparr>))"
proof -
  have d31: "d \<le> 31" using assms(5) by (auto simp: month_length_def split: if_splits)
  have "\<not> daysInMonth k d < d" for k using day_passes [OF assms(4) d31] by (simp add: not_less)
  then have day: "parseDay (CHR ''-'' # two d @ s) t = (if s = [] then Inr (True, t\<lparr>day := of_nat d\<rparr>) else parseHour s (t\<lparr>day := of_nat d\<rparr>))" for t
    using assms(4) d31 by (cases "s = []") (simp_all add: parseDay_def two_read two_drop two_value(1) Let_def)
  have month: "parseMonth (CHR ''-'' # two m @ CHR ''-'' # two d @ s) t = parseDay (CHR ''-'' # two d @ s) (t\<lparr>month := of_nat m\<rparr>)" for t
    using assms(2,3) two_drop(3) [of "CHR ''-''" m "CHR ''-'' # two d @ s"]
    by (simp add: parseMonth_def two_read two_drop two_value(1) Let_def)
  have "chars_at (two (y div 100) @ two (y mod 100) @ r) 0 4 = Inr (two (y div 100) @ two (y mod 100))" for r
    by (simp add: chars_at_def char_at_def two_def upt_conv_Cons)
  moreover have "isDigitString (two (y div 100) @ two (y mod 100))" using two_read(4) by (simp add: isDigitString_def)
  moreover have "digits_value 10 (two (y div 100) @ two (y mod 100)) = y" using assms(1) by (simp add: digits_value_two two_value(1))
  moreover have "drop 4 (two (y div 100) @ two (y mod 100) @ r) = r" "4 < length (two (y div 100) @ two (y mod 100) @ r) \<longleftrightarrow> r \<noteq> []"
    "\<not> length (two (y div 100) @ two (y mod 100) @ r) < 4" for r by (simp_all add: two_def)
  ultimately show ?thesis using month day by (simp add: date_text_def parseYear_def Let_def)
qed

lemma iso8601_date:
  assumes "y < 10000" and "1 \<le> m" and "m \<le> 12" and "1 \<le> d" and "d \<le> month_length y m"
  shows "iso8601_parse (date_text y m d) = Inr (Some (no_time\<lparr>year := of_nat y, month := of_nat m, day := of_nat d\<rparr>))"
  using parse_date [OF assms, of "[]" no_time] by (simp add: iso8601_parse_def)

text \<open>
  C40. The parser understands its format: the text of any date of the Gregorian calendar up to the year 9999,
  alone or with a time of the day in milliseconds and an offset of up to a day, is parsed into exactly these
  values.
\<close>

theorem iso8601_roundtrip:
  assumes "y < 10000" and "1 \<le> m" and "m \<le> 12" and "1 \<le> d" and "d \<le> month_length y m"
    and "h \<le> 24" and "mi \<le> 59" and "s \<le> 59" and "ms \<le> 999" and "zh \<le> 24" and "zm \<le> 59"
  shows "iso8601_parse (date_text y m d) = Inr (Some (no_time\<lparr>year := of_nat y, month := of_nat m, day := of_nat d\<rparr>)) \<and>
    iso8601_parse (date_text y m d @ time_text h mi s ms @ zone_text neg zh zm) =
      Inr (Some \<lparr>year = of_nat y, month = of_nat m, day = of_nat d, hour = of_nat h, minute = of_nat mi, second = of_nat s,
        millisecond = of_nat ms, tz_offset = (if neg then - 1 else 1) * of_nat (zh * 3600 + zm * 60)\<rparr>)"
proof -
  obtain r where r: "time_text h mi s ms @ zone_text neg zh zm = r" "r \<noteq> []" by (simp add: time_text_def)
  note clock = parse_clock [OF assms(6-11), of neg, unfolded r(1)]
  have "iso8601_parse (date_text y m d @ r) = Inr (Some \<lparr>year = of_nat y, month = of_nat m, day = of_nat d, hour = of_nat h, minute = of_nat mi,
      second = of_nat s, millisecond = of_nat ms, tz_offset = (if neg then - 1 else 1) * of_nat (zh * 3600 + zm * 60)\<rparr>)"
    using parse_date [OF assms(1-5), of r no_time] r(2) clock by (simp add: iso8601_parse_def no_time_def)
  then show ?thesis unfolding r(1) using iso8601_date [OF assms(1-5)] by blast
qed

theorem iso8601_roundtrip_witness:
  "date_text 2016 2 29 @ time_text 23 5 0 42 @ zone_text True 1 30 = ''2016-02-29T23:05:00.042-01:30'' \<and>
   iso8601_parse ''2016-02-29T23:05:00.042-01:30'' = Inr (Some \<lparr>year = 2016, month = 2, day = 29, hour = 23, minute = 5, second = 0,
     millisecond = 42, tz_offset = - 5400\<rparr>)"
proof -
  have "date_text 2016 2 29 @ time_text 23 5 0 42 @ zone_text True 1 30 = ''2016-02-29T23:05:00.042-01:30''"
    by (simp add: date_text_def time_text_def zone_text_def two_def char_of_eq)
  then show ?thesis using iso8601_roundtrip [of 2016 2 29 23 5 0 42 1 30 True] by (simp add: month_length_def)
qed

text \<open>The test of the day lets a date pass that there is not; a text cut off after the month reads out of bounds.\<close>

lemma february_31: "iso8601_parse ''2015-02-31'' = Inr (Some (no_time\<lparr>year := 2015, month := 2, day := 31\<rparr>))"
  by (simp add: iso8601_parse_def parseYear_def parseMonth_def parseDay_def chars_at_def char_at_def upt_conv_Cons isDigitString_def
      is_decimal_def less_eq_char_def digits_value_def digit_value_def lower_def daysInMonth_def Let_def no_time_def)

lemma day_missing: "iso8601_parse ''2015-02-'' = Inl (Undefined ReadOutOfBounds)"
  by (simp add: iso8601_parse_def parseYear_def parseMonth_def parseDay_def chars_at_def char_at_def upt_conv_Cons isDigitString_def
      is_decimal_def less_eq_char_def digits_value_def digit_value_def lower_def Let_def no_time_def)

end
