(* ===== verification/Human_Correct.thy ===== *)
theory Human_Correct
  imports Human Civil_Time_Correct
begin

text \<open>
  The type guessed for a series of values is the common type of the values, whatever their order.
\<close>

section \<open>The common type\<close>

text \<open>
  Of the types in \<open>S\<close>: binary wins over all; besides nulls, numbers have the widest of their types, and
  values of one type have this type, all with nulls if there are any; everything else is text.
\<close>

definition widest :: "human_type list \<Rightarrow> human_type" where
  "widest S =
     (if S = [] then H_UNKNOWN
      else if list_all (\<lambda>t. t = H_UNSIGNED \<or> t = H_SIGNED \<or> t = H_FLOAT) S then
        (if H_FLOAT \<in> set S then H_FLOAT else if H_SIGNED \<in> set S then H_SIGNED else H_UNSIGNED)
      else if list_all (\<lambda>t. t = H_BOOLEAN) S then H_BOOLEAN
      else if list_all (\<lambda>t. t = H_DATETIME) S then H_DATETIME
      else H_TEXT)"

definition nulled :: "bool \<Rightarrow> human_type \<Rightarrow> human_type" where
  "nulled n t = (if n then with_null t else t)"

definition common_type :: "human_type list \<Rightarrow> human_type" where
  "common_type S =
     (if H_BINARY \<in> set S then H_BINARY
      else nulled (H_NULL_OR_EMPTY \<in> set S) (widest (filter (\<lambda>t. t \<noteq> H_NULL_OR_EMPTY) S)))"

definition detected_types :: "human_type list" where
  "detected_types = [H_UNSIGNED, H_SIGNED, H_FLOAT, H_NULL_OR_EMPTY, H_BOOLEAN, H_DATETIME, H_TEXT]"

lemma common_type_set: "set s = set s' \<Longrightarrow> common_type s = common_type s'"
proof -
  assume s: "set s = set s'"
  then have "set (filter (\<lambda>t. t \<noteq> H_NULL_OR_EMPTY) s) = set (filter (\<lambda>t. t \<noteq> H_NULL_OR_EMPTY) s')" by simp
  then have "widest (filter (\<lambda>t. t \<noteq> H_NULL_OR_EMPTY) s) = widest (filter (\<lambda>t. t \<noteq> H_NULL_OR_EMPTY) s')"
    using filter_empty_conv [of _ s] filter_empty_conv [of _ s'] s unfolding widest_def list_all_iff by (simp only: filter_empty_conv)
  then show ?thesis using s by (simp add: common_type_def)
qed

text \<open>The common type of one more value, and that the code's cases compute it.\<close>

definition joined :: "human_type \<Rightarrow> human_type \<Rightarrow> human_type" where
  "joined a t =
     (if t = H_UNKNOWN \<or> a = t then a
      else if a \<in> {H_UNSIGNED, H_SIGNED, H_FLOAT} \<and> t \<in> {H_UNSIGNED, H_SIGNED, H_FLOAT} then
        (if H_FLOAT \<in> {a, t} then H_FLOAT else H_SIGNED)
      else H_TEXT)"

lemma widest_range: "widest s \<in> set (H_UNKNOWN # filter (\<lambda>t. t \<noteq> H_NULL_OR_EMPTY) detected_types)"
  by (auto simp: widest_def detected_types_def)

lemma widest_Cons: "set (a # s) \<subseteq> set detected_types - {H_NULL_OR_EMPTY} \<Longrightarrow> widest (a # s) = joined a (widest s)"
  by (cases s; simp add: detected_types_def; elim conjE disjE; auto simp: widest_def joined_def list_all_iff)

lemma series_step_all:
  "list_all (\<lambda>a. list_all (\<lambda>t. list_all (\<lambda>n.
       series_type (nulled n t) a = (if a = H_NULL_OR_EMPTY then nulled True t else nulled n (joined a t))) [True, False])
     (H_UNKNOWN # filter (\<lambda>t. t \<noteq> H_NULL_OR_EMPTY) detected_types)) detected_types"
  by code_simp

lemma series_step:
  assumes "set (a # s) \<subseteq> insert H_BINARY (set detected_types)"
  shows "series_type (common_type s) a = common_type (a # s)"
proof (cases "H_BINARY \<in> set (a # s)")
  case True
  then show ?thesis by (auto simp: common_type_def series_type_def)
next
  case False
  obtain n t where n: "n = (H_NULL_OR_EMPTY \<in> set s)" and t: "t = widest (filter (\<lambda>t. t \<noteq> H_NULL_OR_EMPTY) s)" by blast
  have "a \<in> set detected_types" using assms False by auto
  moreover have "t \<in> set (H_UNKNOWN # filter (\<lambda>t. t \<noteq> H_NULL_OR_EMPTY) detected_types)" unfolding t by (rule widest_range)
  moreover have "n \<in> set [True, False]" by simp
  ultimately have "series_type (nulled n t) a = (if a = H_NULL_OR_EMPTY then nulled True t else nulled n (joined a t))"
    using series_step_all unfolding list_all_iff by blast
  moreover have "widest (a # filter (\<lambda>t. t \<noteq> H_NULL_OR_EMPTY) s) = joined a t" if "a \<noteq> H_NULL_OR_EMPTY"
    unfolding t using assms False that by (intro widest_Cons) auto
  ultimately show ?thesis using False n t by (auto simp: common_type_def)
qed

lemma detected: "detectDataType clock v = Inr ty \<Longrightarrow> ty \<in> insert H_BINARY (set detected_types)"
  by (auto simp: detectDataType_def detected_types_def bindR_eq_Inr_iff split: if_splits)

lemma series_from:
  "\<forall>v\<in>set vs. detectDataType clock v = Inr (ty v) \<Longrightarrow> set s \<subseteq> insert H_BINARY (set detected_types) \<Longrightarrow>
     foldR (\<lambda>prev v. detectDataTypeSeries clock v prev) (common_type s) vs = Inr (common_type (rev (map ty vs) @ s))"
proof (induction vs arbitrary: s)
  case (Cons v vs)
  have sub: "set (ty v # s) \<subseteq> insert H_BINARY (set detected_types)" using Cons.prems detected [of clock v] by auto
  have "detectDataTypeSeries clock v (common_type s) = Inr (common_type (ty v # s))"
  proof (cases "common_type s = H_BINARY")
    case True
    then show ?thesis using series_step [OF sub] by (simp add: detectDataTypeSeries_def series_type_def)
  next
    case False
    then show ?thesis using series_step [OF sub] Cons.prems(1) by (simp add: detectDataTypeSeries_def)
  qed
  then show ?case using Cons.IH [OF _ sub] Cons.prems(1) by simp
qed simp

text \<open>
  The type of a series is the common type of its values: when the type of every value can be told, going
  through the values one by one, from no type at all, ends at the type that the set of their types gives,
  so neither the order of the values nor repetitions matter.
\<close>

theorem series_common_type:
  assumes "\<forall>v\<in>set vs. detectDataType clock v = Inr (ty v)"
  shows "foldR (\<lambda>prev v. detectDataTypeSeries clock v prev) H_UNKNOWN vs = Inr (common_type (map ty vs))"
proof -
  have "common_type [] = H_UNKNOWN" by (simp add: common_type_def widest_def nulled_def)
  moreover have "common_type (rev (map ty vs)) = common_type (map ty vs)" by (rule common_type_set) simp
  ultimately show ?thesis using series_from [OF assms, of "[]"] by simp
qed

theorem series_common_type_witness:
  "foldR (\<lambda>prev v. detectDataTypeSeries 0 v prev) H_UNKNOWN [''17'', ''null'', ''-3''] = Inr H_SIGNED_NULLABLE"
proof -
  obtain ty where ty: "ty = (\<lambda>v. if v = ''17'' then H_UNSIGNED else if v = ''-3'' then H_SIGNED else H_NULL_OR_EMPTY)" by blast
  have "\<forall>v\<in>set [''17'', ''null'', ''-3'']. detectDataType 0 v = Inr (ty v)"
    by (simp add: ty detectDataType_def isNumber_def is_decimal_def less_eq_char_def isNullOrEmpty_def)
  then show ?thesis using series_common_type [of "[''17'', ''null'', ''-3'']" 0 ty] by (simp add: ty common_type_def widest_def nulled_def)
qed

section \<open>Times\<close>

text \<open>A date, alone or with its time, is understood as the Unix time that the calendar gives.\<close>

lemma parseTime_date:
  assumes "day_of_epoch n = (y, m, d)" and "y < 10000"
  shows "parseTime clock (date_text y m d) = Inr (Some (of_nat n * 86400000000))"
proof -
  have date: "1 \<le> m" "m \<le> 12" "1 \<le> d" "d \<le> month_length y m"
    using day_of_epoch_counts [of n] assms(1) by (auto simp: real_date_def)
  have parse: "iso8601_parse (date_text y m d) = Inr (Some (no_time\<lparr>year := of_nat y, month := of_nat m, day := of_nat d\<rparr>))"
    using iso8601_date [OF assms(2) date] .
  have time: "unix_time (no_time\<lparr>year := of_nat y, month := of_nat m, day := of_nat d\<rparr>) = of_nat n * 86400000000"
    using unix_time_days [OF assms(1), of 0 0 0 0 0] assms(2) by (simp add: no_time_def)
  obtain c where c: "char_of (48 + y div 100 div 10 mod 10) = (c :: char)" by blast
  have "is_decimal c" using two_value(2) [of "y div 100 div 10"] c by simp
  then have "c \<noteq> CHR ''-''" "c \<noteq> CHR ''n''" by (auto simp: is_decimal_def less_eq_char_def)
  then have "\<not> isDigitString (date_text y m d)" "date_text y m d \<noteq> ''now''" "hd (date_text y m d) \<noteq> CHR ''-''"
    by (auto simp: date_text_def isDigitString_def two_def is_decimal_def less_eq_char_def c)
  then show ?thesis using parse time by (simp add: parseTime_def before_now_def raw_timestamp_def)
qed

text \<open>The empty text is an unsigned integer, and a number with a point is text: \<open>isNumber\<close> takes digits only.\<close>

lemma detect_examples:
  "detectDataType clock [] = Inr H_UNSIGNED" "detectDataType clock ''1.5'' = Inr H_TEXT"
  by (simp_all add: detectDataType_def isNumber_def is_decimal_def less_eq_char_def isNullOrEmpty_def parseBoolean_def parseTime_def
      before_now_def raw_timestamp_def isDigitString_def iso8601_parse_def parseYear_def bytes_of_string_def)

text \<open>The validation of a text that starts with a tail byte never ends, so neither does the guess.\<close>

lemma detect_never_ends: "detectDataType clock [CHR 0x80] = Inl OutOfFuel"
  by (simp add: detectDataType_def isNumber_def is_decimal_def less_eq_char_def isNullOrEmpty_def parseBoolean_def parseTime_def
      before_now_def raw_timestamp_def isDigitString_def iso8601_parse_def parseYear_def bytes_of_string_def)

end
