(* ===== verification/Csv.thy ===== *)
theory Csv
  imports SValue Query_Plan
begin

text \<open>
  Tables in text files: \<open>CSVInputStream\<close> and \<open>CSVOutputStream\<close> of src/stx/csv, and the tables
  \<open>CSVTableRef\<close> and their opening in \<open>CSVBackend\<close> of src/csql/backends/csv. A file is its characters.
\<close>

section \<open>Streams\<close>

record csv_stream =
  csv_text :: string
  csv_rest :: string
  column_separator :: char
  row_separator :: char
  quote_char :: char

definition open_csv :: "string \<Rightarrow> char \<Rightarrow> char \<Rightarrow> char \<Rightarrow> csv_stream" where
  "open_csv s col row q = \<lparr>csv_text = s, csv_rest = s, column_separator = col, row_separator = row, quote_char = q\<rparr>"

text \<open>A byte order mark at the start of the file is skipped when the file is opened, and not again.\<close>

definition skip_mark :: "string \<Rightarrow> string" where
  "skip_mark s =
     (if take 3 s = [CHR 0xEF, CHR 0xBB, CHR 0xBF] then drop 3 s
      else if take 2 s = [CHR 0xFF, CHR 0xFE] then drop 2 s else s)"

definition openFile :: "string \<Rightarrow> char \<Rightarrow> char \<Rightarrow> char \<Rightarrow> csv_stream" where
  "openFile s col row q = (open_csv s col row q)\<lparr>csv_rest := skip_mark s\<rparr>"

text \<open>A column: its text without the quotes, the separator that ended it, if any, and the rest.\<close>

fun read_column :: "char \<Rightarrow> char \<Rightarrow> char \<Rightarrow> bool \<Rightarrow> string \<Rightarrow> string \<times> char option \<times> string" where
  "read_column col row q quoted [] = ([], None, [])"
| "read_column col row q quoted (c # cs) =
     (if \<not> quoted \<and> c = col then ([], Some c, cs)
      else if \<not> quoted \<and> c = row then ([], Some c, cs)
      else if c = q then read_column col row q (\<not> quoted) cs
      else (let (s, e, r) = read_column col row q quoted cs in (c # s, e, r)))"

lemma read_column_shorter: "read_column col row q quoted s = (t, Some c, r) \<Longrightarrow> length r < length s"
  by (induction s arbitrary: quoted t) (auto split: if_splits prod.splits intro: less_SucI)

function read_row :: "char \<Rightarrow> char \<Rightarrow> char \<Rightarrow> string \<Rightarrow> string list \<times> bool \<times> string" where
  "read_row col row q s =
     (let (t, e, r) = read_column col row q False s in
      case e of
        None \<Rightarrow> ([t], False, r)
      | Some c \<Rightarrow>
          if c = row then ([t], True, r)
          else (let (ts, ok, r') = read_row col row q r in (t # ts, ok, r')))"
  by pat_completeness auto
termination by (relation "measure (\<lambda>(col, row, q, s). length s)") (auto dest: read_column_shorter [OF sym])

declare read_row.simps [simp del]

text \<open>The row that the end of the file ends is not reported as one.\<close>

definition readNextRow :: "csv_stream \<Rightarrow> bool \<times> string list \<times> csv_stream" where
  "readNextRow st =
     (let (ts, ok, r) = read_row (column_separator st) (row_separator st) (quote_char st) (csv_rest st) in
      (ok, ts, st\<lparr>csv_rest := r\<rparr>))"

definition skipNextRow :: "csv_stream \<Rightarrow> bool \<times> csv_stream" where
  "skipNextRow st = (let (ok, ts, st') = readNextRow st in (ok, st'))"

definition rewind_csv :: "csv_stream \<Rightarrow> csv_stream" where
  "rewind_csv st = st\<lparr>csv_rest := csv_text st\<rparr>"

text \<open>What \<open>appendRow\<close> writes: nothing is quoted.\<close>

fun appendRow :: "string \<Rightarrow> string \<Rightarrow> string list \<Rightarrow> string" where
  "appendRow col row [] = row"
| "appendRow col row [t] = t @ row"
| "appendRow col row (t # u # ts) = t @ col @ appendRow col row (u # ts)"

section \<open>Tables\<close>

text \<open>\<open>num_cols\<close> is -1 until the first row. The headers are a map from names to positions; the first of a name stays.\<close>

record csv_table =
  csv :: csv_stream
  headers :: "string \<rightharpoonup> nat"
  num_cols :: int
  min_cols :: nat
  row_index :: int
  dirty :: bool

fun number_headers :: "nat \<Rightarrow> string list \<Rightarrow> (string \<rightharpoonup> nat) \<Rightarrow> string \<rightharpoonup> nat" where
  "number_headers i [] hs = hs"
| "number_headers i (h # rest) hs = number_headers (Suc i) rest (if hs h = None then hs(h \<mapsto> i) else hs)"

definition readHeaders :: "csv_table \<Rightarrow> csv_table result" where
  "readHeaders t =
     (let (ok, hs, st) = readNextRow (csv t) in
      if \<not> ok \<or> hs = [] then Inl (Raise RuntimeError)
      else Inr (t\<lparr>csv := st, headers := number_headers 0 hs (headers t), num_cols := int (length hs),
        min_cols := length hs, row_index := row_index t + 1\<rparr>))"

definition new_csv_table :: "csv_stream \<Rightarrow> bool \<Rightarrow> csv_table result" where
  "new_csv_table st with_headers =
     (let t = \<lparr>csv = st, headers = Map.empty, num_cols = - 1, min_cols = 0, row_index = 0, dirty = False\<rparr> in
      if with_headers then readHeaders t else Inr t)"

text \<open>\<open>order\<close> is the order in which the hash map hands out the headers.\<close>

definition csv_columns :: "string list \<Rightarrow> csv_table \<Rightarrow> string list" where
  "csv_columns order t =
     (if min_cols t = 0 then []
      else if headers t \<noteq> Map.empty then order
      else map (\<lambda>i. ''col'' @ digits_of (i + 1)) [0..<min_cols t])"

definition getColumnIndex :: "csv_table \<Rightarrow> string \<Rightarrow> int" where
  "getColumnIndex t name = (case headers t name of
      Some i \<Rightarrow> int i
    | None \<Rightarrow>
        if 3 < length name \<and> take 3 name = ''col'' then
          (case stoi (drop 3 name) of Inr i \<Rightarrow> if 0 < i then i - 1 else - 1 | Inl e \<Rightarrow> - 1)
        else - 1)"

definition getColumnName :: "string list \<Rightarrow> csv_table \<Rightarrow> int \<Rightarrow> string result" where
  "getColumnName order t i = (case filter (\<lambda>h. headers t h = Some (nat i) \<and> 0 \<le> i) order of
      [] \<Rightarrow> Inl (Raise IndexError)
    | h # _ \<Rightarrow> Inr h)"

text \<open>The next row with its values, if there is one, and the table after it.\<close>

definition next_table_row :: "csv_table \<Rightarrow> (svalue list option \<times> csv_table) result" where
  "next_table_row t =
     (let (ok, row, st) = readNextRow (csv t); t = t\<lparr>csv := st, dirty := True\<rparr> in
      if \<not> ok \<or> row = [] then Inr (None, t)
      else
        (let t = t\<lparr>row_index := row_index t + 1\<rparr> in
         if length row < min_cols t then Inl (Raise RuntimeError)
         else if num_cols t \<noteq> - 1 \<and> num_cols t \<noteq> int (length row) then Inl (Raise RuntimeError)
         else Inr (Some (map Str row), t\<lparr>num_cols := int (length row)\<rparr>)))"

definition rewind_table :: "csv_table \<Rightarrow> csv_table result" where
  "rewind_table t =
     (let t = t\<lparr>csv := rewind_csv (csv t)\<rparr> in
      if headers t \<noteq> Map.empty then
        (let (ok, st) = skipNextRow (csv t) in
         if ok then Inr (t\<lparr>csv := st, row_index := 1\<rparr>) else Inl (Raise RuntimeError))
      else Inr (t\<lparr>row_index := 0\<rparr>))"

text \<open>The loop over the rows, which the consumer can stop. Every row takes a character of the file.\<close>

lemma next_row_shorter: "readNextRow st = (True, ts, st') \<Longrightarrow> length (csv_rest st') < length (csv_rest st)"
proof -
  have "read_row col row q s = (ts, True, r) \<Longrightarrow> length r < length s" for col row q s ts r
  proof (induction col row q s arbitrary: ts r rule: read_row.induct)
    case (1 col row q s)
    obtain t e r1 where c: "read_column col row q False s = (t, e, r1)" by (cases "read_column col row q False s") auto
    then obtain c where e: "e = Some c" using "1.prems" by (cases e) (auto simp: read_row.simps [of _ _ _ s])
    have less: "length r1 < length s" using read_column_shorter c e by blast
    show ?case
    proof (cases "c = row")
      case True
      then show ?thesis using "1.prems" c e less by (simp add: read_row.simps [of _ _ _ s])
    next
      case False
      obtain us ok r2 where r2: "read_row col row q r1 = (us, ok, r2)" by (cases "read_row col row q r1") auto
      then have "ok" "r = r2" using "1.prems" c e False by (auto simp: read_row.simps [of _ _ _ s])
      then show ?thesis using "1.IH" [OF c [symmetric] refl refl e False] r2 less by fastforce
    qed
  qed
  moreover assume "readNextRow st = (True, ts, st')"
  ultimately show ?thesis by (auto simp: readNextRow_def Let_def split: prod.splits)
qed

lemma table_row_shorter:
  "next_table_row t = Inr (Some row, t') \<Longrightarrow> length (csv_rest (csv t')) < length (csv_rest (csv t))"
  by (auto simp: next_table_row_def Let_def split: prod.splits if_splits dest!: next_row_shorter)

function scan_rows :: "('s \<Rightarrow> svalue list \<Rightarrow> ('s \<times> bool) result) \<Rightarrow> 's \<Rightarrow> csv_table \<Rightarrow> ('s \<times> csv_table) result" where
  "scan_rows step st t =
     bindR (next_table_row t) (\<lambda>(row, t').
       case row of
         None \<Rightarrow> Inr (st, t')
       | Some row \<Rightarrow> bindR (step st row) (\<lambda>(st', go). if go then scan_rows step st' t' else Inr (st', t')))"
  by pat_completeness auto
termination by (relation "measure (\<lambda>(step, st, t). length (csv_rest (csv t)))") (auto dest: table_row_shorter)

declare scan_rows.simps [simp del]

definition executeScan :: "('s \<Rightarrow> svalue list \<Rightarrow> ('s \<times> bool) result) \<Rightarrow> 's \<Rightarrow> csv_table \<Rightarrow> ('s \<times> csv_table) result" where
  "executeScan step st t = bindR (if dirty t then rewind_table t else Inr t) (\<lambda>t. scan_rows step st t)"

section \<open>Opening\<close>

record csv_options =
  opt_column :: char
  opt_row :: char
  opt_quote :: char
  opt_escape :: char
  opt_headers :: bool

definition single :: "string \<Rightarrow> char result" where
  "single v = (case v of [c] \<Rightarrow> Inr c | _ \<Rightarrow> Inl (Raise RuntimeError))"

definition csv_option :: "csv_options \<Rightarrow> string \<times> string \<Rightarrow> csv_options result" where
  "csv_option opts p =
     (if fst p = ''headers'' then Inr (opts\<lparr>opt_headers := (snd p = ''true'' \<or> snd p = ''TRUE'')\<rparr>)
      else if fst p = ''row_sep'' then bindR (single (snd p)) (\<lambda>c. Inr (opts\<lparr>opt_row := c\<rparr>))
      else if fst p = ''col_sep'' then bindR (single (snd p)) (\<lambda>c. Inr (opts\<lparr>opt_column := c\<rparr>))
      else if fst p = ''quote_char'' then bindR (single (snd p)) (\<lambda>c. Inr (opts\<lparr>opt_quote := c\<rparr>))
      else if fst p = ''escape_char'' then bindR (single (snd p)) (\<lambda>c. Inr (opts\<lparr>opt_escape := c\<rparr>))
      else Inl (Raise RuntimeError))"

text \<open>\<open>file\<close> gives the contents of a path. A source of another scheme is not for this backend.\<close>

definition openTables :: "(string \<Rightarrow> string result) \<Rightarrow> string list \<Rightarrow> string \<Rightarrow> string \<Rightarrow> (string \<times> string) list \<Rightarrow> csv_table option result" where
  "openTables file names sch source_path params =
     (if sch \<noteq> ''csv'' then Inr None
      else if length names \<noteq> 1 then Inl (Raise RuntimeError)
      else bindR (foldR csv_option \<lparr>opt_column = CHR '','', opt_row = CHR 0x0A, opt_quote = CHR 0x22, opt_escape = CHR 0x5C, opt_headers = False\<rparr> params) (\<lambda>opts.
        bindR (file source_path) (\<lambda>s.
        bindR (new_csv_table (openFile s (opt_column opts) (opt_row opts) (opt_quote opts)) (opt_headers opts)) (\<lambda>t. Inr (Some t)))))"

end
