(* ===== verification/CSTable_Csv.thy ===== *)
theory CSTable_Csv
  imports CSTable_Builder Csv Human
begin

text \<open>
  The import of text into columns: \<open>addRecordsFromCSV\<close> of src/cstable/CSTableBuilder.cc. The first row names
  the columns; each further row gives one value or one null to every column it names.
\<close>

section \<open>Cells\<close>

text \<open>The bytes of a cell as the import hands them to the column. A time is relative to \<open>clock\<close>.\<close>

definition cell_number :: "string \<Rightarrow> 64 word result" where
  "cell_number s = (case stoull s of Inl e \<Rightarrow> Inl (Raise TypeError) | Inr (v, r) \<Rightarrow> Inr v)"

definition cell_bytes :: "64 word \<Rightarrow> field_type \<Rightarrow> string \<Rightarrow> byte list option result" where
  "cell_bytes clock ty s = (case ty of
      F_STRING \<Rightarrow> Inr (Some (bytes_of_string s))
    | F_UINT32 \<Rightarrow> bindR (cell_number s) (\<lambda>v. Inr (Some (appendUInt32 (ucast v))))
    | F_DATETIME \<Rightarrow> bindR (parseTime clock s) (\<lambda>t. case t of
          None \<Rightarrow> Inl (Raise TypeError)
        | Some v \<Rightarrow> Inr (Some (appendUInt64 v)))
    | F_UINT64 \<Rightarrow> bindR (cell_number s) (\<lambda>v. Inr (Some (appendUInt64 v)))
    | F_DOUBLE \<Rightarrow> (case stod s of None \<Rightarrow> Inl (Raise TypeError) | Some v \<Rightarrow> Inr (Some (appendUInt64 v)))
    | F_BOOLEAN \<Rightarrow> Inr (Some [if parseBoolean s = Some True then 1 else 0])
    | F_OBJECT \<Rightarrow> Inl (Raise IllegalStateError)
    | F_OTHER t \<Rightarrow> Inr None)"

definition import_cell :: "simdcomp \<Rightarrow> 64 word \<Rightarrow> field_type \<Rightarrow> string \<Rightarrow> column_writer \<Rightarrow> column_writer result" where
  "import_cell lib clock ty s w =
     (if isNullOrEmpty s then
        (if w_d_max w = 0 then Inl (Raise RuntimeError) else Inr (addNull lib 0 0 w))
      else
        bindR (cell_bytes clock ty s) (\<lambda>bs. case bs of
            None \<Rightarrow> Inr w
          | Some b \<Rightarrow> addDatum lib 0 (w_d_max w) b w))"

section \<open>Rows\<close>

definition update_column :: "(column_writer \<Rightarrow> column_writer result) \<Rightarrow> string \<Rightarrow> writers \<Rightarrow> writers result" where
  "update_column f name cols =
     bindR (column_named cols name) (\<lambda>w. bindR (f w) (\<lambda>w'. Inr (cols(name \<mapsto> w'))))"

text \<open>
  A row that is too long is cut. One that is too short leaves the columns of the cells it does not have as
  they are, without a null. The columns that the file does not name get a null.
\<close>

definition import_row ::
  "simdcomp \<Rightarrow> 64 word \<Rightarrow> (string \<times> field_type) list \<Rightarrow> string list \<Rightarrow> string list \<Rightarrow> writers \<Rightarrow> writers result" where
  "import_row lib clock hs missing row cols =
     bindR (foldR (\<lambda>cols ((h, ty), s). update_column (import_cell lib clock ty s) h cols) cols (zip hs row)) (\<lambda>cols.
       foldR (\<lambda>cols h. update_column (\<lambda>w. Inr (addNull lib 0 0 w)) h cols) cols missing)"

text \<open>Every row takes a character of the text.\<close>

function import_rows ::
  "simdcomp \<Rightarrow> 64 word \<Rightarrow> (string \<times> field_type) list \<Rightarrow> string list \<Rightarrow> csv_stream \<Rightarrow> table_builder \<Rightarrow> table_builder result" where
  "import_rows lib clock hs missing st b =
     (let (ok, row, st') = readNextRow st in
      if ok then
        bindR (import_row lib clock hs missing row (builder_columns b)) (\<lambda>cols.
          import_rows lib clock hs missing st' (b\<lparr>builder_columns := cols, builder_records := builder_records b + 1\<rparr>))
      else Inr b)"
  by pat_completeness auto
termination by (relation "measure (\<lambda>(lib, clock, hs, missing, st, b). length (csv_rest st))") (auto dest: next_row_shorter [OF sym])

declare import_rows.simps [simp del]

section \<open>Files\<close>

text \<open>The header: each name has to be a column, and its type is that of the field of this name.\<close>

definition header_type :: "table_builder \<Rightarrow> string \<Rightarrow> (string \<times> field_type) result" where
  "header_type b h =
     (if builder_columns b h = None then Inl (Raise RuntimeError)
      else bindR (fieldId (builder_schema b) h) (\<lambda>i. bindR (fieldType (builder_schema b) i) (\<lambda>ty. Inr (h, ty))))"

definition missing_column :: "table_builder \<Rightarrow> string \<Rightarrow> string result" where
  "missing_column b h =
     bindR (column_named (builder_columns b) h) (\<lambda>w. if w_d_max w = 0 then Inl (Raise RuntimeError) else Inr h)"

text \<open>\<open>names\<close> lists the columns of the builder in the order of the set that the code puts them into.\<close>

definition addRecordsFromCSV :: "simdcomp \<Rightarrow> 64 word \<Rightarrow> string list \<Rightarrow> csv_stream \<Rightarrow> table_builder \<Rightarrow> table_builder result" where
  "addRecordsFromCSV lib clock names st b =
     (let (ok, header, st') = readNextRow st in
      bindR (mapR (header_type b) header) (\<lambda>hs.
      bindR (mapR (missing_column b) (filter (\<lambda>n. n \<notin> set header) names)) (\<lambda>missing.
      import_rows lib clock hs missing st' b)))"

end
