(* ===== verification/Csv_Correct.thy ===== *)
theory Csv_Correct
  imports Csv
begin

text \<open>
  Rows written as text, quoted where they have to be, are the rows that a scan of the file yields, as often
  as it is scanned.
\<close>

section \<open>Cells\<close>

text \<open>A cell is its value and whether it is written in quotes; the separators stand only in quoted ones.\<close>

type_synonym cell = "bool \<times> string"

definition cell_text :: "char \<Rightarrow> cell \<Rightarrow> string" where
  "cell_text q c = (if fst c then q # snd c @ [q] else snd c)"

definition good_cell :: "char \<Rightarrow> char \<Rightarrow> char \<Rightarrow> cell \<Rightarrow> bool" where
  "good_cell col row q c \<longleftrightarrow> q \<notin> set (snd c) \<and> (fst c \<or> col \<notin> set (snd c) \<and> row \<notin> set (snd c))"

definition rows_text :: "char \<Rightarrow> char \<Rightarrow> char \<Rightarrow> cell list list \<Rightarrow> string" where
  "rows_text col row q rows = concat (map (\<lambda>r. appendRow [col] [row] (map (cell_text q) r)) rows)"

definition separate :: "char \<Rightarrow> char \<Rightarrow> char \<Rightarrow> bool" where
  "separate col row q \<longleftrightarrow> col \<noteq> row \<and> q \<noteq> col \<and> q \<noteq> row"

lemma read_plain:
  "q \<notin> set s \<Longrightarrow> quoted \<or> col \<notin> set s \<and> row \<notin> set s \<Longrightarrow> read_column col row q quoted (s @ r) =
     (case read_column col row q quoted r of (t, e, r') \<Rightarrow> (s @ t, e, r'))"
  by (induction s) (auto split: prod.splits)

lemma read_cell:
  assumes "good_cell col row q c" and "separate col row q" and "x = col \<or> x = row"
  shows "read_column col row q False (cell_text q c @ x # r) = (snd c, Some x, r)"
  using assms read_plain [of q "snd c" True col row "q # x # r"] read_plain [of q "snd c" False col row "x # r"]
  by (auto simp: cell_text_def good_cell_def separate_def)

lemma read_cells:
  "cs \<noteq> [] \<Longrightarrow> \<forall>c\<in>set cs. good_cell col row q c \<Longrightarrow> separate col row q \<Longrightarrow>
     read_row col row q (appendRow [col] [row] (map (cell_text q) cs) @ r) = (map snd cs, True, r)"
proof (induction cs)
  case (Cons c cs)
  show ?case
  proof (cases cs)
    case Nil
    then show ?thesis using Cons.prems read_cell [of col row q c row r]
      by (subst read_row.simps) simp
  next
    case (Cons d ds)
    have "appendRow [col] [row] (map (cell_text q) (c # cs)) @ r = cell_text q c @ col # (appendRow [col] [row] (map (cell_text q) cs) @ r)"
      using Cons by simp
    then show ?thesis
      using Cons.IH Cons.prems Cons read_cell [of col row q c col "appendRow [col] [row] (map (cell_text q) cs) @ r"]
      by (subst read_row.simps) (auto simp: separate_def simp del: appendRow.simps)
  qed
qed simp

lemma read_end: "read_row col row q [] = ([[]], False, [])"
  by (simp add: read_row.simps)

section \<open>Scanning\<close>

text \<open>The table stands before the rows \<open>rows\<close>.\<close>

definition at_rows :: "char \<Rightarrow> char \<Rightarrow> char \<Rightarrow> nat \<Rightarrow> cell list list \<Rightarrow> csv_table \<Rightarrow> bool" where
  "at_rows col row q n rows t \<longleftrightarrow> column_separator (csv t) = col \<and> row_separator (csv t) = row \<and> quote_char (csv t) = q \<and>
     csv_rest (csv t) = rows_text col row q rows \<and> min_cols t = n \<and> num_cols t = int n"

lemma scan_all:
  assumes "separate col row q" and "0 < n"
  shows "\<forall>r\<in>set rows. length r = n \<and> (\<forall>c\<in>set r. good_cell col row q c) \<Longrightarrow> at_rows col row q n rows t \<Longrightarrow>
    \<exists>t'. scan_rows (\<lambda>acc r. Inr (acc @ [r], True)) acc t = Inr (acc @ map (map (Str \<circ> snd)) rows, t') \<and>
      at_rows col row q n [] t' \<and> csv_text (csv t') = csv_text (csv t) \<and> headers t' = headers t \<and> dirty t'"
proof (induction rows arbitrary: acc t)
  case Nil
  then show ?case
    by (subst scan_rows.simps) (auto simp: next_table_row_def readNextRow_def at_rows_def rows_text_def read_end)
next
  case (Cons r rows)
  have r: "r \<noteq> []" "\<forall>c\<in>set r. good_cell col row q c" "length r = n" using Cons.prems(1) assms(2) by auto
  let ?t = "t\<lparr>csv := (csv t)\<lparr>csv_rest := rows_text col row q rows\<rparr>, dirty := True, row_index := row_index t + 1\<rparr>"
  have "next_table_row t = Inr (Some (map (Str \<circ> snd) r), ?t)"
    using Cons.prems(2) read_cells [OF r(1,2) assms(1)] r
    by (simp add: next_table_row_def readNextRow_def at_rows_def rows_text_def Let_def)
  moreover have "at_rows col row q n rows ?t" using Cons.prems(2) by (simp add: at_rows_def)
  from Cons.IH [OF _ this, of "acc @ [map (Str \<circ> snd) r]"] Cons.prems(1) obtain t' where
    "scan_rows (\<lambda>acc r. Inr (acc @ [r], True)) (acc @ [map (Str \<circ> snd) r]) ?t = Inr ((acc @ [map (Str \<circ> snd) r]) @ map (map (Str \<circ> snd)) rows, t')"
    "at_rows col row q n [] t' \<and> csv_text (csv t') = csv_text (csv ?t) \<and> headers t' = headers ?t \<and> dirty t'" by auto
  ultimately show ?case by (subst scan_rows.simps) auto
qed

lemma number_headers_other: "h \<notin> set hs \<Longrightarrow> number_headers i hs m h = m h"
  by (induction hs arbitrary: i m) auto

lemma number_headers_nth: "distinct hs \<Longrightarrow> \<forall>h\<in>set hs. m h = None \<Longrightarrow> k < length hs \<Longrightarrow> number_headers i hs m (hs ! k) = Some (i + k)"
proof (induction hs arbitrary: i m k)
  case (Cons h hs)
  show ?case
  proof (cases k)
    case 0
    then show ?thesis using Cons.prems by (simp add: number_headers_other)
  next
    case (Suc j)
    have "\<forall>x\<in>set hs. (m(h \<mapsto> i)) x = None" using Cons.prems(1,2) by auto
    then have "number_headers (Suc i) hs (m(h \<mapsto> i)) (hs ! j) = Some (Suc i + j)"
      using Cons.IH Cons.prems(1,3) Suc by (simp del: fun_upd_apply)
    then show ?thesis using Cons.prems(2) Suc by simp
  qed
qed simp

text \<open>
  C30. A table survives its file: with headers and rows of as many cells, each quoted where it holds a
  separator and without the quote character, the table of the written text finds every header at its
  column, and a scan yields exactly the rows, in order; a second scan, which goes back to the start and skips
  the headers, yields them again.
\<close>

theorem csv_table_roundtrip:
  assumes "separate col row q" and "hs \<noteq> []" and "distinct (map snd hs)" and "\<forall>c\<in>set hs. good_cell col row q c"
    and "\<forall>r\<in>set rows. length r = length hs \<and> (\<forall>c\<in>set r. good_cell col row q c)"
  shows "\<exists>t t' t''. new_csv_table (open_csv (rows_text col row q (hs # rows)) col row q) True = Inr t \<and>
    (\<forall>i<length hs. getColumnIndex t (snd (hs ! i)) = int i) \<and>
    executeScan (\<lambda>acc r. Inr (acc @ [r], True)) [] t = Inr (map (map (Str \<circ> snd)) rows, t') \<and>
    executeScan (\<lambda>acc r. Inr (acc @ [r], True)) [] t' = Inr (map (map (Str \<circ> snd)) rows, t'')"
proof -
  let ?text = "rows_text col row q (hs # rows)" and ?n = "length hs"
  let ?st = "(open_csv ?text col row q)\<lparr>csv_rest := rows_text col row q rows\<rparr>"
  let ?t = "\<lparr>csv = ?st, headers = number_headers 0 (map snd hs) Map.empty, num_cols = int ?n, min_cols = ?n, row_index = 1, dirty = False\<rparr>"
  note first = read_cells [OF assms(2,4,1)]
  have t: "new_csv_table (open_csv ?text col row q) True = Inr ?t"
    using first assms(2) by (simp add: new_csv_table_def readHeaders_def readNextRow_def open_csv_def rows_text_def)
  have index: "getColumnIndex ?t (snd (hs ! i)) = int i" if "i < ?n" for i
    using number_headers_nth [of "map snd hs" Map.empty i 0] assms(3) that by (simp add: getColumnIndex_def)
  have "at_rows col row q ?n rows ?t" by (simp add: at_rows_def open_csv_def)
  from scan_all [OF assms(1) _ assms(5) this, of "[]"] assms(2) obtain t' where
    one: "executeScan (\<lambda>acc r. Inr (acc @ [r], True)) [] ?t = Inr (map (map (Str \<circ> snd)) rows, t')"
    and t': "at_rows col row q ?n [] t'" "csv_text (csv t') = ?text" "headers t' = headers ?t" "dirty t'"
    by (auto simp: executeScan_def open_csv_def)
  have "headers ?t (snd (hs ! 0)) = Some 0" using number_headers_nth [of "map snd hs" Map.empty 0 0] assms(2,3) by simp
  then have "headers t' \<noteq> Map.empty" using t'(3) by auto
  then have again: "rewind_table t' = Inr (t'\<lparr>csv := (csv t')\<lparr>csv_rest := rows_text col row q rows\<rparr>, row_index := 1\<rparr>)"
    using t'(1,2) first by (simp add: rewind_table_def rewind_csv_def skipNextRow_def readNextRow_def at_rows_def rows_text_def Let_def)
  have "at_rows col row q ?n rows (t'\<lparr>csv := (csv t')\<lparr>csv_rest := rows_text col row q rows\<rparr>, row_index := 1\<rparr>)"
    using t'(1) by (simp add: at_rows_def)
  from scan_all [OF assms(1) _ assms(5) this, of "[]"] assms(2) obtain t'' where
    "executeScan (\<lambda>acc r. Inr (acc @ [r], True)) [] t' = Inr (map (map (Str \<circ> snd)) rows, t'')"
    using again t'(4) by (auto simp: executeScan_def)
  then show ?thesis using t index one by blast
qed

theorem csv_table_roundtrip_witness:
  "rows_text CHR '';'' CHR 0x0A CHR 0x22 [[(False, ''id''), (False, ''text'')], [(False, ''1''), (True, ''a;b'')]] =
     ''id;text'' @ [CHR 0x0A] @ ''1;'' @ [CHR 0x22] @ ''a;b'' @ [CHR 0x22, CHR 0x0A] \<and>
   (\<exists>t t'. new_csv_table (open_csv (''id;text'' @ [CHR 0x0A] @ ''1;'' @ [CHR 0x22] @ ''a;b'' @ [CHR 0x22, CHR 0x0A]) CHR '';'' CHR 0x0A CHR 0x22) True = Inr t \<and>
     executeScan (\<lambda>acc r. Inr (acc @ [r], True)) [] t = Inr ([[Str ''1'', Str ''a;b'']], t'))"
  using csv_table_roundtrip [of "CHR '';''" "CHR 0x0A" "CHR 0x22" "[(False, ''id''), (False, ''text'')]" "[[(False, ''1''), (True, ''a;b'')]]"]
  by (auto simp: rows_text_def cell_text_def separate_def good_cell_def)

text \<open>A last row without a row separator at its end is lost.\<close>

lemma last_row_lost:
  "readNextRow (open_csv (''1;2'') CHR '';'' CHR 0x0A CHR 0x22) =
     (False, [''1'', ''2''], \<lparr>csv_text = ''1;2'', csv_rest = [], column_separator = CHR '';'', row_separator = CHR 0x0A, quote_char = CHR 0x22\<rparr>)"
  by (simp add: readNextRow_def open_csv_def read_row.simps)

end
