(* ===== verification/CSTable_Csv_Correct.thy ===== *)
theory CSTable_Csv_Correct
  imports CSTable_Csv Csv_Correct CSTable_Correct
begin

text \<open>
  Importing a text is adding records: the table builder ends as if each row were a message, whose fields
  are the cells.
\<close>

section \<open>Updates of different columns\<close>

abbreviation update_all :: "writers \<Rightarrow> (string \<times> (column_writer \<Rightarrow> column_writer result)) list \<Rightarrow> writers result" where
  "update_all \<equiv> foldR (\<lambda>cols (n, f). update_column f n cols)"

definition updated :: "writers \<Rightarrow> writers \<Rightarrow> string \<times> (column_writer \<Rightarrow> column_writer result) \<Rightarrow> bool" where
  "updated cols cols' u = (\<exists>w w'. cols (fst u) = Some w \<and> snd u w = Inr w' \<and> cols' (fst u) = Some w')"

lemma update_column_Inr: "update_column f n cols = Inr cols' \<longleftrightarrow> (\<exists>w w'. cols n = Some w \<and> f w = Inr w' \<and> cols' = cols(n \<mapsto> w'))"
  by (auto simp: update_column_def column_named_def bindR_eq_Inr_iff deref_def split: option.splits)

text \<open>The order in which different columns are updated does not matter.\<close>

lemma update_all_Inr:
  "distinct (map fst us) \<Longrightarrow> update_all cols us = Inr cols' \<longleftrightarrow>
     (\<forall>u\<in>set us. updated cols cols' u) \<and> (\<forall>n. n \<notin> fst ` set us \<longrightarrow> cols' n = cols n)"
proof (induction us arbitrary: cols)
  case Nil
  then show ?case by auto
next
  case (Cons u us)
  obtain n f where u: "u = (n, f)" by (cases u)
  have n: "n \<notin> fst ` set us" and d: "distinct (map fst us)" using Cons.prems u by auto
  have same: "updated (cols(n \<mapsto> w)) cols' v = updated cols cols' v" if "v \<in> set us" for v w
    using that n by (auto simp: updated_def image_iff)
  show ?case (is "?l \<longleftrightarrow> ?r")
  proof
    assume ?l
    then obtain w w' where w: "cols n = Some w" "f w = Inr w'" "update_all (cols(n \<mapsto> w')) us = Inr cols'"
      by (auto simp: u bindR_eq_Inr_iff update_column_Inr)
    then have rest: "\<forall>v\<in>set us. updated (cols(n \<mapsto> w')) cols' v" "\<forall>k. k \<notin> fst ` set us \<longrightarrow> cols' k = (cols(n \<mapsto> w')) k"
      using Cons.IH [OF d, of "cols(n \<mapsto> w')"] by blast+
    then have "\<forall>v\<in>set us. updated cols cols' v" using same by blast
    moreover have "cols' n = Some w'" using n rest(2) by simp
    ultimately show ?r using w rest(2) by (auto simp: u updated_def)
  next
    assume r: ?r
    then obtain w w' where w: "cols n = Some w" "f w = Inr w'" "cols' n = Some w'" by (auto simp: u updated_def)
    have "update_all (cols(n \<mapsto> w')) us = Inr cols'" unfolding Cons.IH [OF d] using r same w by (auto simp: u)
    then show ?l using w by (simp add: u update_column_def column_named_def deref_def)
  qed
qed

lemma update_all_permuted:
  assumes "update_all cols us = Inr cols'" and "distinct (map fst us)" and "distinct (map fst vs)"
    and "fst ` set vs = fst ` set us"
    and "\<And>n f g w w'. (n, f) \<in> set us \<Longrightarrow> (n, g) \<in> set vs \<Longrightarrow> cols n = Some w \<Longrightarrow> f w = Inr w' \<Longrightarrow> g w = Inr w'"
  shows "update_all cols vs = Inr cols'"
proof -
  have us: "\<forall>u\<in>set us. updated cols cols' u" "\<forall>n. n \<notin> fst ` set us \<longrightarrow> cols' n = cols n"
    using assms(1) update_all_Inr [OF assms(2)] by simp_all
  have "updated cols cols' v" if v: "v \<in> set vs" for v
  proof -
    obtain n g where n: "v = (n, g)" by (cases v)
    then have "n \<in> fst ` set us" using v assms(4) by force
    then obtain f where f: "(n, f) \<in> set us" by auto
    then show ?thesis using us(1) assms(5) [OF f, of g] v n by (force simp: updated_def)
  qed
  then show ?thesis using update_all_Inr [OF assms(3)] us(2) assms(4) by simp
qed

section \<open>Records of flat schemas\<close>

definition flat_field :: "field \<Rightarrow> bool" where
  "flat_field f \<longleftrightarrow> field_type f \<in> {F_BOOLEAN, F_UINT32, F_STRING, F_UINT64, F_DOUBLE, F_DATETIME} \<and> \<not> repeated f \<and> field_id f \<noteq> 0"

definition flat_schema :: "schema \<Rightarrow> bool" where
  "flat_schema s \<longleftrightarrow> (\<forall>f\<in>set (schema_fields s). flat_field f) \<and> distinct (map field_name (schema_fields s)) \<and>
     distinct (map field_id (schema_fields s))"

text \<open>What a record with the children \<open>kids\<close>, one at most for the field, does to the column of a field.\<close>

definition field_update :: "simdcomp \<Rightarrow> message list \<Rightarrow> field \<Rightarrow> column_writer \<Rightarrow> column_writer result" where
  "field_update lib kids f w = (case filter (\<lambda>c. msg_id c = field_id f) kids of
      [] \<Rightarrow> if optional f then Inr (addNull lib 0 0 w) else Inl (Raise IllegalArgumentError)
    | c # cs \<Rightarrow> bindR (field_bytes (field_type f) c) (\<lambda>bs. case bs of
          None \<Rightarrow> Inr w
        | Some b \<Rightarrow> addDatum lib 0 (of_nat (deeper (optional f) 0)) b w))"

lemma flat_record_field:
  assumes "flat_field f" and "length (filter (\<lambda>c. msg_id c = field_id f) kids) \<le> 1"
    and "addRecordField lib 0 0 0 (Message i (V_Object kids)) [] cols f = Inr cols'"
  shows "update_column (field_update lib kids f) (field_name f) cols = Inr cols'"
proof -
  obtain i name ty ts rep opt enc sch where f: "f = Field i name ty ts rep opt enc sch" by (cases f)
  have bytes: "\<exists>b. bs = Some b" if "field_bytes ty c = Inr bs" for c bs
    using assms(1) that by (auto simp: f flat_field_def field_bytes_def bindR_eq_Inr_iff)
  consider "filter (\<lambda>c. msg_id c = i) kids = []" | c where "filter (\<lambda>c. msg_id c = i) kids = [c]"
    using assms(2) by (cases "filter (\<lambda>c. msg_id c = i) kids") (auto simp: f)
  then show ?thesis
  proof cases
    case 1
    have "ty \<noteq> F_OBJECT" "\<not> rep" using assms(1) by (auto simp: f flat_field_def)
    then show ?thesis using assms(3) 1
      by (auto simp: f field_update_def update_column_Inr column_named_def deref_def bindR_eq_Inr_iff split: option.splits if_splits)
  next
    case 2
    have ty: "ty \<noteq> F_OBJECT" "\<not> rep" using assms(1) by (auto simp: f flat_field_def)
    then have written: "writeField lib 0 (deeper opt 0) c name ty cols = Inr cols'" using assms(3) 2
      by (simp add: f Let_def bindR_eq_Inr_iff)
    then obtain bs where bs: "field_bytes ty c = Inr bs" by (auto simp: writeField_def bindR_eq_Inr_iff)
    then obtain b where b: "field_bytes ty c = Inr (Some b)" using bytes by blast
    then have "update_column (addDatum lib 0 (of_nat (deeper opt 0)) b) name cols = Inr cols'"
      using written by (simp add: writeField_def update_column_def)
    then show ?thesis using 2 b by (simp add: f field_update_def update_column_Inr)
  qed
qed

lemma flat_record:
  assumes "\<forall>f\<in>set fs. flat_field f \<and> length (filter (\<lambda>c. msg_id c = field_id f) kids) \<le> 1"
  shows "foldR (addRecordField lib 0 0 0 (Message i (V_Object kids)) []) cols fs = Inr cols' \<Longrightarrow>
    update_all cols (map (\<lambda>f. (field_name f, field_update lib kids f)) fs) = Inr cols'"
  using assms by (induction fs arbitrary: cols) (auto simp: bindR_eq_Inr_iff dest: flat_record_field)

text \<open>Updates keep the levels of the columns, which are those of the fields.\<close>

definition columns_fit :: "field list \<Rightarrow> writers \<Rightarrow> bool" where
  "columns_fit fs cols \<longleftrightarrow> (\<forall>f\<in>set fs. \<forall>w. cols (field_name f) = Some w \<longrightarrow> w_d_max w = of_nat (deeper (optional f) 0))"

lemma addDatum_levels: "addDatum lib r d bs w = Inr w' \<Longrightarrow> w_d_max w' = w_d_max w"
  by (cases "w_type w") (auto simp: addDatum_defs addNull_def Let_def split: if_splits)

lemma field_update_levels: "field_update lib kids f w = Inr w' \<Longrightarrow> w_d_max w' = w_d_max w"
  by (auto simp: field_update_def addNull_def bindR_eq_Inr_iff split: list.splits if_splits option.splits dest: addDatum_levels)

lemma columns_fit_updated:
  assumes "update_all cols (map (\<lambda>f. (field_name f, field_update lib kids f)) fs) = Inr cols'"
    and "distinct (map field_name fs)" and "columns_fit fs cols"
  shows "columns_fit fs cols'"
  unfolding columns_fit_def
proof (intro ballI allI impI)
  fix f w' assume f: "f \<in> set fs" and w': "cols' (field_name f) = Some w'"
  have "distinct (map fst (map (\<lambda>f. (field_name f, field_update lib kids f)) fs))" using assms(2) by (simp add: comp_def)
  from update_all_Inr [OF this] assms(1) f have "updated cols cols' (field_name f, field_update lib kids f)" by auto
  then show "w_d_max w' = of_nat (deeper (optional f) 0)"
    using w' assms(3) f field_update_levels unfolding updated_def columns_fit_def by fastforce
qed

section \<open>Rows as records\<close>

text \<open>The value that a cell stands for; a null is no value.\<close>

definition cell_value :: "64 word \<Rightarrow> field_type \<Rightarrow> string \<Rightarrow> message_value result" where
  "cell_value clock ty s = (case ty of
      F_STRING \<Rightarrow> Inr (V_String s)
    | F_UINT32 \<Rightarrow> bindR (cell_number s) (\<lambda>v. Inr (V_UInt32 (ucast v)))
    | F_UINT64 \<Rightarrow> bindR (cell_number s) (\<lambda>v. Inr (V_UInt64 v))
    | F_DATETIME \<Rightarrow> bindR (parseTime clock s) (\<lambda>t. case t of None \<Rightarrow> Inl (Raise TypeError) | Some v \<Rightarrow> Inr (V_DateTime v))
    | F_DOUBLE \<Rightarrow> (case stod s of None \<Rightarrow> Inl (Raise TypeError) | Some v \<Rightarrow> Inr (V_Double v))
    | F_BOOLEAN \<Rightarrow> Inr (V_Bool (parseBoolean s = Some True))
    | _ \<Rightarrow> Inl (Raise IllegalStateError))"

definition cell_messages :: "64 word \<Rightarrow> field \<times> string \<Rightarrow> message list result" where
  "cell_messages clock c =
     (if isNullOrEmpty (snd c) then Inr []
      else bindR (cell_value clock (field_type (fst c)) (snd c)) (\<lambda>v. Inr [Message (field_id (fst c)) v]))"

definition row_message :: "64 word \<Rightarrow> field list \<Rightarrow> string list \<Rightarrow> message result" where
  "row_message clock fs row = bindR (mapR (cell_messages clock) (zip fs row)) (\<lambda>cs. Inr (Message 0 (V_Object (concat cs))))"

lemma cell_value_bytes: "cell_value clock ty s = Inr v \<Longrightarrow> cell_bytes clock ty s = field_bytes ty (Message i v)"
  by (auto simp: cell_value_def cell_bytes_def field_bytes_def bindR_eq_Inr_iff split: field_type.splits option.splits)

lemma cell_ids: "cell_messages clock c = Inr cs \<Longrightarrow> length cs \<le> 1 \<and> (\<forall>m\<in>set cs. msg_id m = field_id (fst c))"
  by (auto simp: cell_messages_def bindR_eq_Inr_iff split: if_splits)

lemma import_cell_update:
  assumes "cell_messages clock (f, s) = Inr (filter (\<lambda>c. msg_id c = field_id f) kids)"
    and "w_d_max w = of_nat (deeper (optional f) 0)" and "field_update lib kids f w = Inr w'"
  shows "import_cell lib clock (field_type f) s w = Inr w'"
proof (cases "isNullOrEmpty s")
  case True
  then show ?thesis using assms by (auto simp: cell_messages_def field_update_def import_cell_def deeper_def split: if_splits)
next
  case False
  then obtain v where v: "cell_value clock (field_type f) s = Inr v" "filter (\<lambda>c. msg_id c = field_id f) kids = [Message (field_id f) v]"
    using assms(1) by (auto simp: cell_messages_def bindR_eq_Inr_iff)
  then show ?thesis using assms(2,3) False cell_value_bytes [OF v(1), of "field_id f"] by (simp add: field_update_def import_cell_def)
qed

text \<open>Among the children of a row, those of a field are what its cell gives.\<close>

lemma row_children:
  "mapR (cell_messages clock) cs = Inr ms \<Longrightarrow> distinct (map (field_id \<circ> fst) cs) \<Longrightarrow>
     (\<forall>c\<in>set cs. cell_messages clock c = Inr (filter (\<lambda>m. msg_id m = field_id (fst c)) (concat ms))) \<and>
     (\<forall>i. i \<notin> (field_id \<circ> fst) ` set cs \<longrightarrow> filter (\<lambda>m. msg_id m = i) (concat ms) = [])"
proof (induction cs arbitrary: ms)
  case (Cons c cs)
  then obtain m ms' where m: "cell_messages clock c = Inr m" "mapR (cell_messages clock) cs = Inr ms'" "ms = m # ms'"
    by (auto simp: bindR_eq_Inr_iff)
  note ids = cell_ids [OF m(1)]
  have IH: "\<forall>c\<in>set cs. cell_messages clock c = Inr (filter (\<lambda>m. msg_id m = field_id (fst c)) (concat ms'))"
    "\<forall>i. i \<notin> (field_id \<circ> fst) ` set cs \<longrightarrow> filter (\<lambda>m. msg_id m = i) (concat ms') = []"
    using Cons.IH [OF m(2)] Cons.prems(2) by simp_all
  have own: "filter (\<lambda>x. msg_id x = field_id (fst c)) m = m" using ids by (intro filter_True) simp
  have other: "filter (\<lambda>x. msg_id x = i) m = []" if "i \<noteq> field_id (fst c)" for i using ids that by (auto simp: filter_empty_conv)
  have "cell_messages clock d = Inr (filter (\<lambda>m. msg_id m = field_id (fst d)) (concat ms))" if d: "d \<in> set (c # cs)" for d
  proof (cases "d \<in> set cs")
    case True
    then have "field_id (fst d) \<in> set (map (field_id \<circ> fst) cs)" by simp
    moreover have "field_id (fst c) \<notin> set (map (field_id \<circ> fst) cs)" using Cons.prems(2) by simp
    ultimately have "field_id (fst d) \<noteq> field_id (fst c)" by metis
    then show ?thesis using IH(1) True other m(3) by simp
  next
    case False
    then have "d = c" using d by simp
    moreover have "filter (\<lambda>m. msg_id m = field_id (fst c)) (concat ms') = []" using IH(2) Cons.prems(2) by simp
    ultimately show ?thesis using own m by simp
  qed
  moreover have "filter (\<lambda>m. msg_id m = i) (concat ms) = []" if "i \<notin> (field_id \<circ> fst) ` set (c # cs)" for i
    using IH(2) other that m(3) by simp
  ultimately show ?case by blast
qed simp

lemma row_kids:
  assumes "distinct (map field_id hs)" and "length row = length hs" and "mapR (cell_messages clock) (zip hs row) = Inr ms"
  shows "\<forall>c\<in>set (zip hs row). cell_messages clock c = Inr (filter (\<lambda>m. msg_id m = field_id (fst c)) (concat ms))"
    and "\<forall>i. i \<notin> field_id ` set hs \<longrightarrow> filter (\<lambda>m. msg_id m = i) (concat ms) = []"
    and "length (filter (\<lambda>m. msg_id m = i) (concat ms)) \<le> 1"
proof -
  have ids: "map (field_id \<circ> fst) (zip hs row) = map field_id hs" using assms(2) by (simp flip: map_map)
  then have "(field_id \<circ> fst) ` set (zip hs row) = field_id ` set hs" by (metis set_map)
  then show cells: "\<forall>c\<in>set (zip hs row). cell_messages clock c = Inr (filter (\<lambda>m. msg_id m = field_id (fst c)) (concat ms))"
    and others: "\<forall>i. i \<notin> field_id ` set hs \<longrightarrow> filter (\<lambda>m. msg_id m = i) (concat ms) = []"
    using row_children [OF assms(3)] ids assms(1) by simp_all
  show "length (filter (\<lambda>m. msg_id m = i) (concat ms)) \<le> 1"
  proof (cases "i \<in> field_id ` set hs")
    case True
    then obtain k where k: "k < length hs" "i = field_id (hs ! k)" by (auto simp: in_set_conv_nth)
    then have "(hs ! k, row ! k) \<in> set (zip hs row)" using assms(2) by (auto simp: in_set_zip)
    then show ?thesis using cells cell_ids [of clock "(hs ! k, row ! k)"] k(2) by auto
  qed (use others in simp)
qed

text \<open>A row is imported as its record is added, column by column in another order.\<close>

lemma import_row_record:
  assumes flat: "flat_schema s" and hs: "set hs \<subseteq> set (schema_fields s)" "distinct hs" "length row = length hs"
    and m: "row_message clock hs row = Inr m" and fit: "columns_fit (schema_fields s) cols"
    and missing: "distinct missing" "set missing = field_name ` (set (schema_fields s) - set hs)"
    and added: "foldR (addRecordField lib 0 0 0 m []) cols (schema_fields s) = Inr cols'"
  shows "import_row lib clock (map (\<lambda>f. (field_name f, field_type f)) hs) missing row cols = Inr cols'" and "columns_fit (schema_fields s) cols'"
proof -
  let ?fs = "schema_fields s"
  have names: "inj_on field_name (set ?fs)" "inj_on field_id (set ?fs)" "distinct (map field_name ?fs)"
    using flat by (simp_all add: flat_schema_def distinct_map)
  obtain ms where ms: "mapR (cell_messages clock) (zip hs row) = Inr ms" "m = Message 0 (V_Object (concat ms))"
    using m by (auto simp: row_message_def bindR_eq_Inr_iff)
  let ?kids = "concat ms"
  have "distinct (map field_id hs)" using hs(1,2) names(2) by (auto simp: distinct_map intro: inj_on_subset)
  note cells = row_kids(1) [OF this hs(3) ms(1)] and others = row_kids(2) [OF this hs(3) ms(1)] and kid = row_kids(3) [OF this hs(3) ms(1)]
  let ?us = "map (\<lambda>f. (field_name f, field_update lib ?kids f)) ?fs"
  have us: "update_all cols ?us = Inr cols'"
    using added ms(2) flat kid by (intro flat_record) (auto simp: flat_schema_def)
  then show "columns_fit ?fs cols'" using columns_fit_updated names(3) fit by blast
  let ?vs = "map (\<lambda>(f, s). (field_name f, import_cell lib clock (field_type f) s)) (zip hs row) @
    map (\<lambda>h. (h, \<lambda>w. Inr (addNull lib 0 0 w))) missing"
  have fst_vs: "map fst ?vs = map field_name hs @ missing"
    using hs(3) by (simp add: comp_def case_prod_beta map_zip_map [symmetric]) (simp add: map_fst_zip flip: map_map [unfolded comp_def])
  have import: "import_row lib clock (map (\<lambda>f. (field_name f, field_type f)) hs) missing row cols = update_all cols ?vs"
    by (simp add: import_row_def foldR_append foldR_map zip_map1 case_prod_beta)
  have "update_all cols ?vs = Inr cols'"
  proof (rule update_all_permuted [OF us])
    show "distinct (map fst ?us)" using names(3) by (simp add: comp_def)
    show "distinct (map fst ?vs)"
    proof -
      have "field_name ` set hs \<inter> set missing = {}"
        unfolding missing(2) using names(1) hs(1) by (auto dest: inj_onD)
      then show ?thesis unfolding fst_vs using inj_on_subset [OF names(1) hs(1)] hs(2) missing(1) by (simp add: distinct_map)
    qed
    show "fst ` set ?vs = fst ` set ?us"
    proof -
      have "fst ` set ?vs = set (map field_name hs @ missing)" unfolding fst_vs [symmetric] by (rule set_map [symmetric])
      moreover have "fst ` set ?us = field_name ` set ?fs" by (simp add: image_image)
      ultimately show ?thesis using missing(2) hs(1) by auto
    qed
    fix n f g w w' assume f: "(n, f) \<in> set ?us" and g: "(n, g) \<in> set ?vs" and w: "cols n = Some w" "f w = Inr w'"
    then obtain fd where fd: "fd \<in> set ?fs" "n = field_name fd" "f = field_update lib ?kids fd" by auto
    from g consider (cell) h c where "(h, c) \<in> set (zip hs row)" "n = field_name h" "g = import_cell lib clock (field_type h) c"
      | (gap) "n \<in> set missing" "g = (\<lambda>w. Inr (addNull lib 0 0 w))" by auto
    then show "g w = Inr w'"
    proof cases
      case cell
      then have "h = fd" using fd(1,2) hs(1) names(1) by (auto dest: set_zip_leftD inj_onD)
      then show ?thesis using cell cells fd w fit import_cell_update [of clock fd c ?kids w lib w'] by (auto simp: columns_fit_def)
    next
      case gap
      then have "fd \<notin> set hs" using missing(2) fd(1,2) names(1) hs(1) by (auto dest: inj_onD)
      then have "field_id fd \<notin> field_id ` set hs" using names(2) fd(1) hs(1) by (auto dest: inj_onD)
      then show ?thesis using others gap w(2) fd(3) by (auto simp: field_update_def split: if_splits)
    qed
  qed
  then show "import_row lib clock (map (\<lambda>f. (field_name f, field_type f)) hs) missing row cols = Inr cols'" using import by simp
qed

section \<open>The builder of a flat schema\<close>

lemma column_for_flat: "flat_field f \<Longrightarrow> \<exists>c. column_for (field_type f) ts enc = Some c"
  by (auto simp: flat_field_def column_for_def)

lemma createColumns_flat:
  "\<forall>f\<in>set fs. flat_field f \<Longrightarrow> distinct (map field_name fs) \<Longrightarrow> \<forall>f\<in>set fs. cols (field_name f) = None \<Longrightarrow>
    \<exists>cols'. foldR (createColumns [] 0 0) cols fs = Inr cols' \<and>
      (\<forall>n. n \<notin> field_name ` set fs \<longrightarrow> cols' n = cols n) \<and>
      (\<forall>f\<in>set fs. \<exists>w. cols' (field_name f) = Some w \<and> w_d_max w = of_nat (deeper (optional f) 0))"
proof (induction fs arbitrary: cols)
  case (Cons f fs)
  obtain c where c: "column_for (field_type f) (Message.type_size f) (encoding f) = Some c" 
    using Cons.prems(1) column_for_flat [of f "Message.type_size f" "encoding f"] by auto
  let ?cols = "cols(field_name f \<mapsto> new_writer c 0 (of_nat (deeper (optional f) 0)))"
  have step: "createColumns [] 0 0 cols f = Inr ?cols"
    using Cons.prems(1,3) c by (cases f) (auto simp: flat_field_def emplace_def deeper_def)
  have free: "\<forall>g\<in>set fs. ?cols (field_name g) = None"
  proof
    fix g assume g: "g \<in> set fs"
    then have "field_name g \<noteq> field_name f" using Cons.prems(2) by (metis distinct.simps(2) image_eqI list.set_map list.simps(9))
    then show "?cols (field_name g) = None" using Cons.prems(3) g by simp
  qed
  have "\<forall>f\<in>set fs. flat_field f" "distinct (map field_name fs)" using Cons.prems(1,2) by simp_all
  from Cons.IH [OF this free] obtain cols' where cols': "foldR (createColumns [] 0 0) ?cols fs = Inr cols'"
    "\<forall>n. n \<notin> field_name ` set fs \<longrightarrow> cols' n = ?cols n"
    "\<forall>f\<in>set fs. \<exists>w. cols' (field_name f) = Some w \<and> w_d_max w = of_nat (deeper (optional f) 0)" by blast
  have "field_name f \<notin> field_name ` set fs" using Cons.prems(2) by simp
  then have "cols' (field_name f) = Some (new_writer c 0 (of_nat (deeper (optional f) 0)))" using cols'(2) by simp
  then show ?case using step cols' by (auto simp: new_writer_def)
qed simp

lemma new_builder_flat:
  assumes "flat_schema s"
  shows "\<exists>b. new_builder s = Inr b \<and> builder_schema b = s \<and> columns_fit (schema_fields s) (builder_columns b) \<and>
    dom (builder_columns b) = field_name ` set (schema_fields s)"
proof -
  obtain cols where cols: "foldR (createColumns [] 0 0) Map.empty (schema_fields s) = Inr cols"
    "\<forall>n. n \<notin> field_name ` set (schema_fields s) \<longrightarrow> cols n = None"
    "\<forall>f\<in>set (schema_fields s). \<exists>w. cols (field_name f) = Some w \<and> w_d_max w = of_nat (deeper (optional f) 0)"
    using createColumns_flat [of "schema_fields s" Map.empty] assms by (auto simp: flat_schema_def)
  have "columns_fit (schema_fields s) cols" using cols(3) by (fastforce simp: columns_fit_def)
  moreover have "dom cols = field_name ` set (schema_fields s)" using cols(2,3) by fastforce
  ultimately show ?thesis using cols(1) by (simp add: new_builder_def)
qed

lemma find_field_unique: "f \<in> set fs \<Longrightarrow> inj_on k (set fs) \<Longrightarrow> find_field (\<lambda>g. k g = k f) fs = Some f"
  by (induction fs) (auto dest: inj_onD)

lemma header_type_flat:
  assumes "flat_schema (builder_schema b)" and "f \<in> set (schema_fields (builder_schema b))"
    and "builder_columns b (field_name f) \<noteq> None"
  shows "header_type b (field_name f) = Inr (field_name f, field_type f)"
  using assms find_field_unique [OF assms(2), of field_name] find_field_unique [OF assms(2), of field_id]
  by (auto simp: header_type_def fieldId_def fieldType_def field_named_def field_numbered_def flat_schema_def flat_field_def distinct_map)

lemma mapR_map: "\<forall>x\<in>set xs. f (h x) = Inr (g x) \<Longrightarrow> mapR f (map h xs) = Inr (map g xs)"
  by (induction xs) simp_all

section \<open>The import of a text\<close>

lemma import_rows_records:
  assumes "separate col row q" and "flat_schema s" and "set hs \<subseteq> set (schema_fields s)" "distinct hs" "hs \<noteq> []"
    and "distinct missing" "set missing = field_name ` (set (schema_fields s) - set hs)"
  shows "\<forall>r\<in>set rows. length r = length hs \<and> (\<forall>c\<in>set r. good_cell col row q c) \<Longrightarrow>
    column_separator st = col \<and> row_separator st = row \<and> quote_char st = q \<and> csv_rest st = rows_text col row q rows \<Longrightarrow>
    builder_schema b = s \<Longrightarrow> columns_fit (schema_fields s) (builder_columns b) \<Longrightarrow>
    mapR (\<lambda>r. row_message clock hs (map snd r)) rows = Inr ms \<Longrightarrow> foldR (\<lambda>b m. addRecord lib m b) b ms = Inr b' \<Longrightarrow>
    import_rows lib clock (map (\<lambda>f. (field_name f, field_type f)) hs) missing st b = Inr b'"
proof (induction rows arbitrary: st b ms)
  case Nil
  then show ?case by (subst import_rows.simps) (simp add: readNextRow_def rows_text_def read_end)
next
  case (Cons r rows)
  have r: "r \<noteq> []" "\<forall>c\<in>set r. good_cell col row q c" "length (map snd r) = length hs" using Cons.prems(1) assms(5) by auto
  obtain m ms' where m: "row_message clock hs (map snd r) = Inr m" "mapR (\<lambda>r. row_message clock hs (map snd r)) rows = Inr ms'" "ms = m # ms'"
    using Cons.prems(5) by (auto simp: bindR_eq_Inr_iff)
  then obtain b1 where b1: "addRecord lib m b = Inr b1" "foldR (\<lambda>b m. addRecord lib m b) b1 ms' = Inr b'"
    using Cons.prems(6) by (auto simp: bindR_eq_Inr_iff)
  then obtain cols where cols: "foldR (addRecordField lib 0 0 0 m []) (builder_columns b) (schema_fields s) = Inr cols"
    "b1 = b\<lparr>builder_columns := cols, builder_records := builder_records b + 1\<rparr>"
    using Cons.prems(3) by (auto simp: addRecord_def bindR_eq_Inr_iff)
  note row = import_row_record [OF assms(2,3,4) r(3) m(1) Cons.prems(4) assms(6,7) cols(1)]
  let ?st = "st\<lparr>csv_rest := rows_text col row q rows\<rparr>"
  have "readNextRow st = (True, map snd r, ?st)"
    using Cons.prems(2) read_cells [OF r(1,2) assms(1)] by (simp add: readNextRow_def rows_text_def)
  moreover have "import_rows lib clock (map (\<lambda>f. (field_name f, field_type f)) hs) missing ?st b1 = Inr b'"
    using Cons.IH [OF _ _ _ _ m(2) b1(2), of ?st] Cons.prems(1,2,3) row(2) cols(2) by simp
  ultimately show ?case using row(1) cols(2) by (subst import_rows.simps) simp
qed

text \<open>
  C11. Importing a text is adding its rows as records. For a schema whose fields are neither objects nor
  repeated, a text whose header names some of the fields, among them all that are not optional, and whose rows
  have as many cells, quoted where they hold a separator: if every cell that is not null is a value of the
  type of its column, and the records with these values, nulls left out, can be added to a new builder, then
  the import ends with the same builder, whatever the order of the columns in the text.
\<close>

theorem csv_import_records:
  assumes "separate col row q" and "flat_schema s" and "set fs \<subseteq> set (schema_fields s)" and "distinct fs" and "fs \<noteq> []"
    and "\<forall>f\<in>set (schema_fields s) - set fs. optional f"
    and "distinct names" and "set names = field_name ` set (schema_fields s)"
    and "map snd hs = map field_name fs" and "\<forall>c\<in>set hs. good_cell col row q c"
    and "\<forall>r\<in>set rows. length r = length fs \<and> (\<forall>c\<in>set r. good_cell col row q c)"
    and "mapR (\<lambda>r. row_message clock fs (map snd r)) rows = Inr ms"
    and "bindR (new_builder s) (\<lambda>b. foldR (\<lambda>b m. addRecord lib m b) b ms) = Inr b'"
  shows "bindR (new_builder s) (addRecordsFromCSV lib clock names (open_csv (rows_text col row q (hs # rows)) col row q)) = Inr b'"
proof -
  obtain b where b: "new_builder s = Inr b" "builder_schema b = s" "columns_fit (schema_fields s) (builder_columns b)"
    "dom (builder_columns b) = field_name ` set (schema_fields s)" using new_builder_flat [OF assms(2)] by blast
  let ?missing = "filter (\<lambda>n. n \<notin> field_name ` set fs) names" and ?fs = "schema_fields s"
  have inj: "inj_on field_name (set ?fs)" using assms(2) by (simp add: flat_schema_def distinct_map)
  have there: "builder_columns b (field_name f) \<noteq> None" if "f \<in> set ?fs" for f using b(4) that by blast
  have missing: "set ?missing = field_name ` (set ?fs - set fs)"
    using assms(3,8) inj by (auto dest: inj_onD)
  have header: "mapR (header_type b) (map field_name fs) = Inr (map (\<lambda>f. (field_name f, field_type f)) fs)"
  proof (rule mapR_map, rule ballI)
    fix f assume "f \<in> set fs"
    then have "f \<in> set ?fs" using assms(3) by blast
    then show "header_type b (field_name f) = Inr (field_name f, field_type f)"
      using header_type_flat [of b f] there [of f] assms(2) by (simp add: b(2))
  qed
  have "missing_column b n = Inr n" if "n \<in> set ?missing" for n
  proof -
    have "n \<in> field_name ` (set ?fs - set fs)" using that unfolding missing .
    then obtain f where f: "f \<in> set ?fs - set fs" "n = field_name f" by (elim imageE)
    then obtain w where w: "builder_columns b n = Some w" using there [of f] by auto
    moreover have "optional f" "w_d_max w = of_nat (deeper (optional f) 0)" using b(3) f assms(6) w by (auto simp: columns_fit_def)
    then have "w_d_max w = 1" by (simp add: deeper_def)
    ultimately show ?thesis by (simp add: missing_column_def column_named_def deref_def)
  qed
  then have gaps: "mapR (missing_column b) ?missing = Inr ?missing" using mapR_Inr [of ?missing "missing_column b" "\<lambda>n. n"] by simp
  let ?st = "(open_csv (rows_text col row q (hs # rows)) col row q)\<lparr>csv_rest := rows_text col row q rows\<rparr>"
  have "hs \<noteq> []" using assms(5,9) by auto
  then have "readNextRow (open_csv (rows_text col row q (hs # rows)) col row q) = (True, map field_name fs, ?st)"
    using read_cells [OF _ assms(10,1)] assms(9) by (simp add: readNextRow_def open_csv_def rows_text_def)
  moreover have "import_rows lib clock (map (\<lambda>f. (field_name f, field_type f)) fs) ?missing ?st b = Inr b'"
    using assms(7,11,12,13) b missing by (intro import_rows_records [OF assms(1,2,3,4,5)]) (simp_all add: open_csv_def)
  ultimately show ?thesis using b(1) header gaps by (simp add: addRecordsFromCSV_def)
qed

text \<open>A text with the columns in another order than the schema, and a null.\<close>

definition item_schema :: schema where
  "item_schema = Schema ''item'' [Field 1 ''id'' F_UINT32 0 False False H_NONE None, Field 2 ''tag'' F_STRING 0 False True H_NONE None]"

definition item_records :: "message list" where
  "item_records = [Message 0 (V_Object [Message 2 (V_String ''x''), Message 1 (V_UInt32 7)]), Message 0 (V_Object [Message 1 (V_UInt32 8)])]"

lemma item_numbers: "cell_number ''7'' = Inr 7" "cell_number ''8'' = Inr 8"
  by (simp_all add: cell_number_def stoull_def is_digit_in_def digits_value_def digit_value_def is_space_def less_eq_char_def Let_def lower_def)

theorem csv_import_records_witness:
  "\<exists>b. bindR (new_builder item_schema) (addRecordsFromCSV \<lparr>simdpack = \<lambda>n xs. [], simdunpack = \<lambda>n bs. []\<rparr> 0 [''id'', ''tag'']
     (open_csv (''tag;id'' @ [CHR 0x0A] @ ''x;7'' @ [CHR 0x0A] @ '';8'' @ [CHR 0x0A]) CHR '';'' CHR 0x0A CHR 0x22)) = Inr b \<and> builder_records b = 2"
proof -
  obtain lib where lib: "lib = \<lparr>simdpack = \<lambda>n xs. [], simdunpack = \<lambda>n bs. []\<rparr>" by blast
  obtain b where b: "bindR (new_builder item_schema) (\<lambda>b. foldR (\<lambda>b m. addRecord lib m b) b item_records) = Inr b" "builder_records b = 2"
    by (simp add: item_schema_def item_records_def new_builder_def column_for_def emplace_def addRecord_def writeField_def field_bytes_def
        column_named_def deeper_def addDatum_defs addNull_def new_writer_def new_encoder_def encode_level_def Let_def bytes_of_string_def
        bits_def bit_len.simps)
  have "bindR (new_builder item_schema) (addRecordsFromCSV lib 0 [''id'', ''tag''] (open_csv (rows_text CHR '';'' CHR 0x0A CHR 0x22
      ([(False, ''tag''), (False, ''id'')] # [[(False, ''x''), (False, ''7'')], [(False, []), (False, ''8'')]])) CHR '';'' CHR 0x0A CHR 0x22)) = Inr b"
  proof (rule csv_import_records [where s = item_schema and fs = "rev (schema_fields item_schema)" and ms = item_records])
    show "mapR (\<lambda>r. row_message 0 (rev (schema_fields item_schema)) (map snd r)) [[(False, ''x''), (False, ''7'')], [(False, []), (False, ''8'')]] = Inr item_records"
      by (simp add: item_schema_def item_records_def row_message_def cell_messages_def cell_value_def isNullOrEmpty_def item_numbers)
  qed (use b in \<open>simp_all add: item_schema_def flat_schema_def flat_field_def separate_def good_cell_def\<close>)
  then show ?thesis using b(2) unfolding lib by (simp add: rows_text_def cell_text_def)
qed

text \<open>A row with too few cells leaves its last columns without a value, and counts all the same.\<close>

lemma short_row_misaligns:
  "import_row lib clock [(''id'', F_UINT32), (''tag'', F_STRING)] [] [''7''] cols = update_column (import_cell lib clock F_UINT32 ''7'') ''id'' cols"
  by (cases "update_column (import_cell lib clock F_UINT32 ''7'') ''id'' cols") (simp_all add: import_row_def)

end
