(* ===== verification/Json.thy ===== *)
theory Json
  imports Http_Parser Query_Plan Strings
begin

text \<open>
  JSON: the token reader and \<open>parseJSON\<close>, the writer, and the navigation in a list of tokens, of src/stx/json.
  A parsed document is its tokens, each with the number of tokens it spans.
\<close>

section \<open>Tokens\<close>

datatype json_type =
    JSON_OBJECT_BEGIN
  | JSON_OBJECT_END
  | JSON_ARRAY_BEGIN
  | JSON_ARRAY_END
  | JSON_STRING
  | JSON_NUMBER
  | JSON_TRUE
  | JSON_FALSE
  | JSON_NULL

record json_token =
  json_type :: json_type
  json_data :: string
  json_size :: "32 word"

definition json_token :: "json_type \<Rightarrow> string \<Rightarrow> json_token" where
  "json_token ty data = \<lparr>json_type = ty, json_data = data, json_size = 1\<rparr>"

type_synonym json_object = "json_token list"

section \<open>Reading\<close>

text \<open>
  The stream is the text from the current character on; at its end the current character is NUL, which
  the code does not tell from a NUL in the text.
\<close>

abbreviation nul :: char where
  "nul \<equiv> CHR 0x00"

definition json_separator :: "char \<Rightarrow> bool" where
  "json_separator c \<longleftrightarrow> c = CHR '':'' \<or> c = CHR '','' \<or> c = CHR '' '' \<or> c = CHR 0x0A \<or> c = CHR 0x0D"

definition number_char :: "char \<Rightarrow> bool" where
  "number_char c \<longleftrightarrow> is_decimal c \<or> c = CHR ''-'' \<or> c = CHR ''+'' \<or> c = CHR ''.'' \<or> c = CHR ''e'' \<or> c = CHR ''E''"

text \<open>A space does not end a number.\<close>

fun readNumber :: "string \<Rightarrow> string \<times> string" where
  "readNumber [] = ([], [])"
| "readNumber (c # cs) =
     (if number_char c then (let (n, r) = readNumber cs in (c # n, r))
      else if c = CHR '' '' then readNumber cs
      else ([], c # cs))"

text \<open>A backslash only takes the next character as it is, so \<open>\n\<close> is read as the letter.\<close>

fun readJSONString :: "bool \<Rightarrow> string \<Rightarrow> (string \<times> string) result" where
  "readJSONString escaped [] = Inl (Raise RuntimeError)"
| "readJSONString escaped (c # cs) =
     (if c = nul then Inl (Raise RuntimeError)
      else if c = CHR 0x5C \<and> \<not> escaped then readJSONString True cs
      else if c = CHR 0x22 \<and> \<not> escaped then Inr ([], cs)
      else bindR (readJSONString False cs) (\<lambda>(s, r). Inr (c # s, r)))"

definition expectString :: "string \<Rightarrow> string \<Rightarrow> string result" where
  "expectString w s = (if take (length w) s = w then Inr (drop (length w) s) else Inl (Raise RuntimeError))"

definition readNextToken :: "string \<Rightarrow> ((json_type \<times> string) option \<times> string) result" where
  "readNextToken s = (case dropWhile json_separator s of
      [] \<Rightarrow> Inr (None, [])
    | c # cs \<Rightarrow>
        if c = CHR ''{'' then Inr (Some (JSON_OBJECT_BEGIN, []), cs)
        else if c = CHR ''}'' then Inr (Some (JSON_OBJECT_END, []), cs)
        else if c = CHR ''['' then Inr (Some (JSON_ARRAY_BEGIN, []), cs)
        else if c = CHR '']'' then Inr (Some (JSON_ARRAY_END, []), cs)
        else if c = CHR ''-'' \<or> is_decimal c then (let (n, r) = readNumber (c # cs) in Inr (Some (JSON_NUMBER, n), r))
        else if c = CHR 0x22 then bindR (readJSONString False cs) (\<lambda>(str, r). Inr (Some (JSON_STRING, str), r))
        else if c = CHR ''t'' then bindR (expectString ''true'' (c # cs)) (\<lambda>r. Inr (Some (JSON_TRUE, []), r))
        else if c = CHR ''f'' then bindR (expectString ''false'' (c # cs)) (\<lambda>r. Inr (Some (JSON_FALSE, []), r))
        else if c = CHR ''n'' then bindR (expectString ''null'' (c # cs)) (\<lambda>r. Inr (Some (JSON_NULL, []), r))
        else if c = nul then Inr (None, c # cs)
        else Inl (Raise RuntimeError))"

lemma readNumber_length: "length (snd (readNumber s)) \<le> length s"
  by (induction s) (auto split: prod.splits)

lemma readJSONString_length: "readJSONString e s = Inr (str, r) \<Longrightarrow> length r < length s"
  by (induction e s arbitrary: str r rule: readJSONString.induct) (fastforce split: if_splits simp: bindR_eq_Inr_iff)+

lemma readNextToken_shorter: "readNextToken s = Inr (Some t, r) \<Longrightarrow> length r < length s"
proof -
  assume read: "readNextToken s = Inr (Some t, r)"
  have le: "length (dropWhile json_separator s) \<le> length s" by (rule length_dropWhile_le)
  obtain c cs where c: "dropWhile json_separator s = c # cs"
    using read by (cases "dropWhile json_separator s") (auto simp: readNextToken_def)
  have "length r < length (c # cs)"
    using read readNumber_length [of cs] unfolding readNextToken_def c
    by (auto simp: expectString_def number_char_def bindR_eq_Inr_iff Let_def split: if_splits prod.splits dest!: readJSONString_length)
  then show ?thesis using le c by simp
qed

text \<open>The document with the positions of the objects and arrays that are open.\<close>

function parse_tokens :: "json_object \<Rightarrow> nat list \<Rightarrow> string \<Rightarrow> json_object result" where
  "parse_tokens obj stack s =
     bindR (readNextToken s) (\<lambda>(t, r). case t of
        None \<Rightarrow> if stack = [] then Inr obj else Inl (Raise RuntimeError)
      | Some (ty, data) \<Rightarrow>
          if ty = JSON_ARRAY_BEGIN \<or> ty = JSON_OBJECT_BEGIN then parse_tokens (obj @ [json_token ty []]) (length obj # stack) r
          else if ty = JSON_ARRAY_END \<or> ty = JSON_OBJECT_END then
            (case stack of
               [] \<Rightarrow> Inl (Raise ParseError)
             | p # stack' \<Rightarrow>
                 (let obj' = obj @ [json_token ty []] in
                  parse_tokens (obj'[p := (obj' ! p)\<lparr>json_size := of_nat (length obj' - p)\<rparr>]) stack' r))
          else if ty = JSON_STRING \<or> ty = JSON_NUMBER then parse_tokens (obj @ [json_token ty data]) stack r
          else parse_tokens (obj @ [json_token ty []]) stack r)"
  by pat_completeness auto
termination by (relation "measure (\<lambda>(obj, stack, s). length s)") (auto dest: readNextToken_shorter)

declare parse_tokens.simps [simp del]

text \<open>The current character of a new stream is a space.\<close>

definition parseJSON :: "string \<Rightarrow> json_object result" where
  "parseJSON s = parse_tokens [] [] (CHR '' '' # s)"

section \<open>Writing\<close>

text \<open>The text so far and, for each object or array that is open, how many values it has.\<close>

record json_output =
  json_text :: string
  json_stack :: "(json_type \<times> nat) list"

definition new_output :: json_output where
  "new_output = \<lparr>json_text = [], json_stack = []\<rparr>"

fun escape_char :: "char \<Rightarrow> string" where
  "escape_char c =
     (if c = CHR 0x22 then [CHR 0x5C, CHR 0x22]
      else if c = CHR 0x5C then [CHR 0x5C, CHR 0x5C]
      else if c = CHR 0x0A then [CHR 0x5C, CHR ''n'']
      else if c = CHR 0x09 then [CHR 0x5C, CHR ''t'']
      else [c])"

definition escapeString :: "string \<Rightarrow> string" where
  "escapeString s = concat (map escape_char s)"

definition json_write :: "string \<Rightarrow> json_output \<Rightarrow> json_output" where
  "json_write s st = st\<lparr>json_text := json_text st @ s\<rparr>"

text \<open>\<open>printf\<close> of the base class ends the argument at its first NUL and has room for 8191 characters.\<close>

definition json_printf :: "string \<Rightarrow> json_output \<Rightarrow> json_output result" where
  "json_printf s st = (if length s < 8192 then Inr (json_write s st) else Inl (Raise BufferOverflowError))"

definition addString :: "string \<Rightarrow> json_output \<Rightarrow> json_output" where
  "addString s = json_write ([CHR 0x22] @ escapeString s @ [CHR 0x22])"

definition addObjectEntry :: "string \<Rightarrow> json_output \<Rightarrow> json_output result" where
  "addObjectEntry key = json_printf ([CHR 0x22] @ takeWhile (\<lambda>c. c \<noteq> nul) (escapeString key) @ [CHR 0x22] @ '': '')"

definition addInteger :: "64 word \<Rightarrow> json_output \<Rightarrow> json_output" where
  "addInteger n = json_write (int_to_string (sint n))"

text \<open>Only normal numbers are written: zero, which is none, is null, as are infinities and NaN.\<close>

definition isnormal :: "dbl \<Rightarrow> bool" where
  "isnormal x \<longleftrightarrow> 2 ^ 52 \<le> mag_of x \<and> mag_of x < mag_inf"

definition addFloat :: "dbl \<Rightarrow> json_output \<Rightarrow> json_output result" where
  "addFloat x st =
     (if isnormal x then bindR (double_to_string x) (\<lambda>s. Inr (json_write s st)) else Inr (json_write ''null'' st))"

definition count_value :: "json_output \<Rightarrow> json_output" where
  "count_value st = (case json_stack st of [] \<Rightarrow> st | (ty, n) # r \<Rightarrow> st\<lparr>json_stack := (ty, Suc n) # r\<rparr>)"

definition close_value :: "string \<Rightarrow> json_output \<Rightarrow> json_output" where
  "close_value s st = count_value ((json_write s st)\<lparr>json_stack := tl (json_stack st)\<rparr>)"

definition separate_value :: "json_output \<Rightarrow> json_output" where
  "separate_value st = (case json_stack st of
      (JSON_ARRAY_BEGIN, Suc n) # r \<Rightarrow> json_write '','' st
    | (JSON_OBJECT_BEGIN, Suc n) # r \<Rightarrow> json_write (if even (Suc n) then '','' else '':'') st
    | _ \<Rightarrow> st)"

definition open_value :: "json_type \<Rightarrow> string \<Rightarrow> json_output \<Rightarrow> json_output" where
  "open_value ty s st = (json_write s st)\<lparr>json_stack := (ty, 0) # json_stack st\<rparr>"

text \<open>A number is written as a string.\<close>

fun emplace_back :: "json_type \<Rightarrow> string \<Rightarrow> json_output \<Rightarrow> json_output" where
  "emplace_back JSON_ARRAY_END data st = close_value '']'' st"
| "emplace_back JSON_OBJECT_END data st = close_value ''}'' st"
| "emplace_back JSON_ARRAY_BEGIN data st = open_value JSON_ARRAY_BEGIN ''['' (separate_value st)"
| "emplace_back JSON_OBJECT_BEGIN data st = open_value JSON_OBJECT_BEGIN ''{'' (separate_value st)"
| "emplace_back JSON_STRING data st = count_value (addString data (separate_value st))"
| "emplace_back JSON_NUMBER data st = count_value (addString data (separate_value st))"
| "emplace_back JSON_TRUE data st = count_value (json_write ''true'' (separate_value st))"
| "emplace_back JSON_FALSE data st = count_value (json_write ''false'' (separate_value st))"
| "emplace_back JSON_NULL data st = count_value (json_write ''null'' (separate_value st))"

definition write_object :: "json_object \<Rightarrow> json_output \<Rightarrow> json_output" where
  "write_object obj st = foldl (\<lambda>st t. emplace_back (json_type t) (json_data t) st) st obj"

section \<open>Navigation\<close>

text \<open>An iterator is a position in the tokens. Reading at the end of them is outside the memory.\<close>

definition token_at :: "json_object \<Rightarrow> nat \<Rightarrow> json_token result" where
  "token_at obj i = (if i < length obj then Inr (obj ! i) else Inl (Undefined ReadOutOfBounds))"

function lookup_member :: "json_object \<Rightarrow> nat \<Rightarrow> nat \<Rightarrow> string \<Rightarrow> nat \<Rightarrow> nat result" where
  "lookup_member obj fin oend key i =
     (if fin \<le> i then Inr fin
      else bindR (token_at obj i) (\<lambda>t.
        if json_type t = JSON_STRING \<and> json_data t = key then Inr (Suc i)
        else if Suc i = oend then Inr fin
        else bindR (token_at obj (Suc i)) (\<lambda>t'. lookup_member obj fin oend key (Suc i + unat (json_size t')))))"
  by pat_completeness auto
termination by (relation "measure (\<lambda>(obj, fin, oend, key, i). fin - i)") auto

declare lookup_member.simps [simp del]

definition objectLookup :: "json_object \<Rightarrow> nat \<Rightarrow> nat \<Rightarrow> string \<Rightarrow> nat result" where
  "objectLookup obj i fin key =
     (if i = fin then Inr fin
      else bindR (token_at obj i) (\<lambda>t.
        if json_type t \<noteq> JSON_OBJECT_BEGIN then Inl (Raise ParseError)
        else if fin < i + unat (json_size t) then Inr fin
        else lookup_member obj fin (i + unat (json_size t)) key (Suc i)))"

definition objectGetString :: "json_object \<Rightarrow> nat \<Rightarrow> nat \<Rightarrow> string \<Rightarrow> string option result" where
  "objectGetString obj i fin key =
     bindR (objectLookup obj i fin key) (\<lambda>k.
       if k = fin then Inr None
       else bindR (token_at obj k) (\<lambda>t. Inr (if json_type t = JSON_STRING then Some (json_data t) else None)))"

text \<open>What \<open>std::stoul\<close> throws is not caught.\<close>

definition stoul_throws :: "string \<Rightarrow> 64 word result" where
  "stoul_throws s = (case stoul s of
      Some n \<Rightarrow> Inr n
    | None \<Rightarrow> Inl (Raise (if takeWhile (is_digit_in 10) (snd (read_sign (dropWhile is_space s))) = [] then StdInvalidArgument else StdOutOfRange)))"

definition objectGetUInt64 :: "json_object \<Rightarrow> nat \<Rightarrow> nat \<Rightarrow> string \<Rightarrow> 64 word option result" where
  "objectGetUInt64 obj i fin key =
     bindR (objectLookup obj i fin key) (\<lambda>k.
       if k = fin then Inr None
       else bindR (token_at obj k) (\<lambda>t.
         if json_type t = JSON_STRING \<or> json_type t = JSON_NUMBER then bindR (stoul_throws (json_data t)) (\<lambda>n. Inr (Some n))
         else Inr None))"

definition objectGetBool :: "json_object \<Rightarrow> nat \<Rightarrow> nat \<Rightarrow> string \<Rightarrow> bool option result" where
  "objectGetBool obj i fin key =
     bindR (objectLookup obj i fin key) (\<lambda>k.
       if k = fin then Inr None
       else bindR (token_at obj k) (\<lambda>t. Inr
         (if json_type t = JSON_TRUE then Some True
          else if json_type t = JSON_FALSE then Some False
          else if json_type t = JSON_STRING \<and> json_data t \<in> {''true'', ''TRUE''} then Some True
          else if json_type t = JSON_STRING \<and> json_data t \<in> {''false'', ''FALSE''} then Some False
          else None)))"

text \<open>The elements up to \<open>aend\<close>. A token of size 0, which \<open>parseJSON\<close> makes of 2^32 tokens, would never be left.\<close>

function elements :: "json_object \<Rightarrow> nat \<Rightarrow> nat \<Rightarrow> nat list result" where
  "elements obj aend i =
     (if aend \<le> i then Inr []
      else bindR (token_at obj i) (\<lambda>t.
        if json_size t = 0 then Inl OutOfFuel
        else bindR (elements obj aend (i + unat (json_size t))) (\<lambda>ps. Inr (i # ps))))"
  by pat_completeness auto
termination
proof (relation "measure (\<lambda>(obj, aend, i). aend - i)")
  fix obj aend i t assume "\<not> aend \<le> i" "token_at obj i = Inr t" "json_size t \<noteq> 0"
  moreover have "0 < unat (json_size t)" using \<open>json_size t \<noteq> 0\<close> by (simp add: unat_gt_0)
  ultimately show "((obj, aend, i + unat (json_size t)), obj, aend, i) \<in> measure (\<lambda>(obj, aend, i). aend - i)" by simp
qed simp

declare elements.simps [simp del]

definition arrayLength :: "json_object \<Rightarrow> nat \<Rightarrow> nat \<Rightarrow> nat result" where
  "arrayLength obj i fin =
     (if i = fin then Inr 0
      else bindR (token_at obj i) (\<lambda>t.
        if json_type t \<noteq> JSON_ARRAY_BEGIN then Inl (Raise ParseError)
        else if fin < i + unat (json_size t) - 1 then Inl (Raise IndexError)
        else bindR (elements obj (i + unat (json_size t) - 1) (Suc i)) (\<lambda>ps. Inr (length ps))))"

function nth_element :: "json_object \<Rightarrow> nat \<Rightarrow> nat \<Rightarrow> nat \<Rightarrow> nat result" where
  "nth_element obj aend k i =
     (if aend \<le> i then Inl (Raise IndexError)
      else if k = 0 then Inr i
      else bindR (token_at obj i) (\<lambda>t. nth_element obj aend (k - 1) (i + unat (json_size t))))"
  by pat_completeness auto
termination by (relation "measure (\<lambda>(obj, aend, k, i). k)") auto

declare nth_element.simps [simp del]

definition arrayLookup :: "json_object \<Rightarrow> nat \<Rightarrow> nat \<Rightarrow> nat \<Rightarrow> nat result" where
  "arrayLookup obj i fin k =
     (if i = fin then Inr fin
      else bindR (token_at obj i) (\<lambda>t.
        if json_type t \<noteq> JSON_ARRAY_BEGIN then Inl (Raise ParseError)
        else if fin < i + unat (json_size t) - 1 \<or> json_size t = 1 then Inl (Raise IndexError)
        else nth_element obj (i + unat (json_size t) - 1) k (Suc i)))"

definition arrayGetString :: "json_object \<Rightarrow> nat \<Rightarrow> nat \<Rightarrow> nat \<Rightarrow> string option result" where
  "arrayGetString obj i fin k =
     bindR (arrayLookup obj i fin k) (\<lambda>p.
       if p = fin then Inr None
       else bindR (token_at obj p) (\<lambda>t. Inr (if json_type t = JSON_STRING then Some (json_data t) else None)))"

section \<open>Values of types\<close>

text \<open>The conversions of the token at \<open>i\<close>.\<close>

definition from_json :: "(json_token \<Rightarrow> 'a result) \<Rightarrow> json_object \<Rightarrow> nat \<Rightarrow> nat \<Rightarrow> 'a result" where
  "from_json f obj i fin = (if i = fin then Inl (Raise IndexError) else bindR (token_at obj i) f)"

fun json_string :: "json_token \<Rightarrow> string result" where
  "json_string t = (case json_type t of
      JSON_STRING \<Rightarrow> Inr (json_data t)
    | JSON_NUMBER \<Rightarrow> Inr (json_data t)
    | JSON_TRUE \<Rightarrow> Inr ''true''
    | JSON_FALSE \<Rightarrow> Inr ''false''
    | JSON_NULL \<Rightarrow> Inr ''null''
    | _ \<Rightarrow> Inl (Raise ParseError))"

definition json_number :: "(string \<Rightarrow> 'a option) \<Rightarrow> json_token \<Rightarrow> 'a result" where
  "json_number f t =
     (if json_type t = JSON_STRING \<or> json_type t = JSON_NUMBER then
        (case f (json_data t) of Some n \<Rightarrow> Inr n | None \<Rightarrow> Inl (Raise ParseError))
      else Inl (Raise ParseError))"

definition json_int :: "json_token \<Rightarrow> int result" where
  "json_int = json_number stoi_int"

definition json_uint :: "json_token \<Rightarrow> 32 word result" where
  "json_uint t = bindR (json_number stoul t) (\<lambda>n. Inr (ucast n))"

definition json_ulong :: "json_token \<Rightarrow> 64 word result" where
  "json_ulong = json_number stoul"

definition json_bool :: "json_token \<Rightarrow> bool result" where
  "json_bool t =
     (if json_type t = JSON_TRUE then Inr True
      else if json_type t = JSON_FALSE then Inr False
      else Inl (Raise ParseError))"

definition json_subobject :: "json_object \<Rightarrow> nat \<Rightarrow> nat \<Rightarrow> json_object result" where
  "json_subobject obj i fin =
     bindR (token_at obj i) (\<lambda>t.
       if fin < i + unat (json_size t) then Inl (Raise IndexError) else Inr (take (unat (json_size t)) (drop i obj)))"

text \<open>Members that are strings or null; the map keeps the last of a key.\<close>

function read_members :: "json_object \<Rightarrow> nat \<Rightarrow> nat \<Rightarrow> (string \<rightharpoonup> string) \<Rightarrow> (string \<rightharpoonup> string) result" where
  "read_members obj fin i m =
     (if i = fin then Inr m
      else bindR (token_at obj i) (\<lambda>t.
        if json_type t = JSON_OBJECT_END then Inr m
        else if json_type t = JSON_STRING then
          bindR (token_at obj (Suc i)) (\<lambda>v.
            if json_type v = JSON_STRING then read_members obj fin (i + 2) (m(json_data t \<mapsto> json_data v))
            else if json_type v = JSON_NULL then read_members obj fin (i + 2) (m(json_data t \<mapsto> []))
            else Inl (Raise ParseError))
        else Inl (Raise ParseError)))"
  by pat_completeness auto
termination by (relation "measure (\<lambda>(obj, fin, i, m). length obj - i)") (auto simp: token_at_def split: if_splits)

declare read_members.simps [simp del]

definition json_map :: "json_object \<Rightarrow> nat \<Rightarrow> nat \<Rightarrow> (string \<rightharpoonup> string) result" where
  "json_map obj i fin =
     (if i = fin then Inl (Raise IndexError)
      else bindR (token_at obj i) (\<lambda>t.
        if fin < i + unat (json_size t) then Inl (Raise IndexError)
        else if json_type t \<noteq> JSON_OBJECT_BEGIN then Inl (Raise ParseError)
        else read_members obj fin (Suc i) Map.empty))"

end
