(* ===== verification/Json_Correct.thy ===== *)
theory Json_Correct
  imports Json
begin

text \<open>
  What is written is read, but for the escapes of line feeds and tabs, which the reader does not undo, and
  for numbers, which the writer makes strings.
\<close>

section \<open>Documents\<close>

datatype json =
    J_String string
  | J_Number string
  | J_True
  | J_False
  | J_Null
  | J_Array "json list"
  | J_Object "(string \<times> json) list"

definition spanning :: "json_type \<Rightarrow> json_type \<Rightarrow> json_object \<Rightarrow> json_object" where
  "spanning a b ts = (json_token a [])\<lparr>json_size := of_nat (length ts + 2)\<rparr> # ts @ [json_token b []]"

fun json_tokens :: "json \<Rightarrow> json_object" where
  "json_tokens (J_String s) = [json_token JSON_STRING s]"
| "json_tokens (J_Number s) = [json_token JSON_NUMBER s]"
| "json_tokens J_True = [json_token JSON_TRUE []]"
| "json_tokens J_False = [json_token JSON_FALSE []]"
| "json_tokens J_Null = [json_token JSON_NULL []]"
| "json_tokens (J_Array vs) = spanning JSON_ARRAY_BEGIN JSON_ARRAY_END (concat (map json_tokens vs))"
| "json_tokens (J_Object ms) = spanning JSON_OBJECT_BEGIN JSON_OBJECT_END (concat (map (\<lambda>(k, v). json_token JSON_STRING k # json_tokens v) ms))"

text \<open>What comes back of a string and of a document.\<close>

definition string_back :: "string \<Rightarrow> string" where
  "string_back s = map (\<lambda>c. if c = CHR 0x0A then CHR ''n'' else if c = CHR 0x09 then CHR ''t'' else c) s"

fun json_back :: "json \<Rightarrow> json" where
  "json_back (J_String s) = J_String (string_back s)"
| "json_back (J_Number s) = J_String (string_back s)"
| "json_back (J_Array vs) = J_Array (map json_back vs)"
| "json_back (J_Object ms) = J_Object (map (\<lambda>(k, v). (string_back k, json_back v)) ms)"
| "json_back v = v"

fun without_nul :: "json \<Rightarrow> bool" where
  "without_nul (J_String s) = (nul \<notin> set s)"
| "without_nul (J_Number s) = (nul \<notin> set s)"
| "without_nul (J_Array vs) = list_all without_nul vs"
| "without_nul (J_Object ms) = list_all (\<lambda>(k, v). nul \<notin> set k \<and> without_nul v) ms"
| "without_nul _ = True"

section \<open>The text of a document\<close>

definition quoted :: "string \<Rightarrow> string" where
  "quoted s = [CHR 0x22] @ escapeString s @ [CHR 0x22]"

text \<open>The \<open>n\<close>-th and the following values of an array or an object.\<close>

fun nth_texts :: "json_type \<Rightarrow> nat \<Rightarrow> string list \<Rightarrow> string" where
  "nth_texts ty n [] = []"
| "nth_texts ty n (s # ss) =
     (if n = 0 then [] else if ty = JSON_ARRAY_BEGIN \<or> even n then '','' else '':'') @ s @ nth_texts ty (Suc n) ss"

fun json_str :: "json \<Rightarrow> string" where
  "json_str (J_String s) = quoted s"
| "json_str (J_Number s) = quoted s"
| "json_str J_True = ''true''"
| "json_str J_False = ''false''"
| "json_str J_Null = ''null''"
| "json_str (J_Array vs) = ''['' @ nth_texts JSON_ARRAY_BEGIN 0 (map json_str vs) @ '']''"
| "json_str (J_Object ms) = ''{'' @ nth_texts JSON_OBJECT_BEGIN 0 (concat (map (\<lambda>(k, v). [quoted k, json_str v]) ms)) @ ''}''"

lemma write_object_append: "write_object (ts @ us) st = write_object us (write_object ts st)"
  by (simp add: write_object_def)

lemma write_object_Cons: "write_object (t # ts) st = write_object ts (emplace_back (json_type t) (json_data t) st)"
  by (simp add: write_object_def)

lemma write_object_Nil [simp]: "write_object [] st = st"
  by (simp add: write_object_def)

definition in_container :: "json_type \<Rightarrow> nat \<Rightarrow> (json_type \<times> nat) list \<Rightarrow> json_output \<Rightarrow> bool" where
  "in_container ty n r st \<longleftrightarrow> json_stack st = (ty, n) # r"

text \<open>A part of the tokens that writes one value after the other.\<close>

definition writes :: "json_object \<Rightarrow> string list \<Rightarrow> bool" where
  "writes ts ss \<longleftrightarrow> (\<forall>ty n r st. ty = JSON_ARRAY_BEGIN \<or> ty = JSON_OBJECT_BEGIN \<longrightarrow> json_stack st = (ty, n) # r \<longrightarrow>
     write_object ts st = \<lparr>json_text = json_text st @ nth_texts ty n ss, json_stack = (ty, n + length ss) # r\<rparr>)"

lemma nth_texts_append: "nth_texts ty n (ss @ us) = nth_texts ty n ss @ nth_texts ty (n + length ss) us"
  by (induction ss arbitrary: n) auto

lemma writes_append: "writes ts ss \<Longrightarrow> writes us vs \<Longrightarrow> writes (ts @ us) (ss @ vs)"
  by (simp add: writes_def write_object_append nth_texts_append add.assoc)

lemma writes_Nil: "writes [] []"
  by (simp add: writes_def)

lemma writes_concat: "(\<And>x. x \<in> set xs \<Longrightarrow> writes (f x) (g x)) \<Longrightarrow> writes (concat (map f xs)) (concat (map g xs))"
  by (induction xs) (auto simp: writes_Nil intro: writes_append)

lemma writes_one:
  assumes "\<And>st. write_object ts st = count_value (json_write s (separate_value st))"
  shows "writes ts [s]"
  unfolding writes_def assms
  by (auto simp: count_value_def json_write_def separate_value_def split: nat.splits)

lemma write_spanning:
  assumes "writes ts ss" and "a = JSON_ARRAY_BEGIN \<and> b = JSON_ARRAY_END \<and> x = ''['' \<and> y = '']'' \<or> a = JSON_OBJECT_BEGIN \<and> b = JSON_OBJECT_END \<and> x = ''{'' \<and> y = ''}''"
  shows "write_object (spanning a b ts) st = count_value (json_write (x @ nth_texts a 0 ss @ y) (separate_value st))"
proof -
  obtain t k where st: "separate_value st = \<lparr>json_text = t, json_stack = k\<rparr>" by (cases "separate_value st") auto
  have "write_object ts (open_value a x (separate_value st)) = \<lparr>json_text = t @ x @ nth_texts a 0 ss, json_stack = (a, length ss) # k\<rparr>"
    using assms unfolding writes_def st by (auto simp: open_value_def json_write_def)
  then show ?thesis using assms(2)
    by (auto simp: spanning_def json_token_def write_object_append write_object_Cons close_value_def json_write_def count_value_def st split: list.splits)
qed

lemma write_string: "write_object [json_token JSON_STRING s] st = count_value (json_write (quoted s) (separate_value st))"
  by (simp add: write_object_Cons json_token_def addString_def quoted_def)

lemma write_json: "write_object (json_tokens v) st = count_value (json_write (json_str v) (separate_value st))"
proof (induction v arbitrary: st)
  case (J_Array vs)
  have "writes (concat (map json_tokens vs)) (concat (map (\<lambda>v. [json_str v]) vs))"
    using J_Array by (intro writes_concat writes_one)
  then show ?case by (simp add: write_spanning)
next
  case (J_Object ms)
  have "writes (json_token JSON_STRING k # json_tokens v) [quoted k, json_str v]" if "(k, v) \<in> set ms" for k v
  proof -
    have "writes ([json_token JSON_STRING k] @ json_tokens v) ([quoted k] @ [json_str v])"
      using J_Object that by (intro writes_append writes_one write_string) auto
    then show ?thesis by simp
  qed
  then have "writes (concat (map (\<lambda>(k, v). json_token JSON_STRING k # json_tokens v) ms)) (concat (map (\<lambda>(k, v). [quoted k, json_str v]) ms))"
    by (intro writes_concat) auto
  then show ?case by (simp add: write_spanning)
qed (simp_all add: write_object_Cons json_token_def addString_def quoted_def)

section \<open>Reading it\<close>

lemma read_escaped: "nul \<notin> set s \<Longrightarrow> readJSONString False (escapeString s @ r) = bindR (readJSONString False r) (\<lambda>(t, r'). Inr (string_back s @ t, r'))"
proof (induction s)
  case Nil
  then show ?case by (cases "readJSONString False r") (auto simp: escapeString_def string_back_def)
next
  case (Cons c s)
  then have "readJSONString False (escapeString s @ r) = bindR (readJSONString False r) (\<lambda>(t, r'). Inr (string_back s @ t, r'))" by simp
  then show ?case using Cons.prems
    by (cases "readJSONString False r") (auto simp: escapeString_def string_back_def)
qed

lemma read_quoted: "nul \<notin> set s \<Longrightarrow> readNextToken (quoted s @ r) = Inr (Some (JSON_STRING, string_back s), r)"
  by (simp add: quoted_def readNextToken_def json_separator_def read_escaped is_decimal_def less_eq_char_def)

lemma read_separator: "json_separator c \<Longrightarrow> readNextToken (c # s) = readNextToken s"
  by (simp add: readNextToken_def)

lemma parse_separator: "json_separator c \<Longrightarrow> parse_tokens obj stack (c # s) = parse_tokens obj stack s"
  by (simp add: parse_tokens.simps [of obj stack] read_separator)

lemmas token_simps = readNextToken_def json_separator_def expectString_def is_decimal_def less_eq_char_def

definition reads_as :: "string \<Rightarrow> json_object \<Rightarrow> bool" where
  "reads_as s ts \<longleftrightarrow> (\<forall>obj stack r. parse_tokens obj stack (s @ r) = parse_tokens (obj @ ts) stack r)"

lemma reads_append: "reads_as s ts \<Longrightarrow> reads_as t us \<Longrightarrow> reads_as (s @ t) (ts @ us)"
  by (simp add: reads_as_def)

lemma reads_Nil: "reads_as [] []"
  by (simp add: reads_as_def)

lemma reads_quoted: "nul \<notin> set s \<Longrightarrow> reads_as (quoted s) [json_token JSON_STRING (string_back s)]"
  by (simp add: reads_as_def read_quoted parse_tokens.simps [of _ _ "quoted s @ _"])

lemma reads_word: "(w, ty) \<in> {(''true'', JSON_TRUE), (''false'', JSON_FALSE), (''null'', JSON_NULL)} \<Longrightarrow> reads_as w [json_token ty []]"
  by (auto simp: reads_as_def parse_tokens.simps [of _ _ "_ # _"] token_simps)

lemma reads_texts: "list_all2 reads_as ss tss \<Longrightarrow> reads_as (nth_texts ty n ss) (concat tss)"
proof (induction arbitrary: n rule: list_all2_induct)
  case (Cons s ss ts tss)
  let ?sep = "if n = 0 then [] else if ty = JSON_ARRAY_BEGIN \<or> even n then '','' else '':''"
  have "reads_as (sep @ s) ts" if "sep \<in> {[], '','', '':''}" for sep
    using that Cons.hyps(1) by (auto simp: reads_as_def parse_separator json_separator_def)
  then have "reads_as (?sep @ s) ts" by simp
  from reads_append [OF this Cons.IH [of "Suc n"]] show ?case by (simp only: nth_texts.simps append_assoc concat.simps)
qed (simp add: reads_Nil)

lemma reads_spanning:
  assumes "reads_as s ts" and "a = JSON_ARRAY_BEGIN \<and> b = JSON_ARRAY_END \<and> x = ''['' \<and> y = '']'' \<or> a = JSON_OBJECT_BEGIN \<and> b = JSON_OBJECT_END \<and> x = ''{'' \<and> y = ''}''"
  shows "reads_as (x @ s @ y) (spanning a b ts)"
  unfolding reads_as_def
proof (intro allI)
  fix obj stack r
  have first: "parse_tokens obj stack (x @ s @ y @ r) = parse_tokens (obj @ [json_token a []]) (length obj # stack) (s @ y @ r)"
    using assms(2) by (auto simp: parse_tokens.simps [of obj stack] token_simps)
  have closing: "parse_tokens o' (p # stack) (y @ r) =
      parse_tokens ((o' @ [json_token b []])[p := ((o' @ [json_token b []]) ! p)\<lparr>json_size := of_nat (Suc (length o') - p)\<rparr>]) stack r" for o' p
    using assms(2) by (auto simp: parse_tokens.simps [of o' "p # stack"] token_simps Let_def)
  show "parse_tokens obj stack ((x @ s @ y) @ r) = parse_tokens (obj @ spanning a b ts) stack r"
    using assms(1) unfolding reads_as_def
    by (simp add: first closing spanning_def nth_append list_update_append)
qed

lemma concat_pairs: "concat (concat (map (\<lambda>p. [[f p], g p]) ms)) = concat (map (\<lambda>p. f p # g p) ms)"
  by (induction ms) auto

lemma reads_json: "without_nul v \<Longrightarrow> reads_as (json_str v) (json_tokens (json_back v))"
proof (induction v)
  case (J_Array vs)
  then have "list_all2 reads_as (map json_str vs) (map (\<lambda>v. json_tokens (json_back v)) vs)"
    by (auto simp: list_all2_conv_all_nth list_all_length)
  from reads_spanning [OF reads_texts [OF this], of JSON_ARRAY_BEGIN JSON_ARRAY_END] show ?case by (simp add: comp_def)
next
  case (J_Object ms)
  have "reads_as (quoted k) [json_token JSON_STRING (string_back k)] \<and> reads_as (json_str v) (json_tokens (json_back v))" if "(k, v) \<in> set ms" for k v
    using J_Object that by (auto simp: list_all_iff intro: reads_quoted)
  then have "list_all2 reads_as (concat (map (\<lambda>(k, v). [quoted k, json_str v]) ms))
      (concat (map (\<lambda>(k, v). [[json_token JSON_STRING (string_back k)], json_tokens (json_back v)]) ms))"
    by (induction ms) (auto intro!: list_all2_appendI)
  from reads_spanning [OF reads_texts [OF this], of JSON_OBJECT_BEGIN JSON_OBJECT_END] show ?case
    by (simp add: comp_def case_prod_unfold concat_pairs)
qed (auto intro: reads_quoted reads_word)

lemma parse_reads: "reads_as s ts \<Longrightarrow> parseJSON s = Inr ts"
proof -
  assume "reads_as s ts"
  then have "parse_tokens [] [] (CHR '' '' # s @ []) = parse_tokens ([] @ ts) [] []"
    unfolding reads_as_def by (simp only: parse_separator json_separator_def simp_thms)
  then show ?thesis by (simp add: parseJSON_def parse_tokens.simps [of _ _ "[]"] readNextToken_def)
qed

text \<open>
  C29. The tokens of a document whose strings hold no NUL, written by the token writer and parsed, are those of
  the same document, with the number of tokens each spans, in which numbers are strings and line feeds and
  tabs in strings and keys have become the letters of their escapes.
\<close>

theorem json_roundtrip:
  assumes "without_nul v"
  shows "parseJSON (json_text (write_object (json_tokens v) new_output)) = Inr (json_tokens (json_back v))"
proof -
  have "json_text (write_object (json_tokens v) new_output) = json_str v"
    by (simp add: write_json new_output_def separate_value_def json_write_def count_value_def)
  then show ?thesis using parse_reads [OF reads_json [OF assms]] by simp
qed

text \<open>A message whose text has a line feed, a number and a list.\<close>

theorem json_roundtrip_witness:
  "parseJSON (json_text (write_object (json_tokens (J_Object [(''a'', J_Array [J_Number ''1'', J_Null]), (''b'', J_String [CHR 0x0A])])) new_output)) =
     Inr (json_tokens (J_Object [(''a'', J_Array [J_String ''1'', J_Null]), (''b'', J_String ''n'')]))"
  using json_roundtrip [of "J_Object [(''a'', J_Array [J_Number ''1'', J_Null]), (''b'', J_String [CHR 0x0A])]"]
  by (simp add: string_back_def)

text \<open>Two numbers with a space between them are one.\<close>

lemma numbers_join: "readNextToken ''1 2]'' = Inr (Some (JSON_NUMBER, ''12''), '']'')"
  by (simp add: readNextToken_def json_separator_def number_char_def is_decimal_def less_eq_char_def)

text \<open>Zero is written as null.\<close>

lemma zero_is_null: "addFloat 0 st = Inr (json_write ''null'' st)"
  by (simp add: addFloat_def isnormal_def mag_of_def)

text \<open>A key of 8188 characters is too long for the buffer of the writer.\<close>

lemma long_key: "length key = 8188 \<Longrightarrow> \<forall>c\<in>set key. escape_char c = [c] \<and> c \<noteq> nul \<Longrightarrow> addObjectEntry key st = Inl (Raise BufferOverflowError)"
proof -
  assume len: "length key = 8188" and plain: "\<forall>c\<in>set key. escape_char c = [c] \<and> c \<noteq> nul"
  have "map escape_char key = map (\<lambda>c. [c]) key" using plain by simp
  then have "escapeString key = key" unfolding escapeString_def by (simp only: concat_map_singleton map_ident)
  then have "takeWhile (\<lambda>c. c \<noteq> nul) (escapeString key) = key" using plain by (simp add: takeWhile_eq_all_conv)
  then show ?thesis using len unfolding addObjectEntry_def json_printf_def by (simp only:) simp
qed

end
