(* ===== verification/Json_Results.thy ===== *)
theory Json_Results
  imports Json_Correct Table_Expr_Correct
begin

text \<open>
  The JSON form of query results: \<open>JSONResultFormat\<close> of src/csql/runtime. The rows go from the operators
  through a callback straight into the writer. Statements that draw charts are not modelled.
\<close>

section \<open>Rendering\<close>

fun comma_separated :: "('a \<Rightarrow> json_output \<Rightarrow> json_output) \<Rightarrow> nat \<Rightarrow> 'a list \<Rightarrow> json_output \<Rightarrow> json_output" where
  "comma_separated f n [] out = out"
| "comma_separated f n (x # xs) out = comma_separated f (Suc n) xs (f x (if 0 < n then json_write '','' out else out))"

definition render_row :: "(json_output \<times> nat) run_state row_callback" where
  "render_row st row = (case st of
      Client (out, j) \<Rightarrow>
        (let out = json_write ''['' (if 0 < j then json_write '','' out else out);
             out = comma_separated (\<lambda>v. addString (toString v)) 0 row out in
         Inr (Client (json_write '']'' out, Suc j), True))
    | _ \<Rightarrow> Inl (Undefined WrongScratchType))"

definition renderTable :: "environment \<Rightarrow> table_expr \<Rightarrow> json_output \<Rightarrow> json_output result" where
  "renderTable env t out =
     bindR (addObjectEntry ''type'' (json_write ''{'' out)) (\<lambda>out.
     bindR (addObjectEntry ''columns'' (json_write '','' (addString ''table'' out))) (\<lambda>out.
     bindR (columnNames t) (\<lambda>cols.
     bindR (addObjectEntry ''rows'' (json_write '','' (json_write '']'' (comma_separated addString 0 cols (json_write ''['' out))))) (\<lambda>out.
     bindR (execute env t render_row (Client (json_write ''['' out, 0))) (\<lambda>st. case st of
         Client (out, j) \<Rightarrow> Inr (json_write ''}'' (json_write '']'' out))
       | _ \<Rightarrow> Inl (Undefined WrongScratchType))))))"

fun renderStatements :: "environment \<Rightarrow> nat \<Rightarrow> table_expr list \<Rightarrow> json_output \<Rightarrow> json_output result" where
  "renderStatements env n [] out = Inr out"
| "renderStatements env n (t # ts) out =
     bindR (renderTable env t (if 0 < n then json_write '','' out else out)) (renderStatements env (Suc n) ts)"

definition formatResults :: "environment \<Rightarrow> table_expr list \<Rightarrow> json_output \<Rightarrow> json_output result" where
  "formatResults env ts out =
     bindR (addObjectEntry ''results'' (json_write ''{'' out)) (\<lambda>out.
     bindR (renderStatements env 0 ts (json_write ''['' out)) (\<lambda>out.
       Inr (json_write ''}'' (json_write '']'' out))))"

section \<open>The text that is written\<close>

lemma json_write_write [simp]: "json_write s (json_write t out) = json_write (t @ s) out"
  by (simp add: json_write_def)

lemma json_write_Nil [simp]: "json_write [] out = out"
  by (simp add: json_write_def)

lemma comma_separated_text:
  "(\<And>x out. f x out = json_write (g x) out) \<Longrightarrow> comma_separated f n xs out = json_write (nth_texts JSON_ARRAY_BEGIN n (map g xs)) out"
  by (induction xs arbitrary: n out) auto

definition array_text :: "string list \<Rightarrow> string" where
  "array_text ss = ''['' @ nth_texts JSON_ARRAY_BEGIN 0 ss @ '']''"

definition row_text :: "svalue list \<Rightarrow> string" where
  "row_text row = array_text (map (quoted \<circ> toString) row)"

lemma addString_quoted: "addString s = json_write (quoted s)"
  by (simp add: addString_def quoted_def)

lemma render_row_text:
  "render_row (Client (out, j)) row = Inr (Client (json_write ((if 0 < j then '','' else []) @ row_text row) out, Suc j), True)"
  using comma_separated_text [of "\<lambda>v. addString (toString v)" "quoted \<circ> toString"]
  by (simp add: render_row_def row_text_def array_text_def addString_quoted)

lemma feed_render:
  "feed render_row rows (Client (out, j)) = Inr (Client (json_write (nth_texts JSON_ARRAY_BEGIN j (map row_text rows)) out, j + length rows))"
  by (induction rows arbitrary: out j) (simp_all add: render_row_text)

lemma execute_render:
  assumes "table_rows env t = Inr rows"
  shows "execute env t render_row (Client (out, 0)) = Inr (Client (json_write (nth_texts JSON_ARRAY_BEGIN 0 (map row_text rows)) out, length rows))"
proof -
  have "settled (\<lambda>_. False) (=) render_row"
    by (rule settled_never) (auto simp: render_row_def Let_def split: run_state.splits)
  from similar_never [OF execute_similar [OF assms this, of "Client (out, 0)"]] show ?thesis by (simp add: feed_render)
qed

text \<open>A key that needs no escape, in front of its value.\<close>

definition entry :: "string \<Rightarrow> string \<Rightarrow> string" where
  "entry k s = quoted k @ '': '' @ s"

lemma add_entry:
  assumes "length (escapeString k) < 8000" and "nul \<notin> set (escapeString k)"
  shows "addObjectEntry k out = Inr (json_write (quoted k @ '': '') out)"
proof -
  have "takeWhile (\<lambda>c. c \<noteq> nul) (escapeString k) = escapeString k" using assms(2) by (auto simp: takeWhile_eq_all_conv)
  then show ?thesis using assms(1) unfolding addObjectEntry_def json_printf_def quoted_def by (simp only:) simp
qed

lemma result_keys:
  "k \<in> {''type'', ''columns'', ''rows'', ''results''} \<Longrightarrow> length (escapeString k) < 8000 \<and> nul \<notin> set (escapeString k) \<and> string_back k = k \<and> nul \<notin> set k"
  by (auto simp: escapeString_def string_back_def)

definition table_text :: "string list \<Rightarrow> svalue list list \<Rightarrow> string" where
  "table_text cols rows = ''{'' @ entry ''type'' (quoted ''table'') @ '','' @ entry ''columns'' (array_text (map quoted cols)) @ '','' @
     entry ''rows'' (array_text (map row_text rows)) @ ''}''"

lemma renderTable_text:
  assumes "columnNames t = Inr cols" and "table_rows env t = Inr rows"
  shows "renderTable env t out = Inr (json_write (table_text cols rows) out)"
  using comma_separated_text [of addString quoted] result_keys
  by (simp add: renderTable_def add_entry assms(1) execute_render [OF assms(2)] addString_quoted table_text_def entry_def array_text_def)

lemma renderStatements_text:
  "list_all2 (\<lambda>t (cols, rows). columnNames t = Inr cols \<and> table_rows env t = Inr rows) ts tables \<Longrightarrow>
     renderStatements env n ts out = Inr (json_write (nth_texts JSON_ARRAY_BEGIN n (map (\<lambda>(cols, rows). table_text cols rows) tables)) out)"
proof (induction arbitrary: n out rule: list_all2_induct)
  case (Cons t ts table tables)
  obtain cols rows where "table = (cols, rows)" by (cases table)
  then show ?case using Cons renderTable_text [of t cols env rows] by simp
qed simp

section \<open>The document that is read\<close>

definition table_doc :: "string list \<Rightarrow> svalue list list \<Rightarrow> json" where
  "table_doc cols rows = J_Object [(''type'', J_String ''table''), (''columns'', J_Array (map J_String cols)),
     (''rows'', J_Array (map (\<lambda>row. J_Array (map (J_String \<circ> toString) row)) rows))]"

definition results_doc :: "(string list \<times> svalue list list) list \<Rightarrow> json" where
  "results_doc tables = J_Object [(''results'', J_Array (map (\<lambda>(cols, rows). table_doc cols rows) tables))]"

lemma reads_entry: "k \<in> {''type'', ''columns'', ''rows'', ''results''} \<Longrightarrow> reads_as s ts \<Longrightarrow> reads_as (entry k s) (json_token JSON_STRING k # ts)"
proof -
  assume k: "k \<in> {''type'', ''columns'', ''rows'', ''results''}" and s: "reads_as s ts"
  have "reads_as ('': '' @ s) ts" using s by (simp add: reads_as_def parse_separator json_separator_def)
  then show ?thesis using reads_append [OF reads_quoted] result_keys [OF k] by (fastforce simp: entry_def)
qed

lemma reads_array: "list_all2 reads_as ss tss \<Longrightarrow> reads_as (array_text ss) (spanning JSON_ARRAY_BEGIN JSON_ARRAY_END (concat tss))"
  using reads_spanning [OF reads_texts [of ss tss JSON_ARRAY_BEGIN 0], of JSON_ARRAY_BEGIN JSON_ARRAY_END "''[''" "'']''"] by (simp add: array_text_def)

lemma reads_map: "(\<And>x. x \<in> set xs \<Longrightarrow> reads_as (f x) (g x)) \<Longrightarrow> list_all2 reads_as (map f xs) (map g xs)"
  by (auto simp: list_all2_conv_all_nth)

lemma reads_row:
  "\<forall>v\<in>set row. nul \<notin> set (toString v) \<Longrightarrow> reads_as (row_text row) (json_tokens (json_back (J_Array (map (J_String \<circ> toString) row))))"
  using reads_array [OF reads_map [of row "quoted \<circ> toString" "\<lambda>v. [json_token JSON_STRING (string_back (toString v))]"]] reads_quoted
  by (simp add: row_text_def comp_def)

lemma reads_comma: "reads_as s ts \<Longrightarrow> reads_as ('','' @ s) ts"
  by (simp add: reads_as_def parse_separator json_separator_def)

lemma reads_table:
  assumes "\<forall>c\<in>set cols. nul \<notin> set c" and "\<forall>row\<in>set rows. \<forall>v\<in>set row. nul \<notin> set (toString v)"
  shows "reads_as (table_text cols rows) (json_tokens (json_back (table_doc cols rows)))"
proof -
  have "reads_as (entry ''type'' (quoted ''table'')) [json_token JSON_STRING ''type'', json_token JSON_STRING ''table'']"
    using reads_entry [OF _ reads_quoted [of "''table''"]] by (simp add: string_back_def)
  moreover have "reads_as (array_text (map quoted cols)) (json_tokens (json_back (J_Array (map J_String cols))))"
    using reads_array [OF reads_map [of cols quoted "\<lambda>s. [json_token JSON_STRING (string_back s)]"]] reads_quoted assms(1)
    by (simp add: comp_def)
  from reads_entry [OF _ this, of "''columns''"]
  have "reads_as ('','' @ entry ''columns'' (array_text (map quoted cols))) (json_token JSON_STRING ''columns'' # json_tokens (json_back (J_Array (map J_String cols))))"
    by (intro reads_comma) simp
  moreover have "reads_as (array_text (map row_text rows)) (json_tokens (json_back (J_Array (map (\<lambda>row. J_Array (map (J_String \<circ> toString) row)) rows))))"
    using reads_array [OF reads_map [of rows row_text "\<lambda>row. json_tokens (json_back (J_Array (map (J_String \<circ> toString) row)))"]] reads_row assms(2)
    by (simp add: comp_def)
  from reads_entry [OF _ this, of "''rows''"]
  have "reads_as ('','' @ entry ''rows'' (array_text (map row_text rows)))
      (json_token JSON_STRING ''rows'' # json_tokens (json_back (J_Array (map (\<lambda>row. J_Array (map (J_String \<circ> toString) row)) rows))))"
    by (intro reads_comma) simp
  ultimately have "reads_as (entry ''type'' (quoted ''table'') @ ('','' @ entry ''columns'' (array_text (map quoted cols))) @ ('','' @ entry ''rows'' (array_text (map row_text rows))))
      ([json_token JSON_STRING ''type'', json_token JSON_STRING ''table''] @ (json_token JSON_STRING ''columns'' # json_tokens (json_back (J_Array (map J_String cols)))) @
       (json_token JSON_STRING ''rows'' # json_tokens (json_back (J_Array (map (\<lambda>row. J_Array (map (J_String \<circ> toString) row)) rows)))))"
    by (intro reads_append)
  from reads_spanning [OF this, of JSON_OBJECT_BEGIN JSON_OBJECT_END] show ?thesis
    by (simp add: table_text_def table_doc_def string_back_def)
qed

text \<open>
  C28. A client that parses the JSON of query results finds the tables: when every statement has its columns
  and, by the relational algebra, its rows, and no text holds a NUL, the writer does not fail, and
  its text parses to one object whose list of results has, for each statement in order, the names of the columns and
  the rows as texts, in which line feeds and tabs have become letters.
\<close>

theorem results_readable:
  assumes "list_all2 (\<lambda>t (cols, rows). columnNames t = Inr cols \<and> table_rows env t = Inr rows) ts tables"
    and "\<forall>(cols, rows)\<in>set tables. (\<forall>c\<in>set cols. nul \<notin> set c) \<and> (\<forall>row\<in>set rows. \<forall>v\<in>set row. nul \<notin> set (toString v))"
  shows "\<exists>out. formatResults env ts new_output = Inr out \<and> parseJSON (json_text out) = Inr (json_tokens (json_back (results_doc tables)))"
proof -
  let ?texts = "map (\<lambda>(cols, rows). table_text cols rows) tables"
  let ?text = "''{'' @ entry ''results'' (array_text ?texts) @ ''}''"
  have out: "formatResults env ts new_output = Inr (json_write ?text new_output)"
    using result_keys by (simp add: formatResults_def add_entry renderStatements_text [OF assms(1)] entry_def array_text_def)
  have "list_all2 reads_as ?texts (map (\<lambda>(cols, rows). json_tokens (json_back (table_doc cols rows))) tables)"
    using assms(2) reads_table by (intro reads_map) auto
  from reads_entry [OF _ reads_array [OF this], of "''results''"]
  have "reads_as (entry ''results'' (array_text ?texts))
      (json_token JSON_STRING ''results'' # json_tokens (json_back (J_Array (map (\<lambda>(cols, rows). table_doc cols rows) tables))))"
    by (simp add: comp_def case_prod_unfold)
  from reads_spanning [OF this, of JSON_OBJECT_BEGIN JSON_OBJECT_END]
  have "reads_as ?text (json_tokens (json_back (results_doc tables)))" by (simp add: results_doc_def string_back_def)
  then have "parseJSON ?text = Inr (json_tokens (json_back (results_doc tables)))" by (rule parse_reads)
  then show ?thesis using out by (simp add: json_write_def new_output_def)
qed

theorem results_readable_witness:
  "\<exists>out. formatResults \<lparr>hash_order = (\<lambda>gs. gs), std_sort = (\<lambda>_ rows. Inr rows), listed = [], finished = (\<lambda>xs. xs)\<rparr>
      [LimitClause 1 0 (Scan [''a''] [[Str ''x''], [Str ''y'']])] new_output = Inr out \<and>
    parseJSON (json_text out) = Inr (json_tokens (results_doc [([''a''], [[Str ''x'']])]))"
  using results_readable [of "\<lparr>hash_order = (\<lambda>gs. gs), std_sort = (\<lambda>_ rows. Inr rows), listed = [], finished = (\<lambda>xs. xs)\<rparr>"
      "[LimitClause 1 0 (Scan [''a''] [[Str ''x''], [Str ''y'']])]" "[([''a''], [[Str ''x'']])]"]
  by (simp add: limit_end_def results_doc_def table_doc_def string_back_def)

end
