(* ===== verification/Spec2Isabelle.thy ===== *)
theory Spec2Isabelle
  imports Prelude Tokenizer Query_Syntax Streams SValue Expr_Boolean Expr_Math Aggregate Strings
    Expr_String Value_Expr Vm_Spec Group_By_Correct
    Query_Plan_Columns Order_By CSTable_Scan_Nested
    Http_Message_Correct Record_Roundtrip
    Message_Codec_Correct Human_Correct CSTable_Csv_Correct Json_Results
begin

text \<open>
  ChartSQL is a SQL engine in C++ (src/csql) with columnar files (src/cstable), on a library of its own
  (src/stx). This development models the path of a query from its text to its rows, the files the rows come
  from, and the parts of the library that read and write data for them.

  How the parts interact. A query is a text; the tokenizer cuts it into tokens, the parser builds a syntax
  tree of each statement, the query plan builder turns a tree into a tree of query nodes and its expressions
  into terms, the compiler turns these into small programs with a scratch memory for aggregates, and the
  table expressions run: they hand rows to each other through callbacks that can stop them. Rows come from
  a columnar file, whose columns were taken apart from nested messages by the table builder, or from a
  text file. Partial results of GROUP BY are serialized, cached and merged. Requests and results travel over HTTP.

  Theories and code (paths below src/):

  \<^item> Prelude: the errors and undefined behaviours of the program as values, \<open>'a result\<close>, sequencing
    (\<open>bindR\<close>, \<open>mapR\<close>, \<open>foldR\<close>) and lists. Double: IEEE 754 doubles as 64-bit words. Streams:
    stx/io/inputstream.cc and outputstream.cc. Strings: stx/stringutil.cc. Utf8: stx/UTF8.cc.
  \<^item> Token, Tokenizer: csql/parser/token.cc, tokenize.cc. Ast: astnode.cc. Parser_Expr, Parser_Stmt: parser.cc.
    Expr_Syntax, Query_Syntax: printers of expressions and of SELECT statements, which the parser inverts.
  \<^item> SValue: csql/svalue.cc. Expr_Boolean, Expr_Math, Expr_String, Aggregate: csql/expressions. Value_Expr:
    ValueExpression nodes and the symbol table. Vm: compiler.cc and vm.cc. Vm_Spec: the value of an expression and of
    an aggregation, which programs compute. Vm_Merge: merging and serializing.
  \<^item> Query_Tree: csql/qtree. Query_Plan, Query_Plan_Build: queryplanbuilder.cc. Query_Plan_Columns,
    Query_Plan_Total: the columns of a grouping, and which statements are planned in finitely many steps.
  \<^item> Group_By, Group_By_Correct: GroupBy.cc and GroupByMerge.cc. Table_Expr, Table_Expr_Correct, Order_By: the operators of
    csql/runtime, their composition by TableExpressionBuilder.cc, and the relational algebra they implement.
  \<^item> Column, Column_Correct: writers and readers of columns (cstable, stx/util/BitPack*). CSTable, CSTable_Correct: the file
    format. CSTable_Scan, CSTable_Scan_Correct, CSTable_Scan_Nested: csql/CSTableScan.cc.
  \<^item> Message: stx/protobuf/MessageObject.cc and MessageSchema.cc. Message_Codec, Message_Codec_Correct: MessageEncoder.cc,
    MessageDecoder.cc and the encoding of schemas. CSTable_Builder, Record_Shredding: CSTableBuilder.cc, records into
    columns. Record_Materializer, Record_Assembly, Record_Roundtrip: RecordMaterializer.cc, columns into records.
  \<^item> Civil_Time, Civil_Time_Correct: stx/ISO8601.cc, UnixTime.cc. Human, Human_Correct: stx/human.cc. Csv, Csv_Correct: stx/csv and
    csql/backends/csv. CSTable_Csv, CSTable_Csv_Correct: the import of text into columns.
  \<^item> Uri, Uri_Correct: stx/uri.cc. Http_Parser, Http_Parser_Correct: stx/http/httpparser.cc. Http_Message,
    Http_Message_Correct: requests, responses, cookies and httpgenerator.cc.
  \<^item> Json, Json_Correct: stx/json, the tokens of a document, their reader and writer. Json_Results: the JSON form of
    query results, csql/runtime/JSONResultFormat.cc.

  State and operations. A class is a record, and a method a function from the record to the new record, with
  \<open>Inl\<close> where the code throws, where it reads outside its memory or does anything else C++ leaves undefined, and
  where it does not end (\<open>OutOfFuel\<close>). Callbacks are functions on the state of their caller. Maps that the code keeps in
  hash tables are partial functions or association lists, with the order of iteration a parameter.
  Integers are words of the width of the code, or \<open>nat\<close> where they count what is in memory.

  What the lemmas show. Round trips: printing and parsing of tokens, expressions, SELECT statements, URIs, HTTP
  messages, dates, UTF-8; writing and reading of streams, values, columns, columnar files, messages, schemas,
  records, text tables and JSON. Refinement and equivalence: compiled programs and expression values, aggregation over any
  partition, GROUP BY and its distributed merge, operators and relational algebra, the scan of a columnar file and
  selection, the import of text and adding of records, the JSON of results and their rows, Unix time and the calendar. Totality: the tokenizer, the parser and
  the planner end, with the one kind of statement for which the planner does not, and the scan of nested columns
  ends. Invariants and bounds: disjoint scratch slots, levels within their schema, exact integer sums and
  overflow. Locales state the interfaces: what the statement parser needs of the expression parser
  (\<open>expression_parser\<close>, \<open>agreeing_parsers\<close>), a writer and a reader of one kind of value (\<open>wire_format\<close>), and the
  functions of an aggregate with their merge (\<open>aggregate\<close>, \<open>mergeable_aggregate\<close>); each is interpreted on the definitions of
  the code.

  Parameters and hypotheses. \<open>pow\<close> of libm; the permutation that \<open>std::sort\<close> makes, sorted when the comparison is a
  strict weak order; the order of hash maps and of the sources of a merge; tables behind the scan
  interface; the bit packing of the simdcomp library (\<open>packs\<close>: unpacking inverts packing); the heap's leftovers in the gaps
  of a file; \<open>strftime\<close>, the clock and the contents of files. Each property with such a hypothesis has a
  witness with a concrete function.

  Bounds and fuel. The planner: a number of statements, four of which are enough for what the parser accepts without
  nested aggregates. \<open>scan_loop\<close>: the number of values in the columns is enough (CSTable_Scan_Nested). \<open>decode_fields\<close>:
  more than the number of bytes of a well-formed message is enough; a malformed one can loop for ever
  (\<open>decode_endless\<close>). \<open>decode_schema\<close>: one more than the number of bytes is always enough
  (\<open>decode_schema_fuel\<close>). \<open>isValidUTF8\<close>: one more than the number of bytes, unless it never ends (\<open>validation_never_ends\<close>).

  Not modelled: rendering (src/cplot, csql/runtime/charts) and the result formats other than JSON, which print what the model computes;
  sockets, threads, event loops, RPC and HTTP connections, whose order enters as a parameter; files, pages and
  databases of other libraries; the JSON forms of messages, the flat JSON reader and JSON-RPC; the caching wrappers and progress
  counters of execution plans; command line tools, logging and statistics; and the vendored libraries.
\<close>

end
